(* ===== verification/Prelude.thy ===== *)
theory Prelude
  imports Main "HOL-Library.Word"
begin

text \<open>
  Shared vocabulary of the development: the machine integer types of
  \<^verbatim>\<open>IbAccess/Common/Public/datatypes.h\<close>, the status codes of
  \<^verbatim>\<open>FSTATUS\<close> that the modelled functions return, the collections of
  simplification rules the component theories share, and a few generic facts on lists.
\<close>

type_synonym uint8 = "8 word"
type_synonym uint16 = "16 word"
type_synonym uint32 = "32 word"
type_synonym uint64 = "64 word"

text \<open>The values of \<^verbatim>\<open>FSTATUS\<close> used by the modelled functions.\<close>

datatype fstatus =
    FSUCCESS
  | FERROR
  | FINVALID_OPERATION
  | FINVALID_PARAMETER
  | FINSUFFICIENT_RESOURCES
  | FINSUFFICIENT_MEMORY
  | FDUPLICATE
  | FNOT_FOUND

text \<open>
  Rule collections: \<open>heap_simps\<close> holds the footprint rules of the pointer structures
  (what a write leaves alone), \<open>shape_simps\<close> the rules that describe an abstract shape.
\<close>

named_theorems heap_simps
named_theorems shape_simps

subsection \<open>Lists\<close>

lemma sorted_wrt_snoc:
  "sorted_wrt P (xs @ [x]) \<longleftrightarrow> sorted_wrt P xs \<and> (\<forall>y\<in>set xs. P y x)"
  by (simp add: sorted_wrt_append)

lemma sorted_wrt_mid:
  "sorted_wrt P (xs @ x # ys) \<longleftrightarrow>
     sorted_wrt P (xs @ ys) \<and> (\<forall>y\<in>set xs. P y x) \<and> (\<forall>y\<in>set ys. P x y)"
  by (auto simp: sorted_wrt_append)

lemma sorted_wrt_around:
  assumes "sorted_wrt P (xs @ x # ys)"
  shows "sorted_wrt P xs" "sorted_wrt P ys" "\<forall>y\<in>set xs. P y x" "\<forall>y\<in>set ys. P x y"
  using assms by (auto simp: sorted_wrt_append)

lemma distinct_mid:
  "distinct (xs @ x # ys) \<longleftrightarrow> distinct (xs @ ys) \<and> x \<notin> set xs \<and> x \<notin> set ys"
  by auto

subsection \<open>Words\<close>

lemma unat_bound: "unat (w :: 'a :: len word) < 2 ^ LENGTH('a)"
  by (rule unsigned_less)

lemma unat_ucast_mod:
  "unat (ucast (w :: 'a :: len word) :: 'b :: len word) = unat w mod 2 ^ LENGTH('b)"
  by (simp add: unsigned_ucast_eq take_bit_eq_mod)

lemma unat_ucast_small:
  "unat (w :: 'a :: len word) < 2 ^ LENGTH('b) \<Longrightarrow> unat (ucast w :: 'b :: len word) = unat w"
  by (simp add: unat_ucast_mod)

lemma less_plus_one:
  fixes i e :: "'a :: len word"
  assumes "i < e"
  shows "unat (i + 1) = Suc (unat i)"
proof -
  have "Suc (unat i) < 2 ^ LENGTH('a)"
    using assms unat_bound [of e] unfolding word_less_nat_alt by linarith
  then show ?thesis by (simp add: unat_word_ariths)
qed

lemma less_minus_one: "(i :: 'a :: len word) \<noteq> 0 \<Longrightarrow> unat (i - 1) = unat i - 1"
  by (simp add: unat_minus_one)

end
