(* ===== verification/Point.thy ===== *)
theory Point
  imports Prelude
begin

text \<open>
  The points of \<^verbatim>\<open>Topology/point.c\<close>: the focus of a report, a port, node, IOC,
  system or list of them in the fabric, together with expected nodes, SMs and links of the
  topology file.

  Objects are addresses, and the links between them (\<^verbatim>\<open>portp->nodep\<close> and so on) are
  the fields of a \<open>fabric\<close> record.  A tag and the union it selects are one value.  A
  \<^verbatim>\<open>DLIST\<close> is the sequence of its objects; a list head that was copied bitwise is
  \<open>SharedList\<close>: its items point back at the original head, so a walk that finds nothing
  does not end at the copy, and destroying it frees the items the original still holds.  The
  model takes every use of such a head as undefined, the result \<open>None\<close>.  Outcomes of allocations are arguments; ASSERT is not modelled.
\<close>

type_synonym port = nat
type_synonym node = nat
type_synonym ioc = nat
type_synonym iou = nat
type_synonym sys = nat
type_synonym expected = nat

datatype node_type = STL_NODE_FI | STL_NODE_SW

record fabric =
  port_nodep :: "port \<Rightarrow> node"
  node_systemp :: "node \<Rightarrow> sys"
  node_type_of :: "node \<Rightarrow> node_type"
  node_port_count :: "node \<Rightarrow> nat"
  system_node_count :: "sys \<Rightarrow> nat"
  ioc_ioup :: "ioc \<Rightarrow> iou"
  iou_nodep :: "iou \<Rightarrow> node"
  iou_ioc_count :: "iou \<Rightarrow> nat"

datatype dlist = DList "nat list" | SharedList

fun list_objs :: "dlist \<Rightarrow> nat list option" where
  "list_objs (DList xs) = Some xs"
| "list_objs SharedList = None"

definition list_has :: "(nat \<Rightarrow> bool) \<Rightarrow> dlist \<Rightarrow> bool option" where
  "list_has P l = map_option (\<lambda>xs. \<exists>x \<in> set xs. P x) (list_objs l)"

datatype point_type =
    POINT_TYPE_NONE | POINT_TYPE_PORT | POINT_TYPE_PORT_LIST | POINT_TYPE_NODE | POINT_TYPE_NODE_LIST
  | POINT_TYPE_IOC | POINT_TYPE_IOC_LIST | POINT_TYPE_SYSTEM | POINT_TYPE_NODE_PAIR_LIST

text \<open>\<^verbatim>\<open>Type\<close> with \<^verbatim>\<open>u\<close>.\<close>

datatype point_u =
    P_None | P_Port port | P_PortList dlist | P_Node node | P_NodeList dlist
  | P_Ioc ioc | P_IocList dlist | P_System sys | P_NodePairList dlist dlist

fun point_tag :: "point_u \<Rightarrow> point_type" where
  "point_tag P_None = POINT_TYPE_NONE"
| "point_tag (P_Port _) = POINT_TYPE_PORT"
| "point_tag (P_PortList _) = POINT_TYPE_PORT_LIST"
| "point_tag (P_Node _) = POINT_TYPE_NODE"
| "point_tag (P_NodeList _) = POINT_TYPE_NODE_LIST"
| "point_tag (P_Ioc _) = POINT_TYPE_IOC"
| "point_tag (P_IocList _) = POINT_TYPE_IOC_LIST"
| "point_tag (P_System _) = POINT_TYPE_SYSTEM"
| "point_tag (P_NodePairList _ _) = POINT_TYPE_NODE_PAIR_LIST"

text \<open>
  \<^verbatim>\<open>EnodeType\<close> with \<^verbatim>\<open>u2\<close>, and likewise for the expected SMs and links; the
  three are alike, and so are the functions on them.
\<close>

datatype expected_type = EXPECTED_NONE | EXPECTED_ONE | EXPECTED_LIST

datatype expected_u = E_None | E_One expected | E_List dlist

fun expected_tag :: "expected_u \<Rightarrow> expected_type" where
  "expected_tag E_None = EXPECTED_NONE"
| "expected_tag (E_One _) = EXPECTED_ONE"
| "expected_tag (E_List _) = EXPECTED_LIST"

record point =
  p_u :: point_u
  haveSW :: bool
  haveFI :: bool
  p_enode :: expected_u
  p_esm :: expected_u
  p_elink :: expected_u

subsection \<open>Initialisation\<close>

definition PointInit :: "point \<Rightarrow> point" where
  "PointInit point = point\<lparr>p_u := P_None, haveSW := False, haveFI := False, p_enode := E_None,
     p_esm := E_None, p_elink := E_None\<rparr>"

definition PointInitSimple :: "point \<Rightarrow> point_type \<Rightarrow> nat \<Rightarrow> point" where
  "PointInitSimple point type obj =
     point\<lparr>p_u := (case type of
         POINT_TYPE_PORT \<Rightarrow> P_Port obj
       | POINT_TYPE_NODE \<Rightarrow> P_Node obj
       | POINT_TYPE_IOC \<Rightarrow> P_Ioc obj
       | POINT_TYPE_SYSTEM \<Rightarrow> P_System obj
       | _ \<Rightarrow> P_None)\<rparr>"

definition expected_simple :: "expected_type \<Rightarrow> expected \<Rightarrow> expected_u" where
  "expected_simple type obj = (case type of EXPECTED_ONE \<Rightarrow> E_One obj | _ \<Rightarrow> E_None)"

definition PointInitEnodeSimple :: "point \<Rightarrow> expected_type \<Rightarrow> expected \<Rightarrow> point" where
  "PointInitEnodeSimple point type obj = point\<lparr>p_enode := expected_simple type obj\<rparr>"

definition PointInitEsmSimple :: "point \<Rightarrow> expected_type \<Rightarrow> expected \<Rightarrow> point" where
  "PointInitEsmSimple point type obj = point\<lparr>p_esm := expected_simple type obj\<rparr>"

definition PointInitElinkSimple :: "point \<Rightarrow> expected_type \<Rightarrow> expected \<Rightarrow> point" where
  "PointInitElinkSimple point type obj = point\<lparr>p_elink := expected_simple type obj\<rparr>"

text \<open>\<open>ok\<close> says whether every \<^verbatim>\<open>ListInit\<close> of the call succeeds.\<close>

definition PointInitList :: "bool \<Rightarrow> point \<Rightarrow> point_type \<Rightarrow> fstatus \<times> point" where
  "PointInitList ok point type =
     (let point = point\<lparr>p_u := P_None\<rparr>;
          init = (\<lambda>u. if ok then (FSUCCESS, point\<lparr>p_u := u\<rparr>) else (FINSUFFICIENT_MEMORY, point))
      in case type of
           POINT_TYPE_PORT_LIST \<Rightarrow> init (P_PortList (DList []))
         | POINT_TYPE_NODE_LIST \<Rightarrow> init (P_NodeList (DList []))
         | POINT_TYPE_IOC_LIST \<Rightarrow> init (P_IocList (DList []))
         | POINT_TYPE_NODE_PAIR_LIST \<Rightarrow> init (P_NodePairList (DList []) (DList []))
         | _ \<Rightarrow> (FINVALID_OPERATION, point))"

definition expected_init_list :: "bool \<Rightarrow> expected_type \<Rightarrow> fstatus \<times> expected_u" where
  "expected_init_list ok type =
     (if type \<noteq> EXPECTED_LIST then (FINVALID_OPERATION, E_None)
      else if ok then (FSUCCESS, E_List (DList [])) else (FINSUFFICIENT_MEMORY, E_None))"

definition PointInitEnodeList :: "bool \<Rightarrow> point \<Rightarrow> expected_type \<Rightarrow> fstatus \<times> point" where
  "PointInitEnodeList ok point type =
     (case expected_init_list ok type of (st, u) \<Rightarrow> (st, point\<lparr>p_enode := u\<rparr>))"

definition PointInitEsmList :: "bool \<Rightarrow> point \<Rightarrow> expected_type \<Rightarrow> fstatus \<times> point" where
  "PointInitEsmList ok point type =
     (case expected_init_list ok type of (st, u) \<Rightarrow> (st, point\<lparr>p_esm := u\<rparr>))"

definition PointInitElinkList :: "bool \<Rightarrow> point \<Rightarrow> expected_type \<Rightarrow> fstatus \<times> point" where
  "PointInitElinkList ok point type =
     (case expected_init_list ok type of (st, u) \<Rightarrow> (st, point\<lparr>p_elink := u\<rparr>))"

subsection \<open>Destruction\<close>

definition ListDestroy :: "dlist \<Rightarrow> unit option" where
  "ListDestroy l = map_option (\<lambda>_. ()) (list_objs l)"

definition PointFabricDestroy :: "point \<Rightarrow> point option" where
  "PointFabricDestroy point =
     (let freed = (case p_u point of
          P_PortList l \<Rightarrow> ListDestroy l
        | P_NodeList l \<Rightarrow> ListDestroy l
        | P_IocList l \<Rightarrow> ListDestroy l
        | P_NodePairList l1 l2 \<Rightarrow> Option.bind (ListDestroy l1) (\<lambda>_. ListDestroy l2)
        | _ \<Rightarrow> Some ())
      in map_option (\<lambda>_. point\<lparr>p_u := P_None\<rparr>) freed)"

definition expected_destroy :: "expected_u \<Rightarrow> unit option" where
  "expected_destroy u = (case u of E_List l \<Rightarrow> ListDestroy l | _ \<Rightarrow> Some ())"

definition PointEnodeDestroy :: "point \<Rightarrow> point option" where
  "PointEnodeDestroy point = map_option (\<lambda>_. point\<lparr>p_enode := E_None\<rparr>) (expected_destroy (p_enode point))"

definition PointEsmDestroy :: "point \<Rightarrow> point option" where
  "PointEsmDestroy point = map_option (\<lambda>_. point\<lparr>p_esm := E_None\<rparr>) (expected_destroy (p_esm point))"

definition PointElinkDestroy :: "point \<Rightarrow> point option" where
  "PointElinkDestroy point = map_option (\<lambda>_. point\<lparr>p_elink := E_None\<rparr>) (expected_destroy (p_elink point))"

definition PointDestroy :: "point \<Rightarrow> point option" where
  "PointDestroy point =
     Option.bind (PointFabricDestroy point) (\<lambda>point.
     Option.bind (PointEnodeDestroy point) (\<lambda>point.
     Option.bind (PointEsmDestroy point) PointElinkDestroy))"

subsection \<open>Predicates\<close>

text \<open>A point may be the NULL pointer.\<close>

definition PointValid :: "point option \<Rightarrow> bool" where
  "PointValid point = (case point of
       None \<Rightarrow> False
     | Some p \<Rightarrow> p_u p \<noteq> P_None \<or> p_enode p \<noteq> E_None \<or> p_esm p \<noteq> E_None \<or> p_elink p \<noteq> E_None)"

definition PointIsInInit :: "point option \<Rightarrow> bool" where
  "PointIsInInit point = (case point of
       None \<Rightarrow> False
     | Some p \<Rightarrow> p_u p = P_None \<and> p_enode p = E_None \<and> p_esm p = E_None \<and> p_elink p = E_None)"

definition PointTypeIsNodePairList :: "point option \<Rightarrow> bool" where
  "PointTypeIsNodePairList point =
     (case point of None \<Rightarrow> False | Some p \<Rightarrow> point_tag (p_u p) = POINT_TYPE_NODE_PAIR_LIST)"

definition PointIsTypeNodeList :: "point option \<Rightarrow> bool" where
  "PointIsTypeNodeList point =
     (case point of None \<Rightarrow> False | Some p \<Rightarrow> point_tag (p_u p) = POINT_TYPE_NODE_LIST)"

definition PointHaveSw :: "point option \<Rightarrow> bool" where
  "PointHaveSw point = (case point of None \<Rightarrow> False | Some p \<Rightarrow> haveSW p)"

definition PointHaveFI :: "point option \<Rightarrow> bool" where
  "PointHaveFI point = (case point of None \<Rightarrow> False | Some p \<Rightarrow> haveFI p)"

subsection \<open>Appending\<close>

text \<open>\<^verbatim>\<open>ListInsertTail\<close>: \<open>Some None\<close> when it is out of memory.\<close>

definition ListInsertTail :: "bool \<Rightarrow> dlist \<Rightarrow> nat \<Rightarrow> dlist option option" where
  "ListInsertTail ok l obj =
     map_option (\<lambda>xs. if ok then Some (DList (xs @ [obj])) else None) (list_objs l)"

text \<open>Every failure of an append destroys the whole point.\<close>

definition destroy_and_return :: "fstatus \<Rightarrow> point \<Rightarrow> (fstatus \<times> point) option" where
  "destroy_and_return st point = map_option (\<lambda>p. (st, p)) (PointDestroy point)"

definition insert_or_destroy ::
  "bool \<Rightarrow> dlist \<Rightarrow> nat \<Rightarrow> (dlist \<Rightarrow> point) \<Rightarrow> point \<Rightarrow> (fstatus \<times> point) option" where
  "insert_or_destroy ok l obj put point =
     (case ListInsertTail ok l obj of
        None \<Rightarrow> None
      | Some None \<Rightarrow> destroy_and_return FINSUFFICIENT_MEMORY point
      | Some (Some l) \<Rightarrow> Some (FSUCCESS, put l))"

text \<open>The outcomes: of the \<^verbatim>\<open>ListInit\<close> calls and of \<^verbatim>\<open>ListInsertTail\<close>.\<close>

type_synonym outcomes = "bool \<times> bool"

definition PointListAppend ::
  "outcomes \<Rightarrow> point \<Rightarrow> point_type \<Rightarrow> nat \<Rightarrow> (fstatus \<times> point) option" where
  "PointListAppend ok point type obj =
     (let (status, point) =
            (if p_u point = P_None then PointInitList (fst ok) point type
             else if type \<noteq> point_tag (p_u point) then (FINVALID_OPERATION, point)
             else (FSUCCESS, point))
      in if status \<noteq> FSUCCESS then destroy_and_return status point
         else case p_u point of
             P_PortList l \<Rightarrow> insert_or_destroy (snd ok) l obj (\<lambda>l. point\<lparr>p_u := P_PortList l\<rparr>) point
           | P_NodeList l \<Rightarrow> insert_or_destroy (snd ok) l obj (\<lambda>l. point\<lparr>p_u := P_NodeList l\<rparr>) point
           | P_IocList l \<Rightarrow> insert_or_destroy (snd ok) l obj (\<lambda>l. point\<lparr>p_u := P_IocList l\<rparr>) point
           | _ \<Rightarrow> destroy_and_return FINVALID_OPERATION point)"

text \<open>The three appends to an expected list differ in the field only.\<close>

definition expected_append ::
  "outcomes \<Rightarrow> (point \<Rightarrow> expected_u) \<Rightarrow> (expected_u \<Rightarrow> point \<Rightarrow> point) \<Rightarrow>
   point \<Rightarrow> expected_type \<Rightarrow> expected \<Rightarrow> (fstatus \<times> point) option" where
  "expected_append ok get put point type obj =
     (let (status, point) =
            (if get point = E_None
             then (case expected_init_list (fst ok) type of (st, u) \<Rightarrow> (st, put u point))
             else if type \<noteq> expected_tag (get point) then (FINVALID_OPERATION, point)
             else (FSUCCESS, point))
      in if status \<noteq> FSUCCESS then destroy_and_return status point
         else case get point of
             E_List l \<Rightarrow> insert_or_destroy (snd ok) l obj (\<lambda>l. put (E_List l) point) point
           | _ \<Rightarrow> destroy_and_return FINVALID_OPERATION point)"

definition PointEnodeListAppend ::
  "outcomes \<Rightarrow> point \<Rightarrow> expected_type \<Rightarrow> expected \<Rightarrow> (fstatus \<times> point) option" where
  "PointEnodeListAppend ok = expected_append ok p_enode (\<lambda>u. p_enode_update (\<lambda>_. u))"

definition PointEsmListAppend ::
  "outcomes \<Rightarrow> point \<Rightarrow> expected_type \<Rightarrow> expected \<Rightarrow> (fstatus \<times> point) option" where
  "PointEsmListAppend ok = expected_append ok p_esm (\<lambda>u. p_esm_update (\<lambda>_. u))"

definition PointElinkListAppend ::
  "outcomes \<Rightarrow> point \<Rightarrow> expected_type \<Rightarrow> expected \<Rightarrow> (fstatus \<times> point) option" where
  "PointElinkListAppend ok = expected_append ok p_elink (\<lambda>u. p_elink_update (\<lambda>_. u))"

abbreviation LSIDE_PAIR :: uint8 where "LSIDE_PAIR \<equiv> 1"
abbreviation RSIDE_PAIR :: uint8 where "RSIDE_PAIR \<equiv> 2"

definition PointNodePairListAppend ::
  "outcomes \<Rightarrow> point \<Rightarrow> uint8 \<Rightarrow> node \<Rightarrow> (fstatus \<times> point) option" where
  "PointNodePairListAppend ok point side obj =
     (let (status, point) =
            (if p_u point = P_None then PointInitList (fst ok) point POINT_TYPE_NODE_PAIR_LIST
             else if point_tag (p_u point) \<noteq> POINT_TYPE_NODE_PAIR_LIST then (FINVALID_OPERATION, point)
             else (FSUCCESS, point))
      in if status \<noteq> FSUCCESS then destroy_and_return status point
         else case p_u point of
             P_NodePairList l1 l2 \<Rightarrow>
               if side = LSIDE_PAIR then
                 insert_or_destroy (snd ok) l1 obj (\<lambda>l. point\<lparr>p_u := P_NodePairList l l2\<rparr>) point
               else if side = RSIDE_PAIR then
                 insert_or_destroy (snd ok) l2 obj (\<lambda>l. point\<lparr>p_u := P_NodePairList l1 l\<rparr>) point
               else destroy_and_return FINVALID_OPERATION point
           | _ \<Rightarrow> destroy_and_return FINVALID_OPERATION point)"

text \<open>A loop of appends that stops at the first failure.\<close>

fun append_each ::
  "(point \<Rightarrow> nat \<Rightarrow> 'a \<Rightarrow> (fstatus \<times> point) option) \<Rightarrow> nat \<Rightarrow> 'a list \<Rightarrow> point \<Rightarrow> (fstatus \<times> point) option" where
  "append_each app k [] point = Some (FSUCCESS, point)"
| "append_each app k (x # xs) point =
     (case app point k x of
        None \<Rightarrow> None
      | Some (status, point) \<Rightarrow>
          if status \<noteq> FSUCCESS then Some (status, point) else append_each app (k + 1) xs point)"

subsection \<open>Copying\<close>

text \<open>What \<^verbatim>\<open>*dest = *src\<close> leaves in \<open>dest\<close>: list heads that are copies.\<close>

definition share_list :: "dlist \<Rightarrow> dlist" where
  "share_list l = SharedList"

definition share_expected :: "expected_u \<Rightarrow> expected_u" where
  "share_expected u = (case u of E_List l \<Rightarrow> E_List (share_list l) | _ \<Rightarrow> u)"

definition struct_copy :: "point \<Rightarrow> point" where
  "struct_copy src = src\<lparr>
     p_u := (case p_u src of
         P_PortList l \<Rightarrow> P_PortList (share_list l)
       | P_NodeList l \<Rightarrow> P_NodeList (share_list l)
       | P_IocList l \<Rightarrow> P_IocList (share_list l)
       | P_NodePairList l1 l2 \<Rightarrow> P_NodePairList (share_list l1) (share_list l2)
       | u \<Rightarrow> u),
     p_enode := share_expected (p_enode src),
     p_esm := share_expected (p_esm src),
     p_elink := share_expected (p_elink src)\<rparr>"

definition PointFabricCopy ::
  "(nat \<Rightarrow> outcomes) \<Rightarrow> point \<Rightarrow> point \<Rightarrow> (fstatus \<times> point) option" where
  "PointFabricCopy ok dest src =
     Option.bind (PointFabricDestroy dest) (\<lambda>dest.
       let copy = (\<lambda>l. Option.bind (list_objs l) (\<lambda>xs.
             append_each (\<lambda>p k. PointListAppend (ok k) p (point_tag (p_u src))) 0 xs dest))
       in case p_u src of
            P_PortList l \<Rightarrow> copy l
          | P_NodeList l \<Rightarrow> copy l
          | P_IocList l \<Rightarrow> copy l
          | P_NodePairList _ _ \<Rightarrow> Some (FSUCCESS, dest)
          | _ \<Rightarrow> Some (FSUCCESS, struct_copy src))"

definition PointEnodeCopy ::
  "(nat \<Rightarrow> outcomes) \<Rightarrow> point \<Rightarrow> point \<Rightarrow> (fstatus \<times> point) option" where
  "PointEnodeCopy ok dest src =
     Option.bind (PointEnodeDestroy dest) (\<lambda>dest.
       case p_enode src of
         E_List l \<Rightarrow> Option.bind (list_objs l) (\<lambda>xs.
           append_each (\<lambda>p k. PointEnodeListAppend (ok k) p EXPECTED_LIST) 0 xs dest)
       | _ \<Rightarrow> Some (FSUCCESS, struct_copy src))"

definition PointEsmCopy ::
  "(nat \<Rightarrow> outcomes) \<Rightarrow> point \<Rightarrow> point \<Rightarrow> (fstatus \<times> point) option" where
  "PointEsmCopy ok dest src =
     Option.bind (PointEsmDestroy dest) (\<lambda>dest.
       case p_esm src of
         E_List l \<Rightarrow> Option.bind (list_objs l) (\<lambda>xs.
           append_each (\<lambda>p k. PointEsmListAppend (ok k) p EXPECTED_LIST) 0 xs dest)
       | _ \<Rightarrow> Some (FSUCCESS, struct_copy src))"

definition PointElinkCopy ::
  "(nat \<Rightarrow> outcomes) \<Rightarrow> point \<Rightarrow> point \<Rightarrow> (fstatus \<times> point) option" where
  "PointElinkCopy ok dest src =
     Option.bind (PointElinkDestroy dest) (\<lambda>dest.
       case p_elink src of
         E_List l \<Rightarrow> Option.bind (list_objs l) (\<lambda>xs.
           append_each (\<lambda>p k. PointElinkListAppend (ok k) p EXPECTED_LIST) 0 xs dest)
       | _ \<Rightarrow> Some (FSUCCESS, struct_copy src))"

definition and_then ::
  "(fstatus \<times> point) option \<Rightarrow> (point \<Rightarrow> (fstatus \<times> point) option) \<Rightarrow> (fstatus \<times> point) option" where
  "and_then r f = Option.bind r (\<lambda>(st, p). if st \<noteq> FSUCCESS then Some (st, p) else f p)"

definition PointCopy ::
  "(nat \<Rightarrow> outcomes) \<Rightarrow> point \<Rightarrow> point \<Rightarrow> (fstatus \<times> point) option" where
  "PointCopy ok dest src =
     and_then (PointFabricCopy ok dest src) (\<lambda>dest.
     and_then (PointEnodeCopy ok dest src) (\<lambda>dest.
     and_then (PointEsmCopy ok dest src) (\<lambda>dest.
     PointElinkCopy ok dest src)))"

subsection \<open>Node pairs\<close>

text \<open>
  The body of the two nested loops, and the loops, which run over the left nodes and for each
  over the right nodes.  The test behind the right append looks at the left node again.
\<close>

definition append_pair ::
  "fabric \<Rightarrow> (nat \<Rightarrow> outcomes \<times> outcomes) \<Rightarrow> point \<Rightarrow> nat \<Rightarrow> node \<times> node \<Rightarrow> (fstatus \<times> point) option" where
  "append_pair g ok point k nodes =
     (case nodes of (nodep1, nodep2) \<Rightarrow>
        and_then (PointNodePairListAppend (fst (ok k)) point LSIDE_PAIR nodep1) (\<lambda>point.
          let point = (if \<not> haveSW point \<and> node_type_of g nodep1 = STL_NODE_SW then point\<lparr>haveSW := True\<rparr> else point);
              point = (if \<not> haveFI point \<and> node_type_of g nodep1 = STL_NODE_FI then point\<lparr>haveFI := True\<rparr> else point)
          in and_then (PointNodePairListAppend (snd (ok k)) point RSIDE_PAIR nodep2) (\<lambda>point.
               let point = (if \<not> haveSW point \<and> node_type_of g nodep2 = STL_NODE_SW then point\<lparr>haveSW := True\<rparr> else point);
                   point = (if \<not> haveFI point \<and> node_type_of g nodep1 = STL_NODE_FI then point\<lparr>haveFI := True\<rparr> else point)
               in Some (FSUCCESS, point))))"

definition PointPopulateNodePairList ::
  "fabric \<Rightarrow> (nat \<Rightarrow> outcomes \<times> outcomes) \<Rightarrow> point \<Rightarrow> node list \<Rightarrow> node list \<Rightarrow> (fstatus \<times> point) option" where
  "PointPopulateNodePairList g ok point nodes1 nodes2 =
     append_each (append_pair g ok) 0 (concat (map (\<lambda>n1. map (Pair n1) nodes2) nodes1)) point"

end
