(* ===== verification/KeyMap.thy ===== *)
theory KeyMap
  imports Prelude
begin

text \<open>
  The interface that the users of a quick map rely on: a finite map from 64-bit keys that
  keeps the first value inserted for a key (\<^verbatim>\<open>cl_qmap_insert\<close> hands back the
  item that is there), with lookup, insertion and removal.  The locale states the laws and
  proves what its clients need once.  Its first instance is the list of entries in key
  order, the form in which \<^verbatim>\<open>cl_qmap_head\<close> and \<^verbatim>\<open>cl_qmap_next\<close> walk
  a map, and in which the models of the client modules hold their maps; the theory
  \<open>QMap_KeyMap\<close> gives the second, the pointer program itself.
\<close>

locale key_map =
  fixes inv :: "'m \<Rightarrow> bool"
    and fresh :: "'v \<Rightarrow> 'm \<Rightarrow> bool"
    and get :: "uint64 \<Rightarrow> 'm \<Rightarrow> 'v option"
    and ins :: "uint64 \<Rightarrow> 'v \<Rightarrow> 'm \<Rightarrow> 'm"
    and del :: "uint64 \<Rightarrow> 'm \<Rightarrow> 'm"
  assumes ins_inv: "inv m \<Longrightarrow> fresh v m \<Longrightarrow> inv (ins k v m)"
    and get_ins: "inv m \<Longrightarrow> fresh v m \<Longrightarrow>
      get j (ins k v m) = (if j = k \<and> get k m = None then Some v else get j m)"
    and del_inv: "inv m \<Longrightarrow> inv (del k m)"
    and get_del: "inv m \<Longrightarrow> get j (del k m) = (if j = k then None else get j m)"
begin

lemma get_ins_new: "inv m \<Longrightarrow> fresh v m \<Longrightarrow> get k m = None \<Longrightarrow> get k (ins k v m) = Some v"
  by (simp add: get_ins)

lemma ins_keeps: "inv m \<Longrightarrow> fresh v m \<Longrightarrow> get j m = Some w \<Longrightarrow> get j (ins k v m) = Some w"
  by (auto simp: get_ins)

lemma get_ins_None: "inv m \<Longrightarrow> fresh v m \<Longrightarrow> get j (ins k v m) = None \<longleftrightarrow> j \<noteq> k \<and> get j m = None"
  by (auto simp: get_ins)

text \<open>Taking a value out and putting another one in its place replaces it.\<close>

lemma get_replace:
  "inv m \<Longrightarrow> fresh v (del k m) \<Longrightarrow> get j (ins k v (del k m)) = (if j = k then Some v else get j m)"
  by (simp add: get_ins get_del del_inv)

text \<open>A run of insertions keeps what was there and gives every new key its first value.\<close>

lemma get_fold_ins:
  assumes "inv m" "\<And>v m'. fresh v m'"
  shows "inv (fold (\<lambda>(k, v). ins k v) kvs m) \<and>
    get j (fold (\<lambda>(k, v). ins k v) kvs m) =
      (case get j m of Some w \<Rightarrow> Some w | None \<Rightarrow> map_of kvs j)"
  using assms(1)
proof (induction kvs arbitrary: m)
  case Nil
  then show ?case by (simp split: option.split)
next
  case (Cons kv kvs)
  obtain k v where kv: "kv = (k, v)" by (cases kv)
  have "inv (ins k v m)" using ins_inv Cons.prems assms(2) by blast
  from Cons.IH [OF this] show ?case
    using get_ins [OF Cons.prems assms(2), of j k v]
    by (auto simp: kv split: option.splits if_splits)
qed

end

subsection \<open>Entries in key order\<close>

type_synonym 'v omap = "(uint64 \<times> 'v) list"

definition omap_ok :: "'v omap \<Rightarrow> bool" where
  "omap_ok es \<longleftrightarrow> sorted_wrt (<) (map fst es)"

definition omap_get :: "uint64 \<Rightarrow> 'v omap \<Rightarrow> 'v option" where
  "omap_get k es = map_of es k"

fun omap_insert :: "uint64 \<Rightarrow> 'v \<Rightarrow> 'v omap \<Rightarrow> 'v omap" where
  "omap_insert k v [] = [(k, v)]"
| "omap_insert k v ((j, w) # es) =
     (if k = j then (j, w) # es
      else if k < j then (k, v) # (j, w) # es
      else (j, w) # omap_insert k v es)"

definition omap_remove :: "uint64 \<Rightarrow> 'v omap \<Rightarrow> 'v omap" where
  "omap_remove k es = filter (\<lambda>(j, _). j \<noteq> k) es"

text \<open>A write through the pointer a lookup has returned.\<close>

definition omap_update :: "uint64 \<Rightarrow> ('v \<Rightarrow> 'v) \<Rightarrow> 'v omap \<Rightarrow> 'v omap" where
  "omap_update k f es = map (\<lambda>(j, v). (j, if j = k then f v else v)) es"

lemma set_keys_omap_insert: "fst ` set (omap_insert k v es) = insert k (fst ` set es)"
  by (induction k v es rule: omap_insert.induct) auto

lemma omap_insert_ok: "omap_ok es \<Longrightarrow> omap_ok (omap_insert k v es)"
proof (induction k v es rule: omap_insert.induct)
  case (2 k v j w es)
  then have "\<forall>y \<in> fst ` set es. j < y" "omap_ok es" by (auto simp: omap_ok_def)
  with 2 set_keys_omap_insert [of k v es] show ?case
    by (fastforce simp: omap_ok_def)
qed (simp add: omap_ok_def)

lemma omap_get_small: "omap_ok ((j, w) # es) \<Longrightarrow> k < j \<Longrightarrow> omap_get k es = None"
  by (fastforce simp: omap_ok_def omap_get_def map_of_eq_None_iff)

lemma omap_get_insert:
  "omap_ok es \<Longrightarrow>
     omap_get j (omap_insert k v es) = (if j = k \<and> omap_get k es = None then Some v else omap_get j es)"
proof (induction k v es rule: omap_insert.induct)
  case (2 k v i w es)
  then have "omap_ok es" by (simp add: omap_ok_def)
  with 2 omap_get_small [of i w es k] show ?case
    by (auto simp: omap_get_def)
qed (simp add: omap_get_def)

lemma omap_remove_ok: "omap_ok es \<Longrightarrow> omap_ok (omap_remove k es)"
  by (induction es) (auto simp: omap_ok_def omap_remove_def)

lemma omap_get_remove: "omap_get j (omap_remove k es) = (if j = k then None else omap_get j es)"
  by (induction es) (auto simp: omap_get_def omap_remove_def)

lemma omap_get_update:
  "omap_get j (omap_update k f es) = (if j = k then map_option f (omap_get j es) else omap_get j es)"
  by (induction es) (auto simp: omap_get_def omap_update_def)

lemma omap_keys_update [simp]: "map fst (omap_update k f es) = map fst es"
  by (induction es) (auto simp: omap_update_def)

lemma omap_update_ok [simp]: "omap_ok (omap_update k f es) = omap_ok es"
  by (simp add: omap_ok_def)

lemma omap_entry: "omap_ok es \<Longrightarrow> (k, v) \<in> set es \<longleftrightarrow> omap_get k es = Some v"
proof -
  assume "omap_ok es"
  then have "distinct (map fst es)" by (simp add: omap_ok_def strict_sorted_iff)
  then show ?thesis by (simp add: omap_get_def)
qed

interpretation omap: key_map omap_ok "\<lambda>_ _. True" omap_get omap_insert omap_remove
  by unfold_locales (simp_all add: omap_insert_ok omap_get_insert omap_remove_ok omap_get_remove)

end
