(* ===== verification/Fabric.thy ===== *)
theory Fabric
  imports Point KeyMap
begin

text \<open>
  The data of a fabric: \<^verbatim>\<open>FabricData_t\<close> with the ports, nodes, expected links and
  expected nodes of \<^verbatim>\<open>Topology/topology.h\<close>, in as far as the modelled functions
  read and write them.  Objects are addresses; the fields \<open>pdata\<close>, \<open>ndata\<close>,
  \<open>ldata\<close> and \<open>edata\<close> are the stores of the four kinds.  A pointer that may be
  NULL is an option.

  The theory holds the links between ports (\<^verbatim>\<open>FabricDataAddLink\<close> and
  \<^verbatim>\<open>FabricDataRemoveLink\<close> of \<^verbatim>\<open>Topology/fabricdata.c\<close>) and the
  classification of links.
\<close>

datatype port_state =
    ETH_PORT_NOP | ETH_PORT_UP | ETH_PORT_DOWN | ETH_PORT_TESTING | ETH_PORT_UNKNOWN
  | ETH_PORT_DORMANT | ETH_PORT_NOT_PRESENT | ETH_PORT_LOWER_LAYER_DOWN

abbreviation NODE_FI :: uint8 where "NODE_FI \<equiv> 1"
abbreviation NODE_SW :: uint8 where "NODE_SW \<equiv> 2"

record port_data =
  nodep :: node
  PortNum :: uint16
  LocalPortId :: string
  PortGUID :: uint64
  EndPortLID :: uint32
  PortInfo_LID :: uint32
  PortInfo_LMC :: nat
  PortState :: port_state
  PortInfo_MTU2 :: uint16
  rate :: uint32
  neighbor :: "port option"
  fromp :: bool
  elinkp :: "expected option"

record node_data =
  NodeGUID :: uint64
  SystemImageGUID :: uint64
  NodeType :: uint8
  NodeDesc :: string
  systemp :: sys
  NodePorts :: "port omap"
  enodep :: "expected option"

record port_selector =
  ps_PortGUID :: uint64
  ps_NodeGUID :: uint64
  ps_PortNum :: uint16
  gotPortNum :: bool
  ps_NodeType :: uint8
  ps_NodeDesc :: "string option"
  ps_PortId :: "string option"
  ps_enodep :: "expected option"

record expected_link =
  portselp1 :: "port_selector option"
  portselp2 :: "port_selector option"
  portp1 :: "port option"
  portp2 :: "port option"
  expected_rate :: uint8
  expected_mtu :: uint8
  expected_mtu2 :: uint16
  internal :: bool
  matchLevel :: nat

record expected_port =
  ep_PortNum :: uint16
  ep_PortGuid :: uint64
  ep_elinkp :: "expected option"

record expected_node =
  en_nodep :: "node option"
  en_NodeGUID :: uint64
  en_NodeType :: uint8
  en_NodeDesc :: "string option"
  portsSize :: uint16
  ports :: "expected_port option list"
  connected :: bool

record fabric_data =
  pdata :: "port \<Rightarrow> port_data"
  ndata :: "node \<Rightarrow> node_data"
  ldata :: "expected \<Rightarrow> expected_link"
  edata :: "expected \<Rightarrow> expected_node"
  lid_array :: bool
  LidBlocks :: "nat \<Rightarrow> (nat \<Rightarrow> port option) option"
  AllLids :: "port omap"
  lidCount :: uint32
  AllNodes :: "node omap"
  AllPorts :: "port list"
  AllFIs :: "node list"
  AllSWs :: "node list"
  LinkCount :: uint32
  ExtLinkCount :: uint32
  FILinkCount :: uint32
  ISLinkCount :: uint32
  ExtISLinkCount :: uint32
  ExpectedLinks :: "expected list"
  ExpectedFIs :: "expected list"
  ExpectedSWs :: "expected list"
  ExpectedNodeGuidMap :: "expected omap"

text \<open>The node of a port, and writes to one port.\<close>

abbreviation port_node :: "fabric_data \<Rightarrow> port \<Rightarrow> node_data" where
  "port_node F p \<equiv> ndata F (nodep (pdata F p))"

definition set_port :: "port \<Rightarrow> (port_data \<Rightarrow> port_data) \<Rightarrow> fabric_data \<Rightarrow> fabric_data" where
  "set_port p f F = F\<lparr>pdata := (pdata F)(p := f (pdata F p))\<rparr>"

subsection \<open>Classes of links\<close>

definition isInternalLink :: "fabric_data \<Rightarrow> port \<Rightarrow> bool" where
  "isInternalLink F p = (case neighbor (pdata F p) of
       None \<Rightarrow> False
     | Some q \<Rightarrow> SystemImageGUID (port_node F p) = SystemImageGUID (port_node F q) \<and>
         (SystemImageGUID (port_node F p) \<noteq> 0 \<or> NodeGUID (port_node F p) = NodeGUID (port_node F q)))"

definition isISLink :: "fabric_data \<Rightarrow> port \<Rightarrow> bool" where
  "isISLink F p = (case neighbor (pdata F p) of
       None \<Rightarrow> False
     | Some q \<Rightarrow> NodeType (port_node F p) = NODE_SW \<and> NodeType (port_node F q) = NODE_SW)"

definition isFILink :: "fabric_data \<Rightarrow> port \<Rightarrow> bool" where
  "isFILink F p = (case neighbor (pdata F p) of
       None \<Rightarrow> False
     | Some q \<Rightarrow> NodeType (port_node F p) = NODE_FI \<or> NodeType (port_node F q) = NODE_FI)"

definition opt_holds :: "('a \<Rightarrow> bool) \<Rightarrow> 'a option \<Rightarrow> bool" where
  "opt_holds P x = (case x of None \<Rightarrow> False | Some a \<Rightarrow> P a)"

definition isExternalExpectedLink :: "fabric_data \<Rightarrow> expected \<Rightarrow> bool" where
  "isExternalExpectedLink F e \<longleftrightarrow> \<not> internal (ldata F e) \<or>
     opt_holds (\<lambda>p. \<not> isInternalLink F p) (portp1 (ldata F e)) \<or>
     opt_holds (\<lambda>p. \<not> isInternalLink F p) (portp2 (ldata F e))"

definition isISExpectedLink :: "fabric_data \<Rightarrow> expected \<Rightarrow> bool" where
  "isISExpectedLink F e \<longleftrightarrow>
     opt_holds (\<lambda>s. ps_NodeType s = NODE_SW) (portselp1 (ldata F e)) \<and>
     opt_holds (\<lambda>s. ps_NodeType s = NODE_SW) (portselp2 (ldata F e)) \<or>
     opt_holds (isISLink F) (portp1 (ldata F e)) \<or> opt_holds (isISLink F) (portp2 (ldata F e))"

definition isFIExpectedLink :: "fabric_data \<Rightarrow> expected \<Rightarrow> bool" where
  "isFIExpectedLink F e \<longleftrightarrow>
     opt_holds (\<lambda>s. ps_NodeType s = NODE_FI) (portselp1 (ldata F e)) \<or>
     opt_holds (\<lambda>s. ps_NodeType s = NODE_FI) (portselp2 (ldata F e)) \<or>
     opt_holds (isFILink F) (portp1 (ldata F e)) \<or> opt_holds (isFILink F) (portp2 (ldata F e))"

definition GetPortSelector :: "fabric_data \<Rightarrow> port \<Rightarrow> port_selector option" where
  "GetPortSelector F p = (case elinkp (pdata F p) of
       None \<Rightarrow> None
     | Some e \<Rightarrow> if portp1 (ldata F e) = Some p then portselp1 (ldata F e)
                 else if portp2 (ldata F e) = Some p then portselp2 (ldata F e) else None)"

subsection \<open>Adding and removing links\<close>

text \<open>The counters, moved by \<open>d\<close> for the link at \<open>p\<close>.\<close>

definition count_link :: "uint32 \<Rightarrow> port \<Rightarrow> fabric_data \<Rightarrow> fabric_data" where
  "count_link d p F = F\<lparr>
     LinkCount := LinkCount F + d,
     ExtLinkCount := ExtLinkCount F + (if \<not> isInternalLink F p then d else 0),
     FILinkCount := FILinkCount F + (if isFILink F p then d else 0),
     ISLinkCount := ISLinkCount F + (if isISLink F p then d else 0),
     ExtISLinkCount := ExtISLinkCount F + (if \<not> isInternalLink F p \<and> isISLink F p then d else 0)\<rparr>"

definition FabricDataAddLink :: "fabric_data \<Rightarrow> port \<Rightarrow> port \<Rightarrow> fstatus \<times> fabric_data" where
  "FabricDataAddLink F p1 p2 =
     (if neighbor (pdata F p1) = Some p2 \<and> neighbor (pdata F p2) = Some p1 then (FERROR, F)
      else if neighbor (pdata F p1) \<noteq> None then (FERROR, F)
      else if neighbor (pdata F p2) \<noteq> None then (FERROR, F)
      else
        (let F = set_port p1 (\<lambda>d. d\<lparr>neighbor := Some p2\<rparr>) F;
             F = set_port p2 (\<lambda>d. d\<lparr>neighbor := Some p1\<rparr>) F;
             from1 = (if NodeGUID (port_node F p1) \<noteq> NodeGUID (port_node F p2)
                      then NodeGUID (port_node F p1) < NodeGUID (port_node F p2)
                      else PortNum (pdata F p1) < PortNum (pdata F p2));
             F = set_port p1 (\<lambda>d. d\<lparr>fromp := from1\<rparr>) F;
             F = set_port p2 (\<lambda>d. d\<lparr>fromp := \<not> from1\<rparr>) F
         in (FSUCCESS, count_link 1 p1 F)))"

definition FabricDataRemoveLink :: "fabric_data \<Rightarrow> port \<Rightarrow> fstatus \<times> fabric_data" where
  "FabricDataRemoveLink F p1 =
     (case neighbor (pdata F p1) of
        None \<Rightarrow> (FERROR, F)
      | Some p2 \<Rightarrow>
          if p1 = p2 then (FERROR, F)
          else if neighbor (pdata F p2) \<noteq> Some p1 then (FERROR, F)
          else
            (let F = count_link (- 1) p1 F;
                 F = set_port p1 (\<lambda>d. d\<lparr>rate := 0, neighbor := None, fromp := False\<rparr>) F;
                 F = set_port p2 (\<lambda>d. d\<lparr>rate := 0, neighbor := None, fromp := False\<rparr>) F
             in (FSUCCESS, F)))"

end
