(* ===== verification/LidMap.thy ===== *)
theory LidMap
  imports Fabric
begin

text \<open>
  The map from LIDs to ports of \<^verbatim>\<open>Topology/fabricdata.c\<close> and
  \<^verbatim>\<open>Topology/search.c\<close>, which is either an array of blocks of ports, allocated
  when they are first written, or a quick map with one entry per port.

  LIDs are 32-bit words, so a loop up to the greatest of them does not end: the loops are
  partial.  Whether the allocation of a block succeeds is an argument, by block number.  A
  search of the quick map is the first entry in key order that compares equal, which is the
  one the tree search finds when the ranges of the ports do not overlap.
\<close>

unbundle bit_operations_syntax

abbreviation TOPLM_LID_MAX :: uint32 where "TOPLM_LID_MAX \<equiv> 0xFFFFFF"
abbreviation TOPLM_BLOCKS :: nat where "TOPLM_BLOCKS \<equiv> 1024"

definition block_num :: "uint32 \<Rightarrow> nat" where
  "block_num lid = unat (drop_bit 14 lid)"

definition entry_num :: "uint32 \<Rightarrow> nat" where
  "entry_num lid = unat (lid AND 0x3FFF)"

definition GetMapEntry :: "fabric_data \<Rightarrow> uint32 \<Rightarrow> port option" where
  "GetMapEntry F lid =
     (if lid > TOPLM_LID_MAX then None
      else case LidBlocks F (block_num lid) of None \<Rightarrow> None | Some entries \<Rightarrow> entries (entry_num lid))"

definition SetMapEntry :: "(nat \<Rightarrow> bool) \<Rightarrow> fabric_data \<Rightarrow> uint32 \<Rightarrow> port option \<Rightarrow> fstatus \<times> fabric_data" where
  "SetMapEntry alloc F lid pd =
     (if lid > TOPLM_LID_MAX then (FERROR, F)
      else case LidBlocks F (block_num lid) of
          None \<Rightarrow>
            if pd = None then (FSUCCESS, F)
            else if alloc (block_num lid)
            then (FSUCCESS, F\<lparr>LidBlocks := (LidBlocks F)(block_num lid \<mapsto> (\<lambda>_. None)(entry_num lid := pd))\<rparr>)
            else (FERROR, F)
        | Some entries \<Rightarrow>
            (FSUCCESS, F\<lparr>LidBlocks := (LidBlocks F)(block_num lid \<mapsto> entries(entry_num lid := pd))\<rparr>))"

definition FreeLidMap :: "fabric_data \<Rightarrow> fabric_data" where
  "FreeLidMap F = F\<lparr>LidBlocks := (\<lambda>i. if i < TOPLM_BLOCKS then None else LidBlocks F i)\<rparr>"

subsection \<open>Searching\<close>

definition last_lid :: "uint32 \<Rightarrow> nat \<Rightarrow> uint32" where
  "last_lid first lmc = first OR (push_bit lmc 1 - 1)"

definition CompareLid :: "port_data \<Rightarrow> uint64 \<Rightarrow> int" where
  "CompareLid d key =
     (if ucast (last_lid (PortInfo_LID d) (PortInfo_LMC d)) < key then -1
      else if ucast (PortInfo_LID d) > key then 1 else 0)"

definition CompareEndLid :: "port_data \<Rightarrow> uint64 \<Rightarrow> int" where
  "CompareEndLid d key =
     (if ucast (EndPortLID d) < key then -1 else if ucast (EndPortLID d) > key then 1 else 0)"

definition find_lid_entry :: "(port_data \<Rightarrow> uint64 \<Rightarrow> int) \<Rightarrow> fabric_data \<Rightarrow> uint32 \<Rightarrow> port option" where
  "find_lid_entry cmp F lid =
     map_option snd (find (\<lambda>(k, p). cmp (pdata F p) (ucast lid) = 0) (AllLids F))"

definition FindLid :: "fabric_data \<Rightarrow> uint32 \<Rightarrow> port option" where
  "FindLid F lid = (if lid_array F then GetMapEntry F lid else find_lid_entry CompareLid F lid)"

definition FindEndLid :: "fabric_data \<Rightarrow> uint32 \<Rightarrow> port option" where
  "FindEndLid F lid = (if lid_array F then GetMapEntry F lid else find_lid_entry CompareEndLid F lid)"

subsection \<open>Removing a port\<close>

text \<open>Writing NULL never allocates.\<close>

partial_function (option) clear_lids :: "fabric_data \<Rightarrow> uint32 \<Rightarrow> uint32 \<Rightarrow> fabric_data option" where
  "clear_lids F first lst =
     (if first \<le> lst then clear_lids (snd (SetMapEntry (\<lambda>_. False) F first None)) (first + 1) lst
      else Some F)"

text \<open>Removing an entry that is not in the quick map is undefined.\<close>

definition AllLidsRemove :: "fabric_data \<Rightarrow> port \<Rightarrow> fabric_data option" where
  "AllLidsRemove F p =
     (let d = pdata F p in
      if PortGUID d = 0 \<or> EndPortLID d = 0 then Some F
      else if PortState d \<noteq> ETH_PORT_DORMANT \<and> PortState d \<noteq> ETH_PORT_UP \<and> FindLid F (EndPortLID d) \<noteq> Some p
      then Some F
      else map_option (\<lambda>F. F\<lparr>lidCount := lidCount F - push_bit (PortInfo_LMC d) 1\<rparr>)
        (if lid_array F then clear_lids F (EndPortLID d) (last_lid (EndPortLID d) (PortInfo_LMC d))
         else if p \<in> snd ` set (AllLids F) then Some (F\<lparr>AllLids := filter (\<lambda>(k, q). q \<noteq> p) (AllLids F)\<rparr>)
         else None))"

partial_function (option) partial_loop :: "fabric_data \<Rightarrow> uint32 \<Rightarrow> uint32 \<Rightarrow> fabric_data option" where
  "partial_loop F first lst =
     (if first < lst then
        (let F = snd (SetMapEntry (\<lambda>_. False) F first None)
         in partial_loop (F\<lparr>lidCount := lidCount F - 1\<rparr>) (first + 1) lst)
      else Some F)"

definition PartialLidsRemove :: "fabric_data \<Rightarrow> port \<Rightarrow> uint32 \<Rightarrow> fabric_data option" where
  "PartialLidsRemove F p count = partial_loop F (EndPortLID (pdata F p)) (EndPortLID (pdata F p) + count)"

subsection \<open>Adding a port\<close>

partial_function (option) add_loop ::
  "(nat \<Rightarrow> bool) \<Rightarrow> port \<Rightarrow> bool \<Rightarrow> uint32 \<Rightarrow> uint32 \<Rightarrow> uint32 \<Rightarrow> fstatus \<Rightarrow> fabric_data \<Rightarrow> (fstatus \<times> fabric_data) option" where
  "add_loop alloc p force perm_first first lst status F =
     (if first \<le> lst then
        (let enter = (\<lambda>F. snd (SetMapEntry alloc (F\<lparr>lidCount := lidCount F + 1\<rparr>) first (Some p)))
         in case GetMapEntry F first of
              None \<Rightarrow> add_loop alloc p force perm_first (first + 1) lst status (enter F)
            | Some q \<Rightarrow>
                if q = p then add_loop alloc p force perm_first (first + 1) lst status F
                else if \<not> force then map_option (Pair FDUPLICATE) (PartialLidsRemove F p (first - perm_first))
                else (case AllLidsRemove F q of
                        None \<Rightarrow> None
                      | Some F \<Rightarrow> add_loop alloc p force perm_first (first + 1) lst FDUPLICATE (enter F)))
      else Some (status, F))"

definition AllLidsAdd ::
  "(nat \<Rightarrow> bool) \<Rightarrow> fabric_data \<Rightarrow> port \<Rightarrow> bool \<Rightarrow> (fstatus \<times> fabric_data) option" where
  "AllLidsAdd alloc F p force =
     (let d = pdata F p in
      if PortGUID d = 0 then Some (FSUCCESS, F)
      else if PortState d \<noteq> ETH_PORT_UP \<and> PortState d \<noteq> ETH_PORT_DORMANT \<and>
        \<not> (NodeType (port_node F p) = NODE_SW \<and> PortNum d = 0 \<and> PortState d = ETH_PORT_NOP)
      then Some (FSUCCESS, F)
      else if EndPortLID d > TOPLM_LID_MAX then Some (FERROR, F)
      else if lid_array F then
        add_loop alloc p force (EndPortLID d) (EndPortLID d) (last_lid (EndPortLID d) (PortInfo_LMC d)) FSUCCESS F
      else
        (let key = ucast (EndPortLID d);
             insert = (\<lambda>F. F\<lparr>AllLids := omap_insert key p (AllLids F),
                              lidCount := lidCount F + push_bit (PortInfo_LMC d) 1\<rparr>)
         in case omap_get key (AllLids F) of
              None \<Rightarrow> Some (FSUCCESS, insert F)
            | Some q \<Rightarrow>
                if q = p then Some (FSUCCESS, insert F)
                else if force then map_option (\<lambda>F. (FDUPLICATE, insert F)) (AllLidsRemove F q)
                else Some (FDUPLICATE, F)))"

definition PortDataStateChanged :: "(nat \<Rightarrow> bool) \<Rightarrow> fabric_data \<Rightarrow> port \<Rightarrow> fabric_data option" where
  "PortDataStateChanged alloc F p =
     (if PortState (pdata F p) = ETH_PORT_UP \<or> PortState (pdata F p) = ETH_PORT_DORMANT
      then map_option snd (AllLidsAdd alloc F p True)
      else AllLidsRemove F p)"

declare clear_lids.simps [code] partial_loop.simps [code] add_loop.simps [code]

end
