(* ===== verification/Search.thy ===== *)
theory Search
  imports LidMap
begin

text \<open>
  The searches of \<^verbatim>\<open>Topology/search.c\<close> that look for one object: by number, GUID, LID,
  name or end of a link.  Quick maps are key-ordered association lists.
\<close>

abbreviation TINY_STR_ARRAY_SIZE :: nat where "TINY_STR_ARRAY_SIZE \<equiv> 16"
abbreviation STL_NODE_DESCRIPTION_ARRAY_SIZE :: nat where "STL_NODE_DESCRIPTION_ARRAY_SIZE \<equiv> 64"

text \<open>\<^verbatim>\<open>strncmp(a, b, n) == 0\<close>, of strings without their terminating NUL.\<close>

definition strn_eq :: "nat \<Rightarrow> string \<Rightarrow> string \<Rightarrow> bool" where
  "strn_eq n a b \<longleftrightarrow> take n a = take n b"

definition FindNodePort :: "fabric_data \<Rightarrow> node \<Rightarrow> uint16 \<Rightarrow> port option" where
  "FindNodePort F n p = omap_get (ucast p) (NodePorts (ndata F n))"

definition FindNodePortId :: "fabric_data \<Rightarrow> node \<Rightarrow> string \<Rightarrow> port option" where
  "FindNodePortId F n portid =
     find (\<lambda>p. strn_eq TINY_STR_ARRAY_SIZE (LocalPortId (pdata F p)) portid) (map snd (NodePorts (ndata F n)))"

definition FindPortGuid :: "fabric_data \<Rightarrow> uint64 \<Rightarrow> port option" where
  "FindPortGuid F guid = find (\<lambda>p. PortGUID (pdata F p) = guid) (AllPorts F)"

definition FindNodeGuid :: "fabric_data \<Rightarrow> uint64 \<Rightarrow> node option" where
  "FindNodeGuid F guid = omap_get guid (AllNodes F)"

definition FindLidPort :: "fabric_data \<Rightarrow> uint32 \<Rightarrow> uint16 \<Rightarrow> port option" where
  "FindLidPort F lid k = (case FindLid F lid of
       None \<Rightarrow> None
     | Some p \<Rightarrow>
         if PortNum (pdata F p) = k \<or> NodeType (port_node F p) \<noteq> NODE_SW then Some p
         else FindNodePort F (nodep (pdata F p)) k)"

definition FindNodeGuidPort :: "fabric_data \<Rightarrow> uint64 \<Rightarrow> uint16 \<Rightarrow> port option" where
  "FindNodeGuidPort F nodeguid k = (case FindNodeGuid F nodeguid of None \<Rightarrow> None | Some n \<Rightarrow> FindNodePort F n k)"

definition FindExpectedNodeByNodeGuid :: "fabric_data \<Rightarrow> uint64 \<Rightarrow> expected option" where
  "FindExpectedNodeByNodeGuid F nodeGuid = omap_get nodeGuid (ExpectedNodeGuidMap F)"

definition enode_has_desc :: "fabric_data \<Rightarrow> string \<Rightarrow> expected \<Rightarrow> bool" where
  "enode_has_desc F nodeDesc e = (case en_NodeDesc (edata F e) of
       None \<Rightarrow> False
     | Some d \<Rightarrow> strn_eq STL_NODE_DESCRIPTION_ARRAY_SIZE d nodeDesc)"

definition FindExpectedNodeByNodeDesc :: "fabric_data \<Rightarrow> string \<Rightarrow> uint8 \<Rightarrow> expected option" where
  "FindExpectedNodeByNodeDesc F nodeDesc type =
     (case (if type \<noteq> NODE_FI then find (enode_has_desc F nodeDesc) (ExpectedSWs F) else None) of
        Some e \<Rightarrow> Some e
      | None \<Rightarrow> if type \<noteq> NODE_SW then find (enode_has_desc F nodeDesc) (ExpectedFIs F) else None)"

text \<open>
  The element of an array of expected ports; behind the end of the array is undefined, and
  within it the pointer may be NULL.
\<close>

definition enode_port :: "expected_node \<Rightarrow> nat \<Rightarrow> expected_port option option" where
  "enode_port en i = (if i < length (ports en) then Some (ports en ! i) else None)"

text \<open>
  The link and the side at which it has the port, 0 when the caller's variable is not written.
  Following a NULL selector is undefined.
\<close>

definition FindExpectedLinkByOneSide ::
  "fabric_data \<Rightarrow> uint64 \<Rightarrow> uint16 \<Rightarrow> (expected option \<times> nat) option" where
  "FindExpectedLinkByOneSide F nodeGuid portNum =
     (case FindExpectedNodeByNodeGuid F nodeGuid of
        None \<Rightarrow> Some (None, 0)
      | Some n \<Rightarrow>
          if portNum \<ge> portsSize (edata F n) then Some (None, 0)
          else case enode_port (edata F n) (unat portNum) of
              None \<Rightarrow> None
            | Some None \<Rightarrow> Some (None, 0)
            | Some (Some ep) \<Rightarrow>
                (case ep_elinkp ep of
                   None \<Rightarrow> Some (None, 0)
                 | Some e \<Rightarrow>
                     (let at = (\<lambda>s. ps_NodeGUID s = nodeGuid \<and> ps_PortNum s = portNum)
                      in case portselp1 (ldata F e) of
                           None \<Rightarrow> None
                         | Some s1 \<Rightarrow>
                             if at s1 then Some (Some e, 1)
                             else case portselp2 (ldata F e) of
                                 None \<Rightarrow> None
                               | Some s2 \<Rightarrow> Some (Some e, if at s2 then 2 else 0))))"

end
