(* ===== verification/FabricBuild.thy ===== *)
theory FabricBuild
  imports Search "HOL-Library.Monad_Syntax"
begin

text \<open>
  The construction and destruction of the data of a fabric, \<^verbatim>\<open>Topology/fabricdata.c\<close>: nodes with
  their systems, ports with their entries in the map of LIDs, the lists that are built from the maps,
  and the functions that free everything.

  The state adds to \<open>fabric_data\<close> what only these functions touch: the systems, the rest of
  the port information, the block of counters of a port (0 is NULL), two flags, and memory.
  \<open>live\<close> are the blocks in use; \<open>next_blocks\<close> are the addresses that the next calls of
  malloc will give, of which NULL and a block that is in use stand for a call that fails.  Blocks of
  the array of LIDs are not among them: the array itself says which it has, and \<open>lid_leaked\<close> counts
  the blocks of an array that has been cleared while it still had them.  Removing an item that is
  not in a map is undefined, \<open>None\<close>.  Discovery sets neither the I/O unit and the switch information of a
  node nor the tables of a port; they are left out, with the code that frees them, and so are the callbacks
  for what an application has attached to an object.
\<close>

record system_data =
  sd_SystemImageGUID :: uint64
  sd_Nodes :: "node omap"

record port_info =
  NeighborNodeGUID :: uint64
  NeighborPortId :: string
  NeighborPortNum :: uint16
  NeighborNodeType :: uint8

record fabric_state =
  fab :: fabric_data
  sdata :: "sys \<Rightarrow> system_data"
  AllSystems :: "sys omap"
  pinfo :: "port \<Rightarrow> port_info"
  pPortCounters :: "port \<Rightarrow> nat"
  ff_stats :: bool
  ff_downportinfo :: bool
  live :: "nat set"
  next_blocks :: "nat list"
  lid_leaked :: nat

text \<open>The records that discovery hands over.\<close>

record node_record =
  nr_NodeGUID :: uint64
  nr_SystemImageGUID :: uint64
  nr_NodeType :: uint8
  nr_NodeDesc :: string

record portinfo_record =
  pr_EndPortLID :: uint32
  pr_PortNum :: uint16
  pr_LocalPortNum :: uint16
  pr_LID :: uint32
  pr_LMC :: nat
  pr_PortState :: port_state
  pr_MTU2 :: uint16
  pr_IfSpeed :: uint32
  pr_LocalPortId :: string
  pr_info :: port_info

subsection \<open>Memory and maps\<close>

definition new_block :: "fabric_state \<Rightarrow> nat \<times> fabric_state" where
  "new_block M = (case next_blocks M of
       [] \<Rightarrow> (0, M)
     | a # as \<Rightarrow>
         if a = 0 \<or> a \<in> live M then (0, M\<lparr>next_blocks := as\<rparr>)
         else (a, M\<lparr>next_blocks := as, live := insert a (live M)\<rparr>))"

definition free_block :: "nat \<Rightarrow> fabric_state \<Rightarrow> fabric_state" where
  "free_block a M = M\<lparr>live := live M - {a}\<rparr>"

definition omap_remove_item :: "'v \<Rightarrow> 'v omap \<Rightarrow> 'v omap option" where
  "omap_remove_item v m = (if v \<in> snd ` set m then Some (filter (\<lambda>(k, w). w \<noteq> v) m) else None)"

definition put_port :: "port \<Rightarrow> port_data \<Rightarrow> fabric_state \<Rightarrow> fabric_state" where
  "put_port p d M = M\<lparr>fab := (fab M)\<lparr>pdata := (pdata (fab M))(p := d)\<rparr>\<rparr>"

definition put_node :: "node \<Rightarrow> node_data \<Rightarrow> fabric_state \<Rightarrow> fabric_state" where
  "put_node n d M = M\<lparr>fab := (fab M)\<lparr>ndata := (ndata (fab M))(n := d)\<rparr>\<rparr>"

definition put_AllNodes :: "node omap \<Rightarrow> fabric_state \<Rightarrow> fabric_state" where
  "put_AllNodes m M = M\<lparr>fab := (fab M)\<lparr>AllNodes := m\<rparr>\<rparr>"

definition put_Nodes :: "sys \<Rightarrow> node omap \<Rightarrow> fabric_state \<Rightarrow> fabric_state" where
  "put_Nodes s m M = M\<lparr>sdata := (sdata M)(s := (sdata M s)\<lparr>sd_Nodes := m\<rparr>)\<rparr>"

abbreviation node_of :: "fabric_state \<Rightarrow> node \<Rightarrow> node_data" where
  "node_of M \<equiv> ndata (fab M)"

abbreviation port_of :: "fabric_state \<Rightarrow> port \<Rightarrow> port_data" where
  "port_of M \<equiv> pdata (fab M)"

subsection \<open>An empty fabric\<close>

text \<open>\<^verbatim>\<open>MemoryClear\<close> of the fabric; the objects it pointed to are not touched.\<close>

definition clear_fabric :: "fabric_data \<Rightarrow> fabric_data" where
  "clear_fabric F = F\<lparr>lid_array := False, LidBlocks := (\<lambda>_. None), AllLids := [], lidCount := 0, AllNodes := [],
     AllPorts := [], AllFIs := [], AllSWs := [], LinkCount := 0, ExtLinkCount := 0, FILinkCount := 0,
     ISLinkCount := 0, ExtISLinkCount := 0, ExpectedLinks := [], ExpectedFIs := [], ExpectedSWs := [],
     ExpectedNodeGuidMap := []\<rparr>"

definition InitFabricData :: "bool \<Rightarrow> bool \<Rightarrow> bool \<Rightarrow> fabric_state \<Rightarrow> fstatus \<times> fabric_state" where
  "InitFabricData lidarray stats downportinfo M =
     (FSUCCESS, M\<lparr>fab := (clear_fabric (fab M))\<lparr>lid_array := lidarray\<rparr>, AllSystems := [],
        ff_stats := stats, ff_downportinfo := downportinfo\<rparr>)"

subsection \<open>Nodes and systems\<close>

definition system_key :: "node_data \<Rightarrow> uint64" where
  "system_key d = (if SystemImageGUID d \<noteq> 0 then SystemImageGUID d else NodeGUID d)"

definition AddSystemNode :: "node \<Rightarrow> fabric_state \<Rightarrow> fstatus \<times> fabric_state" where
  "AddSystemNode n M =
     (case new_block M of (s, M) \<Rightarrow>
        if s = 0 then (FERROR, M)
        else
          let d = node_of M n;
              M = M\<lparr>sdata := (sdata M)(s := \<lparr>sd_SystemImageGUID = SystemImageGUID d, sd_Nodes = []\<rparr>)\<rparr>;
              (s, M) = (case omap_get (system_key d) (AllSystems M) of
                  None \<Rightarrow> (s, M\<lparr>AllSystems := omap_insert (system_key d) s (AllSystems M)\<rparr>)
                | Some s' \<Rightarrow> (s', free_block s M));
              M = put_node n (d\<lparr>systemp := s\<rparr>) M
          in if omap_get (NodeGUID d) (sd_Nodes (sdata M s)) = None
             then (FSUCCESS, put_Nodes s (omap_insert (NodeGUID d) n (sd_Nodes (sdata M s))) M)
             else (FERROR, M))"

text \<open>The node and whether it is a new one, or NULL.\<close>

definition FabricDataAddNode :: "node_record \<Rightarrow> fabric_state \<Rightarrow> ((node \<times> bool) option \<times> fabric_state) option" where
  "FabricDataAddNode r M =
     (case new_block M of (n, M) \<Rightarrow>
        if n = 0 then Some (None, M)
        else
          let M = put_node n \<lparr>NodeGUID = nr_NodeGUID r, SystemImageGUID = nr_SystemImageGUID r,
                    NodeType = nr_NodeType r, NodeDesc = nr_NodeDesc r, systemp = 0, NodePorts = [], enodep = None\<rparr> M
          in case omap_get (nr_NodeGUID r) (AllNodes (fab M)) of
              Some n' \<Rightarrow> Some (Some (n', False), free_block n M)
            | None \<Rightarrow>
                (case AddSystemNode n (put_AllNodes (omap_insert (nr_NodeGUID r) n (AllNodes (fab M))) M) of
                   (FSUCCESS, M) \<Rightarrow> Some (Some (n, True), M)
                 | (_, M) \<Rightarrow> do {
                     m \<leftarrow> omap_remove_item n (AllNodes (fab M));
                     Some (None, free_block n (put_AllNodes m M)) }))"

subsection \<open>Ports\<close>

definition EthMbpsToStaticRate :: "uint32 \<Rightarrow> uint32" where
  "EthMbpsToStaticRate r =
     (if r \<le> 1000 then 1 else if r \<le> 2500 then 2 else if r \<le> 5000 then 5 else if r \<le> 10000 then 3
      else if r \<le> 12500 then 11 else if r \<le> 14062 then 11 else if r \<le> 20000 then 6 else if r \<le> 25781 then 15
      else if r \<le> 30000 then 4 else if r \<le> 37500 then 7 else if r \<le> 40000 then 7 else if r \<le> 50000 then 12
      else if r \<le> 56250 then 12 else if r \<le> 60000 then 8 else if r \<le> 75000 then 9 else if r \<le> 80000 then 9
      else if r \<le> 103125 then 16 else if r \<le> 112500 then 13 else if r \<le> 120000 then 10
      else if r \<le> 154687 then 14 else if r \<le> 168750 then 14 else if r \<le> 206250 then 17
      else if r \<le> 225000 then 19 else if r \<le> 300000 then 18 else 20)"

text \<open>The fields of a new port; only port 0 of a switch has a GUID.\<close>

definition port_record :: "fabric_state \<Rightarrow> node \<Rightarrow> uint64 \<Rightarrow> portinfo_record \<Rightarrow> port_data" where
  "port_record M n guid r =
     (let switch = NodeType (node_of M n) = NODE_SW;
          num = if switch then pr_PortNum r else pr_LocalPortNum r
      in \<lparr>nodep = n, PortNum = num, LocalPortId = pr_LocalPortId r,
          PortGUID = (if switch \<and> num \<noteq> 0 then 0 else guid), EndPortLID = pr_EndPortLID r,
          PortInfo_LID = pr_LID r, PortInfo_LMC = pr_LMC r, PortState = pr_PortState r,
          PortInfo_MTU2 = pr_MTU2 r, rate = EthMbpsToStaticRate (pr_IfSpeed r), neighbor = None,
          fromp = False, elinkp = None\<rparr>)"

definition put_ports :: "node \<Rightarrow> port omap \<Rightarrow> fabric_state \<Rightarrow> fabric_state" where
  "put_ports n m M = put_node n ((node_of M n)\<lparr>NodePorts := m\<rparr>) M"

definition NodeDataAddPort ::
  "(nat \<Rightarrow> bool) \<Rightarrow> node \<Rightarrow> uint64 \<Rightarrow> portinfo_record \<Rightarrow> fabric_state \<Rightarrow> (port option \<times> fabric_state) option" where
  "NodeDataAddPort alloc n guid r M =
     (case new_block M of (p, M) \<Rightarrow>
        if p = 0 then Some (None, M)
        else
          case (if ff_stats M then new_block M else (0, M)) of (c, M) \<Rightarrow>
            if ff_stats M \<and> c = 0 then Some (None, free_block p M)
            else
              let d = port_record M n guid r;
                  M = put_port p d M\<lparr>pinfo := (pinfo M)(p := pr_info r), pPortCounters := (pPortCounters M)(p := c)\<rparr>
              in if omap_get (ucast (PortNum d)) (NodePorts (node_of M n)) \<noteq> None
                 then Some (None, free_block p M)
                 else
                   let M = put_ports n (omap_insert (ucast (PortNum d)) p (NodePorts (node_of M n))) M
                   in if \<not> ff_downportinfo M \<or> EndPortLID d \<noteq> 0
                      then do {
                        (status, F) \<leftarrow> AllLidsAdd alloc (fab M) p False;
                        let M = M\<lparr>fab := F\<rparr> in
                        if status \<noteq> FSUCCESS then do {
                          m \<leftarrow> omap_remove_item p (NodePorts (node_of M n));
                          Some (None, free_block p (put_ports n m M)) }
                        else Some (Some p, M) }
                      else Some (Some p, M))"

definition FabricDataAddLinkRecord ::
  "uint32 \<Rightarrow> uint16 \<Rightarrow> uint32 \<Rightarrow> uint16 \<Rightarrow> fabric_data \<Rightarrow> fstatus \<times> fabric_data" where
  "FabricDataAddLinkRecord FromLID FromPort ToLID ToPort F =
     (case FindLidPort F FromLID FromPort of
        None \<Rightarrow> (FERROR, F)
      | Some p1 \<Rightarrow>
          (case FindLidPort F ToLID ToPort of
             None \<Rightarrow> (FERROR, F)
           | Some p2 \<Rightarrow> FabricDataAddLink F p1 p2))"

subsection \<open>The lists of a fabric\<close>

text \<open>The lists of host and switch nodes and, unless it has ports already, the list of all ports.\<close>

definition list_node :: "bool \<Rightarrow> node \<Rightarrow> fabric_data \<Rightarrow> fabric_data" where
  "list_node all_ports n F =
     (let F = (if NodeType (ndata F n) = NODE_FI then F\<lparr>AllFIs := AllFIs F @ [n]\<rparr>
               else if NodeType (ndata F n) = NODE_SW then F\<lparr>AllSWs := AllSWs F @ [n]\<rparr> else F)
      in if all_ports then fold (\<lambda>(k, p) F. F\<lparr>AllPorts := AllPorts F @ [p]\<rparr>) (NodePorts (ndata F n)) F else F)"

definition BuildFabricDataLists :: "fabric_data \<Rightarrow> fabric_data" where
  "BuildFabricDataLists F = (let all_ports = (AllPorts F = []) in
     fold (\<lambda>(k, n). list_node all_ports n) (AllNodes F) F)"

subsection \<open>Freeing\<close>

definition PortDataFree :: "port \<Rightarrow> fabric_state \<Rightarrow> fabric_state option" where
  "PortDataFree p M = do {
     let n = nodep (port_of M p);
     F \<leftarrow> (if PortGUID (port_of M p) \<noteq> 0 then AllLidsRemove (fab M) p else Some (fab M));
     let M = M\<lparr>fab := F\<rparr>;
     m \<leftarrow> omap_remove_item p (NodePorts (node_of M n));
     let M = put_ports n m M;
     let M = (if pPortCounters M p \<noteq> 0 then free_block (pPortCounters M p) M else M);
     Some (free_block p M) }"

partial_function (option) NodeDataFreePorts :: "node \<Rightarrow> fabric_state \<Rightarrow> fabric_state option" where
  "NodeDataFreePorts n M = (case NodePorts (node_of M n) of
       [] \<Rightarrow> Some M
     | (k, p) # _ \<Rightarrow> do { M \<leftarrow> PortDataFree p M; NodeDataFreePorts n M })"

definition NodeDataFree :: "node \<Rightarrow> fabric_state \<Rightarrow> fabric_state option" where
  "NodeDataFree n M = do {
     let s = systemp (node_of M n);
     m \<leftarrow> omap_remove_item n (sd_Nodes (sdata M s));
     let M = put_Nodes s m M;
     M \<leftarrow> (if m = [] then do {
              ss \<leftarrow> omap_remove_item s (AllSystems M);
              Some (free_block s (M\<lparr>AllSystems := ss\<rparr>)) }
            else Some M);
     m \<leftarrow> omap_remove_item n (AllNodes (fab M));
     M \<leftarrow> NodeDataFreePorts n (put_AllNodes m M);
     Some (free_block n M) }"

partial_function (option) NodeDataFreeAll :: "fabric_state \<Rightarrow> fabric_state option" where
  "NodeDataFreeAll M = (case AllNodes (fab M) of
       [] \<Rightarrow> Some M
     | (k, n) # _ \<Rightarrow> do { M \<leftarrow> NodeDataFree n M; NodeDataFreeAll M })"

text \<open>The expected links and nodes of a topology file.  Their selectors are part of them.\<close>

definition drop_elink :: "expected \<Rightarrow> port option \<Rightarrow> fabric_data \<Rightarrow> fabric_data" where
  "drop_elink e p F = (case p of
       None \<Rightarrow> F
     | Some p \<Rightarrow> if elinkp (pdata F p) = Some e then set_port p (\<lambda>d. d\<lparr>elinkp := None\<rparr>) F else F)"

definition ExpectedLinkFree :: "expected \<Rightarrow> fabric_state \<Rightarrow> fabric_state" where
  "ExpectedLinkFree e M =
     (let l = ldata (fab M) e;
          F = drop_elink e (portp2 l) (drop_elink e (portp1 l) (fab M));
          F = F\<lparr>ExpectedLinks := filter (\<lambda>x. x \<noteq> e) (ExpectedLinks F)\<rparr>
      in free_block e (M\<lparr>fab := F\<rparr>))"

definition ExpectedLinkFreeAll :: "fabric_state \<Rightarrow> fabric_state" where
  "ExpectedLinkFreeAll M = fold ExpectedLinkFree (ExpectedLinks (fab M)) M"

definition drop_enode :: "expected \<Rightarrow> fabric_data \<Rightarrow> fabric_data" where
  "drop_enode e F = (case en_nodep (edata F e) of
       None \<Rightarrow> F
     | Some n \<Rightarrow> if enodep (ndata F n) = Some e
                 then F\<lparr>ndata := (ndata F)(n := (ndata F n)\<lparr>enodep := None\<rparr>)\<rparr> else F)"

text \<open>The list is \<^verbatim>\<open>ExpectedSWs\<close> or \<^verbatim>\<open>ExpectedFIs\<close>.\<close>

definition ExpectedNodeFree :: "bool \<Rightarrow> expected \<Rightarrow> fabric_state \<Rightarrow> fabric_state" where
  "ExpectedNodeFree switch e M =
     (let F = drop_enode e (fab M);
          F = (if switch then F\<lparr>ExpectedSWs := filter (\<lambda>x. x \<noteq> e) (ExpectedSWs F)\<rparr>
               else F\<lparr>ExpectedFIs := filter (\<lambda>x. x \<noteq> e) (ExpectedFIs F)\<rparr>);
          F = (if en_NodeGUID (edata F e) \<noteq> 0
               then F\<lparr>ExpectedNodeGuidMap := omap_remove (en_NodeGUID (edata F e)) (ExpectedNodeGuidMap F)\<rparr> else F)
      in free_block e (M\<lparr>fab := F\<rparr>))"

definition ExpectedNodesFreeAll :: "bool \<Rightarrow> fabric_state \<Rightarrow> fabric_state" where
  "ExpectedNodesFreeAll switch M =
     fold (ExpectedNodeFree switch) (if switch then ExpectedSWs (fab M) else ExpectedFIs (fab M)) M"

text \<open>The blocks that the array of LIDs has.\<close>

definition lid_blocks :: "fabric_data \<Rightarrow> nat list" where
  "lid_blocks F = filter (\<lambda>i. LidBlocks F i \<noteq> None) [0..<TOPLM_BLOCKS]"

definition DestroyFabricData :: "fabric_state \<Rightarrow> fabric_state option" where
  "DestroyFabricData M = do {
     let M = ExpectedLinkFreeAll M;
     let M = ExpectedNodesFreeAll False M;
     let M = ExpectedNodesFreeAll True M;
     M \<leftarrow> NodeDataFreeAll M;
     let M = (if lid_array (fab M) then M\<lparr>fab := FreeLidMap (fab M)\<rparr> else M);
     Some (M\<lparr>fab := clear_fabric (fab M), AllSystems := [], ff_stats := False, ff_downportinfo := False,
       lid_leaked := lid_leaked M + length (lid_blocks (fab M))\<rparr>) }"

declare NodeDataFreePorts.simps [code] NodeDataFreeAll.simps [code]

end
