(* ===== verification/FabricLinks.thy ===== *)
theory FabricLinks
  imports Fabric
begin

text \<open>
  The invariant of the links of a fabric: neighbours point at each other, one of the two ends
  is the "from" port, and each counter counts the "from" ports of its class.  What the
  counters need of a class of links is stated once, in a locale, and interpreted for the
  five classes that are counted.
\<close>

definition links_shape :: "fabric_data \<Rightarrow> bool" where
  "links_shape F \<longleftrightarrow>
     finite {p. neighbor (pdata F p) \<noteq> None} \<and>
     (\<forall>p. neighbor (pdata F p) = None \<longrightarrow> \<not> fromp (pdata F p)) \<and>
     (\<forall>p q. neighbor (pdata F p) = Some q \<longrightarrow> neighbor (pdata F q) = Some p \<and>
        (if p = q then fromp (pdata F p) else fromp (pdata F p) \<noteq> fromp (pdata F q)))"

definition from_class :: "(fabric_data \<Rightarrow> port \<Rightarrow> bool) \<Rightarrow> fabric_data \<Rightarrow> port set" where
  "from_class cls F = {p. fromp (pdata F p) \<and> cls F p}"

definition counted :: "(fabric_data \<Rightarrow> port \<Rightarrow> bool) \<Rightarrow> fabric_data \<Rightarrow> uint32" where
  "counted cls F = of_nat (card (from_class cls F))"

definition any_link :: "fabric_data \<Rightarrow> port \<Rightarrow> bool" where
  "any_link F p \<longleftrightarrow> True"

definition external_link :: "fabric_data \<Rightarrow> port \<Rightarrow> bool" where
  "external_link F p \<longleftrightarrow> \<not> isInternalLink F p"

definition external_is_link :: "fabric_data \<Rightarrow> port \<Rightarrow> bool" where
  "external_is_link F p \<longleftrightarrow> \<not> isInternalLink F p \<and> isISLink F p"

definition links_counted :: "fabric_data \<Rightarrow> bool" where
  "links_counted F \<longleftrightarrow> LinkCount F = counted any_link F \<and> ExtLinkCount F = counted external_link F \<and>
     FILinkCount F = counted isFILink F \<and> ISLinkCount F = counted isISLink F \<and>
     ExtISLinkCount F = counted external_is_link F"

definition links_ok :: "fabric_data \<Rightarrow> bool" where
  "links_ok F \<longleftrightarrow> links_shape F \<and> links_counted F"

subsection \<open>What a link operation writes\<close>

lemma set_port_simps [simp]:
  "pdata (set_port p f F) = (pdata F)(p := f (pdata F p))"
  "ndata (set_port p f F) = ndata F"
  by (simp_all add: set_port_def)

lemma count_link_simps [simp]:
  "pdata (count_link d p F) = pdata F"
  "ndata (count_link d p F) = ndata F"
  by (simp_all add: count_link_def)

text \<open>The port data after a link has been added.\<close>

definition first_from :: "fabric_data \<Rightarrow> port \<Rightarrow> port \<Rightarrow> bool" where
  "first_from F p1 p2 =
     (if NodeGUID (port_node F p1) \<noteq> NodeGUID (port_node F p2)
      then NodeGUID (port_node F p1) < NodeGUID (port_node F p2)
      else PortNum (pdata F p1) < PortNum (pdata F p2))"

definition linked :: "fabric_data \<Rightarrow> port \<Rightarrow> port \<Rightarrow> port \<Rightarrow> port_data" where
  "linked F p1 p2 p =
     (if p = p2 then (pdata F p)\<lparr>neighbor := Some p1, fromp := \<not> first_from F p1 p2\<rparr>
      else if p = p1 then (pdata F p)\<lparr>neighbor := Some p2, fromp := first_from F p1 p2\<rparr>
      else pdata F p)"

definition unlinked :: "port_data \<Rightarrow> port_data" where
  "unlinked d = d\<lparr>rate := 0, neighbor := None, fromp := False\<rparr>"

lemma add_link_cases:
  "FabricDataAddLink F p1 p2 =
     (if neighbor (pdata F p1) = None \<and> neighbor (pdata F p2) = None
      then (FSUCCESS, count_link 1 p1 (F\<lparr>pdata := linked F p1 p2\<rparr>)) else (FERROR, F))"
proof (cases "neighbor (pdata F p1) = None \<and> neighbor (pdata F p2) = None")
  case True
  have "(\<lambda>p. linked F p1 p2 p) = pdata (set_port p2 (\<lambda>d. d\<lparr>fromp := \<not> first_from F p1 p2\<rparr>)
      (set_port p1 (\<lambda>d. d\<lparr>fromp := first_from F p1 p2\<rparr>)
      (set_port p2 (\<lambda>d. d\<lparr>neighbor := Some p1\<rparr>) (set_port p1 (\<lambda>d. d\<lparr>neighbor := Some p2\<rparr>) F))))"
    by (rule ext) (auto simp: linked_def)
  moreover have "first_from (set_port p2 (\<lambda>d. d\<lparr>neighbor := Some p1\<rparr>) (set_port p1 (\<lambda>d. d\<lparr>neighbor := Some p2\<rparr>) F)) p1 p2 =
      first_from F p1 p2"
    by (auto simp: first_from_def)
  ultimately show ?thesis using True
    unfolding FabricDataAddLink_def Let_def first_from_def [symmetric]
    by (simp add: set_port_def)
qed (auto simp: FabricDataAddLink_def)

lemma remove_link_cases:
  "FabricDataRemoveLink F p1 =
     (case neighbor (pdata F p1) of
        None \<Rightarrow> (FERROR, F)
      | Some p2 \<Rightarrow>
          if p1 \<noteq> p2 \<and> neighbor (pdata F p2) = Some p1
          then (FSUCCESS, (count_link (- 1) p1 F)\<lparr>pdata := (\<lambda>p. if p = p1 \<or> p = p2 then unlinked (pdata F p) else pdata F p)\<rparr>)
          else (FERROR, F))"
  by (auto simp: FabricDataRemoveLink_def Let_def set_port_def unlinked_def fun_eq_iff split: option.split
      intro!: arg_cong [of _ _ "\<lambda>f. pdata_update f _"])

subsection \<open>Counting a class of links\<close>

text \<open>Equal as far as a class of links may look at it.\<close>

definition same_link :: "fabric_data \<Rightarrow> fabric_data \<Rightarrow> port \<Rightarrow> bool" where
  "same_link F G p \<longleftrightarrow> ndata G = ndata F \<and> (\<forall>q. nodep (pdata G q) = nodep (pdata F q)) \<and>
     neighbor (pdata G p) = neighbor (pdata F p)"

locale link_class =
  fixes cls :: "fabric_data \<Rightarrow> port \<Rightarrow> bool"
  assumes same: "same_link F G p \<Longrightarrow> cls G p = cls F p"
    and sym: "neighbor (pdata F p) = Some q \<Longrightarrow> neighbor (pdata F q) = Some p \<Longrightarrow> cls F q = cls F p"
begin

lemma finite_class: "links_shape F \<Longrightarrow> finite (from_class cls F)"
  unfolding links_shape_def from_class_def
  by (rule finite_subset [of _ "{p. neighbor (pdata F p) \<noteq> None}"]) blast+

lemma counted_cong:
  assumes "pdata G = pdata F" "ndata G = ndata F"
  shows "counted cls G = counted cls F"
proof -
  have "cls G p = cls F p" for p using assms by (intro same) (simp add: same_link_def)
  then show ?thesis by (simp add: counted_def from_class_def assms)
qed

lemma counted_add:
  assumes ok: "links_shape F" and free: "neighbor (pdata F p1) = None" "neighbor (pdata F p2) = None"
  defines "G \<equiv> F\<lparr>pdata := linked F p1 p2\<rparr>"
  shows "counted cls G = counted cls F + (if cls G p1 then 1 else 0)"
proof -
  let ?f = "if p1 = p2 \<or> first_from F p1 p2 then p1 else p2"
  have n: "\<not> fromp (pdata F p1)" "\<not> fromp (pdata F p2)" using ok free unfolding links_shape_def by blast+
  have other: "cls G p = cls F p" if "p \<noteq> p1" "p \<noteq> p2" for p
    using that by (intro same) (simp add: same_link_def G_def linked_def)
  have "cls G p2 = cls G p1" by (rule sym) (simp_all add: G_def linked_def)
  then have f: "cls G ?f = cls G p1" by simp
  have p: "p1 = p2 \<Longrightarrow> \<not> first_from F p1 p2" by (simp add: first_from_def)
  have "from_class cls G = (if cls G p1 then insert ?f (from_class cls F) else from_class cls F)"
  proof (rule set_eqI)
    fix p
    consider "p = ?f" | "p \<noteq> ?f" "p = p1 \<or> p = p2" | "p \<noteq> p1" "p \<noteq> p2" by auto
    then show "p \<in> from_class cls G \<longleftrightarrow> p \<in> (if cls G p1 then insert ?f (from_class cls F) else from_class cls F)"
    proof cases
      case 1
      then have "fromp (pdata G p)" using p by (auto simp: G_def linked_def split: if_splits)
      with 1 f n show ?thesis by (auto simp: from_class_def)
    next
      case 2
      then have "\<not> fromp (pdata G p)" using p by (auto simp: G_def linked_def split: if_splits)
      with 2 n show ?thesis by (auto simp: from_class_def)
    next
      case 3
      then have "pdata G p = pdata F p" by (simp add: G_def linked_def)
      with 3 other show ?thesis by (auto simp: from_class_def)
    qed
  qed
  moreover have "?f \<notin> from_class cls F" using n by (simp add: from_class_def)
  ultimately show ?thesis using finite_class [OF ok] by (simp add: counted_def)
qed

lemma counted_remove:
  assumes ok: "links_shape F" and l: "neighbor (pdata F p1) = Some p2" "p1 \<noteq> p2"
  defines "G \<equiv> F\<lparr>pdata := \<lambda>p. if p = p1 \<or> p = p2 then unlinked (pdata F p) else pdata F p\<rparr>"
  shows "counted cls G = counted cls F - (if cls F p1 then 1 else 0)"
proof -
  let ?f = "if fromp (pdata F p1) then p1 else p2"
  have n: "neighbor (pdata F p2) = Some p1" "fromp (pdata F p1) \<noteq> fromp (pdata F p2)"
    using ok l unfolding links_shape_def by (blast, metis)
  have other: "cls G p = cls F p" if "p \<noteq> p1" "p \<noteq> p2" for p
    using that by (intro same) (simp add: same_link_def G_def unlinked_def)
  have f: "cls F ?f = cls F p1" using sym [OF l(1) n(1)] by simp
  have "from_class cls G = from_class cls F - {?f}"
  proof (rule set_eqI)
    fix p
    show "p \<in> from_class cls G \<longleftrightarrow> p \<in> from_class cls F - {?f}"
      using n(2) other [of p] by (cases "p = p1 \<or> p = p2") (auto simp: from_class_def G_def unlinked_def)
  qed
  moreover have "?f \<in> from_class cls F \<longleftrightarrow> cls F p1" using n(2) f by (auto simp: from_class_def)
  ultimately have "card (from_class cls F) = card (from_class cls G) + (if cls F p1 then 1 else 0)"
    using finite_class [OF ok] card_Suc_Diff1 [of "from_class cls F" ?f] by (cases "cls F p1") simp_all
  then show ?thesis by (simp add: counted_def)
qed

end

lemma port_node_same: "same_link F G p \<Longrightarrow> port_node G q = port_node F q"
  by (simp add: same_link_def)

lemmas link_class_defs = isInternalLink_def isISLink_def isFILink_def any_link_def external_link_def external_is_link_def

interpretation any: link_class any_link
  by unfold_locales (simp_all add: any_link_def)

interpretation ext: link_class external_link
  by unfold_locales (auto simp: link_class_defs same_link_def split: option.split)

interpretation fi: link_class isFILink
  by unfold_locales (auto simp: link_class_defs same_link_def split: option.split)

interpretation isl: link_class isISLink
  by unfold_locales (auto simp: link_class_defs same_link_def split: option.split)

interpretation ext_isl: link_class external_is_link
  by unfold_locales (auto simp: link_class_defs same_link_def split: option.split)

lemmas counted_adds = any.counted_add ext.counted_add fi.counted_add isl.counted_add ext_isl.counted_add
lemmas counted_removes = any.counted_remove ext.counted_remove fi.counted_remove isl.counted_remove ext_isl.counted_remove
lemmas counted_congs = any.counted_cong ext.counted_cong fi.counted_cong isl.counted_cong ext_isl.counted_cong

lemma counted_count_link [simp]:
  "counted any_link (count_link d p F) = counted any_link F"
  "counted external_link (count_link d p F) = counted external_link F"
  "counted isFILink (count_link d p F) = counted isFILink F"
  "counted isISLink (count_link d p F) = counted isISLink F"
  "counted external_is_link (count_link d p F) = counted external_is_link F"
  by (intro counted_congs count_link_simps)+

lemma count_link_fields [simp]:
  "LinkCount (count_link d p F) = LinkCount F + d"
  "ExtLinkCount (count_link d p F) = ExtLinkCount F + (if external_link F p then d else 0)"
  "FILinkCount (count_link d p F) = FILinkCount F + (if isFILink F p then d else 0)"
  "ISLinkCount (count_link d p F) = ISLinkCount F + (if isISLink F p then d else 0)"
  "ExtISLinkCount (count_link d p F) = ExtISLinkCount F + (if external_is_link F p then d else 0)"
  by (simp_all add: count_link_def external_link_def external_is_link_def)

subsection \<open>The invariant\<close>

lemma links_shape_cong: "pdata G = pdata F \<Longrightarrow> links_shape G = links_shape F"
  by (simp add: links_shape_def)

lemma links_shape_count_link [simp]: "links_shape (count_link d p F) = links_shape F"
  by (rule links_shape_cong) simp

lemma shape_add:
  assumes "links_shape F" "neighbor (pdata F p1) = None" "neighbor (pdata F p2) = None"
  shows "links_shape (F\<lparr>pdata := linked F p1 p2\<rparr>)"
proof -
  let ?G = "F\<lparr>pdata := linked F p1 p2\<rparr>"
  have n: "neighbor (pdata ?G p) = (if p = p2 then Some p1 else if p = p1 then Some p2 else neighbor (pdata F p))" for p
    by (simp add: linked_def)
  have f: "fromp (pdata ?G p) = (if p = p2 then \<not> first_from F p1 p2 else if p = p1 then first_from F p1 p2
      else fromp (pdata F p))" for p
    by (simp add: linked_def)
  have irr: "p1 = p2 \<Longrightarrow> \<not> first_from F p1 p2" by (simp add: first_from_def)
  have other: "neighbor (pdata F p) \<noteq> Some p1" "neighbor (pdata F p) \<noteq> Some p2" for p
    using assms unfolding links_shape_def by (metis option.distinct(1))+
  have "{p. neighbor (pdata ?G p) \<noteq> None} \<subseteq> insert p1 (insert p2 {p. neighbor (pdata F p) \<noteq> None})"
    unfolding n by auto
  moreover have "finite {p. neighbor (pdata F p) \<noteq> None}" using assms(1) unfolding links_shape_def by blast
  then have "finite (insert p1 (insert p2 {p. neighbor (pdata F p) \<noteq> None}))" by simp
  ultimately have "finite {p. neighbor (pdata ?G p) \<noteq> None}" by (rule finite_subset)
  moreover have "\<not> fromp (pdata ?G p)" if "neighbor (pdata ?G p) = None" for p
  proof -
    from that have p: "p \<noteq> p1" "p \<noteq> p2" "neighbor (pdata F p) = None" unfolding n by (simp_all split: if_splits)
    then have "\<not> fromp (pdata F p)" using assms(1) unfolding links_shape_def by blast
    with p show ?thesis unfolding f by simp
  qed
  moreover have "neighbor (pdata ?G q) = Some p \<and> (if p = q then fromp (pdata ?G p) else fromp (pdata ?G p) \<noteq> fromp (pdata ?G q))"
    if h: "neighbor (pdata ?G p) = Some q" for p q
  proof (cases "p = p1 \<or> p = p2")
    case True
    then show ?thesis using h irr unfolding n f by (auto split: if_splits)
  next
    case False
    with h have h': "neighbor (pdata F p) = Some q" unfolding n by simp
    with other [of p] have "q \<noteq> p1" "q \<noteq> p2" by auto
    moreover have "neighbor (pdata F q) = Some p" "if p = q then fromp (pdata F p) else fromp (pdata F p) \<noteq> fromp (pdata F q)"
      using h' assms(1) unfolding links_shape_def by blast+
    ultimately show ?thesis using False unfolding n f by (cases "p = q") simp_all
  qed
  ultimately show ?thesis unfolding links_shape_def by blast
qed

lemma shape_remove:
  assumes "links_shape F" "neighbor (pdata F p1) = Some p2"
  shows "links_shape (F\<lparr>pdata := \<lambda>p. if p = p1 \<or> p = p2 then unlinked (pdata F p) else pdata F p\<rparr>)"
proof -
  let ?G = "F\<lparr>pdata := \<lambda>p. if p = p1 \<or> p = p2 then unlinked (pdata F p) else pdata F p\<rparr>"
  have n: "neighbor (pdata ?G p) = (if p = p1 \<or> p = p2 then None else neighbor (pdata F p))"
    "fromp (pdata ?G p) \<longleftrightarrow> p \<noteq> p1 \<and> p \<noteq> p2 \<and> fromp (pdata F p)" for p
    by (simp_all add: unlinked_def)
  have s: "finite {p. neighbor (pdata F p) \<noteq> None}"
    "\<And>p. neighbor (pdata F p) = None \<Longrightarrow> \<not> fromp (pdata F p)"
    "\<And>p q. neighbor (pdata F p) = Some q \<Longrightarrow> neighbor (pdata F q) = Some p"
    "\<And>p q. neighbor (pdata F p) = Some q \<Longrightarrow> if p = q then fromp (pdata F p) else fromp (pdata F p) \<noteq> fromp (pdata F q)"
    using assms(1) unfolding links_shape_def by blast+
  have "finite {p. neighbor (pdata ?G p) \<noteq> None}"
    unfolding n by (rule finite_subset [OF _ s(1)]) auto
  moreover have "neighbor (pdata ?G q) = Some p \<and> (if p = q then fromp (pdata ?G p) else fromp (pdata ?G p) \<noteq> fromp (pdata ?G q))"
    if h: "neighbor (pdata ?G p) = Some q" for p q
  proof -
    from h have h': "neighbor (pdata F p) = Some q" "p \<noteq> p1" "p \<noteq> p2" unfolding n by (auto split: if_splits)
    have "q \<noteq> p1 \<and> q \<noteq> p2" using s(3) [OF h'(1)] s(3) [OF assms(2)] assms(2) h'(2,3) by auto
    with h' s(3,4) [OF h'(1)] show ?thesis unfolding n by (cases "p = q") simp_all
  qed
  moreover have "\<not> fromp (pdata ?G p)" if "neighbor (pdata ?G p) = None" for p
    using that s(2) unfolding n by (auto split: if_splits)
  ultimately show ?thesis unfolding links_shape_def by blast
qed

lemma add_link_ok:
  assumes "links_ok F"
  shows "links_ok (snd (FabricDataAddLink F p1 p2))"
proof (cases "neighbor (pdata F p1) = None \<and> neighbor (pdata F p2) = None")
  case True
  let ?G = "F\<lparr>pdata := linked F p1 p2\<rparr>"
  have s: "links_shape F" "links_counted F" using assms by (simp_all add: links_ok_def)
  note c = counted_adds [OF s(1) conjunct1 [OF True] conjunct2 [OF True]]
  have "links_counted (count_link 1 p1 ?G)"
    using s(2) c by (simp add: links_counted_def any_link_def)
  then show ?thesis using True shape_add [OF s(1)] by (simp add: add_link_cases links_ok_def)
next
  case False
  then have "snd (FabricDataAddLink F p1 p2) = F" unfolding add_link_cases by (simp only: if_False snd_conv)
  with assms show ?thesis by simp
qed

lemma remove_link_ok:
  assumes "links_ok F"
  shows "links_ok (snd (FabricDataRemoveLink F p1))"
proof (cases "neighbor (pdata F p1)")
  case None
  then show ?thesis using assms by (simp add: remove_link_cases)
next
  case (Some p2)
  have s: "links_shape F" "links_counted F" using assms by (simp_all add: links_ok_def)
  show ?thesis
  proof (cases "p1 = p2")
    case True
    then show ?thesis using assms Some by (simp add: remove_link_cases)
  next
    case False
    let ?f = "\<lambda>p. if p = p1 \<or> p = p2 then unlinked (pdata F p) else pdata F p"
    let ?G = "F\<lparr>pdata := ?f\<rparr>" and ?H = "(count_link (- 1) p1 F)\<lparr>pdata := ?f\<rparr>"
    have e: "counted any_link ?H = counted any_link ?G" "counted external_link ?H = counted external_link ?G"
      "counted isFILink ?H = counted isFILink ?G" "counted isISLink ?H = counted isISLink ?G"
      "counted external_is_link ?H = counted external_is_link ?G"
      by (intro counted_congs; simp)+
    have "links_counted ?H"
      using s(2) counted_removes [OF s(1) Some False] unfolding links_counted_def e
      by (simp add: any_link_def del: counted_count_link)
    moreover have "links_shape ?H" using shape_remove [OF s(1) Some] links_shape_cong [of ?H ?G] by simp
    moreover have "neighbor (pdata F p2) = Some p1" using s(1) Some unfolding links_shape_def by blast
    ultimately show ?thesis using Some False by (simp add: remove_link_cases links_ok_def)
  qed
qed

text \<open>Sequences of operations, failing ones included.\<close>

datatype link_op = AddLink port port | RemoveLink port

fun link_step :: "link_op \<Rightarrow> fabric_data \<Rightarrow> fabric_data" where
  "link_step (AddLink p1 p2) F = snd (FabricDataAddLink F p1 p2)"
| "link_step (RemoveLink p) F = snd (FabricDataRemoveLink F p)"

lemma link_steps_ok: "links_ok F \<Longrightarrow> links_ok (fold link_step ops F)"
proof (induction ops arbitrary: F)
  case (Cons op ops)
  then show ?case by (cases op) (simp_all add: add_link_ok remove_link_ok)
qed simp

subsection \<open>Undoing a link\<close>

lemma count_link_undo: "count_link (- 1) p (count_link 1 p F) = F"
proof -
  have "isInternalLink (count_link 1 p F) p = isInternalLink F p" "isISLink (count_link 1 p F) p = isISLink F p"
    "isFILink (count_link 1 p F) p = isFILink F p"
    by (simp_all add: isInternalLink_def isISLink_def isFILink_def split: option.split)
  then show ?thesis unfolding count_link_def [of "- 1"] by (simp add: count_link_def)
qed

lemma count_link_sym:
  assumes "neighbor (pdata F p) = Some q" "neighbor (pdata F q) = Some p"
  shows "count_link d q F = count_link d p F"
  using ext.sym [OF assms] fi.sym [OF assms] isl.sym [OF assms]
  by (simp add: count_link_def external_link_def)

lemma unlinked_free:
  "neighbor d = None \<Longrightarrow> \<not> fromp d \<Longrightarrow> unlinked (d\<lparr>neighbor := n, fromp := b\<rparr>) = d\<lparr>rate := 0\<rparr>"
  by (cases d) (simp add: unlinked_def)

lemma remove_added:
  assumes ok: "links_shape F" and a: "FabricDataAddLink F p q = (FSUCCESS, G)" and r: "r = p \<or> r = q" and ne: "p \<noteq> q"
  shows "FabricDataRemoveLink G r =
    (FSUCCESS, F\<lparr>pdata := \<lambda>x. if x = p \<or> x = q then (pdata F x)\<lparr>rate := 0\<rparr> else pdata F x\<rparr>)"
proof -
  let ?H = "F\<lparr>pdata := linked F p q\<rparr>"
  from a have free: "neighbor (pdata F p) = None" "neighbor (pdata F q) = None" and G: "G = count_link 1 p ?H"
    by (auto simp: add_link_cases split: if_splits)
  have nf: "\<not> fromp (pdata F p)" "\<not> fromp (pdata F q)" using ok free unfolding links_shape_def by blast+
  have n: "neighbor (pdata G p) = Some q" "neighbor (pdata G q) = Some p" using ne by (simp_all add: G linked_def)
  have u: "count_link (- 1) r G = ?H"
    using r count_link_sym [OF n] count_link_undo [of p ?H] by (auto simp: G)
  have d: "(\<lambda>x. if x = p \<or> x = q then unlinked (pdata G x) else pdata G x) =
      (\<lambda>x. if x = p \<or> x = q then (pdata F x)\<lparr>rate := 0\<rparr> else pdata F x)"
    using free nf ne by (auto simp: fun_eq_iff G linked_def unlinked_free)
  have "FabricDataRemoveLink G r =
      (FSUCCESS, ?H\<lparr>pdata := \<lambda>x. if x = p \<or> x = q then unlinked (pdata G x) else pdata G x\<rparr>)"
    using r ne n u by (auto simp: remove_link_cases disj_commute)
  then show ?thesis unfolding d by simp
qed

end
