(* ===== verification/LidMap_Props.thy ===== *)
theory LidMap_Props
  imports LidMap FabricLinks
begin

text \<open>
  The array of LIDs as a partial function, and the effect of adding and removing a port on it.
\<close>

lemma lid_position: "block_num a = block_num b \<Longrightarrow> entry_num a = entry_num b \<Longrightarrow> a = b"
proof -
  assume "block_num a = block_num b" "entry_num a = entry_num b"
  then have "drop_bit 14 a = drop_bit 14 b" "take_bit 14 a = take_bit 14 b"
    unfolding block_num_def entry_num_def word_unat_eq_iff
    by (simp_all add: take_bit_eq_mask mask_eq_exp_minus_1)
  then show "a = b" by (metis bits_ident)
qed

lemma get_set_entry:
  assumes "lid \<le> TOPLM_LID_MAX" "pd = None \<or> alloc (block_num lid) \<or> LidBlocks F (block_num lid) \<noteq> None"
  shows "fst (SetMapEntry alloc F lid pd) = FSUCCESS \<and>
    GetMapEntry (snd (SetMapEntry alloc F lid pd)) = (GetMapEntry F)(lid := pd)"
  using assms
  by (auto simp: SetMapEntry_def GetMapEntry_def fun_eq_iff dest: lid_position split: option.splits)

lemma set_entry_out: "lid > TOPLM_LID_MAX \<Longrightarrow> SetMapEntry alloc F lid pd = (FERROR, F)"
  by (simp add: SetMapEntry_def)

text \<open>Equal up to the array and the count of LIDs.\<close>

definition lids_of :: "fabric_data \<Rightarrow> fabric_data \<Rightarrow> bool" where
  "lids_of F G \<longleftrightarrow> G = F\<lparr>LidBlocks := LidBlocks G, lidCount := lidCount G\<rparr>"

lemma lids_of_refl [simp]: "lids_of F F"
  by (simp add: lids_of_def)

lemma lids_of_trans: "lids_of F G \<Longrightarrow> lids_of G H \<Longrightarrow> lids_of F H"
  unfolding lids_of_def by (cases F; cases G; cases H) simp

lemma lids_of_set [simp]: "lids_of F (snd (SetMapEntry alloc F lid pd))"
  by (simp add: SetMapEntry_def lids_of_def split: option.split)

lemma lids_of_count [simp]: "lids_of F (F\<lparr>lidCount := n\<rparr>)"
  by (simp add: lids_of_def)

lemma lids_of_fields:
  assumes "lids_of F G"
  shows "pdata G = pdata F" "ndata G = ndata F" "lid_array G = lid_array F"
  by (subst assms [unfolded lids_of_def], simp)+

lemma set_entry_count [simp]: "lidCount (snd (SetMapEntry alloc F lid pd)) = lidCount F"
  by (simp add: SetMapEntry_def split: option.split)

lemma get_entry_count [simp]: "GetMapEntry (F\<lparr>lidCount := n\<rparr>) = GetMapEntry F"
  by (simp add: GetMapEntry_def fun_eq_iff)

lemma clear_entry:
  "GetMapEntry (snd (SetMapEntry alloc F lid None)) = (GetMapEntry F)(lid := None)"
proof (cases "lid \<le> TOPLM_LID_MAX")
  case True
  then show ?thesis using get_set_entry [of lid None] by simp
next
  case False
  then show ?thesis by (auto simp: set_entry_out GetMapEntry_def fun_eq_iff)
qed

subsection \<open>The loops\<close>

lemma range_step:
  fixes first :: "'a :: len word"
  assumes "first < e"
  shows "first \<le> l \<longleftrightarrow> l = first \<or> first + 1 \<le> l"
  using less_plus_one [OF assms] by (auto simp: word_le_nat_alt word_unat_eq_iff)

lemma clear_lids_correct:
  assumes "lst < - 1"
  shows "\<exists>G. clear_lids F first lst = Some G \<and> lids_of F G \<and> lidCount G = lidCount F \<and>
    GetMapEntry G = (\<lambda>l. if first \<le> l \<and> l \<le> lst then None else GetMapEntry F l)"
proof (induction "unat lst + 1 - unat first" arbitrary: F first rule: less_induct)
  case less
  show ?case
  proof (cases "first \<le> lst")
    case False
    then have "clear_lids F first lst = Some F" by (simp add: clear_lids.simps)
    with False show ?thesis by (auto simp: fun_eq_iff)
  next
    case True
    let ?F = "snd (SetMapEntry (\<lambda>_. False) F first None)"
    have f: "first < - 1" using True assms by (rule order_le_less_trans)
    have "unat lst + 1 - unat (first + 1) < unat lst + 1 - unat first"
      using True less_plus_one [OF f] by (simp add: word_le_nat_alt)
    from less [OF this, of ?F] obtain G where G: "clear_lids ?F (first + 1) lst = Some G" "lids_of ?F G"
      "lidCount G = lidCount ?F"
      "GetMapEntry G = (\<lambda>l. if first + 1 \<le> l \<and> l \<le> lst then None else GetMapEntry ?F l)" by blast
    have "clear_lids F first lst = Some G" using True G(1) by (simp add: clear_lids.simps [of F])
    moreover have "GetMapEntry G = (\<lambda>l. if first \<le> l \<and> l \<le> lst then None else GetMapEntry F l)"
      unfolding G(4) clear_entry using True range_step [OF f] by (auto simp: fun_eq_iff)
    moreover have "lids_of F G" using G(2) lids_of_set lids_of_trans by blast
    ultimately show ?thesis using G(3) by auto
  qed
qed

text \<open>Up to the greatest word the loop does not end.\<close>

lemma clear_lids_endless: "clear_lids F first (- 1) = None"
proof -
  have "lst \<noteq> - 1" if "clear_lids F first lst = Some G" for F first lst G
  proof (rule clear_lids.raw_induct [of "\<lambda>F first lst G. lst \<noteq> - 1", OF _ that])
    fix clear :: "fabric_data \<Rightarrow> uint32 \<Rightarrow> uint32 \<Rightarrow> fabric_data option" and F first lst G
    assume "\<And>F first lst G. clear F first lst = Some G \<Longrightarrow> lst \<noteq> - 1"
      "(if first \<le> lst then clear (snd (SetMapEntry (\<lambda>_. False) F first None)) (first + 1) lst else Some F) = Some G"
    then show "lst \<noteq> - 1" by (cases "first \<le> lst") auto
  qed
  then show ?thesis by (cases "clear_lids F first (- 1)") blast+
qed

lemma partial_loop_correct:
  assumes "first \<le> lst"
  shows "\<exists>G. partial_loop F first lst = Some G \<and> lids_of F G \<and>
    lidCount G = lidCount F - (lst - first) \<and>
    GetMapEntry G = (\<lambda>l. if first \<le> l \<and> l < lst then None else GetMapEntry F l)"
  using assms
proof (induction "unat lst - unat first" arbitrary: F first rule: less_induct)
  case less
  show ?case
  proof (cases "first < lst")
    case False
    with less.prems have "first = lst" by simp
    moreover have "partial_loop F first lst = Some F" using False by (simp add: partial_loop.simps)
    ultimately show ?thesis by (auto simp: fun_eq_iff)
  next
    case True
    let ?F = "snd (SetMapEntry (\<lambda>_. False) F first None)"
    let ?F' = "?F\<lparr>lidCount := lidCount ?F - 1\<rparr>"
    have d: "unat lst - unat (first + 1) < unat lst - unat first" "first + 1 \<le> lst"
      using True less_plus_one [OF True] by (simp_all add: word_le_nat_alt word_less_nat_alt)
    from less.hyps [OF d, of ?F'] obtain G where G: "partial_loop ?F' (first + 1) lst = Some G" "lids_of ?F' G"
      "lidCount G = lidCount ?F' - (lst - (first + 1))"
      "GetMapEntry G = (\<lambda>l. if first + 1 \<le> l \<and> l < lst then None else GetMapEntry ?F' l)" by blast
    have "partial_loop F first lst = Some G" using True G(1) by (simp add: partial_loop.simps [of F] Let_def)
    moreover have "GetMapEntry G = (\<lambda>l. if first \<le> l \<and> l < lst then None else GetMapEntry F l)"
      unfolding G(4) get_entry_count clear_entry using True range_step [OF True] by (auto simp: fun_eq_iff)
    moreover have "lids_of F G" by (rule lids_of_trans [OF lids_of_trans [OF lids_of_set lids_of_count] G(2)])
    moreover have "lidCount G = lidCount F - (lst - first)" using G(3) by (simp add: algebra_simps)
    ultimately show ?thesis by blast
  qed
qed

text \<open>Entering a port into a range that only it and nobody else has entries in.\<close>

definition all_alloc :: "(nat \<Rightarrow> bool) \<Rightarrow> bool" where
  "all_alloc alloc \<longleftrightarrow> (\<forall>b. alloc b)"

lemma enter_entry:
  assumes "all_alloc alloc" "lid \<le> TOPLM_LID_MAX"
  shows "GetMapEntry (snd (SetMapEntry alloc F lid pd)) = (GetMapEntry F)(lid := pd)"
  using get_set_entry [of lid pd alloc F] assms by (simp add: all_alloc_def)

definition new_lids :: "fabric_data \<Rightarrow> uint32 \<Rightarrow> uint32 \<Rightarrow> uint32 set" where
  "new_lids F first lst = {l. first \<le> l \<and> l \<le> lst \<and> GetMapEntry F l = None}"

lemma add_loop_free:
  assumes "all_alloc alloc" "lst \<le> TOPLM_LID_MAX"
    and "\<forall>l. first \<le> l \<and> l \<le> lst \<longrightarrow> GetMapEntry F l = None \<or> GetMapEntry F l = Some p"
  shows "\<exists>G. add_loop alloc p force perm first lst status F = Some (status, G) \<and> lids_of F G \<and>
    lidCount G = lidCount F + of_nat (card (new_lids F first lst)) \<and>
    GetMapEntry G = (\<lambda>l. if first \<le> l \<and> l \<le> lst then Some p else GetMapEntry F l)"
  using assms(3)
proof (induction "unat lst + 1 - unat first" arbitrary: F first rule: less_induct)
  case less
  show ?case
  proof (cases "first \<le> lst")
    case False
    then have "add_loop alloc p force perm first lst status F = Some (status, F)" by (simp add: add_loop.simps)
    moreover have "new_lids F first lst = {}" using False by (auto simp: new_lids_def)
    ultimately show ?thesis using False by (auto simp: fun_eq_iff)
  next
    case True
    have f: "first < - 1" using True assms(2) by (auto intro!: order_le_less_trans [of first "TOPLM_LID_MAX" "- 1"])
    let ?E = "if GetMapEntry F first = None
      then snd (SetMapEntry alloc (F\<lparr>lidCount := lidCount F + 1\<rparr>) first (Some p)) else F"
    have le: "first \<le> TOPLM_LID_MAX" using True assms(2) by simp
    have own: "GetMapEntry F first = None \<or> GetMapEntry F first = Some p" using less.prems True by simp
    have E: "GetMapEntry ?E = (GetMapEntry F)(first := Some p)" "lids_of F ?E"
      "lidCount ?E = lidCount F + (if GetMapEntry F first = None then 1 else 0)"
      using own enter_entry [OF assms(1) le] lids_of_trans [OF lids_of_count lids_of_set] by auto
    have step: "add_loop alloc p force perm first lst status F = add_loop alloc p force perm (first + 1) lst status ?E"
      using True own by (auto simp: add_loop.simps [of _ _ _ _ first] Let_def)
    have d: "unat lst + 1 - unat (first + 1) < unat lst + 1 - unat first"
      using True less_plus_one [OF f] by (simp add: word_le_nat_alt)
    have "\<forall>l. first + 1 \<le> l \<and> l \<le> lst \<longrightarrow> GetMapEntry ?E l = None \<or> GetMapEntry ?E l = Some p"
      unfolding E(1) using less.prems range_step [OF f] by auto
    from less.hyps [OF d this] obtain G where G: "add_loop alloc p force perm (first + 1) lst status ?E = Some (status, G)"
      "lids_of ?E G" "lidCount G = lidCount ?E + of_nat (card (new_lids ?E (first + 1) lst))"
      "GetMapEntry G = (\<lambda>l. if first + 1 \<le> l \<and> l \<le> lst then Some p else GetMapEntry ?E l)" by blast
    have ns: "\<not> first + 1 \<le> first" using less_plus_one [OF f] by (simp add: word_le_nat_alt)
    then have "new_lids ?E (first + 1) lst = new_lids F first lst - {first}"
      unfolding new_lids_def E(1) using range_step [OF f] by auto
    moreover have "first \<in> new_lids F first lst \<longleftrightarrow> GetMapEntry F first = None" using True by (simp add: new_lids_def)
    ultimately have "card (new_lids F first lst) =
        card (new_lids ?E (first + 1) lst) + (if GetMapEntry F first = None then 1 else 0)"
      using card_Suc_Diff1 [of "new_lids F first lst" first] by auto
    then have "of_nat (card (new_lids F first lst)) =
        (of_nat (card (new_lids ?E (first + 1) lst)) + (if GetMapEntry F first = None then 1 else 0) :: uint32)"
      by simp
    moreover have "GetMapEntry G = (\<lambda>l. if first \<le> l \<and> l \<le> lst then Some p else GetMapEntry F l)"
      unfolding G(4) E(1) using True range_step [OF f] by (auto simp: fun_eq_iff)
    moreover have "lids_of F G" using G(2) E(2) lids_of_trans by blast
    ultimately show ?thesis using step G(1,3) E(3) by simp
  qed
qed

lemma add_loop_conflict:
  assumes "all_alloc alloc" "lst \<le> TOPLM_LID_MAX" "EndPortLID (pdata F p) = perm"
    and "perm \<le> first" "\<forall>l. first \<le> l \<and> l \<le> lst \<longrightarrow> GetMapEntry F l \<noteq> Some p"
    and "\<exists>l. first \<le> l \<and> l \<le> lst \<and> GetMapEntry F l \<noteq> None"
  shows "\<exists>G. add_loop alloc p False perm first lst status F = Some (FDUPLICATE, G) \<and> lids_of F G \<and>
    lidCount G = lidCount F - (first - perm) \<and>
    GetMapEntry G = (\<lambda>l. if perm \<le> l \<and> l < first then None else GetMapEntry F l)"
  using assms(3-6)
proof (induction "unat lst + 1 - unat first" arbitrary: F first rule: less_induct)
  case less
  from less.prems(4) have le: "first \<le> lst" by (blast intro: order_trans)
  have f: "first < - 1" using le assms(2) by (auto intro!: order_le_less_trans [of first "TOPLM_LID_MAX" "- 1"])
  show ?case
  proof (cases "GetMapEntry F first")
    case (Some q)
    have qp: "q \<noteq> p" using Some less.prems(3) le by auto
    have e: "perm + (first - perm) = first" by simp
    from partial_loop_correct [OF less.prems(2), of F] obtain G where
      G: "partial_loop F perm first = Some G" "lids_of F G" "lidCount G = lidCount F - (first - perm)"
        "GetMapEntry G = (\<lambda>l. if perm \<le> l \<and> l < first then None else GetMapEntry F l)" by blast
    have "add_loop alloc p False perm first lst status F = map_option (Pair FDUPLICATE) (PartialLidsRemove F p (first - perm))"
      using le Some qp by (simp add: add_loop.simps)
    also have "\<dots> = Some (FDUPLICATE, G)" using G(1) by (simp add: PartialLidsRemove_def less.prems(1) e)
    finally show ?thesis using G(2-4) by blast
  next
    case None
    let ?E = "snd (SetMapEntry alloc (F\<lparr>lidCount := lidCount F + 1\<rparr>) first (Some p))"
    have lf: "lids_of F ?E" using lids_of_trans [OF lids_of_count lids_of_set] .
    have E: "GetMapEntry ?E = (GetMapEntry F)(first := Some p)"
      using enter_entry [OF assms(1)] le assms(2) by simp
    have ns: "\<not> first + 1 \<le> first" using less_plus_one [OF f] by (simp add: word_le_nat_alt)
    have d: "unat lst + 1 - unat (first + 1) < unat lst + 1 - unat first" "perm \<le> first + 1"
      using le less.prems(2) less_plus_one [OF f] by (simp_all add: word_le_nat_alt)
    have h: "EndPortLID (pdata ?E p) = perm" using less.prems(1) lids_of_fields(1) [OF lf] by simp
    have own: "\<forall>l. first + 1 \<le> l \<and> l \<le> lst \<longrightarrow> GetMapEntry ?E l \<noteq> Some p"
      unfolding E using less.prems(3) range_step [OF f] ns by auto
    have con: "\<exists>l. first + 1 \<le> l \<and> l \<le> lst \<and> GetMapEntry ?E l \<noteq> None"
      using less.prems(4) None unfolding E by (metis fun_upd_apply range_step [OF f])
    from less.hyps [OF d(1) h d(2) own con] obtain G where
      G: "add_loop alloc p False perm (first + 1) lst status ?E = Some (FDUPLICATE, G)" "lids_of ?E G"
        "lidCount G = lidCount ?E - (first + 1 - perm)"
        "GetMapEntry G = (\<lambda>l. if perm \<le> l \<and> l < first + 1 then None else GetMapEntry ?E l)" by blast
    have "add_loop alloc p False perm first lst status F = Some (FDUPLICATE, G)"
      using le None G(1) by (simp add: add_loop.simps [of _ _ _ _ first] Let_def)
    moreover have "lids_of F G" using lids_of_trans [OF lf G(2)] .
    moreover have "lidCount G = lidCount F - (first - perm)" using G(3) by simp
    moreover have "l < first + 1 \<longleftrightarrow> l = first \<or> l < first" for l
      using range_step [OF f, of l] ns by (auto simp: not_le [symmetric])
    then have "GetMapEntry G = (\<lambda>l. if perm \<le> l \<and> l < first then None else GetMapEntry F l)"
      unfolding G(4) E using None less.prems(2) by (auto simp: fun_eq_iff)
    ultimately show ?thesis by blast
  qed
qed

subsection \<open>Ports\<close>

text \<open>A port that belongs into the map: it has a GUID, is up, and its LIDs are in range.\<close>

definition lid_port :: "fabric_data \<Rightarrow> port \<Rightarrow> bool" where
  "lid_port F p \<longleftrightarrow> PortGUID (pdata F p) \<noteq> 0 \<and> EndPortLID (pdata F p) \<noteq> 0 \<and>
     EndPortLID (pdata F p) \<le> TOPLM_LID_MAX \<and> PortInfo_LMC (pdata F p) < 16 \<and>
     (PortState (pdata F p) = ETH_PORT_UP \<or> PortState (pdata F p) = ETH_PORT_DORMANT)"

definition lid_range :: "fabric_data \<Rightarrow> port \<Rightarrow> uint32 set" where
  "lid_range F p = {l. EndPortLID (pdata F p) \<le> l \<and>
     l \<le> last_lid (EndPortLID (pdata F p)) (PortInfo_LMC (pdata F p))}"

lemma last_lid_mask: "last_lid a n = a OR mask n"
  by (simp add: last_lid_def mask_eq_exp_minus_1 push_bit_eq_mult)

lemma last_lid_bounds:
  assumes "a \<le> TOPLM_LID_MAX" "n < 16"
  shows "a \<le> last_lid a n" "last_lid a n \<le> TOPLM_LID_MAX" "last_lid a n < - 1"
proof -
  have t: "w \<le> TOPLM_LID_MAX \<longleftrightarrow> take_bit 24 w = w" for w :: uint32
  proof -
    have "w \<le> TOPLM_LID_MAX \<longleftrightarrow> unat w < 2 ^ 24" by (auto simp: word_le_nat_alt)
    also have "\<dots> \<longleftrightarrow> take_bit 24 (unat w) = unat w" by (simp add: take_bit_nat_eq_self_iff)
    finally show ?thesis by (simp add: word_unat_eq_iff unsigned_take_bit_eq)
  qed
  have "take_bit 24 a = a" using assms(1) t by simp
  moreover have "take_bit 24 (mask n :: uint32) = mask n" using assms(2) by (simp add: take_bit_of_mask min_def)
  ultimately have "take_bit 24 (last_lid a n) = last_lid a n" by (simp add: last_lid_mask take_bit_or)
  then show "last_lid a n \<le> TOPLM_LID_MAX" using t by simp
  then show "last_lid a n < - 1" by (rule order_le_less_trans) simp
  show "a \<le> last_lid a n" unfolding last_lid_mask by (rule le_word_or2)
qed

lemma remove_port:
  assumes "lid_array F" "lid_port F p"
  shows "\<exists>G. AllLidsRemove F p = Some G \<and> lids_of F G \<and>
    lidCount G = lidCount F - push_bit (PortInfo_LMC (pdata F p)) 1 \<and>
    GetMapEntry G = (\<lambda>l. if l \<in> lid_range F p then None else GetMapEntry F l)"
proof -
  let ?a = "EndPortLID (pdata F p)" and ?l = "last_lid (EndPortLID (pdata F p)) (PortInfo_LMC (pdata F p))"
  have "?l < - 1" using last_lid_bounds assms(2) by (simp add: lid_port_def)
  from clear_lids_correct [OF this, of F ?a] obtain G where G: "clear_lids F ?a ?l = Some G" "lids_of F G"
    "lidCount G = lidCount F" "GetMapEntry G = (\<lambda>l. if ?a \<le> l \<and> l \<le> ?l then None else GetMapEntry F l)" by blast
  have "AllLidsRemove F p = Some (G\<lparr>lidCount := lidCount G - push_bit (PortInfo_LMC (pdata F p)) 1\<rparr>)"
    using assms G(1) by (auto simp: AllLidsRemove_def Let_def lid_port_def)
  moreover have "lids_of F (G\<lparr>lidCount := lidCount G - push_bit (PortInfo_LMC (pdata F p)) 1\<rparr>)"
    using lids_of_trans [OF G(2) lids_of_count] .
  ultimately show ?thesis using G(3,4) by (auto simp: lid_range_def)
qed

lemma add_port_loop:
  assumes "lid_array F" "lid_port F p"
  shows "AllLidsAdd alloc F p force = add_loop alloc p force (EndPortLID (pdata F p)) (EndPortLID (pdata F p))
    (last_lid (EndPortLID (pdata F p)) (PortInfo_LMC (pdata F p))) FSUCCESS F"
  using assms by (auto simp: AllLidsAdd_def Let_def lid_port_def)

lemma add_port_free:
  assumes "lid_array F" "lid_port F p" "all_alloc alloc"
    and "\<forall>l \<in> lid_range F p. GetMapEntry F l = None \<or> GetMapEntry F l = Some p"
  shows "\<exists>G. AllLidsAdd alloc F p force = Some (FSUCCESS, G) \<and> lids_of F G \<and>
    lidCount G = lidCount F + of_nat (card {l \<in> lid_range F p. GetMapEntry F l = None}) \<and>
    GetMapEntry G = (\<lambda>l. if l \<in> lid_range F p then Some p else GetMapEntry F l)"
proof -
  have b: "last_lid (EndPortLID (pdata F p)) (PortInfo_LMC (pdata F p)) \<le> TOPLM_LID_MAX"
    using last_lid_bounds assms(2) by (simp add: lid_port_def)
  from add_loop_free [OF assms(3) b, of "EndPortLID (pdata F p)" F p] assms(4)
  show ?thesis unfolding add_port_loop [OF assms(1,2)] by (simp add: lid_range_def new_lids_def)
qed

lemma add_port_conflict:
  assumes "lid_array F" "lid_port F p" "all_alloc alloc"
    and "\<forall>l \<in> lid_range F p. GetMapEntry F l \<noteq> Some p" "\<exists>l \<in> lid_range F p. GetMapEntry F l \<noteq> None"
  shows "\<exists>G. AllLidsAdd alloc F p False = Some (FDUPLICATE, G) \<and> lids_of F G \<and>
    lidCount G = lidCount F \<and> GetMapEntry G = GetMapEntry F"
proof -
  have b: "last_lid (EndPortLID (pdata F p)) (PortInfo_LMC (pdata F p)) \<le> TOPLM_LID_MAX"
    using last_lid_bounds assms(2) by (simp add: lid_port_def)
  have own: "\<forall>l. EndPortLID (pdata F p) \<le> l \<and> l \<le> last_lid (EndPortLID (pdata F p)) (PortInfo_LMC (pdata F p)) \<longrightarrow>
      GetMapEntry F l \<noteq> Some p" using assms(4) by (simp add: lid_range_def)
  have con: "\<exists>l. EndPortLID (pdata F p) \<le> l \<and> l \<le> last_lid (EndPortLID (pdata F p)) (PortInfo_LMC (pdata F p)) \<and>
      GetMapEntry F l \<noteq> None" using assms(5) unfolding lid_range_def by blast
  have none: "(\<lambda>l. if EndPortLID (pdata F p) \<le> l \<and> l < EndPortLID (pdata F p) then None else GetMapEntry F l) = GetMapEntry F"
    by (auto simp: fun_eq_iff)
  from add_loop_conflict [OF assms(3) b refl order_refl own con, of FSUCCESS]
  show ?thesis unfolding add_port_loop [OF assms(1,2)] none by simp
qed

lemma card_word_range:
  fixes a b :: "'a :: len word"
  shows "card {l. a \<le> l \<and> l \<le> b} = unat b + 1 - unat a"
proof -
  have "unat ` {l. a \<le> l \<and> l \<le> b} = {unat a..unat b}"
  proof (intro equalityI subsetI)
    fix n assume n: "n \<in> {unat a..unat b}"
    then have "n < 2 ^ LENGTH('a)" using unsigned_less [of b] by (auto intro: order_le_less_trans)
    then have "n = unat (word_of_nat n :: 'a word)" by (simp add: unat_of_nat take_bit_nat_eq_self)
    with n show "n \<in> unat ` {l. a \<le> l \<and> l \<le> b}" by (auto simp: word_le_nat_alt intro!: image_eqI)
  qed (auto simp: word_le_nat_alt)
  then have "card {l. a \<le> l \<and> l \<le> b} = card {unat a..unat b}"
    using card_image [of unat "{l. a \<le> l \<and> l \<le> b}"] by (simp add: inj_on_def word_unat_eq_iff)
  then show ?thesis by simp
qed

definition lid_aligned :: "fabric_data \<Rightarrow> port \<Rightarrow> bool" where
  "lid_aligned F p \<longleftrightarrow> EndPortLID (pdata F p) AND mask (PortInfo_LMC (pdata F p)) = 0"

lemma range_aligned:
  assumes "lid_aligned F p" "lid_port F p"
  shows "card (lid_range F p) = 2 ^ PortInfo_LMC (pdata F p)"
proof -
  let ?a = "EndPortLID (pdata F p)" and ?n = "PortInfo_LMC (pdata F p)"
  have n: "?a \<le> TOPLM_LID_MAX" "?n < 16" using assms(2) by (simp_all add: lid_port_def)
  have "last_lid ?a ?n = ?a + mask ?n"
    using word_plus_and_or [of ?a "mask ?n"] assms(1) unfolding lid_aligned_def last_lid_mask by simp
  moreover have "unat (mask ?n :: uint32) = 2 ^ ?n - 1"
  proof -
    have "uint (mask ?n :: uint32) = mask ?n" using n(2) by (simp add: uint_mask_eq min_def)
    then show ?thesis by (metis nat_mask_eq mask_eq_exp_minus_1 unat_eq_nat_uint)
  qed
  moreover have "unat ?a + (2 ^ ?n - 1) < 2 ^ 32"
  proof -
    have "unat ?a \<le> 0xFFFFFF" using n(1) by (simp add: word_le_nat_alt)
    moreover have "(2 :: nat) ^ ?n \<le> 2 ^ 16" using n(2) by (intro power_increasing) auto
    ultimately show ?thesis by simp
  qed
  ultimately have "unat (last_lid ?a ?n) = unat ?a + (2 ^ ?n - 1)" by (simp add: unat_word_ariths)
  then show ?thesis unfolding lid_range_def card_word_range by simp
qed

end
