(* ===== verification/FabricBuild_Lids.thy ===== *)
theory FabricBuild_Lids
  imports FabricBuild LidMap_Props
begin

text \<open>
  The map of LIDs of a set of ports: it has exactly the LIDs of the active ports of the set, in both
  of its forms, and adding or removing a port adds it to the set or takes it out.
\<close>

definition lids_only :: "fabric_data \<Rightarrow> fabric_data \<Rightarrow> bool" where
  "lids_only F G \<longleftrightarrow> G = F\<lparr>LidBlocks := LidBlocks G, AllLids := AllLids G, lidCount := lidCount G\<rparr>"

lemma lids_only_of: "lids_of F G \<Longrightarrow> lids_only F G"
  unfolding lids_of_def lids_only_def by (cases F; cases G) simp

lemma lids_only_refl [simp]: "lids_only F F"
  by (simp add: lids_only_def)

lemma lids_only_fields:
  assumes "lids_only F G"
  shows "pdata G = pdata F" "ndata G = ndata F" "ldata G = ldata F" "edata G = edata F" "lid_array G = lid_array F"
    "AllNodes G = AllNodes F" "AllPorts G = AllPorts F" "AllFIs G = AllFIs F" "AllSWs G = AllSWs F"
    "LinkCount G = LinkCount F" "ExtLinkCount G = ExtLinkCount F" "FILinkCount G = FILinkCount F"
    "ISLinkCount G = ISLinkCount F" "ExtISLinkCount G = ExtISLinkCount F" "ExpectedLinks G = ExpectedLinks F"
    "ExpectedFIs G = ExpectedFIs F" "ExpectedSWs G = ExpectedSWs F" "ExpectedNodeGuidMap G = ExpectedNodeGuidMap F"
  by (subst assms [unfolded lids_only_def], simp)+

text \<open>A port that is to be found by its LIDs.\<close>

definition up_port :: "port_data \<Rightarrow> bool" where
  "up_port d \<longleftrightarrow> PortGUID d \<noteq> 0 \<and> EndPortLID d \<noteq> 0 \<and> (PortState d = ETH_PORT_UP \<or> PortState d = ETH_PORT_DORMANT)"

lemma lid_port_up: "lid_port F p \<longleftrightarrow> up_port (pdata F p) \<and> EndPortLID (pdata F p) \<le> TOPLM_LID_MAX \<and> PortInfo_LMC (pdata F p) < 16"
  by (auto simp: lid_port_def up_port_def)

definition lids_exact :: "port set \<Rightarrow> fabric_data \<Rightarrow> bool" where
  "lids_exact P F \<longleftrightarrow>
     (\<forall>p \<in> P. up_port (pdata F p) \<longrightarrow> lid_port F p) \<and>
     (if lid_array F
      then \<forall>l p. GetMapEntry F l = Some p \<longleftrightarrow> p \<in> P \<and> lid_port F p \<and> l \<in> lid_range F p
      else omap_ok (AllLids F) \<and>
        (\<forall>k p. omap_get k (AllLids F) = Some p \<longleftrightarrow> p \<in> P \<and> lid_port F p \<and> k = ucast (EndPortLID (pdata F p))))"

lemma lids_exact_cong:
  assumes "lid_array G = lid_array F" "LidBlocks G = LidBlocks F" "AllLids G = AllLids F"
    and "\<And>p. p \<in> P \<Longrightarrow> PortGUID (pdata G p) = PortGUID (pdata F p) \<and> EndPortLID (pdata G p) = EndPortLID (pdata F p) \<and>
      PortState (pdata G p) = PortState (pdata F p) \<and> PortInfo_LMC (pdata G p) = PortInfo_LMC (pdata F p)"
  shows "lids_exact P G = lids_exact P F"
proof -
  have "GetMapEntry G = GetMapEntry F" by (simp add: GetMapEntry_def assms(2) fun_eq_iff)
  moreover have "up_port (pdata G p) = up_port (pdata F p)" "lid_port G p = lid_port F p"
    "lid_range G p = lid_range F p" "EndPortLID (pdata G p) = EndPortLID (pdata F p)" if "p \<in> P" for p
    using assms(4) [OF that] by (simp_all add: up_port_def lid_port_def lid_range_def)
  ultimately show ?thesis
    unfolding lids_exact_def assms(1,3) by (smt (verit))
qed

lemma lid_same:
  assumes "lids_only F G"
  shows "lid_port G p = lid_port F p" "lid_range G p = lid_range F p"
  using lids_only_fields(1) [OF assms] by (simp_all add: lid_port_def lid_range_def)

lemma omap_get_filter:
  "omap_ok m \<Longrightarrow> omap_get j (filter (\<lambda>(k, w). w \<noteq> v) m) = (if omap_get j m = Some v then None else omap_get j m)"
proof (induction m)
  case (Cons e m)
  obtain k w where e: "e = (k, w)" by (cases e)
  have ok: "omap_ok m" using Cons.prems by (simp add: omap_ok_def)
  have "omap_get k m = None" using Cons.prems unfolding e
    by (fastforce simp: omap_ok_def omap_get_def map_of_eq_None_iff)
  with Cons.IH [OF ok] show ?case by (auto simp: e omap_get_def)
qed (simp add: omap_get_def)

lemma omap_ok_filter: "omap_ok m \<Longrightarrow> omap_ok (filter P m)"
  by (induction m) (auto simp: omap_ok_def)

lemma omap_value: "omap_ok m \<Longrightarrow> v \<in> snd ` set m \<longleftrightarrow> (\<exists>k. omap_get k m = Some v)"
  using omap_entry [of m] by force

lemma remove_not_up:
  assumes e: "lids_exact P F" and p: "p \<in> P" "\<not> up_port (pdata F p)"
  shows "AllLidsRemove F p = Some F"
proof -
  have "FindLid F l \<noteq> Some p" for l
  proof (cases "lid_array F")
    case True
    then show ?thesis using e p by (auto simp: FindLid_def lids_exact_def lid_port_up)
  next
    case False
    then have "p \<notin> snd ` set (AllLids F)"
      using e p omap_value [of "AllLids F" p] by (auto simp: lids_exact_def lid_port_up)
    then show ?thesis using False
      by (auto simp: FindLid_def find_lid_entry_def find_Some_iff image_iff in_set_conv_nth)
        (metis nth_mem snd_conv)
  qed
  then show ?thesis using p(2) by (auto simp: AllLidsRemove_def up_port_def Let_def)
qed

lemma lids_removed:
  assumes e: "lids_exact P F" and p: "p \<in> P"
  shows "\<exists>G. AllLidsRemove F p = Some G \<and> lids_only F G \<and> lids_exact (P - {p}) G"
proof (cases "up_port (pdata F p)")
  case False
  then have "lids_exact (P - {p}) F" using e by (auto simp: lids_exact_def lid_port_up)
  then show ?thesis using remove_not_up [OF e p False] by (intro exI [of _ F]) simp
next
  case up: True
  then have lp: "lid_port F p" using e p by (auto simp: lids_exact_def)
  show ?thesis
  proof (cases "lid_array F")
    case True
    from remove_port [OF True lp] obtain G where G: "AllLidsRemove F p = Some G" "lids_of F G"
      "GetMapEntry G = (\<lambda>l. if l \<in> lid_range F p then None else GetMapEntry F l)" by blast
    have o: "lids_only F G" using lids_only_of [OF G(2)] .
    have x: "GetMapEntry F l = Some q \<longleftrightarrow> q \<in> P \<and> lid_port F q \<and> l \<in> lid_range F q" for l q
      using e True by (simp add: lids_exact_def)
    have "GetMapEntry G l = Some q \<longleftrightarrow> q \<in> P - {p} \<and> lid_port G q \<and> l \<in> lid_range G q" for l q
      unfolding G(3) lid_same [OF o] using x [of l q] x [of l p] p lp by auto
    then have "lids_exact (P - {p}) G" using e True lids_only_fields(1,5) [OF o] lid_same [OF o]
      by (simp add: lids_exact_def)
    then show ?thesis using G(1) o by blast
  next
    case False
    let ?G = "F\<lparr>AllLids := filter (\<lambda>(k, q). q \<noteq> p) (AllLids F), lidCount := lidCount F - push_bit (PortInfo_LMC (pdata F p)) 1\<rparr>"
    have x: "omap_ok (AllLids F)" "omap_get k (AllLids F) = Some q \<longleftrightarrow> q \<in> P \<and> lid_port F q \<and> k = ucast (EndPortLID (pdata F q))" for k q
      using e False by (simp_all add: lids_exact_def)
    then have "p \<in> snd ` set (AllLids F)" using p lp omap_value [OF x(1)] by blast
    then have r: "AllLidsRemove F p = Some ?G"
      using up False by (auto simp: AllLidsRemove_def up_port_def Let_def)
    have o: "lids_only F ?G" by (simp add: lids_only_def)
    have "omap_get k (AllLids ?G) = Some q \<longleftrightarrow> q \<in> P - {p} \<and> lid_port ?G q \<and> k = ucast (EndPortLID (pdata ?G q))" for k q
      using x(2) [of k q] omap_get_filter [OF x(1), of k p] lid_same [OF o] by auto
    then have "lids_exact (P - {p}) ?G" using e False lid_same [OF o] omap_ok_filter [OF x(1)]
      by (simp add: lids_exact_def)
    then show ?thesis using r o by blast
  qed
qed

text \<open>A port whose LIDs are to be entered.\<close>

definition lids_addable :: "fabric_data \<Rightarrow> port \<Rightarrow> bool" where
  "lids_addable F p \<longleftrightarrow> (let d = pdata F p in
     if up_port d then PortInfo_LMC d < 16
     else PortGUID d = 0 \<or>
       PortState d \<noteq> ETH_PORT_UP \<and> PortState d \<noteq> ETH_PORT_DORMANT \<and>
       \<not> (NodeType (port_node F p) = NODE_SW \<and> PortNum d = 0 \<and> PortState d = ETH_PORT_NOP))"

lemma lids_added:
  assumes e: "lids_exact P F" and p: "p \<notin> P" and alloc: "all_alloc alloc" and a: "lids_addable F p"
  shows "\<exists>st G. AllLidsAdd alloc F p False = Some (st, G) \<and> lids_only F G \<and>
    (if st = FSUCCESS then lids_exact (insert p P) G else lids_exact P G)"
proof (cases "up_port (pdata F p)")
  case False
  then have "AllLidsAdd alloc F p False = Some (FSUCCESS, F)"
    using a by (auto simp: lids_addable_def AllLidsAdd_def Let_def)
  moreover have "lids_exact (insert p P) F" using e False by (auto simp: lids_exact_def lid_port_up)
  ultimately show ?thesis by simp
next
  case up: True
  show ?thesis
  proof (cases "EndPortLID (pdata F p) \<le> TOPLM_LID_MAX")
    case False
    then have "AllLidsAdd alloc F p False = Some (FERROR, F)"
      using up by (auto simp: up_port_def AllLidsAdd_def Let_def)
    then show ?thesis using e by simp
  next
    case True
    then have lp: "lid_port F p" using up a by (simp add: lid_port_up lids_addable_def)
    show ?thesis
    proof (cases "lid_array F")
      case arr: True
      have x: "GetMapEntry F l = Some q \<longleftrightarrow> q \<in> P \<and> lid_port F q \<and> l \<in> lid_range F q" for l q
        using e arr by (simp add: lids_exact_def)
      show ?thesis
      proof (cases "\<exists>l \<in> lid_range F p. GetMapEntry F l \<noteq> None")
        case True
        from add_port_conflict [OF arr lp alloc _ True] x p obtain G where
          G: "AllLidsAdd alloc F p False = Some (FDUPLICATE, G)" "lids_of F G" "GetMapEntry G = GetMapEntry F" by blast
        have o: "lids_only F G" using lids_only_of [OF G(2)] .
        have "lids_exact P G" using e arr x lids_only_fields(1,5) [OF o] lid_same [OF o] G(3)
          by (simp add: lids_exact_def)
        then show ?thesis using G(1) o by auto
      next
        case False
        then have "\<forall>l \<in> lid_range F p. GetMapEntry F l = None \<or> GetMapEntry F l = Some p" by blast
        from add_port_free [OF arr lp alloc this, of False] obtain G where
          G: "AllLidsAdd alloc F p False = Some (FSUCCESS, G)" "lids_of F G"
          "GetMapEntry G = (\<lambda>l. if l \<in> lid_range F p then Some p else GetMapEntry F l)" by blast
        have o: "lids_only F G" using lids_only_of [OF G(2)] .
        have "GetMapEntry G l = Some q \<longleftrightarrow> q \<in> insert p P \<and> lid_port G q \<and> l \<in> lid_range G q" for l q
          unfolding G(3) lid_same [OF o] using x [of l q] p lp False by auto
        then have "lids_exact (insert p P) G" using e arr lp lids_only_fields(1,5) [OF o] lid_same [OF o]
          by (simp add: lids_exact_def)
        then show ?thesis using G(1) o by auto
      qed
    next
      case q: False
      let ?k = "ucast (EndPortLID (pdata F p)) :: uint64"
      have x: "omap_ok (AllLids F)" "omap_get k (AllLids F) = Some q \<longleftrightarrow> q \<in> P \<and> lid_port F q \<and> k = ucast (EndPortLID (pdata F q))" for k q
        using e q by (simp_all add: lids_exact_def)
      show ?thesis
      proof (cases "omap_get ?k (AllLids F)")
        case None
        define G where "G = F\<lparr>AllLids := omap_insert ?k p (AllLids F),
          lidCount := lidCount F + push_bit (PortInfo_LMC (pdata F p)) 1\<rparr>"
        have r: "AllLidsAdd alloc F p False = Some (FSUCCESS, G)"
          using up q True None by (auto simp: AllLidsAdd_def up_port_def Let_def G_def)
        have o: "lids_only F G" and G: "AllLids G = omap_insert ?k p (AllLids F)" by (simp_all add: lids_only_def G_def)
        have "omap_get k (AllLids G) = Some r \<longleftrightarrow> r \<in> insert p P \<and> lid_port G r \<and> k = ucast (EndPortLID (pdata G r))" for k r
        proof -
          have g: "omap_get k (AllLids G) = (if k = ?k then Some p else omap_get k (AllLids F))"
            using omap_get_insert [OF x(1), of k ?k p] None by (simp add: G)
          have n: "\<not> (r \<in> P \<and> lid_port F r \<and> ?k = ucast (EndPortLID (pdata F r)))"
            using x(2) [of ?k r] None by simp
          show ?thesis unfolding g lid_same [OF o] lids_only_fields(1) [OF o]
            using x(2) [of k r] n p lp by (cases "k = ?k"; cases "r = p") auto
        qed
        then have "lids_exact (insert p P) G" using e q lp lids_only_fields(1,5) [OF o] lid_same [OF o] omap_insert_ok [OF x(1)]
          by (simp add: lids_exact_def G)
        then show ?thesis using r o by auto
      next
        case (Some r)
        then have "r \<noteq> p" using x(2) p by auto
        have "PortGUID (pdata F p) \<noteq> 0"
          "\<not> (PortState (pdata F p) \<noteq> ETH_PORT_UP \<and> PortState (pdata F p) \<noteq> ETH_PORT_DORMANT)"
          using up by (auto simp: up_port_def)
        then have "AllLidsAdd alloc F p False = Some (FDUPLICATE, F)"
          using q True Some \<open>r \<noteq> p\<close> by (auto simp: AllLidsAdd_def Let_def)
        then show ?thesis using e by simp
      qed
    qed
  qed
qed

end
