(* ===== verification/FabricBuild_Inv.thy ===== *)
theory FabricBuild_Inv
  imports FabricBuild_Lids
begin

text \<open>
  The invariant of the data of a fabric.  The maps refer to each other: every node is in the map of its
  system under its GUID, every system has a node, every port is in the map of its node under its number;
  the objects are distinct blocks of memory in use; the map of LIDs has exactly the LIDs of the active
  ports; links join ports of the fabric and are counted.
\<close>

definition node_set :: "fabric_state \<Rightarrow> node set" where
  "node_set M = {n. \<exists>k. omap_get k (AllNodes (fab M)) = Some n}"

definition system_set :: "fabric_state \<Rightarrow> sys set" where
  "system_set M = {s. \<exists>k. omap_get k (AllSystems M) = Some s}"

definition ports_at :: "fabric_state \<Rightarrow> node \<Rightarrow> port set" where
  "ports_at M n = {p. \<exists>j. omap_get j (NodePorts (node_of M n)) = Some p}"

definition port_set :: "fabric_state \<Rightarrow> port set" where
  "port_set M = (\<Union>n \<in> node_set M. ports_at M n)"

definition counters_of :: "fabric_state \<Rightarrow> port set \<Rightarrow> nat set" where
  "counters_of M P = pPortCounters M ` P - {0}"

definition expected_set :: "fabric_data \<Rightarrow> expected set" where
  "expected_set F = set (ExpectedLinks F) \<union> set (ExpectedFIs F) \<union> set (ExpectedSWs F)"

definition owned :: "fabric_state \<Rightarrow> nat set" where
  "owned M = node_set M \<union> system_set M \<union> port_set M \<union> counters_of M (port_set M) \<union> expected_set (fab M)"

text \<open>Blocks in use that the fabric does not reach: they can no longer be freed.\<close>

definition lost :: "fabric_state \<Rightarrow> nat set" where
  "lost M = live M - owned M"

definition node_ok :: "fabric_state \<Rightarrow> uint64 \<Rightarrow> node \<Rightarrow> bool" where
  "node_ok M k n \<longleftrightarrow> NodeGUID (node_of M n) = k \<and> omap_ok (NodePorts (node_of M n)) \<and>
     (\<forall>j p. omap_get j (NodePorts (node_of M n)) = Some p \<longrightarrow>
        j = ucast (PortNum (port_of M p)) \<and> nodep (port_of M p) = n) \<and>
     omap_get (system_key (node_of M n)) (AllSystems M) = Some (systemp (node_of M n))"

definition system_ok :: "fabric_state \<Rightarrow> uint64 \<Rightarrow> sys \<Rightarrow> bool" where
  "system_ok M k s \<longleftrightarrow> omap_ok (sd_Nodes (sdata M s)) \<and> sd_Nodes (sdata M s) \<noteq> [] \<and>
     (\<forall>j n. omap_get j (sd_Nodes (sdata M s)) = Some n \<longleftrightarrow>
        omap_get j (AllNodes (fab M)) = Some n \<and> systemp (node_of M n) = s) \<and>
     (\<forall>n \<in> node_set M. systemp (node_of M n) = s \<longrightarrow> system_key (node_of M n) = k)"

fun disjoint_sets :: "'a set list \<Rightarrow> bool" where
  "disjoint_sets [] = True"
| "disjoint_sets (A # As) = (A \<inter> \<Union> (set As) = {} \<and> disjoint_sets As)"

definition memory_ok :: "fabric_state \<Rightarrow> bool" where
  "memory_ok M \<longleftrightarrow>
     disjoint_sets [node_set M, system_set M, port_set M, counters_of M (port_set M), expected_set (fab M)] \<and>
     inj_on (pPortCounters M) {p \<in> port_set M. pPortCounters M p \<noteq> 0} \<and>
     owned M \<subseteq> live M \<and> 0 \<notin> live M"

definition store_ok :: "fabric_state \<Rightarrow> bool" where
  "store_ok M \<longleftrightarrow> omap_ok (AllNodes (fab M)) \<and> omap_ok (AllSystems M) \<and>
     (\<forall>k n. omap_get k (AllNodes (fab M)) = Some n \<longrightarrow> node_ok M k n) \<and>
     (\<forall>k s. omap_get k (AllSystems M) = Some s \<longrightarrow> system_ok M k s) \<and> memory_ok M"

definition linked_in :: "port set \<Rightarrow> fabric_data \<Rightarrow> bool" where
  "linked_in P F \<longleftrightarrow> links_ok F \<and> (\<forall>p. neighbor (pdata F p) \<noteq> None \<longrightarrow> p \<in> P)"

definition fabric_ok :: "fabric_state \<Rightarrow> bool" where
  "fabric_ok M \<longleftrightarrow> store_ok M \<and> lids_exact (port_set M) (fab M) \<and> linked_in (port_set M) (fab M)"

subsection \<open>What the invariant looks at\<close>

definition node_core :: "node_data \<Rightarrow> uint64 \<times> uint64 \<times> sys \<times> port omap" where
  "node_core d = (NodeGUID d, SystemImageGUID d, systemp d, NodePorts d)"

definition same_core :: "fabric_state \<Rightarrow> fabric_state \<Rightarrow> bool" where
  "same_core M M' \<longleftrightarrow> AllNodes (fab M') = AllNodes (fab M) \<and> AllSystems M' = AllSystems M \<and>
     (\<forall>n \<in> node_set M. node_core (node_of M' n) = node_core (node_of M n)) \<and>
     (\<forall>p \<in> port_set M. PortNum (port_of M' p) = PortNum (port_of M p) \<and> nodep (port_of M' p) = nodep (port_of M p) \<and>
        pPortCounters M' p = pPortCounters M p) \<and>
     (\<forall>s \<in> system_set M. sd_Nodes (sdata M' s) = sd_Nodes (sdata M s))"

definition same_store :: "fabric_state \<Rightarrow> fabric_state \<Rightarrow> bool" where
  "same_store M M' \<longleftrightarrow> same_core M M' \<and> expected_set (fab M') = expected_set (fab M)"

lemmas same_store_defs = same_store_def same_core_def

lemma core_sets:
  assumes "same_core M M'"
  shows "node_set M' = node_set M" "system_set M' = system_set M" "n \<in> node_set M \<Longrightarrow> ports_at M' n = ports_at M n"
    "port_set M' = port_set M" "counters_of M' (port_set M') = counters_of M (port_set M)"
proof -
  show n: "node_set M' = node_set M" and s: "system_set M' = system_set M"
    using assms by (simp_all add: same_core_def node_set_def system_set_def)
  show p: "ports_at M' n = ports_at M n" if "n \<in> node_set M" for n
    using assms that by (auto simp: same_core_def node_core_def ports_at_def)
  show q: "port_set M' = port_set M" using n p by (simp add: port_set_def)
  show c: "counters_of M' (port_set M') = counters_of M (port_set M)"
    using assms unfolding q counters_of_def same_core_def by (metis (no_types, lifting) image_cong)
qed

lemma same_sets:
  assumes "same_store M M'"
  shows "node_set M' = node_set M" "system_set M' = system_set M" "n \<in> node_set M \<Longrightarrow> ports_at M' n = ports_at M n"
    "port_set M' = port_set M" "counters_of M' (port_set M') = counters_of M (port_set M)" "owned M' = owned M"
  using assms core_sets [of M M'] by (simp_all add: same_store_def owned_def)

lemma node_in: "omap_get k (AllNodes (fab M)) = Some n \<Longrightarrow> n \<in> node_set M"
  by (auto simp: node_set_def)

lemma system_in: "omap_get k (AllSystems M) = Some s \<Longrightarrow> s \<in> system_set M"
  by (auto simp: system_set_def)

lemma port_in: "n \<in> node_set M \<Longrightarrow> omap_get j (NodePorts (node_of M n)) = Some p \<Longrightarrow> p \<in> port_set M"
  by (auto simp: port_set_def ports_at_def)

lemma port_at:
  assumes "p \<in> port_set M"
  obtains k n j where "omap_get k (AllNodes (fab M)) = Some n" "n \<in> node_set M" "omap_get j (NodePorts (node_of M n)) = Some p"
proof -
  obtain n where "n \<in> node_set M" "p \<in> ports_at M n" using assms by (auto simp: port_set_def)
  then show ?thesis using that by (auto simp: node_set_def ports_at_def)
qed

lemma port_node_at:
  assumes "store_ok M" "p \<in> port_set M"
  shows "nodep (port_of M p) \<in> node_set M \<and>
    omap_get (ucast (PortNum (port_of M p))) (NodePorts (port_node (fab M) p)) = Some p"
  by (rule port_at [OF assms(2)]) (use assms(1) in \<open>auto simp: store_ok_def node_ok_def\<close>)

lemma same_node_ok:
  assumes s: "same_core M M'" and k: "omap_get k (AllNodes (fab M)) = Some n" and ok: "node_ok M k n"
  shows "node_ok M' k n"
proof -
  have n: "n \<in> node_set M" using node_in [OF k] .
  then have c: "NodeGUID (node_of M' n) = NodeGUID (node_of M n)" "systemp (node_of M' n) = systemp (node_of M n)"
    "NodePorts (node_of M' n) = NodePorts (node_of M n)" "system_key (node_of M' n) = system_key (node_of M n)"
    using s by (auto simp: same_core_def node_core_def system_key_def)
  have "PortNum (port_of M' p) = PortNum (port_of M p)" "nodep (port_of M' p) = nodep (port_of M p)"
    if "omap_get j (NodePorts (node_of M n)) = Some p" for j p
    using s port_in [OF n that] by (auto simp: same_core_def)
  then show ?thesis using ok c s by (simp add: node_ok_def same_core_def)
qed

lemma same_system_ok:
  assumes s: "same_core M M'" and k: "omap_get k (AllSystems M) = Some x" and ok: "system_ok M k x"
  shows "system_ok M' k x"
proof -
  have d: "sd_Nodes (sdata M' x) = sd_Nodes (sdata M x)" "AllNodes (fab M') = AllNodes (fab M)"
    using s system_in [OF k] by (auto simp: same_core_def)
  have c: "systemp (node_of M' n) = systemp (node_of M n)" "system_key (node_of M' n) = system_key (node_of M n)"
    if "n \<in> node_set M" for n using s that by (auto simp: same_core_def node_core_def system_key_def)
  show ?thesis using ok c core_sets(1) [OF s] unfolding system_ok_def d
    by (metis (no_types, lifting) node_in)
qed

lemma store_core:
  assumes "store_ok M" "same_core M M'" "owned M' \<subseteq> live M'" "0 \<notin> live M'" "expected_set (fab M') \<subseteq> expected_set (fab M)"
  shows "store_ok M'"
proof -
  note q = core_sets [OF assms(2)]
  have i: "inj_on (pPortCounters M') {p \<in> port_set M. pPortCounters M' p \<noteq> 0}"
  proof -
    have "\<forall>p \<in> port_set M. pPortCounters M' p = pPortCounters M p" using assms(2) by (simp add: same_core_def)
    moreover have "inj_on (pPortCounters M) {p \<in> port_set M. pPortCounters M p \<noteq> 0}"
      using assms(1) by (simp add: store_ok_def memory_ok_def)
    ultimately show ?thesis unfolding inj_on_def by (metis (mono_tags, lifting) mem_Collect_eq)
  qed
  have d: "disjoint_sets [node_set M, system_set M, port_set M, counters_of M (port_set M), expected_set (fab M')]"
    using assms(1,5) by (auto simp: store_ok_def memory_ok_def)
  have m: "memory_ok M'" using d i assms(3,4) unfolding memory_ok_def q(1,2,4) q(5) [unfolded q(4)] by blast
  have "AllNodes (fab M') = AllNodes (fab M)" "AllSystems M' = AllSystems M"
    using assms(2) by (simp_all add: same_core_def)
  then show ?thesis using assms(1) same_node_ok [OF assms(2)] same_system_ok [OF assms(2)] m
    by (simp add: store_ok_def)
qed

lemma store_same:
  assumes "store_ok M" "same_store M M'" "owned M \<subseteq> live M'" "0 \<notin> live M'"
  shows "store_ok M'"
  using store_core [OF assms(1) _ _ assms(4)] assms(2,3) same_sets(6) [OF assms(2)] by (simp add: same_store_def)

subsection \<open>Links\<close>

definition node_class :: "node_data \<Rightarrow> uint64 \<times> uint64 \<times> uint8" where
  "node_class d = (NodeGUID d, SystemImageGUID d, NodeType d)"

definition link_counters :: "fabric_data \<Rightarrow> uint32 list" where
  "link_counters F = [LinkCount F, ExtLinkCount F, FILinkCount F, ISLinkCount F, ExtISLinkCount F]"

lemma links_ok_same:
  assumes l: "links_ok F" and n: "\<And>p. neighbor (pdata G p) = neighbor (pdata F p) \<and> fromp (pdata G p) = fromp (pdata F p)"
    and c: "\<And>p. neighbor (pdata F p) \<noteq> None \<Longrightarrow> node_class (port_node G p) = node_class (port_node F p)"
    and k: "link_counters G = link_counters F"
  shows "links_ok G"
proof -
  have sh: "links_shape F" using l by (simp add: links_ok_def)
  have nb: "neighbor (pdata G p) = neighbor (pdata F p)" "fromp (pdata G p) = fromp (pdata F p)" for p
    using n [of p] by simp_all
  from sh have s: "links_shape G" unfolding links_shape_def nb .
  have cls: "isInternalLink G p = isInternalLink F p \<and> isISLink G p = isISLink F p \<and> isFILink G p = isFILink F p" for p
  proof (cases "neighbor (pdata F p)")
    case None
    then show ?thesis using n [of p] by (simp add: isInternalLink_def isISLink_def isFILink_def)
  next
    case (Some q)
    then have "neighbor (pdata F q) = Some p" using sh unfolding links_shape_def by blast
    then have "node_class (port_node G p) = node_class (port_node F p)"
      "node_class (port_node G q) = node_class (port_node F q)" using Some by (auto intro: c)
    moreover have "neighbor (pdata G p) = Some q" using nb Some by metis
    ultimately show ?thesis using Some
      unfolding isInternalLink_def isISLink_def isFILink_def node_class_def by simp
  qed
  have "from_class X G = from_class X F" if "\<And>p. X G p = X F p" for X
    using that n by (simp add: from_class_def)
  then have "links_counted G" using l k cls
    by (simp add: links_ok_def links_counted_def counted_def any_link_def external_link_def external_is_link_def link_counters_def)
  then show ?thesis using s by (simp add: links_ok_def)
qed

lemma linked_in_same:
  assumes l: "linked_in P F" and n: "\<And>p. neighbor (pdata G p) = neighbor (pdata F p) \<and> fromp (pdata G p) = fromp (pdata F p)"
    and c: "\<And>p. p \<in> P \<Longrightarrow> node_class (port_node G p) = node_class (port_node F p)"
    and k: "link_counters G = link_counters F" and q: "P \<subseteq> Q"
  shows "linked_in Q G"
  using links_ok_same [of F G] assms unfolding linked_in_def by (metis subsetD)

lemma linked_none: "linked_in P F \<Longrightarrow> p \<notin> P \<Longrightarrow> neighbor (pdata F p) = None \<and> \<not> fromp (pdata F p)"
  unfolding linked_in_def links_ok_def links_shape_def by blast

end
