(* ===== verification/FabricBuild_Node.thy ===== *)
theory FabricBuild_Node
  imports FabricBuild_Inv
begin

text \<open>Adding a node: the invariant, and what is returned on every path.\<close>

lemma new_block_cases:
  assumes "new_block M = (a, M')"
  shows "a = 0 \<and> M' = M\<lparr>next_blocks := next_blocks M'\<rparr> \<or>
    a \<noteq> 0 \<and> a \<notin> live M \<and> M' = M\<lparr>next_blocks := next_blocks M', live := insert a (live M)\<rparr>"
  using assms by (auto simp: new_block_def split: list.splits if_splits)

lemma omap_insert_present: "omap_ok m \<Longrightarrow> omap_get k m \<noteq> None \<Longrightarrow> omap_insert k v m = m"
proof (induction m)
  case (Cons e m)
  obtain j w where e: "e = (j, w)" by (cases e)
  have "\<not> k < j"
  proof
    assume "k < j"
    then have "k \<noteq> j" "omap_get k m = None" using omap_get_small [of j w m k] Cons.prems e by auto
    then show False using Cons.prems e by (simp add: omap_get_def)
  qed
  with Cons show ?case by (cases "k = j") (auto simp: e omap_ok_def omap_get_def)
qed (simp add: omap_get_def)

lemma omap_insert_nonempty [simp]: "omap_insert k v m \<noteq> []"
  by (cases "(k, v, m)" rule: omap_insert.cases) auto

lemma omap_head: "omap_ok ((k, v) # m) \<Longrightarrow> omap_get k ((k, v) # m) = Some v"
  by (simp add: omap_get_def)

lemma omap_nonempty: "omap_ok m \<Longrightarrow> m \<noteq> [] \<longleftrightarrow> (\<exists>k v. omap_get k m = Some v)"
  using omap_head by (cases m) (auto simp: omap_get_def)

lemma system_key_at:
  assumes "store_ok M" "omap_get k (AllSystems M) = Some s" "n \<in> node_set M" "systemp (node_of M n) = s"
  shows "system_key (node_of M n) = k"
  using assms by (auto simp: store_ok_def system_ok_def)

lemma system_has_node:
  assumes "store_ok M" "omap_get k (AllSystems M) = Some s"
  shows "\<exists>n \<in> node_set M. systemp (node_of M n) = s \<and> system_key (node_of M n) = k"
proof -
  have s: "system_ok M k s" using assms by (simp add: store_ok_def)
  then obtain j n where "omap_get j (sd_Nodes (sdata M s)) = Some n"
    unfolding system_ok_def by (metis omap_nonempty)
  then show ?thesis using s node_in [of j M n] unfolding system_ok_def by metis
qed

lemma system_key_unique:
  assumes "store_ok M" "omap_get k (AllSystems M) = Some s" "omap_get j (AllSystems M) = Some s"
  shows "k = j"
  using system_has_node [OF assms(1,2)] system_key_at [OF assms(1,3)] by blast

text \<open>Block \<open>n\<close> has become a node of the system \<open>s\<close>, which is new or was there.\<close>

definition node_added :: "fabric_state \<Rightarrow> fabric_state \<Rightarrow> node \<Rightarrow> node_data \<Rightarrow> sys \<Rightarrow> bool" where
  "node_added M M' n d s \<longleftrightarrow> store_ok M \<and>
     omap_get (NodeGUID d) (AllNodes (fab M)) = None \<and> AllNodes (fab M') = omap_insert (NodeGUID d) n (AllNodes (fab M)) \<and>
     node_of M' = (node_of M)(n := d) \<and> NodePorts d = [] \<and> systemp d = s \<and>
     (omap_get (system_key d) (AllSystems M) = Some s \<or> omap_get (system_key d) (AllSystems M) = None \<and> s \<notin> owned M) \<and>
     AllSystems M' = omap_insert (system_key d) s (AllSystems M) \<and>
     (\<forall>x \<in> insert s (system_set M). sd_Nodes (sdata M' x) = (if x = s then omap_insert (NodeGUID d) n
        (if omap_get (system_key d) (AllSystems M) = None then [] else sd_Nodes (sdata M s)) else sd_Nodes (sdata M x))) \<and>
     port_of M' = port_of M \<and> (\<forall>p \<in> port_set M. pPortCounters M' p = pPortCounters M p) \<and>
     expected_set (fab M') = expected_set (fab M) \<and>
     n \<notin> owned M \<and> n \<noteq> s \<and> owned M \<union> {n, s} \<subseteq> live M' \<and> 0 \<notin> live M'"

lemma node_addedD:
  assumes "node_added M M' n d s"
  shows "store_ok M" "omap_get (NodeGUID d) (AllNodes (fab M)) = None"
    "AllNodes (fab M') = omap_insert (NodeGUID d) n (AllNodes (fab M))"
    "node_of M' = (node_of M)(n := d)" "NodePorts d = []" "systemp d = s"
    "omap_get (system_key d) (AllSystems M) = Some s \<or> omap_get (system_key d) (AllSystems M) = None \<and> s \<notin> owned M"
    "AllSystems M' = omap_insert (system_key d) s (AllSystems M)"
    "x \<in> insert s (system_set M) \<Longrightarrow> sd_Nodes (sdata M' x) = (if x = s then omap_insert (NodeGUID d) n
        (if omap_get (system_key d) (AllSystems M) = None then [] else sd_Nodes (sdata M s)) else sd_Nodes (sdata M x))"
    "port_of M' = port_of M" "p \<in> port_set M \<Longrightarrow> pPortCounters M' p = pPortCounters M p"
    "expected_set (fab M') = expected_set (fab M)"
    "n \<notin> owned M" "n \<noteq> s" "owned M \<union> {n, s} \<subseteq> live M'" "0 \<notin> live M'"
    "omap_ok (AllNodes (fab M))" "omap_ok (AllSystems M)" "n \<notin> node_set M"
proof -
  note a = assms [unfolded node_added_def]
  show ok: "store_ok M" using a by (elim conjE)
  then show "omap_ok (AllNodes (fab M))" "omap_ok (AllSystems M)" by (simp_all add: store_ok_def)
  show "omap_get (NodeGUID d) (AllNodes (fab M)) = None"
    "AllNodes (fab M') = omap_insert (NodeGUID d) n (AllNodes (fab M))"
    "node_of M' = (node_of M)(n := d)" "NodePorts d = []" "systemp d = s"
    "omap_get (system_key d) (AllSystems M) = Some s \<or> omap_get (system_key d) (AllSystems M) = None \<and> s \<notin> owned M"
    "AllSystems M' = omap_insert (system_key d) s (AllSystems M)" "port_of M' = port_of M"
    "expected_set (fab M') = expected_set (fab M)"
    "n \<noteq> s" "owned M \<union> {n, s} \<subseteq> live M'" "0 \<notin> live M'"
    using a by - (elim conjE, assumption)+
  show n: "n \<notin> owned M" using a by (elim conjE)
  then show "n \<notin> node_set M" by (simp add: owned_def)
  show "sd_Nodes (sdata M' x) = (if x = s then omap_insert (NodeGUID d) n
        (if omap_get (system_key d) (AllSystems M) = None then [] else sd_Nodes (sdata M s)) else sd_Nodes (sdata M x))"
    if "x \<in> insert s (system_set M)" using a that by (elim conjE) (rule bspec)
  show "pPortCounters M' p = pPortCounters M p" if "p \<in> port_set M" using a that by (elim conjE) (rule bspec)
qed

lemma added_nodes:
  assumes a: "node_added M M' n d s"
  shows "omap_get k (AllNodes (fab M')) = (if k = NodeGUID d then Some n else omap_get k (AllNodes (fab M)))"
  using omap_get_insert [OF node_addedD(17) [OF a]] node_addedD(2,3) [OF a] by simp

lemma added_systems:
  assumes a: "node_added M M' n d s"
  shows "omap_get k (AllSystems M') = (if k = system_key d then Some s else omap_get k (AllSystems M))"
  using omap_get_insert [OF node_addedD(18) [OF a]] node_addedD(7,8) [OF a] by auto

lemma added_node_set:
  assumes a: "node_added M M' n d s"
  shows "node_set M' = insert n (node_set M)"
  using added_nodes [OF a] node_addedD(2) [OF a] unfolding node_set_def
  by (auto split: if_splits) (metis option.distinct(1))

lemma added_system_set:
  assumes a: "node_added M M' n d s"
  shows "system_set M' = insert s (system_set M)"
  using added_systems [OF a] node_addedD(7) [OF a] unfolding system_set_def
  by (auto split: if_splits) (metis option.distinct(1) option.inject)+

lemma added_port_set:
  assumes a: "node_added M M' n d s"
  shows "port_set M' = port_set M" "counters_of M' (port_set M) = counters_of M (port_set M)"
proof -
  have "m \<in> node_set M \<Longrightarrow> ports_at M' m = ports_at M m" "ports_at M' n = {}" for m
    using node_addedD(4,5,19) [OF a] by (auto simp: ports_at_def omap_get_def)
  then show "port_set M' = port_set M" by (simp add: port_set_def added_node_set [OF a])
  show "counters_of M' (port_set M) = counters_of M (port_set M)"
    unfolding counters_of_def using node_addedD(11) [OF a] by (metis (no_types, lifting) image_cong)
qed

lemma added_owned:
  assumes a: "node_added M M' n d s"
  shows "owned M' = owned M \<union> {n, s}"
  using added_node_set [OF a] added_system_set [OF a] added_port_set [OF a] node_addedD(12) [OF a]
  by (auto simp: owned_def)

lemma added_node_ok:
  assumes a: "node_added M M' n d s" and k: "omap_get k (AllNodes (fab M')) = Some m"
  shows "node_ok M' k m"
proof (cases "k = NodeGUID d")
  case True
  then have "m = n" using k added_nodes [OF a] by simp
  then show ?thesis using True added_systems [OF a] node_addedD(4-6) [OF a]
    by (simp add: node_ok_def omap_get_def omap_ok_def)
next
  case False
  then have k: "omap_get k (AllNodes (fab M)) = Some m" using k added_nodes [OF a] by simp
  then have "m \<noteq> n" using node_addedD(19) [OF a] node_in by blast
  moreover have o: "node_ok M k m" using node_addedD(1) [OF a] k by (simp add: store_ok_def)
  moreover have "system_key (node_of M m) = system_key d \<Longrightarrow> s = systemp (node_of M m)"
    using o node_addedD(7) [OF a] by (auto simp: node_ok_def)
  ultimately show ?thesis using added_systems [OF a] node_addedD(4,10) [OF a] by (auto simp: node_ok_def)
qed

lemma system_of_node: "store_ok M \<Longrightarrow> m \<in> node_set M \<Longrightarrow> systemp (node_of M m) \<in> system_set M"
  unfolding node_set_def store_ok_def node_ok_def by (auto intro: system_in)

lemma added_new_system:
  assumes a: "node_added M M' n d s"
  shows "omap_get (system_key d) (AllSystems M) = None \<Longrightarrow> m \<in> node_set M \<Longrightarrow> systemp (node_of M m) \<noteq> s"
  using node_addedD(7) [OF a] system_of_node [OF node_addedD(1) [OF a], of m] by (auto simp: owned_def)

lemma added_Nodes:
  assumes a: "node_added M M' n d s"
  shows "omap_ok (sd_Nodes (sdata M' s))" "sd_Nodes (sdata M' s) \<noteq> []"
  "omap_get j (sd_Nodes (sdata M' s)) = Some m \<longleftrightarrow> omap_get j (AllNodes (fab M')) = Some m \<and> systemp (node_of M' m) = s"
proof -
  let ?S = "if omap_get (system_key d) (AllSystems M) = None then [] else sd_Nodes (sdata M s)"
  have i: "sd_Nodes (sdata M' s) = omap_insert (NodeGUID d) n ?S" using node_addedD(9) [OF a, of s] by simp
  then show "sd_Nodes (sdata M' s) \<noteq> []" by simp
  have o: "omap_get (system_key d) (AllSystems M) = Some s \<Longrightarrow> system_ok M (system_key d) s"
    using node_addedD(1) [OF a] by (simp add: store_ok_def)
  then have S: "omap_ok ?S" using node_addedD(7) [OF a] by (auto simp: system_ok_def omap_ok_def)
  then show "omap_ok (sd_Nodes (sdata M' s))" unfolding i by (rule omap_insert_ok)
  have old: "omap_get j ?S = Some m \<longleftrightarrow> omap_get j (AllNodes (fab M)) = Some m \<and> systemp (node_of M m) = s" for j m
    using o node_addedD(7) [OF a] added_new_system [OF a] node_in [of j M m] by (auto simp: system_ok_def omap_get_def)
  then have none: "omap_get (NodeGUID d) ?S = None" using node_addedD(2) [OF a] by (metis not_Some_eq option.distinct(1))
  have "m \<noteq> n" if "omap_get j (AllNodes (fab M)) = Some m" using node_addedD(19) [OF a] node_in [OF that] by blast
  then show "omap_get j (sd_Nodes (sdata M' s)) = Some m \<longleftrightarrow> omap_get j (AllNodes (fab M')) = Some m \<and> systemp (node_of M' m) = s"
    unfolding i added_nodes [OF a] omap_get_insert [OF S] node_addedD(4) [OF a]
    using none old [of j m] node_addedD(6) [OF a] by auto
qed

lemma added_system_ok:
  assumes a: "node_added M M' n d s" and k: "omap_get k (AllSystems M') = Some x"
  shows "system_ok M' k x"
proof (cases "x = s")
  case True
  note ok = node_addedD(1) [OF a]
  have "k = system_key d"
    using k added_systems [OF a] node_addedD(7) [OF a] system_key_unique [OF ok] system_in [of k M s] True
    unfolding owned_def by (metis (no_types, lifting) UnCI)
  moreover have "system_key (node_of M m) = system_key d" if "m \<in> node_set M" "systemp (node_of M m) = s" for m
    using node_addedD(7) [OF a] system_key_at [OF ok _ that] added_new_system [OF a] that by blast
  ultimately show ?thesis
    using added_Nodes [OF a] True added_node_set [OF a] node_addedD(4) [OF a] by (auto simp: system_ok_def)
next
  case False
  then have k': "omap_get k (AllSystems M) = Some x" using k added_systems [OF a] by (auto split: if_splits)
  then have o: "system_ok M k x" using node_addedD(1) [OF a] by (simp add: store_ok_def)
  have same: "sd_Nodes (sdata M' x) = sd_Nodes (sdata M x)" using node_addedD(9) [OF a, of x] False system_in [OF k'] by simp
  have "omap_get j (AllNodes (fab M)) = Some m \<and> systemp (node_of M m) = x \<longleftrightarrow>
    omap_get j (AllNodes (fab M')) = Some m \<and> systemp (node_of M' m) = x" for j m
    using added_nodes [OF a] node_addedD(2,4,6,19) [OF a] False node_in [of j M m] by auto
  then show ?thesis using o False added_node_set [OF a] node_addedD(4,6,19) [OF a] unfolding system_ok_def same by auto
qed

lemma added_memory_ok:
  assumes a: "node_added M M' n d s"
  shows "memory_ok M'"
proof -
  have m: "memory_ok M" using node_addedD(1) [OF a] by (simp add: store_ok_def)
  then have i: "inj_on (pPortCounters M) {p \<in> port_set M. pPortCounters M p \<noteq> 0}" by (simp add: memory_ok_def)
  have "inj_on (pPortCounters M') {p \<in> port_set M. pPortCounters M' p \<noteq> 0}"
    unfolding inj_on_def using i node_addedD(11) [OF a] by (metis (mono_tags, lifting) inj_onD mem_Collect_eq)
  moreover have "s \<in> system_set M \<or> s \<notin> owned M" using node_addedD(7) [OF a] system_in by blast
  ultimately show ?thesis using m node_addedD(13-16) [OF a] added_owned [OF a]
    unfolding memory_ok_def added_node_set [OF a] added_system_set [OF a] added_port_set [OF a] node_addedD(12) [OF a]
    by (auto simp: owned_def)
qed

lemma node_added_ok:
  assumes a: "node_added M M' n d s"
  shows "store_ok M'"
  using added_node_ok [OF a] added_system_ok [OF a] added_memory_ok [OF a]
    omap_insert_ok [OF node_addedD(17) [OF a]] omap_insert_ok [OF node_addedD(18) [OF a]] node_addedD(3,8) [OF a]
  by (simp add: store_ok_def)

end
