(* ===== verification/FabricBuild_Add.thy ===== *)
theory FabricBuild_Add
  imports FabricBuild_Node
begin

text \<open>Adding nodes and ports to a fabric that satisfies the invariant.\<close>

lemma put_fields [simp]:
  "fab (put_node n d M) = (fab M)\<lparr>ndata := (ndata (fab M))(n := d)\<rparr>"
  "fab (put_AllNodes m M) = (fab M)\<lparr>AllNodes := m\<rparr>"
  "fab (put_port p e M) = (fab M)\<lparr>pdata := (pdata (fab M))(p := e)\<rparr>"
  "fab (put_Nodes s m M) = fab M" "fab (free_block a M) = fab M"
  "sdata (put_node n d M) = sdata M" "sdata (put_AllNodes m M) = sdata M" "sdata (put_port p e M) = sdata M"
  "sdata (put_Nodes s m M) = (sdata M)(s := (sdata M s)\<lparr>sd_Nodes := m\<rparr>)" "sdata (free_block a M) = sdata M"
  "AllSystems (put_node n d M) = AllSystems M" "AllSystems (put_AllNodes m M) = AllSystems M"
  "AllSystems (put_port p e M) = AllSystems M" "AllSystems (put_Nodes s m M) = AllSystems M"
  "AllSystems (free_block a M) = AllSystems M"
  "pPortCounters (put_node n d M) = pPortCounters M" "pPortCounters (put_AllNodes m M) = pPortCounters M"
  "pPortCounters (put_port p e M) = pPortCounters M" "pPortCounters (put_Nodes s m M) = pPortCounters M"
  "pPortCounters (free_block a M) = pPortCounters M"
  "live (put_node n d M) = live M" "live (put_AllNodes m M) = live M" "live (put_port p e M) = live M"
  "live (put_Nodes s m M) = live M" "live (free_block a M) = live M - {a}"
  "ff_stats (put_node n d M) = ff_stats M" "ff_stats (put_AllNodes m M) = ff_stats M"
  "ff_stats (put_port p e M) = ff_stats M" "ff_stats (put_Nodes s m M) = ff_stats M" "ff_stats (free_block a M) = ff_stats M"
  "ff_downportinfo (put_node n d M) = ff_downportinfo M" "ff_downportinfo (put_AllNodes m M) = ff_downportinfo M"
  "ff_downportinfo (put_port p e M) = ff_downportinfo M" "ff_downportinfo (put_Nodes s m M) = ff_downportinfo M"
  "ff_downportinfo (free_block a M) = ff_downportinfo M"
  by (simp_all add: put_node_def put_AllNodes_def put_port_def put_Nodes_def free_block_def)

lemma omap_remove_inserted:
  "omap_get k m = None \<Longrightarrow> v \<notin> snd ` set m \<Longrightarrow> omap_remove_item v (omap_insert k v m) = Some m"
proof -
  assume k: "omap_get k m = None" and v: "v \<notin> snd ` set m"
  have same: "filter (\<lambda>(k, w). w \<noteq> v) es = es" if "v \<notin> snd ` set es" for es
    using that by (induction es) auto
  have "filter (\<lambda>(k, w). w \<noteq> v) (omap_insert k v m) = m \<and> v \<in> snd ` set (omap_insert k v m)"
    using k v same by (induction k v m rule: omap_insert.induct) (auto simp: omap_get_def split: if_splits)
  then show ?thesis by (simp add: omap_remove_item_def)
qed

definition new_node :: "node_record \<Rightarrow> sys \<Rightarrow> node_data" where
  "new_node r s = \<lparr>NodeGUID = nr_NodeGUID r, SystemImageGUID = nr_SystemImageGUID r, NodeType = nr_NodeType r,
     NodeDesc = nr_NodeDesc r, systemp = s, NodePorts = [], enodep = None\<rparr>"

definition record_key :: "node_record \<Rightarrow> uint64" where
  "record_key r = (if nr_SystemImageGUID r \<noteq> 0 then nr_SystemImageGUID r else nr_NodeGUID r)"

lemma new_node_simps [simp]:
  "NodeGUID (new_node r s) = nr_NodeGUID r" "systemp (new_node r s) = s" "NodePorts (new_node r s) = []"
  "new_node r s\<lparr>systemp := t\<rparr> = new_node r t" "system_key (new_node r s) = record_key r"
  "SystemImageGUID (new_node r s) = nr_SystemImageGUID r"
  by (simp_all add: new_node_def system_key_def record_key_def)

text \<open>How the state that \<^verbatim>\<open>AddSystemNode\<close> leaves differs from the one it was given.\<close>

lemma AddSystemNode_none:
  "new_block M = (0, M') \<Longrightarrow> AddSystemNode n M = (FERROR, M')"
  by (simp add: AddSystemNode_def)

lemma AddSystemNode_some:
  assumes b: "new_block M = (s, M1)" "s \<noteq> 0" and M1: "M1 = M\<lparr>next_blocks := q, live := insert s (live M)\<rparr>"
    and f: "omap_get k (AllSystems M) = f" "k = system_key (node_of M n)"
    and t: "t = (case f of None \<Rightarrow> s | Some s' \<Rightarrow> s')"
    and g: "\<And>s'. f = Some s' \<Longrightarrow> omap_get (NodeGUID (node_of M n)) (sd_Nodes (sdata M s')) = None \<and> s' \<noteq> s"
  shows "\<exists>M'. AddSystemNode n M = (FSUCCESS, M') \<and>
    fab M' = (fab M)\<lparr>ndata := (ndata (fab M))(n := (node_of M n)\<lparr>systemp := t\<rparr>)\<rparr> \<and>
    AllSystems M' = (case f of None \<Rightarrow> omap_insert k s (AllSystems M) | Some _ \<Rightarrow> AllSystems M) \<and>
    (\<forall>x. x = t \<or> x \<noteq> s \<longrightarrow> sd_Nodes (sdata M' x) =
      (if x = t then omap_insert (NodeGUID (node_of M n)) n (if f = None then [] else sd_Nodes (sdata M t)) else sd_Nodes (sdata M x))) \<and>
    live M' = (case f of None \<Rightarrow> insert s (live M) | Some _ \<Rightarrow> live M - {s}) \<and>
    pPortCounters M' = pPortCounters M \<and> ff_stats M' = ff_stats M \<and> ff_downportinfo M' = ff_downportinfo M"
proof (cases f)
  case None
  then show ?thesis using b f t
    by (auto simp: AddSystemNode_def M1 Let_def omap_get_def)
next
  case (Some s')
  then show ?thesis using b f t g [OF Some]
    by (auto simp: AddSystemNode_def M1 Let_def)
qed

subsection \<open>Nodes\<close>

lemma fresh_block:
  assumes "fabric_ok M" "a \<notin> live M"
  shows "a \<notin> owned M" "a \<notin> node_set M" "a \<notin> system_set M" "a \<notin> port_set M" "a \<notin> counters_of M (port_set M)"
  using assms by (auto simp: fabric_ok_def store_ok_def memory_ok_def owned_def)

text \<open>States that differ in what the invariant does not look at.\<close>

lemma fabric_same_lids:
  assumes ok: "fabric_ok M" and s: "same_store M M'" and l: "owned M \<subseteq> live M'" "0 \<notin> live M'"
    and e: "lids_exact (port_set M) (fab M')" and d: "link_counters (fab M') = link_counters (fab M)"
    and p: "\<And>p. p \<in> port_set M \<Longrightarrow> port_of M' p = port_of M p"
    and q: "\<And>p. p \<notin> port_set M \<Longrightarrow> neighbor (port_of M' p) = None \<and> \<not> fromp (port_of M' p)"
    and n: "\<And>n. n \<in> node_set M \<Longrightarrow> NodeType (node_of M' n) = NodeType (node_of M n)"
  shows "fabric_ok M' \<and> lost M' = live M' - owned M \<and> port_set M' = port_set M"
proof -
  note S = same_sets [OF s]
  have li: "linked_in (port_set M) (fab M)" and st: "store_ok M" using ok by (simp_all add: fabric_ok_def)
  have "neighbor (port_of M' p) = neighbor (port_of M p) \<and> fromp (port_of M' p) = fromp (port_of M p)" for p
    using p q linked_none [OF li] by (cases "p \<in> port_set M") simp_all
  moreover have "node_class (port_node (fab M') p) = node_class (port_node (fab M) p)" if "p \<in> port_set M" for p
  proof -
    have m: "nodep (port_of M p) \<in> node_set M" using port_node_at [OF st that] by simp
    then show ?thesis using p [OF that] n [OF m] s by (auto simp: node_class_def same_store_defs node_core_def)
  qed
  ultimately have "linked_in (port_set M) (fab M')" using linked_in_same [OF li _ _ d subset_refl] by blast
  then show ?thesis using store_same [OF st s l] e S by (simp add: fabric_ok_def lost_def)
qed

lemma fabric_same:
  assumes ok: "fabric_ok M" and s: "same_store M M'" and l: "owned M \<subseteq> live M'" "0 \<notin> live M'"
    and d: "lid_array (fab M') = lid_array (fab M)" "LidBlocks (fab M') = LidBlocks (fab M)" "AllLids (fab M') = AllLids (fab M)"
      "link_counters (fab M') = link_counters (fab M)"
    and p: "\<And>p. p \<in> port_set M \<Longrightarrow> port_of M' p = port_of M p"
    and q: "\<And>p. p \<notin> port_set M \<Longrightarrow> neighbor (port_of M' p) = None \<and> \<not> fromp (port_of M' p)"
    and n: "\<And>n. n \<in> node_set M \<Longrightarrow> NodeType (node_of M' n) = NodeType (node_of M n)"
  shows "fabric_ok M'" "lost M' = live M' - owned M" "port_set M' = port_set M"
proof -
  have "lids_exact (port_set M) (fab M')"
    using ok p by (subst lids_exact_cong [OF d(1-3), of "port_set M"]) (auto simp: fabric_ok_def)
  from fabric_same_lids [OF ok s l this d(4) p q n]
  show "fabric_ok M'" "lost M' = live M' - owned M" "port_set M' = port_set M" by simp_all
qed

definition added_node :: "fabric_state \<Rightarrow> node_record \<Rightarrow> (node \<times> bool) option \<Rightarrow> fabric_state \<Rightarrow> bool" where
  "added_node M r res M' \<longleftrightarrow> fabric_ok M' \<and> lost M' = lost M \<and> port_set M' = port_set M \<and>
     (\<forall>n \<in> node_set M. node_of M' n = node_of M n) \<and> (\<forall>p \<in> port_set M. port_of M' p = port_of M p) \<and>
     ff_stats M' = ff_stats M \<and> ff_downportinfo M' = ff_downportinfo M \<and>
     (case res of
        None \<Rightarrow> AllNodes (fab M') = AllNodes (fab M) \<and> AllSystems M' = AllSystems M
      | Some (n, new) \<Rightarrow> omap_get (nr_NodeGUID r) (AllNodes (fab M')) = Some n \<and>
          (if new then omap_get (nr_NodeGUID r) (AllNodes (fab M)) = None \<and> n \<notin> live M \<and>
             AllNodes (fab M') = omap_insert (nr_NodeGUID r) n (AllNodes (fab M)) \<and>
             (\<exists>s. node_of M' n = new_node r s)
           else AllNodes (fab M') = AllNodes (fab M) \<and> AllSystems M' = AllSystems M))"

lemma add_node_refused:
  assumes ok: "fabric_ok M" and m: "fab M' = (fab M)\<lparr>ndata := (ndata (fab M))(n := d)\<rparr>" "n \<notin> live M"
    "AllSystems M' = AllSystems M" "\<And>s. s \<in> system_set M \<Longrightarrow> sd_Nodes (sdata M' s) = sd_Nodes (sdata M s)"
    "pPortCounters M' = pPortCounters M" "live M' = live M"
  shows "fabric_ok M' \<and> lost M' = lost M \<and> port_set M' = port_set M \<and>
    (\<forall>n \<in> node_set M. node_of M' n = node_of M n) \<and> (\<forall>p \<in> port_set M. port_of M' p = port_of M p)"
proof -
  have n: "n \<notin> node_set M" using fresh_block [OF ok m(2)] by simp
  have s: "same_store M M'"
    unfolding same_store_defs using m n by (auto simp: expected_set_def)
  have l: "owned M \<subseteq> live M'" "0 \<notin> live M'"
    using ok m(6) by (simp_all add: fabric_ok_def store_ok_def memory_ok_def)
  have k: "link_counters (fab M') = link_counters (fab M)" by (simp add: m(1) link_counters_def)
  have q: "neighbor (port_of M' p) = None \<and> \<not> fromp (port_of M' p)" if "p \<notin> port_set M" for p
    using linked_none [of "port_set M" "fab M" p] ok that by (simp add: m(1) fabric_ok_def)
  have "fabric_ok M'" "lost M' = live M' - owned M" "port_set M' = port_set M"
    by (rule fabric_same [OF ok s l _ _ _ k]; use m n q in auto)+
  then show ?thesis using m n by (auto simp: lost_def)
qed

lemma add_node_accepted:
  assumes ok: "fabric_ok M" and a: "node_added M M' n d s"
    and m: "lid_array (fab M') = lid_array (fab M)" "LidBlocks (fab M') = LidBlocks (fab M)" "AllLids (fab M') = AllLids (fab M)"
      "link_counters (fab M') = link_counters (fab M)" "live M' = live M \<union> {n, s}"
  shows "fabric_ok M' \<and> (n \<notin> live M \<longrightarrow> s \<in> owned M \<or> s \<notin> live M \<longrightarrow> lost M' = lost M) \<and> port_set M' = port_set M \<and>
    (\<forall>n \<in> node_set M. node_of M' n = node_of M n) \<and> (\<forall>p \<in> port_set M. port_of M' p = port_of M p)"
proof -
  note e = added_port_set(1) [OF a] and D = node_addedD [OF a]
  have st: "store_ok M" using ok by (simp add: fabric_ok_def)
  have lids: "lids_exact (port_set M') (fab M')"
    unfolding e using ok D(10) by (subst lids_exact_cong [OF m(1-3), of "port_set M"]) (auto simp: fabric_ok_def)
  have "node_class (port_node (fab M') p) = node_class (port_node (fab M) p)" if "p \<in> port_set M" for p
  proof -
    have "nodep (port_of M p) \<noteq> n" using port_node_at [OF st that] D(19) by metis
    then show ?thesis using D(4,10) by simp
  qed
  moreover have "linked_in (port_set M) (fab M)" using ok by (simp add: fabric_ok_def)
  ultimately have "linked_in (port_set M) (fab M')" using linked_in_same [OF _ _ _ m(4) subset_refl] D(10) by simp
  then have "fabric_ok M'" using node_added_ok [OF a] lids e by (simp add: fabric_ok_def)
  moreover have "lost M' = lost M" if "n \<notin> live M" "s \<in> owned M \<or> s \<notin> live M"
    using added_owned [OF a] m(5) that by (auto simp: lost_def)
  ultimately show ?thesis using e D(4,10,19) by auto
qed

lemma add_node_new:
  assumes ok: "fabric_ok M" and g: "omap_get (nr_NodeGUID r) (AllNodes (fab M)) = None" and n: "n \<notin> live M" "n \<noteq> 0"
    and M3: "fab M3 = (fab M)\<lparr>ndata := (ndata (fab M))(n := new_node r 0), AllNodes := omap_insert (nr_NodeGUID r) n (AllNodes (fab M))\<rparr>"
      "AllSystems M3 = AllSystems M" "sdata M3 = sdata M" "pPortCounters M3 = pPortCounters M"
      "live M3 = insert n (live M)" "ff_stats M3 = ff_stats M" "ff_downportinfo M3 = ff_downportinfo M"
    and c: "new_block M3 = (s, M4)" "s \<noteq> 0"
  shows "\<exists>M'. AddSystemNode n M3 = (FSUCCESS, M') \<and> added_node M r (Some (n, True)) M'"
proof -
  have st: "store_ok M" and mem: "owned M \<subseteq> live M" "0 \<notin> live M"
    using ok by (auto simp: fabric_ok_def store_ok_def memory_ok_def)
  define k where "k = record_key r"
  define f where "f = omap_get k (AllSystems M)"
  define t where "t = (case f of None \<Rightarrow> s | Some s' \<Rightarrow> s')"
  have s: "s \<notin> live M" "s \<noteq> n" and M4: "M4 = M3\<lparr>next_blocks := next_blocks M4, live := insert s (live M3)\<rparr>"
    using new_block_cases [OF c(1)] c(2) M3(5) by simp_all
  have old: "omap_get (nr_NodeGUID r) (sd_Nodes (sdata M s')) = None \<and> s' \<in> live M \<and> s' \<in> owned M" if "f = Some s'" for s'
  proof -
    have "system_ok M k s'" using st that by (simp add: store_ok_def f_def)
    then have "omap_get (nr_NodeGUID r) (sd_Nodes (sdata M s')) = None"
      using g unfolding system_ok_def by (metis not_Some_eq option.distinct(1))
    then show ?thesis using system_in [OF that [unfolded f_def]] mem(1) by (auto simp: owned_def)
  qed
  have "omap_get k (AllSystems M3) = f" "k = system_key (node_of M3 n)" by (simp_all add: M3 f_def k_def)
  moreover have "omap_get (NodeGUID (node_of M3 n)) (sd_Nodes (sdata M3 s')) = None \<and> s' \<noteq> s" if "f = Some s'" for s'
    using old [OF that] s(1) by (auto simp: M3)
  ultimately obtain M' where A: "AddSystemNode n M3 = (FSUCCESS, M')"
    and m: "fab M' = (fab M3)\<lparr>ndata := (ndata (fab M3))(n := (node_of M3 n)\<lparr>systemp := t\<rparr>)\<rparr>"
      "AllSystems M' = (case f of None \<Rightarrow> omap_insert k s (AllSystems M3) | Some _ \<Rightarrow> AllSystems M3)"
      "\<forall>x. x = t \<or> x \<noteq> s \<longrightarrow> sd_Nodes (sdata M' x) = (if x = t then omap_insert (NodeGUID (node_of M3 n)) n
        (if f = None then [] else sd_Nodes (sdata M3 t)) else sd_Nodes (sdata M3 x))"
      "live M' = (case f of None \<Rightarrow> insert s (live M3) | Some _ \<Rightarrow> live M3 - {s})"
      "pPortCounters M' = pPortCounters M3" "ff_stats M' = ff_stats M3" "ff_downportinfo M' = ff_downportinfo M3"
    using AddSystemNode_some [OF c(1,2) M4 _ _ t_def] by blast
  have os: "omap_ok (AllSystems M)" using st by (simp add: store_ok_def)
  have t: "t \<noteq> n" "f = None \<Longrightarrow> t \<notin> live M" "f \<noteq> None \<Longrightarrow> t \<in> owned M" "f = Some t \<or> f = None \<and> t \<notin> owned M"
    using s n(1) old mem(1) by (auto simp: t_def split: option.splits)
  have fb: "fab M' = (fab M)\<lparr>ndata := (ndata (fab M))(n := new_node r t), AllNodes := omap_insert (nr_NodeGUID r) n (AllNodes (fab M))\<rparr>"
    by (simp add: m(1) M3(1))
  have sy: "AllSystems M' = omap_insert k t (AllSystems M)"
    using m(2) omap_insert_present [OF os, of k t] by (auto simp: M3(2) t_def f_def split: option.splits)
  have lv: "live M' = live M \<union> {n, t}"
    using m(4) s t(3) mem(1) by (auto simp: M3(5) t_def split: option.splits)
  have z: "0 \<notin> live M'" using lv mem n(2) c(2) t(3) by (auto simp: t_def split: option.splits)
  have sN: "sd_Nodes (sdata M' x) = (if x = t then omap_insert (nr_NodeGUID r) n
        (if f = None then [] else sd_Nodes (sdata M t)) else sd_Nodes (sdata M x))" if "x \<in> insert t (system_set M)" for x
  proof -
    have "x = t \<or> x \<noteq> s" using that s(1) mem(1) by (auto simp: owned_def)
    then show ?thesis using spec [OF m(3), of x] by (auto simp: M3)
  qed
  have a: "node_added M M' n (new_node r t) t"
    unfolding node_added_def
    using st g fb sy t(1,4) sN lv z mem(1) fresh_block(1) [OF ok n(1)] m(5)
    by (simp add: M3(4) expected_set_def k_def [symmetric] f_def [symmetric]) blast
  have "link_counters (fab M') = link_counters (fab M)" by (simp add: fb link_counters_def)
  from add_node_accepted [OF ok a _ _ _ this lv]
  have ok': "fabric_ok M'" "lost M' = lost M" "port_set M' = port_set M"
    "\<forall>n \<in> node_set M. node_of M' n = node_of M n" "\<forall>p \<in> port_set M. port_of M' p = port_of M p"
    using n t(2,3) by (auto simp: fb)
  have "omap_get (nr_NodeGUID r) (AllNodes (fab M')) = Some n" "node_of M' n = new_node r t"
    using added_nodes [OF a] by (simp_all add: fb)
  then have "added_node M r (Some (n, True)) M'"
    using ok' g n m(6,7) by (auto simp: added_node_def fb M3)
  then show ?thesis using A by blast
qed

lemma add_node_correct:
  assumes ok: "fabric_ok M"
  shows "\<exists>res M'. FabricDataAddNode r M = Some (res, M') \<and> added_node M r res M'"
proof -
  obtain n M1 where b: "new_block M = (n, M1)" by force
  have st: "store_ok M" and mem: "owned M \<subseteq> live M" "0 \<notin> live M"
    using ok by (auto simp: fabric_ok_def store_ok_def memory_ok_def)
  have on: "omap_ok (AllNodes (fab M))" using st by (simp add: store_ok_def)
  show ?thesis
  proof (cases "n = 0")
    case True
    then have M1: "M1 = M\<lparr>next_blocks := next_blocks M1\<rparr>" using new_block_cases [OF b] by simp
    have f: "fab M1 = fab M" "AllSystems M1 = AllSystems M" "sdata M1 = sdata M" "pPortCounters M1 = pPortCounters M"
      "live M1 = live M" "ff_stats M1 = ff_stats M" "ff_downportinfo M1 = ff_downportinfo M"
      by (subst M1, simp)+
    have "added_node M r None M1"
      using add_node_refused [OF ok, of M1 0 "node_of M 0"] mem(2) f by (simp add: added_node_def)
    then show ?thesis using b True by (auto simp: FabricDataAddNode_def)
  next
    case n0: False
    let ?g = "nr_NodeGUID r" and ?M2 = "put_node n (new_node r 0) M1"
    have n: "n \<notin> live M" and M1: "M1 = M\<lparr>next_blocks := next_blocks M1, live := insert n (live M)\<rparr>"
      using new_block_cases [OF b] n0 by simp_all
    have f: "fab M1 = fab M" "AllSystems M1 = AllSystems M" "sdata M1 = sdata M" "pPortCounters M1 = pPortCounters M"
      "live M1 = insert n (live M)" "ff_stats M1 = ff_stats M" "ff_downportinfo M1 = ff_downportinfo M"
      by (subst M1, simp)+
    show ?thesis
    proof (cases "omap_get ?g (AllNodes (fab M))")
      case (Some n')
      let ?M' = "free_block n ?M2"
      have "FabricDataAddNode r M = Some (Some (n', False), ?M')"
        using b n0 Some f by (simp add: FabricDataAddNode_def new_node_def)
      moreover have "added_node M r (Some (n', False)) ?M'"
        using add_node_refused [OF ok, of ?M' n "new_node r 0"] n f Some by (simp add: added_node_def)
      ultimately show ?thesis by blast
    next
      case None
      let ?M3 = "put_AllNodes (omap_insert ?g n (AllNodes (fab M))) ?M2"
      have call: "FabricDataAddNode r M = (case AddSystemNode n ?M3 of
          (FSUCCESS, M) \<Rightarrow> Some (Some (n, True), M)
        | (_, M) \<Rightarrow> do { m \<leftarrow> omap_remove_item n (AllNodes (fab M)); Some (None, free_block n (put_AllNodes m M)) })"
        using b n0 None f by (simp add: FabricDataAddNode_def new_node_def Let_def)
      obtain s M4 where c: "new_block ?M3 = (s, M4)" by force
      show ?thesis
      proof (cases "s = 0")
        case True
        then have M4: "M4 = ?M3\<lparr>next_blocks := next_blocks M4\<rparr>" using new_block_cases [OF c] by simp
        have h: "fab M4 = fab ?M3" "AllSystems M4 = AllSystems M" "sdata M4 = sdata M" "pPortCounters M4 = pPortCounters M"
          "live M4 = insert n (live M)" "ff_stats M4 = ff_stats M" "ff_downportinfo M4 = ff_downportinfo M"
          by (subst M4, simp add: f)+
        have v: "n \<notin> snd ` set (AllNodes (fab M))"
          using omap_value [OF on, of n] fresh_block(2) [OF ok n] by (auto simp: node_set_def)
        let ?M' = "free_block n (put_AllNodes (AllNodes (fab M)) M4)"
        have "FabricDataAddNode r M = Some (None, ?M')"
          using call AddSystemNode_none [of ?M3 M4 n] c True omap_remove_inserted [OF None v] h(1) by (simp add: f)
        moreover have "added_node M r None ?M'"
          using add_node_refused [OF ok, of ?M' n "new_node r 0"] n h f by (simp add: added_node_def)
        ultimately show ?thesis by blast
      next
        case s0: False
        have h: "fab ?M3 = (fab M)\<lparr>ndata := (ndata (fab M))(n := new_node r 0), AllNodes := omap_insert ?g n (AllNodes (fab M))\<rparr>"
          "AllSystems ?M3 = AllSystems M" "sdata ?M3 = sdata M" "pPortCounters ?M3 = pPortCounters M"
          "live ?M3 = insert n (live M)" "ff_stats ?M3 = ff_stats M" "ff_downportinfo ?M3 = ff_downportinfo M"
          using f by simp_all
        obtain M' where "AddSystemNode n ?M3 = (FSUCCESS, M')" "added_node M r (Some (n, True)) M'"
          using add_node_new [OF ok None n n0 h c s0] by blast
        then show ?thesis using call by auto
      qed
    qed
  qed
qed

end
