(* ===== verification/FabricBuild_Port.thy ===== *)
theory FabricBuild_Port
  imports FabricBuild_Add
begin

text \<open>Adding ports: the invariant, and what is returned on every path.\<close>

text \<open>Block \<open>p\<close>, with counters at \<open>c\<close> or none, has become a port of the node \<open>n\<close>.\<close>

definition port_added :: "fabric_state \<Rightarrow> fabric_state \<Rightarrow> node \<Rightarrow> port \<Rightarrow> port_data \<Rightarrow> nat \<Rightarrow> bool" where
  "port_added M M' n p d c \<longleftrightarrow> store_ok M \<and> n \<in> node_set M \<and>
     AllNodes (fab M') = AllNodes (fab M) \<and> AllSystems M' = AllSystems M \<and> sdata M' = sdata M \<and>
     omap_get (ucast (PortNum d)) (NodePorts (node_of M n)) = None \<and> nodep d = n \<and>
     node_of M' = (node_of M)(n := (node_of M n)\<lparr>NodePorts := omap_insert (ucast (PortNum d)) p (NodePorts (node_of M n))\<rparr>) \<and>
     port_of M' = (port_of M)(p := d) \<and> pPortCounters M' = (pPortCounters M)(p := c) \<and>
     expected_set (fab M') = expected_set (fab M) \<and>
     p \<notin> live M \<and> c \<notin> live M \<and> p \<noteq> c \<and> p \<noteq> 0 \<and> live M' = live M \<union> {p} \<union> ({c} - {0})"

lemma port_addedD:
  assumes "port_added M M' n p d c"
  shows "store_ok M" "n \<in> node_set M" "AllNodes (fab M') = AllNodes (fab M)" "AllSystems M' = AllSystems M" "sdata M' = sdata M"
    "omap_get (ucast (PortNum d)) (NodePorts (node_of M n)) = None" "nodep d = n"
    "node_of M' = (node_of M)(n := (node_of M n)\<lparr>NodePorts := omap_insert (ucast (PortNum d)) p (NodePorts (node_of M n))\<rparr>)"
    "port_of M' = (port_of M)(p := d)" "pPortCounters M' = (pPortCounters M)(p := c)"
    "expected_set (fab M') = expected_set (fab M)"
    "p \<notin> live M" "c \<notin> live M" "p \<noteq> c" "p \<noteq> 0" "live M' = live M \<union> {p} \<union> ({c} - {0})"
  using assms [unfolded port_added_def] by - (elim conjE, assumption)+

lemma store_memory: "store_ok M \<Longrightarrow> owned M \<subseteq> live M \<and> 0 \<notin> live M"
  by (simp add: store_ok_def memory_ok_def)

lemma node_at:
  assumes "n \<in> node_set M"
  obtains k where "omap_get k (AllNodes (fab M)) = Some n"
  using assms by (auto simp: node_set_def)

lemma node_ports_ok: "store_ok M \<Longrightarrow> n \<in> node_set M \<Longrightarrow> omap_ok (NodePorts (node_of M n))"
  by (erule node_at) (simp add: store_ok_def node_ok_def)

lemma port_added_sets:
  assumes a: "port_added M M' n p d c"
  shows "node_set M' = node_set M" "system_set M' = system_set M" "port_set M' = insert p (port_set M)"
    "p \<notin> port_set M" "counters_of M' (port_set M') = counters_of M (port_set M) \<union> ({c} - {0})"
    "owned M' = owned M \<union> {p} \<union> ({c} - {0})"
proof -
  note D = port_addedD [OF a]
  show n: "node_set M' = node_set M" and s: "system_set M' = system_set M" using D(3,4) by (simp_all add: node_set_def system_set_def)
  have "ports_at M' m = ports_at M m" if "m \<noteq> n" for m using D(8) that by (simp add: ports_at_def)
  moreover have "ports_at M' n = insert p (ports_at M n)"
    using D(6,8) omap_get_insert [OF node_ports_ok [OF D(1,2)]] unfolding ports_at_def
    by (auto split: if_splits) (metis option.distinct(1))
  ultimately have "ports_at M' m = (if m = n then insert p (ports_at M n) else ports_at M m)" for m by simp
  then show q: "port_set M' = insert p (port_set M)" using D(2) unfolding port_set_def n
    by (auto split: if_splits)
  show p: "p \<notin> port_set M" using D(12) store_memory [OF D(1)] by (auto simp: owned_def)
  have "pPortCounters M' ` port_set M = pPortCounters M ` port_set M"
    using p D(10) by (intro image_cong) auto
  then show c: "counters_of M' (port_set M') = counters_of M (port_set M) \<union> ({c} - {0})"
    using D(10) by (auto simp: counters_of_def q)
  show "owned M' = owned M \<union> {p} \<union> ({c} - {0})"
    unfolding owned_def n s c D(11) unfolding q by blast
qed

lemma port_added_node_ok:
  assumes a: "port_added M M' n p d c" and k: "omap_get k (AllNodes (fab M)) = Some m"
  shows "node_ok M' k m"
proof -
  note D = port_addedD [OF a]
  have o: "node_ok M k m" using D(1) k by (simp add: store_ok_def)
  have key: "system_key (node_of M' x) = system_key (node_of M x)" for x using D(8) by (simp add: system_key_def)
  have old: "q \<noteq> p" if "omap_get j (NodePorts (node_of M m)) = Some q" for j q
    using port_in [OF node_in [OF k] that] port_added_sets(4) [OF a] by blast
  show ?thesis
  proof (cases "m = n")
    case True
    have i: "omap_get j (NodePorts (node_of M' n)) = (if j = ucast (PortNum d) then Some p else omap_get j (NodePorts (node_of M n)))" for j
      using omap_get_insert [OF node_ports_ok [OF D(1,2)]] D(6,8) by simp
    have "j = ucast (PortNum (port_of M' q)) \<and> nodep (port_of M' q) = n" if "omap_get j (NodePorts (node_of M' n)) = Some q" for j q
      using that o old [of j q] D(7,9) True by (auto simp: i node_ok_def split: if_splits)
    moreover have "omap_ok (NodePorts (node_of M' n))" using D(8) omap_insert_ok [OF node_ports_ok [OF D(1,2)]] by simp
    ultimately show ?thesis using o D(4,8) True key [of n] by (simp add: node_ok_def)
  next
    case False
    have "port_of M' q = port_of M q" if "omap_get j (NodePorts (node_of M m)) = Some q" for j q
      using old [OF that] D(9) by simp
    then show ?thesis using o False D(4,8) key [of m] by (simp add: node_ok_def)
  qed
qed

lemma port_added_ok:
  assumes a: "port_added M M' n p d c"
  shows "store_ok M'"
proof -
  note D = port_addedD [OF a] and S = port_added_sets [OF a]
  have m: "memory_ok M" using D(1) by (simp add: store_ok_def)
  have sy: "systemp (node_of M' x) = systemp (node_of M x)" "system_key (node_of M' x) = system_key (node_of M x)" for x
    using D(8) by (simp_all add: system_key_def)
  have "system_ok M' k s" if "omap_get k (AllSystems M) = Some s" for k s
    using D(1) that unfolding store_ok_def system_ok_def sy S(1) D(3,5) by blast
  moreover have "memory_ok M'"
  proof -
    have i: "inj_on (pPortCounters M') {q \<in> insert p (port_set M). pPortCounters M' q \<noteq> 0}"
    proof (rule inj_onI)
      fix x y
      assume x: "x \<in> {q \<in> insert p (port_set M). pPortCounters M' q \<noteq> 0}"
        and y: "y \<in> {q \<in> insert p (port_set M). pPortCounters M' q \<noteq> 0}" and e: "pPortCounters M' x = pPortCounters M' y"
      have new: "pPortCounters M q \<noteq> c" if "q \<in> port_set M" "c \<noteq> 0" for q
        using that D(13) m by (auto simp: memory_ok_def owned_def counters_of_def)
      show "x = y"
      proof (cases "x = p \<or> y = p")
        case True
        then show ?thesis using x y e new D(10) by (auto split: if_splits)
      next
        case False
        then show ?thesis using x y e D(10) m inj_onD [of "pPortCounters M" "{q \<in> port_set M. pPortCounters M q \<noteq> 0}" x y]
          by (simp add: memory_ok_def)
      qed
    qed
    have "owned M' \<subseteq> live M'" "0 \<notin> live M'" using S(6) D(15,16) m by (auto simp: memory_ok_def)
    moreover have "disjoint_sets [node_set M', system_set M', port_set M', counters_of M' (port_set M'), expected_set (fab M')]"
      unfolding S(1,2,5) D(11) unfolding S(3) using m D(12-14) by (auto simp: memory_ok_def owned_def)
    ultimately show ?thesis using i S(3) by (simp add: memory_ok_def)
  qed
  ultimately show ?thesis using D(1) port_added_node_ok [OF a] by (simp add: store_ok_def D(3,4))
qed

text \<open>
  A record that may be added: the LMC has four bits, and an active port with a GUID has a LID, unless
  ports without one are left out of the map.  (The map would keep LID 0 when the port is freed.)
\<close>

definition portinfo_ok :: "fabric_state \<Rightarrow> node \<Rightarrow> uint64 \<Rightarrow> portinfo_record \<Rightarrow> bool" where
  "portinfo_ok M n guid r \<longleftrightarrow> (let d = port_record M n guid r in
     if up_port d then PortInfo_LMC d < 16
     else PortGUID d = 0 \<or> EndPortLID d = 0 \<and> ff_downportinfo M \<or>
       PortState d \<noteq> ETH_PORT_UP \<and> PortState d \<noteq> ETH_PORT_DORMANT \<and>
       \<not> (NodeType (node_of M n) = NODE_SW \<and> PortNum d = 0 \<and> PortState d = ETH_PORT_NOP))"

definition added_port ::
  "fabric_state \<Rightarrow> node \<Rightarrow> uint64 \<Rightarrow> portinfo_record \<Rightarrow> port option \<Rightarrow> fabric_state \<Rightarrow> bool" where
  "added_port M n guid r res M' \<longleftrightarrow> fabric_ok M' \<and> AllNodes (fab M') = AllNodes (fab M) \<and> AllSystems M' = AllSystems M \<and>
     ff_stats M' = ff_stats M \<and> ff_downportinfo M' = ff_downportinfo M \<and>
     (\<forall>p \<in> port_set M. port_of M' p = port_of M p \<and> pinfo M' p = pinfo M p) \<and>
     (let k = ucast (PortNum (port_record M n guid r)) in
      case res of
        None \<Rightarrow> node_of M' = node_of M \<and> port_set M' = port_set M \<and>
          lost M' = lost M \<union> (live M' - live M) \<and> (live M' = live M \<or> ff_stats M)
      | Some p \<Rightarrow> p \<notin> live M \<and> omap_get k (NodePorts (node_of M n)) = None \<and>
          node_of M' = (node_of M)(n := (node_of M n)\<lparr>NodePorts := omap_insert k p (NodePorts (node_of M n))\<rparr>) \<and>
          port_of M' p = port_record M n guid r \<and> pinfo M' p = pr_info r \<and>
          port_set M' = insert p (port_set M) \<and> lost M' = lost M)"

lemma add_port_refused:
  assumes ok: "fabric_ok M" and n: "p \<notin> live M" "c \<notin> live M" "neighbor d = None" "\<not> fromp d"
    and m: "lids_only ((fab M)\<lparr>pdata := (pdata (fab M))(p := d)\<rparr>) (fab M')" "lids_exact (port_set M) (fab M')"
      "AllSystems M' = AllSystems M" "sdata M' = sdata M" "pPortCounters M' = (pPortCounters M)(p := c)"
      "pinfo M' = (pinfo M)(p := i)"
      "live M' = live M \<union> ({c} - {0})" "ff_stats M' = ff_stats M" "ff_downportinfo M' = ff_downportinfo M"
      "c \<noteq> 0 \<longrightarrow> ff_stats M"
  shows "added_port M node guid r None M'"
proof -
  have p: "p \<notin> port_set M" using fresh_block [OF ok n(1)] by simp
  note L = lids_only_fields [OF m(1)]
  have e: "expected_set (fab M') = expected_set (fab M)" using L(15-17) by (simp add: expected_set_def)
  have s: "same_store M M'"
    unfolding same_store_defs using m(3-5) L(1,2,6) p e by auto
  have l: "owned M \<subseteq> live M'" "0 \<notin> live M'"
    using ok m(7) by (auto simp: fabric_ok_def store_ok_def memory_ok_def)
  have k: "link_counters (fab M') = link_counters (fab M)" using L(10-14) by (simp add: link_counters_def)
  have q: "neighbor (port_of M' x) = None \<and> \<not> fromp (port_of M' x)" if "x \<notin> port_set M" for x
    using linked_none [of "port_set M" "fab M" x] ok that n(3,4) L(1) by (simp add: fabric_ok_def)
  have x: "port_of M' x = port_of M x" if "x \<in> port_set M" for x using L(1) p that by auto
  have "fabric_ok M' \<and> lost M' = live M' - owned M \<and> port_set M' = port_set M"
    by (rule fabric_same_lids [OF ok s l m(2) k x q]) (simp_all add: L(2))
  moreover have "live M' - owned M = (if c = 0 then lost M else insert c (lost M))"
    using m(7) fresh_block(1) [OF ok n(2)] by (auto simp: lost_def)
  moreover have "live M' - live M = {c} - {0}" using m(7) n(2) by auto
  ultimately show ?thesis using x L(2,6) m n(2) p by (auto simp: added_port_def Let_def)
qed

lemma add_port_accepted:
  assumes ok: "fabric_ok M" and a: "port_added M M' n p (port_record M n guid r) c"
    and m: "lids_exact (insert p (port_set M)) (fab M')" "link_counters (fab M') = link_counters (fab M)"
      "pinfo M' = (pinfo M)(p := pr_info r)" "ff_stats M' = ff_stats M" "ff_downportinfo M' = ff_downportinfo M"
  shows "added_port M n guid r (Some p) M'"
proof -
  note D = port_addedD [OF a] and S = port_added_sets [OF a]
  have li: "linked_in (port_set M) (fab M)" and st: "store_ok M" using ok by (simp_all add: fabric_ok_def)
  have "neighbor (port_of M' x) = neighbor (port_of M x) \<and> fromp (port_of M' x) = fromp (port_of M x)" for x
    using linked_none [OF li S(4)] D(9) by (simp add: port_record_def Let_def)
  moreover have "node_class (port_node (fab M') x) = node_class (port_node (fab M) x)" if "x \<in> port_set M" for x
    using that S(4) D(8,9) by (auto simp: node_class_def)
  ultimately have "linked_in (insert p (port_set M)) (fab M')" using linked_in_same [OF li _ _ m(2)] by blast
  then have "fabric_ok M'" using port_added_ok [OF a] m(1) S(3) by (simp add: fabric_ok_def)
  moreover have "lost M' = lost M" using D(12,13,16) S(6) by (auto simp: lost_def)
  moreover have "\<forall>q \<in> port_set M. port_of M' q = port_of M q \<and> pinfo M' q = pinfo M q" using D(9) m(3) S(4) by auto
  ultimately show ?thesis using D(3,4,6,8,9,12) S(3) m(3-5) by (simp add: added_port_def Let_def)
qed

lemma add_port_idle:
  assumes ok: "fabric_ok M" and m: "fab M' = fab M" "AllSystems M' = AllSystems M" "sdata M' = sdata M"
    "pPortCounters M' = pPortCounters M" "pinfo M' = pinfo M" "live M' = live M" "ff_stats M' = ff_stats M"
    "ff_downportinfo M' = ff_downportinfo M"
  shows "added_port M n guid r None M'"
proof -
  have "0 \<notin> live M" using ok by (simp add: fabric_ok_def store_ok_def memory_ok_def)
  from add_node_refused [OF ok _ this, of M' "node_of M 0"] m show ?thesis
    by (simp add: added_port_def Let_def)
qed

text \<open>The two allocations of a new port.\<close>

lemma port_blocks:
  assumes b: "new_block M = (p, M1)" "p \<noteq> 0" and c: "(if ff_stats M1 then new_block M1 else (0, M1)) = (c, M2)"
  shows "p \<notin> live M" "c \<noteq> 0 \<longrightarrow> c \<notin> live M" "p \<noteq> c"
    "fab M2 = fab M" "AllSystems M2 = AllSystems M" "sdata M2 = sdata M" "pPortCounters M2 = pPortCounters M"
    "pinfo M2 = pinfo M" "live M2 = live M \<union> {p} \<union> ({c} - {0})" "ff_stats M2 = ff_stats M"
    "ff_downportinfo M2 = ff_downportinfo M" "c \<noteq> 0 \<longrightarrow> ff_stats M" "ff_stats M1 = ff_stats M"
proof -
  have p: "p \<notin> live M" and M1: "M1 = M\<lparr>next_blocks := next_blocks M1, live := insert p (live M)\<rparr>"
    using new_block_cases [OF b(1)] b(2) by simp_all
  have f: "fab M1 = fab M" "AllSystems M1 = AllSystems M" "sdata M1 = sdata M" "pPortCounters M1 = pPortCounters M"
    "pinfo M1 = pinfo M" "live M1 = insert p (live M)" "ff_stats M1 = ff_stats M" "ff_downportinfo M1 = ff_downportinfo M"
    by (subst M1, simp)+
  have "c = 0 \<and> M2 = M1\<lparr>next_blocks := next_blocks M2\<rparr> \<or>
    ff_stats M \<and> c \<noteq> 0 \<and> c \<notin> insert p (live M) \<and> M2 = M1\<lparr>next_blocks := next_blocks M2, live := insert c (insert p (live M))\<rparr>"
    using new_block_cases [of M1 c M2] c f by (cases "ff_stats M") auto
  then consider "c = 0" "M2 = M1\<lparr>next_blocks := next_blocks M2\<rparr>"
    | "ff_stats M" "c \<noteq> 0" "c \<notin> insert p (live M)" "M2 = M1\<lparr>next_blocks := next_blocks M2, live := insert c (insert p (live M))\<rparr>"
    by blast
  then have "(c \<noteq> 0 \<longrightarrow> c \<notin> live M \<and> ff_stats M) \<and> p \<noteq> c \<and>
    fab M2 = fab M \<and> AllSystems M2 = AllSystems M \<and> sdata M2 = sdata M \<and> pPortCounters M2 = pPortCounters M \<and>
    pinfo M2 = pinfo M \<and> live M2 = live M \<union> {p} \<union> ({c} - {0}) \<and> ff_stats M2 = ff_stats M \<and> ff_downportinfo M2 = ff_downportinfo M"
  proof cases
    case 1
    have "fab M2 = fab M \<and> AllSystems M2 = AllSystems M \<and> sdata M2 = sdata M \<and> pPortCounters M2 = pPortCounters M \<and>
      pinfo M2 = pinfo M \<and> live M2 = live M1 \<and> ff_stats M2 = ff_stats M \<and> ff_downportinfo M2 = ff_downportinfo M"
      by (subst 1(2), simp add: f)+
    then show ?thesis using 1(1) b(2) f(6) by simp
  next
    case 2
    have "fab M2 = fab M \<and> AllSystems M2 = AllSystems M \<and> sdata M2 = sdata M \<and> pPortCounters M2 = pPortCounters M \<and>
      pinfo M2 = pinfo M \<and> live M2 = insert c (insert p (live M)) \<and> ff_stats M2 = ff_stats M \<and> ff_downportinfo M2 = ff_downportinfo M"
      by (subst 2(4), simp add: f)+
    then show ?thesis using 2(1-3) by auto
  qed
  then show "p \<notin> live M" "c \<noteq> 0 \<longrightarrow> c \<notin> live M" "p \<noteq> c"
    "fab M2 = fab M" "AllSystems M2 = AllSystems M" "sdata M2 = sdata M" "pPortCounters M2 = pPortCounters M"
    "pinfo M2 = pinfo M" "live M2 = live M \<union> {p} \<union> ({c} - {0})" "ff_stats M2 = ff_stats M"
    "ff_downportinfo M2 = ff_downportinfo M" "c \<noteq> 0 \<longrightarrow> ff_stats M" "ff_stats M1 = ff_stats M"
    using p f by simp_all
qed

lemma add_port_correct:
  assumes ok: "fabric_ok M" and n: "n \<in> node_set M" and r: "portinfo_ok M n guid r" and alloc: "all_alloc alloc"
  shows "\<exists>res M'. NodeDataAddPort alloc n guid r M = Some (res, M') \<and> added_port M n guid r res M'"
proof -
  have st: "store_ok M" and z: "0 \<notin> live M" using ok by (auto simp: fabric_ok_def store_ok_def memory_ok_def)
  obtain p M1 where b: "new_block M = (p, M1)" by force
  obtain c M2 where c: "(if ff_stats M1 then new_block M1 else (0, M1)) = (c, M2)" by force
  show ?thesis
  proof (cases "p = 0")
    case True
    then have M1: "M1 = M\<lparr>next_blocks := next_blocks M1\<rparr>" using new_block_cases [OF b] by simp
    have "added_port M n guid r None M1" by (rule add_port_idle [OF ok]; subst M1, simp)
    then show ?thesis using b True by (auto simp: NodeDataAddPort_def)
  next
    case p0: False
    note B = port_blocks [OF b p0 c]
    show ?thesis
    proof (cases "ff_stats M \<and> c = 0")
      case True
      then have "NodeDataAddPort alloc n guid r M = Some (None, free_block p M2)"
        using b p0 c B(10) by (simp add: NodeDataAddPort_def)
      moreover have "added_port M n guid r None (free_block p M2)"
        by (rule add_port_idle [OF ok]) (use B True in \<open>auto simp: free_block_def\<close>)
      ultimately show ?thesis by blast
    next
      case False
      let ?d = "port_record M n guid r"
      define M3 where "M3 = put_port p ?d M2\<lparr>pinfo := (pinfo M2)(p := pr_info r), pPortCounters := (pPortCounters M2)(p := c)\<rparr>"
      have d: "port_record M2 n guid r = ?d" using B(4) by (simp add: port_record_def)
      have m3: "fab M3 = (fab M)\<lparr>pdata := (pdata (fab M))(p := ?d)\<rparr>" "AllSystems M3 = AllSystems M" "sdata M3 = sdata M"
        "pPortCounters M3 = (pPortCounters M)(p := c)" "pinfo M3 = (pinfo M)(p := pr_info r)"
        "live M3 = live M \<union> {p} \<union> ({c} - {0})" "ff_stats M3 = ff_stats M" "ff_downportinfo M3 = ff_downportinfo M"
        using B by (simp_all add: M3_def put_port_def)
      have cl: "c \<notin> live M" using B(2) z by auto
      have pp: "p \<notin> port_set M" using fresh_block [OF ok B(1)] by simp
      let ?k = "ucast (PortNum ?d) :: uint64"
      let ?P = "NodePorts (node_of M n)"
      define M4 where "M4 = put_ports n (omap_insert ?k p ?P) M3"
      have m4: "fab M4 = (fab M)\<lparr>pdata := (pdata (fab M))(p := ?d), ndata := (ndata (fab M))(n := (node_of M n)\<lparr>NodePorts := omap_insert ?k p ?P\<rparr>)\<rparr>"
        "AllSystems M4 = AllSystems M" "sdata M4 = sdata M"
        "pPortCounters M4 = (pPortCounters M)(p := c)" "pinfo M4 = (pinfo M)(p := pr_info r)"
        "live M4 = live M \<union> {p} \<union> ({c} - {0})" "ff_stats M4 = ff_stats M" "ff_downportinfo M4 = ff_downportinfo M"
        using m3 by (simp_all add: M4_def put_ports_def put_node_def)
      have nM: "node_of M3 = node_of M" "node_of M2 = node_of M" using m3(1) B(4) by simp_all
      have cc: "(ff_stats M2 \<and> c = 0) = False" using False B(10) by simp
      have call: "NodeDataAddPort alloc n guid r M =
        (if omap_get ?k ?P \<noteq> None then Some (None, free_block p M3)
         else if \<not> ff_downportinfo M \<or> EndPortLID ?d \<noteq> 0
         then do {
           (status, F) \<leftarrow> AllLidsAdd alloc (fab M4) p False;
           if status \<noteq> FSUCCESS then do {
             m \<leftarrow> omap_remove_item p (NodePorts (node_of (M4\<lparr>fab := F\<rparr>) n));
             Some (None, free_block p (put_ports n m (M4\<lparr>fab := F\<rparr>))) }
           else Some (Some p, M4\<lparr>fab := F\<rparr>) }
         else Some (Some p, M4))"
        using b p0 c cc m4(8)
        by (cases "ff_stats M2") (simp_all add: NodeDataAddPort_def M3_def [symmetric] Let_def d nM M4_def [symmetric])
      have dn: "neighbor ?d = None" "\<not> fromp ?d" "nodep ?d = n" by (simp_all add: port_record_def Let_def)
      have le: "lids_exact (port_set M) (fab M)" using ok by (simp add: fabric_ok_def)
      show ?thesis
      proof (cases "omap_get ?k ?P = None")
        case dup: False
        then have "NodeDataAddPort alloc n guid r M = Some (None, free_block p M3)" using call by simp
        moreover have "lids_exact (port_set M) (fab M3)"
          using le pp by (subst lids_exact_cong [of "fab M3" "fab M"]) (auto simp: m3(1))
        then have "added_port M n guid r None (free_block p M3)"
          using add_port_refused [OF ok B(1) cl dn(1,2), of "free_block p M3" "pr_info r"] m3 B(1-3,12)
          by (simp add: free_block_def lids_only_def)
        ultimately show ?thesis by blast
      next
        case new: True
        have added: "port_added M M' n p ?d c"
          if "AllNodes (fab M') = AllNodes (fab M)" "AllSystems M' = AllSystems M" "sdata M' = sdata M"
            "node_of M' = (node_of M)(n := (node_of M n)\<lparr>NodePorts := omap_insert ?k p ?P\<rparr>)"
            "port_of M' = (port_of M)(p := ?d)" "pPortCounters M' = (pPortCounters M)(p := c)"
            "expected_set (fab M') = expected_set (fab M)" "live M' = live M \<union> {p} \<union> ({c} - {0})" for M'
          using that st n new dn(3) B(1,3) cl p0 by (simp add: port_added_def)
        have l4: "lids_exact (port_set M) (fab M4)"
          using le pp by (subst lids_exact_cong [of "fab M4" "fab M"]) (auto simp: m4(1))
        show ?thesis
        proof (cases "\<not> ff_downportinfo M \<or> EndPortLID ?d \<noteq> 0")
          case False
          then have up: "\<not> up_port ?d" by (simp add: up_port_def)
          have "lids_exact (insert p (port_set M)) (fab M4)"
            using l4 up pp by (auto simp: lids_exact_def lid_port_up m4(1))
          then have "added_port M n guid r (Some p) M4"
            by (intro add_port_accepted [OF ok added]) (simp_all add: m4 expected_set_def link_counters_def)
          then show ?thesis using call new False by auto
        next
          case True
          have a: "lids_addable (fab M4) p"
            using r True dn(3) by (auto simp: portinfo_ok_def lids_addable_def m4(1) Let_def up_port_def)
          from lids_added [OF l4 pp alloc a] obtain st F where
            F: "AllLidsAdd alloc (fab M4) p False = Some (st, F)" "lids_only (fab M4) F"
            "if st = FSUCCESS then lids_exact (insert p (port_set M)) F else lids_exact (port_set M) F" by blast
          note L = lids_only_fields [OF F(2)]
          show ?thesis
          proof (cases "st = FSUCCESS")
            case True
            have "added_port M n guid r (Some p) (M4\<lparr>fab := F\<rparr>)"
              by (intro add_port_accepted [OF ok added])
                (use True F(3) L in \<open>simp_all add: m4 expected_set_def link_counters_def\<close>)
            then show ?thesis using call new \<open>\<not> ff_downportinfo M \<or> EndPortLID ?d \<noteq> 0\<close> F(1) True by simp
          next
            case False
            let ?M' = "free_block p (put_ports n ?P (M4\<lparr>fab := F\<rparr>))"
            have "p \<notin> snd ` set ?P"
              using pp n omap_value [OF node_ports_ok [OF st n], of p] by (auto simp: port_set_def ports_at_def)
            then have rm: "omap_remove_item p (NodePorts (ndata F n)) = Some ?P"
              using omap_remove_inserted [OF new] L(2) by (simp add: m4(1))
            have nd: "(ndata F)(n := (ndata F n)\<lparr>NodePorts := ?P\<rparr>) = ndata (fab M)"
              using L(2) by (simp add: m4(1))
            have fb: "fab ?M' = F\<lparr>ndata := ndata (fab M)\<rparr>" using nd by (simp add: put_ports_def put_node_def)
            have lo: "lids_only ((fab M)\<lparr>pdata := (pdata (fab M))(p := ?d)\<rparr>) (fab ?M')"
              unfolding fb using F(2) unfolding lids_only_def m4(1) by (cases F; cases "fab M") simp
            have "lids_exact (port_set M) (fab ?M')"
              unfolding fb using F(3) False by (subst lids_exact_cong [of _ F]) simp_all
            then have "added_port M n guid r None ?M'"
              using add_port_refused [OF ok B(1) cl dn(1,2) lo, of "pr_info r"] m4 B(1-3,12) 
              by (simp add: put_ports_def put_node_def free_block_def)
            then show ?thesis using call new \<open>\<not> ff_downportinfo M \<or> EndPortLID ?d \<noteq> 0\<close> F(1) False rm by auto
          qed
        qed
      qed
    qed
  qed
qed

end
