(* ===== verification/FabricBuild_Free.thy ===== *)
theory FabricBuild_Free
  imports FabricBuild_Port
begin

text \<open>Freeing ports, nodes and whole fabrics: the functions return, and give back what they own.\<close>

subsection \<open>Ports\<close>

text \<open>The ports of a node leave the map of LIDs and memory.\<close>

definition ports_gone :: "port set \<Rightarrow> fabric_state \<Rightarrow> node \<Rightarrow> port set \<Rightarrow> port omap \<Rightarrow> fabric_state \<Rightarrow> bool" where
  "ports_gone P M n X m M' \<longleftrightarrow> M' = M\<lparr>fab := fab M', live := live M'\<rparr> \<and>
     lids_only ((fab M)\<lparr>ndata := (ndata (fab M))(n := (node_of M n)\<lparr>NodePorts := m\<rparr>)\<rparr>) (fab M') \<and>
     lids_exact (P - X) (fab M') \<and> live M' = live M - X - counters_of M X"

lemma PortDataFree_correct:
  assumes e: "lids_exact P (fab M)" "p \<in> P" and n: "nodep (port_of M p) = n"
    and j: "omap_ok (NodePorts (node_of M n))" "omap_get j (NodePorts (node_of M n)) = Some p"
  shows "\<exists>M'. PortDataFree p M = Some M' \<and>
    ports_gone P M n {p} (filter (\<lambda>(k, q). q \<noteq> p) (NodePorts (node_of M n))) M'"
proof -
  have "\<exists>G. (if PortGUID (port_of M p) \<noteq> 0 then AllLidsRemove (fab M) p else Some (fab M)) = Some G \<and>
    lids_only (fab M) G \<and> lids_exact (P - {p}) G"
  proof (cases "PortGUID (port_of M p) = 0")
    case True
    then have "lids_exact (P - {p}) (fab M)" using e by (auto simp: lids_exact_def lid_port_def)
    then show ?thesis using True by simp
  next
    case False
    then show ?thesis using lids_removed [OF e] by simp
  qed
  then obtain G where G: "(if PortGUID (port_of M p) \<noteq> 0 then AllLidsRemove (fab M) p else Some (fab M)) = Some G"
    "lids_only (fab M) G" "lids_exact (P - {p}) G" by blast
  note L = lids_only_fields [OF G(2)]
  let ?m = "filter (\<lambda>(k, q). q \<noteq> p) (NodePorts (node_of M n))"
  let ?G = "G\<lparr>ndata := (ndata G)(n := (ndata G n)\<lparr>NodePorts := ?m\<rparr>)\<rparr>"
  let ?M' = "M\<lparr>fab := ?G, live := live M - counters_of M {p} - {p}\<rparr>"
  have "p \<in> snd ` set (NodePorts (node_of M n))" using omap_value [OF j(1)] j(2) by blast
  then have r: "omap_remove_item p (NodePorts (ndata G n)) = Some ?m" by (simp add: omap_remove_item_def L(2))
  have c: "counters_of M {p} = (if pPortCounters M p \<noteq> 0 then {pPortCounters M p} else {})"
    by (auto simp: counters_of_def)
  have "PortDataFree p M = Some ?M'"
    using G(1) r n c by (cases "pPortCounters M p = 0")
      (auto simp: PortDataFree_def put_ports_def put_node_def free_block_def Let_def)
  moreover have "lids_only ((fab M)\<lparr>ndata := (ndata (fab M))(n := (node_of M n)\<lparr>NodePorts := ?m\<rparr>)\<rparr>) ?G"
    using G(2) L(2) unfolding lids_only_def by (cases G; cases "fab M") simp
  moreover have "lids_exact (P - {p}) ?G" using G(3) by (subst lids_exact_cong [of _ G]) simp_all
  ultimately show ?thesis by (auto simp: ports_gone_def)
qed

lemma lids_only_ndata:
  assumes "lids_only (F\<lparr>ndata := x\<rparr>) G" "lids_only (G\<lparr>ndata := y\<rparr>) H"
  shows "lids_only (F\<lparr>ndata := y\<rparr>) H"
  using assms unfolding lids_only_def by (cases F; cases G; cases H) simp

lemma ports_goneD:
  assumes "ports_gone P M n X m M'"
  shows "M' = M\<lparr>fab := fab M', live := live M'\<rparr>"
    "lids_only ((fab M)\<lparr>ndata := (ndata (fab M))(n := (node_of M n)\<lparr>NodePorts := m\<rparr>)\<rparr>) (fab M')"
    "lids_exact (P - X) (fab M')" "live M' = live M - X - counters_of M X"
    "node_of M' = (node_of M)(n := (node_of M n)\<lparr>NodePorts := m\<rparr>)" "port_of M' = port_of M"
    "pPortCounters M' = pPortCounters M" "sdata M' = sdata M" "AllSystems M' = AllSystems M"
    "pinfo M' = pinfo M" "ff_stats M' = ff_stats M" "ff_downportinfo M' = ff_downportinfo M"
    "counters_of M' = counters_of M"
proof -
  show e: "M' = M\<lparr>fab := fab M', live := live M'\<rparr>" and l: "lids_only ((fab M)\<lparr>ndata := (ndata (fab M))(n := (node_of M n)\<lparr>NodePorts := m\<rparr>)\<rparr>) (fab M')"
    and "lids_exact (P - X) (fab M')" "live M' = live M - X - counters_of M X"
    using assms unfolding ports_gone_def by blast+
  show "node_of M' = (node_of M)(n := (node_of M n)\<lparr>NodePorts := m\<rparr>)" "port_of M' = port_of M"
    using lids_only_fields(1,2) [OF l] by simp_all
  show c: "pPortCounters M' = pPortCounters M" and "sdata M' = sdata M" "AllSystems M' = AllSystems M"
    "pinfo M' = pinfo M" "ff_stats M' = ff_stats M" "ff_downportinfo M' = ff_downportinfo M"
    by (subst e, simp)+
  show "counters_of M' = counters_of M" by (simp add: counters_of_def c fun_eq_iff)
qed

lemma ports_gone_trans:
  assumes a: "ports_gone P M n X m M1" and b: "ports_gone (P - X) M1 n Y k M'"
  shows "ports_gone P M n (X \<union> Y) k M'"
proof -
  note A = ports_goneD [OF a] and B = ports_goneD [OF b]
  have "M' = M\<lparr>fab := fab M', live := live M'\<rparr>"
    by (subst B(1), subst (1) A(1)) simp
  moreover have "lids_only ((fab M)\<lparr>ndata := (ndata (fab M))(n := (node_of M n)\<lparr>NodePorts := k\<rparr>)\<rparr>) (fab M')"
    using lids_only_ndata [OF A(2) B(2)] A(5) by simp
  moreover have "lids_exact (P - (X \<union> Y)) (fab M')" using B(3) by (simp add: Diff_Un Diff_Int_distrib Diff_Diff_Int set_diff_eq)
  moreover have "live M' = live M - (X \<union> Y) - counters_of M (X \<union> Y)"
    using A(4) B(4) A(13) by (auto simp: counters_of_def)
  ultimately show ?thesis by (simp add: ports_gone_def)
qed

lemma NodeDataFreePorts_correct:
  assumes "lids_exact P (fab M)" "ports_at M n \<subseteq> P" "omap_ok (NodePorts (node_of M n))"
    and "\<And>p. p \<in> ports_at M n \<Longrightarrow> nodep (port_of M p) = n"
  shows "\<exists>M'. NodeDataFreePorts n M = Some M' \<and> ports_gone P M n (ports_at M n) [] M'"
  using assms
proof (induction "length (NodePorts (node_of M n))" arbitrary: M P rule: less_induct)
  case less
  show ?case
  proof (cases "NodePorts (node_of M n)")
    case Nil
    then have "node_of M n = (node_of M n)\<lparr>NodePorts := []\<rparr>" "ports_at M n = {}"
      by (simp_all add: ports_at_def omap_get_def)
    then have "(ndata (fab M))(n := (node_of M n)\<lparr>NodePorts := []\<rparr>) = ndata (fab M)" "ports_at M n = {}"
      by (metis fun_upd_triv)+
    then have "ports_gone P M n (ports_at M n) [] M"
      using less.prems(1) by (simp add: ports_gone_def counters_of_def)
    then show ?thesis using Nil by (subst NodeDataFreePorts.simps) simp
  next
    case (Cons e m)
    obtain k p where e: "e = (k, p)" by (cases e)
    let ?m = "filter (\<lambda>(k, q). q \<noteq> p) (NodePorts (node_of M n))"
    have k: "omap_get k (NodePorts (node_of M n)) = Some p" using Cons e by (simp add: omap_get_def)
    then have p: "p \<in> ports_at M n" by (auto simp: ports_at_def)
    from PortDataFree_correct [OF less.prems(1) _ less.prems(4) [OF p] less.prems(3) k] p less.prems(2)
    obtain M1 where M1: "PortDataFree p M = Some M1" "ports_gone P M n {p} ?m M1" by blast
    note D = ports_goneD [OF M1(2)]
    have at: "ports_at M1 n = ports_at M n - {p}"
      using omap_get_filter [OF less.prems(3), of _ p] by (auto simp: ports_at_def D(5)) (metis option.inject)
    have "length ?m < length (NodePorts (node_of M n))" by (simp add: Cons e less_Suc_eq_le)
    then have "length (NodePorts (node_of M1 n)) < length (NodePorts (node_of M n))" by (simp add: D(5))
    from less.hyps [OF this D(3)]
    obtain M' where M': "NodeDataFreePorts n M1 = Some M'" "ports_gone (P - {p}) M1 n (ports_at M1 n) [] M'"
      using at less.prems(2,4) omap_ok_filter [OF less.prems(3)] D(5,6) by auto
    have "ports_gone P M n (ports_at M n) [] M'"
      using ports_gone_trans [OF M1(2) M'(2)] at p by (simp add: insert_absorb)
    moreover have "NodeDataFreePorts n M = Some M'"
      using M1(1) M'(1) Cons e by (subst NodeDataFreePorts.simps) simp
    ultimately show ?thesis by blast
  qed
qed

subsection \<open>Nodes\<close>

text \<open>The blocks that go with a node: its ports and, when it is the only node of its system, the system.\<close>

definition last_node :: "fabric_state \<Rightarrow> node \<Rightarrow> bool" where
  "last_node M n \<longleftrightarrow> (\<forall>m \<in> node_set M. systemp (node_of M m) = systemp (node_of M n) \<longrightarrow> m = n)"

definition node_blocks :: "fabric_state \<Rightarrow> node \<Rightarrow> nat set" where
  "node_blocks M n = {n} \<union> (if last_node M n then {systemp (node_of M n)} else {}) \<union>
     ports_at M n \<union> counters_of M (ports_at M n)"

definition node_gone :: "fabric_state \<Rightarrow> node \<Rightarrow> fabric_state \<Rightarrow> bool" where
  "node_gone M n M' \<longleftrightarrow>
     AllNodes (fab M') = filter (\<lambda>(k, m). m \<noteq> n) (AllNodes (fab M)) \<and>
     AllSystems M' = (if last_node M n then filter (\<lambda>(k, s). s \<noteq> systemp (node_of M n)) (AllSystems M) else AllSystems M) \<and>
     sdata M' = (sdata M)(systemp (node_of M n) := (sdata M (systemp (node_of M n)))
       \<lparr>sd_Nodes := filter (\<lambda>(k, m). m \<noteq> n) (sd_Nodes (sdata M (systemp (node_of M n))))\<rparr>) \<and>
     node_of M' = (node_of M)(n := (node_of M n)\<lparr>NodePorts := []\<rparr>) \<and> port_of M' = port_of M \<and>
     pPortCounters M' = pPortCounters M \<and> expected_set (fab M') = expected_set (fab M) \<and>
     link_counters (fab M') = link_counters (fab M) \<and>
     lids_exact (port_set M - ports_at M n) (fab M') \<and> live M' = live M - node_blocks M n \<and>
     ff_stats M' = ff_stats M \<and> ff_downportinfo M' = ff_downportinfo M"

lemma system_at:
  assumes "store_ok M" "n \<in> node_set M"
  shows "omap_get (system_key (node_of M n)) (AllSystems M) = Some (systemp (node_of M n))"
    "system_ok M (system_key (node_of M n)) (systemp (node_of M n))"
    "omap_get (NodeGUID (node_of M n)) (AllNodes (fab M)) = Some n"
    "omap_get (NodeGUID (node_of M n)) (sd_Nodes (sdata M (systemp (node_of M n)))) = Some n"
proof -
  obtain k where k: "omap_get k (AllNodes (fab M)) = Some n" using node_at [OF assms(2)] .
  then have o: "node_ok M k n" using assms(1) by (simp add: store_ok_def)
  then show s: "omap_get (system_key (node_of M n)) (AllSystems M) = Some (systemp (node_of M n))"
    and g: "omap_get (NodeGUID (node_of M n)) (AllNodes (fab M)) = Some n" using k by (simp_all add: node_ok_def)
  show so: "system_ok M (system_key (node_of M n)) (systemp (node_of M n))" using assms(1) s by (simp add: store_ok_def)
  then show "omap_get (NodeGUID (node_of M n)) (sd_Nodes (sdata M (systemp (node_of M n)))) = Some n"
    using g by (simp add: system_ok_def)
qed

lemma last_node_iff:
  assumes "store_ok M" "n \<in> node_set M"
  shows "filter (\<lambda>(k, m). m \<noteq> n) (sd_Nodes (sdata M (systemp (node_of M n)))) = [] \<longleftrightarrow> last_node M n"
proof -
  note S = system_at [OF assms]
  let ?N = "sd_Nodes (sdata M (systemp (node_of M n)))"
  have ok: "omap_ok ?N" using S(2) by (simp add: system_ok_def)
  have N: "omap_get j ?N = Some m \<longleftrightarrow> omap_get j (AllNodes (fab M)) = Some m \<and> systemp (node_of M m) = systemp (node_of M n)" for j m
    using S(2) by (simp add: system_ok_def)
  have "filter (\<lambda>(k, m). m \<noteq> n) ?N = [] \<longleftrightarrow> (\<forall>j m. omap_get j ?N = Some m \<longrightarrow> m = n)"
    using omap_nonempty [OF omap_ok_filter [OF ok, of "\<lambda>(k, m). m \<noteq> n"]] omap_get_filter [OF ok, of _ n]
    by (metis (no_types, lifting) option.distinct(1) option.inject)
  also have "\<dots> \<longleftrightarrow> last_node M n" using N by (auto simp: last_node_def node_set_def)
  finally show ?thesis .
qed

lemma NodeDataFree_correct:
  assumes st: "store_ok M" and e: "lids_exact (port_set M) (fab M)" and n: "n \<in> node_set M"
  shows "\<exists>M'. NodeDataFree n M = Some M' \<and> node_gone M n M'"
proof -
  note S = system_at [OF st n]
  let ?s = "systemp (node_of M n)"
  let ?N = "filter (\<lambda>(k, m). m \<noteq> n) (sd_Nodes (sdata M ?s))"
  have on: "omap_ok (AllNodes (fab M))" and os: "omap_ok (AllSystems M)" using st by (simp_all add: store_ok_def)
  have N: "omap_remove_item n (sd_Nodes (sdata M ?s)) = Some ?N"
    using omap_value [of "sd_Nodes (sdata M ?s)" n] S(2,4) by (auto simp: omap_remove_item_def system_ok_def)
  have A: "omap_remove_item n (AllNodes (fab M)) = Some (filter (\<lambda>(k, m). m \<noteq> n) (AllNodes (fab M)))"
    using omap_value [OF on] S(3) by (auto simp: omap_remove_item_def)
  have Y: "omap_remove_item ?s (AllSystems M) = Some (filter (\<lambda>(k, s). s \<noteq> ?s) (AllSystems M))"
    using omap_value [OF os] S(1) by (auto simp: omap_remove_item_def)
  define M1 where "M1 = put_Nodes ?s ?N M"
  define M2 where "M2 = (if last_node M n then free_block ?s (M1\<lparr>AllSystems := filter (\<lambda>(k, s). s \<noteq> ?s) (AllSystems M)\<rparr>) else M1)"
  define M3 where "M3 = put_AllNodes (filter (\<lambda>(k, m). m \<noteq> n) (AllNodes (fab M))) M2"
  have m3: "fab M3 = (fab M)\<lparr>AllNodes := filter (\<lambda>(k, m). m \<noteq> n) (AllNodes (fab M))\<rparr>"
    "AllSystems M3 = (if last_node M n then filter (\<lambda>(k, s). s \<noteq> ?s) (AllSystems M) else AllSystems M)"
    "sdata M3 = (sdata M)(?s := (sdata M ?s)\<lparr>sd_Nodes := ?N\<rparr>)" "pPortCounters M3 = pPortCounters M"
    "live M3 = live M - (if last_node M n then {?s} else {})" "ff_stats M3 = ff_stats M" "ff_downportinfo M3 = ff_downportinfo M"
    by (simp_all add: M3_def M2_def M1_def free_block_def)
  have at: "ports_at M3 n = ports_at M n" by (simp add: ports_at_def m3(1))
  have "ports_at M n \<subseteq> port_set M" using n by (auto simp: port_set_def)
  moreover have "omap_ok (NodePorts (node_of M3 n))" using node_ports_ok [OF st n] by (simp add: m3(1))
  moreover have "nodep (port_of M3 p) = n" if "p \<in> ports_at M3 n" for p
    using that st S(3) unfolding at by (auto simp: ports_at_def m3(1) store_ok_def node_ok_def)
  moreover have "lids_exact (port_set M) (fab M3)" using e by (subst lids_exact_cong [of _ "fab M"]) (simp_all add: m3(1))
  ultimately obtain M4 where M4: "NodeDataFreePorts n M3 = Some M4" "ports_gone (port_set M) M3 n (ports_at M n) [] M4"
    using NodeDataFreePorts_correct [of "port_set M" M3 n] at by auto
  note D = ports_goneD [OF M4(2)]
  have "NodeDataFree n M = Some (free_block n M4)"
    using N A Y last_node_iff [OF st n] M4(1)
    by (cases "last_node M n") (simp_all add: NodeDataFree_def M1_def M2_def M3_def free_block_def put_Nodes_def put_AllNodes_def)
  moreover have "node_gone M n (free_block n M4)"
  proof -
    note L = lids_only_fields [OF D(2)]
    have c: "counters_of M3 (ports_at M n) = counters_of M (ports_at M n)" by (simp add: counters_of_def m3(4))
    have f: "ff_stats M4 = ff_stats M" "ff_downportinfo M4 = ff_downportinfo M" using D(11,12) m3(6,7) by simp_all
    show ?thesis unfolding node_gone_def put_fields
      using D(3-9) L c f m3 by (auto simp: node_blocks_def expected_set_def link_counters_def)
  qed
  ultimately show ?thesis by blast
qed

lemma node_goneD:
  assumes "node_gone M n M'"
  shows "AllNodes (fab M') = filter (\<lambda>(k, m). m \<noteq> n) (AllNodes (fab M))"
    "AllSystems M' = (if last_node M n then filter (\<lambda>(k, s). s \<noteq> systemp (node_of M n)) (AllSystems M) else AllSystems M)"
    "sdata M' = (sdata M)(systemp (node_of M n) := (sdata M (systemp (node_of M n)))
       \<lparr>sd_Nodes := filter (\<lambda>(k, m). m \<noteq> n) (sd_Nodes (sdata M (systemp (node_of M n))))\<rparr>)"
    "node_of M' = (node_of M)(n := (node_of M n)\<lparr>NodePorts := []\<rparr>)" "port_of M' = port_of M"
    "pPortCounters M' = pPortCounters M" "expected_set (fab M') = expected_set (fab M)"
    "link_counters (fab M') = link_counters (fab M)"
    "lids_exact (port_set M - ports_at M n) (fab M')" "live M' = live M - node_blocks M n"
    "ff_stats M' = ff_stats M" "ff_downportinfo M' = ff_downportinfo M"
  using assms [unfolded node_gone_def] by - (elim conjE, assumption)+

lemma ports_apart:
  assumes "store_ok M" "n \<in> node_set M" "m \<in> node_set M" "p \<in> ports_at M n" "p \<in> ports_at M m"
  shows "n = m"
proof -
  have "nodep (port_of M p) = x" if "x \<in> node_set M" "p \<in> ports_at M x" for x
    using system_at(3) [OF assms(1) that(1)] that(2) assms(1) by (auto simp: ports_at_def store_ok_def node_ok_def)
  then show ?thesis using assms(2-5) by metis
qed

lemma node_gone_sets:
  assumes st: "store_ok M" and n: "n \<in> node_set M" and a: "node_gone M n M'"
  shows "node_set M' = node_set M - {n}" "system_set M' = system_set M - (if last_node M n then {systemp (node_of M n)} else {})"
    "port_set M' = port_set M - ports_at M n" "counters_of M' X = counters_of M X"
    "omap_get k (AllNodes (fab M')) = (if omap_get k (AllNodes (fab M)) = Some n then None else omap_get k (AllNodes (fab M)))"
    "omap_get k (AllSystems M') = (if last_node M n \<and> omap_get k (AllSystems M) = Some (systemp (node_of M n)) then None
       else omap_get k (AllSystems M))"
proof -
  note D = node_goneD [OF a]
  have on: "omap_ok (AllNodes (fab M))" and os: "omap_ok (AllSystems M)" using st by (simp_all add: store_ok_def)
  show g: "omap_get k (AllNodes (fab M')) = (if omap_get k (AllNodes (fab M)) = Some n then None else omap_get k (AllNodes (fab M)))" for k
    unfolding D(1) by (rule omap_get_filter [OF on])
  show h: "omap_get k (AllSystems M') = (if last_node M n \<and> omap_get k (AllSystems M) = Some (systemp (node_of M n)) then None
       else omap_get k (AllSystems M))" for k
    unfolding D(2) using omap_get_filter [OF os] by simp
  show ns: "node_set M' = node_set M - {n}" unfolding node_set_def g by (auto split: if_splits) (metis option.inject)
  show "system_set M' = system_set M - (if last_node M n then {systemp (node_of M n)} else {})"
    unfolding system_set_def h by (auto split: if_splits) (metis option.inject)
  have "ports_at M' m = ports_at M m" if "m \<noteq> n" for m using that D(4) by (simp add: ports_at_def)
  then have "port_set M' = (\<Union>m \<in> node_set M - {n}. ports_at M m)" unfolding port_set_def ns by simp
  then show "port_set M' = port_set M - ports_at M n"
    using ports_apart [OF st n] unfolding port_set_def by blast
  show "counters_of M' X = counters_of M X" by (simp add: counters_of_def D(6))
qed

lemma counters_diff:
  assumes "memory_ok M" "X \<subseteq> port_set M"
  shows "counters_of M (port_set M - X) = counters_of M (port_set M) - counters_of M X"
proof -
  have i: "inj_on (pPortCounters M) {p \<in> port_set M. pPortCounters M p \<noteq> 0}" using assms(1) by (simp add: memory_ok_def)
  have "pPortCounters M p \<noteq> pPortCounters M q" if p: "p \<in> port_set M - X" "q \<in> X" "pPortCounters M p \<noteq> 0" for p q
  proof
    assume e: "pPortCounters M p = pPortCounters M q"
    have q: "pPortCounters M q \<noteq> 0" using p(3) unfolding e .
    have "q \<in> port_set M" using p(2) assms(2) by blast
    with q have "q \<in> {p \<in> port_set M. pPortCounters M p \<noteq> 0}" by blast
    moreover have "p \<in> {p \<in> port_set M. pPortCounters M p \<noteq> 0}" using p(1,3) by blast
    ultimately have "p = q" using inj_onD [OF i e] by blast
    then show False using p(1,2) by blast
  qed
  then have apart: "c \<notin> pPortCounters M ` X" if "c \<in> pPortCounters M ` (port_set M - X)" "c \<noteq> 0" for c
    using that by (elim imageE) (simp add: image_iff)
  show ?thesis
  proof (rule set_eqI)
    fix c
    show "c \<in> counters_of M (port_set M - X) \<longleftrightarrow> c \<in> counters_of M (port_set M) - counters_of M X"
    proof
      assume "c \<in> counters_of M (port_set M - X)"
      then show "c \<in> counters_of M (port_set M) - counters_of M X" using apart [of c] by (auto simp: counters_of_def)
    next
      assume "c \<in> counters_of M (port_set M) - counters_of M X"
      then show "c \<in> counters_of M (port_set M - X)" by (auto simp: counters_of_def)
    qed
  qed
qed

lemma node_blocks_owned:
  assumes st: "store_ok M" and n: "n \<in> node_set M" and a: "node_gone M n M'"
  shows "owned M' = owned M - node_blocks M n" "node_blocks M n \<subseteq> owned M"
proof -
  note G = node_gone_sets [OF st n a] and D = node_goneD [OF a]
  have m: "memory_ok M" using st by (simp add: store_ok_def)
  have p: "ports_at M n \<subseteq> port_set M" using n by (auto simp: port_set_def)
  have s: "systemp (node_of M n) \<in> system_set M" using system_at(1) [OF st n] by (rule system_in)
  have cs: "counters_of M (ports_at M n) \<subseteq> counters_of M (port_set M)" using p by (auto simp: counters_of_def)
  show "node_blocks M n \<subseteq> owned M" using n p s cs by (auto simp: node_blocks_def owned_def)
  have dj: "disjoint_sets [node_set M, system_set M, port_set M, counters_of M (port_set M), expected_set (fab M)]"
    using m by (simp add: memory_ok_def)
  have "node_set M - {n} = node_set M - node_blocks M n" using dj n s p cs by (auto simp: node_blocks_def)
  moreover have "system_set M - (if last_node M n then {systemp (node_of M n)} else {}) = system_set M - node_blocks M n"
    using dj n s p cs by (auto simp: node_blocks_def)
  moreover have "port_set M - ports_at M n = port_set M - node_blocks M n" using dj n s p cs by (auto simp: node_blocks_def)
  moreover have "counters_of M (port_set M) - counters_of M (ports_at M n) = counters_of M (port_set M) - node_blocks M n"
    using dj n s p cs by (auto simp: node_blocks_def)
  moreover have "expected_set (fab M) = expected_set (fab M) - node_blocks M n" using dj n s p cs by (auto simp: node_blocks_def)
  ultimately show "owned M' = owned M - node_blocks M n"
    unfolding owned_def G(1,2,3,4) D(7) counters_diff [OF m p] by blast
qed

lemma node_gone_ok:
  assumes st: "store_ok M" and n: "n \<in> node_set M" and a: "node_gone M n M'"
  shows "store_ok M'" "lost M' = lost M"
proof -
  note G = node_gone_sets [OF st n a] and D = node_goneD [OF a] and B = node_blocks_owned [OF st n a]
  note S = system_at [OF st n]
  let ?s = "systemp (node_of M n)"
  have m: "memory_ok M" and on: "omap_ok (AllNodes (fab M))" and os: "omap_ok (AllSystems M)"
    using st by (simp_all add: store_ok_def)
  show l: "lost M' = lost M" using B D(10) m by (auto simp: lost_def memory_ok_def)
  have key: "system_key (node_of M' x) = system_key (node_of M x)" "systemp (node_of M' x) = systemp (node_of M x)" for x
    by (simp_all add: D(4) system_key_def)
  have "node_ok M' k x" if "omap_get k (AllNodes (fab M')) = Some x" for k x
  proof -
    have k: "omap_get k (AllNodes (fab M)) = Some x" "x \<noteq> n" using that unfolding G(5) by (auto split: if_splits)
    then have o: "node_ok M k x" using st by (simp add: store_ok_def)
    have "\<not> (last_node M n \<and> systemp (node_of M x) = ?s)"
      using k node_in [OF k(1)] by (auto simp: last_node_def)
    then have "omap_get (system_key (node_of M' x)) (AllSystems M') = Some (systemp (node_of M' x))"
      unfolding key G(6) using o by (auto simp: node_ok_def)
    then show ?thesis using o k(2) by (simp add: node_ok_def D(4,5))
  qed
  moreover have "system_ok M' k x" if "omap_get k (AllSystems M') = Some x" for k x
  proof -
    have k: "omap_get k (AllSystems M) = Some x" "\<not> (last_node M n \<and> x = ?s)" using that unfolding G(6) by (auto split: if_splits)
    then have o: "system_ok M k x" using st by (simp add: store_ok_def)
    then have N: "omap_ok (sd_Nodes (sdata M x))" "omap_get j (sd_Nodes (sdata M x)) = Some y \<longleftrightarrow>
        omap_get j (AllNodes (fab M)) = Some y \<and> systemp (node_of M y) = x" for j y by (simp_all add: system_ok_def)
    have sN: "omap_get j (sd_Nodes (sdata M' x)) = (if omap_get j (sd_Nodes (sdata M x)) = Some n then None
        else omap_get j (sd_Nodes (sdata M x)))" for j
      using omap_get_filter [OF N(1), of j n] N(2) [of j n] D(3) by (cases "x = ?s") auto
    have "omap_ok (sd_Nodes (sdata M' x))"
      using N(1) omap_ok_filter [OF N(1), of "\<lambda>(k, m). m \<noteq> n"] D(3) by (cases "x = ?s") auto
    moreover have "sd_Nodes (sdata M' x) \<noteq> []"
      using o k(2) last_node_iff [OF st n] D(3) by (auto simp: system_ok_def)
    moreover have "omap_get j (sd_Nodes (sdata M' x)) = Some y \<longleftrightarrow>
        omap_get j (AllNodes (fab M')) = Some y \<and> systemp (node_of M' y) = x" for j y
      unfolding sN G(5) key using N(2) [of j y] N(2) [of j n] by auto
    moreover have "system_key (node_of M' y) = k" if "y \<in> node_set M'" "systemp (node_of M' y) = x" for y
      using that o unfolding key G(1) by (auto simp: system_ok_def)
    ultimately show ?thesis by (simp add: system_ok_def)
  qed
  moreover have "memory_ok M'"
  proof -
    have "inj_on (pPortCounters M') {p \<in> port_set M'. pPortCounters M' p \<noteq> 0}"
      using m unfolding D(6) G(3) memory_ok_def by (auto intro: inj_on_subset)
    moreover have "disjoint_sets [node_set M', system_set M', port_set M', counters_of M' (port_set M'), expected_set (fab M')]"
      using m unfolding G(1-4) D(7) memory_ok_def by (auto simp: counters_of_def)
    moreover have "owned M' \<subseteq> live M'" "0 \<notin> live M'" using B D(10) m by (auto simp: memory_ok_def)
    ultimately show ?thesis by (simp add: memory_ok_def)
  qed
  moreover have "omap_ok (AllNodes (fab M'))" "omap_ok (AllSystems M')"
    unfolding D(1,2) by (simp_all add: omap_ok_filter on os)
  ultimately show "store_ok M'" by (simp add: store_ok_def)
qed

lemma node_gone_links:
  assumes ok: "fabric_ok M" and n: "n \<in> node_set M" and a: "node_gone M n M'"
    and u: "\<And>p. p \<in> ports_at M n \<Longrightarrow> neighbor (port_of M p) = None"
  shows "fabric_ok M'"
proof -
  have st: "store_ok M" and li: "linked_in (port_set M) (fab M)" using ok by (simp_all add: fabric_ok_def)
  note G = node_gone_sets [OF st n a] and D = node_goneD [OF a]
  have "node_class (port_node (fab M') p) = node_class (port_node (fab M) p)" for p
    by (simp add: D(4,5) node_class_def)
  then have "linked_in (port_set M) (fab M')" using linked_in_same [OF li _ _ D(8) subset_refl] D(5) by simp
  then have "linked_in (port_set M') (fab M')" using u D(5) unfolding linked_in_def G(3) by auto
  then show ?thesis using node_gone_ok(1) [OF st n a] D(9) G(3) by (simp add: fabric_ok_def)
qed

end
