(* ===== verification/FabricBuild_Destroy.thy ===== *)
theory FabricBuild_Destroy
  imports FabricBuild_Free
begin

text \<open>Freeing all nodes, the expected links and nodes, and the whole fabric.\<close>

subsection \<open>All nodes\<close>

lemma no_nodes:
  assumes "store_ok M" "AllNodes (fab M) = []"
  shows "AllSystems M = []" "port_set M = {}" "owned M = expected_set (fab M)"
proof -
  have n: "node_set M = {}" using assms(2) by (simp add: node_set_def omap_get_def)
  have s: "system_set M = {}"
  proof (rule ccontr)
    assume "system_set M \<noteq> {}"
    then obtain k s where "omap_get k (AllSystems M) = Some s" by (auto simp: system_set_def)
    from system_has_node [OF assms(1) this] n show False by simp
  qed
  then show "AllSystems M = []"
    using omap_nonempty [of "AllSystems M"] assms(1) by (auto simp: system_set_def store_ok_def)
  show p: "port_set M = {}" using n by (simp add: port_set_def)
  show "owned M = expected_set (fab M)" by (simp add: owned_def n s p counters_of_def)
qed

lemma NodeDataFreeAll_correct:
  assumes "store_ok M" "lids_exact (port_set M) (fab M)"
  shows "\<exists>M'. NodeDataFreeAll M = Some M' \<and> store_ok M' \<and> lids_exact {} (fab M') \<and> AllNodes (fab M') = [] \<and>
    lost M' = lost M \<and> expected_set (fab M') = expected_set (fab M)"
  using assms
proof (induction "length (AllNodes (fab M))" arbitrary: M rule: less_induct)
  case less
  show ?case
  proof (cases "AllNodes (fab M)")
    case Nil
    then show ?thesis using less.prems no_nodes [OF less.prems(1)] by (subst NodeDataFreeAll.simps) simp
  next
    case (Cons e es)
    obtain k n where e: "e = (k, n)" by (cases e)
    have n: "n \<in> node_set M" using Cons e by (intro node_in [of k]) (simp add: omap_get_def)
    from NodeDataFree_correct [OF less.prems n] obtain M1 where M1: "NodeDataFree n M = Some M1" "node_gone M n M1" by blast
    note D = node_goneD [OF M1(2)] and G = node_gone_ok [OF less.prems(1) n M1(2)]
    have "length (AllNodes (fab M1)) < length (AllNodes (fab M))"
      by (simp add: D(1) Cons e less_Suc_eq_le)
    moreover have "lids_exact (port_set M1) (fab M1)" using D(9) node_gone_sets(3) [OF less.prems(1) n M1(2)] by simp
    ultimately obtain M' where "NodeDataFreeAll M1 = Some M'" "store_ok M'" "lids_exact {} (fab M')" "AllNodes (fab M') = []"
      "lost M' = lost M1" "expected_set (fab M') = expected_set (fab M1)"
      using less.hyps [OF _ G(1)] by blast
    then show ?thesis using M1(1) Cons e D(7) G(2) by (subst NodeDataFreeAll.simps) simp
  qed
qed

subsection \<open>Expected links and nodes\<close>

text \<open>What the functions that free expected objects leave alone.\<close>

definition no_elink :: "port_data \<Rightarrow> port_data" where
  "no_elink d = d\<lparr>elinkp := None\<rparr>"

definition no_enode :: "node_data \<Rightarrow> node_data" where
  "no_enode d = d\<lparr>enodep := None\<rparr>"

definition expected_gone :: "fabric_state \<Rightarrow> nat set \<Rightarrow> fabric_state \<Rightarrow> bool" where
  "expected_gone M X M' \<longleftrightarrow> M' = M\<lparr>fab := fab M', live := live M - X\<rparr> \<and>
     (\<forall>p. no_elink (port_of M' p) = no_elink (port_of M p)) \<and> (\<forall>n. no_enode (node_of M' n) = no_enode (node_of M n)) \<and>
     ldata (fab M') = ldata (fab M) \<and> edata (fab M') = edata (fab M) \<and> AllNodes (fab M') = AllNodes (fab M) \<and>
     lid_array (fab M') = lid_array (fab M) \<and> LidBlocks (fab M') = LidBlocks (fab M) \<and>
     AllLids (fab M') = AllLids (fab M) \<and> link_counters (fab M') = link_counters (fab M)"

lemma expected_gone_refl: "expected_gone M {} M"
  by (simp add: expected_gone_def)

lemma expected_gone_trans:
  assumes "expected_gone M X M1" "expected_gone M1 Y M2"
  shows "expected_gone M (X \<union> Y) M2"
proof -
  have a: "M1 = M\<lparr>fab := fab M1, live := live M - X\<rparr>" "M2 = M1\<lparr>fab := fab M2, live := live M1 - Y\<rparr>"
    using assms unfolding expected_gone_def by blast+
  have "live M1 = live M - X" by (subst a(1), simp)
  then have "M2 = M\<lparr>fab := fab M2, live := live M - (X \<union> Y)\<rparr>"
    by (subst a(2), subst (1) a(1)) (simp add: Diff_Un Diff_Int_distrib set_diff_eq)
  then show ?thesis using assms unfolding expected_gone_def by metis
qed

lemma drop_elink_fields:
  "ndata (drop_elink e p F) = ndata F" "ldata (drop_elink e p F) = ldata F" "edata (drop_elink e p F) = edata F"
  "AllNodes (drop_elink e p F) = AllNodes F" "lid_array (drop_elink e p F) = lid_array F"
  "LidBlocks (drop_elink e p F) = LidBlocks F" "AllLids (drop_elink e p F) = AllLids F"
  "link_counters (drop_elink e p F) = link_counters F" "no_elink (pdata (drop_elink e p F) q) = no_elink (pdata F q)"
  "ExpectedLinks (drop_elink e p F) = ExpectedLinks F" "ExpectedFIs (drop_elink e p F) = ExpectedFIs F"
  "ExpectedSWs (drop_elink e p F) = ExpectedSWs F"
  by (simp_all add: drop_elink_def set_port_def link_counters_def no_elink_def split: option.split)

lemma drop_enode_fields:
  "pdata (drop_enode e F) = pdata F" "ldata (drop_enode e F) = ldata F" "edata (drop_enode e F) = edata F"
  "AllNodes (drop_enode e F) = AllNodes F" "lid_array (drop_enode e F) = lid_array F"
  "LidBlocks (drop_enode e F) = LidBlocks F" "AllLids (drop_enode e F) = AllLids F"
  "link_counters (drop_enode e F) = link_counters F" "no_enode (ndata (drop_enode e F) n) = no_enode (ndata F n)"
  "ExpectedLinks (drop_enode e F) = ExpectedLinks F" "ExpectedFIs (drop_enode e F) = ExpectedFIs F"
  "ExpectedSWs (drop_enode e F) = ExpectedSWs F"
  by (simp_all add: drop_enode_def link_counters_def no_enode_def split: option.split)

lemma link_counters_expected [simp]:
  "link_counters (F\<lparr>ExpectedLinks := x\<rparr>) = link_counters F" "link_counters (F\<lparr>ExpectedFIs := x\<rparr>) = link_counters F"
  "link_counters (F\<lparr>ExpectedSWs := x\<rparr>) = link_counters F" "link_counters (F\<lparr>ExpectedNodeGuidMap := m\<rparr>) = link_counters F"
  by (simp_all add: link_counters_def)

lemma ExpectedLinkFree_gone:
  "expected_gone M {e} (ExpectedLinkFree e M)"
  "ExpectedLinks (fab (ExpectedLinkFree e M)) = filter (\<lambda>x. x \<noteq> e) (ExpectedLinks (fab M))"
  "ExpectedFIs (fab (ExpectedLinkFree e M)) = ExpectedFIs (fab M)"
  "ExpectedSWs (fab (ExpectedLinkFree e M)) = ExpectedSWs (fab M)"
  by (simp_all add: expected_gone_def ExpectedLinkFree_def Let_def free_block_def drop_elink_fields)

lemma ExpectedNodeFree_gone:
  "expected_gone M {e} (ExpectedNodeFree b e M)"
  "ExpectedLinks (fab (ExpectedNodeFree b e M)) = ExpectedLinks (fab M)"
  "ExpectedFIs (fab (ExpectedNodeFree b e M)) = (if b then ExpectedFIs (fab M) else filter (\<lambda>x. x \<noteq> e) (ExpectedFIs (fab M)))"
  "ExpectedSWs (fab (ExpectedNodeFree b e M)) = (if b then filter (\<lambda>x. x \<noteq> e) (ExpectedSWs (fab M)) else ExpectedSWs (fab M))"
  by (simp_all add: expected_gone_def ExpectedNodeFree_def Let_def free_block_def drop_enode_fields)

text \<open>A loop that frees the elements of a list one by one.\<close>

lemma fold_expected_gone:
  assumes "\<And>e M. expected_gone M {e} (f e M)" "\<And>e M. L (fab (f e M)) = filter (\<lambda>x. x \<noteq> e) (L (fab M))"
    and "\<And>e M. K (fab (f e M)) = K (fab M)"
  shows "expected_gone M (set es) (fold f es M) \<and> L (fab (fold f es M)) = filter (\<lambda>x. x \<notin> set es) (L (fab M)) \<and>
    K (fab (fold f es M)) = K (fab M)"
proof (induction es arbitrary: M)
  case Nil
  then show ?case by (simp add: expected_gone_refl)
next
  case (Cons e es)
  have "expected_gone M ({e} \<union> set es) (fold f es (f e M))" using expected_gone_trans assms(1) Cons by blast
  moreover have "filter (\<lambda>x. x \<notin> set es) (filter (\<lambda>x. x \<noteq> e) (L (fab M))) = filter (\<lambda>x. x \<notin> set (e # es)) (L (fab M))"
    by (simp add: conj_commute)
  ultimately show ?case using Cons [of "f e M"] assms(2,3) by simp
qed

lemma ExpectedLinkFreeAll_gone:
  "expected_gone M (set (ExpectedLinks (fab M))) (ExpectedLinkFreeAll M) \<and> ExpectedLinks (fab (ExpectedLinkFreeAll M)) = [] \<and>
   ExpectedFIs (fab (ExpectedLinkFreeAll M)) = ExpectedFIs (fab M) \<and> ExpectedSWs (fab (ExpectedLinkFreeAll M)) = ExpectedSWs (fab M)"
  using fold_expected_gone [of ExpectedLinkFree ExpectedLinks "\<lambda>F. (ExpectedFIs F, ExpectedSWs F)" M "ExpectedLinks (fab M)",
      OF ExpectedLinkFree_gone(1,2)]
  by (simp add: ExpectedLinkFreeAll_def ExpectedLinkFree_gone)

lemma ExpectedNodesFreeAll_gone:
  "expected_gone M (set (if b then ExpectedSWs (fab M) else ExpectedFIs (fab M))) (ExpectedNodesFreeAll b M) \<and>
   ExpectedLinks (fab (ExpectedNodesFreeAll b M)) = ExpectedLinks (fab M) \<and>
   ExpectedFIs (fab (ExpectedNodesFreeAll b M)) = (if b then ExpectedFIs (fab M) else []) \<and>
   ExpectedSWs (fab (ExpectedNodesFreeAll b M)) = (if b then [] else ExpectedSWs (fab M))"
proof (cases b)
  case True
  show ?thesis
    using fold_expected_gone [of "ExpectedNodeFree True" ExpectedSWs "\<lambda>F. (ExpectedLinks F, ExpectedFIs F)" M "ExpectedSWs (fab M)",
        OF ExpectedNodeFree_gone(1)] True
    by (simp add: ExpectedNodesFreeAll_def ExpectedNodeFree_gone)
next
  case False
  show ?thesis
    using fold_expected_gone [of "ExpectedNodeFree False" ExpectedFIs "\<lambda>F. (ExpectedLinks F, ExpectedSWs F)" M "ExpectedFIs (fab M)",
        OF ExpectedNodeFree_gone(1)] False
    by (simp add: ExpectedNodesFreeAll_def ExpectedNodeFree_gone)
qed

subsection \<open>The whole fabric\<close>

lemma expected_gone_ok:
  assumes st: "store_ok M" and e: "lids_exact (port_set M) (fab M)" and g: "expected_gone M (expected_set (fab M)) M'"
    and x: "expected_set (fab M') = {}"
  shows "store_ok M'" "lids_exact (port_set M') (fab M')" "lost M' = lost M"
proof -
  have m: "memory_ok M" using st by (simp add: store_ok_def)
  have eq: "M' = M\<lparr>fab := fab M', live := live M - expected_set (fab M)\<rparr>" using g by (simp add: expected_gone_def)
  have f: "AllSystems M' = AllSystems M" "sdata M' = sdata M" "pPortCounters M' = pPortCounters M"
    "live M' = live M - expected_set (fab M)" by (subst eq, simp)+
  have p: "no_elink (port_of M' q) = no_elink (port_of M q)" and n: "no_enode (node_of M' k) = no_enode (node_of M k)" for q k
    using g by (simp_all add: expected_gone_def)
  have pf: "PortNum (port_of M' q) = PortNum (port_of M q) \<and> nodep (port_of M' q) = nodep (port_of M q) \<and>
    PortGUID (port_of M' q) = PortGUID (port_of M q) \<and> EndPortLID (port_of M' q) = EndPortLID (port_of M q) \<and>
    PortState (port_of M' q) = PortState (port_of M q) \<and> PortInfo_LMC (port_of M' q) = PortInfo_LMC (port_of M q)" for q
    using p [of q] by (cases "port_of M' q"; cases "port_of M q") (simp add: no_elink_def)
  have nf: "node_core (node_of M' k) = node_core (node_of M k)" for k
    using n [of k] by (cases "node_of M' k"; cases "node_of M k") (simp add: no_enode_def node_core_def)
  have sc: "same_core M M'" unfolding same_core_def using f pf nf g by (simp add: expected_gone_def)
  note C = core_sets [OF sc]
  have o: "owned M' = node_set M \<union> system_set M \<union> port_set M \<union> counters_of M (port_set M)"
    unfolding owned_def C(1,2) C(5) unfolding C(4) x by blast
  then have o': "owned M' = owned M - expected_set (fab M)"
    using m unfolding owned_def memory_ok_def by auto
  show "store_ok M'" by (rule store_core [OF st sc]) (use m x f(4) o' in \<open>auto simp: memory_ok_def\<close>)
  show "lids_exact (port_set M') (fab M')" unfolding C(4)
    using e g pf by (subst lids_exact_cong [of _ "fab M"]) (auto simp: expected_gone_def)
  show "lost M' = lost M" unfolding lost_def f(4) o' by (auto simp: owned_def)
qed

lemma DestroyFabricData_correct:
  assumes st: "store_ok M" and e: "lids_exact (port_set M) (fab M)"
  shows "\<exists>M'. DestroyFabricData M = Some M' \<and> live M' = lost M \<and> fab M' = clear_fabric (fab M') \<and> AllSystems M' = []"
proof -
  let ?M1 = "ExpectedLinkFreeAll M"
  let ?M2 = "ExpectedNodesFreeAll False ?M1"
  let ?M3 = "ExpectedNodesFreeAll True ?M2"
  note E = ExpectedLinkFreeAll_gone [of M] ExpectedNodesFreeAll_gone [of ?M1 False] ExpectedNodesFreeAll_gone [of ?M2 True]
  have g: "expected_gone M (expected_set (fab M)) ?M3" and x: "expected_set (fab ?M3) = {}"
    using expected_gone_trans [of M _ ?M1 _ ?M2] expected_gone_trans [of M _ ?M2 _ ?M3] E
    by (auto simp: expected_set_def)
  note X = expected_gone_ok [OF st e g x]
  obtain M4 where M4: "NodeDataFreeAll ?M3 = Some M4" "store_ok M4" "lids_exact {} (fab M4)" "AllNodes (fab M4) = []"
    "lost M4 = lost ?M3" "expected_set (fab M4) = expected_set (fab ?M3)"
    using NodeDataFreeAll_correct [OF X(1,2)] by blast
  have l: "live M4 = lost M" using M4(5) X(3) x M4(6) no_nodes(3) [OF M4(2,4)] by (auto simp: lost_def)
  have c: "clear_fabric (clear_fabric F) = clear_fabric F" for F by (simp add: clear_fabric_def)
  show ?thesis using M4(1) l c by (auto simp: DestroyFabricData_def Let_def)
qed

text \<open>A fabric that has just been initialised, in memory in which no port is linked.\<close>

lemma omap_empty [simp]: "omap_ok []" "omap_get k [] = None"
  by (simp_all add: omap_ok_def omap_get_def)

lemma InitFabricData_ok:
  assumes "0 \<notin> live M" "\<And>p. neighbor (port_of M p) = None \<and> \<not> fromp (port_of M p)"
    and i: "InitFabricData arr stats down M = (st, M')"
  shows "fabric_ok M'" "lost M' = live M" "ff_stats M' = stats" "ff_downportinfo M' = down"
proof -
  have f: "fab M' = (clear_fabric (fab M))\<lparr>lid_array := arr\<rparr>" "AllSystems M' = []" "live M' = live M"
    "ff_stats M' = stats" "ff_downportinfo M' = down"
    using i by (auto simp: InitFabricData_def)
  then show "ff_stats M' = stats" "ff_downportinfo M' = down" by simp_all
  have n: "node_set M' = {}" "system_set M' = {}" "port_set M' = {}" "expected_set (fab M') = {}"
    using f by (simp_all add: node_set_def system_set_def port_set_def expected_set_def clear_fabric_def)
  then have o: "owned M' = {}" by (simp add: owned_def counters_of_def)
  then show "lost M' = live M" using f(3) by (simp add: lost_def)
  have "store_ok M'" using f n o assms(1) by (simp add: store_ok_def memory_ok_def clear_fabric_def counters_of_def)
  moreover have "lids_exact (port_set M') (fab M')"
    using f n by (simp add: lids_exact_def clear_fabric_def GetMapEntry_def)
  moreover have "linked_in (port_set M') (fab M')"
    using assms(2) unfolding linked_in_def links_ok_def links_shape_def links_counted_def counted_def from_class_def f
    by (simp add: clear_fabric_def)
  ultimately show "fabric_ok M'" by (simp add: fabric_ok_def)
qed

end
