(* ===== verification/FabricBuild_System.thy ===== *)
theory FabricBuild_System
  imports FabricBuild_Destroy
begin

text \<open>
  Programs that build a fabric: any sequence of additions of nodes and ports, of links added and
  removed, and of nodes freed, each of which may fail.  Callers add ports only to nodes of the fabric,
  link only its ports, and free a node only when its ports are not linked, since nothing clears the
  pointer of the other port.
\<close>

datatype build_op =
    AddNode node_record
  | AddPort node uint64 portinfo_record
  | Link link_op
  | FreeNode node

definition build_ok :: "build_op \<Rightarrow> fabric_state \<Rightarrow> bool" where
  "build_ok op M = (case op of
       AddNode r \<Rightarrow> True
     | AddPort n guid r \<Rightarrow> n \<in> node_set M \<and> portinfo_ok M n guid r
     | Link (AddLink p q) \<Rightarrow> p \<in> port_set M \<and> q \<in> port_set M
     | Link (RemoveLink p) \<Rightarrow> p \<in> port_set M
     | FreeNode n \<Rightarrow> n \<in> node_set M \<and> (\<forall>p \<in> ports_at M n. neighbor (port_of M p) = None))"

definition build_exec :: "(nat \<Rightarrow> bool) \<Rightarrow> build_op \<Rightarrow> fabric_state \<Rightarrow> fabric_state option" where
  "build_exec alloc op M = (case op of
       AddNode r \<Rightarrow> map_option snd (FabricDataAddNode r M)
     | AddPort n guid r \<Rightarrow> map_option snd (NodeDataAddPort alloc n guid r M)
     | Link l \<Rightarrow> Some (M\<lparr>fab := link_step l (fab M)\<rparr>)
     | FreeNode n \<Rightarrow> NodeDataFree n M)"

inductive built :: "(nat \<Rightarrow> bool) \<Rightarrow> fabric_state \<Rightarrow> fabric_state \<Rightarrow> bool" for alloc M where
  start: "built alloc M M"
| step: "built alloc M M1 \<Longrightarrow> build_ok op M1 \<Longrightarrow> build_exec alloc op M1 = Some M2 \<Longrightarrow> built alloc M M2"

subsection \<open>Links keep the invariant\<close>

definition link_part :: "port_data \<Rightarrow> port_data" where
  "link_part d = d\<lparr>neighbor := None, fromp := False, rate := 0\<rparr>"

definition links_only :: "fabric_data \<Rightarrow> fabric_data \<Rightarrow> bool" where
  "links_only F G \<longleftrightarrow> (\<forall>p. link_part (pdata G p) = link_part (pdata F p)) \<and> ndata G = ndata F \<and>
     lid_array G = lid_array F \<and> LidBlocks G = LidBlocks F \<and> AllLids G = AllLids F \<and> AllNodes G = AllNodes F \<and>
     expected_set G = expected_set F"

lemma link_step_only: "links_only F (link_step l F)"
proof (cases l)
  case (AddLink p q)
  have "link_part (linked F p q x) = link_part (pdata F x)" for x by (simp add: link_part_def linked_def)
  then show ?thesis
    by (simp add: AddLink links_only_def add_link_cases count_link_def expected_set_def)
next
  case (RemoveLink p)
  have "link_part (unlinked d) = link_part d" for d by (simp add: link_part_def unlinked_def)
  then show ?thesis
    by (simp add: RemoveLink links_only_def remove_link_cases count_link_def expected_set_def split: option.split)
qed

lemma link_step_neighbor:
  "neighbor (pdata (link_step l F) x) \<noteq> None \<Longrightarrow> neighbor (pdata F x) \<noteq> None \<or> (\<exists>p q. l = AddLink p q \<and> (x = p \<or> x = q))"
  by (cases l) (auto simp: add_link_cases remove_link_cases linked_def unlinked_def split: option.splits if_splits)

lemma link_keeps:
  assumes ok: "fabric_ok M" and b: "build_ok (Link l) M"
  shows "fabric_ok (M\<lparr>fab := link_step l (fab M)\<rparr>) \<and> lost (M\<lparr>fab := link_step l (fab M)\<rparr>) = lost M \<and>
    port_set (M\<lparr>fab := link_step l (fab M)\<rparr>) = port_set M"
proof -
  let ?F = "link_step l (fab M)" and ?M = "M\<lparr>fab := link_step l (fab M)\<rparr>"
  have o: "links_only (fab M) ?F" by (rule link_step_only)
  have p: "PortNum (pdata ?F q) = PortNum (port_of M q) \<and> nodep (pdata ?F q) = nodep (port_of M q) \<and>
    PortGUID (pdata ?F q) = PortGUID (port_of M q) \<and> EndPortLID (pdata ?F q) = EndPortLID (port_of M q) \<and>
    PortState (pdata ?F q) = PortState (port_of M q) \<and> PortInfo_LMC (pdata ?F q) = PortInfo_LMC (port_of M q)" for q
  proof -
    have "link_part (pdata ?F q) = link_part (port_of M q)" using o by (simp add: links_only_def)
    then show ?thesis by (cases "pdata ?F q"; cases "port_of M q") (simp add: link_part_def)
  qed
  have s: "same_store M ?M" using o p by (simp add: same_store_defs links_only_def)
  note S = same_sets [OF s]
  have "store_ok M" and l: "linked_in (port_set M) (fab M)" using ok by (simp_all add: fabric_ok_def)
  then have "store_ok ?M" using store_same [OF _ s] store_memory by simp
  moreover have "lids_exact (port_set M) ?F"
    using ok o p by (subst lids_exact_cong [of _ "fab M"]) (auto simp: links_only_def fabric_ok_def)
  moreover have "linked_in (port_set M) ?F"
  proof -
    have "links_ok ?F" using l by (cases l) (simp_all add: linked_in_def add_link_ok remove_link_ok)
    moreover have "x \<in> port_set M" if "neighbor (pdata ?F x) \<noteq> None" for x
      using link_step_neighbor [OF that] l b by (auto simp: linked_in_def build_ok_def)
    ultimately show ?thesis by (simp add: linked_in_def)
  qed
  ultimately show ?thesis using S(4,6) by (simp add: fabric_ok_def lost_def)
qed

subsection \<open>Every program keeps the invariant\<close>

lemma build_step:
  assumes ok: "fabric_ok M" and alloc: "all_alloc alloc" and b: "build_ok op M"
  shows "\<exists>M'. build_exec alloc op M = Some M' \<and> fabric_ok M' \<and> lost M \<subseteq> lost M' \<and> ff_stats M' = ff_stats M \<and>
    (\<not> ff_stats M \<longrightarrow> lost M' = lost M)"
proof (cases op)
  case (AddNode r)
  then show ?thesis using add_node_correct [OF ok, of r] by (auto simp: build_exec_def added_node_def)
next
  case (AddPort n guid r)
  then show ?thesis using add_port_correct [OF ok _ _ alloc, of n guid r] b
    by (auto simp: build_exec_def build_ok_def added_port_def Let_def split: option.splits)
next
  case (Link l)
  then show ?thesis using link_keeps [OF ok, of l] b by (auto simp: build_exec_def)
next
  case (FreeNode n)
  have st: "store_ok M" and e: "lids_exact (port_set M) (fab M)" using ok by (simp_all add: fabric_ok_def)
  have n: "n \<in> node_set M" using b FreeNode by (simp add: build_ok_def)
  from NodeDataFree_correct [OF st e n] obtain M' where M': "NodeDataFree n M = Some M'" "node_gone M n M'" by blast
  have "fabric_ok M'" using node_gone_links [OF ok n M'(2)] b FreeNode by (simp add: build_ok_def)
  then show ?thesis using M' node_gone_ok(2) [OF st n M'(2)] node_goneD(11) [OF M'(2)] FreeNode by (simp add: build_exec_def)
qed

lemma built_ok:
  assumes "built alloc M M'" "fabric_ok M" "all_alloc alloc"
  shows "fabric_ok M' \<and> lost M \<subseteq> lost M' \<and> ff_stats M' = ff_stats M \<and> (\<not> ff_stats M \<longrightarrow> lost M' = lost M)"
  using assms
proof (induction rule: built.induct)
  case (step M1 op M2)
  then show ?case using build_step [of M1 alloc op] by auto
qed simp

lemma built_trans: "built alloc M M1 \<Longrightarrow> built alloc M1 M2 \<Longrightarrow> built alloc M M2"
  by (rotate_tac, induction rule: built.induct) (auto intro: built.step)

subsection \<open>The lists\<close>

lemma fold_ports: "fold (\<lambda>(k, p) F. F\<lparr>AllPorts := AllPorts F @ [p]\<rparr>) m F = F\<lparr>AllPorts := AllPorts F @ map snd m\<rparr>"
  by (induction m arbitrary: F) auto

definition nodes_of_type :: "fabric_data \<Rightarrow> uint8 \<Rightarrow> node list" where
  "nodes_of_type F t = filter (\<lambda>n. NodeType (ndata F n) = t) (map snd (AllNodes F))"

definition ports_in_order :: "fabric_data \<Rightarrow> port list" where
  "ports_in_order F = concat (map (\<lambda>(k, n). map snd (NodePorts (ndata F n))) (AllNodes F))"

lemma BuildFabricDataLists_eq:
  "BuildFabricDataLists F = F\<lparr>AllFIs := AllFIs F @ nodes_of_type F NODE_FI, AllSWs := AllSWs F @ nodes_of_type F NODE_SW,
     AllPorts := if AllPorts F = [] then ports_in_order F else AllPorts F\<rparr>"
proof -
  have key: "fold (\<lambda>(k, n). list_node b n) ns F = F\<lparr>AllFIs := AllFIs F @ filter (\<lambda>n. NodeType (ndata F n) = NODE_FI) (map snd ns),
      AllSWs := AllSWs F @ filter (\<lambda>n. NodeType (ndata F n) = NODE_SW) (map snd ns),
      AllPorts := AllPorts F @ (if b then concat (map (\<lambda>(k, n). map snd (NodePorts (ndata F n))) ns) else [])\<rparr>" for b ns F
  proof (induction ns arbitrary: F)
    case (Cons e ns)
    then show ?case by (cases e) (auto simp: list_node_def Let_def fold_ports)
  qed simp
  show ?thesis using key [of "AllPorts F = []" "AllNodes F" F]
    unfolding BuildFabricDataLists_def nodes_of_type_def ports_in_order_def Let_def by (cases "AllPorts F = []") simp_all
qed

definition port_before :: "fabric_data \<Rightarrow> port \<Rightarrow> port \<Rightarrow> bool" where
  "port_before F p q \<longleftrightarrow> NodeGUID (port_node F p) < NodeGUID (port_node F q) \<or>
     NodeGUID (port_node F p) = NodeGUID (port_node F q) \<and> PortNum (pdata F p) < PortNum (pdata F q)"

definition node_before :: "fabric_data \<Rightarrow> node \<Rightarrow> node \<Rightarrow> bool" where
  "node_before F m n \<longleftrightarrow> NodeGUID (ndata F m) < NodeGUID (ndata F n)"

lemma omap_set: "omap_ok m \<Longrightarrow> (k, v) \<in> set m \<longleftrightarrow> omap_get k m = Some v"
  by (rule omap_entry)

lemma nodes_sorted:
  assumes "store_ok M"
  shows "sorted_wrt (node_before (fab M)) (map snd (AllNodes (fab M)))" "snd ` set (AllNodes (fab M)) = node_set M"
proof -
  have on: "omap_ok (AllNodes (fab M))" using assms by (simp add: store_ok_def)
  have g: "NodeGUID (node_of M n) = k" if "(k, n) \<in> set (AllNodes (fab M))" for k n
    using that omap_entry [OF on] assms by (auto simp: store_ok_def node_ok_def)
  have "sorted_wrt (\<lambda>e f. fst e < fst f) (AllNodes (fab M))" using on by (simp add: omap_ok_def sorted_wrt_map)
  then have "sorted_wrt (\<lambda>e f. node_before (fab M) (snd e) (snd f)) (AllNodes (fab M))"
    by (rule sorted_wrt_mono_rel [rotated]) (auto simp: node_before_def g)
  then show "sorted_wrt (node_before (fab M)) (map snd (AllNodes (fab M)))" by (simp add: sorted_wrt_map)
  show "snd ` set (AllNodes (fab M)) = node_set M"
    using omap_value [OF on] by (auto simp: node_set_def)
qed

lemma sorted_concat:
  assumes "sorted_wrt (\<lambda>e f. \<forall>x \<in> set (g e). \<forall>y \<in> set (g f). R x y) es" "\<And>e. e \<in> set es \<Longrightarrow> sorted_wrt R (g e)"
  shows "sorted_wrt R (concat (map g es))"
  using assms by (induction es) (auto simp: sorted_wrt_append)

lemma ports_sorted:
  assumes st: "store_ok M"
  shows "sorted_wrt (port_before (fab M)) (ports_in_order (fab M))" "set (ports_in_order (fab M)) = port_set M"
proof -
  have on: "omap_ok (AllNodes (fab M))" using st by (simp add: store_ok_def)
  have n: "node_ok M k n" if "(k, n) \<in> set (AllNodes (fab M))" for k n
    using that omap_entry [OF on] st by (auto simp: store_ok_def)
  have p: "nodep (port_of M p) = n \<and> NodeGUID (node_of M n) = k \<and> j = ucast (PortNum (port_of M p))"
    if "(k, n) \<in> set (AllNodes (fab M))" "(j, p) \<in> set (NodePorts (node_of M n))" for k n j p
    using n [OF that(1)] that(2) omap_entry [of "NodePorts (node_of M n)" j p] by (auto simp: node_ok_def)
  have lt: "(ucast (a :: uint16) :: uint64) < ucast b \<longleftrightarrow> a < b" for a b by transfer (simp add: take_bit_take_bit)
  have 1: "sorted_wrt (port_before (fab M)) (map snd (NodePorts (node_of M n)))" if e: "(k, n) \<in> set (AllNodes (fab M))" for k n
  proof -
    have "sorted_wrt (\<lambda>e f. fst e < fst f) (NodePorts (node_of M n))"
      using n [OF e] by (simp add: node_ok_def omap_ok_def sorted_wrt_map)
    then have "sorted_wrt (\<lambda>e f. port_before (fab M) (snd e) (snd f)) (NodePorts (node_of M n))"
      by (rule sorted_wrt_mono_rel [rotated]) (use p [OF e] lt in \<open>fastforce simp: port_before_def\<close>)
    then show ?thesis by (simp add: sorted_wrt_map)
  qed
  have "sorted_wrt (\<lambda>e f. fst e < fst f) (AllNodes (fab M))" using on by (simp add: omap_ok_def sorted_wrt_map)
  then have 2: "sorted_wrt (\<lambda>e f. \<forall>x \<in> set (map snd (NodePorts (node_of M (snd e)))).
      \<forall>y \<in> set (map snd (NodePorts (node_of M (snd f)))). port_before (fab M) x y) (AllNodes (fab M))"
    by (rule sorted_wrt_mono_rel [rotated]) (use p in \<open>fastforce simp: port_before_def\<close>)
  show "sorted_wrt (port_before (fab M)) (ports_in_order (fab M))"
  proof -
    let ?g = "\<lambda>e. map snd (NodePorts (node_of M (snd e)))"
    have "sorted_wrt (port_before (fab M)) (?g e)" if "e \<in> set (AllNodes (fab M))" for e
      using 1 [of "fst e" "snd e"] that by simp
    from sorted_concat [where g = ?g, OF 2 this]
    have "sorted_wrt (port_before (fab M)) (concat (map ?g (AllNodes (fab M))))" by blast
    then show ?thesis by (simp add: ports_in_order_def case_prod_unfold)
  qed
  have "snd ` set (NodePorts (node_of M n)) = ports_at M n" if "(k, n) \<in> set (AllNodes (fab M))" for k n
    using omap_value [of "NodePorts (node_of M n)"] n [OF that] by (auto simp: ports_at_def node_ok_def)
  then have at: "snd ` set (NodePorts (node_of M (snd e))) = ports_at M (snd e)" if "e \<in> set (AllNodes (fab M))" for e
    using that by (metis prod.collapse)
  have "set (ports_in_order (fab M)) = (\<Union>e \<in> set (AllNodes (fab M)). snd ` set (NodePorts (node_of M (snd e))))"
    by (simp add: ports_in_order_def case_prod_unfold)
  also have "\<dots> = (\<Union>e \<in> set (AllNodes (fab M)). ports_at M (snd e))" using at by simp
  also have "\<dots> = port_set M" by (simp add: port_set_def nodes_sorted(2) [OF st, symmetric])
  finally show "set (ports_in_order (fab M)) = port_set M" .
qed

end
