(* ===== verification/Discovery.thy ===== *)
theory Discovery
  imports FabricBuild_System
begin

text \<open>
  What discovery makes of the records it has got over SNMP, \<^verbatim>\<open>Topology/hpnmgt_snmp.c\<close>: the nodes and
  ports of each host enter the fabric (\<^verbatim>\<open>process_dev_data\<close>), then the links are found from what the
  switch ports report about their neighbours (\<^verbatim>\<open>process_fab_data\<close>).

  A \<open>raw_node\<close> is what is kept of a node between the two steps.  The allocations of the map objects
  are arguments: by port for the two maps of ports, by node for the map of nodes.  Messages, among them
  the one about the subtypes of port ids, are left out.
\<close>

datatype hmgt_status =
    HMGT_STATUS_SUCCESS
  | HMGT_STATUS_ERROR
  | HMGT_STATUS_INVALID_PARAMETER
  | HMGT_STATUS_INSUFFICIENT_MEMORY
  | HMGT_STATUS_UNAVAILABLE
  | HMGT_STATUS_PARTIALLY_PROCESSED

text \<open>\<^verbatim>\<open>FSTATUS\<close> and \<^verbatim>\<open>HMGT_STATUS_T\<close> are both numbers; only these two values of the former occur.\<close>

definition hmgt_of :: "fstatus \<Rightarrow> hmgt_status" where
  "hmgt_of st = (if st = FSUCCESS then HMGT_STATUS_SUCCESS else HMGT_STATUS_ERROR)"

record raw_node =
  rn_node :: node_record
  rn_LID :: uint32
  rn_ifIndex :: uint32
  rn_nodeData :: "node option"
  rn_ports :: "portinfo_record list option"
  rn_portIdMap :: "port omap"

definition get_hash :: "string \<Rightarrow> nat \<Rightarrow> uint64" where
  "get_hash str len = foldl (\<lambda>res c. (push_bit 5 res + res) + of_char c) 5381 (take len str)"

subsection \<open>Nodes and ports of a host\<close>

definition add_raw_port ::
  "(nat \<Rightarrow> bool) \<Rightarrow> (port \<Rightarrow> bool \<times> bool) \<Rightarrow> node \<Rightarrow> node_record \<Rightarrow> portinfo_record \<Rightarrow>
   hmgt_status \<times> port omap \<times> port omap \<times> fabric_state \<Rightarrow> (hmgt_status \<times> port omap \<times> port omap \<times> fabric_state) option" where
  "add_raw_port alloc objs n nodeRec r = (\<lambda>(status, portIdMap, ifIndexMap, M).
     if pr_LocalPortId r \<noteq> [] \<and> pr_PortNum r = 0 then Some (status, portIdMap, ifIndexMap, M)
     else do {
       (res, M) \<leftarrow> NodeDataAddPort alloc n (nr_NodeGUID nodeRec) r M;
       case res of
         None \<Rightarrow> Some (HMGT_STATUS_ERROR, portIdMap, ifIndexMap, M)
       | Some p \<Rightarrow>
           if nr_NodeType nodeRec = NODE_SW \<and> pr_PortNum r = 0 then Some (status, portIdMap, ifIndexMap, M)
           else
             let key = get_hash (pr_LocalPortId r) TINY_STR_ARRAY_SIZE;
                 (status, portIdMap) = (if fst (objs p) then (status, omap_insert key p portIdMap)
                   else (HMGT_STATUS_INSUFFICIENT_MEMORY, portIdMap));
                 (status, ifIndexMap) = (if snd (objs p) then (status, omap_insert (ucast (pr_LID r)) p ifIndexMap)
                   else (HMGT_STATUS_INSUFFICIENT_MEMORY, ifIndexMap))
             in Some (status, portIdMap, ifIndexMap, M) })"

fun add_raw_ports ::
  "(nat \<Rightarrow> bool) \<Rightarrow> (port \<Rightarrow> bool \<times> bool) \<Rightarrow> node \<Rightarrow> node_record \<Rightarrow> portinfo_record list \<Rightarrow>
   hmgt_status \<times> port omap \<times> port omap \<times> fabric_state \<Rightarrow> (hmgt_status \<times> port omap \<times> port omap \<times> fabric_state) option" where
  "add_raw_ports alloc objs n nodeRec [] s = Some s"
| "add_raw_ports alloc objs n nodeRec (r # rs) s = do {
     s \<leftarrow> add_raw_port alloc objs n nodeRec r s;
     add_raw_ports alloc objs n nodeRec rs s }"

definition add_raw_node ::
  "(nat \<Rightarrow> bool) \<Rightarrow> (port \<Rightarrow> bool \<times> bool) \<Rightarrow> raw_node \<Rightarrow> hmgt_status \<times> port omap \<times> fabric_state \<Rightarrow>
   (raw_node \<times> hmgt_status \<times> port omap \<times> fabric_state) option" where
  "add_raw_node alloc objs raw = (\<lambda>(status, ifIndexMap, M).
     let raw = raw\<lparr>rn_portIdMap := []\<rparr> in
     if \<not> ff_downportinfo M \<and> rn_LID raw = 0 then Some (raw, status, ifIndexMap, M)
     else do {
       (res, M) \<leftarrow> FabricDataAddNode (rn_node raw) M;
       case res of
         None \<Rightarrow> Some (raw, HMGT_STATUS_ERROR, ifIndexMap, M)
       | Some (n, newNode) \<Rightarrow> do {
           let raw = raw\<lparr>rn_nodeData := Some n\<rparr>;
           (status, portIdMap, ifIndexMap, M) \<leftarrow>
             (case rn_ports raw of
                None \<Rightarrow> Some (status, [], ifIndexMap, M)
              | Some rs \<Rightarrow> add_raw_ports alloc objs n (rn_node raw) rs (status, [], ifIndexMap, M));
           Some (raw\<lparr>rn_portIdMap := portIdMap\<rparr>, status, ifIndexMap, M) } })"

fun add_raw_nodes ::
  "(nat \<Rightarrow> bool) \<Rightarrow> (port \<Rightarrow> bool \<times> bool) \<Rightarrow> raw_node list \<Rightarrow> hmgt_status \<times> port omap \<times> fabric_state \<Rightarrow>
   (raw_node list \<times> hmgt_status \<times> port omap \<times> fabric_state) option" where
  "add_raw_nodes alloc objs [] (status, ifs, M) = Some ([], status, ifs, M)"
| "add_raw_nodes alloc objs (raw # raws) s = do {
     (raw, s) \<leftarrow> add_raw_node alloc objs raw s;
     (raws, s) \<leftarrow> add_raw_nodes alloc objs raws s;
     Some (raw # raws, s) }"

text \<open>
  The list of nodes and the status that the functions which read the SNMP results have returned are
  arguments, as is what the function that fills the counters returns.
\<close>

definition process_dev_data ::
  "(nat \<Rightarrow> bool) \<Rightarrow> (port \<Rightarrow> bool \<times> bool) \<Rightarrow> hmgt_status \<times> raw_node list \<Rightarrow> (port omap \<Rightarrow> hmgt_status) \<Rightarrow>
   fabric_state \<Rightarrow> (raw_node list option \<times> fabric_state) option" where
  "process_dev_data alloc objs populated counters M =
     (case populated of (status, nodeList) \<Rightarrow>
        if status \<noteq> HMGT_STATUS_SUCCESS then Some (None, M)
        else do {
          (nodeList, status, ifIndexMap, M) \<leftarrow> add_raw_nodes alloc objs nodeList (status, [], M);
          let status = (if ff_stats M then counters ifIndexMap else status);
          if status \<noteq> HMGT_STATUS_SUCCESS then Some (None, M)
          else Some (Some (map (\<lambda>raw. raw\<lparr>rn_ports := None\<rparr>) nodeList), M) })"

subsection \<open>Links\<close>

text \<open>The map from the GUIDs of the nodes to the nodes with their maps of ports.\<close>

definition map_raw_node ::
  "(node \<Rightarrow> bool) \<Rightarrow> fabric_state \<Rightarrow> raw_node \<Rightarrow> (node \<times> port omap) omap \<times> hmgt_status \<Rightarrow> (node \<times> port omap) omap \<times> hmgt_status" where
  "map_raw_node obj M raw = (\<lambda>(nodeMap, status).
     case rn_nodeData raw of
       None \<Rightarrow> (nodeMap, status)
     | Some n \<Rightarrow> if obj n then (omap_insert (NodeGUID (node_of M n)) (n, rn_portIdMap raw) nodeMap, status)
                 else (nodeMap, HMGT_STATUS_INSUFFICIENT_MEMORY))"

text \<open>The port that is reported to be at the other end.\<close>

definition reported :: "(node \<times> port omap) omap \<Rightarrow> fabric_state \<Rightarrow> port \<Rightarrow> (node \<times> port) option" where
  "reported nodeMap M p =
     (case omap_get (NeighborNodeGUID (pinfo M p)) nodeMap of
        None \<Rightarrow> None
      | Some (m, portIdMap) \<Rightarrow>
          map_option (Pair m) (omap_get (get_hash (NeighborPortId (pinfo M p)) TINY_STR_ARRAY_SIZE) portIdMap))"

definition set_neighbor_info :: "node \<Rightarrow> port \<Rightarrow> node \<Rightarrow> port \<Rightarrow> fabric_state \<Rightarrow> fabric_state" where
  "set_neighbor_info n p m q M =
     (let M = (if NodeType (node_of M m) = NODE_FI
               then M\<lparr>pinfo := (pinfo M)(q := \<lparr>NeighborNodeGUID = NodeGUID (node_of M n),
                  NeighborPortId = take (TINY_STR_ARRAY_SIZE - 1) (LocalPortId (port_of M p)),
                  NeighborPortNum = PortNum (port_of M p), NeighborNodeType = 1\<rparr>)\<rparr>
               else M)
      in M\<lparr>pinfo := (pinfo M)(p := (pinfo M p)\<lparr>NeighborPortNum := PortNum (port_of M q)\<rparr>)\<rparr>)"

definition find_link ::
  "(node \<times> port omap) omap \<Rightarrow> node \<Rightarrow> port \<Rightarrow> hmgt_status \<times> fabric_state \<Rightarrow> hmgt_status \<times> fabric_state" where
  "find_link nodeMap n p = (\<lambda>(status, M).
     if NodeType (node_of M n) = NODE_SW \<and> PortNum (port_of M p) = 0 then (status, M)
     else case reported nodeMap M p of
         None \<Rightarrow> (HMGT_STATUS_PARTIALLY_PROCESSED, M)
       | Some (m, q) \<Rightarrow>
           let M = set_neighbor_info n p m q M
           in if neighbor (port_of M p) \<noteq> Some q \<or> neighbor (port_of M q) \<noteq> Some p
              then (case FabricDataAddLink (fab M) p q of (st, F) \<Rightarrow> (hmgt_of st, M\<lparr>fab := F\<rparr>))
              else (status, M))"

definition find_links ::
  "(node \<times> port omap) omap \<Rightarrow> raw_node \<Rightarrow> hmgt_status \<times> fabric_state \<Rightarrow> hmgt_status \<times> fabric_state" where
  "find_links nodeMap raw = (\<lambda>(status, M).
     case rn_nodeData raw of
       None \<Rightarrow> (status, M)
     | Some n \<Rightarrow> if NodeType (node_of M n) = NODE_FI then (status, M)
                 else fold (\<lambda>(k, p). find_link nodeMap n p) (rn_portIdMap raw) (status, M))"

definition process_fab_data ::
  "(node \<Rightarrow> bool) \<Rightarrow> raw_node list option list \<Rightarrow> fabric_state \<Rightarrow> hmgt_status \<times> fabric_state" where
  "process_fab_data obj allNodes M =
     (let raws = concat (map (case_option [] id) allNodes);
          (nodeMap, status) = fold (map_raw_node obj M) raws ([], HMGT_STATUS_SUCCESS)
      in fold (find_links nodeMap) raws (status, M))"

subsection \<open>A sweep\<close>

text \<open>
  What becomes of that status in \<^verbatim>\<open>collect_data\<close>, whose cleanup always succeeds; the other failures only leave a message.
\<close>

definition collect_status :: "hmgt_status \<Rightarrow> hmgt_status" where
  "collect_status fstatus2 = (if fstatus2 = HMGT_STATUS_ERROR then HMGT_STATUS_ERROR else HMGT_STATUS_SUCCESS)"

text \<open>
  The hosts are processed in the order in which their last responses come in, each with its own list.
\<close>

type_synonym response = "nat \<times> (hmgt_status \<times> raw_node list) \<times> (port omap \<Rightarrow> hmgt_status)"

fun process_responses ::
  "(nat \<Rightarrow> bool) \<Rightarrow> (port \<Rightarrow> bool \<times> bool) \<Rightarrow> response list \<Rightarrow> (nat \<Rightarrow> raw_node list option) \<times> fabric_state \<Rightarrow>
   ((nat \<Rightarrow> raw_node list option) \<times> fabric_state) option" where
  "process_responses alloc objs [] s = Some s"
| "process_responses alloc objs ((i, populated, counters) # rs) (data, M) = do {
     (d, M) \<leftarrow> process_dev_data alloc objs populated counters M;
     process_responses alloc objs rs (data(i := d), M) }"

definition collect_data ::
  "(nat \<Rightarrow> bool) \<Rightarrow> (port \<Rightarrow> bool \<times> bool) \<Rightarrow> (node \<Rightarrow> bool) \<Rightarrow> nat \<Rightarrow> response list \<Rightarrow> fabric_state \<Rightarrow>
   (hmgt_status \<times> fabric_state) option" where
  "collect_data alloc objs obj numHosts responses M = do {
     (data, M) \<leftarrow> process_responses alloc objs responses ((\<lambda>_. None), M);
     let (fstatus2, M) = process_fab_data obj (map data [0..<numHosts]) M;
     Some (collect_status fstatus2, M) }"

end
