(* ===== verification/Discovery_Props.thy ===== *)
theory Discovery_Props
  imports Discovery
begin

text \<open>
  Discovery keeps the invariant of the fabric, the records it keeps refer to nodes and ports of the
  fabric, and the links it makes are those that are reported.
\<close>

subsection \<open>Fabrics that have grown\<close>

definition grown :: "(nat \<Rightarrow> bool) \<Rightarrow> fabric_state \<Rightarrow> fabric_state \<Rightarrow> bool" where
  "grown alloc M M' \<longleftrightarrow> built alloc M M' \<and> fabric_ok M' \<and> node_set M \<subseteq> node_set M' \<and>
     (\<forall>n \<in> node_set M. ports_at M n \<subseteq> ports_at M' n \<and> node_class (node_of M' n) = node_class (node_of M n)) \<and>
     (\<forall>p \<in> port_set M. port_of M' p = port_of M p) \<and>
     (\<forall>p. neighbor (port_of M' p) = neighbor (port_of M p)) \<and>
     ff_stats M' = ff_stats M \<and> ff_downportinfo M' = ff_downportinfo M"

lemma grown_refl: "fabric_ok M \<Longrightarrow> grown alloc M M"
  by (simp add: grown_def built.start)

lemma grown_port_set: "grown alloc M M' \<Longrightarrow> port_set M \<subseteq> port_set M'"
  unfolding grown_def port_set_def by blast

lemma grown_trans:
  assumes "grown alloc M M1" "grown alloc M1 M2"
  shows "grown alloc M M2"
proof -
  have "built alloc M M2" using built_trans assms by (auto simp: grown_def)
  then show ?thesis using assms grown_port_set [OF assms(1)] unfolding grown_def by (smt (verit) subset_iff)
qed

lemma neighbor_kept:
  assumes "fabric_ok M" "fabric_ok M'" "port_set M \<subseteq> port_set M'" "\<forall>p \<in> port_set M. port_of M' p = port_of M p"
    and "\<And>p. p \<in> port_set M' - port_set M \<Longrightarrow> neighbor (port_of M' p) = None"
  shows "neighbor (port_of M' p) = neighbor (port_of M p)"
  using assms linked_none [of "port_set M" "fab M" p] linked_none [of "port_set M'" "fab M'" p]
  by (cases "p \<in> port_set M"; cases "p \<in> port_set M'") (auto simp: fabric_ok_def)

lemma added_node_grown:
  assumes ok: "fabric_ok M" and r: "FabricDataAddNode r M = Some (res, M')" and a: "added_node M r res M'"
  shows "grown alloc M M'"
proof -
  have b: "built alloc M M'"
    by (rule built.step [OF built.start, of "AddNode r"]) (simp_all add: build_ok_def build_exec_def r)
  have f: "fabric_ok M'" "port_set M' = port_set M" "\<forall>n \<in> node_set M. node_of M' n = node_of M n"
    "\<forall>p \<in> port_set M. port_of M' p = port_of M p" "ff_stats M' = ff_stats M" "ff_downportinfo M' = ff_downportinfo M"
    using a by (simp_all add: added_node_def)
  have on: "omap_ok (AllNodes (fab M))" using ok by (simp add: fabric_ok_def store_ok_def)
  have n: "node_set M \<subseteq> node_set M'"
    using a omap_get_insert [OF on] unfolding added_node_def node_set_def
    by (auto split: option.splits prod.splits if_splits) (metis option.distinct(1))+
  have nb: "neighbor (port_of M' p) = neighbor (port_of M p)" for p
    by (rule neighbor_kept [OF ok f(1)]) (use f in auto)
  show ?thesis unfolding grown_def using b f n nb by (simp add: ports_at_def)
qed

lemma added_port_grown:
  assumes ok: "fabric_ok M" and n: "n \<in> node_set M" "portinfo_ok M n guid r"
    and r: "NodeDataAddPort alloc n guid r M = Some (res, M')" and a: "added_port M n guid r res M'"
  shows "grown alloc M M'" "res = Some p \<Longrightarrow> p \<in> ports_at M' n"
proof -
  have b: "built alloc M M'"
    by (rule built.step [OF built.start, of "AddPort n guid r"]) (simp_all add: build_ok_def build_exec_def r n)
  have f: "fabric_ok M'" "AllNodes (fab M') = AllNodes (fab M)" "\<forall>p \<in> port_set M. port_of M' p = port_of M p"
    "ff_stats M' = ff_stats M" "ff_downportinfo M' = ff_downportinfo M"
    using a by (simp_all add: added_port_def)
  have ns: "node_set M' = node_set M" using f(2) by (simp add: node_set_def)
  let ?k = "ucast (PortNum (port_record M n guid r)) :: uint64"
  have po: "omap_ok (NodePorts (node_of M n))" using node_ports_ok [OF _ n(1)] ok by (simp add: fabric_ok_def)
  have i: "ports_at M m \<subseteq> ports_at M' m \<and> node_class (node_of M' m) = node_class (node_of M m)" for m
  proof (cases res)
    case None
    then show ?thesis using a by (simp add: added_port_def Let_def ports_at_def)
  next
    case (Some p)
    then have "node_of M' = (node_of M)(n := (node_of M n)\<lparr>NodePorts := omap_insert ?k p (NodePorts (node_of M n))\<rparr>)"
      "omap_get ?k (NodePorts (node_of M n)) = None" using a by (simp_all add: added_port_def Let_def)
    then show ?thesis using omap_get_insert [OF po, of _ ?k p]
      by (auto simp: ports_at_def node_class_def) (metis option.distinct(1))
  qed
  have q: "port_set M \<subseteq> port_set M'" "p \<in> port_set M' - port_set M \<Longrightarrow> neighbor (port_of M' p) = None" for p
    using a by (auto simp: added_port_def Let_def port_record_def split: option.splits)
  have nb: "neighbor (port_of M' p) = neighbor (port_of M p)" for p
    by (rule neighbor_kept [OF ok f(1) q(1) f(3)]) (rule q(2))
  show "grown alloc M M'" unfolding grown_def using b f ns i nb by simp
  show "p \<in> ports_at M' n" if "res = Some p"
    using a that omap_get_insert [OF po, of ?k ?k p] by (auto simp: added_port_def Let_def ports_at_def)
qed

subsection \<open>Nodes and ports of a host\<close>

text \<open>Port records that may be added whatever the node, see \<open>portinfo_ok\<close>, or are skipped.\<close>

definition record_ok :: "bool \<Rightarrow> portinfo_record \<Rightarrow> bool" where
  "record_ok downportinfo r \<longleftrightarrow> pr_LMC r < 16 \<and> (pr_EndPortLID r = 0 \<longrightarrow> downportinfo) \<and>
     (pr_PortNum r = 0 \<longrightarrow> pr_LocalPortId r \<noteq> [] \<or> pr_PortState r \<noteq> ETH_PORT_NOP)"

lemma record_portinfo:
  "record_ok (ff_downportinfo M) r \<Longrightarrow> \<not> (pr_LocalPortId r \<noteq> [] \<and> pr_PortNum r = 0) \<Longrightarrow> portinfo_ok M n guid r"
  by (auto simp: record_ok_def portinfo_ok_def port_record_def up_port_def Let_def)

definition raw_in :: "fabric_state \<Rightarrow> raw_node \<Rightarrow> bool" where
  "raw_in M raw \<longleftrightarrow> (\<forall>n. rn_nodeData raw = Some n \<longrightarrow>
     n \<in> node_set M \<and> omap_ok (rn_portIdMap raw) \<and> snd ` set (rn_portIdMap raw) \<subseteq> ports_at M n)"

lemma raw_in_grown: "raw_in M raw \<Longrightarrow> grown alloc M M' \<Longrightarrow> raw_in M' raw"
  unfolding raw_in_def grown_def by blast

lemma omap_insert_values: "snd ` set (omap_insert k v m) \<subseteq> insert v (snd ` set m)"
  by (induction k v m rule: omap_insert.induct) auto

lemma add_raw_port_correct:
  assumes ok: "fabric_ok M" and n: "n \<in> node_set M" and r: "record_ok (ff_downportinfo M) r" and al: "all_alloc alloc"
    and m: "omap_ok ids" "snd ` set ids \<subseteq> ports_at M n"
  shows "\<exists>st ids' ifs' M'. add_raw_port alloc objs n nodeRec r (status, ids, ifs, M) = Some (st, ids', ifs', M') \<and>
    grown alloc M M' \<and> omap_ok ids' \<and> snd ` set ids' \<subseteq> ports_at M' n"
proof (cases "pr_LocalPortId r \<noteq> [] \<and> pr_PortNum r = 0")
  case True
  then show ?thesis using m grown_refl [OF ok] by (simp add: add_raw_port_def)
next
  case False
  from add_port_correct [OF ok n record_portinfo [OF r False] al, of "nr_NodeGUID nodeRec"] obtain res M' where
    A: "NodeDataAddPort alloc n (nr_NodeGUID nodeRec) r M = Some (res, M')" "added_port M n (nr_NodeGUID nodeRec) r res M'"
    by blast
  note G = added_port_grown [OF ok n record_portinfo [OF r False] A]
  have s: "snd ` set ids \<subseteq> ports_at M' n" using m(2) n G(1) unfolding grown_def by blast
  show ?thesis
  proof (cases res)
    case None
    then show ?thesis using False A(1) G(1) m(1) s by (auto simp: add_raw_port_def)
  next
    case (Some p)
    have "snd ` set (omap_insert k p ids) \<subseteq> ports_at M' n" for k
      using omap_insert_values [of k p ids] s G(2) [OF Some] by blast
    then show ?thesis using False A(1) G(1) Some m(1) s omap_insert_ok [OF m(1)]
      by (auto simp: add_raw_port_def Let_def)
  qed
qed

lemma add_raw_ports_correct:
  assumes "fabric_ok M" "n \<in> node_set M" "\<forall>r \<in> set rs. record_ok (ff_downportinfo M) r" "all_alloc alloc"
    and "omap_ok ids" "snd ` set ids \<subseteq> ports_at M n"
  shows "\<exists>st ids' ifs' M'. add_raw_ports alloc objs n nodeRec rs (status, ids, ifs, M) = Some (st, ids', ifs', M') \<and>
    grown alloc M M' \<and> omap_ok ids' \<and> snd ` set ids' \<subseteq> ports_at M' n"
  using assms
proof (induction rs arbitrary: status ids ifs M)
  case Nil
  then show ?case using grown_refl [OF Nil.prems(1)] by simp
next
  case (Cons r rs)
  from add_raw_port_correct [OF Cons.prems(1,2) _ Cons.prems(4-6), of r objs nodeRec status ifs] Cons.prems(3)
  obtain st1 ids1 ifs1 M1 where
    1: "add_raw_port alloc objs n nodeRec r (status, ids, ifs, M) = Some (st1, ids1, ifs1, M1)"
    "grown alloc M M1" "omap_ok ids1" "snd ` set ids1 \<subseteq> ports_at M1 n" by auto
  have "fabric_ok M1" "n \<in> node_set M1" "\<forall>r \<in> set rs. record_ok (ff_downportinfo M1) r"
    using 1(2) Cons.prems(2,3) by (auto simp: grown_def)
  from Cons.IH [OF this Cons.prems(4) 1(3,4), of st1 ifs1] 1(1) grown_trans [OF 1(2)] show ?case by fastforce
qed

definition raw_records_ok :: "bool \<Rightarrow> raw_node \<Rightarrow> bool" where
  "raw_records_ok down raw \<longleftrightarrow> rn_nodeData raw = None \<and>
     (down \<or> rn_LID raw \<noteq> 0 \<longrightarrow> (\<forall>rs. rn_ports raw = Some rs \<longrightarrow> (\<forall>r \<in> set rs. record_ok down r)))"

lemma add_raw_node_correct:
  assumes ok: "fabric_ok M" and r: "raw_records_ok (ff_downportinfo M) raw" and al: "all_alloc alloc"
  shows "\<exists>raw' st ifs' M'. add_raw_node alloc objs raw (status, ifs, M) = Some (raw', st, ifs', M') \<and>
    grown alloc M M' \<and> raw_in M' raw'"
proof (cases "\<not> ff_downportinfo M \<and> rn_LID raw = 0")
  case True
  then show ?thesis using r grown_refl [OF ok] by (simp add: add_raw_node_def raw_in_def raw_records_ok_def)
next
  case False
  from add_node_correct [OF ok, of "rn_node raw"] obtain res M1 where
    A: "FabricDataAddNode (rn_node raw) M = Some (res, M1)" "added_node M (rn_node raw) res M1" by blast
  have g: "grown alloc M M1" by (rule added_node_grown [OF ok A])
  show ?thesis
  proof (cases res)
    case None
    then show ?thesis using False A(1) g r by (auto simp: add_raw_node_def Let_def raw_in_def raw_records_ok_def)
  next
    case (Some x)
    obtain n b where x: "x = (n, b)" by (cases x)
    have f: "fabric_ok M1" "ff_downportinfo M1 = ff_downportinfo M" using g by (simp_all add: grown_def)
    have n: "n \<in> node_set M1" using A(2) Some x by (auto simp: added_node_def intro: node_in)
    show ?thesis
    proof (cases "rn_ports raw")
      case None
      then show ?thesis using False A(1) Some x g n by (auto simp: add_raw_node_def Let_def raw_in_def)
    next
      case ports: (Some rs)
      then have "\<forall>r \<in> set rs. record_ok (ff_downportinfo M1) r" using r f False by (auto simp: raw_records_ok_def)
      then obtain st ids ifs' M' where
        R: "add_raw_ports alloc objs n (rn_node raw) rs (status, [], ifs, M1) = Some (st, ids, ifs', M')"
        "grown alloc M1 M'" "omap_ok ids" "snd ` set ids \<subseteq> ports_at M' n"
        using add_raw_ports_correct [OF f(1) n _ al, of rs "[]" objs "rn_node raw" status ifs] by auto
      have n': "n \<in> node_set M'" using R(2) n by (auto simp: grown_def)
      have g': "grown alloc M M'" by (rule grown_trans [OF g R(2)])
      have "add_raw_node alloc objs raw (status, ifs, M) =
          Some (raw\<lparr>rn_nodeData := Some n, rn_portIdMap := ids\<rparr>, st, ifs', M')"
        using A(1) Some x ports R(1) by (simp add: add_raw_node_def Let_def False)
      moreover have "raw_in M' (raw\<lparr>rn_nodeData := Some n, rn_portIdMap := ids\<rparr>)"
        using n' R(3,4) by (simp add: raw_in_def)
      ultimately show ?thesis using g' by blast
    qed
  qed
qed

lemma add_raw_nodes_correct:
  assumes "fabric_ok M" "\<forall>raw \<in> set raws. raw_records_ok (ff_downportinfo M) raw" "all_alloc alloc"
  shows "\<exists>raws' st ifs' M'. add_raw_nodes alloc objs raws (status, ifs, M) = Some (raws', st, ifs', M') \<and>
    grown alloc M M' \<and> (\<forall>raw \<in> set raws'. raw_in M' raw)"
  using assms
proof (induction raws arbitrary: status ifs M)
  case Nil
  then show ?case using grown_refl [OF Nil.prems(1)] by simp
next
  case (Cons raw raws)
  from add_raw_node_correct [OF Cons.prems(1) _ Cons.prems(3), of raw objs status ifs] Cons.prems(2)
  obtain raw1 st1 ifs1 M1 where
    1: "add_raw_node alloc objs raw (status, ifs, M) = Some (raw1, st1, ifs1, M1)" "grown alloc M M1" "raw_in M1 raw1" by auto
  have "fabric_ok M1" "\<forall>raw \<in> set raws. raw_records_ok (ff_downportinfo M1) raw"
    using 1(2) Cons.prems(2) by (auto simp: grown_def)
  from Cons.IH [OF this Cons.prems(3), of st1 ifs1] obtain raws2 st2 ifs2 M2 where
    2: "add_raw_nodes alloc objs raws (st1, ifs1, M1) = Some (raws2, st2, ifs2, M2)" "grown alloc M1 M2"
    "\<forall>raw \<in> set raws2. raw_in M2 raw" by blast
  then show ?case using 1 grown_trans [OF 1(2) 2(2)] raw_in_grown [OF 1(3) 2(2)] by simp
qed

lemma process_dev_data_correct:
  assumes "fabric_ok M" "\<forall>raw \<in> set raws. raw_records_ok (ff_downportinfo M) raw" "all_alloc alloc"
  shows "\<exists>res M'. process_dev_data alloc objs (status, raws) counters M = Some (res, M') \<and> grown alloc M M' \<and>
    (\<forall>nodeList. res = Some nodeList \<longrightarrow> (\<forall>raw \<in> set nodeList. raw_in M' raw))"
proof (cases "status = HMGT_STATUS_SUCCESS")
  case False
  then show ?thesis using grown_refl [OF assms(1)] by (simp add: process_dev_data_def)
next
  case True
  from add_raw_nodes_correct [OF assms, of objs status "[]"] obtain raws' st ifs M' where
    "add_raw_nodes alloc objs raws (status, [], M) = Some (raws', st, ifs, M')" "grown alloc M M'" "\<forall>raw \<in> set raws'. raw_in M' raw"
    by blast
  then show ?thesis using True by (auto simp: process_dev_data_def Let_def raw_in_def)
qed

end
