(* ===== verification/FabricBuild_Blocks.thy ===== *)
theory FabricBuild_Blocks
  imports FabricBuild_System
begin

text \<open>
  The blocks of the array of LIDs: every block that is allocated stays in the array until
  \<^verbatim>\<open>FreeLidMap\<close> frees it, so clearing the fabric leaks none.
\<close>

text \<open>Only an array has blocks, and only those that \<^verbatim>\<open>FreeLidMap\<close> goes through.\<close>

definition blocks_ok :: "fabric_data \<Rightarrow> bool" where
  "blocks_ok F \<longleftrightarrow> (\<forall>i. LidBlocks F i \<noteq> None \<longrightarrow> lid_array F \<and> i < TOPLM_BLOCKS)"

definition keeps_blocks :: "fabric_data \<Rightarrow> fabric_data \<Rightarrow> bool" where
  "keeps_blocks F G \<longleftrightarrow> lid_array G = lid_array F \<and> (lid_array F \<longrightarrow> blocks_ok F \<longrightarrow> blocks_ok G) \<and>
     (\<not> lid_array F \<longrightarrow> LidBlocks G = LidBlocks F)"

lemma keeps_refl [simp]: "keeps_blocks F F"
  by (simp add: keeps_blocks_def)

lemma keeps_trans: "keeps_blocks F G \<Longrightarrow> keeps_blocks G H \<Longrightarrow> keeps_blocks F H"
  by (auto simp: keeps_blocks_def)

lemma keeps_blocks_ok: "keeps_blocks F G \<Longrightarrow> blocks_ok F \<Longrightarrow> blocks_ok G"
  by (cases "lid_array F") (auto simp: keeps_blocks_def blocks_ok_def)

lemma keeps_fields: "LidBlocks G = LidBlocks F \<Longrightarrow> lid_array G = lid_array F \<Longrightarrow> keeps_blocks F G"
  by (simp add: keeps_blocks_def blocks_ok_def)

subsection \<open>The map of LIDs\<close>

lemma block_num_lt: "lid \<le> TOPLM_LID_MAX \<Longrightarrow> block_num lid < TOPLM_BLOCKS"
proof -
  assume "lid \<le> TOPLM_LID_MAX"
  then have "unat lid \<le> 0xFFFFFF" by (simp add: word_le_nat_alt)
  then show ?thesis unfolding block_num_def unat_drop_bit_eq by (simp add: drop_bit_eq_div)
qed

lemma SetMapEntry_keeps: "lid_array F \<Longrightarrow> keeps_blocks F (snd (SetMapEntry alloc F lid pd))"
  using block_num_lt [of lid] by (auto simp: SetMapEntry_def keeps_blocks_def blocks_ok_def split: option.split)

text \<open>Of a fabric with an array.\<close>

definition array_keeps :: "fabric_data \<Rightarrow> fabric_data \<Rightarrow> bool" where
  "array_keeps F G \<longleftrightarrow> (lid_array F \<longrightarrow> keeps_blocks F G)"

lemma array_keeps_refl [simp]: "array_keeps F F"
  by (simp add: array_keeps_def)

lemma array_keeps_step: "lid_array F \<Longrightarrow> keeps_blocks F G \<Longrightarrow> array_keeps G H \<Longrightarrow> array_keeps F H"
  by (auto simp: array_keeps_def keeps_blocks_def)

lemma array_keeps_any: "\<not> lid_array F \<Longrightarrow> array_keeps F G"
  by (simp add: array_keeps_def)

lemma set_step: "array_keeps (snd (SetMapEntry alloc F lid pd)) H \<Longrightarrow> array_keeps F H"
  using array_keeps_step [OF _ SetMapEntry_keeps] array_keeps_any by blast

lemma count_step: "array_keeps (F\<lparr>lidCount := n\<rparr>) H \<longleftrightarrow> array_keeps F H"
  by (simp add: array_keeps_def keeps_blocks_def blocks_ok_def)

lemma clear_lids_keeps: "clear_lids F first lst = Some G \<Longrightarrow> array_keeps F G"
proof (rule clear_lids.raw_induct [of "\<lambda>F first lst G. array_keeps F G"])
  fix clear :: "fabric_data \<Rightarrow> uint32 \<Rightarrow> uint32 \<Rightarrow> fabric_data option" and F first lst G
  assume IH: "\<And>F first lst G. clear F first lst = Some G \<Longrightarrow> array_keeps F G"
    and e: "(if first \<le> lst then clear (snd (SetMapEntry (\<lambda>_. False) F first None)) (first + 1) lst else Some F) = Some G"
  show "array_keeps F G"
  proof (cases "first \<le> lst")
    case True
    then show ?thesis using e set_step [OF IH] by auto
  qed (use e in simp)
qed

lemma partial_loop_keeps: "partial_loop F first lst = Some G \<Longrightarrow> array_keeps F G"
proof (rule partial_loop.raw_induct [of "\<lambda>F first lst G. array_keeps F G"])
  fix loop :: "fabric_data \<Rightarrow> uint32 \<Rightarrow> uint32 \<Rightarrow> fabric_data option" and F first lst G
  assume IH: "\<And>F first lst G. loop F first lst = Some G \<Longrightarrow> array_keeps F G"
    and e: "(if first < lst then let F = snd (SetMapEntry (\<lambda>_. False) F first None)
       in loop (F\<lparr>lidCount := lidCount F - 1\<rparr>) (first + 1) lst else Some F) = Some G"
  show "array_keeps F G"
  proof (cases "first < lst")
    case True
    then obtain n where "loop ((snd (SetMapEntry (\<lambda>_. False) F first None))\<lparr>lidCount := n\<rparr>) (first + 1) lst = Some G"
      using e by (auto simp: Let_def)
    from IH [OF this] show ?thesis unfolding count_step by (rule set_step)
  qed (use e in simp)
qed

lemma AllLidsRemove_keeps: "AllLidsRemove F p = Some G \<Longrightarrow> keeps_blocks F G"
proof (cases "lid_array F")
  case True
  assume r: "AllLidsRemove F p = Some G"
  have "array_keeps F G"
    using r clear_lids_keeps True unfolding AllLidsRemove_def
    by (fastforce simp: Let_def array_keeps_def keeps_blocks_def blocks_ok_def split: if_splits)
  then show ?thesis using True by (simp add: array_keeps_def)
next
  case False
  assume "AllLidsRemove F p = Some G"
  then show ?thesis using False by (auto simp: AllLidsRemove_def Let_def split: if_splits intro!: keeps_fields)
qed

lemma array_keeps_keeps: "keeps_blocks F G \<Longrightarrow> array_keeps G H \<Longrightarrow> array_keeps F H"
  by (auto simp: array_keeps_def keeps_blocks_def)

lemma add_loop_keeps: "add_loop alloc p force perm first lst st F = Some (st', G) \<Longrightarrow> array_keeps F G"
proof -
  let ?P = "\<lambda>(alloc :: nat \<Rightarrow> bool) (p :: port) (force :: bool) (perm :: uint32) (first :: uint32) (lst :: uint32) (st :: fstatus) F r. array_keeps F (snd r)"
  have "?P alloc p force perm first lst st F (st', G)" if "add_loop alloc p force perm first lst st F = Some (st', G)"
  proof (rule add_loop.raw_induct [of ?P, OF _ that])
    fix loop and alloc :: "nat \<Rightarrow> bool" and p force and perm first lst :: uint32 and status :: fstatus and F :: fabric_data and r
    assume IH: "\<And>alloc p force perm first lst status F r. loop alloc p force perm first lst status F = Some r \<Longrightarrow> array_keeps F (snd r)"
      and e: "(if first \<le> lst then
        (let enter = (\<lambda>F. snd (SetMapEntry alloc (F\<lparr>lidCount := lidCount F + 1\<rparr>) first (Some p)))
         in case GetMapEntry F first of
              None \<Rightarrow> loop alloc p force perm (first + 1) lst status (enter F)
            | Some q \<Rightarrow>
                if q = p then loop alloc p force perm (first + 1) lst status F
                else if \<not> force then map_option (Pair FDUPLICATE) (PartialLidsRemove F p (first - perm))
                else (case AllLidsRemove F q of
                        None \<Rightarrow> None
                      | Some F \<Rightarrow> loop alloc p force perm (first + 1) lst FDUPLICATE (enter F)))
      else Some (status, F)) = Some r"
    have enter: "array_keeps F (snd r)" if "loop alloc p force perm (first + 1) lst st (snd (SetMapEntry alloc (F\<lparr>lidCount := lidCount F + 1\<rparr>) first (Some p))) = Some r" for F st
      using set_step [OF IH [OF that]] count_step by blast
    show "array_keeps F (snd r)"
    proof (cases "first \<le> lst")
      case True
      show ?thesis
      proof (cases "GetMapEntry F first")
        case None
        then show ?thesis using e True enter by simp
      next
        case (Some q)
        consider "q = p" | "q \<noteq> p" "\<not> force" | "q \<noteq> p" "force" by blast
        then show ?thesis
        proof cases
          case 1
          then show ?thesis using e True Some IH by simp
        next
          case 2
          then show ?thesis using e True Some partial_loop_keeps by (auto simp: PartialLidsRemove_def)
        next
          case 3
          then obtain F1 where "AllLidsRemove F q = Some F1" "array_keeps F1 (snd r)"
            using e True Some enter by (auto simp: Let_def split: option.splits)
          then show ?thesis using array_keeps_keeps AllLidsRemove_keeps by blast
        qed
      qed
    qed (use e in auto)
  qed
  then show "add_loop alloc p force perm first lst st F = Some (st', G) \<Longrightarrow> array_keeps F G" by simp
qed

lemma AllLidsAdd_keeps: "AllLidsAdd alloc F p force = Some (st, G) \<Longrightarrow> keeps_blocks F G"
proof (cases "lid_array F")
  case True
  assume r: "AllLidsAdd alloc F p force = Some (st, G)"
  then show ?thesis using True add_loop_keeps unfolding AllLidsAdd_def array_keeps_def
    by (auto simp: Let_def split: if_splits)
next
  case False
  assume r: "AllLidsAdd alloc F p force = Some (st, G)"
  have "LidBlocks G = LidBlocks F" "lid_array G = lid_array F"
    if "AllLidsRemove F q = Some G" for q G
    using AllLidsRemove_keeps [OF that] False by (simp_all add: keeps_blocks_def)
  then show ?thesis using r False
    by (auto simp: AllLidsAdd_def Let_def split: if_splits option.splits intro!: keeps_fields)
qed

subsection \<open>The operations\<close>

definition keeps_table :: "fabric_state \<Rightarrow> fabric_state \<Rightarrow> bool" where
  "keeps_table M M' \<longleftrightarrow> keeps_blocks (fab M) (fab M') \<and> lid_leaked M' = lid_leaked M"

lemma table_refl [simp]: "keeps_table M M"
  by (simp add: keeps_table_def)

lemma table_trans [trans]: "keeps_table M M1 \<Longrightarrow> keeps_table M1 M2 \<Longrightarrow> keeps_table M M2"
  using keeps_trans by (auto simp: keeps_table_def)

lemma table_same: "LidBlocks (fab M') = LidBlocks (fab M) \<Longrightarrow> lid_array (fab M') = lid_array (fab M) \<Longrightarrow> lid_leaked M' = lid_leaked M \<Longrightarrow>
    keeps_table M M'"
  by (simp add: keeps_table_def keeps_fields)

definition table :: "fabric_state \<Rightarrow> (nat \<Rightarrow> (nat \<Rightarrow> port option) option) \<times> bool \<times> nat" where
  "table M = (LidBlocks (fab M), lid_array (fab M), lid_leaked M)"

lemma table_eq: "table M' = table M \<Longrightarrow> keeps_table M M'"
  by (rule table_same) (simp_all add: table_def)

lemma table_simps [simp]:
  "table (free_block p M) = table M" "table (put_port p d M) = table M" "table (put_node n nd M) = table M"
  "table (put_AllNodes m M) = table M" "table (put_Nodes s m M) = table M" "table (put_ports n m M) = table M"
  "table (M\<lparr>AllSystems := ss\<rparr>) = table M" "table (M\<lparr>pinfo := pi\<rparr>) = table M" "table (M\<lparr>pPortCounters := pc\<rparr>) = table M"
  "table (M\<lparr>sdata := sd\<rparr>) = table M"
  by (simp_all add: table_def free_block_def put_port_def put_node_def put_AllNodes_def put_Nodes_def put_ports_def)

lemma new_block_table: "new_block M = (p, M') \<Longrightarrow> table M' = table M"
  by (auto simp: new_block_def table_def split: list.splits if_splits)

lemma AddSystemNode_table: "AddSystemNode n M = (st, M') \<Longrightarrow> table M' = table M"
  using new_block_table [of M]
  by (cases "new_block M") (auto simp: AddSystemNode_def Let_def split: if_splits option.splits prod.splits)

lemma FabricDataAddNode_table: "FabricDataAddNode r M = Some (res, M') \<Longrightarrow> table M' = table M"
proof -
  assume r: "FabricDataAddNode r M = Some (res, M')"
  obtain n M1 where n: "new_block M = (n, M1)" by (rule prod.exhaust)
  have t: "table M1 = table M" by (rule new_block_table [OF n])
  define M2 where "M2 = put_node n \<lparr>NodeGUID = nr_NodeGUID r, SystemImageGUID = nr_SystemImageGUID r,
      NodeType = nr_NodeType r, NodeDesc = nr_NodeDesc r, systemp = 0, NodePorts = [], enodep = None\<rparr> M1"
  obtain st M3 where a: "AddSystemNode n (put_AllNodes (omap_insert (nr_NodeGUID r) n (AllNodes (fab M2))) M2) = (st, M3)"
    by (rule prod.exhaust)
  have t2: "table M2 = table M" using t by (simp add: M2_def)
  have t3: "table M3 = table M" using AddSystemNode_table [OF a] t by (simp add: M2_def)
  show ?thesis
  proof (cases "n = 0")
    case False
    then show ?thesis using r n t t2 t3 a unfolding FabricDataAddNode_def M2_def [symmetric]
      by (cases st) (auto simp: M2_def [symmetric] Let_def split: option.splits bind_splits)
  qed (use r n t in \<open>simp add: FabricDataAddNode_def\<close>)
qed

lemma table_fab: "table M1 = table M \<Longrightarrow> keeps_blocks (fab M1) F \<Longrightarrow> keeps_table M (M1\<lparr>fab := F\<rparr>)"
  by (auto simp: table_def keeps_table_def keeps_blocks_def blocks_ok_def)

lemma table_after: "keeps_table M M1 \<Longrightarrow> table M2 = table M1 \<Longrightarrow> keeps_table M M2"
  using table_trans table_eq by blast

lemma NodeDataAddPort_table: "NodeDataAddPort alloc n guid r M = Some (res, M') \<Longrightarrow> keeps_table M M'"
proof -
  assume e: "NodeDataAddPort alloc n guid r M = Some (res, M')"
  obtain p M1 where p: "new_block M = (p, M1)" by (rule prod.exhaust)
  obtain c M2 where c: "(if ff_stats M1 then new_block M1 else (0, M1)) = (c, M2)" by (rule prod.exhaust)
  have t1: "table M1 = table M" by (rule new_block_table [OF p])
  then have t2: "table M2 = table M" using c new_block_table by (auto split: if_splits)
  define d where "d = port_record M2 n guid r"
  define M3 where "M3 = put_port p d M2\<lparr>pinfo := (pinfo M2)(p := pr_info r), pPortCounters := (pPortCounters M2)(p := c)\<rparr>"
  define M4 where "M4 = put_ports n (omap_insert (ucast (PortNum d)) p (NodePorts (node_of M2 n))) M3"
  have t3: "table M3 = table M" "table M4 = table M" using t2 by (simp_all add: M3_def M4_def)
  have same: "node_of M3 n = node_of M2 n" by (simp add: M3_def put_port_def)
  have eq: "NodeDataAddPort alloc n guid r M =
     (if p = 0 then Some (None, M1)
      else if ff_stats M2 \<and> c = 0 then Some (None, free_block p M2)
      else if omap_get (ucast (PortNum d)) (NodePorts (node_of M3 n)) \<noteq> None then Some (None, free_block p M3)
      else if \<not> ff_downportinfo M4 \<or> EndPortLID d \<noteq> 0 then do {
        (status, F) \<leftarrow> AllLidsAdd alloc (fab M4) p False;
        let M = M4\<lparr>fab := F\<rparr> in
        if status \<noteq> FSUCCESS then do {
          m \<leftarrow> omap_remove_item p (NodePorts (node_of M n));
          Some (None, free_block p (put_ports n m M)) }
        else Some (Some p, M) }
      else Some (Some p, M4))"
    by (simp add: NodeDataAddPort_def p c d_def [symmetric] M3_def [symmetric] M4_def [symmetric] same Let_def)
  have lids: "keeps_table M (M4\<lparr>fab := F\<rparr>)" if "AllLidsAdd alloc (fab M4) p False = Some (st, F)" for st F
    by (rule table_fab [OF t3(2) AllLidsAdd_keeps [OF that]])
  show ?thesis using e t1 t2 t3 lids table_after [OF lids] unfolding eq
    by (auto simp: Let_def table_eq split: if_splits bind_splits)
qed

lemma PortDataFree_table: "PortDataFree p M = Some M' \<Longrightarrow> keeps_table M M'"
proof -
  assume e: "PortDataFree p M = Some M'"
  then obtain F m where F: "(if PortGUID (port_of M p) \<noteq> 0 then AllLidsRemove (fab M) p else Some (fab M)) = Some F"
    and M': "table M' = table (M\<lparr>fab := F\<rparr>)"
    by (auto simp: PortDataFree_def Let_def split: bind_splits)
  have "keeps_blocks (fab M) F" using F AllLidsRemove_keeps by (auto split: if_splits)
  then have "keeps_table M (M\<lparr>fab := F\<rparr>)" using table_fab by blast
  then show ?thesis using M' table_after by blast
qed

lemma NodeDataFreePorts_table: "NodeDataFreePorts n M = Some M' \<Longrightarrow> keeps_table M M'"
proof (rule NodeDataFreePorts.raw_induct [of "\<lambda>n M M'. keeps_table M M'"])
  fix free n M M'
  assume "\<And>n M M'. free n M = Some M' \<Longrightarrow> keeps_table M M'"
    "(case NodePorts (node_of M n) of [] \<Rightarrow> Some M | (k, p) # _ \<Rightarrow> do { M \<leftarrow> PortDataFree p M; free n M }) = Some M'"
  then show "keeps_table M M'"
    using PortDataFree_table table_trans by (fastforce split: list.splits bind_splits)
qed

lemma NodeDataFree_table: "NodeDataFree n M = Some M' \<Longrightarrow> keeps_table M M'"
proof -
  assume e: "NodeDataFree n M = Some M'"
  let ?s = "systemp (node_of M n)"
  from e obtain m M1 m' M2 where
      M1: "(if m = [] then do {
              ss \<leftarrow> omap_remove_item ?s (AllSystems (put_Nodes ?s m M));
              Some (free_block ?s ((put_Nodes ?s m M)\<lparr>AllSystems := ss\<rparr>)) }
            else Some (put_Nodes ?s m M)) = Some M1"
    and M2: "NodeDataFreePorts n (put_AllNodes m' M1) = Some M2" and M': "M' = free_block n M2"
    unfolding NodeDataFree_def Let_def bind_eq_Some_conv option.inject by blast
  have "table M1 = table M" using M1 by (auto split: if_splits bind_splits)
  then have "table (put_AllNodes m' M1) = table M" by simp
  then have "keeps_table M M2" using NodeDataFreePorts_table [OF M2] table_eq table_trans by blast
  then show ?thesis using M' table_after by simp
qed

lemma NodeDataFreeAll_table: "NodeDataFreeAll M = Some M' \<Longrightarrow> keeps_table M M'"
proof (rule NodeDataFreeAll.raw_induct [of "\<lambda>M M'. keeps_table M M'"])
  fix free M M'
  assume "\<And>M M'. free M = Some M' \<Longrightarrow> keeps_table M M'"
    "(case AllNodes (fab M) of [] \<Rightarrow> Some M | (k, n) # _ \<Rightarrow> do { M \<leftarrow> NodeDataFree n M; free M }) = Some M'"
  then show "keeps_table M M'"
    using NodeDataFree_table table_trans by (fastforce split: list.splits bind_splits)
qed

lemma expected_table: "expected_gone M E M' \<Longrightarrow> table M' = table M"
proof -
  assume e: "expected_gone M E M'"
  then have "M' = M\<lparr>fab := fab M', live := live M - E\<rparr>" by (simp only: expected_gone_def)
  from arg_cong [OF this, of lid_leaked] have "lid_leaked M' = lid_leaked M" by simp
  with e show ?thesis by (simp add: expected_gone_def table_def)
qed

subsection \<open>Nothing is leaked\<close>

lemma build_exec_table: "build_exec alloc op M = Some M' \<Longrightarrow> keeps_table M M'"
proof (cases op)
  case (Link l)
  assume "build_exec alloc op M = Some M'"
  then show ?thesis using link_step_only [of "fab M" l]
    by (auto simp: Link build_exec_def links_only_def intro!: table_same)
qed (auto simp: build_exec_def table_eq dest: FabricDataAddNode_table NodeDataAddPort_table NodeDataFree_table)

lemma built_table: "built alloc M M' \<Longrightarrow> keeps_table M M'"
proof (induction rule: built.induct)
  case (step M1 op M2)
  then show ?case using table_trans build_exec_table by blast
qed simp

lemma init_table: "InitFabricData arr stats down M = (st, M') \<Longrightarrow> blocks_ok (fab M') \<and> lid_leaked M' = lid_leaked M"
  by (auto simp: InitFabricData_def clear_fabric_def blocks_ok_def)

lemma free_lid_map: "blocks_ok F \<Longrightarrow> lid_blocks (if lid_array F then FreeLidMap F else F) = []"
  by (auto simp: lid_blocks_def FreeLidMap_def blocks_ok_def filter_empty_conv)

lemma destroy_leaks_no_lids:
  assumes d: "DestroyFabricData M = Some M'" and ok: "blocks_ok (fab M)"
  shows "lid_leaked M' = lid_leaked M"
proof -
  let ?M3 = "ExpectedNodesFreeAll True (ExpectedNodesFreeAll False (ExpectedLinkFreeAll M))"
  have t: "table ?M3 = table M"
    using expected_table ExpectedLinkFreeAll_gone ExpectedNodesFreeAll_gone by metis
  obtain M4 where M4: "NodeDataFreeAll ?M3 = Some M4"
    "lid_leaked M' = lid_leaked M4 + length (lid_blocks (if lid_array (fab M4) then FreeLidMap (fab M4) else fab M4))"
    using d by (auto simp: DestroyFabricData_def Let_def split: bind_splits)
  have k: "keeps_table M M4" using NodeDataFreeAll_table [OF M4(1)] table_eq [OF t] table_trans by blast
  then have "blocks_ok (fab M4)" "lid_leaked M4 = lid_leaked M" using ok keeps_blocks_ok by (auto simp: keeps_table_def)
  then show ?thesis using M4(2) free_lid_map by simp
qed

end
