(* ===== verification/Discovery_Links.thy ===== *)
theory Discovery_Links
  imports Discovery_Props FabricBuild_Blocks
begin

text \<open>
  The links that discovery makes.  A pass over the ports of the switches amounts to linking the pairs of
  ports that are reported, in order, each only when both ends are still free.
\<close>

subsection \<open>Linking pairs\<close>

definition run_pairs :: "(port \<times> port) list \<Rightarrow> fabric_data \<Rightarrow> fabric_data" where
  "run_pairs ps = fold (\<lambda>(p, q). link_step (AddLink p q)) ps"

text \<open>No port is in two different pairs.\<close>

definition one_link :: "(port \<times> port) list \<Rightarrow> bool" where
  "one_link ps \<longleftrightarrow> (\<forall>e \<in> set ps. \<forall>f \<in> set ps. {fst e, snd e} \<inter> {fst f, snd f} \<noteq> {} \<longrightarrow> {fst e, snd e} = {fst f, snd f})"

definition in_pair :: "(port \<times> port) list \<Rightarrow> port \<Rightarrow> port \<Rightarrow> bool" where
  "in_pair ps p q \<longleftrightarrow> (p, q) \<in> set ps \<or> (q, p) \<in> set ps"

lemma add_link_neighbor:
  "neighbor (pdata (link_step (AddLink p q) F) x) =
     (if neighbor (pdata F p) = None \<and> neighbor (pdata F q) = None
      then if x = q then Some p else if x = p then Some q else neighbor (pdata F x) else neighbor (pdata F x))"
  by (simp add: add_link_cases linked_def)

lemma run_pairs_keeps: "neighbor (pdata F x) = Some y \<Longrightarrow> neighbor (pdata (run_pairs ps F) x) = Some y"
proof (induction ps arbitrary: F)
  case (Cons e ps)
  obtain p q where e: "e = (p, q)" by (cases e)
  have "neighbor (pdata (link_step (AddLink p q) F) x) = Some y"
    unfolding add_link_neighbor using Cons.prems by auto
  from Cons.IH [OF this] show ?case by (simp add: run_pairs_def e)
qed (simp add: run_pairs_def)

lemma run_pairs_sound:
  "neighbor (pdata (run_pairs ps F) x) = Some y \<Longrightarrow> neighbor (pdata F x) = Some y \<or> in_pair ps x y"
proof (induction ps arbitrary: F)
  case (Cons e ps)
  obtain p q where e: "e = (p, q)" by (cases e)
  have "neighbor (pdata (run_pairs ps (link_step (AddLink p q) F)) x) = Some y"
    using Cons.prems by (simp add: run_pairs_def e)
  from Cons.IH [OF this] show ?case
    unfolding add_link_neighbor by (auto simp: e in_pair_def split: if_splits)
qed (simp add: run_pairs_def)

lemma run_pairs_complete:
  "(p, q) \<in> set ps \<Longrightarrow> neighbor (pdata (run_pairs ps F) p) \<noteq> None \<or> neighbor (pdata (run_pairs ps F) q) \<noteq> None"
proof (induction ps arbitrary: F)
  case (Cons e ps)
  show ?case
  proof (cases "e = (p, q)")
    case True
    have "neighbor (pdata (link_step (AddLink p q) F) p) \<noteq> None \<or> neighbor (pdata (link_step (AddLink p q) F) q) \<noteq> None"
      unfolding add_link_neighbor by auto
    then show ?thesis using run_pairs_keeps [of "link_step (AddLink p q) F"] by (fastforce simp: run_pairs_def True)
  next
    case False
    then show ?thesis using Cons by (cases e) (auto simp: run_pairs_def)
  qed
qed simp

lemma in_pair_sym: "in_pair ps p q = in_pair ps q p"
  by (auto simp: in_pair_def)

lemma in_pair_entry:
  assumes "in_pair ps p q"
  obtains e where "e \<in> set ps" "{fst e, snd e} = {p, q}"
  using assms that [of "(p, q)"] that [of "(q, p)"] unfolding in_pair_def by (auto simp: insert_commute)

lemma one_link_partner:
  assumes one: "one_link ps" and q: "in_pair ps p q" and r: "in_pair ps p r"
  shows "r = q"
proof -
  obtain e where e: "e \<in> set ps" "{fst e, snd e} = {p, q}" using in_pair_entry [OF q] .
  obtain f where f: "f \<in> set ps" "{fst f, snd f} = {p, r}" using in_pair_entry [OF r] .
  have "{fst e, snd e} \<inter> {fst f, snd f} \<noteq> {}" unfolding e(2) f(2) by blast
  then have "{p, q} = {p, r}" using one e(1) f(1) unfolding one_link_def e(2) [symmetric] f(2) [symmetric] by blast
  then show ?thesis by (auto simp: doubleton_eq_iff)
qed

lemma run_pairs_ok: "links_ok F \<Longrightarrow> links_ok (run_pairs ps F)"
  by (induction ps arbitrary: F) (auto simp: run_pairs_def add_link_ok)

lemma run_pairs_links:
  assumes ok: "links_ok F" and free: "\<And>p q. in_pair ps p q \<Longrightarrow> neighbor (pdata F p) = None" and one: "one_link ps"
  shows "neighbor (pdata (run_pairs ps F) p) = Some q \<longleftrightarrow> neighbor (pdata F p) = Some q \<or> in_pair ps p q"
proof
  show "neighbor (pdata F p) = Some q \<or> in_pair ps p q" if "neighbor (pdata (run_pairs ps F) p) = Some q"
    using run_pairs_sound [OF that] .
  show "neighbor (pdata (run_pairs ps F) p) = Some q" if "neighbor (pdata F p) = Some q \<or> in_pair ps p q"
    using that
  proof
    assume "neighbor (pdata F p) = Some q"
    then show ?thesis by (rule run_pairs_keeps)
  next
    assume i: "in_pair ps p q"
    have known: "neighbor (pdata (run_pairs ps F) x) = Some y \<Longrightarrow> in_pair ps x z \<Longrightarrow> y = z" for x y z
      using run_pairs_sound [of ps F x y] free [of x z] one_link_partner [OF one, of x z y] by auto
    have "neighbor (pdata (run_pairs ps F) p) \<noteq> None \<or> neighbor (pdata (run_pairs ps F) q) \<noteq> None"
      using i run_pairs_complete [of p q ps F] run_pairs_complete [of q p ps F] by (auto simp: in_pair_def)
    then consider y where "neighbor (pdata (run_pairs ps F) p) = Some y" | z where "neighbor (pdata (run_pairs ps F) q) = Some z"
      by blast
    then show ?thesis
    proof cases
      case 1
      then show ?thesis using known [OF 1 i] by simp
    next
      case 2
      then have "neighbor (pdata (run_pairs ps F) q) = Some p" using known [OF 2, of p] i in_pair_sym by blast
      then show ?thesis using run_pairs_ok [OF ok, of ps] unfolding links_ok_def links_shape_def by blast
    qed
  qed
qed

subsection \<open>The pairs that are reported\<close>

text \<open>For each port that is looked at: the port, and the one that it reports if it is known.\<close>

type_synonym report = "port \<times> port option"

definition port_reports :: "(node \<times> port omap) omap \<Rightarrow> fabric_state \<Rightarrow> node \<Rightarrow> port \<Rightarrow> report list" where
  "port_reports nodeMap M n p =
     (if NodeType (node_of M n) = NODE_SW \<and> PortNum (port_of M p) = 0 then []
      else [(p, map_option snd (reported nodeMap M p))])"

definition node_reports :: "(node \<times> port omap) omap \<Rightarrow> fabric_state \<Rightarrow> raw_node \<Rightarrow> report list" where
  "node_reports nodeMap M raw =
     (case rn_nodeData raw of
        None \<Rightarrow> []
      | Some n \<Rightarrow> if NodeType (node_of M n) = NODE_FI then []
          else concat (map (\<lambda>(k, p). port_reports nodeMap M n p) (rn_portIdMap raw)))"

definition link_reports :: "(node \<times> port omap) omap \<Rightarrow> fabric_state \<Rightarrow> raw_node list \<Rightarrow> report list" where
  "link_reports nodeMap M raws = concat (map (node_reports nodeMap M) raws)"

text \<open>What a report does to the status and to the links.\<close>

fun run_report :: "report \<Rightarrow> hmgt_status \<times> fabric_data \<Rightarrow> hmgt_status \<times> fabric_data" where
  "run_report (p, None) (status, F) = (HMGT_STATUS_PARTIALLY_PROCESSED, F)"
| "run_report (p, Some q) (status, F) =
     (if neighbor (pdata F p) = Some q \<and> neighbor (pdata F q) = Some p then (status, F)
      else (hmgt_of (fst (FabricDataAddLink F p q)), link_step (AddLink p q) F))"

definition run_reports :: "report list \<Rightarrow> hmgt_status \<times> fabric_data \<Rightarrow> hmgt_status \<times> fabric_data" where
  "run_reports = fold run_report"

definition pairs :: "report list \<Rightarrow> (port \<times> port) list" where
  "pairs rs = List.map_filter (\<lambda>(p, x). map_option (Pair p) x) rs"

lemma pairs_simps [simp]:
  "pairs [] = []" "pairs ((p, None) # rs) = pairs rs" "pairs ((p, Some q) # rs) = (p, q) # pairs rs"
  "pairs (rs @ rs') = pairs rs @ pairs rs'"
  by (simp_all add: pairs_def map_filter_def)

lemma in_pairs: "(p, q) \<in> set (pairs rs) \<longleftrightarrow> (p, Some q) \<in> set rs"
proof (induction rs)
  case (Cons r rs)
  obtain a x where "r = (a, x)" by (cases r)
  then show ?case using Cons by (cases x) auto
qed simp

lemma run_report_links: "snd (run_report (p, x) s) = run_pairs (pairs [(p, x)]) (snd s)"
  by (cases s; cases x) (auto simp: run_pairs_def FabricDataAddLink_def)

lemma run_reports_links: "snd (run_reports rs s) = run_pairs (pairs rs) (snd s)"
proof (induction rs arbitrary: s)
  case (Cons r rs)
  obtain p x where r: "r = (p, x)" by (cases r)
  show ?case using Cons [of "run_report r s"] run_report_links [of p x s]
    by (cases x) (simp_all add: run_reports_def run_pairs_def r)
qed (simp add: run_reports_def run_pairs_def)

text \<open>What the pass over the ports looks at does not change under it.\<close>

definition same_reports :: "fabric_state \<Rightarrow> fabric_state \<Rightarrow> bool" where
  "same_reports M M' \<longleftrightarrow> M' = M\<lparr>fab := fab M', pinfo := pinfo M'\<rparr> \<and> ndata (fab M') = ndata (fab M) \<and> (\<forall>p. link_part (port_of M' p) = link_part (port_of M p)) \<and>
     (\<forall>p. NodeType (port_node (fab M) p) \<noteq> NODE_FI \<longrightarrow>
        NeighborNodeGUID (pinfo M' p) = NeighborNodeGUID (pinfo M p) \<and> NeighborPortId (pinfo M' p) = NeighborPortId (pinfo M p))"

definition map_in :: "fabric_state \<Rightarrow> (node \<times> port omap) omap \<Rightarrow> bool" where
  "map_in M nodeMap \<longleftrightarrow> (\<forall>(m, ids) \<in> snd ` set nodeMap. m \<in> node_set M \<and> omap_ok ids \<and> snd ` set ids \<subseteq> ports_at M m)"

lemma link_part_eq:
  assumes "link_part d = link_part e"
  shows "PortNum d = PortNum e" "nodep d = nodep e" "LocalPortId d = LocalPortId e"
  using assms by (cases d; cases e; simp add: link_part_def)+

lemma same_reportsD:
  assumes "same_reports M M'"
  shows "node_of M' n = node_of M n" "PortNum (port_of M' p) = PortNum (port_of M p)"
    "nodep (port_of M' p) = nodep (port_of M p)" "LocalPortId (port_of M' p) = LocalPortId (port_of M p)"
    "NodeType (port_node (fab M) p) \<noteq> NODE_FI \<Longrightarrow> reported nodeMap M' p = reported nodeMap M p"
proof -
  have l: "link_part (port_of M' p) = link_part (port_of M p)" using assms by (simp add: same_reports_def)
  show "PortNum (port_of M' p) = PortNum (port_of M p)" "nodep (port_of M' p) = nodep (port_of M p)"
    "LocalPortId (port_of M' p) = LocalPortId (port_of M p)" using link_part_eq [OF l] .
  show "node_of M' n = node_of M n" using assms by (simp add: same_reports_def)
  show "reported nodeMap M' p = reported nodeMap M p" if "NodeType (port_node (fab M) p) \<noteq> NODE_FI"
  proof -
    have "NeighborNodeGUID (pinfo M' p) = NeighborNodeGUID (pinfo M p)" "NeighborPortId (pinfo M' p) = NeighborPortId (pinfo M p)"
      using assms that by (simp_all add: same_reports_def)
    then show ?thesis unfolding reported_def by (simp only:)
  qed
qed

lemma same_reports_refl: "same_reports M M"
  by (simp add: same_reports_def)

lemma same_reports_trans:
  assumes a: "same_reports M M1" "same_reports M1 M2"
  shows "same_reports M M2"
proof -
  have "M1 = M\<lparr>fab := fab M1, pinfo := pinfo M1\<rparr>" "M2 = M1\<lparr>fab := fab M2, pinfo := pinfo M2\<rparr>"
    using a unfolding same_reports_def by blast+
  then have "M2 = M\<lparr>fab := fab M2, pinfo := pinfo M2\<rparr>" by (cases M; cases M1; cases M2) simp
  then show ?thesis using a unfolding same_reports_def by (metis link_part_eq(2))
qed

lemma reported_in:
  assumes m: "map_in M nodeMap" and r: "reported nodeMap M p = Some (m, q)"
  shows "m \<in> node_set M" "q \<in> ports_at M m"
proof -
  obtain ids where 1: "omap_get (NeighborNodeGUID (pinfo M p)) nodeMap = Some (m, ids)"
    "omap_get (get_hash (NeighborPortId (pinfo M p)) TINY_STR_ARRAY_SIZE) ids = Some q"
    using r by (auto simp: reported_def split: option.splits)
  have "(m, ids) \<in> snd ` set nodeMap" "q \<in> snd ` set ids"
    using 1 by (force simp: omap_get_def dest: map_of_SomeD)+
  moreover from this(1) have "m \<in> node_set M \<and> snd ` set ids \<subseteq> ports_at M m" using m unfolding map_in_def by blast
  ultimately show "m \<in> node_set M" "q \<in> ports_at M m" by blast+
qed

lemma port_at_node: "store_ok M \<Longrightarrow> n \<in> node_set M \<Longrightarrow> p \<in> ports_at M n \<Longrightarrow> nodep (port_of M p) = n"
  by (auto simp: store_ok_def node_ok_def ports_at_def node_set_def)

lemma set_neighbor_info_fab [simp]: "fab (set_neighbor_info n p m q M) = fab M"
  by (simp add: set_neighbor_info_def Let_def)

lemma set_neighbor_info_same:
  assumes "NodeType (port_node (fab M) q) = NodeType (node_of M m)"
  shows "same_reports M (set_neighbor_info n p m q M)"
  using assms by (auto simp: same_reports_def set_neighbor_info_def Let_def)

lemma same_reports_fab:
  assumes "same_reports M M'" "links_only (fab M') F"
  shows "same_reports M (M'\<lparr>fab := F\<rparr>)"
proof -
  have "M' = M\<lparr>fab := fab M', pinfo := pinfo M'\<rparr>" using assms(1) unfolding same_reports_def by blast
  then have "M'\<lparr>fab := F\<rparr> = M\<lparr>fab := F, pinfo := pinfo M'\<rparr>" by (cases M; cases M') simp
  then show ?thesis using assms by (simp add: same_reports_def links_only_def)
qed

text \<open>One port, seen as a report.\<close>

definition follows :: "hmgt_status \<times> fabric_state \<Rightarrow> hmgt_status \<Rightarrow> fabric_state \<Rightarrow> report list \<Rightarrow> bool" where
  "follows s' status M rs \<longleftrightarrow> same_reports M (snd s') \<and> (fst s', fab (snd s')) = run_reports rs (status, fab M)"

lemma follows_nil: "follows (status, M) status M []"
  by (simp add: follows_def same_reports_refl run_reports_def)

lemma follows_trans:
  assumes "follows s1 status M rs" "follows s2 (fst s1) (snd s1) rs'"
  shows "follows s2 status M (rs @ rs')"
proof -
  have "same_reports M (snd s2)" using same_reports_trans assms by (auto simp: follows_def)
  moreover have "run_reports (rs @ rs') (status, fab M) = run_reports rs' (run_reports rs (status, fab M))"
    by (simp add: run_reports_def)
  ultimately show ?thesis using assms by (simp add: follows_def)
qed

lemma find_link_follows:
  assumes m: "\<And>m q. reported nodeMap M p = Some (m, q) \<Longrightarrow> nodep (port_of M q) = m"
  shows "follows (find_link nodeMap n p (status, M)) status M (port_reports nodeMap M n p)"
proof (cases "NodeType (node_of M n) = NODE_SW \<and> PortNum (port_of M p) = 0")
  case True
  then show ?thesis by (simp add: find_link_def port_reports_def follows_nil)
next
  case sw: False
  show ?thesis
  proof (cases "reported nodeMap M p")
    case None
    then have "find_link nodeMap n p (status, M) = (HMGT_STATUS_PARTIALLY_PROCESSED, M)"
      unfolding find_link_def prod.case if_not_P [OF sw] by simp
    moreover have "port_reports nodeMap M n p = [(p, None)]"
      unfolding port_reports_def if_not_P [OF sw] by (simp add: None)
    ultimately show ?thesis by (simp add: follows_def run_reports_def same_reports_refl)
  next
    case (Some x)
    obtain k q where x: "x = (k, q)" by (cases x)
    define M1 where "M1 = set_neighbor_info n p k q M"
    have f: "fab M1 = fab M" by (simp add: M1_def)
    have s: "same_reports M M1" unfolding M1_def
      using m [OF Some [unfolded x]] by (intro set_neighbor_info_same) simp
    have r: "port_reports nodeMap M n p = [(p, Some q)]"
      unfolding port_reports_def if_not_P [OF sw] by (simp add: Some x)
    show ?thesis
    proof (cases "neighbor (port_of M p) = Some q \<and> neighbor (port_of M q) = Some p")
      case False
      then have l: "neighbor (port_of M p) \<noteq> Some q \<or> neighbor (port_of M q) \<noteq> Some p" by blast
      obtain st F where F: "FabricDataAddLink (fab M) p q = (st, F)" by (cases "FabricDataAddLink (fab M) p q")
      have e: "find_link nodeMap n p (status, M) = (hmgt_of st, M1\<lparr>fab := F\<rparr>)"
        unfolding find_link_def prod.case if_not_P [OF sw] Some x option.case Let_def M1_def [symmetric] f if_P [OF l] F ..
      have "same_reports M (M1\<lparr>fab := F\<rparr>)"
        using same_reports_fab [OF s, of F] link_step_only [of "fab M" "AddLink p q"] by (simp add: f F)
      then show ?thesis by (simp add: e r follows_def run_reports_def F False)
    next
      case True
      then have l: "\<not> (neighbor (port_of M p) \<noteq> Some q \<or> neighbor (port_of M q) \<noteq> Some p)" by blast
      have e: "find_link nodeMap n p (status, M) = (status, M1)"
        unfolding find_link_def prod.case if_not_P [OF sw] Some x option.case Let_def M1_def [symmetric] f if_not_P [OF l] ..
      show ?thesis using True s f by (simp add: e r follows_def run_reports_def)
    qed
  qed
qed

text \<open>The ports of a node, and then the nodes, from any state that agrees with the one at the start.\<close>

lemma port_reports_same:
  assumes "same_reports M0 M" "nodep (port_of M0 p) = n" "NodeType (node_of M0 n) \<noteq> NODE_FI"
  shows "port_reports nodeMap M n p = port_reports nodeMap M0 n p"
  using same_reportsD [OF assms(1)] assms(2,3) by (simp add: port_reports_def)

lemma find_ports_follows:
  assumes st: "store_ok M0" and m: "map_in M0 nodeMap" and n: "n \<in> node_set M0" "NodeType (node_of M0 n) \<noteq> NODE_FI"
    and "snd ` set es \<subseteq> ports_at M0 n" "same_reports M0 M"
  shows "follows (fold (\<lambda>(k, p). find_link nodeMap n p) es (status, M)) status M
    (concat (map (\<lambda>(k, p). port_reports nodeMap M0 n p) es))"
  using assms(5,6)
proof (induction es arbitrary: status M)
  case Nil
  then show ?case by (simp add: follows_nil)
next
  case (Cons e es)
  obtain k p where e: "e = (k, p)" by (cases e)
  have p: "nodep (port_of M0 p) = n" using port_at_node [OF st n(1)] Cons.prems(1) by (simp add: e)
  have ty: "NodeType (port_node (fab M0) p) \<noteq> NODE_FI" using p n(2) by simp
  note s = same_reportsD [OF Cons.prems(2)]
  have q: "nodep (port_of M q) = x" if "reported nodeMap M p = Some (x, q)" for x q
  proof -
    have "reported nodeMap M0 p = Some (x, q)" using that s(5) [OF ty] by simp
    then show ?thesis using port_at_node [OF st reported_in [OF m]] s(3) by simp
  qed
  define s1 where "s1 = find_link nodeMap n p (status, M)"
  have 1: "follows s1 status M (port_reports nodeMap M0 n p)"
    using find_link_follows [of nodeMap M p n status, OF q] port_reports_same [OF Cons.prems(2) p n(2)]
    by (simp add: s1_def)
  then have "same_reports M0 (snd s1)" using same_reports_trans [OF Cons.prems(2)] by (simp add: follows_def)
  from Cons.IH [OF _ this, of "fst s1"] Cons.prems(1)
  have "follows (fold (\<lambda>(k, p). find_link nodeMap n p) es s1) (fst s1) (snd s1)
    (concat (map (\<lambda>(k, p). port_reports nodeMap M0 n p) es))" by simp
  from follows_trans [OF 1 this] show ?case by (simp add: e s1_def)
qed

lemma find_links_follows:
  assumes st: "store_ok M0" and m: "map_in M0 nodeMap" and r: "raw_in M0 raw" and s: "same_reports M0 M"
  shows "follows (find_links nodeMap raw (status, M)) status M (node_reports nodeMap M0 raw)"
proof (cases "rn_nodeData raw")
  case None
  then show ?thesis by (simp add: find_links_def node_reports_def follows_nil)
next
  case (Some n)
  then have n: "n \<in> node_set M0" "snd ` set (rn_portIdMap raw) \<subseteq> ports_at M0 n" using r by (auto simp: raw_in_def)
  show ?thesis
  proof (cases "NodeType (node_of M0 n) = NODE_FI")
    case True
    then show ?thesis using Some same_reportsD(1) [OF s, of n] by (simp add: find_links_def node_reports_def follows_nil)
  next
    case False
    then show ?thesis using Some same_reportsD(1) [OF s, of n] find_ports_follows [OF st m n(1) False n(2) s, of status]
      by (simp add: find_links_def node_reports_def)
  qed
qed

lemma find_all_follows:
  assumes st: "store_ok M0" and m: "map_in M0 nodeMap" and "\<forall>raw \<in> set raws. raw_in M0 raw" "same_reports M0 M"
  shows "follows (fold (find_links nodeMap) raws (status, M)) status M (link_reports nodeMap M0 raws)"
  using assms(3,4)
proof (induction raws arbitrary: status M)
  case Nil
  then show ?case by (simp add: link_reports_def follows_nil)
next
  case (Cons raw raws)
  define s1 where "s1 = find_links nodeMap raw (status, M)"
  have 1: "follows s1 status M (node_reports nodeMap M0 raw)"
    using find_links_follows [OF st m _ Cons.prems(2)] Cons.prems(1) by (simp add: s1_def)
  then have "same_reports M0 (snd s1)" using same_reports_trans [OF Cons.prems(2)] by (simp add: follows_def)
  from Cons.IH [OF _ this, of "fst s1"] Cons.prems(1)
  have "follows (fold (find_links nodeMap) raws s1) (fst s1) (snd s1) (link_reports nodeMap M0 raws)" by simp
  from follows_trans [OF 1 this] show ?case by (simp add: s1_def link_reports_def)
qed

subsection \<open>The map of the nodes\<close>

definition node_map :: "(node \<Rightarrow> bool) \<Rightarrow> fabric_state \<Rightarrow> raw_node list \<Rightarrow> (node \<times> port omap) omap" where
  "node_map obj M raws = fst (fold (map_raw_node obj M) raws ([], HMGT_STATUS_SUCCESS))"

definition map_status :: "(node \<Rightarrow> bool) \<Rightarrow> fabric_state \<Rightarrow> raw_node list \<Rightarrow> hmgt_status" where
  "map_status obj M raws = snd (fold (map_raw_node obj M) raws ([], HMGT_STATUS_SUCCESS))"

lemma map_in_insert:
  assumes "map_in M nodeMap" "m \<in> node_set M" "omap_ok ids" "snd ` set ids \<subseteq> ports_at M m"
  shows "map_in M (omap_insert k (m, ids) nodeMap)"
proof -
  have "\<forall>x \<in> insert (m, ids) (snd ` set nodeMap). case x of (m, ids) \<Rightarrow> m \<in> node_set M \<and> omap_ok ids \<and> snd ` set ids \<subseteq> ports_at M m"
    using assms unfolding map_in_def by blast
  then show ?thesis using omap_insert_values [of k "(m, ids)" nodeMap] unfolding map_in_def by blast
qed

lemma map_raw_node_in:
  assumes "raw_in M raw" "map_in M nodeMap"
  shows "map_in M (fst (map_raw_node obj M raw (nodeMap, status)))"
proof (cases "rn_nodeData raw")
  case None
  then show ?thesis using assms(2) by (simp add: map_raw_node_def)
next
  case (Some n)
  then have "map_in M (omap_insert k (n, rn_portIdMap raw) nodeMap)" for k
    using assms(1) by (intro map_in_insert assms(2)) (simp_all add: raw_in_def)
  then show ?thesis using Some assms(2) by (simp add: map_raw_node_def)
qed

lemma node_map_in:
  assumes "\<forall>raw \<in> set raws. raw_in M raw"
  shows "map_in M (node_map obj M raws)"
proof -
  have "map_in M (fst (fold (map_raw_node obj M) raws (nodeMap, status)))" if "map_in M nodeMap" for nodeMap status
    using assms that
  proof (induction raws arbitrary: nodeMap status)
    case (Cons raw raws)
    obtain nm st where "map_raw_node obj M raw (nodeMap, status) = (nm, st)" by force
    then show ?case using Cons map_raw_node_in [of M raw nodeMap obj status] by simp
  qed simp
  moreover have "map_in M []" by (simp add: map_in_def)
  ultimately show ?thesis unfolding node_map_def by blast
qed

definition all_raws :: "raw_node list option list \<Rightarrow> raw_node list" where
  "all_raws allNodes = concat (map (case_option [] id) allNodes)"

definition all_reports :: "(node \<Rightarrow> bool) \<Rightarrow> fabric_state \<Rightarrow> raw_node list option list \<Rightarrow> report list" where
  "all_reports obj M allNodes = link_reports (node_map obj M (all_raws allNodes)) M (all_raws allNodes)"

lemma process_fab_data_follows:
  assumes st: "store_ok M" and r: "\<forall>raw \<in> set (all_raws allNodes). raw_in M raw"
  shows "follows (process_fab_data obj allNodes M) (map_status obj M (all_raws allNodes)) M (all_reports obj M allNodes)"
proof -
  obtain nodeMap status where nm: "fold (map_raw_node obj M) (all_raws allNodes) ([], HMGT_STATUS_SUCCESS) = (nodeMap, status)"
    by force
  have m: "map_in M nodeMap" using node_map_in [OF r, of obj] by (simp add: node_map_def nm)
  show ?thesis using find_all_follows [OF st m r same_reports_refl, of status] nm
    by (simp add: process_fab_data_def node_map_def map_status_def all_raws_def all_reports_def)
qed

subsection \<open>The invariant\<close>

lemma pairs_keep:
  assumes "fabric_ok M" "\<forall>(p, q) \<in> set ps. p \<in> port_set M \<and> q \<in> port_set M"
  shows "fabric_ok (M\<lparr>fab := run_pairs ps (fab M)\<rparr>) \<and> lost (M\<lparr>fab := run_pairs ps (fab M)\<rparr>) = lost M \<and>
    port_set (M\<lparr>fab := run_pairs ps (fab M)\<rparr>) = port_set M"
  using assms
proof (induction ps arbitrary: M)
  case Nil
  then show ?case by (simp add: run_pairs_def)
next
  case (Cons e ps)
  obtain p q where e: "e = (p, q)" by (cases e)
  define M1 where "M1 = M\<lparr>fab := link_step (AddLink p q) (fab M)\<rparr>"
  have 1: "fabric_ok M1 \<and> lost M1 = lost M \<and> port_set M1 = port_set M" unfolding M1_def
    using link_keeps [OF Cons.prems(1), of "AddLink p q"] Cons.prems(2) by (simp add: build_ok_def e)
  have "M\<lparr>fab := run_pairs (e # ps) (fab M)\<rparr> = M1\<lparr>fab := run_pairs ps (fab M1)\<rparr>"
    by (simp add: M1_def e run_pairs_def)
  then show ?case using Cons.IH [of M1] 1 Cons.prems(2) by simp
qed

lemma pinfo_keeps:
  "fabric_ok (M\<lparr>pinfo := I\<rparr>) = fabric_ok M" "lost (M\<lparr>pinfo := I\<rparr>) = lost M" "port_set (M\<lparr>pinfo := I\<rparr>) = port_set M"
proof -
  have e: "node_set (M\<lparr>pinfo := I\<rparr>) = node_set M" "system_set (M\<lparr>pinfo := I\<rparr>) = system_set M"
    "ports_at (M\<lparr>pinfo := I\<rparr>) = ports_at M" "counters_of (M\<lparr>pinfo := I\<rparr>) = counters_of M"
    "node_ok (M\<lparr>pinfo := I\<rparr>) = node_ok M"
    by (simp_all add: node_set_def system_set_def ports_at_def counters_of_def node_ok_def fun_eq_iff)
  then show p: "port_set (M\<lparr>pinfo := I\<rparr>) = port_set M" by (simp add: port_set_def)
  have o: "owned (M\<lparr>pinfo := I\<rparr>) = owned M" by (simp add: owned_def e p)
  then show "lost (M\<lparr>pinfo := I\<rparr>) = lost M" by (simp add: lost_def)
  have "system_ok (M\<lparr>pinfo := I\<rparr>) = system_ok M" by (simp add: system_ok_def fun_eq_iff e)
  then have "store_ok (M\<lparr>pinfo := I\<rparr>) = store_ok M" by (simp add: store_ok_def memory_ok_def e p o)
  then show "fabric_ok (M\<lparr>pinfo := I\<rparr>) = fabric_ok M" by (simp add: fabric_ok_def p)
qed

lemma reports_in:
  assumes st: "store_ok M" and r: "\<forall>raw \<in> set (all_raws allNodes). raw_in M raw"
  shows "\<forall>(p, q) \<in> set (pairs (all_reports obj M allNodes)). p \<in> port_set M \<and> q \<in> port_set M"
proof -
  have m: "map_in M (node_map obj M (all_raws allNodes))" using node_map_in [OF r] .
  have "p \<in> port_set M \<and> q \<in> port_set M" if i: "(p, Some q) \<in> set (all_reports obj M allNodes)" for p q
  proof -
    obtain raw where raw: "raw \<in> set (all_raws allNodes)" "(p, Some q) \<in> set (node_reports (node_map obj M (all_raws allNodes)) M raw)"
      using i by (auto simp: all_reports_def link_reports_def)
    obtain n k where n: "rn_nodeData raw = Some n" "(k, p) \<in> set (rn_portIdMap raw)"
      "Some q = map_option snd (reported (node_map obj M (all_raws allNodes)) M p)"
      using raw(2) by (fastforce simp: node_reports_def port_reports_def split: option.splits if_splits)
    obtain j where j: "reported (node_map obj M (all_raws allNodes)) M p = Some (j, q)"
      using n(3) by (cases "reported (node_map obj M (all_raws allNodes)) M p") auto
    have "n \<in> node_set M" "p \<in> ports_at M n" using r raw(1) n(1,2) unfolding raw_in_def by force+
    then show ?thesis using reported_in [OF m j] by (auto simp: port_set_def)
  qed
  then show ?thesis using in_pairs by auto
qed

lemma process_fab_data_keeps:
  assumes ok: "fabric_ok M" and r: "\<forall>raw \<in> set (all_raws allNodes). raw_in M raw"
    and p: "process_fab_data obj allNodes M = (status, M')"
  shows "fabric_ok M' \<and> lost M' = lost M \<and> port_set M' = port_set M"
proof -
  have st: "store_ok M" using ok by (simp add: fabric_ok_def)
  let ?ps = "pairs (all_reports obj M allNodes)"
  have f: "same_reports M M'" "fab M' = run_pairs ?ps (fab M)"
    using process_fab_data_follows [OF st r, of obj] run_reports_links [of "all_reports obj M allNodes"]
    unfolding follows_def p by (simp_all, metis snd_conv)
  have "M' = (M\<lparr>fab := run_pairs ?ps (fab M)\<rparr>)\<lparr>pinfo := pinfo M'\<rparr>" using f unfolding same_reports_def by metis
  then show ?thesis using pairs_keep [OF ok reports_in [OF st r, of obj]] pinfo_keeps by metis
qed

subsection \<open>The status\<close>

definition settled :: "fabric_data \<Rightarrow> port \<times> port \<Rightarrow> bool" where
  "settled F e \<longleftrightarrow> neighbor (pdata F (fst e)) = None \<and> neighbor (pdata F (snd e)) = None \<or>
     neighbor (pdata F (fst e)) = Some (snd e) \<and> neighbor (pdata F (snd e)) = Some (fst e)"

lemma settled_add:
  assumes one: "one_link ps" and ps: "(p, q) \<in> set ps" "e \<in> set ps" and s: "settled F (p, q)" "settled F e"
  shows "settled (link_step (AddLink p q) F) e"
proof (cases "{fst e, snd e} = {p, q}")
  case True
  then have e: "e = (p, q) \<or> e = (q, p)" by (cases e) (auto simp: doubleton_eq_iff)
  show ?thesis
  proof (cases "neighbor (pdata F p) = None \<and> neighbor (pdata F q) = None")
    case True
    then have "link_step (AddLink p q) F = count_link 1 p (F\<lparr>pdata := linked F p q\<rparr>)" by (simp add: add_link_cases)
    then show ?thesis using e by (auto simp: settled_def linked_def)
  next
    case False
    then have "link_step (AddLink p q) F = F" unfolding link_step.simps add_link_cases by (simp only: if_False snd_conv)
    then show ?thesis using e s by metis
  qed
next
  case False
  have "{fst e, snd e} \<inter> {fst (p, q), snd (p, q)} = {}" using one ps False unfolding one_link_def by (metis fst_conv snd_conv)
  then have "neighbor (pdata (link_step (AddLink p q) F) x) = neighbor (pdata F x)" if "x \<in> {fst e, snd e}" for x
    unfolding add_link_neighbor using that by auto
  then show ?thesis using s(2) unfolding settled_def by simp
qed

lemma run_reports_success:
  assumes "one_link (pairs rs)" "\<forall>r \<in> set rs. snd r \<noteq> None" "\<forall>e \<in> set (pairs rs). settled F e"
  shows "fst (run_reports rs (HMGT_STATUS_SUCCESS, F)) = HMGT_STATUS_SUCCESS"
proof -
  have "fst (run_reports rs' (HMGT_STATUS_SUCCESS, F)) = HMGT_STATUS_SUCCESS"
    if "set rs' \<subseteq> set rs" "\<forall>e \<in> set (pairs rs). settled F e" for rs'
    using that
  proof (induction rs' arbitrary: F)
    case (Cons r rs')
    obtain p q where r: "r = (p, Some q)" using assms(2) Cons.prems(1) by (cases r) fastforce
    have i: "(p, q) \<in> set (pairs rs)" using Cons.prems(1) by (simp add: in_pairs r)
    then have s: "settled F (p, q)" using Cons.prems(2) by blast
    have 1: "run_report r (HMGT_STATUS_SUCCESS, F) = (HMGT_STATUS_SUCCESS, link_step (AddLink p q) F)"
      using s by (auto simp: r settled_def add_link_cases hmgt_of_def)
    have "\<forall>e \<in> set (pairs rs). settled (link_step (AddLink p q) F) e"
      using settled_add [OF assms(1) i _ s] Cons.prems(2) by blast
    then show ?case using Cons.IH Cons.prems(1) 1 by (simp add: run_reports_def)
  qed (simp add: run_reports_def)
  then show ?thesis using assms(3) by blast
qed

lemma map_status_success: "\<forall>n. obj n \<Longrightarrow> map_status obj M raws = HMGT_STATUS_SUCCESS"
proof -
  assume o: "\<forall>n. obj n"
  have "snd (fold (map_raw_node obj M) raws s) = snd s" for s
  proof (induction raws arbitrary: s)
    case (Cons raw raws)
    have "snd (map_raw_node obj M raw s) = snd s" using o by (cases s) (auto simp: map_raw_node_def split: option.split)
    then show ?case using Cons by simp
  qed simp
  then show ?thesis by (simp add: map_status_def)
qed

subsection \<open>A sweep\<close>

definition data_in :: "fabric_state \<Rightarrow> (nat \<Rightarrow> raw_node list option) \<Rightarrow> bool" where
  "data_in M data \<longleftrightarrow> (\<forall>i raws. data i = Some raws \<longrightarrow> (\<forall>raw \<in> set raws. raw_in M raw))"

definition responses_ok :: "bool \<Rightarrow> response list \<Rightarrow> bool" where
  "responses_ok down rs \<longleftrightarrow> (\<forall>r \<in> set rs. \<forall>raw \<in> set (snd (fst (snd r))). raw_records_ok down raw)"

lemma process_responses_correct:
  assumes "fabric_ok M" "data_in M data" "all_alloc alloc" "responses_ok (ff_downportinfo M) rs"
  shows "\<exists>data' M'. process_responses alloc objs rs (data, M) = Some (data', M') \<and> grown alloc M M' \<and> data_in M' data'"
  using assms
proof (induction rs arbitrary: data M)
  case Nil
  then show ?case using grown_refl by auto
next
  case (Cons r rs)
  obtain i status raws counters where r: "r = (i, (status, raws), counters)" by (metis prod.exhaust)
  from process_dev_data_correct [OF Cons.prems(1) _ Cons.prems(3), of raws objs status counters] Cons.prems(4)
  obtain d M1 where
    1: "process_dev_data alloc objs (status, raws) counters M = Some (d, M1)" "grown alloc M M1"
    "\<forall>nodeList. d = Some nodeList \<longrightarrow> (\<forall>raw \<in> set nodeList. raw_in M1 raw)" by (auto simp: r responses_ok_def)
  have 2: "data_in M1 (data(i := d))"
    using Cons.prems(2) raw_in_grown [OF _ 1(2)] 1(3) unfolding data_in_def by (metis fun_upd_apply)
  have 3: "fabric_ok M1" "ff_downportinfo M1 = ff_downportinfo M" using 1(2) by (simp_all add: grown_def)
  have "responses_ok (ff_downportinfo M1) rs" using Cons.prems(4) 3(2) by (simp add: responses_ok_def)
  from Cons.IH [OF 3(1) 2 Cons.prems(3) this] obtain data' M' where
    "process_responses alloc objs rs (data(i := d), M1) = Some (data', M')" "grown alloc M1 M'" "data_in M' data'" by blast
  then show ?case using 1(1) grown_trans [OF 1(2)] by (auto simp: r)
qed

lemma data_in_raws: "data_in M data \<Longrightarrow> raw \<in> set (all_raws (map data is)) \<Longrightarrow> raw_in M raw"
proof -
  assume d: "data_in M data" and r: "raw \<in> set (all_raws (map data is))"
  obtain i where "raw \<in> set (case_option [] id (data i))" using r by (auto simp: all_raws_def)
  then show ?thesis using d unfolding data_in_def by (cases "data i") auto
qed

text \<open>Links do not touch the map of LIDs.\<close>

lemma AddLink_table: "FabricDataAddLink (fab M) p q = (st, F) \<Longrightarrow> table (M\<lparr>fab := F\<rparr>) = table M"
  using link_step_only [of "fab M" "AddLink p q"] by (simp add: links_only_def table_def)

lemma find_link_table: "find_link nodeMap n p (st, M) = (st', M') \<Longrightarrow> table M' = table M"
proof -
  assume f: "find_link nodeMap n p (st, M) = (st', M')"
  have i: "table (set_neighbor_info n p m q M) = table M" for m q by (simp add: set_neighbor_info_def Let_def)
  show ?thesis using f AddLink_table i
    by (fastforce simp: find_link_def Let_def split: if_splits option.splits prod.splits)
qed

lemma fold_table:
  assumes "\<And>x st M st' M'. f x (st, M) = (st', M') \<Longrightarrow> table M' = table M" and "fold f xs (st, M) = (st', M')"
  shows "table M' = table M"
  using assms(2)
proof (induction xs arbitrary: st M)
  case (Cons x xs)
  obtain st1 M1 where s: "f x (st, M) = (st1, M1)" by force
  show ?case using Cons assms(1) [OF s] s by simp
qed simp

lemma find_links_table: "find_links nodeMap raw (st, M) = (st', M') \<Longrightarrow> table M' = table M"
  using fold_table [of "\<lambda>(k, p). find_link nodeMap (the (rn_nodeData raw)) p"] find_link_table
  by (auto simp: find_links_def split: option.splits if_splits)

lemma process_fab_data_table: "process_fab_data obj allNodes M = (st, M') \<Longrightarrow> table M' = table M"
  using fold_table [OF find_links_table] by (auto simp: process_fab_data_def Let_def split: prod.splits)

lemma collect_data_correct:
  assumes ok: "fabric_ok M" and al: "all_alloc alloc"
    and r: "responses_ok (ff_downportinfo M) rs"
  obtains st M' M1 where "collect_data alloc objs obj n rs M = Some (st, M')" "fabric_ok M'" "lost M' = lost M1"
    "port_set M' = port_set M1" "grown alloc M M1" "table M' = table M1"
proof -
  have "data_in M (\<lambda>_. None)" by (simp add: data_in_def)
  from process_responses_correct [OF ok this al r, of objs] obtain data M1 where
    1: "process_responses alloc objs rs ((\<lambda>_. None), M) = Some (data, M1)" "grown alloc M M1" "data_in M1 data" by blast
  obtain st M' where p: "process_fab_data obj (map data [0..<n]) M1 = (st, M')" by force
  have "fabric_ok M1" using 1(2) by (simp add: grown_def)
  from process_fab_data_keeps [OF this _ p] data_in_raws [OF 1(3)] have
    "fabric_ok M' \<and> lost M' = lost M1 \<and> port_set M' = port_set M1" by blast
  then show ?thesis using that 1(1,2) p process_fab_data_table [OF p] by (simp add: collect_data_def)
qed

end
