(* ===== verification/Fabric_Claims.thy ===== *)
theory Fabric_Claims
  imports LidMap_Props
begin

text \<open>
  The properties of the links and of the map of LIDs of a fabric
  (\<^verbatim>\<open>Topology/fabricdata.c\<close>), and the concrete fabric their witnesses are about.
\<close>

text \<open>Ports 0 and 1 of two hosts, port 2 of a switch; nothing is linked and no LID is entered.\<close>

definition sample_port :: "node \<Rightarrow> uint16 \<Rightarrow> uint32 \<Rightarrow> nat \<Rightarrow> port_data" where
  "sample_port n k lid lmc = \<lparr>nodep = n, PortNum = k, LocalPortId = ''p'', PortGUID = 1, EndPortLID = lid, PortInfo_LID = lid,
     PortInfo_LMC = lmc, PortState = ETH_PORT_UP, PortInfo_MTU2 = 1500, rate = 7, neighbor = None, fromp = False,
     elinkp = None\<rparr>"

definition sample_node :: "uint64 \<Rightarrow> uint8 \<Rightarrow> port omap \<Rightarrow> node_data" where
  "sample_node guid ty ps = \<lparr>NodeGUID = guid, SystemImageGUID = 0, NodeType = ty, NodeDesc = ''n'', systemp = 0,
     NodePorts = ps, enodep = None\<rparr>"

definition sample_fabric :: fabric_data where
  "sample_fabric = \<lparr>
     pdata = (\<lambda>p. if p = 0 then sample_port 0 1 4 2 else if p = 1 then sample_port 1 1 6 0 else sample_port 2 3 3 1),
     ndata = (\<lambda>n. if n = 0 then sample_node 10 NODE_FI [(1, 0)] else if n = 1 then sample_node 20 NODE_FI [(1, 1)]
       else sample_node 30 NODE_SW [(3, 2)]),
     ldata = (\<lambda>_. \<lparr>portselp1 = None, portselp2 = None, portp1 = None, portp2 = None, expected_rate = 0,
       expected_mtu = 0,       expected_mtu2 = 0, internal = False, matchLevel = 0\<rparr>),
     edata = (\<lambda>_. \<lparr>en_nodep = None, en_NodeGUID = 0, en_NodeType = 0, en_NodeDesc = None,
       portsSize = 0, ports = [], connected = False\<rparr>),
     lid_array = True, LidBlocks = (\<lambda>_. None), AllLids = [], lidCount = 0, AllNodes = [(10, 0), (20, 1), (30, 2)],
     AllPorts = [0, 1, 2], AllFIs = [0, 1], AllSWs = [2], LinkCount = 0, ExtLinkCount = 0, FILinkCount = 0,
     ISLinkCount = 0, ExtISLinkCount = 0, ExpectedLinks = [], ExpectedFIs = [], ExpectedSWs = [],
     ExpectedNodeGuidMap = []\<rparr>"

lemma sample_pdata [simp]:
  "pdata sample_fabric p = (if p = 0 then sample_port 0 1 4 2 else if p = 1 then sample_port 1 1 6 0 else sample_port 2 3 3 1)"
  by (simp add: sample_fabric_def)

lemma sample_port_fields [simp]:
  "neighbor (sample_port n k lid lmc) = None" "\<not> fromp (sample_port n k lid lmc)"
  "PortGUID (sample_port n k lid lmc) = 1" "EndPortLID (sample_port n k lid lmc) = lid"
  "PortInfo_LMC (sample_port n k lid lmc) = lmc" "PortState (sample_port n k lid lmc) = ETH_PORT_UP"
  by (simp_all add: sample_port_def)

lemma sample_unlinked: "neighbor (pdata sample_fabric p) = None" "\<not> fromp (pdata sample_fabric p)"
  by simp_all

lemma sample_links_ok: "links_ok sample_fabric"
  unfolding links_ok_def links_shape_def links_counted_def counted_def from_class_def
  by (simp add: sample_unlinked del: sample_pdata) (simp add: sample_fabric_def)

lemma sample_lids [simp]: "GetMapEntry sample_fabric l = None" "lid_array sample_fabric"
  by (simp_all add: GetMapEntry_def sample_fabric_def)

subsection \<open>Links\<close>

text \<open>
  C19.  Whatever links are added and removed, and whether or not the single calls succeed:
  neighbours point at each other, exactly one of two linked ports is the "from" port, and the
  five link counters of the fabric are the numbers of "from" ports whose links are of their
  class (all, external, host, inter-switch, external inter-switch).
\<close>

theorem link_counters_exact:
  assumes "links_ok F"
  shows "links_ok (fold link_step ops F)"
  using assms by (rule link_steps_ok)

theorem link_counters_exact_witness:
  "links_ok (fold link_step [AddLink 0 2, AddLink 1 2, RemoveLink 2, AddLink 2 1] sample_fabric)"
  by (rule link_counters_exact [OF sample_links_ok])

text \<open>
  C20.  Removing a link that has just been added, from either end, gives back the fabric as it
  was, but for the rates of the two ports, which are cleared.
\<close>

theorem link_remove_undoes_add:
  assumes "links_ok F" "FabricDataAddLink F p q = (FSUCCESS, G)" "r = p \<or> r = q" "p \<noteq> q"
  shows "FabricDataRemoveLink G r =
    (FSUCCESS, F\<lparr>pdata := \<lambda>x. if x = p \<or> x = q then (pdata F x)\<lparr>rate := 0\<rparr> else pdata F x\<rparr>)"
proof -
  have "links_shape F" using assms(1) by (simp add: links_ok_def)
  from remove_added [OF this assms(2-4)] show ?thesis .
qed

theorem link_remove_undoes_add_witness:
  "FabricDataRemoveLink (snd (FabricDataAddLink sample_fabric 0 2)) 2 =
    (FSUCCESS, sample_fabric\<lparr>pdata := \<lambda>x. if x = 0 \<or> x = 2 then (pdata sample_fabric x)\<lparr>rate := 0\<rparr> else pdata sample_fabric x\<rparr>)"
proof -
  have "FabricDataAddLink sample_fabric 0 2 = (FSUCCESS, snd (FabricDataAddLink sample_fabric 0 2))"
    by (simp add: add_link_cases)
  from link_remove_undoes_add [OF sample_links_ok this, of 2] show ?thesis by simp
qed

subsection \<open>The map of LIDs\<close>

text \<open>
  An entry of the array of LIDs reads back what was written last, also when its block had
  to be allocated, and no other LID is affected; a LID out of range is refused and reads as
  unused.
\<close>

theorem lid_entry_roundtrip:
  assumes "pd = None \<or> alloc (block_num lid) \<or> LidBlocks F (block_num lid) \<noteq> None"
  shows "if lid \<le> TOPLM_LID_MAX
    then fst (SetMapEntry alloc F lid pd) = FSUCCESS \<and>
      GetMapEntry (snd (SetMapEntry alloc F lid pd)) = (GetMapEntry F)(lid := pd)
    else SetMapEntry alloc F lid pd = (FERROR, F) \<and> GetMapEntry F lid = None"
  using assms get_set_entry [of lid pd alloc F] set_entry_out [of lid alloc F pd]
  by (auto simp: GetMapEntry_def)

theorem lid_entry_roundtrip_witness:
  "GetMapEntry (snd (SetMapEntry (\<lambda>_. True) sample_fabric 20000 (Some 1))) = (GetMapEntry sample_fabric)(20000 := Some 1)"
  using lid_entry_roundtrip [of "Some 1" "\<lambda>_. True" 20000 sample_fabric] by simp

text \<open>
  \<^verbatim>\<open>AllLidsAdd\<close> on a port all of whose LIDs are free or its own already enters it at
  every LID of its range, counts the new ones, and leaves the rest of the map and of the fabric.
\<close>

theorem lids_add_enters_range:
  assumes "lid_array F" "lid_port F p" "all_alloc alloc"
    and "\<forall>l \<in> lid_range F p. GetMapEntry F l = None \<or> GetMapEntry F l = Some p"
  shows "\<exists>G. AllLidsAdd alloc F p force = Some (FSUCCESS, G) \<and> lids_of F G \<and>
    lidCount G = lidCount F + of_nat (card {l \<in> lid_range F p. GetMapEntry F l = None}) \<and>
    GetMapEntry G = (\<lambda>l. if l \<in> lid_range F p then Some p else GetMapEntry F l)"
  using assms by (rule add_port_free)

theorem lids_add_enters_range_witness:
  "\<exists>G. AllLidsAdd (\<lambda>_. True) sample_fabric 0 False = Some (FSUCCESS, G) \<and> GetMapEntry G 7 = Some 0 \<and>
    GetMapEntry G 8 = None"
proof -
  have "lid_port sample_fabric 0" by (simp add: lid_port_def)
  from lids_add_enters_range [OF _ this, of "\<lambda>_. True" False]
  show ?thesis by (auto simp: all_alloc_def lid_range_def last_lid_def)
qed

text \<open>
  C21.  Without \<^verbatim>\<open>force\<close> the addition of a port is atomic: if some LID of its range belongs
  to another port, \<^verbatim>\<open>FDUPLICATE\<close> is returned and the LIDs entered up to there have been taken
  out again, the count included.
\<close>

theorem lids_add_conflict_undone:
  assumes "lid_array F" "lid_port F p" "all_alloc alloc"
    and "\<forall>l \<in> lid_range F p. GetMapEntry F l \<noteq> Some p" "\<exists>l \<in> lid_range F p. GetMapEntry F l \<noteq> None"
  shows "\<exists>G. AllLidsAdd alloc F p False = Some (FDUPLICATE, G) \<and> lids_of F G \<and>
    lidCount G = lidCount F \<and> GetMapEntry G = GetMapEntry F"
  using assms by (rule add_port_conflict)

definition conflict_fabric :: fabric_data where
  "conflict_fabric = snd (SetMapEntry (\<lambda>_. True) sample_fabric 6 (Some 1))"

lemma conflict_entries [simp]: "GetMapEntry conflict_fabric = (GetMapEntry sample_fabric)(6 := Some 1)"
  unfolding conflict_fabric_def by (rule enter_entry) (simp_all add: all_alloc_def)

lemma conflict_rest [simp]: "lid_array conflict_fabric" "pdata conflict_fabric = pdata sample_fabric"
  using lids_of_fields [of sample_fabric conflict_fabric] by (simp_all add: conflict_fabric_def)

theorem lids_add_conflict_undone_witness:
  "\<exists>G. AllLidsAdd (\<lambda>_. True) conflict_fabric 0 False = Some (FDUPLICATE, G) \<and>
    GetMapEntry G = GetMapEntry conflict_fabric"
proof -
  have "lid_port conflict_fabric 0" by (simp add: lid_port_def)
  moreover have "(6 :: uint32) \<in> lid_range conflict_fabric 0" by (simp add: lid_range_def last_lid_def)
  then have "\<exists>l \<in> lid_range conflict_fabric 0. GetMapEntry conflict_fabric l \<noteq> None" by (rule bexI [rotated]) simp
  moreover have "\<forall>l \<in> lid_range conflict_fabric 0. GetMapEntry conflict_fabric l \<noteq> Some 0" by simp
  moreover have "all_alloc (\<lambda>_. True)" by (simp add: all_alloc_def)
  ultimately show ?thesis
    using lids_add_conflict_undone [OF conflict_rest(1), of 0 "\<lambda>_. True"] by blast
qed

text \<open>
  C22.  Removing a port after it has been added into free LIDs gives back the map.  The count is
  lowered by two to the LMC though it was raised by the number of LIDs entered, so it is given
  back exactly when the port has that many LIDs; it has, when its LID is aligned.
\<close>

theorem lids_remove_undoes_add:
  assumes "lid_array F" "lid_port F p" "all_alloc alloc" "\<forall>l \<in> lid_range F p. GetMapEntry F l = None"
  shows "\<exists>G H. AllLidsAdd alloc F p force = Some (FSUCCESS, G) \<and> AllLidsRemove G p = Some H \<and> lids_of F H \<and>
    GetMapEntry H = GetMapEntry F \<and>
    lidCount H = lidCount F + of_nat (card (lid_range F p)) - 2 ^ PortInfo_LMC (pdata F p) \<and>
    (lid_aligned F p \<longrightarrow> lidCount H = lidCount F)"
proof -
  have all: "{l \<in> lid_range F p. GetMapEntry F l = None} = lid_range F p" using assms(4) by blast
  from add_port_free [OF assms(1-3), of force] assms(4) obtain G where
    G: "AllLidsAdd alloc F p force = Some (FSUCCESS, G)" "lids_of F G"
      "lidCount G = lidCount F + of_nat (card (lid_range F p))"
      "GetMapEntry G = (\<lambda>l. if l \<in> lid_range F p then Some p else GetMapEntry F l)"
    unfolding all by blast
  note fields = lids_of_fields [OF G(2)]
  have lp: "lid_array G" "lid_port G p" "lid_range G p = lid_range F p"
    using assms(1,2) by (simp_all add: lid_port_def lid_range_def fields)
  from remove_port [OF lp(1,2)] obtain H where
    H: "AllLidsRemove G p = Some H" "lids_of G H" "lidCount H = lidCount G - push_bit (PortInfo_LMC (pdata F p)) 1"
      "GetMapEntry H = (\<lambda>l. if l \<in> lid_range F p then None else GetMapEntry G l)"
    unfolding lp(3) fields by blast
  have "GetMapEntry H = GetMapEntry F" unfolding H(4) G(4) using assms(4) by (auto simp: fun_eq_iff)
  moreover have n: "lidCount H = lidCount F + of_nat (card (lid_range F p)) - 2 ^ PortInfo_LMC (pdata F p)"
    using G(3) H(3) by (simp add: push_bit_eq_mult)
  moreover have "lid_aligned F p \<longrightarrow> lidCount H = lidCount F"
    using n range_aligned [OF _ assms(2)] by auto
  ultimately show ?thesis using G(1) H(1) lids_of_trans [OF G(2) H(2)] by blast
qed

theorem lids_remove_undoes_add_witness:
  "\<exists>G H. AllLidsAdd (\<lambda>_. True) sample_fabric 2 False = Some (FSUCCESS, G) \<and> AllLidsRemove G 2 = Some H \<and>
    lidCount sample_fabric = 0 \<and> lidCount H = 0xFFFFFFFF"
proof -
  have p: "lid_port sample_fabric 2" by (simp add: lid_port_def)
  have "lid_range sample_fabric 2 = {l. 3 \<le> l \<and> l \<le> 3}" by (simp add: lid_range_def last_lid_def)
  then have c: "card (lid_range sample_fabric 2) = 1" using card_word_range [of 3 "3 :: uint32"] by simp
  have "lidCount sample_fabric = 0" by (simp add: sample_fabric_def)
  with lids_remove_undoes_add [OF _ p, of "\<lambda>_. True" False] c show ?thesis by (auto simp: all_alloc_def)
qed

text \<open>
  C23.  \<^verbatim>\<open>AllLidsRemove\<close> of a port that is up returns, in the mode with the array, exactly
  when the last LID of the port is not the greatest 32-bit number: the loop counter cannot get
  past that.  (\<^verbatim>\<open>AllLidsAdd\<close> refuses such a port, \<^verbatim>\<open>AllLidsRemove\<close> does not.)
\<close>

theorem lids_remove_returns:
  assumes "lid_array F" "PortGUID (pdata F p) \<noteq> 0" "EndPortLID (pdata F p) \<noteq> 0"
    "PortState (pdata F p) = ETH_PORT_UP"
  shows "(\<exists>G. AllLidsRemove F p = Some G) \<longleftrightarrow> last_lid (EndPortLID (pdata F p)) (PortInfo_LMC (pdata F p)) \<noteq> - 1"
proof -
  let ?a = "EndPortLID (pdata F p)" and ?l = "last_lid (EndPortLID (pdata F p)) (PortInfo_LMC (pdata F p))"
  have "(\<exists>G. clear_lids F ?a ?l = Some G) \<longleftrightarrow> ?l \<noteq> - 1"
  proof (cases "?l = - 1")
    case True
    then show ?thesis using clear_lids_endless [of F ?a] by simp
  next
    case False
    then have "?l < - 1" by (simp add: word_order.not_eq_extremum)
    with False show ?thesis using clear_lids_correct [of ?l F ?a] by blast
  qed
  then show ?thesis using assms by (simp add: AllLidsRemove_def Let_def)
qed

theorem lids_remove_returns_witness:
  "AllLidsRemove (sample_fabric\<lparr>pdata := \<lambda>_. sample_port 0 1 0xFFFFFFFF 0\<rparr>) 0 = None"
proof -
  let ?F = "sample_fabric\<lparr>pdata := \<lambda>_. sample_port 0 1 0xFFFFFFFF 0\<rparr>"
  have "lid_array ?F" by (simp add: sample_fabric_def)
  from lids_remove_returns [OF this, of 0]
  have "\<not> (\<exists>G. AllLidsRemove ?F 0 = Some G)" by (simp add: last_lid_def)
  then show ?thesis by simp
qed

end
