(* ===== verification/FabricBuild_Claims.thy ===== *)
theory FabricBuild_Claims
  imports FabricBuild_Blocks Fabric_Claims
begin

text \<open>
  The properties of the construction and destruction of the data of a fabric
  (\<^verbatim>\<open>Topology/fabricdata.c\<close>), and the concrete memories their witnesses are about.
\<close>

text \<open>A memory before \<^verbatim>\<open>InitFabricData\<close>: block 50 is in use by somebody else.\<close>

definition sample_memory :: fabric_state where
  "sample_memory = \<lparr>fab = sample_fabric, sdata = (\<lambda>_. \<lparr>sd_SystemImageGUID = 0, sd_Nodes = []\<rparr>), AllSystems = [],
     pinfo = (\<lambda>_. \<lparr>NeighborNodeGUID = 0, NeighborPortId = [], NeighborPortNum = 0, NeighborNodeType = 0\<rparr>),
     pPortCounters = (\<lambda>_. 0), ff_stats = False, ff_downportinfo = False, live = {50}, next_blocks = [11, 12, 13, 14, 15, 16], lid_leaked = 0\<rparr>"

definition sample_start :: "bool \<Rightarrow> fabric_state" where
  "sample_start stats = snd (InitFabricData True stats True sample_memory)"

lemma sample_init: "InitFabricData True stats True sample_memory = (FSUCCESS, sample_start stats)"
  by (simp add: sample_start_def InitFabricData_def)

lemma sample_memory_clear: "0 \<notin> live sample_memory" "neighbor (port_of sample_memory p) = None \<and> \<not> fromp (port_of sample_memory p)"
  using sample_unlinked by (simp_all add: sample_memory_def del: sample_pdata)

lemmas sample_start_ok = InitFabricData_ok [OF sample_memory_clear sample_init]

definition host_record :: node_record where
  "host_record = \<lparr>nr_NodeGUID = 10, nr_SystemImageGUID = 0, nr_NodeType = NODE_FI, nr_NodeDesc = ''h''\<rparr>"

definition up_record :: "uint16 \<Rightarrow> uint32 \<Rightarrow> portinfo_record" where
  "up_record num lid = \<lparr>pr_EndPortLID = lid, pr_PortNum = num, pr_LocalPortNum = num, pr_LID = lid, pr_LMC = 0,
     pr_PortState = ETH_PORT_UP, pr_MTU2 = 1500, pr_IfSpeed = 10000, pr_LocalPortId = ''p'',
     pr_info = \<lparr>NeighborNodeGUID = 0, NeighborPortId = [], NeighborPortNum = 0, NeighborNodeType = 0\<rparr>\<rparr>"

lemma up_record_ok: "lid \<noteq> 0 \<or> ff_downportinfo M \<Longrightarrow> portinfo_ok M n guid (up_record num lid)"
  by (auto simp: portinfo_ok_def port_record_def up_record_def Let_def up_port_def)

text \<open>One host, and then its port.\<close>

definition sample_host :: "bool \<Rightarrow> fabric_state" where
  "sample_host stats = snd (the (FabricDataAddNode host_record (sample_start stats)))"

lemma sample_host_eq: "FabricDataAddNode host_record (sample_start stats) = Some (Some (11, True), sample_host stats)"
  by (simp add: sample_host_def sample_start_def InitFabricData_def clear_fabric_def sample_memory_def FabricDataAddNode_def
      new_block_def put_node_def put_AllNodes_def host_record_def AddSystemNode_def system_key_def put_Nodes_def
      omap_get_def Let_def)

lemma sample_host_built: "built alloc (sample_start stats) (sample_host stats)"
  by (rule built.step [OF built.start, of "AddNode host_record"]) (simp_all add: build_ok_def build_exec_def sample_host_eq)

lemma all_alloc_True: "all_alloc (\<lambda>_. True)"
  by (simp add: all_alloc_def)

lemma sample_host_ok: "fabric_ok (sample_host stats)" "lost (sample_host stats) = {50}" "ff_stats (sample_host stats) = stats"
    "ff_downportinfo (sample_host stats)"
  using add_node_correct [OF sample_start_ok(1), of host_record] sample_start_ok(2-4)
  by (auto simp: sample_host_eq added_node_def sample_memory_def)

lemma sample_host_node: "11 \<in> node_set (sample_host stats)"
  using add_node_correct [OF sample_start_ok(1), of host_record]
  by (auto simp: sample_host_eq added_node_def intro: node_in)

definition sample_ported :: fabric_state where
  "sample_ported = snd (the (NodeDataAddPort (\<lambda>_. True) 11 10 (up_record 1 0) (sample_host True)))"

lemmas sample_defs = sample_host_def sample_start_def InitFabricData_def clear_fabric_def sample_memory_def
  FabricDataAddNode_def new_block_def put_node_def put_AllNodes_def host_record_def AddSystemNode_def system_key_def
  put_Nodes_def omap_get_def Let_def

lemma sample_ported_eq: "NodeDataAddPort (\<lambda>_. True) 11 10 (up_record 1 0) (sample_host True) = Some (Some 13, sample_ported)"
  by (simp add: sample_ported_def NodeDataAddPort_def sample_defs up_record_def port_record_def put_port_def put_ports_def)

lemma sample_ported_ok: "fabric_ok sample_ported" "11 \<in> node_set sample_ported" "lost sample_ported = {50}"
  "ff_stats sample_ported" "ff_downportinfo sample_ported"
  using add_port_correct [OF sample_host_ok(1) sample_host_node up_record_ok all_alloc_True, of 0 True 10 1]
    sample_host_ok(2-4) [of True] sample_host_node [of True]
  by (auto simp: sample_ported_eq added_port_def Let_def node_set_def)

lemma sample_ported_blocks: "next_blocks sample_ported = [15, 16]" "live sample_ported = {50, 11, 12, 13, 14}"
  "omap_get (ucast (PortNum (port_record sample_ported 11 10 (up_record 1 0)))) (NodePorts (node_of sample_ported 11)) = Some 13"
  by (auto simp add: sample_ported_def NodeDataAddPort_def sample_defs up_record_def port_record_def put_port_def put_ports_def)

subsection \<open>Programs that build a fabric\<close>

text \<open>
  C24.  Every program of additions of nodes and ports, of additions and removals of links and of
  frees of unlinked nodes, started from an initialised fabric, leaves a well formed fabric, and
  every call that is permitted there returns and leaves one again: it follows no dangling pointer
  and removes nothing that is not in a map.  Blocks of the array of LIDs can be allocated; every
  other allocation may fail.
\<close>

theorem fabric_programs_well_formed:
  assumes "0 \<notin> live M0" and "\<And>p. neighbor (port_of M0 p) = None \<and> \<not> fromp (port_of M0 p)"
    and "InitFabricData arr stats down M0 = (st, M1)" and "all_alloc alloc" and "built alloc M1 M"
  shows "fabric_ok M \<and> (build_ok op M \<longrightarrow> (\<exists>M'. build_exec alloc op M = Some M' \<and> fabric_ok M'))"
proof -
  have ok: "fabric_ok M" using built_ok [OF assms(5) InitFabricData_ok(1) [OF assms(1-3)] assms(4)] by simp
  then show ?thesis using build_step [OF ok assms(4)] by blast
qed

theorem fabric_programs_well_formed_witness:
  "fabric_ok (sample_host True) \<and> (\<exists>M'. build_exec (\<lambda>_. True) (AddPort 11 10 (up_record 1 4)) (sample_host True) = Some M' \<and> fabric_ok M')"
proof -
  have "build_ok (AddPort 11 10 (up_record 1 4)) (sample_host True)"
    using sample_host_node by (simp add: build_ok_def up_record_ok)
  then show ?thesis
    using fabric_programs_well_formed [OF sample_memory_clear sample_init all_alloc_True sample_host_built, of True] by blast
qed

text \<open>
  C25.  Without counters, and when the blocks of the array of LIDs can be allocated, destroying a
  fabric that a program has built frees every block that the program has allocated, and no other:
  the blocks in use are those before the fabric was initialised, and when the fabric is cleared its
  array of LIDs holds no block that would be lost with it.  The fabric is left cleared.
\<close>

theorem fabric_gives_memory_back:
  assumes "0 \<notin> live M0" and "\<And>p. neighbor (port_of M0 p) = None \<and> \<not> fromp (port_of M0 p)"
    and "InitFabricData arr False down M0 = (st, M1)" and "all_alloc alloc" and "built alloc M1 M"
  shows "\<exists>M'. DestroyFabricData M = Some M' \<and> live M' = live M0 \<and> lid_leaked M' = lid_leaked M0 \<and>
    AllNodes (fab M') = [] \<and> AllSystems M' = [] \<and>
    LinkCount (fab M') = 0 \<and> lidCount (fab M') = 0"
proof -
  note I = InitFabricData_ok [OF assms(1-3)]
  have B: "fabric_ok M" "lost M = live M0" using built_ok [OF assms(5) I(1) assms(4)] I(2,3) by auto
  then obtain M' where "DestroyFabricData M = Some M'" "live M' = lost M" "fab M' = clear_fabric (fab M')" "AllSystems M' = []"
    using DestroyFabricData_correct [of M] by (auto simp: fabric_ok_def)
  moreover have "AllNodes (clear_fabric F) = [] \<and> LinkCount (clear_fabric F) = 0 \<and> lidCount (clear_fabric F) = 0" for F
    by (simp add: clear_fabric_def)
  moreover have "blocks_ok (fab M)" "lid_leaked M = lid_leaked M0"
    using init_table [OF assms(3)] built_table [OF assms(5)] keeps_blocks_ok by (auto simp: keeps_table_def)
  ultimately show ?thesis using B(2) destroy_leaks_no_lids by metis
qed

text \<open>A host with a port that has the LID 4, so that the array of LIDs has a block.\<close>

theorem fabric_gives_memory_back_witness:
  "\<exists>M. build_exec (\<lambda>_. True) (AddPort 11 10 (up_record 1 4)) (sample_host False) = Some M \<and>
    (\<exists>M'. DestroyFabricData M = Some M' \<and> live M' = {50} \<and> lid_leaked M' = 0)"
proof -
  have ok: "build_ok (AddPort 11 10 (up_record 1 4)) (sample_host False)"
    using sample_host_node by (simp add: build_ok_def up_record_ok)
  obtain M where M: "build_exec (\<lambda>_. True) (AddPort 11 10 (up_record 1 4)) (sample_host False) = Some M"
    using build_step [OF sample_host_ok(1) all_alloc_True ok] by blast
  then have "built (\<lambda>_. True) (sample_start False) M" by (rule built.step [OF sample_host_built ok])
  from fabric_gives_memory_back [OF sample_memory_clear sample_init all_alloc_True this]
  show ?thesis using M by (auto simp: sample_memory_def)
qed

subsection \<open>Nodes\<close>

text \<open>
  C30.  FabricDataAddNode on a well formed fabric: it returns the node that has the GUID already, or
  a new node with the fields of the record in AllNodes, which is then in the system of its image
  GUID; or, when memory runs out, NULL and the maps are as before.  In every case the fabric stays
  well formed, no block is lost, and no other node and no port changes.
\<close>

theorem add_node_by_cases:
  assumes "fabric_ok M"
  shows "\<exists>res M'. FabricDataAddNode r M = Some (res, M') \<and> fabric_ok M' \<and> lost M' = lost M \<and>
    (\<forall>n \<in> node_set M. node_of M' n = node_of M n) \<and> (\<forall>p \<in> port_set M. port_of M' p = port_of M p) \<and>
    (case res of
       None \<Rightarrow> AllNodes (fab M') = AllNodes (fab M) \<and> AllSystems M' = AllSystems M
     | Some (n, new) \<Rightarrow> omap_get (nr_NodeGUID r) (AllNodes (fab M')) = Some n \<and>
         (if new then omap_get (nr_NodeGUID r) (AllNodes (fab M)) = None \<and>
            AllNodes (fab M') = omap_insert (nr_NodeGUID r) n (AllNodes (fab M)) \<and>
            NodeType (node_of M' n) = nr_NodeType r \<and> NodePorts (node_of M' n) = [] \<and>
            (\<exists>s. omap_get (if nr_SystemImageGUID r \<noteq> 0 then nr_SystemImageGUID r else nr_NodeGUID r) (AllSystems M') = Some s \<and>
              omap_get (nr_NodeGUID r) (sd_Nodes (sdata M' s)) = Some n)
          else AllNodes (fab M') = AllNodes (fab M) \<and> AllSystems M' = AllSystems M))"
proof -
  obtain res M' where A: "FabricDataAddNode r M = Some (res, M')" "added_node M r res M'" using add_node_correct [OF assms] by blast
  have st: "store_ok M'" using A(2) by (simp add: added_node_def fabric_ok_def)
  have sys: "omap_get (system_key (node_of M' n)) (AllSystems M') = Some (systemp (node_of M' n)) \<and>
    omap_get k (sd_Nodes (sdata M' (systemp (node_of M' n)))) = Some n" if "omap_get k (AllNodes (fab M')) = Some n" for k n
  proof -
    have s: "omap_get (system_key (node_of M' n)) (AllSystems M') = Some (systemp (node_of M' n))"
      using st that by (auto simp: store_ok_def node_ok_def)
    then have "system_ok M' (system_key (node_of M' n)) (systemp (node_of M' n))" using st by (simp add: store_ok_def)
    then show ?thesis using s that by (simp add: system_ok_def)
  qed
  show ?thesis
  proof (cases res)
    case None
    then show ?thesis using A by (simp add: added_node_def)
  next
    case (Some x)
    obtain n new where x: "x = (n, new)" by (cases x)
    have g: "omap_get (nr_NodeGUID r) (AllNodes (fab M')) = Some n" using A(2) Some x by (simp add: added_node_def)
    show ?thesis
    proof (cases new)
      case False
      have e: "AllNodes (fab M') = AllNodes (fab M)" "AllSystems M' = AllSystems M" using A(2) Some x False by (simp_all add: added_node_def)
      show ?thesis using A Some x False g unfolding e by (simp add: added_node_def)
    next
      case True
      obtain s where s: "node_of M' n = new_node r s" using A(2) Some x True by (auto simp: added_node_def)
      have "system_key (node_of M' n) = (if nr_SystemImageGUID r \<noteq> 0 then nr_SystemImageGUID r else nr_NodeGUID r)"
        "NodeType (node_of M' n) = nr_NodeType r" "NodePorts (node_of M' n) = []"
        by (simp_all add: s system_key_def new_node_def)
      then show ?thesis using sys [OF g] A Some x True by (auto simp: added_node_def)
    qed
  qed
qed

theorem add_node_by_cases_witness:
  "\<exists>res M'. FabricDataAddNode host_record (sample_host True) = Some (res, M') \<and> fabric_ok M' \<and> lost M' = {50}"
  using add_node_by_cases [OF sample_host_ok(1), of host_record True] sample_host_ok(2) [of True] by metis

text \<open>
  C33.  NodeDataFree of a node of a well formed fabric whose ports are not linked returns: the node,
  its ports and their LIDs and counters are gone, its system is gone exactly when it was the last
  node of it, nothing is lost and what is left is well formed.
\<close>

theorem free_node_by_cases:
  assumes "fabric_ok M" and "n \<in> node_set M" and "\<And>p. p \<in> ports_at M n \<Longrightarrow> neighbor (port_of M p) = None"
  shows "\<exists>M'. NodeDataFree n M = Some M' \<and> fabric_ok M' \<and> lost M' = lost M \<and> node_set M' = node_set M - {n} \<and>
    port_set M' = port_set M - ports_at M n \<and> n \<notin> live M' \<and>
    (systemp (node_of M n) \<in> system_set M' \<longleftrightarrow> (\<exists>m \<in> node_set M - {n}. systemp (node_of M m) = systemp (node_of M n)))"
proof -
  have st: "store_ok M" and le: "lids_exact (port_set M) (fab M)" using assms(1) by (simp_all add: fabric_ok_def)
  from NodeDataFree_correct [OF st le assms(2)] obtain M' where M': "NodeDataFree n M = Some M'" "node_gone M n M'" by blast
  note G = node_gone_sets [OF st assms(2) M'(2)]
  have s: "systemp (node_of M n) \<in> system_set M" using system_at(1) [OF st assms(2)] by (rule system_in)
  have l: "n \<notin> live M'" using node_goneD(10) [OF M'(2)] by (simp add: node_blocks_def)
  have "systemp (node_of M n) \<in> system_set M' \<longleftrightarrow> (\<exists>m \<in> node_set M - {n}. systemp (node_of M m) = systemp (node_of M n))"
    using s G(2) by (auto simp: last_node_def)
  then show ?thesis using M'(1) node_gone_links [OF assms(1,2) M'(2) assms(3)] node_gone_ok(2) [OF st assms(2) M'(2)] G(1,3) l
    by blast
qed

theorem free_node_by_cases_witness:
  "\<exists>M'. NodeDataFree 11 (sample_host True) = Some M' \<and> fabric_ok M' \<and> lost M' = {50} \<and> 11 \<notin> node_set M'"
proof -
  have "neighbor (port_of (sample_host True) p) = None" for p
    using sample_unlinked by (simp add: sample_host_def sample_start_def InitFabricData_def clear_fabric_def sample_memory_def
      FabricDataAddNode_def new_block_def put_node_def put_AllNodes_def host_record_def AddSystemNode_def system_key_def
      put_Nodes_def omap_get_def Let_def del: sample_pdata)
  then show ?thesis using free_node_by_cases [OF sample_host_ok(1) sample_host_node] sample_host_ok(2) [of True] by fastforce
qed

subsection \<open>Ports\<close>

text \<open>
  C31.  NodeDataAddPort on a well formed fabric: on success the port is in the map of its node under
  its number, which was free, and holds every field of the record: number, local id, GUID (0 but
  for hosts and port 0 of a switch), LIDs, state, MTU, rate and the reported neighbour; its LIDs are
  in the map of LIDs when it is active.  On failure maps and ports are as before.  The fabric stays
  well formed, and blocks are lost only on failure and only when counters are allocated.  Blocks of
  the array of LIDs can be allocated; every other allocation may fail.
\<close>

theorem add_port_by_cases:
  assumes "fabric_ok M" and "n \<in> node_set M" and "portinfo_ok M n guid r" and "all_alloc alloc"
  shows "\<exists>res M'. NodeDataAddPort alloc n guid r M = Some (res, M') \<and> fabric_ok M' \<and> AllNodes (fab M') = AllNodes (fab M) \<and>
    (\<forall>p \<in> port_set M. port_of M' p = port_of M p) \<and>
    (case res of
       None \<Rightarrow> node_of M' = node_of M \<and> port_set M' = port_set M \<and> (\<not> ff_stats M \<longrightarrow> lost M' = lost M)
     | Some p \<Rightarrow> omap_get (ucast (PortNum (port_of M' p))) (NodePorts (node_of M n)) = None \<and>
         omap_get (ucast (PortNum (port_of M' p))) (NodePorts (node_of M' n)) = Some p \<and>
         port_set M' = insert p (port_set M) \<and> lost M' = lost M \<and> nodep (port_of M' p) = n \<and> neighbor (port_of M' p) = None \<and>
         PortNum (port_of M' p) = (if NodeType (node_of M n) = NODE_SW then pr_PortNum r else pr_LocalPortNum r) \<and>
         PortGUID (port_of M' p) = (if NodeType (node_of M n) = NODE_SW \<and> pr_PortNum r \<noteq> 0 then 0 else guid) \<and>
         LocalPortId (port_of M' p) = pr_LocalPortId r \<and> EndPortLID (port_of M' p) = pr_EndPortLID r \<and>
         PortInfo_LID (port_of M' p) = pr_LID r \<and> PortInfo_LMC (port_of M' p) = pr_LMC r \<and>
         PortState (port_of M' p) = pr_PortState r \<and> PortInfo_MTU2 (port_of M' p) = pr_MTU2 r \<and>
         rate (port_of M' p) = EthMbpsToStaticRate (pr_IfSpeed r) \<and> pinfo M' p = pr_info r \<and>
         (up_port (port_of M' p) \<longrightarrow> lid_port (fab M') p))"
proof -
  obtain res M' where A: "NodeDataAddPort alloc n guid r M = Some (res, M')" "added_port M n guid r res M'"
    using add_port_correct [OF assms] by blast
  have f: "fabric_ok M'" "\<forall>p \<in> port_set M. port_of M' p = port_of M p" "AllNodes (fab M') = AllNodes (fab M)"
    using A(2) by (simp_all add: added_port_def)
  show ?thesis
  proof (cases res)
    case None
    have "lost M' = lost M \<union> (live M' - live M) \<and> (live M' = live M \<or> ff_stats M)" "node_of M' = node_of M" "port_set M' = port_set M"
      using A(2) None by (simp_all add: added_port_def Let_def)
    then show ?thesis using A(1) None f by auto
  next
    case (Some p)
    let ?k = "ucast (PortNum (port_record M n guid r)) :: uint64"
    have P: "omap_get ?k (NodePorts (node_of M n)) = None" "port_of M' p = port_record M n guid r"
      "node_of M' = (node_of M)(n := (node_of M n)\<lparr>NodePorts := omap_insert ?k p (NodePorts (node_of M n))\<rparr>)"
      "port_set M' = insert p (port_set M)" "lost M' = lost M" "pinfo M' p = pr_info r"
      using A(2) Some by (simp_all add: added_port_def Let_def)
    have po: "omap_ok (NodePorts (node_of M n))" using node_ports_ok [OF _ assms(2)] assms(1) by (simp add: fabric_ok_def)
    have fields: "PortGUID (port_record M n guid r) = (if NodeType (node_of M n) = NODE_SW \<and> pr_PortNum r \<noteq> 0 then 0 else guid)"
      "LocalPortId (port_record M n guid r) = pr_LocalPortId r" "EndPortLID (port_record M n guid r) = pr_EndPortLID r"
      "PortInfo_LID (port_record M n guid r) = pr_LID r" "PortInfo_LMC (port_record M n guid r) = pr_LMC r"
      "PortState (port_record M n guid r) = pr_PortState r" "PortInfo_MTU2 (port_record M n guid r) = pr_MTU2 r"
      "rate (port_record M n guid r) = EthMbpsToStaticRate (pr_IfSpeed r)"
      by (simp_all add: port_record_def Let_def)
    have r: "nodep (port_record M n guid r) = n" "neighbor (port_record M n guid r) = None"
      "PortNum (port_record M n guid r) = (if NodeType (node_of M n) = NODE_SW then pr_PortNum r else pr_LocalPortNum r)"
      by (simp_all add: port_record_def Let_def)
    have l: "up_port (port_of M' p) \<longrightarrow> lid_port (fab M') p" using f(1) P(4) by (auto simp: fabric_ok_def lids_exact_def)
    have g: "omap_get ?k (omap_insert ?k p (NodePorts (node_of M n))) = Some p" using omap_get_insert [OF po] P(1) by simp
    show ?thesis using A(1) Some f P(1,4,5,6) fields r g l by (simp add: P(2,3))
  qed
qed

theorem add_port_by_cases_witness:
  "\<exists>M'. NodeDataAddPort (\<lambda>_. True) 11 10 (up_record 1 0) (sample_host True) = Some (Some 13, M') \<and> fabric_ok M' \<and>
    lost M' = {50} \<and> neighbor (port_of M' 13) = None"
  using add_port_by_cases [OF sample_host_ok(1) sample_host_node up_record_ok all_alloc_True, of 0 True 10 1]
    sample_host_ok(2,4) [of True] by (simp add: sample_ported_eq)

text \<open>
  C32.  With counters, a port whose number is taken is refused only after its counters have been
  allocated; the port is freed but the counters are not: their block is lost for good.
\<close>

theorem refused_port_leaks_counters:
  assumes "fabric_ok M" and "n \<in> node_set M" and "portinfo_ok M n guid r" and "all_alloc alloc" and "ff_stats M"
    and "next_blocks M = p # c # bs" and "p \<notin> insert 0 (live M)" and "c \<notin> insert 0 (insert p (live M))"
    and "omap_get (ucast (PortNum (port_record M n guid r))) (NodePorts (node_of M n)) \<noteq> None"
  shows "\<exists>M'. NodeDataAddPort alloc n guid r M = Some (None, M') \<and> lost M' = insert c (lost M) \<and>
    (\<forall>M2. DestroyFabricData M' = Some M2 \<longrightarrow> c \<in> live M2)"
proof -
  obtain res M' where A: "NodeDataAddPort alloc n guid r M = Some (res, M')" "added_port M n guid r res M'"
    using add_port_correct [OF assms(1-4)] by blast
  have "\<exists>M'. NodeDataAddPort alloc n guid r M = Some (None, M') \<and> live M' = insert c (live M)"
  proof -
    define M1 where "M1 = M\<lparr>next_blocks := c # bs, live := insert p (live M)\<rparr>"
    define M2 where "M2 = M1\<lparr>next_blocks := bs, live := insert c (live M1)\<rparr>"
    have 1: "new_block M = (p, M1)" "p \<noteq> 0" using assms(6,7) by (simp_all add: new_block_def M1_def)
    have 2: "new_block M1 = (c, M2)" "c \<noteq> 0" using assms(8) by (simp_all add: new_block_def M2_def M1_def)
    have f: "ff_stats M1" "fab M2 = fab M" "live M2 = insert c (insert p (live M))" using assms(5) by (simp_all add: M2_def M1_def)
    have "port_record M2 n guid r = port_record M n guid r" using f(2) by (simp add: port_record_def)
    then have "\<exists>M'. NodeDataAddPort alloc n guid r M = Some (None, M') \<and> live M' = live M2 - {p}"
      using 1 2 f(1,2) assms(9) by (simp add: NodeDataAddPort_def put_port_def free_block_def Let_def)
    moreover have "live M2 - {p} = insert c (live M)" using f(3) assms(7,8) by auto
    ultimately show ?thesis by simp
  qed
  then have r: "res = None" "live M' = insert c (live M)" using A(1) by auto
  have c: "c \<notin> live M" using assms(8) by simp
  have l: "lost M' = insert c (lost M)" using A(2) r c by (auto simp: added_port_def Let_def)
  have "fabric_ok M'" using A(2) by (simp add: added_port_def)
  then have "\<exists>M2. DestroyFabricData M' = Some M2 \<and> live M2 = lost M'"
    using DestroyFabricData_correct [of M'] by (auto simp: fabric_ok_def)
  then show ?thesis using A(1) r l by auto
qed

theorem refused_port_leaks_counters_witness:
  "\<exists>M'. NodeDataAddPort (\<lambda>_. True) 11 10 (up_record 1 0) sample_ported = Some (None, M') \<and> lost M' = {16, 50}"
  using refused_port_leaks_counters [OF sample_ported_ok(1,2) up_record_ok all_alloc_True sample_ported_ok(4) sample_ported_blocks(1), of 0 10 1]
    sample_ported_blocks(2,3) sample_ported_ok(3,5) by auto

subsection \<open>The lists\<close>

lemma sorted_wrt_distinct: "sorted_wrt R xs \<Longrightarrow> (\<And>x. \<not> R x x) \<Longrightarrow> distinct xs"
  by (induction xs) auto

text \<open>
  C34.  BuildFabricDataLists of a well formed fabric whose lists are empty: AllPorts holds each port of
  the fabric once, by GUID of the node and number of the port; AllFIs and AllSWs hold exactly the
  hosts and the switches, by GUID.
\<close>

theorem fabric_lists_complete:
  assumes "fabric_ok M" and "AllPorts (fab M) = []" and "AllFIs (fab M) = []" and "AllSWs (fab M) = []"
  shows "let F = BuildFabricDataLists (fab M) in
    sorted_wrt (port_before F) (AllPorts F) \<and> distinct (AllPorts F) \<and> set (AllPorts F) = port_set M \<and>
    sorted_wrt (node_before F) (AllFIs F) \<and> set (AllFIs F) = {n \<in> node_set M. NodeType (ndata F n) = NODE_FI} \<and>
    sorted_wrt (node_before F) (AllSWs F) \<and> set (AllSWs F) = {n \<in> node_set M. NodeType (ndata F n) = NODE_SW}"
proof -
  have st: "store_ok M" using assms(1) by (simp add: fabric_ok_def)
  define F where "F = BuildFabricDataLists (fab M)"
  have F: "pdata F = pdata (fab M)" "ndata F = ndata (fab M)" "AllPorts F = ports_in_order (fab M)"
    "AllFIs F = nodes_of_type (fab M) NODE_FI" "AllSWs F = nodes_of_type (fab M) NODE_SW"
    using assms(2-4) by (simp_all add: F_def BuildFabricDataLists_eq)
  have b: "port_before F = port_before (fab M)" "node_before F = node_before (fab M)"
    by (simp_all add: port_before_def node_before_def F fun_eq_iff)
  note P = ports_sorted [OF st] and N = nodes_sorted [OF st]
  have irr: "\<not> port_before (fab M) p p" for p by (simp add: port_before_def)
  have d: "distinct (ports_in_order (fab M))" using sorted_wrt_distinct [OF P(1)] irr by blast
  have n: "sorted_wrt (node_before (fab M)) (nodes_of_type (fab M) t)"
    "set (nodes_of_type (fab M) t) = {n \<in> node_set M. NodeType (node_of M n) = t}" for t
    using N by (auto simp: nodes_of_type_def sorted_wrt_filter)
  show ?thesis unfolding F_def [symmetric] Let_def b F using P d n by simp
qed

theorem fabric_lists_complete_witness:
  "set (AllPorts (BuildFabricDataLists (fab sample_ported))) = port_set sample_ported"
proof -
  have "AllPorts (fab sample_ported) = []" "AllFIs (fab sample_ported) = []" "AllSWs (fab sample_ported) = []"
    by (simp_all add: sample_ported_def NodeDataAddPort_def sample_defs up_record_def port_record_def put_port_def put_ports_def)
  from fabric_lists_complete [OF sample_ported_ok(1) this] show ?thesis by (simp add: Let_def)
qed

end
