(* ===== verification/Discovery_Claims.thy ===== *)
theory Discovery_Claims
  imports Discovery_Links FabricBuild_Claims
begin

text \<open>
  The properties of discovery (\<^verbatim>\<open>Topology/hpnmgt_snmp.c\<close>), and the small network their witnesses are
  about: a switch whose ports 1 and 2 report the ports of two hosts, and port 3 an unknown node.
\<close>

definition port_rec :: "uint16 \<Rightarrow> string \<Rightarrow> uint64 \<Rightarrow> string \<Rightarrow> portinfo_record" where
  "port_rec num pid guid nbr = \<lparr>pr_EndPortLID = 0, pr_PortNum = num, pr_LocalPortNum = num, pr_LID = ucast num, pr_LMC = 0,
     pr_PortState = ETH_PORT_UP, pr_MTU2 = 1500, pr_IfSpeed = 10000, pr_LocalPortId = pid,
     pr_info = \<lparr>NeighborNodeGUID = guid, NeighborPortId = nbr, NeighborPortNum = 0, NeighborNodeType = 0\<rparr>\<rparr>"

definition raw_rec :: "uint64 \<Rightarrow> uint8 \<Rightarrow> portinfo_record list \<Rightarrow> raw_node" where
  "raw_rec guid ty rs = \<lparr>rn_node = \<lparr>nr_NodeGUID = guid, nr_SystemImageGUID = 0, nr_NodeType = ty, nr_NodeDesc = ''n''\<rparr>,
     rn_LID = 1, rn_ifIndex = 1, rn_nodeData = None, rn_ports = Some rs, rn_portIdMap = []\<rparr>"

definition net_start :: fabric_state where
  "net_start = (sample_start False)\<lparr>next_blocks := [11..<40]\<rparr>"

definition switch_response :: "portinfo_record list \<Rightarrow> response" where
  "switch_response rs = (0, (HMGT_STATUS_SUCCESS, [raw_rec 30 NODE_SW rs]), (\<lambda>_. HMGT_STATUS_SUCCESS))"

definition host_response :: "nat \<Rightarrow> uint64 \<Rightarrow> string \<Rightarrow> response" where
  "host_response i guid pid = (i, (HMGT_STATUS_SUCCESS, [raw_rec guid NODE_FI [port_rec 1 pid 0 []]]), (\<lambda>_. HMGT_STATUS_SUCCESS))"

definition net_responses :: "portinfo_record list \<Rightarrow> response list" where
  "net_responses rs = [host_response 1 10 ''x'', switch_response rs, host_response 2 20 ''y'']"

definition good_ports :: "portinfo_record list" where
  "good_ports = [port_rec 1 ''a'' 10 ''x'', port_rec 2 ''b'' 20 ''y'']"

definition net_data :: "portinfo_record list \<Rightarrow> (nat \<Rightarrow> raw_node list option) \<times> fabric_state" where
  "net_data rs = the (process_responses (\<lambda>_. True) (\<lambda>_. (True, True)) (net_responses rs) ((\<lambda>_. None), net_start))"

abbreviation net_raws :: "portinfo_record list \<Rightarrow> raw_node list option list" where
  "net_raws rs \<equiv> map (fst (net_data rs)) [0..<3]"

definition bad_ports :: "portinfo_record list" where
  "bad_ports = [port_rec 1 ''a'' 10 ''x'', port_rec 2 ''b'' 10 ''x'', port_rec 3 ''c'' 20 ''y'']"

lemmas net_defs = net_data_def net_responses_def host_response_def switch_response_def port_rec_def raw_rec_def
  process_dev_data_def add_raw_node_def add_raw_port_def NodeDataAddPort_def net_start_def sample_defs upt_rec put_port_def
  put_ports_def port_record_def get_hash_def of_char_def

lemma good_reports: "all_reports (\<lambda>_. True) (snd (net_data good_ports)) (net_raws good_ports) = [(16, Some 13), (17, Some 20)]"
  by (simp add: net_defs good_ports_def all_reports_def all_raws_def link_reports_def node_reports_def port_reports_def node_map_def
    map_raw_node_def reported_def)

lemma net_free: "neighbor (port_of (snd (net_data good_ports)) p) = None"
  using sample_unlinked by (simp add: net_defs good_ports_def del: sample_pdata)

lemma bad_free: "neighbor (port_of (snd (net_data bad_ports)) p) = None"
  using sample_unlinked by (simp add: net_defs bad_ports_def del: sample_pdata)

lemma bad_reports: "all_reports (\<lambda>_. True) (snd (net_data bad_ports)) (net_raws bad_ports) =
    [(16, Some 13), (17, Some 13), (18, Some 21)]"
  by (simp add: net_defs bad_ports_def all_reports_def all_raws_def link_reports_def node_reports_def port_reports_def node_map_def
    map_raw_node_def reported_def)

lemma net_start_ok: "fabric_ok net_start" "lost net_start = {50}" "ff_stats net_start = False" "ff_downportinfo net_start"
proof -
  have e: "net_start = snd (InitFabricData True False True (sample_memory\<lparr>next_blocks := [11..<40]\<rparr>))"
    by (simp add: net_start_def sample_start_def InitFabricData_def)
  have i: "InitFabricData True False True (sample_memory\<lparr>next_blocks := [11..<40]\<rparr>) = (FSUCCESS, net_start)"
    unfolding e by (simp add: InitFabricData_def)
  have "0 \<notin> live (sample_memory\<lparr>next_blocks := [11..<40]\<rparr>)"
    "\<And>p. neighbor (port_of (sample_memory\<lparr>next_blocks := [11..<40]\<rparr>) p) = None \<and> \<not> fromp (port_of (sample_memory\<lparr>next_blocks := [11..<40]\<rparr>) p)"
    using sample_memory_clear by simp_all
  note I = InitFabricData_ok [OF this i]
  show "fabric_ok net_start" "lost net_start = {50}" "ff_stats net_start = False" "ff_downportinfo net_start"
    using I by (simp_all add: sample_memory_def)
qed

lemma net_responses_ok: "list_all (\<lambda>r. pr_LMC r = 0 \<and> pr_PortState r = ETH_PORT_UP) rs \<Longrightarrow> responses_ok True (net_responses rs)"
  by (auto simp: responses_ok_def net_responses_def host_response_def switch_response_def raw_records_ok_def raw_rec_def
    record_ok_def port_rec_def list_all_iff)

lemma net_ports_ok:
  "list_all (\<lambda>r. pr_LMC r = 0 \<and> pr_PortState r = ETH_PORT_UP) good_ports" "list_all (\<lambda>r. pr_LMC r = 0 \<and> pr_PortState r = ETH_PORT_UP) bad_ports"
  by (simp_all add: good_ports_def bad_ports_def port_rec_def)

lemma net_data_ok:
  assumes "list_all (\<lambda>r. pr_LMC r = 0 \<and> pr_PortState r = ETH_PORT_UP) rs"
  shows "fabric_ok (snd (net_data rs))" "\<forall>raw \<in> set (all_raws (net_raws rs)). raw_in (snd (net_data rs)) raw"
proof -
  have "data_in net_start (\<lambda>_. None)" by (simp add: data_in_def)
  from process_responses_correct [OF net_start_ok(1) this all_alloc_True, of "net_responses rs" "\<lambda>_. (True, True)"]
    net_responses_ok [OF assms] net_start_ok(4) obtain data M where
    "process_responses (\<lambda>_. True) (\<lambda>_. (True, True)) (net_responses rs) ((\<lambda>_. None), net_start) = Some (data, M)"
    "grown (\<lambda>_. True) net_start M" "data_in M data" by auto
  then have "net_data rs = (data, M)" "fabric_ok M" "data_in M data" by (simp_all add: net_data_def grown_def)
  then show "fabric_ok (snd (net_data rs))" "\<forall>raw \<in> set (all_raws (net_raws rs)). raw_in (snd (net_data rs)) raw"
    using data_in_raws by auto
qed

subsection \<open>A sweep\<close>

text \<open>
  C26.  A sweep over hosts, whatever the order in which they answer, comes to an end and leaves a well
  formed fabric: every port in the map of its node, every node in its system, the LIDs those of the
  active ports, links symmetric and counted.  Blocks of the array of LIDs can be allocated; every
  other allocation, of a node, a system, a port, counters or a map object, may fail, as may the
  reading of a host and the addition of any node or port.  Without counters, destroying that fabric
  returns exactly the blocks that the sweep has allocated, those of the array of LIDs included; with
  counters a refused port may have lost some.
\<close>

theorem sweep_well_formed:
  assumes "0 \<notin> live M0" and "\<And>p. neighbor (port_of M0 p) = None \<and> \<not> fromp (port_of M0 p)"
    and "InitFabricData arr stats down M0 = (st, M1)" and "all_alloc alloc" and "responses_ok down rs"
  shows "\<exists>status M. collect_data alloc objs obj numHosts rs M1 = Some (status, M) \<and> fabric_ok M \<and>
    (\<not> stats \<longrightarrow> (\<exists>M'. DestroyFabricData M = Some M' \<and> live M' = live M0 \<and> lid_leaked M' = lid_leaked M0))"
proof -
  note I = InitFabricData_ok [OF assms(1-3)]
  have "responses_ok (ff_downportinfo M1) rs" using assms(5) I(4) by simp
  from collect_data_correct [OF I(1) assms(4) this, of objs obj numHosts] obtain status M M2 where
    c: "collect_data alloc objs obj numHosts rs M1 = Some (status, M)" "fabric_ok M" "lost M = lost M2" "grown alloc M1 M2"
    "table M = table M2" .
  have "\<not> stats \<longrightarrow> lost M2 = live M0" using built_ok [OF _ I(1) assms(4)] c(4) I(2,3) by (auto simp: grown_def)
  moreover have "\<exists>M'. DestroyFabricData M = Some M' \<and> live M' = lost M"
    using DestroyFabricData_correct [of M] c(2) by (auto simp: fabric_ok_def)
  moreover have "keeps_table M1 M" using c(4) built_table [of alloc M1 M2] table_after [OF _ c(5)] by (simp add: grown_def)
  then have "blocks_ok (fab M)" "lid_leaked M = lid_leaked M0"
    using init_table [OF assms(3)] keeps_blocks_ok by (auto simp: keeps_table_def)
  ultimately show ?thesis using c(1-3) destroy_leaks_no_lids by metis
qed

theorem sweep_well_formed_witness:
  "\<exists>status M M'. collect_data (\<lambda>_. True) (\<lambda>_. (True, True)) (\<lambda>_. True) 3 (net_responses good_ports) (sample_start False) = Some (status, M) \<and>
     fabric_ok M \<and> DestroyFabricData M = Some M' \<and> live M' = {50} \<and> lid_leaked M' = 0"
  using sweep_well_formed [OF sample_memory_clear sample_init all_alloc_True net_responses_ok [OF net_ports_ok(1)], of _ _ _ False]
  by (auto simp: sample_memory_def)

subsection \<open>Links\<close>

text \<open>
  C27.  process_fab_data does nothing but follow the reports of the switch ports, in order: the links and
  the status are those of running the list of reports, in which a port comes with the port that the
  maps of nodes and port ids give for what it reports; no node and nothing of a port but its link
  and its report changes, and the fabric stays well formed with the same ports.
\<close>

theorem discovery_follows_reports:
  assumes "fabric_ok M" and "\<forall>raw \<in> set (all_raws allNodes). raw_in M raw" and "process_fab_data obj allNodes M = (status, M')"
  shows "(status, fab M') = run_reports (all_reports obj M allNodes) (map_status obj M (all_raws allNodes), fab M) \<and>
    ndata (fab M') = ndata (fab M) \<and> (\<forall>p. link_part (port_of M' p) = link_part (port_of M p)) \<and>
    fabric_ok M' \<and> port_set M' = port_set M \<and> lost M' = lost M"
proof -
  have "store_ok M" using assms(1) by (simp add: fabric_ok_def)
  from process_fab_data_follows [OF this assms(2), of obj] have
    "same_reports M M'" "(status, fab M') = run_reports (all_reports obj M allNodes) (map_status obj M (all_raws allNodes), fab M)"
    by (simp_all add: follows_def assms(3))
  then show ?thesis using process_fab_data_keeps [OF assms] by (simp add: same_reports_def)
qed

theorem discovery_follows_reports_witness:
  "\<exists>status M'. process_fab_data (\<lambda>_. True) (net_raws good_ports) (snd (net_data good_ports)) = (status, M') \<and> fabric_ok M' \<and>
     (status, fab M') = run_reports [(16, Some 13), (17, Some 20)] (HMGT_STATUS_SUCCESS, fab (snd (net_data good_ports)))"
proof -
  obtain status M' where p: "process_fab_data (\<lambda>_. True) (net_raws good_ports) (snd (net_data good_ports)) = (status, M')" by force
  show ?thesis using discovery_follows_reports [OF net_data_ok [OF net_ports_ok(1)] p] p map_status_success [of "\<lambda>_. True"]
    by (simp add: good_reports)
qed

text \<open>
  C28.  When every switch port reports a port that is known, no port is in two different reported
  pairs and none is linked yet, then after process_fab_data two ports are linked exactly when they
  were or one of them reports the other, and the status is success.
\<close>

theorem discovery_links_exact:
  assumes "fabric_ok M" and "\<forall>raw \<in> set (all_raws allNodes). raw_in M raw" and "process_fab_data obj allNodes M = (status, M')"
    and "\<forall>n. obj n" and "\<forall>r \<in> set (all_reports obj M allNodes). snd r \<noteq> None"
    and "one_link (pairs (all_reports obj M allNodes))"
    and "\<forall>(p, q) \<in> set (pairs (all_reports obj M allNodes)). neighbor (port_of M p) = None \<and> neighbor (port_of M q) = None"
  shows "status = HMGT_STATUS_SUCCESS \<and>
    (\<forall>p q. neighbor (port_of M' p) = Some q \<longleftrightarrow> neighbor (port_of M p) = Some q \<or>
       (p, Some q) \<in> set (all_reports obj M allNodes) \<or> (q, Some p) \<in> set (all_reports obj M allNodes))"
proof -
  let ?rs = "all_reports obj M allNodes"
  have st: "store_ok M" and lk: "links_ok (fab M)" using assms(1) by (simp_all add: fabric_ok_def linked_in_def)
  have e: "(status, fab M') = run_reports ?rs (HMGT_STATUS_SUCCESS, fab M)"
    using process_fab_data_follows [OF st assms(2), of obj] map_status_success [OF assms(4)] by (simp add: follows_def assms(3))
  then have F: "fab M' = run_pairs (pairs ?rs) (fab M)" and s: "status = fst (run_reports ?rs (HMGT_STATUS_SUCCESS, fab M))"
    using run_reports_links [of ?rs "(HMGT_STATUS_SUCCESS, fab M)"] by (metis snd_conv, metis fst_conv)
  have "settled (fab M) e" if "e \<in> set (pairs ?rs)" for e using assms(7) that by (auto simp: settled_def)
  then have 1: "status = HMGT_STATUS_SUCCESS" using run_reports_success [OF assms(6,5)] s by simp
  have free: "neighbor (pdata (fab M) p) = None" if "in_pair (pairs ?rs) p q" for p q
    using that assms(7) by (auto simp: in_pair_def)
  show ?thesis using 1 run_pairs_links [OF lk free assms(6)] unfolding F by (simp add: in_pair_def in_pairs)
qed

theorem discovery_links_exact_witness:
  "\<exists>M'. process_fab_data (\<lambda>_. True) (net_raws good_ports) (snd (net_data good_ports)) = (HMGT_STATUS_SUCCESS, M') \<and>
     neighbor (port_of M' 16) = Some 13 \<and> neighbor (port_of M' 20) = Some 17 \<and> neighbor (port_of M' 18) \<noteq> Some 13"
proof -
  obtain status M' where p: "process_fab_data (\<lambda>_. True) (net_raws good_ports) (snd (net_data good_ports)) = (status, M')" by force
  have "one_link [(16, 13), (17, 20)]" by (simp add: one_link_def)
  then show ?thesis using discovery_links_exact [OF net_data_ok [OF net_ports_ok(1)] p] p net_free
    by (simp add: good_reports)
qed

text \<open>
  C29.  The last report decides the status that process_fab_data returns, unless its two ports are
  linked to each other already, when it keeps the status of the reports before it: a port that is
  not found is partial success, a link that cannot be made is an error, and a link that is made is
  success whatever went wrong before it.  collect_data passes everything but an error on as success.
\<close>

theorem last_report_decides:
  assumes "fabric_ok M" and "\<forall>raw \<in> set (all_raws allNodes). raw_in M raw" and "process_fab_data obj allNodes M = (status, M')"
    and "all_reports obj M allNodes = rs @ [(p, x)]" and "F = run_pairs (pairs rs) (fab M)"
  shows "status = (case x of
      None \<Rightarrow> HMGT_STATUS_PARTIALLY_PROCESSED
    | Some q \<Rightarrow> if neighbor (pdata F p) = Some q \<and> neighbor (pdata F q) = Some p
        then fst (run_reports rs (map_status obj M (all_raws allNodes), fab M))
        else if neighbor (pdata F p) = None \<and> neighbor (pdata F q) = None then HMGT_STATUS_SUCCESS else HMGT_STATUS_ERROR) \<and>
    (collect_status status = HMGT_STATUS_SUCCESS \<longleftrightarrow> status \<noteq> HMGT_STATUS_ERROR)"
proof -
  have st: "store_ok M" using assms(1) by (simp add: fabric_ok_def)
  let ?s = "run_reports rs (map_status obj M (all_raws allNodes), fab M)"
  have "(status, fab M') = run_report (p, x) ?s"
    using process_fab_data_follows [OF st assms(2), of obj] by (simp add: follows_def assms(3,4) run_reports_def)
  moreover have "?s = (fst ?s, F)" using run_reports_links [of rs] assms(5) by (simp add: prod_eq_iff)
  ultimately have s: "status = fst (run_report (p, x) (fst ?s, F))" by (metis fst_conv)
  show ?thesis
  proof (cases x)
    case None
    then show ?thesis by (simp add: s collect_status_def)
  next
    case (Some q)
    show ?thesis unfolding s Some run_report.simps by (simp add: add_link_cases hmgt_of_def collect_status_def)
  qed
qed

theorem last_report_decides_witness:
  "\<exists>M'. process_fab_data (\<lambda>_. True) (net_raws bad_ports) (snd (net_data bad_ports)) = (HMGT_STATUS_SUCCESS, M') \<and>
     fst (run_reports [(16, Some 13), (17, Some 13)] (HMGT_STATUS_SUCCESS, fab (snd (net_data bad_ports)))) = HMGT_STATUS_ERROR"
proof -
  obtain status M' where p: "process_fab_data (\<lambda>_. True) (net_raws bad_ports) (snd (net_data bad_ports)) = (status, M')" by force
  define F where "F = run_pairs [(16, 13), (17, 13)] (fab (snd (net_data bad_ports)))"
  have r: "all_reports (\<lambda>_. True) (snd (net_data bad_ports)) (net_raws bad_ports) = [(16, Some 13), (17, Some 13)] @ [(18, Some 21)]"
    by (simp add: bad_reports)
  have "neighbor (pdata F 18) = None \<and> neighbor (pdata F 21) = None"
    unfolding F_def run_pairs_def by (simp add: add_link_neighbor bad_free del: link_step.simps)
  then have "status = HMGT_STATUS_SUCCESS"
    using last_report_decides [OF net_data_ok [OF net_ports_ok(2)] p r, of F] by (simp add: F_def)
  moreover have "fst (run_reports [(16, Some 13), (17, Some 13)] (HMGT_STATUS_SUCCESS, fab (snd (net_data bad_ports)))) = HMGT_STATUS_ERROR"
    by (simp add: run_reports_def bad_free add_link_cases linked_def hmgt_of_def)
  ultimately show ?thesis using p by blast
qed

end
