(* ===== verification/PortNumGen.thy ===== *)
theory PortNumGen
  imports KeyMap
begin

text \<open>
  The port number generator of \<^verbatim>\<open>Topology/port_num_gen.c\<close>: port names are split
  into segments of letters and of digits, the digit segment that occurs least often among
  the registered names is the port number, and groups of ports whose number ranges overlap
  are shifted.

  The two quick maps are lists of entries in key order, the order in which the code walks
  them (theory \<open>QMap_KeyMap\<close>).  A \<^verbatim>\<open>char*\<close> into a name is the suffix
  of the name that it points to.  The undefined behaviour that the code can run into, a write
  behind the eighth segment or a signed overflow, is \<open>None\<close>.  The outcomes of the
  allocations are arguments.  Printed messages are not modelled.
\<close>

datatype png_status = PNG_OK | PNG_NO_MEMORY | PNG_ALREADY_PROCESSED | PNG_INVALID_PORT_NAME

abbreviation MAX_SEGS :: nat where "MAX_SEGS \<equiv> 8"
abbreviation MAX_PORT_NUM :: int where "MAX_PORT_NUM \<equiv> 65535"

record pn_seg =
  seg_key :: uint64
  seg_num :: int

record pn_port_item =
  segments :: "pn_seg list"
  seg_count :: nat
  group_key :: uint64
  port_offset :: int
  port_num :: uint16

record pn_group_item =
  g_key :: uint64
  g_min :: uint16
  g_max :: uint16
  g_count :: int
  g_offset :: int

record pn_gen =
  seg_map :: "uint8 omap"
  port_map :: "pn_port_item omap"
  processed :: bool

text \<open>\<^verbatim>\<open>MemoryAllocate2AndClear\<close> of a port item.\<close>

definition create_port_obj :: pn_port_item where
  "create_port_obj =
     \<lparr>segments = replicate MAX_SEGS \<lparr>seg_key = 0, seg_num = 0\<rparr>, seg_count = 0, group_key = 0,
      port_offset = 0, port_num = 0\<rparr>"

definition create_count_obj :: uint8 where
  "create_count_obj = 0"

definition pn_gen_init :: pn_gen where
  "pn_gen_init = \<lparr>seg_map = [], port_map = [], processed = False\<rparr>"

definition pn_gen_cleanup :: "pn_gen \<Rightarrow> pn_gen" where
  "pn_gen_cleanup model = model\<lparr>seg_map := [], port_map := []\<rparr>"

subsection \<open>Keys\<close>

text \<open>A \<^verbatim>\<open>char\<close> is signed: it is sign-extended when it is added to the key.\<close>

definition char_value :: "char \<Rightarrow> uint64" where
  "char_value c = scast (of_char c :: 8 word)"

definition cal_str_key :: "int \<Rightarrow> string \<Rightarrow> string option \<Rightarrow> uint64" where
  "cal_str_key index start e =
     fold (\<lambda>c res. (push_bit 5 res + res) + char_value c)
       (case e of None \<Rightarrow> start | Some p \<Rightarrow> take (length start - length p) start)
       (of_int (5381 + index))"

subsection \<open>Parsing a port name\<close>

definition isdigit :: "char \<Rightarrow> bool" where
  "isdigit c \<longleftrightarrow> 48 \<le> (of_char c :: nat) \<and> (of_char c :: nat) \<le> 57"

definition isalpha :: "char \<Rightarrow> bool" where
  "isalpha c \<longleftrightarrow> 65 \<le> (of_char c :: nat) \<and> (of_char c :: nat) \<le> 90 \<or>
     97 \<le> (of_char c :: nat) \<and> (of_char c :: nat) \<le> 122"

definition digit_value :: "char \<Rightarrow> int" where
  "digit_value c = of_char c - 48"

record parse_state =
  ps_index :: nat
  ps_seg_start :: string
  ps_has_num :: bool
  ps_is_num :: bool
  ps_to_close_seg :: bool
  ps_value :: int
  ps_state :: nat
  ps_segments :: "pn_seg list"

text \<open>The first half of the loop body: the class of the character.\<close>

definition parse_classify :: "char \<Rightarrow> parse_state \<Rightarrow> parse_state option" where
  "parse_classify c s =
     (if isdigit c then
        (if ps_state s = 2 \<and> ps_is_num s then
           (let v = ps_value s * 10 + digit_value c in
            if v < 2 ^ 31 then Some (s\<lparr>ps_value := v\<rparr>) else None)
         else Some (s\<lparr>ps_is_num := True, ps_has_num := True, ps_to_close_seg := (ps_state s = 2),
                      ps_state := 1\<rparr>))
      else if isalpha c then
        (if ps_state s \<noteq> 2 \<or> ps_is_num s then
           Some (s\<lparr>ps_is_num := False, ps_to_close_seg := (ps_state s = 2), ps_state := 1\<rparr>)
         else Some s)
      else if ps_state s = 2 then Some (s\<lparr>ps_state := 3\<rparr>)
      else Some s)"

text \<open>Writing the segment that ends at \<open>p\<close>.\<close>

definition close_segment :: "string \<Rightarrow> parse_state \<Rightarrow> parse_state option" where
  "close_segment p s =
     (if ps_index s < MAX_SEGS then
        Some (s\<lparr>ps_segments := (ps_segments s)[ps_index s :=
                  \<lparr>seg_key = cal_str_key (int (ps_index s + 1)) (ps_seg_start s) (Some p),
                   seg_num = ps_value s\<rparr>],
                ps_to_close_seg := False, ps_index := ps_index s + 1\<rparr>)
      else None)"

text \<open>The loop.  \<open>Inl\<close> is the early return for too many segments.\<close>

fun parse_loop :: "string \<Rightarrow> parse_state \<Rightarrow> (parse_state + parse_state) option" where
  "parse_loop [] s = Some (Inr s)"
| "parse_loop (c # cs) s =
     (case parse_classify c s of
        None \<Rightarrow> None
      | Some s \<Rightarrow>
          (case (if ps_state s = 3 \<or> ps_to_close_seg s then close_segment (c # cs) s else Some s) of
             None \<Rightarrow> None
           | Some s \<Rightarrow>
               if ps_state s = 1 then
                 (if ps_index s = MAX_SEGS then Some (Inl s)
                  else parse_loop cs
                         (s\<lparr>ps_seg_start := c # cs,
                            ps_value := (if ps_is_num s then digit_value c else -1),
                            ps_state := 2\<rparr>))
               else parse_loop cs s))"

definition parse_port_name ::
  "string option \<Rightarrow> pn_port_item \<Rightarrow> (png_status \<times> pn_port_item) option" where
  "parse_port_name port_name port_item =
     (case port_name of
        None \<Rightarrow> Some (PNG_INVALID_PORT_NAME, port_item)
      | Some [] \<Rightarrow> Some (PNG_INVALID_PORT_NAME, port_item)
      | Some name \<Rightarrow>
          (case parse_loop name
                  \<lparr>ps_index = 0, ps_seg_start = name, ps_has_num = False, ps_is_num = False,
                   ps_to_close_seg = False, ps_value = 0, ps_state = 0,
                   ps_segments = segments port_item\<rparr> of
             None \<Rightarrow> None
           | Some (Inl s) \<Rightarrow>
               Some (PNG_INVALID_PORT_NAME, port_item\<lparr>segments := ps_segments s\<rparr>)
           | Some (Inr s) \<Rightarrow>
               if \<not> ps_has_num s then
                 Some (PNG_INVALID_PORT_NAME, port_item\<lparr>segments := ps_segments s\<rparr>)
               else
                 (case (if ps_state s = 2 then close_segment [] s else Some s) of
                    None \<Rightarrow> None
                  | Some s \<Rightarrow>
                      Some (PNG_OK, port_item\<lparr>segments := ps_segments s, seg_count := ps_index s\<rparr>))))"

subsection \<open>Registration\<close>

definition update_count :: "bool \<Rightarrow> uint64 \<Rightarrow> uint8 omap \<Rightarrow> uint8 \<times> uint8 omap" where
  "update_count alloc_ok key m =
     (case omap_get key m of
        None \<Rightarrow>
          if alloc_ok
          then (create_count_obj + 1, omap_update key (\<lambda>c. c + 1) (omap_insert key create_count_obj m))
          else (0, m)
      | Some count \<Rightarrow> (count + 1, omap_update key (\<lambda>c. c + 1) m))"

fun count_segments :: "(uint64 \<Rightarrow> bool) \<Rightarrow> pn_seg list \<Rightarrow> uint8 omap \<Rightarrow> uint8 omap" where
  "count_segments alloc_ok [] m = m"
| "count_segments alloc_ok (s # ss) m =
     count_segments alloc_ok ss (snd (update_count (alloc_ok (seg_key s)) (seg_key s) m))"

text \<open>
  The item is inserted before its name is parsed; when the key is taken the map keeps the
  item that is there and the new one is filled outside the map.
\<close>

definition pn_gen_register ::
  "bool \<Rightarrow> (uint64 \<Rightarrow> bool) \<Rightarrow> string \<Rightarrow> pn_gen \<Rightarrow> (png_status \<times> pn_gen) option" where
  "pn_gen_register alloc_port alloc_count port_name model =
     (if processed model then Some (PNG_ALREADY_PROCESSED, model)
      else if \<not> alloc_port then Some (PNG_NO_MEMORY, model)
      else
        (let key = cal_str_key 0 port_name None;
             ins = (\<lambda>item. model\<lparr>port_map := omap_insert key item (port_map model)\<rparr>)
         in case parse_port_name (Some port_name) create_port_obj of
              None \<Rightarrow> None
            | Some (PNG_OK, item) \<Rightarrow>
                Some (PNG_OK, (ins item)\<lparr>seg_map :=
                  count_segments alloc_count (take (seg_count item) (segments item)) (seg_map model)\<rparr>)
            | Some (ret, item) \<Rightarrow> Some (ret, ins item)))"

subsection \<open>Ordering the groups\<close>

definition compare_groups :: "pn_group_item \<Rightarrow> pn_group_item \<Rightarrow> int" where
  "compare_groups g1 g2 =
     (if g_count g1 > g_count g2 then -1
      else if g_count g1 < g_count g2 then 1
      else if g_min g1 < g_min g2 then -1
      else if g_min g1 > g_min g2 then 1
      else if g_key g1 < g_key g2 then -1
      else if g_key g1 > g_key g2 then 1
      else 0)"

text \<open>
  The doubly linked list around \<^verbatim>\<open>pitem\<close>: what comes before it in reverse (so the
  head is \<^verbatim>\<open>pitem->prev\<close>) and what comes after it.  \<open>insert_back\<close> is the
  backward search for \<^verbatim>\<open>ritem\<close> with the relinking behind it, or at the head of
  the list when there is none.
\<close>

fun insert_back :: "pn_group_item \<Rightarrow> pn_group_item list \<Rightarrow> pn_group_item list" where
  "insert_back pitem [] = [pitem]"
| "insert_back pitem (ritem # rs) =
     (if compare_groups pitem ritem > 0 then pitem # ritem # rs
      else ritem # insert_back pitem rs)"

fun sort_groups_loop :: "pn_group_item list \<Rightarrow> pn_group_item list \<Rightarrow> pn_group_item list" where
  "sort_groups_loop before [] = rev before"
| "sort_groups_loop [] (pitem # after) = sort_groups_loop [pitem] after"
| "sort_groups_loop (prev # before) (pitem # after) =
     (if compare_groups pitem prev \<ge> 0 then sort_groups_loop (pitem # prev # before) after
      else sort_groups_loop (prev # insert_back pitem before) after)"

definition sort_groups :: "pn_group_item list \<Rightarrow> pn_group_item list" where
  "sort_groups gs = (case gs of [] \<Rightarrow> [] | head # rest \<Rightarrow> sort_groups_loop [head] rest)"

subsection \<open>Processing\<close>

text \<open>The digit segment with the least count, the last of them; \<open>MAX_SEGS\<close> if there is none.\<close>

definition choose_segment :: "uint8 omap \<Rightarrow> pn_port_item \<Rightarrow> nat" where
  "choose_segment segs port =
     fst (fold (\<lambda>i (pn_index, min_count).
            if seg_num (segments port ! i) = -1 then (pn_index, min_count)
            else case omap_get (seg_key (segments port ! i)) segs of
                None \<Rightarrow> (pn_index, min_count)
              | Some count \<Rightarrow>
                  if uint count \<le> min_count then (i, uint count) else (pn_index, min_count))
          [0..<seg_count port] (MAX_SEGS, 256))"

definition group_key_of :: "pn_port_item \<Rightarrow> nat \<Rightarrow> uint64" where
  "group_key_of port pn_index =
     fold (\<lambda>i g. if i \<noteq> pn_index then 31 * g + seg_key (segments port ! i) else g)
       [0..<seg_count port] 0"

fun update_group :: "uint64 \<Rightarrow> uint16 \<Rightarrow> pn_group_item list \<Rightarrow> pn_group_item list option" where
  "update_group k n [] = None"
| "update_group k n (pitem # gs) =
     (if g_key pitem = k
      then Some (pitem\<lparr>g_max := (if n > g_max pitem then n else g_max pitem),
                       g_min := (if n < g_min pitem then n else g_min pitem),
                       g_count := g_count pitem + 1\<rparr> # gs)
      else map_option (\<lambda>gs. pitem # gs) (update_group k n gs))"

text \<open>
  The loop over the ports: \<open>full\<close> is \<^verbatim>\<open>full_ports\<close>, \<open>gs\<close> the list of
  groups.  An error leaves the remaining ports as they are.
\<close>

fun process_ports ::
  "(uint64 \<Rightarrow> bool) \<Rightarrow> uint8 omap \<Rightarrow> pn_port_item omap \<Rightarrow> (nat \<Rightarrow> bool) \<Rightarrow> pn_group_item list \<Rightarrow> bool \<Rightarrow>
   png_status \<times> pn_port_item omap \<times> pn_group_item list \<times> bool" where
  "process_ports alloc_ok segs [] full gs conf = (PNG_OK, [], gs, conf)"
| "process_ports alloc_ok segs ((k, port) # rest) full gs conf =
     (let pn_index = choose_segment segs port in
      if pn_index < MAX_SEGS then
        (let pn = seg_num (segments port ! pn_index) in
         if pn < MAX_PORT_NUM then
           (let port = port\<lparr>port_num := of_int pn\<rparr>;
                clash = full (nat pn) \<or> pn = 0;
                full = (if clash then full else full(nat pn := True));
                key = group_key_of port pn_index;
                port = port\<lparr>group_key := key\<rparr>;
                cont = (\<lambda>gs. case process_ports alloc_ok segs rest full gs (conf \<or> clash) of
                          (st, es, gs, conf) \<Rightarrow> (st, (k, port) # es, gs, conf))
            in case update_group key (port_num port) gs of
                 Some gs \<Rightarrow> cont gs
               | None \<Rightarrow>
                   if alloc_ok key
                   then cont (gs @ [\<lparr>g_key = key, g_min = port_num port, g_max = port_num port,
                                     g_count = 1, g_offset = 0\<rparr>])
                   else (PNG_NO_MEMORY, (k, port) # rest, gs, conf \<or> clash))
         else (PNG_INVALID_PORT_NAME, (k, port) # rest, gs, conf))
      else
        (case process_ports alloc_ok segs rest full gs conf of
           (st, es, gs, conf) \<Rightarrow> (st, (k, port) # es, gs, conf)))"

text \<open>Shifting the groups one behind the other.\<close>

fun align_groups :: "pn_group_item \<Rightarrow> pn_group_item list \<Rightarrow> pn_group_item list" where
  "align_groups prev [] = [prev]"
| "align_groups prev (item # rest) =
     prev # align_groups
       (if uint (g_min item) \<le> uint (g_max prev) + g_offset prev
        then item\<lparr>g_offset := uint (g_max prev) + g_offset prev - uint (g_min item) + 1\<rparr>
        else item) rest"

definition resolve_groups :: "pn_group_item list \<Rightarrow> pn_group_item list" where
  "resolve_groups gs =
     (case sort_groups gs of
        [] \<Rightarrow> []
      | head # rest \<Rightarrow> align_groups (if g_min head = 0 then head\<lparr>g_offset := 1\<rparr> else head) rest)"

definition apply_offsets :: "pn_group_item list \<Rightarrow> pn_port_item omap \<Rightarrow> pn_port_item omap" where
  "apply_offsets gs es =
     map (\<lambda>(k, port). (k, case find (\<lambda>g. g_key g = group_key port) gs of
                            None \<Rightarrow> port
                          | Some g \<Rightarrow> port\<lparr>port_offset := g_offset g\<rparr>)) es"

definition pn_gen_process ::
  "bool \<Rightarrow> (uint64 \<Rightarrow> bool) \<Rightarrow> pn_gen \<Rightarrow> png_status \<times> pn_gen" where
  "pn_gen_process alloc_full alloc_group model =
     (if \<not> alloc_full then (PNG_NO_MEMORY, model)
      else case process_ports alloc_group (seg_map model) (port_map model) (\<lambda>_. False) [] False of
          (PNG_OK, es, gs, conf) \<Rightarrow>
            (PNG_OK, model\<lparr>port_map := (if conf then apply_offsets (resolve_groups gs) es else es),
                           processed := True\<rparr>)
        | (st, es, gs, conf) \<Rightarrow> (st, model\<lparr>port_map := es\<rparr>))"

definition pn_gen_get_port ::
  "bool \<Rightarrow> (uint64 \<Rightarrow> bool) \<Rightarrow> string \<Rightarrow> pn_gen \<Rightarrow> uint16 \<times> pn_gen" where
  "pn_gen_get_port alloc_full alloc_group port_name model =
     (let model = (if \<not> processed model then snd (pn_gen_process alloc_full alloc_group model) else model)
      in case omap_get (cal_str_key 0 port_name None) (port_map model) of
           Some port \<Rightarrow> (of_int (uint (port_num port) + port_offset port), model)
         | None \<Rightarrow> (0, model))"

end
