(* ===== verification/Snmp.thy ===== *)
theory Snmp
  imports PortNumGen Discovery
begin

text \<open>
  What discovery gets over SNMP and the functions that read single values, \<^verbatim>\<open>Topology/hpnmgt_snmp.c\<close>,
  \<^verbatim>\<open>hpnmgt_snmp.h\<close> and \<^verbatim>\<open>hpnmgt_snmp_priv.h\<close>.

  A result is the OID and the value of one variable.  The code reads the member of the union that it
  expects; reading the wrong one is \<open>None\<close>, and so is reading past the end of an OID of the greatest
  length and following a string of \<^verbatim>\<open>FF_SNMP_VAL_LEN\<close> bytes or more to a NUL that is not there: shorter
  values are kept in a cleared array, longer ones in a block of their exact length.  The trace output is
  left out.  \<^verbatim>\<open>snmp_oid_compare\<close> of equal lengths is 0 exactly for equal OIDs.
\<close>

subsection \<open>Variables\<close>

datatype msg_type = SNMP_MSG_GET | SNMP_MSG_GETNEXT

type_synonym oid = "uint32 list"

record SNMPOid =
  so_oid :: oid
  so_type :: msg_type

definition lldpLocChassisId :: SNMPOid where
  "lldpLocChassisId = \<lparr>so_oid = [1, 0, 8802, 1, 1, 2, 1, 3, 2, 0], so_type = SNMP_MSG_GET\<rparr>"

definition lldpLocSysCapSupported :: SNMPOid where
  "lldpLocSysCapSupported = \<lparr>so_oid = [1, 0, 8802, 1, 1, 2, 1, 3, 5, 0], so_type = SNMP_MSG_GET\<rparr>"

definition lldpLocSysCapEnabled :: SNMPOid where
  "lldpLocSysCapEnabled = \<lparr>so_oid = [1, 0, 8802, 1, 1, 2, 1, 3, 6, 0], so_type = SNMP_MSG_GET\<rparr>"

definition lldpLocPortIdSubtype :: SNMPOid where
  "lldpLocPortIdSubtype = \<lparr>so_oid = [1, 0, 8802, 1, 1, 2, 1, 3, 7, 1, 2], so_type = SNMP_MSG_GETNEXT\<rparr>"

definition lldpLocPortId :: SNMPOid where
  "lldpLocPortId = \<lparr>so_oid = [1, 0, 8802, 1, 1, 2, 1, 3, 7, 1, 3], so_type = SNMP_MSG_GETNEXT\<rparr>"

definition lldpLocManAddrIfId :: SNMPOid where
  "lldpLocManAddrIfId = \<lparr>so_oid = [1, 0, 8802, 1, 1, 2, 1, 3, 8, 1, 5], so_type = SNMP_MSG_GETNEXT\<rparr>"

definition lldpRemChassisId :: SNMPOid where
  "lldpRemChassisId = \<lparr>so_oid = [1, 0, 8802, 1, 1, 2, 1, 4, 1, 1, 5], so_type = SNMP_MSG_GETNEXT\<rparr>"

definition lldpRemPortIdSubtype :: SNMPOid where
  "lldpRemPortIdSubtype = \<lparr>so_oid = [1, 0, 8802, 1, 1, 2, 1, 4, 1, 1, 6], so_type = SNMP_MSG_GETNEXT\<rparr>"

definition lldpRemPortId :: SNMPOid where
  "lldpRemPortId = \<lparr>so_oid = [1, 0, 8802, 1, 1, 2, 1, 4, 1, 1, 7], so_type = SNMP_MSG_GETNEXT\<rparr>"

definition lldpRemSysName :: SNMPOid where
  "lldpRemSysName = \<lparr>so_oid = [1, 0, 8802, 1, 1, 2, 1, 4, 1, 1, 9], so_type = SNMP_MSG_GETNEXT\<rparr>"

definition lldpRemSysCapEnabled :: SNMPOid where
  "lldpRemSysCapEnabled = \<lparr>so_oid = [1, 0, 8802, 1, 1, 2, 1, 4, 1, 1, 12], so_type = SNMP_MSG_GETNEXT\<rparr>"

definition sysObjectID :: SNMPOid where
  "sysObjectID = \<lparr>so_oid = [1, 3, 6, 1, 2, 1, 1, 2, 0], so_type = SNMP_MSG_GET\<rparr>"

definition sysName :: SNMPOid where
  "sysName = \<lparr>so_oid = [1, 3, 6, 1, 2, 1, 1, 5, 0], so_type = SNMP_MSG_GET\<rparr>"

definition ifNumber :: SNMPOid where
  "ifNumber = \<lparr>so_oid = [1, 3, 6, 1, 2, 1, 2, 1, 0], so_type = SNMP_MSG_GET\<rparr>"

definition ifIndex :: SNMPOid where
  "ifIndex = \<lparr>so_oid = [1, 3, 6, 1, 2, 1, 2, 2, 1, 1], so_type = SNMP_MSG_GETNEXT\<rparr>"

definition ifType :: SNMPOid where
  "ifType = \<lparr>so_oid = [1, 3, 6, 1, 2, 1, 2, 2, 1, 3], so_type = SNMP_MSG_GETNEXT\<rparr>"

definition ifMTU :: SNMPOid where
  "ifMTU = \<lparr>so_oid = [1, 3, 6, 1, 2, 1, 2, 2, 1, 4], so_type = SNMP_MSG_GETNEXT\<rparr>"

definition ifSpeed :: SNMPOid where
  "ifSpeed = \<lparr>so_oid = [1, 3, 6, 1, 2, 1, 2, 2, 1, 5], so_type = SNMP_MSG_GETNEXT\<rparr>"

definition ifPhysAddress :: SNMPOid where
  "ifPhysAddress = \<lparr>so_oid = [1, 3, 6, 1, 2, 1, 2, 2, 1, 6], so_type = SNMP_MSG_GETNEXT\<rparr>"

definition ifOperStatus :: SNMPOid where
  "ifOperStatus = \<lparr>so_oid = [1, 3, 6, 1, 2, 1, 2, 2, 1, 8], so_type = SNMP_MSG_GETNEXT\<rparr>"

definition ifInDiscards :: SNMPOid where
  "ifInDiscards = \<lparr>so_oid = [1, 3, 6, 1, 2, 1, 2, 2, 1, 13], so_type = SNMP_MSG_GETNEXT\<rparr>"

definition ifInErrors :: SNMPOid where
  "ifInErrors = \<lparr>so_oid = [1, 3, 6, 1, 2, 1, 2, 2, 1, 14], so_type = SNMP_MSG_GETNEXT\<rparr>"

definition ifInUnknownProtos :: SNMPOid where
  "ifInUnknownProtos = \<lparr>so_oid = [1, 3, 6, 1, 2, 1, 2, 2, 1, 15], so_type = SNMP_MSG_GETNEXT\<rparr>"

definition ifOutDiscards :: SNMPOid where
  "ifOutDiscards = \<lparr>so_oid = [1, 3, 6, 1, 2, 1, 2, 2, 1, 19], so_type = SNMP_MSG_GETNEXT\<rparr>"

definition ifOutErrors :: SNMPOid where
  "ifOutErrors = \<lparr>so_oid = [1, 3, 6, 1, 2, 1, 2, 2, 1, 20], so_type = SNMP_MSG_GETNEXT\<rparr>"

definition ipAdEntIfIndex :: SNMPOid where
  "ipAdEntIfIndex = \<lparr>so_oid = [1, 3, 6, 1, 2, 1, 4, 20, 1, 2], so_type = SNMP_MSG_GETNEXT\<rparr>"

definition dot3StatsSingleCollisionFrames :: SNMPOid where
  "dot3StatsSingleCollisionFrames = \<lparr>so_oid = [1, 3, 6, 1, 2, 1, 10, 7, 2, 1, 4], so_type = SNMP_MSG_GETNEXT\<rparr>"

definition dot3StatsMultipleCollisionFrames :: SNMPOid where
  "dot3StatsMultipleCollisionFrames = \<lparr>so_oid = [1, 3, 6, 1, 2, 1, 10, 7, 2, 1, 5], so_type = SNMP_MSG_GETNEXT\<rparr>"

definition dot3StatsSQETestErrors :: SNMPOid where
  "dot3StatsSQETestErrors = \<lparr>so_oid = [1, 3, 6, 1, 2, 1, 10, 7, 2, 1, 6], so_type = SNMP_MSG_GETNEXT\<rparr>"

definition dot3StatsDeferredTransmissions :: SNMPOid where
  "dot3StatsDeferredTransmissions = \<lparr>so_oid = [1, 3, 6, 1, 2, 1, 10, 7, 2, 1, 7], so_type = SNMP_MSG_GETNEXT\<rparr>"

definition dot3StatsLateCollisions :: SNMPOid where
  "dot3StatsLateCollisions = \<lparr>so_oid = [1, 3, 6, 1, 2, 1, 10, 7, 2, 1, 8], so_type = SNMP_MSG_GETNEXT\<rparr>"

definition dot3StatsExcessiveCollisions :: SNMPOid where
  "dot3StatsExcessiveCollisions = \<lparr>so_oid = [1, 3, 6, 1, 2, 1, 10, 7, 2, 1, 9], so_type = SNMP_MSG_GETNEXT\<rparr>"

definition dot3StatsCarrierSenseErrors :: SNMPOid where
  "dot3StatsCarrierSenseErrors = \<lparr>so_oid = [1, 3, 6, 1, 2, 1, 10, 7, 2, 1, 11], so_type = SNMP_MSG_GETNEXT\<rparr>"

definition dot3HCStatsAlignmentErrors :: SNMPOid where
  "dot3HCStatsAlignmentErrors = \<lparr>so_oid = [1, 3, 6, 1, 2, 1, 10, 7, 11, 1, 1], so_type = SNMP_MSG_GETNEXT\<rparr>"

definition dot3HCStatsFCSErrors :: SNMPOid where
  "dot3HCStatsFCSErrors = \<lparr>so_oid = [1, 3, 6, 1, 2, 1, 10, 7, 11, 1, 2], so_type = SNMP_MSG_GETNEXT\<rparr>"

definition dot3HCStatsInternalMacTransmitErrors :: SNMPOid where
  "dot3HCStatsInternalMacTransmitErrors = \<lparr>so_oid = [1, 3, 6, 1, 2, 1, 10, 7, 11, 1, 3], so_type = SNMP_MSG_GETNEXT\<rparr>"

definition dot3HCStatsFrameTooLongs :: SNMPOid where
  "dot3HCStatsFrameTooLongs = \<lparr>so_oid = [1, 3, 6, 1, 2, 1, 10, 7, 11, 1, 4], so_type = SNMP_MSG_GETNEXT\<rparr>"

definition dot3HCStatsInternalMacReceiveErrors :: SNMPOid where
  "dot3HCStatsInternalMacReceiveErrors = \<lparr>so_oid = [1, 3, 6, 1, 2, 1, 10, 7, 11, 1, 5], so_type = SNMP_MSG_GETNEXT\<rparr>"

definition dot3HCStatsSymbolErrors :: SNMPOid where
  "dot3HCStatsSymbolErrors = \<lparr>so_oid = [1, 3, 6, 1, 2, 1, 10, 7, 11, 1, 6], so_type = SNMP_MSG_GETNEXT\<rparr>"

definition ifMauStatus :: SNMPOid where
  "ifMauStatus = \<lparr>so_oid = [1, 3, 6, 1, 2, 1, 26, 2, 1, 1, 4], so_type = SNMP_MSG_GETNEXT\<rparr>"

definition ifMauMediaAvailable :: SNMPOid where
  "ifMauMediaAvailable = \<lparr>so_oid = [1, 3, 6, 1, 2, 1, 26, 2, 1, 1, 5], so_type = SNMP_MSG_GETNEXT\<rparr>"

definition ifMauTypeListBits :: SNMPOid where
  "ifMauTypeListBits = \<lparr>so_oid = [1, 3, 6, 1, 2, 1, 26, 2, 1, 1, 13], so_type = SNMP_MSG_GETNEXT\<rparr>"

definition ifMauAutoNegAdminStatus :: SNMPOid where
  "ifMauAutoNegAdminStatus = \<lparr>so_oid = [1, 3, 6, 1, 2, 1, 26, 5, 1, 1, 1], so_type = SNMP_MSG_GETNEXT\<rparr>"

definition ifName :: SNMPOid where
  "ifName = \<lparr>so_oid = [1, 3, 6, 1, 2, 1, 31, 1, 1, 1, 1], so_type = SNMP_MSG_GETNEXT\<rparr>"

definition ifHCInOctets :: SNMPOid where
  "ifHCInOctets = \<lparr>so_oid = [1, 3, 6, 1, 2, 1, 31, 1, 1, 1, 6], so_type = SNMP_MSG_GETNEXT\<rparr>"

definition ifHCInUcastPkts :: SNMPOid where
  "ifHCInUcastPkts = \<lparr>so_oid = [1, 3, 6, 1, 2, 1, 31, 1, 1, 1, 7], so_type = SNMP_MSG_GETNEXT\<rparr>"

definition ifHCInMulticastPkts :: SNMPOid where
  "ifHCInMulticastPkts = \<lparr>so_oid = [1, 3, 6, 1, 2, 1, 31, 1, 1, 1, 8], so_type = SNMP_MSG_GETNEXT\<rparr>"

definition ifHCOutOctets :: SNMPOid where
  "ifHCOutOctets = \<lparr>so_oid = [1, 3, 6, 1, 2, 1, 31, 1, 1, 1, 10], so_type = SNMP_MSG_GETNEXT\<rparr>"

definition ifHCOutUcastPkts :: SNMPOid where
  "ifHCOutUcastPkts = \<lparr>so_oid = [1, 3, 6, 1, 2, 1, 31, 1, 1, 1, 11], so_type = SNMP_MSG_GETNEXT\<rparr>"

definition ifHCOutMulticastPkts :: SNMPOid where
  "ifHCOutMulticastPkts = \<lparr>so_oid = [1, 3, 6, 1, 2, 1, 31, 1, 1, 1, 12], so_type = SNMP_MSG_GETNEXT\<rparr>"

definition ifHighSpeed :: SNMPOid where
  "ifHighSpeed = \<lparr>so_oid = [1, 3, 6, 1, 2, 1, 31, 1, 1, 1, 15], so_type = SNMP_MSG_GETNEXT\<rparr>"

definition entPhysical :: SNMPOid where
  "entPhysical = \<lparr>so_oid = [1, 3, 6, 1, 2, 1, 47, 1, 1], so_type = SNMP_MSG_GETNEXT\<rparr>"

definition entPhysicalDescr :: SNMPOid where
  "entPhysicalDescr = \<lparr>so_oid = [1, 3, 6, 1, 2, 1, 47, 1, 1, 1, 1, 2], so_type = SNMP_MSG_GETNEXT\<rparr>"

definition entPhysicalClass :: SNMPOid where
  "entPhysicalClass = \<lparr>so_oid = [1, 3, 6, 1, 2, 1, 47, 1, 1, 1, 1, 5], so_type = SNMP_MSG_GETNEXT\<rparr>"

definition entPhysicalHardwareRev :: SNMPOid where
  "entPhysicalHardwareRev = \<lparr>so_oid = [1, 3, 6, 1, 2, 1, 47, 1, 1, 1, 1, 8], so_type = SNMP_MSG_GETNEXT\<rparr>"

definition entPhysicalFirmwareRev :: SNMPOid where
  "entPhysicalFirmwareRev = \<lparr>so_oid = [1, 3, 6, 1, 2, 1, 47, 1, 1, 1, 1, 9], so_type = SNMP_MSG_GETNEXT\<rparr>"

definition entPhysicalSerialNum :: SNMPOid where
  "entPhysicalSerialNum = \<lparr>so_oid = [1, 3, 6, 1, 2, 1, 47, 1, 1, 1, 1, 11], so_type = SNMP_MSG_GETNEXT\<rparr>"

definition entPhysicalMfgName :: SNMPOid where
  "entPhysicalMfgName = \<lparr>so_oid = [1, 3, 6, 1, 2, 1, 47, 1, 1, 1, 1, 12], so_type = SNMP_MSG_GETNEXT\<rparr>"

definition entPhysicalModelName :: SNMPOid where
  "entPhysicalModelName = \<lparr>so_oid = [1, 3, 6, 1, 2, 1, 47, 1, 1, 1, 1, 13], so_type = SNMP_MSG_GETNEXT\<rparr>"

lemmas oid_defs =
  lldpLocChassisId_def lldpLocSysCapSupported_def lldpLocSysCapEnabled_def lldpLocPortIdSubtype_def lldpLocPortId_def
  lldpLocManAddrIfId_def lldpRemChassisId_def lldpRemPortIdSubtype_def lldpRemPortId_def lldpRemSysName_def
  lldpRemSysCapEnabled_def sysObjectID_def sysName_def ifNumber_def ifIndex_def ifType_def ifMTU_def ifSpeed_def
  ifPhysAddress_def ifOperStatus_def ifInDiscards_def ifInErrors_def ifInUnknownProtos_def ifOutDiscards_def
  ifOutErrors_def ipAdEntIfIndex_def dot3StatsSingleCollisionFrames_def dot3StatsMultipleCollisionFrames_def
  dot3StatsSQETestErrors_def dot3StatsDeferredTransmissions_def dot3StatsLateCollisions_def
  dot3StatsExcessiveCollisions_def dot3StatsCarrierSenseErrors_def dot3HCStatsAlignmentErrors_def
  dot3HCStatsFCSErrors_def dot3HCStatsInternalMacTransmitErrors_def dot3HCStatsFrameTooLongs_def
  dot3HCStatsInternalMacReceiveErrors_def dot3HCStatsSymbolErrors_def ifMauStatus_def ifMauMediaAvailable_def
  ifMauTypeListBits_def ifMauAutoNegAdminStatus_def ifName_def ifHCInOctets_def ifHCInUcastPkts_def
  ifHCInMulticastPkts_def ifHCOutOctets_def ifHCOutUcastPkts_def ifHCOutMulticastPkts_def ifHighSpeed_def
  entPhysical_def entPhysicalDescr_def entPhysicalClass_def entPhysicalHardwareRev_def entPhysicalFirmwareRev_def
  entPhysicalSerialNum_def entPhysicalMfgName_def entPhysicalModelName_def

datatype snmp_val = Integer int | Octets string | ObjectId oid | Counter64 uint32 uint32

record snmp_result =
  sr_oid :: oid
  sr_val :: snmp_val

abbreviation FF_MAX_OID_LEN :: nat where "FF_MAX_OID_LEN \<equiv> 24"
abbreviation FF_SNMP_VAL_LEN :: nat where "FF_SNMP_VAL_LEN \<equiv> 64"

definition match_oid :: "oid \<Rightarrow> oid \<Rightarrow> bool" where
  "match_oid oid1 oid2 \<longleftrightarrow> length oid1 \<le> length oid2 \<and> take (length oid1) oid2 = oid1"

definition is_oid :: "snmp_result \<Rightarrow> SNMPOid \<Rightarrow> bool" where
  "is_oid res v \<longleftrightarrow> length (so_oid v) \<le> length (sr_oid res) \<and> take (length (so_oid v)) (sr_oid res) = so_oid v"

text \<open>The element behind the last is that of a cleared array.\<close>

definition get_oid_num :: "snmp_result \<Rightarrow> nat \<Rightarrow> int option" where
  "get_oid_num res offset =
     (if length (sr_oid res) < offset then Some (- 1)
      else if offset < length (sr_oid res) then Some (sint (sr_oid res ! offset))
      else if offset < FF_MAX_OID_LEN then Some 0 else None)"

abbreviation oid_len :: "SNMPOid \<Rightarrow> nat" where
  "oid_len v \<equiv> length (so_oid v)"

subsection \<open>Values\<close>

fun val_integer :: "snmp_val \<Rightarrow> int option" where
  "val_integer (Integer i) = Some i"
| "val_integer _ = None"

fun val_octets :: "snmp_val \<Rightarrow> string option" where
  "val_octets (Octets s) = Some s"
| "val_octets _ = None"

fun val_objid :: "snmp_val \<Rightarrow> oid option" where
  "val_objid (ObjectId l) = Some l"
| "val_objid _ = None"

text \<open>A string that is printed or copied up to its NUL.\<close>

definition c_string :: "string \<Rightarrow> string option" where
  "c_string s = (if CHR 0x00 \<in> set s \<or> length s < FF_SNMP_VAL_LEN then Some (takeWhile (\<lambda>c. c \<noteq> CHR 0x00) s) else None)"

definition isprint :: "char \<Rightarrow> bool" where
  "isprint c \<longleftrightarrow> 32 \<le> (of_char c :: nat) \<and> (of_char c :: nat) \<le> 126"

definition isspace :: "char \<Rightarrow> bool" where
  "isspace c \<longleftrightarrow> (of_char c :: nat) = 32 \<or> 9 \<le> (of_char c :: nat) \<and> (of_char c :: nat) \<le> 13"

definition is_text :: "string \<Rightarrow> bool" where
  "is_text s \<longleftrightarrow> list_all (\<lambda>c. isprint c \<or> isspace c) s"

definition get_hex :: "char \<Rightarrow> int" where
  "get_hex c = (let n = of_char c in
     if 48 \<le> n \<and> n \<le> 57 then n - 48
     else if 97 \<le> n \<and> n \<le> 102 then n - 97 + 10
     else if 65 \<le> n \<and> n \<le> 70 then n - 65 + 10 else - 1)"

definition isxdigit :: "char \<Rightarrow> bool" where
  "isxdigit c \<longleftrightarrow> get_hex c \<noteq> - 1"

text \<open>Behind a prefix \<open>0x\<close>, up to a NUL.\<close>

definition skip_0x :: "string \<Rightarrow> string" where
  "skip_0x s = takeWhile (\<lambda>c. c \<noteq> CHR 0x00)
     (if 2 < length s \<and> s ! 0 = CHR ''0'' \<and> (s ! 1 = CHR ''x'' \<or> s ! 1 = CHR ''X'') then drop 2 s else s)"

definition get_guid :: "string \<Rightarrow> uint64" where
  "get_guid bytes =
     (if \<not> is_text bytes then foldl (\<lambda>res c. push_bit 8 res + of_char c) 0 (take 8 bytes)
      else foldl (\<lambda>res c. push_bit 4 res + of_int (get_hex c)) 0 (take 16 (filter isxdigit (skip_0x bytes))))"

definition hex_digit :: "nat \<Rightarrow> char" where
  "hex_digit n = char_of (if n < 10 then 48 + n else 87 + n)"

definition hex_byte :: "char \<Rightarrow> string" where
  "hex_byte c = [hex_digit (of_char c div 16), hex_digit (of_char c mod 16)]"

text \<open>What the destination holds afterwards: it is left alone unless the value is a string.\<close>

definition copy_snmp_string :: "snmp_result \<Rightarrow> string \<Rightarrow> nat \<Rightarrow> bool \<Rightarrow> string option" where
  "copy_snmp_string res dest maxLen hex_only =
     (case sr_val res of
        Octets s \<Rightarrow>
          if \<not> is_text s then Some (concat (map hex_byte (take ((maxLen - 1) div 2) s)))
          else if hex_only then Some (take (maxLen - 1) (filter isxdigit (skip_0x s)))
          else map_option (take (min (length s + 1) maxLen - 1)) (c_string s)
      | _ \<Rightarrow> Some dest)"

definition get_lid_from_oid :: "snmp_result \<Rightarrow> nat \<Rightarrow> uint32 option" where
  "get_lid_from_oid res offset = do {
     a \<leftarrow> get_oid_num res offset;
     b \<leftarrow> get_oid_num res (offset + 1);
     c \<leftarrow> get_oid_num res (offset + 2);
     d \<leftarrow> get_oid_num res (offset + 3);
     Some (foldl (\<lambda>lid n. push_bit 8 lid + of_int n) 0 [a, b, c, d] AND 0xffffff) }"

definition get_node_type :: "string \<Rightarrow> uint8" where
  "get_node_type cap =
     (case cap of [] \<Rightarrow> NODE_FI
      | c # _ \<Rightarrow> if (of_char c :: uint8) AND 0x20 = 0x20 \<or> (of_char c :: uint8) AND 0x08 = 0x08 then NODE_SW else NODE_FI)"

definition get_capability :: "string \<Rightarrow> uint32" where
  "get_capability cap = foldl (\<lambda>res c. push_bit 8 res + of_char c) 0 (rev cap)"

definition is_all_zeros :: "string \<Rightarrow> bool" where
  "is_all_zeros bytes \<longleftrightarrow> list_all (\<lambda>c. c = CHR 0x00) bytes"

subsection \<open>Speeds\<close>

abbreviation ETH_LINK_SPEED_NOP :: uint16 where "ETH_LINK_SPEED_NOP \<equiv> 0"
abbreviation ETH_LINK_SPEED_LT_100G :: uint16 where "ETH_LINK_SPEED_LT_100G \<equiv> 1"
abbreviation ETH_LINK_SPEED_100G :: uint16 where "ETH_LINK_SPEED_100G \<equiv> 2"
abbreviation ETH_LINK_SPEED_200G :: uint16 where "ETH_LINK_SPEED_200G \<equiv> 4"
abbreviation ETH_LINK_SPEED_400G :: uint16 where "ETH_LINK_SPEED_400G \<equiv> 8"

definition ifspeed_to_active_linkspeed :: "uint32 \<Rightarrow> uint16" where
  "ifspeed_to_active_linkspeed ifspeed =
     (if ifspeed \<le> 300000 + 25000 \<and> 300000 - 25000 \<le> ifspeed then ETH_LINK_SPEED_400G
      else if ifspeed \<le> 200000 + 25000 \<and> 200000 - 25000 \<le> ifspeed then ETH_LINK_SPEED_200G
      else if ifspeed \<le> 100000 + 25000 \<and> 100000 - 25000 \<le> ifspeed then ETH_LINK_SPEED_100G
      else if ifspeed \<noteq> 0 then ETH_LINK_SPEED_LT_100G else 0)"

text \<open>The modes are numbered as in the MAU MIB.\<close>

definition EthLinkModeToSpeed :: "uint16 \<Rightarrow> uint16" where
  "EthLinkModeToSpeed mode =
     (if mode = 0 then ETH_LINK_SPEED_NOP
      else if 75 \<le> mode \<and> mode \<le> 78 \<or> 98 \<le> mode \<and> mode \<le> 102 \<or> 123 \<le> mode \<and> mode \<le> 126 then ETH_LINK_SPEED_100G
      else if 127 \<le> mode \<and> mode \<le> 134 then ETH_LINK_SPEED_200G
      else if 135 \<le> mode \<and> mode \<le> 140 then ETH_LINK_SPEED_400G
      else ETH_LINK_SPEED_LT_100G)"

text \<open>Bit 0 is the most significant bit of the first byte.\<close>

definition byte_speeds :: "uint16 \<Rightarrow> char \<Rightarrow> uint16" where
  "byte_speeds base c =
     foldl (\<lambda>res j. if bit (of_char c :: uint8) (7 - j) then res OR EthLinkModeToSpeed (base + of_nat j) else res) 0 [0..<8]"

definition get_link_speed_supported :: "string \<Rightarrow> uint16" where
  "get_link_speed_supported bytes =
     snd (foldl (\<lambda>(base, res) c. (base + 8, res OR byte_speeds base c)) (0, 0) bytes)"

text \<open>Names of interfaces are compared as strings; a name has no NUL inside.\<close>

definition is_supported_interface :: "string list \<Rightarrow> string \<Rightarrow> bool" where
  "is_supported_interface interfaces ifname \<longleftrightarrow> interfaces = [] \<or> ifname \<in> set interfaces"

end
