(* ===== verification/SnmpNodes.thy ===== *)
theory SnmpNodes
  imports Snmp
begin

text \<open>
  The node records that discovery makes of the results of a switch or a host: \<^verbatim>\<open>populate_switch_node_record\<close>
  and \<^verbatim>\<open>populate_host_node_record\<close> of \<^verbatim>\<open>Topology/hpnmgt_snmp.c\<close>.

  A loop over the results is a step on a state, which goes on or stops; results end with the first that
  has no OID.  The outcomes of the allocations are a list, and when it is used up they succeed.  Items of
  a list that maps refer to are numbers.
\<close>

datatype 's flow = Next 's | Stop 's

fun each_result :: "(snmp_result \<Rightarrow> 's \<Rightarrow> 's flow option) \<Rightarrow> snmp_result list \<Rightarrow> 's \<Rightarrow> 's option" where
  "each_result f [] s = Some s"
| "each_result f (rp # rps) s =
     (if sr_oid rp = [] then Some s
      else case f rp s of
          None \<Rightarrow> None
        | Some (Stop s) \<Rightarrow> Some s
        | Some (Next s) \<Rightarrow> each_result f rps s)"

fun take_allocs :: "nat \<Rightarrow> bool list \<Rightarrow> bool \<times> bool list" where
  "take_allocs 0 as = (True, as)"
| "take_allocs (Suc n) [] = (True, [])"
| "take_allocs (Suc n) (a # as) = (if a then take_allocs n as else (False, as))"

abbreviation STL_NODE_DESCRIPTION_ARRAY_SIZE :: nat where "STL_NODE_DESCRIPTION_ARRAY_SIZE \<equiv> 64"
abbreviation SMALL_STR_ARRAY_SIZE :: nat where "SMALL_STR_ARRAY_SIZE \<equiv> 32"
abbreviation ADDR_SUBTYPE_IPV4 :: int where "ADDR_SUBTYPE_IPV4 \<equiv> 1"
abbreviation ENTITY_TYPE_CHASSIS :: int where "ENTITY_TYPE_CHASSIS \<equiv> 3"
abbreviation ENTITY_TYPE_MODULE :: int where "ENTITY_TYPE_MODULE \<equiv> 9"
abbreviation ETH_PORT_TYPE_24 :: uint8 where "ETH_PORT_TYPE_24 \<equiv> 24"

text \<open>What the node records have beside the fields that the fabric keeps.\<close>

record snmp_node = node_record +
  nd_LID :: uint32
  nd_NumPorts :: uint16
  nd_LocalPortNum :: uint16
  nd_VendorID :: "24 word"
  nd_PortGUID :: uint64
  nd_DeviceName :: string
  nd_HardwareRev :: string
  nd_FirmwareRev :: string
  nd_SerialNum :: string
  nd_MfgName :: string
  nd_PartNum :: string

definition new_node_record :: snmp_node where
  "new_node_record = \<lparr>nr_NodeGUID = 0, nr_SystemImageGUID = 0, nr_NodeType = 0, nr_NodeDesc = [], nd_LID = 0,
     nd_NumPorts = 0, nd_LocalPortNum = 0, nd_VendorID = 0, nd_PortGUID = 0, nd_DeviceName = [], nd_HardwareRev = [],
     nd_FirmwareRev = [], nd_SerialNum = [], nd_MfgName = [], nd_PartNum = []\<rparr>"

text \<open>An \<^verbatim>\<open>int\<close> from a \<^verbatim>\<open>long\<close>, and an \<^verbatim>\<open>int\<close> as the key of a map.\<close>

definition c_int :: "int \<Rightarrow> int" where
  "c_int i = sint (of_int i :: 32 word)"

definition int_key :: "int \<Rightarrow> uint64" where
  "int_key i = of_int i"

subsection \<open>Switches\<close>

record switch_node =
  sw_node :: snmp_node
  sw_status :: hmgt_status
  sw_manAddr :: bool
  sw_phyId :: int

definition in_node :: "(snmp_node \<Rightarrow> snmp_node) \<Rightarrow> switch_node \<Rightarrow> switch_node flow option" where
  "in_node f s = Some (Next (s\<lparr>sw_node := f (sw_node s)\<rparr>))"

text \<open>The first management address gives the LID; any other than IPv4 ends the loop.\<close>

definition switch_address :: "snmp_result \<Rightarrow> switch_node \<Rightarrow> switch_node flow option" where
  "switch_address rp s =
     (if sw_manAddr s then Some (Next s)
      else if oid_len lldpLocManAddrIfId + 1 + 1 + 4 \<le> length (sr_oid rp) then do {
        subtype \<leftarrow> get_oid_num rp (oid_len lldpLocManAddrIfId);
        ipLen \<leftarrow> get_oid_num rp (oid_len lldpLocManAddrIfId + 1);
        if subtype = ADDR_SUBTYPE_IPV4 \<and> ipLen = 4 then do {
          lid \<leftarrow> get_lid_from_oid rp (oid_len lldpLocManAddrIfId + 2);
          i \<leftarrow> val_integer (sr_val rp);
          Some (Next (s\<lparr>sw_node := (sw_node s)\<lparr>nd_LID := lid, nd_LocalPortNum := of_int i\<rparr>, sw_manAddr := True\<rparr>)) }
        else Some (Stop (s\<lparr>sw_status := HMGT_STATUS_ERROR\<rparr>)) }
      else Some (Stop (s\<lparr>sw_status := HMGT_STATUS_ERROR\<rparr>)))"

definition switch_phys_address :: "snmp_result \<Rightarrow> switch_node \<Rightarrow> switch_node flow option" where
  "switch_phys_address rp s = do {
     ifId \<leftarrow> get_oid_num rp (oid_len ifPhysAddress);
     if ifId = uint (nd_LocalPortNum (sw_node s)) then do {
       str \<leftarrow> val_octets (sr_val rp);
       in_node (\<lambda>n. n\<lparr>nd_PortGUID := get_guid str\<rparr>) s }
     else Some (Next s) }"

definition switch_module :: "snmp_result \<Rightarrow> switch_node \<Rightarrow> switch_node flow option" where
  "switch_module rp s =
     (if sw_phyId s = - 1 then do {
        i \<leftarrow> val_integer (sr_val rp);
        if i = ENTITY_TYPE_MODULE \<or> i = ENTITY_TYPE_CHASSIS then do {
          n \<leftarrow> get_oid_num rp (oid_len entPhysicalClass);
          Some (Next (s\<lparr>sw_phyId := n\<rparr>)) }
        else Some (Next s) }
      else Some (Next s))"

text \<open>A string about the module that has been picked.\<close>

definition switch_string ::
  "SNMPOid \<Rightarrow> (snmp_node \<Rightarrow> string) \<Rightarrow> (string \<Rightarrow> snmp_node \<Rightarrow> snmp_node) \<Rightarrow> snmp_result \<Rightarrow> switch_node \<Rightarrow> switch_node flow option" where
  "switch_string v get put rp s = do {
     phyId \<leftarrow> get_oid_num rp (oid_len v);
     if phyId = sw_phyId s then do {
       str \<leftarrow> copy_snmp_string rp (get (sw_node s)) SMALL_STR_ARRAY_SIZE False;
       in_node (put str) s }
     else Some (Next s) }"

definition node_desc :: "string \<Rightarrow> string option" where
  "node_desc str = map_option (take (min (length str + 1) STL_NODE_DESCRIPTION_ARRAY_SIZE - 1)) (c_string str)"

definition switch_node_step :: "snmp_result \<Rightarrow> switch_node \<Rightarrow> switch_node flow option" where
  "switch_node_step rp s =
     (if is_oid rp lldpLocChassisId then do {
        str \<leftarrow> val_octets (sr_val rp);
        in_node (\<lambda>n. n\<lparr>nr_SystemImageGUID := get_guid str, nr_NodeGUID := get_guid str\<rparr>) s }
      else if is_oid rp lldpLocManAddrIfId then switch_address rp s
      else if is_oid rp sysObjectID then do {
        l \<leftarrow> val_objid (sr_val rp);
        in_node (\<lambda>n. n\<lparr>nd_VendorID := (if 6 < length l then ucast (l ! 6) else 0)\<rparr>) s }
      else if is_oid rp sysName then do {
        str \<leftarrow> val_octets (sr_val rp);
        desc \<leftarrow> node_desc str;
        in_node (\<lambda>n. n\<lparr>nr_NodeDesc := desc\<rparr>) s }
      else if is_oid rp ifNumber then do {
        i \<leftarrow> val_integer (sr_val rp);
        in_node (\<lambda>n. n\<lparr>nd_NumPorts := of_int i\<rparr>) s }
      else if is_oid rp ifPhysAddress then switch_phys_address rp s
      else if is_oid rp entPhysicalClass then switch_module rp s
      else if is_oid rp entPhysicalDescr then switch_string entPhysicalDescr nd_DeviceName (\<lambda>x n. n\<lparr>nd_DeviceName := x\<rparr>) rp s
      else if is_oid rp entPhysicalHardwareRev then switch_string entPhysicalHardwareRev nd_HardwareRev (\<lambda>x n. n\<lparr>nd_HardwareRev := x\<rparr>) rp s
      else if is_oid rp entPhysicalFirmwareRev then switch_string entPhysicalFirmwareRev nd_FirmwareRev (\<lambda>x n. n\<lparr>nd_FirmwareRev := x\<rparr>) rp s
      else if is_oid rp entPhysicalSerialNum then switch_string entPhysicalSerialNum nd_SerialNum (\<lambda>x n. n\<lparr>nd_SerialNum := x\<rparr>) rp s
      else if is_oid rp entPhysicalMfgName then switch_string entPhysicalMfgName nd_MfgName (\<lambda>x n. n\<lparr>nd_MfgName := x\<rparr>) rp s
      else if is_oid rp entPhysicalModelName then switch_string entPhysicalModelName nd_PartNum (\<lambda>x n. n\<lparr>nd_PartNum := x\<rparr>) rp s
      else Some (Next s))"

definition populate_switch_node_record ::
  "bool list \<Rightarrow> snmp_result list \<Rightarrow> (hmgt_status \<times> snmp_node list \<times> bool list) option" where
  "populate_switch_node_record as res =
     (case take_allocs 3 as of
        (False, as) \<Rightarrow> Some (HMGT_STATUS_INSUFFICIENT_MEMORY, [], as)
      | (True, as) \<Rightarrow> do {
          s \<leftarrow> each_result switch_node_step res \<lparr>sw_node = new_node_record\<lparr>nr_NodeType := NODE_SW\<rparr>,
            sw_status = HMGT_STATUS_SUCCESS, sw_manAddr = False, sw_phyId = - 1\<rparr>;
          Some (sw_status s, [sw_node s], as) })"

subsection \<open>Hosts\<close>

text \<open>The list of nodes, each with its number and the index of its interface.\<close>

record host_nodes =
  hn_list :: "(nat \<times> uint32 \<times> snmp_node) list"
  hn_count :: nat
  hn_map :: "nat omap"
  hn_status :: hmgt_status
  hn_sysName :: "snmp_result option"
  hn_guid :: uint64
  hn_allocs :: "bool list"

definition in_item :: "nat \<Rightarrow> (snmp_node \<Rightarrow> snmp_node) \<Rightarrow> host_nodes \<Rightarrow> host_nodes" where
  "in_item i f s = s\<lparr>hn_list := map (\<lambda>(j, k, n). (j, k, if j = i then f n else n)) (hn_list s)\<rparr>"

text \<open>
  The name of the system, cut so that the name of the interface fits, a dash and that name.  The
  lengths are of type \<^verbatim>\<open>size_t\<close>: the difference wraps for a name of 64 bytes or more, and the code then
  writes outside the array.
\<close>

definition host_prefix :: "snmp_result option \<Rightarrow> nat \<Rightarrow> (nat \<times> string) option" where
  "host_prefix sys nameLen =
     (case sys of
        None \<Rightarrow> Some (7, ''Unknown'')
      | Some r \<Rightarrow> do {
          str \<leftarrow> val_octets (sr_val r);
          cstr \<leftarrow> c_string str;
          let len = min (length str + 1) STL_NODE_DESCRIPTION_ARRAY_SIZE;
          let len = (if STL_NODE_DESCRIPTION_ARRAY_SIZE < len + nameLen + 1
            then max 5 (STL_NODE_DESCRIPTION_ARRAY_SIZE - nameLen - 1) else len);
          Some (len, take (len - 1) cstr) })"

definition host_desc :: "snmp_result option \<Rightarrow> string \<Rightarrow> string option" where
  "host_desc sys name =
     (if STL_NODE_DESCRIPTION_ARRAY_SIZE \<le> length name then None
      else do {
        (len, prefix) \<leftarrow> host_prefix sys (length name);
        let len2 = min (length name + 2) (STL_NODE_DESCRIPTION_ARRAY_SIZE - len + 1);
        let delta = length name + 2 - len2;
        Some (if length prefix < len - 1 then prefix
          else take (len - 1) prefix @ ''-'' @ take (len2 - 2) (takeWhile (\<lambda>c. c \<noteq> CHR 0x00) (drop delta name))) })"

definition host_if_name :: "string list \<Rightarrow> snmp_result \<Rightarrow> host_nodes \<Rightarrow> host_nodes flow option" where
  "host_if_name interfaces rp s = do {
     name \<leftarrow> val_octets (sr_val rp);
     if \<not> is_supported_interface interfaces name then Some (Next s)
     else do {
       portId \<leftarrow> get_oid_num rp (oid_len ifName);
       case take_allocs 3 (hn_allocs s) of
         (False, as) \<Rightarrow> Some (Next (s\<lparr>hn_allocs := as\<rparr>))
       | (True, as) \<Rightarrow>
           let i = hn_count s;
               n = new_node_record\<lparr>nr_NodeType := NODE_FI, nd_NumPorts := 1, nd_LocalPortNum := 1, nr_SystemImageGUID := hn_guid s\<rparr>;
               s = s\<lparr>hn_list := hn_list s @ [(i, of_int portId, n)], hn_count := i + 1\<rparr>
           in (case take_allocs 1 as of
                 (False, as) \<Rightarrow> Some (Stop (s\<lparr>hn_status := HMGT_STATUS_INSUFFICIENT_MEMORY, hn_allocs := as\<rparr>))
               | (True, as) \<Rightarrow> do {
                   desc \<leftarrow> host_desc (hn_sysName s) name;
                   Some (Next (in_item i (\<lambda>n. n\<lparr>nr_NodeDesc := desc\<rparr>)
                     (s\<lparr>hn_map := omap_insert (int_key portId) i (hn_map s), hn_allocs := as\<rparr>))) }) } }"

text \<open>The interface of a software loopback is dropped again.\<close>

definition host_if_type :: "snmp_result \<Rightarrow> host_nodes \<Rightarrow> host_nodes flow option" where
  "host_if_type rp s = do {
     type \<leftarrow> val_integer (sr_val rp);
     if of_int type = ETH_PORT_TYPE_24 then do {
       portId \<leftarrow> get_oid_num rp (oid_len ifType);
       case omap_get (int_key portId) (hn_map s) of
         None \<Rightarrow> Some (Next s)
       | Some i \<Rightarrow> Some (Next (s\<lparr>hn_map := omap_remove (int_key portId) (hn_map s),
           hn_list := filter (\<lambda>(j, k, n). j \<noteq> i) (hn_list s)\<rparr>)) }
     else Some (Next s) }"

definition host_phys_address :: "snmp_result \<Rightarrow> host_nodes \<Rightarrow> host_nodes flow option" where
  "host_phys_address rp s = do {
     portNum \<leftarrow> get_oid_num rp (oid_len ifPhysAddress);
     case omap_get (int_key portNum) (hn_map s) of
       None \<Rightarrow> Some (Next s)
     | Some i \<Rightarrow> do {
         str \<leftarrow> val_octets (sr_val rp);
         let img = (if hn_guid s = 0 then get_guid str else hn_guid s);
         Some (Next (in_item i (\<lambda>n. n\<lparr>nr_NodeGUID := get_guid str, nd_PortGUID := get_guid str, nr_SystemImageGUID := img\<rparr>)
           (s\<lparr>hn_guid := img\<rparr>))) } }"

definition host_address :: "snmp_result \<Rightarrow> host_nodes \<Rightarrow> host_nodes flow option" where
  "host_address rp s = do {
     v \<leftarrow> val_integer (sr_val rp);
     case omap_get (int_key (c_int v)) (hn_map s) of
       None \<Rightarrow> Some (Next s)
     | Some i \<Rightarrow> do {
         lid \<leftarrow> get_lid_from_oid rp (oid_len ipAdEntIfIndex);
         Some (Next (in_item i (\<lambda>n. n\<lparr>nd_LID := lid\<rparr>) s)) } }"

definition host_node_step :: "string list \<Rightarrow> snmp_result \<Rightarrow> host_nodes \<Rightarrow> host_nodes flow option" where
  "host_node_step interfaces rp s =
     (if is_oid rp sysName then Some (Next (s\<lparr>hn_sysName := Some rp\<rparr>))
      else if is_oid rp ifName then host_if_name interfaces rp s
      else if is_oid rp ifType then host_if_type rp s
      else if is_oid rp ifPhysAddress then host_phys_address rp s
      else if is_oid rp ipAdEntIfIndex then host_address rp s
      else Some (Next s))"

definition populate_host_node_record ::
  "string list \<Rightarrow> bool list \<Rightarrow> snmp_result list \<Rightarrow> (hmgt_status \<times> (uint32 \<times> snmp_node) list \<times> bool list) option" where
  "populate_host_node_record interfaces as res = do {
     s \<leftarrow> each_result (host_node_step interfaces) res \<lparr>hn_list = [], hn_count = 0, hn_map = [],
       hn_status = HMGT_STATUS_SUCCESS, hn_sysName = None, hn_guid = 0, hn_allocs = as\<rparr>;
     Some (hn_status s, map snd (hn_list s), hn_allocs s) }"

end
