(* ===== verification/SnmpPorts.thy ===== *)
theory SnmpPorts
  imports SnmpNodes
begin

text \<open>
  The port records that discovery makes of the results of a switch or a host, \<^verbatim>\<open>Topology/hpnmgt_snmp.c\<close>:
  \<^verbatim>\<open>populate_switch_node_port_records\<close> and \<^verbatim>\<open>populate_host_node_port_records\<close>.

  A record is kept under its number in the list of all records, and the maps from port numbers and
  interface indices hold these numbers.  \<open>png_allocs\<close> are the outcomes of the allocations of the port
  number generator by port name.
\<close>

subsection \<open>Records\<close>

text \<open>The fields of the code, at their widths; the rest of the record stays 0.\<close>

record snmp_port =
  sp_EndPortLID :: uint32
  sp_PortNum :: uint16
  sp_LID :: uint32
  sp_CapabilityMask :: uint32
  sp_CapabilityMask3 :: uint16
  sp_PortState :: "4 word"
  sp_PortPhysicalState :: "4 word"
  sp_IsSMConfigurationStarted :: "1 word"
  sp_PortType :: "4 word"
  sp_LinkDownReason :: uint8
  sp_SpeedActive :: uint16
  sp_SpeedSupported :: uint16
  sp_IPAddrIPV4 :: "uint8 list"
  sp_NeighborNodeGUID :: uint64
  sp_NeighborNodeType :: "2 word"
  sp_MTU2 :: uint16
  sp_LocalPortNum :: uint32
  sp_LocalPortId :: string
  sp_LocalPortIdSubtype :: uint8
  sp_NeighborPortId :: string
  sp_NeighborPortIdSubtype :: uint8
  sp_IfSpeed :: uint32
  sp_LinkModeSupported :: string
  sp_LinkModeSupLen :: uint16

abbreviation LINK_MODES_SIZE :: nat where "LINK_MODES_SIZE \<equiv> 20"
abbreviation PORTID_SUBTYPE_MAC :: uint8 where "PORTID_SUBTYPE_MAC \<equiv> 3"
abbreviation STL_NEIGH_NODE_TYPE_HFI :: "2 word" where "STL_NEIGH_NODE_TYPE_HFI \<equiv> 0"
abbreviation STL_NEIGH_NODE_TYPE_SW :: "2 word" where "STL_NEIGH_NODE_TYPE_SW \<equiv> 1"

definition new_port_record :: snmp_port where
  "new_port_record = \<lparr>sp_EndPortLID = 0, sp_PortNum = 0, sp_LID = 0, sp_CapabilityMask = 0, sp_CapabilityMask3 = 0,
     sp_PortState = 0, sp_PortPhysicalState = 0, sp_IsSMConfigurationStarted = 0, sp_PortType = 0, sp_LinkDownReason = 0,
     sp_SpeedActive = 0, sp_SpeedSupported = 0, sp_IPAddrIPV4 = [0, 0, 0, 0], sp_NeighborNodeGUID = 0,
     sp_NeighborNodeType = 0, sp_MTU2 = 0, sp_LocalPortNum = 0, sp_LocalPortId = [], sp_LocalPortIdSubtype = 0,
     sp_NeighborPortId = [], sp_NeighborPortIdSubtype = 0, sp_IfSpeed = 0,
     sp_LinkModeSupported = replicate LINK_MODES_SIZE CHR 0x00, sp_LinkModeSupLen = 0\<rparr>"

text \<open>The fields that a value sets.\<close>

definition set_type :: "int \<Rightarrow> snmp_port \<Rightarrow> snmp_port" where
  "set_type i p = p\<lparr>sp_PortType := ucast (of_int i :: uint8)\<rparr>"

definition set_mtu :: "int \<Rightarrow> snmp_port \<Rightarrow> snmp_port" where
  "set_mtu i p = p\<lparr>sp_MTU2 := of_int i\<rparr>"

definition set_speed :: "uint32 \<Rightarrow> snmp_port \<Rightarrow> snmp_port" where
  "set_speed v p = p\<lparr>sp_IfSpeed := v, sp_SpeedActive := ifspeed_to_active_linkspeed v\<rparr>"

text \<open>From bits to megabits per second; the division of the code rounds towards 0.\<close>

definition set_ifSpeed :: "int \<Rightarrow> snmp_port \<Rightarrow> snmp_port" where
  "set_ifSpeed i = set_speed (of_int (if i < 0 then - (- i div 1000000) else i div 1000000))"

definition set_ifHighSpeed :: "int \<Rightarrow> snmp_port \<Rightarrow> snmp_port" where
  "set_ifHighSpeed i = set_speed (of_int i)"

definition set_state :: "int \<Rightarrow> snmp_port \<Rightarrow> snmp_port" where
  "set_state i p = p\<lparr>sp_PortState := of_int i\<rparr>"

definition set_phys_state :: "int \<Rightarrow> snmp_port \<Rightarrow> snmp_port" where
  "set_phys_state i p = p\<lparr>sp_PortPhysicalState := ucast (of_int i :: uint8)\<rparr>"

definition set_down_reason :: "int \<Rightarrow> snmp_port \<Rightarrow> snmp_port" where
  "set_down_reason i p = p\<lparr>sp_LinkDownReason := of_int i\<rparr>"

definition set_auto_neg :: "int \<Rightarrow> snmp_port \<Rightarrow> snmp_port" where
  "set_auto_neg i p = p\<lparr>sp_IsSMConfigurationStarted := (if (of_int i :: uint8) = 1 then 1 else 0)\<rparr>"

definition set_link_modes :: "string \<Rightarrow> snmp_port \<Rightarrow> snmp_port" where
  "set_link_modes str p =
     (if is_all_zeros str then p
      else p\<lparr>sp_LinkModeSupported := take LINK_MODES_SIZE str @ drop (length str) (sp_LinkModeSupported p),
        sp_SpeedSupported := get_link_speed_supported str, sp_LinkModeSupLen := of_nat (length str)\<rparr>)"

text \<open>What the construction of the fabric takes over; it knows eight port states.\<close>

definition state_of :: "4 word \<Rightarrow> port_state option" where
  "state_of w =
     (if w = 0 then Some ETH_PORT_NOP else if w = 1 then Some ETH_PORT_UP else if w = 2 then Some ETH_PORT_DOWN
      else if w = 3 then Some ETH_PORT_TESTING else if w = 4 then Some ETH_PORT_UNKNOWN
      else if w = 5 then Some ETH_PORT_DORMANT else if w = 6 then Some ETH_PORT_NOT_PRESENT
      else if w = 7 then Some ETH_PORT_LOWER_LAYER_DOWN else None)"

definition record_of :: "snmp_port \<Rightarrow> portinfo_record option" where
  "record_of p = map_option (\<lambda>st. \<lparr>pr_EndPortLID = sp_EndPortLID p, pr_PortNum = sp_PortNum p,
     pr_LocalPortNum = ucast (sp_LocalPortNum p), pr_LID = sp_LID p, pr_LMC = 0, pr_PortState = st, pr_MTU2 = sp_MTU2 p,
     pr_IfSpeed = sp_IfSpeed p, pr_LocalPortId = sp_LocalPortId p,
     pr_info = \<lparr>NeighborNodeGUID = sp_NeighborNodeGUID p, NeighborPortId = sp_NeighborPortId p, NeighborPortNum = 0,
       NeighborNodeType = ucast (sp_NeighborNodeType p)\<rparr>\<rparr>) (state_of (sp_PortState p))"

text \<open>The records while the results are read, with the map of interface indices.\<close>

record snmp_ports =
  ss_list :: "snmp_port list"
  ss_status :: hmgt_status
  ss_idMap :: "nat omap"
  ss_allocs :: "bool list"

definition on_port :: "nat \<Rightarrow> (snmp_port \<Rightarrow> snmp_port) \<Rightarrow> 'a snmp_ports_scheme \<Rightarrow> 'a snmp_ports_scheme" where
  "on_port i f s = s\<lparr>ss_list := (ss_list s)[i := f (ss_list s ! i)]\<rparr>"

text \<open>A value about the port with an interface index.\<close>

definition on_interface ::
  "SNMPOid \<Rightarrow> (snmp_val \<Rightarrow> 'v option) \<Rightarrow> ('v \<Rightarrow> snmp_port \<Rightarrow> snmp_port) \<Rightarrow> snmp_result \<Rightarrow> 
   'a snmp_ports_scheme \<Rightarrow> 'a snmp_ports_scheme flow option" where
  "on_interface v get put rp s = do {
     portId \<leftarrow> get_oid_num rp (oid_len v);
     case omap_get (int_key portId) (ss_idMap s) of
       None \<Rightarrow> Some (Next s)
     | Some i \<Rightarrow> do {
         x \<leftarrow> get (sr_val rp);
         Some (Next (on_port i (put x) s)) } }"

subsection \<open>Switches\<close>

record png_allocs =
  pa_count :: "string \<Rightarrow> uint64 \<Rightarrow> bool"
  pa_full :: "string \<Rightarrow> bool"
  pa_group :: "string \<Rightarrow> uint64 \<Rightarrow> bool"

record switch_ports = snmp_ports +
  ss_manAddr :: bool
  ss_numMap :: "nat omap"
  ss_gen :: pn_gen

text \<open>Port 0 comes first in the list.\<close>

definition set_address :: "snmp_result \<Rightarrow> switch_ports \<Rightarrow> switch_ports option" where
  "set_address rp s =
     (if oid_len lldpLocManAddrIfId + 1 + 1 + 4 \<le> length (sr_oid rp) then do {
        subtype \<leftarrow> get_oid_num rp (oid_len lldpLocManAddrIfId);
        ipLen \<leftarrow> get_oid_num rp (oid_len lldpLocManAddrIfId + 1);
        if subtype = ADDR_SUBTYPE_IPV4 \<and> ipLen = 4 then do {
          a \<leftarrow> get_oid_num rp (oid_len lldpLocManAddrIfId + 2);
          b \<leftarrow> get_oid_num rp (oid_len lldpLocManAddrIfId + 3);
          c \<leftarrow> get_oid_num rp (oid_len lldpLocManAddrIfId + 4);
          d \<leftarrow> get_oid_num rp (oid_len lldpLocManAddrIfId + 5);
          Some (on_port 0 (\<lambda>p. p\<lparr>sp_IPAddrIPV4 := map of_int [a, b, c, d]\<rparr>) s) }
        else Some (s\<lparr>ss_status := HMGT_STATUS_ERROR\<rparr>) }
      else Some (s\<lparr>ss_status := HMGT_STATUS_ERROR\<rparr>))"

definition port_zero_address :: "snmp_result \<Rightarrow> switch_ports \<Rightarrow> switch_ports flow option" where
  "port_zero_address rp s =
     (if ss_manAddr s then Some (Next s)
      else do {
        i \<leftarrow> val_integer (sr_val rp);
        s \<leftarrow> set_address rp (on_port 0 (\<lambda>p. p\<lparr>sp_LID := of_int i, sp_LocalPortNum := of_int i\<rparr>) s);
        Some (Next (s\<lparr>ss_manAddr := True\<rparr>)) })"

text \<open>
  A record for a port number with the capabilities of port 0, entered into the map of port numbers
  unless that number has a record; \<open>f\<close> is run on it before, \<open>g\<close> after it has been entered.
\<close>

definition add_record ::
  "uint32 \<Rightarrow> int \<Rightarrow> (snmp_port \<Rightarrow> snmp_port) \<Rightarrow> (snmp_port \<Rightarrow> snmp_port) \<Rightarrow> switch_ports \<Rightarrow> switch_ports flow" where
  "add_record lid portNum f g s =
     (case take_allocs 2 (ss_allocs s) of
        (False, as) \<Rightarrow> Next (s\<lparr>ss_allocs := as\<rparr>)
      | (True, as) \<Rightarrow>
          let i = length (ss_list s);
              p = f (new_port_record\<lparr>sp_EndPortLID := lid, sp_CapabilityMask := sp_CapabilityMask (ss_list s ! 0),
                sp_CapabilityMask3 := sp_CapabilityMask3 (ss_list s ! 0)\<rparr>);
              s = s\<lparr>ss_list := ss_list s @ [p]\<rparr>
          in (case take_allocs 1 as of
                (False, as) \<Rightarrow> Stop (s\<lparr>ss_status := HMGT_STATUS_INSUFFICIENT_MEMORY, ss_allocs := as\<rparr>)
              | (True, as) \<Rightarrow> Next (on_port i g (s\<lparr>ss_numMap := omap_insert (int_key portNum) i (ss_numMap s), ss_allocs := as\<rparr>))))"

definition remote_chassis :: "uint32 \<Rightarrow> snmp_result \<Rightarrow> switch_ports \<Rightarrow> switch_ports flow option" where
  "remote_chassis lid rp s =
     (if \<not> fst (take_allocs 2 (ss_allocs s)) then Some (Next (s\<lparr>ss_allocs := snd (take_allocs 2 (ss_allocs s))\<rparr>))
      else do {
        portNum \<leftarrow> get_oid_num rp (oid_len lldpRemChassisId + 1);
        str \<leftarrow> val_octets (sr_val rp);
        Some (add_record lid portNum (\<lambda>p. p\<lparr>sp_NeighborNodeGUID := get_guid str\<rparr>) id s) })"

text \<open>A value about the port with a number, at an offset behind the variable.\<close>

definition on_number ::
  "SNMPOid \<Rightarrow> nat \<Rightarrow> (nat \<Rightarrow> switch_ports \<Rightarrow> switch_ports option) \<Rightarrow> snmp_result \<Rightarrow> switch_ports \<Rightarrow> switch_ports flow option" where
  "on_number v offset f rp s = do {
     portNum \<leftarrow> get_oid_num rp (oid_len v + offset);
     case omap_get (int_key portNum) (ss_numMap s) of
       None \<Rightarrow> Some (Next s)
     | Some i \<Rightarrow> map_option Next (f i s) }"

definition remote_subtype :: "snmp_result \<Rightarrow> nat \<Rightarrow> switch_ports \<Rightarrow> switch_ports option" where
  "remote_subtype rp i s = do {
     v \<leftarrow> val_integer (sr_val rp);
     Some (on_port i (\<lambda>p. p\<lparr>sp_NeighborPortIdSubtype := of_int v\<rparr>) s) }"

definition remote_port_id :: "snmp_result \<Rightarrow> nat \<Rightarrow> switch_ports \<Rightarrow> switch_ports option" where
  "remote_port_id rp i s = (let p = ss_list s ! i in do {
     str \<leftarrow> copy_snmp_string rp (sp_NeighborPortId p) TINY_STR_ARRAY_SIZE (sp_NeighborPortIdSubtype p = PORTID_SUBTYPE_MAC);
     Some (on_port i (\<lambda>p. p\<lparr>sp_NeighborPortId := str\<rparr>) s) })"

definition remote_capabilities :: "snmp_result \<Rightarrow> nat \<Rightarrow> switch_ports \<Rightarrow> switch_ports option" where
  "remote_capabilities rp i s = do {
     str \<leftarrow> val_octets (sr_val rp);
     Some (on_port i (\<lambda>p. p\<lparr>sp_NeighborNodeType :=
       (if get_node_type str = NODE_SW then STL_NEIGH_NODE_TYPE_SW
        else if get_node_type str = NODE_FI then STL_NEIGH_NODE_TYPE_HFI else sp_NeighborNodeType p)\<rparr>) s) }"

definition local_port_id :: "snmp_result \<Rightarrow> nat \<Rightarrow> switch_ports \<Rightarrow> switch_ports option" where
  "local_port_id rp i s = do {
     str \<leftarrow> copy_snmp_string rp (sp_LocalPortId (ss_list s ! i)) TINY_STR_ARRAY_SIZE False;
     Some (on_port i (\<lambda>p. p\<lparr>sp_LocalPortId := str\<rparr>) s) }"

text \<open>An id that is neither the name of an interface nor local ends the loop; inactive ports get their record here.\<close>

definition local_subtype :: "uint32 \<Rightarrow> bool \<Rightarrow> snmp_result \<Rightarrow> switch_ports \<Rightarrow> switch_ports flow option" where
  "local_subtype lid downportinfo rp s = do {
     portNum \<leftarrow> get_oid_num rp (oid_len lldpLocPortIdSubtype);
     v \<leftarrow> val_integer (sr_val rp);
     let type = (of_int v :: uint8);
     Some (case omap_get (int_key portNum) (ss_numMap s) of
         Some i \<Rightarrow> if type \<noteq> 5 \<and> type \<noteq> 7 then Stop s
                   else Next (on_port i (\<lambda>p. p\<lparr>sp_LocalPortIdSubtype := type\<rparr>) s)
       | None \<Rightarrow> if downportinfo then add_record lid portNum id (\<lambda>p. p\<lparr>sp_LocalPortIdSubtype := type\<rparr>) s else Next s) }"

text \<open>
  The name of an interface is entered into the generator, and the first port in the map of numbers
  whose id is the beginning of it moves to the map of interface indices.  The code puts a NUL behind the
  name, for which there is no room from 64 bytes on.
\<close>

definition name_matches :: "switch_ports \<Rightarrow> string \<Rightarrow> nat \<Rightarrow> nat \<Rightarrow> bool" where
  "name_matches s name n i \<longleftrightarrow> take n (sp_LocalPortId (ss_list s ! i)) = take n name"

definition match_interface :: "snmp_result \<Rightarrow> string \<Rightarrow> nat \<Rightarrow> switch_ports \<Rightarrow> switch_ports flow option" where
  "match_interface rp name n s =
     (case find (\<lambda>(k, i). name_matches s name n i) (ss_numMap s) of
        None \<Rightarrow> Some (Next s)
      | Some (k, i) \<Rightarrow> do {
          portId \<leftarrow> get_oid_num rp (oid_len ifName);
          let s = on_port i (\<lambda>p. p\<lparr>sp_LID := of_int portId\<rparr>) (s\<lparr>ss_numMap := omap_remove k (ss_numMap s)\<rparr>);
          Some (case take_allocs 1 (ss_allocs s) of
              (False, as) \<Rightarrow> Stop (s\<lparr>ss_status := HMGT_STATUS_INSUFFICIENT_MEMORY, ss_allocs := as\<rparr>)
            | (True, as) \<Rightarrow> Next (s\<lparr>ss_idMap := omap_insert (int_key portId) i (ss_idMap s), ss_allocs := as\<rparr>)) })"

definition switch_if_name :: "png_allocs \<Rightarrow> snmp_result \<Rightarrow> switch_ports \<Rightarrow> switch_ports flow option" where
  "switch_if_name pa rp s = do {
     str \<leftarrow> val_octets (sr_val rp);
     if FF_SNMP_VAL_LEN \<le> length str then None
     else do {
       let name = takeWhile (\<lambda>c. c \<noteq> CHR 0x00) str;
       let (ok, as) = (if processed (ss_gen s) then (True, ss_allocs s) else take_allocs 1 (ss_allocs s));
       (_, model) \<leftarrow> pn_gen_register ok (pa_count pa name) name (ss_gen s);
       match_interface rp name (length str) (s\<lparr>ss_gen := model, ss_allocs := as\<rparr>) } }"

definition switch_port_step ::
  "png_allocs \<Rightarrow> uint32 \<Rightarrow> bool \<Rightarrow> snmp_result \<Rightarrow> switch_ports \<Rightarrow> switch_ports flow option" where
  "switch_port_step pa lid down rp s =
     (if is_oid rp lldpLocSysCapSupported then do {
        str \<leftarrow> val_octets (sr_val rp);
        Some (Next (on_port 0 (\<lambda>p. p\<lparr>sp_CapabilityMask := get_capability str\<rparr>) s)) }
      else if is_oid rp lldpLocSysCapEnabled then do {
        str \<leftarrow> val_octets (sr_val rp);
        Some (Next (on_port 0 (\<lambda>p. p\<lparr>sp_CapabilityMask3 := ucast (get_capability str)\<rparr>) s)) }
      else if is_oid rp lldpLocManAddrIfId then port_zero_address rp s
      else if is_oid rp lldpRemChassisId then remote_chassis lid rp s
      else if is_oid rp lldpRemPortIdSubtype then on_number lldpRemPortIdSubtype 1 (remote_subtype rp) rp s
      else if is_oid rp lldpRemPortId then on_number lldpRemPortId 1 (remote_port_id rp) rp s
      else if is_oid rp lldpRemSysCapEnabled then on_number lldpRemSysCapEnabled 1 (remote_capabilities rp) rp s
      else if is_oid rp lldpLocPortIdSubtype then local_subtype lid down rp s
      else if is_oid rp lldpLocPortId then on_number lldpLocPortId 0 (local_port_id rp) rp s
      else if is_oid rp ifName then switch_if_name pa rp s
      else if is_oid rp ifType then on_interface ifOperStatus val_integer set_type rp s
      else if is_oid rp ifMTU then on_interface ifOperStatus val_integer set_mtu rp s
      else if is_oid rp ifSpeed then on_interface ifOperStatus val_integer set_ifSpeed rp s
      else if is_oid rp ifOperStatus then on_interface ifOperStatus val_integer set_state rp s
      else if is_oid rp ifMauStatus then on_interface ifMauStatus val_integer set_phys_state rp s
      else if is_oid rp ifMauMediaAvailable then on_interface ifMauMediaAvailable val_integer set_down_reason rp s
      else if is_oid rp ifMauTypeListBits then on_interface ifMauTypeListBits val_octets set_link_modes rp s
      else if is_oid rp ifMauAutoNegAdminStatus then on_interface ifMauAutoNegAdminStatus val_integer set_auto_neg rp s
      else if is_oid rp ifHighSpeed then on_interface ifHighSpeed val_integer set_ifHighSpeed rp s
      else Some (Next s))"

fun number_ports :: "png_allocs \<Rightarrow> pn_gen \<Rightarrow> snmp_port list \<Rightarrow> snmp_port list" where
  "number_ports pa model [] = []"
| "number_ports pa model (p # ps) =
     (if sp_LocalPortId p = [] then p # number_ports pa model ps
      else case pn_gen_get_port (pa_full pa (sp_LocalPortId p)) (pa_group pa (sp_LocalPortId p)) (sp_LocalPortId p) model of
          (num, model) \<Rightarrow> p\<lparr>sp_PortNum := num\<rparr> # number_ports pa model ps)"

text \<open>The records, if there is a list for them.\<close>

definition populate_switch_node_port_records ::
  "png_allocs \<Rightarrow> bool \<Rightarrow> bool list \<Rightarrow> snmp_result list \<Rightarrow> snmp_node \<Rightarrow> (hmgt_status \<times> snmp_port list option \<times> bool list) option" where
  "populate_switch_node_port_records pa down as res n =
     (case take_allocs 1 as of
        (False, as) \<Rightarrow> Some (HMGT_STATUS_INSUFFICIENT_MEMORY, None, as)
      | (True, as) \<Rightarrow> (case take_allocs 2 as of
            (False, as) \<Rightarrow> Some (HMGT_STATUS_INSUFFICIENT_MEMORY, Some [], as)
          | (True, as) \<Rightarrow> do {
              s \<leftarrow> each_result (switch_port_step pa (nd_LID n) down) res
                \<lparr>ss_list = [new_port_record\<lparr>sp_EndPortLID := nd_LID n, sp_PortState := 1\<rparr>], ss_status = HMGT_STATUS_SUCCESS,
                 ss_idMap = [], ss_allocs = as, ss_manAddr = False, ss_numMap = [], ss_gen = pn_gen_init\<rparr>;
              Some (ss_status s, Some (number_ports pa (ss_gen s) (ss_list s)), ss_allocs s) }))"

subsection \<open>Hosts\<close>

text \<open>A port for each interface that is not a software loopback.\<close>

definition host_port_type :: "snmp_result \<Rightarrow> snmp_ports \<Rightarrow> snmp_ports flow option" where
  "host_port_type rp s = do {
     v \<leftarrow> val_integer (sr_val rp);
     if (of_int v :: uint8) = ETH_PORT_TYPE_24 then Some (Next s)
     else do {
       portId \<leftarrow> get_oid_num rp (oid_len ifOperStatus);
       Some (case take_allocs 1 (ss_allocs s) of
           (False, as) \<Rightarrow> Stop (s\<lparr>ss_status := HMGT_STATUS_INSUFFICIENT_MEMORY, ss_allocs := as\<rparr>)
         | (True, as) \<Rightarrow>
             let i = length (ss_list s);
                 p = set_type v (new_port_record\<lparr>sp_PortNum := 1, sp_LocalPortNum := 1, sp_CapabilityMask := 0x39,
                   sp_CapabilityMask3 := 1, sp_LID := of_int portId, sp_PortPhysicalState := 3\<rparr>);
                 s = s\<lparr>ss_list := ss_list s @ [p]\<rparr>
             in (case take_allocs 1 as of
                   (False, as) \<Rightarrow> Stop (s\<lparr>ss_status := HMGT_STATUS_INSUFFICIENT_MEMORY, ss_allocs := as\<rparr>)
                 | (True, as) \<Rightarrow> Next (s\<lparr>ss_idMap := omap_insert (int_key portId) i (ss_idMap s), ss_allocs := as\<rparr>))) } }"

definition host_port_mac :: "snmp_result \<Rightarrow> snmp_ports \<Rightarrow> snmp_ports flow option" where
  "host_port_mac rp s = do {
     portId \<leftarrow> get_oid_num rp (oid_len ifPhysAddress);
     case omap_get (int_key portId) (ss_idMap s) of
       None \<Rightarrow> Some (Next s)
     | Some i \<Rightarrow> do {
         str \<leftarrow> copy_snmp_string rp (sp_LocalPortId (ss_list s ! i)) TINY_STR_ARRAY_SIZE True;
         Some (Next (on_port i (\<lambda>p. p\<lparr>sp_LocalPortId := str, sp_LocalPortIdSubtype := PORTID_SUBTYPE_MAC\<rparr>) s)) } }"

text \<open>For the variables of the MAU the code takes the port record for an item of a list.\<close>

definition host_port_mau :: "SNMPOid \<Rightarrow> snmp_result \<Rightarrow> snmp_ports \<Rightarrow> snmp_ports flow option" where
  "host_port_mau v rp s = do {
     portId \<leftarrow> get_oid_num rp (oid_len v);
     case omap_get (int_key portId) (ss_idMap s) of
       None \<Rightarrow> Some (Next s)
     | Some i \<Rightarrow> None }"

definition host_port_address :: "snmp_result \<Rightarrow> snmp_ports \<Rightarrow> snmp_ports flow option" where
  "host_port_address rp s = do {
     v \<leftarrow> val_integer (sr_val rp);
     case omap_get (int_key (c_int v)) (ss_idMap s) of
       None \<Rightarrow> Some (Next s)
     | Some i \<Rightarrow> do {
         lid \<leftarrow> get_lid_from_oid rp (oid_len ipAdEntIfIndex);
         a \<leftarrow> get_oid_num rp (oid_len ipAdEntIfIndex);
         b \<leftarrow> get_oid_num rp (oid_len ipAdEntIfIndex + 1);
         c \<leftarrow> get_oid_num rp (oid_len ipAdEntIfIndex + 2);
         d \<leftarrow> get_oid_num rp (oid_len ipAdEntIfIndex + 3);
         Some (Next (on_port i (\<lambda>p. p\<lparr>sp_EndPortLID := lid, sp_IPAddrIPV4 := map of_int [a, b, c, d]\<rparr>) s)) } }"

definition host_port_step :: "snmp_result \<Rightarrow> snmp_ports \<Rightarrow> snmp_ports flow option" where
  "host_port_step rp s =
     (if is_oid rp ifType then host_port_type rp s
      else if is_oid rp ifMTU then on_interface ifMTU val_integer set_mtu rp s
      else if is_oid rp ifSpeed then on_interface ifSpeed val_integer set_ifSpeed rp s
      else if is_oid rp ifPhysAddress then host_port_mac rp s
      else if is_oid rp ifOperStatus then on_interface ifOperStatus val_integer set_state rp s
      else if is_oid rp ifMauStatus then host_port_mau ifMauStatus rp s
      else if is_oid rp ifMauMediaAvailable then host_port_mau ifMauMediaAvailable rp s
      else if is_oid rp ifMauTypeListBits then
        (if (case sr_val rp of Octets str \<Rightarrow> is_all_zeros str | _ \<Rightarrow> False) then Some (Next s) else host_port_mau ifMauTypeListBits rp s)
      else if is_oid rp ifMauAutoNegAdminStatus then host_port_mau ifMauAutoNegAdminStatus rp s
      else if is_oid rp ifHighSpeed then on_interface ifHighSpeed val_integer set_ifHighSpeed rp s
      else if is_oid rp ipAdEntIfIndex then host_port_address rp s
      else Some (Next s))"

text \<open>The nodes by their interface indices: each gets a list with the first port of that index.\<close>

definition find_port :: "uint32 \<Rightarrow> snmp_port list \<Rightarrow> nat omap \<Rightarrow> snmp_port option" where
  "find_port lid ps m = map_option (\<lambda>(k, i). ps ! i) (find (\<lambda>(k, i). sp_LID (ps ! i) = lid) m)"

fun attach_ports ::
  "snmp_port list \<Rightarrow> nat omap \<Rightarrow> uint32 list \<Rightarrow> hmgt_status \<times> bool list \<Rightarrow> hmgt_status \<times> snmp_port list option list \<times> bool list" where
  "attach_ports ps m [] (status, as) = (status, [], as)"
| "attach_ports ps m (k # ks) (status, as) =
     (case take_allocs 1 as of
        (False, as) \<Rightarrow> (HMGT_STATUS_INSUFFICIENT_MEMORY, None # map (\<lambda>_. None) ks, as)
      | (True, as) \<Rightarrow>
          let (status, found, as) =
                (case find_port k ps m of
                   None \<Rightarrow> (status, [], as)
                 | Some p \<Rightarrow> (case take_allocs 1 as of
                       (False, as) \<Rightarrow> (HMGT_STATUS_INSUFFICIENT_MEMORY, [], as)
                     | (True, as) \<Rightarrow> (status, [p], as)));
              (status, rss, as) = attach_ports ps m ks (status, as)
          in (status, Some found # rss, as))"

definition populate_host_node_port_records ::
  "bool list \<Rightarrow> snmp_result list \<Rightarrow> uint32 list \<Rightarrow> (hmgt_status \<times> snmp_port list option list \<times> bool list) option" where
  "populate_host_node_port_records as res ifIndices = do {
     s \<leftarrow> each_result host_port_step res \<lparr>ss_list = [], ss_status = HMGT_STATUS_SUCCESS, ss_idMap = [], ss_allocs = as\<rparr>;
     Some (attach_ports (ss_list s) (ss_idMap s) ifIndices (ss_status s, ss_allocs s)) }"

subsection \<open>Both\<close>

definition raw_node_of :: "uint32 \<Rightarrow> snmp_node \<Rightarrow> snmp_port list option \<Rightarrow> raw_node option" where
  "raw_node_of k n rss = do {
     rs \<leftarrow> (case rss of None \<Rightarrow> Some None | Some ps \<Rightarrow> map_option Some (those (map record_of ps)));
     Some \<lparr>rn_node = node_record.truncate n, rn_LID = nd_LID n, rn_ifIndex = k, rn_nodeData = None, rn_ports = rs,
       rn_portIdMap = []\<rparr> }"

text \<open>
  What \<^verbatim>\<open>process_dev_data\<close> has when it starts to fill the fabric, from the results of a device: for a status
  other than success, and without results or with an unknown type, it gives up.
\<close>

definition populate_records ::
  "png_allocs \<Rightarrow> bool \<Rightarrow> uint8 \<Rightarrow> string list \<Rightarrow> bool list \<Rightarrow> snmp_result list \<Rightarrow> (hmgt_status \<times> raw_node list) option" where
  "populate_records pa down type interfaces as res =
     (if res = [] \<or> type \<noteq> NODE_SW \<and> type \<noteq> NODE_FI then Some (HMGT_STATUS_INVALID_PARAMETER, [])
      else case take_allocs 1 as of
          (False, as) \<Rightarrow> Some (HMGT_STATUS_INSUFFICIENT_MEMORY, [])
        | (True, as) \<Rightarrow>
            if type = NODE_SW then do {
              (status, nodes, as) \<leftarrow> populate_switch_node_record as res;
              if status \<noteq> HMGT_STATUS_SUCCESS then Some (status, [])
              else do {
                (status, rss, as) \<leftarrow> populate_switch_node_port_records pa down as res (hd nodes);
                if status \<noteq> HMGT_STATUS_SUCCESS then Some (status, [])
                else do {
                  raw \<leftarrow> raw_node_of 0 (hd nodes) rss;
                  Some (status, [raw]) } } }
            else do {
              (status, nodes, as) \<leftarrow> populate_host_node_record interfaces as res;
              if status \<noteq> HMGT_STATUS_SUCCESS then Some (status, [])
              else do {
                (status, rss, as) \<leftarrow> populate_host_node_port_records as res (map fst nodes);
                if status \<noteq> HMGT_STATUS_SUCCESS then Some (status, [])
                else do {
                  raws \<leftarrow> those (map (\<lambda>((k, n), ps). raw_node_of k n ps) (zip nodes rss));
                  Some (status, raws) } } })"

section \<open>Counters\<close>

text \<open>
  The counters of the ports from the results of a device, \<^verbatim>\<open>populate_port_counters\<close> of
  \<^verbatim>\<open>Topology/hpnmgt_snmp.c\<close>.

  The counters live in the blocks that \<^verbatim>\<open>NodeDataAddPort\<close> has allocated; \<open>m\<close> is the map from interface
  indices to ports and \<open>blk\<close> gives the block of a port, 0 for none.
\<close>

text \<open>The counters that are written; their names are those of the fields.\<close>

record port_counters =
  pc_portXmitData :: uint64
  pc_portRcvData :: uint64
  pc_portXmitPkts :: uint64
  pc_portRcvPkts :: uint64
  pc_portMulticastXmitPkts :: uint64
  pc_portMulticastRcvPkts :: uint64
  pc_localLinkIntegrityErrors :: uint64
  pc_portRcvErrors :: uint64
  pc_excessiveBufferOverruns :: uint64
  pc_portXmitDiscards :: uint64
  pc_portRcvBECN :: uint64
  pc_ifOutErrors :: uint32
  pc_ifInErrors :: uint32
  pc_ifInUnknownProtos :: uint32
  pc_dot3HCStatsInternalMacTransmitErrors :: uint64
  pc_dot3HCStatsAlignmentErrors :: uint64
  pc_dot3HCStatsFCSErrors :: uint64
  pc_dot3StatsCarrierSenseErrors :: uint32
  pc_dot3StatsSingleCollisionFrames :: uint32
  pc_dot3StatsMultipleCollisionFrames :: uint32
  pc_dot3StatsSQETestErrors :: uint32
  pc_dot3StatsDeferredTransmissions :: uint32
  pc_dot3StatsLateCollisions :: uint32
  pc_dot3StatsExcessiveCollisions :: uint32

fun val_counter64 :: "snmp_val \<Rightarrow> uint64 option" where
  "val_counter64 (Counter64 high low) = Some (push_bit 32 (ucast high) OR ucast low)"
| "val_counter64 _ = None"

definition get_port_counters :: "port omap \<Rightarrow> (port \<Rightarrow> nat) \<Rightarrow> snmp_result \<Rightarrow> SNMPOid \<Rightarrow> nat option option" where
  "get_port_counters m blk rp v = map_option (\<lambda>k. case omap_get (int_key k) m of
       None \<Rightarrow> None
     | Some p \<Rightarrow> if blk p = 0 then None else Some (blk p)) (get_oid_num rp (oid_len v))"

definition put_counter ::
  "SNMPOid \<Rightarrow> (snmp_val \<Rightarrow> 'v option) \<Rightarrow> ('v \<Rightarrow> port_counters \<Rightarrow> port_counters) \<Rightarrow> port omap \<Rightarrow> (port \<Rightarrow> nat) \<Rightarrow>
   snmp_result \<Rightarrow> (nat \<Rightarrow> port_counters) \<Rightarrow> (nat \<Rightarrow> port_counters) flow option" where
  "put_counter v get put m blk rp cs = do {
     b \<leftarrow> get_port_counters m blk rp v;
     case b of
       None \<Rightarrow> Some (Next cs)
     | Some b \<Rightarrow> map_option (\<lambda>x. Next (cs(b := put x (cs b)))) (get (sr_val rp)) }"

definition port_counters_step ::
  "port omap \<Rightarrow> (port \<Rightarrow> nat) \<Rightarrow> snmp_result \<Rightarrow> (nat \<Rightarrow> port_counters) \<Rightarrow> (nat \<Rightarrow> port_counters) flow option" where
  "port_counters_step m blk rp cs =
     (if is_oid rp ifInDiscards then put_counter ifInDiscards val_integer (\<lambda>x c. c\<lparr>pc_portRcvBECN := of_int x\<rparr>) m blk rp cs
      else if is_oid rp ifInErrors then put_counter ifInErrors val_integer (\<lambda>x c. c\<lparr>pc_ifInErrors := of_int x\<rparr>) m blk rp cs
      else if is_oid rp ifInUnknownProtos then put_counter ifInUnknownProtos val_integer (\<lambda>x c. c\<lparr>pc_ifInUnknownProtos := of_int x\<rparr>) m blk rp cs
      else if is_oid rp ifOutDiscards then put_counter ifOutDiscards val_integer (\<lambda>x c. c\<lparr>pc_portXmitDiscards := of_int x\<rparr>) m blk rp cs
      else if is_oid rp ifOutErrors then put_counter ifOutErrors val_integer (\<lambda>x c. c\<lparr>pc_ifOutErrors := of_int x\<rparr>) m blk rp cs
      else if is_oid rp dot3StatsSingleCollisionFrames then put_counter dot3StatsSingleCollisionFrames val_integer (\<lambda>x c. c\<lparr>pc_dot3StatsSingleCollisionFrames := of_int x\<rparr>) m blk rp cs
      else if is_oid rp dot3StatsMultipleCollisionFrames then put_counter dot3StatsMultipleCollisionFrames val_integer (\<lambda>x c. c\<lparr>pc_dot3StatsMultipleCollisionFrames := of_int x\<rparr>) m blk rp cs
      else if is_oid rp dot3StatsSQETestErrors then put_counter dot3StatsSQETestErrors val_integer (\<lambda>x c. c\<lparr>pc_dot3StatsSQETestErrors := of_int x\<rparr>) m blk rp cs
      else if is_oid rp dot3StatsDeferredTransmissions then put_counter dot3StatsDeferredTransmissions val_integer (\<lambda>x c. c\<lparr>pc_dot3StatsDeferredTransmissions := of_int x\<rparr>) m blk rp cs
      else if is_oid rp dot3StatsLateCollisions then put_counter dot3StatsLateCollisions val_integer (\<lambda>x c. c\<lparr>pc_dot3StatsLateCollisions := of_int x\<rparr>) m blk rp cs
      else if is_oid rp dot3StatsExcessiveCollisions then put_counter dot3StatsExcessiveCollisions val_integer (\<lambda>x c. c\<lparr>pc_dot3StatsExcessiveCollisions := of_int x\<rparr>) m blk rp cs
      else if is_oid rp dot3StatsCarrierSenseErrors then put_counter dot3StatsCarrierSenseErrors val_integer (\<lambda>x c. c\<lparr>pc_dot3StatsCarrierSenseErrors := of_int x\<rparr>) m blk rp cs
      else if is_oid rp dot3HCStatsAlignmentErrors then put_counter dot3HCStatsAlignmentErrors val_counter64 (\<lambda>x c. c\<lparr>pc_dot3HCStatsAlignmentErrors := x\<rparr>) m blk rp cs
      else if is_oid rp dot3HCStatsFCSErrors then put_counter dot3HCStatsFCSErrors val_counter64 (\<lambda>x c. c\<lparr>pc_dot3HCStatsFCSErrors := x\<rparr>) m blk rp cs
      else if is_oid rp dot3HCStatsInternalMacTransmitErrors then put_counter dot3HCStatsInternalMacTransmitErrors val_counter64 (\<lambda>x c. c\<lparr>pc_dot3HCStatsInternalMacTransmitErrors := x\<rparr>) m blk rp cs
      else if is_oid rp dot3HCStatsFrameTooLongs then put_counter dot3HCStatsFrameTooLongs val_counter64 (\<lambda>x c. c\<lparr>pc_excessiveBufferOverruns := x\<rparr>) m blk rp cs
      else if is_oid rp dot3HCStatsInternalMacReceiveErrors then put_counter dot3HCStatsInternalMacReceiveErrors val_counter64 (\<lambda>x c. c\<lparr>pc_portRcvErrors := x\<rparr>) m blk rp cs
      else if is_oid rp dot3HCStatsSymbolErrors then put_counter dot3HCStatsSymbolErrors val_counter64 (\<lambda>x c. c\<lparr>pc_localLinkIntegrityErrors := x\<rparr>) m blk rp cs
      else if is_oid rp ifHCInOctets then put_counter ifHCInOctets val_counter64 (\<lambda>x c. c\<lparr>pc_portRcvData := x\<rparr>) m blk rp cs
      else if is_oid rp ifHCInUcastPkts then put_counter ifHCInUcastPkts val_counter64 (\<lambda>x c. c\<lparr>pc_portRcvPkts := x\<rparr>) m blk rp cs
      else if is_oid rp ifHCInMulticastPkts then put_counter ifHCInMulticastPkts val_counter64 (\<lambda>x c. c\<lparr>pc_portMulticastRcvPkts := x\<rparr>) m blk rp cs
      else if is_oid rp ifHCOutOctets then put_counter ifHCOutOctets val_counter64 (\<lambda>x c. c\<lparr>pc_portXmitData := x\<rparr>) m blk rp cs
      else if is_oid rp ifHCOutUcastPkts then put_counter ifHCOutUcastPkts val_counter64 (\<lambda>x c. c\<lparr>pc_portXmitPkts := x\<rparr>) m blk rp cs
      else if is_oid rp ifHCOutMulticastPkts then put_counter ifHCOutMulticastPkts val_counter64 (\<lambda>x c. c\<lparr>pc_portMulticastXmitPkts := x\<rparr>) m blk rp cs
      else Some (Next cs))"

definition populate_port_counters ::
  "snmp_result list \<Rightarrow> port omap \<Rightarrow> (port \<Rightarrow> nat) \<Rightarrow> (nat \<Rightarrow> port_counters) \<Rightarrow> (hmgt_status \<times> (nat \<Rightarrow> port_counters)) option" where
  "populate_port_counters res m blk cs = map_option (Pair HMGT_STATUS_SUCCESS) (each_result (port_counters_step m blk) res cs)"

end
