(* ===== verification/SnmpQuery.thy ===== *)
theory SnmpQuery
  imports SnmpPorts
begin

text \<open>
  How the results of a device are collected, \<^verbatim>\<open>prepare_snmp_query\<close>, \<^verbatim>\<open>add_snmp_result\<close> and
  \<^verbatim>\<open>asynch_mixed_response\<close> of \<^verbatim>\<open>Topology/hpnmgt_snmp.c\<close>, with the lists of variables of
  \<^verbatim>\<open>hmgt_snmp_get_fabric_data\<close>.

  The exchange itself is net-snmp: a query has an answer, which is a parameter.  Memory for the results
  is available.  The current variable is the head of a list, whose end is the entry without a name; what
  has been collected is a list in the order of the chain.
\<close>

datatype snmp_query = GET oid | GETBULK oid nat

datatype var_value = Value snmp_val | NOSUCHOBJECT | NOSUCHINSTANCE | ENDOFMIBVIEW

type_synonym variable = "oid \<times> var_value"

text \<open>A PDU without an error, one with an error, or none in time.\<close>

datatype answer = Response "variable list" | ErrorStatus | Timeout

datatype QueryState = Q_NONE | Q_NEXT | Q_END_NEXT | Q_WARN

record snmp_context =
  current_oid :: "SNMPOid list"
  results :: "snmp_result list"
  cx_ifNumber :: uint16

abbreviation SNMP_BULK_SIZE :: nat where "SNMP_BULK_SIZE \<equiv> 10"

definition bulk_size :: "snmp_context \<Rightarrow> nat" where
  "bulk_size c = (if cx_ifNumber c \<noteq> 0 then unat (cx_ifNumber c) + 1 else SNMP_BULK_SIZE)"

definition prepare_snmp_query :: "snmp_context \<Rightarrow> snmp_query option" where
  "prepare_snmp_query c =
     (case current_oid c of
        [] \<Rightarrow> None
      | cur # _ \<Rightarrow>
          if so_type cur = SNMP_MSG_GET then Some (GET (so_oid cur))
          else Some (GETBULK (so_oid cur) (if match_oid (so_oid entPhysical) (so_oid cur) then 5 else bulk_size c)))"

text \<open>A longer OID does not fit into a result.\<close>

definition add_snmp_result :: "oid \<Rightarrow> snmp_val \<Rightarrow> snmp_context \<Rightarrow> snmp_context option" where
  "add_snmp_result name v c =
     (if length name \<le> FF_MAX_OID_LEN then Some (c\<lparr>results := results c @ [\<lparr>sr_oid = name, sr_val = v\<rparr>]\<rparr>) else None)"

definition note_ifNumber :: "oid \<Rightarrow> snmp_val \<Rightarrow> snmp_context \<Rightarrow> snmp_context option" where
  "note_ifNumber name v c =
     (if cx_ifNumber c = 0 \<and> match_oid (so_oid ifNumber) name
      then map_option (\<lambda>i. c\<lparr>cx_ifNumber := of_int i\<rparr>) (val_integer v) else Some c)"

definition store_variable :: "oid \<Rightarrow> snmp_val \<Rightarrow> snmp_context \<Rightarrow> snmp_context option" where
  "store_variable name v c = do {
     c \<leftarrow> note_ifNumber name v c;
     add_snmp_result name v c }"

lemma store_variable_oids [simp]: "store_variable name v c = Some c' \<Longrightarrow> current_oid c' = current_oid c"
  by (auto simp: store_variable_def note_ifNumber_def add_snmp_result_def split: if_splits bind_splits)

text \<open>A variable that does not belong to the current OID may belong to the next one.\<close>

function read_variables :: "variable list \<Rightarrow> snmp_context \<Rightarrow> QueryState \<Rightarrow> (snmp_context \<times> QueryState) option" where
  "read_variables [] c st = Some (c, st)"
| "read_variables ((name, x) # vars) c st =
     (case current_oid c of
        [] \<Rightarrow> None
      | cur # rest \<Rightarrow>
          if \<not> match_oid (so_oid cur) name then
            (case rest of
               [] \<Rightarrow> Some (c, Q_END_NEXT)
             | nxt # _ \<Rightarrow>
                 if match_oid (so_oid nxt) name then read_variables ((name, x) # vars) (c\<lparr>current_oid := rest\<rparr>) Q_NEXT
                 else Some (c, Q_END_NEXT))
          else (case x of
              Value v \<Rightarrow> (case store_variable name v c of
                  None \<Rightarrow> None
                | Some c \<Rightarrow> read_variables vars c (if so_type cur = SNMP_MSG_GET then Q_END_NEXT else Q_NEXT))
            | _ \<Rightarrow> Some (c, Q_WARN)))"
  by pat_completeness auto
termination
  by (relation "measure (\<lambda>(vars, c, st). length vars + length (current_oid c))") auto

datatype outcome = Ask snmp_context snmp_query | Collected "snmp_result list" | Abandoned

text \<open>Sending the next query may fail.\<close>

definition send_query :: "(snmp_query \<Rightarrow> bool) \<Rightarrow> snmp_context \<Rightarrow> snmp_query option \<Rightarrow> outcome" where
  "send_query send c req =
     (case req of
        None \<Rightarrow> Collected (results c)
      | Some q \<Rightarrow> if send q then Ask c q else Abandoned)"

definition asynch_mixed_response :: "(snmp_query \<Rightarrow> bool) \<Rightarrow> snmp_context \<Rightarrow> answer \<Rightarrow> outcome option" where
  "asynch_mixed_response send c ans =
     (case ans of
        Response vars \<Rightarrow> do {
          (c, state) \<leftarrow> read_variables vars c Q_NONE;
          if state = Q_NEXT \<and> \<not> match_oid (so_oid entPhysical) (fst (last vars))
          then Some (send_query send c (Some (GETBULK (fst (last vars)) (bulk_size c))))
          else
            let c = c\<lparr>current_oid := tl (current_oid c)\<rparr>
            in Some (send_query send c (prepare_snmp_query c)) }
      | _ \<Rightarrow> Some Abandoned)"

text \<open>An exchange with a device, with as many rounds as the fuel allows.\<close>

fun exchange ::
  "nat \<Rightarrow> (snmp_query \<Rightarrow> bool) \<Rightarrow> (snmp_query \<Rightarrow> answer) \<Rightarrow> outcome \<Rightarrow> outcome option" where
  "exchange 0 send agent (Ask c q) = None"
| "exchange (Suc n) send agent (Ask c q) = do {
     out \<leftarrow> asynch_mixed_response send c (agent q);
     exchange n send agent out }"
| "exchange n send agent out = Some out"

text \<open>The start in \<^verbatim>\<open>collect_data\<close>.\<close>

definition start_query :: "(snmp_query \<Rightarrow> bool) \<Rightarrow> SNMPOid list \<Rightarrow> outcome" where
  "start_query send oids = (let c = \<lparr>current_oid = oids, results = [], cx_ifNumber = 0\<rparr> in
     case prepare_snmp_query c of
       None \<Rightarrow> Abandoned
     | Some q \<Rightarrow> if send q then Ask c q else Abandoned)"

subsection \<open>The variables\<close>

definition lldp_oids :: "SNMPOid list" where
  "lldp_oids = [ifNumber, lldpLocSysCapEnabled, lldpLocSysCapSupported, lldpLocChassisId, lldpLocManAddrIfId,
     lldpRemChassisId, lldpRemPortIdSubtype, lldpRemPortId, lldpRemSysName, lldpRemSysCapEnabled, lldpLocPortIdSubtype,
     lldpLocPortId, sysObjectID, sysName, ifIndex, ifName, ifType, ifMTU, ifSpeed, ifPhysAddress, ifOperStatus]"

definition mau_oids :: "SNMPOid list" where
  "mau_oids = [ifMauStatus, ifMauMediaAvailable, ifMauTypeListBits, ifMauAutoNegAdminStatus]"

definition entity_oids :: "SNMPOid list" where
  "entity_oids = [entPhysicalClass, entPhysicalDescr, entPhysicalHardwareRev, entPhysicalFirmwareRev,
     entPhysicalSerialNum, entPhysicalMfgName, entPhysicalModelName]"

definition if_error_oids :: "SNMPOid list" where
  "if_error_oids = [ifInDiscards, ifInErrors, ifInUnknownProtos, ifOutDiscards, ifOutErrors]"

definition if_hc_oids :: "SNMPOid list" where
  "if_hc_oids = [ifHCInOctets, ifHCInUcastPkts, ifHCInMulticastPkts, ifHCOutOctets, ifHCOutUcastPkts, ifHCOutMulticastPkts]"

definition sw_oids_full :: "SNMPOid list" where
  "sw_oids_full = lldp_oids @ if_error_oids @ [ipAdEntIfIndex, dot3StatsSingleCollisionFrames,
     dot3StatsMultipleCollisionFrames, dot3StatsSQETestErrors, dot3StatsDeferredTransmissions, dot3StatsLateCollisions,
     dot3StatsExcessiveCollisions, dot3StatsCarrierSenseErrors, dot3HCStatsAlignmentErrors, dot3HCStatsFCSErrors,
     dot3HCStatsInternalMacTransmitErrors, dot3HCStatsFrameTooLongs, dot3HCStatsInternalMacReceiveErrors,
     dot3HCStatsSymbolErrors] @ mau_oids @ if_hc_oids @ [ifHighSpeed] @ entity_oids"

definition sw_oids_basic :: "SNMPOid list" where
  "sw_oids_basic = lldp_oids @ [ipAdEntIfIndex] @ mau_oids @ [ifHighSpeed] @ entity_oids"

definition nic_oids :: "SNMPOid list" where
  "nic_oids = [ifNumber, sysObjectID, sysName, ifIndex, ifName, ifType, ifMTU, ifSpeed, ifPhysAddress, ifOperStatus]"

definition nic_oids_full :: "SNMPOid list" where
  "nic_oids_full = nic_oids @ if_error_oids @ [ipAdEntIfIndex, dot3StatsDeferredTransmissions, dot3StatsCarrierSenseErrors] @
     if_hc_oids @ [ifHighSpeed]"

definition nic_oids_basic :: "SNMPOid list" where
  "nic_oids_basic = nic_oids @ [ipAdEntIfIndex, ifHighSpeed]"

text \<open>By the flag \<^verbatim>\<open>FF_STATS\<close> and the type of the device.\<close>

definition device_oids :: "bool \<Rightarrow> uint8 \<Rightarrow> SNMPOid list" where
  "device_oids stats type =
     (if stats then (if type = NODE_FI then nic_oids_full else sw_oids_full)
      else if type = NODE_FI then nic_oids_basic else sw_oids_basic)"

end
