(* ===== verification/SnmpQuery_Props.thy ===== *)
theory SnmpQuery_Props
  imports SnmpQuery "HOL-Library.List_Lexorder"
begin

text \<open>
  An exchange with a device that answers as the protocol says ends, and what it collects are the rows of
  the device under each variable, in the order of the variables.

  The device is given by its MIB, the list of its variables with their values in the order of their
  OIDs.
\<close>

type_synonym mib = "(oid \<times> snmp_val) list"

definition subtree :: "mib \<Rightarrow> SNMPOid \<Rightarrow> mib" where
  "subtree mib x = filter (\<lambda>r. match_oid (so_oid x) (fst r)) mib"

definition behind :: "mib \<Rightarrow> oid \<Rightarrow> mib" where
  "behind mib v = filter (\<lambda>r. v < fst r) mib"

definition row_values :: "mib \<Rightarrow> variable list" where
  "row_values rs = map (\<lambda>r. (fst r, Value (snd r))) rs"

text \<open>
  RFC 3416: the variable of a GET or an exception, and for a GETBULK the next variables, as many as fit,
  then an exception with the last name.
\<close>

definition bulk_answer :: "mib \<Rightarrow> oid \<Rightarrow> nat \<Rightarrow> variable list" where
  "bulk_answer mib v n =
     take n (row_values (behind mib v) @ replicate n (last (v # map fst (behind mib v)), ENDOFMIBVIEW))"

definition agent_ok :: "mib \<Rightarrow> (snmp_query \<Rightarrow> answer) \<Rightarrow> bool" where
  "agent_ok mib agent \<longleftrightarrow>
     (\<forall>v. agent (GET v) = Response [(v, case map_of mib v of Some x \<Rightarrow> Value x | None \<Rightarrow> NOSUCHOBJECT)] \<or>
        map_of mib v = None \<and> agent (GET v) = Response [(v, NOSUCHINSTANCE)]) \<and>
     (\<forall>v n. 0 < n \<longrightarrow> (\<exists>k > 0. agent (GETBULK v n) = Response (take k (bulk_answer mib v n))))"

text \<open>
  What a MIB is: sorted, with OIDs that fit into a result.  A variable that is read with GET is an
  instance, with nothing below it, a column is not.
\<close>

definition mib_ok :: "SNMPOid list \<Rightarrow> mib \<Rightarrow> bool" where
  "mib_ok oids mib \<longleftrightarrow> sorted_wrt (<) (map fst mib) \<and>
     (\<forall>r \<in> set mib. length (fst r) \<le> FF_MAX_OID_LEN \<and> (match_oid (so_oid ifNumber) (fst r) \<longrightarrow> val_integer (snd r) \<noteq> None)) \<and>
     (\<forall>x \<in> set oids. \<forall>r \<in> set mib. match_oid (so_oid x) (fst r) \<longrightarrow> (so_type x = SNMP_MSG_GET \<longleftrightarrow> fst r = so_oid x))"

text \<open>No variable is below another, and none is above the entity MIB.\<close>

definition oids_ok :: "SNMPOid list \<Rightarrow> bool" where
  "oids_ok oids \<longleftrightarrow> distinct oids \<and>
     (\<forall>x \<in> set oids. \<not> match_oid (so_oid x) (so_oid entPhysical) \<and> (\<forall>y \<in> set oids. x \<noteq> y \<longrightarrow> \<not> match_oid (so_oid x) (so_oid y)))"

subsection \<open>OIDs\<close>

lemma match_oid_iff: "match_oid a b \<longleftrightarrow> (\<exists>t. b = a @ t)"
  unfolding match_oid_def by (metis append_eq_conv_conj append_take_drop_id le_iff_add length_append)

lemma match_refl [simp]: "match_oid a a"
  by (simp add: match_oid_iff)

lemma match_le: "match_oid a b \<Longrightarrow> a \<le> (b :: oid)"
  unfolding match_oid_iff by (induction a arbitrary: b) auto

lemma match_between: "a \<le> r \<Longrightarrow> r \<le> s \<Longrightarrow> match_oid a s \<Longrightarrow> match_oid a (r :: oid)"
proof (induction a arbitrary: r s)
  case Nil
  then show ?case by (simp add: match_oid_iff)
next
  case (Cons x a)
  then obtain s' where s: "s = x # s'" "match_oid a s'" by (auto simp: match_oid_iff)
  with Cons.prems obtain r' where "r = x # r'" "a \<le> r'" "r' \<le> s'" by (cases r) auto
  with Cons.IH s(2) show ?case by (auto simp: match_oid_iff)
qed

lemma match_comparable: "match_oid a s \<Longrightarrow> match_oid b s \<Longrightarrow> match_oid a b \<or> match_oid b a"
  unfolding match_oid_iff by (metis append_eq_append_conv2)

subsection \<open>Rows\<close>

definition rows_to :: "mib \<Rightarrow> SNMPOid \<Rightarrow> oid \<Rightarrow> mib" where
  "rows_to mib x v = filter (\<lambda>r. match_oid (so_oid x) (fst r) \<and> fst r \<le> v) mib"

abbreviation sorted_mib :: "mib \<Rightarrow> bool" where
  "sorted_mib mib \<equiv> sorted_wrt (<) (map fst mib)"

lemma behind_split: "sorted_mib mib \<Longrightarrow> mib = filter (\<lambda>r. fst r \<le> v) mib @ behind mib v"
proof (induction mib)
  case (Cons r mib)
  show ?case
  proof (cases "fst r \<le> v")
    case True
    then show ?thesis using Cons by (simp add: behind_def)
  next
    case False
    then have "\<forall>s \<in> set mib. v < fst s" using Cons.prems by force
    then have "filter (\<lambda>r. fst r \<le> v) mib = []" "filter (\<lambda>r. v < fst r) mib = mib" by (auto simp: filter_empty_conv filter_id_conv)
    then show ?thesis using False by (simp add: behind_def)
  qed
qed (simp add: behind_def)

text \<open>One more row behind \<open>v\<close>.\<close>

lemma behind_next:
  assumes s: "sorted_mib mib" and b: "behind mib v = r # rs"
  shows "behind mib (fst r) = rs" "filter (\<lambda>r. fst r \<le> v) mib @ [r] = filter (\<lambda>s. fst s \<le> fst r) mib"
    "v < fst r" "r \<in> set mib"
proof -
  have m: "mib = filter (\<lambda>r. fst r \<le> v) mib @ r # rs" using behind_split [OF s, of v] b by simp
  have v: "r \<in> set (behind mib v)" using b by simp
  then show r: "v < fst r" "r \<in> set mib" by (auto simp: behind_def)
  have "sorted_mib (filter (\<lambda>r. fst r \<le> v) mib @ r # rs)" using s m by simp
  then have rs: "\<forall>s \<in> set rs. fst r < fst s" by (auto simp: sorted_wrt_append)
  have "filter (\<lambda>s. fst r < fst s) mib = rs"
    by (subst m) (use rs r in \<open>auto simp: filter_empty_conv filter_id_conv\<close>)
  then show "behind mib (fst r) = rs" by (simp add: behind_def)
  have e: "filter (\<lambda>s. fst s \<le> fst r) rs = []" using rs by (auto simp: filter_empty_conv)
  have "filter (\<lambda>s. fst s \<le> fst r) (filter (\<lambda>r. fst r \<le> v) mib) = filter (\<lambda>r. fst r \<le> v) mib"
    using r by (auto intro!: filter_cong)
  then show "filter (\<lambda>r. fst r \<le> v) mib @ [r] = filter (\<lambda>s. fst s \<le> fst r) mib"
    by (subst (2) m) (use e in simp)
qed

lemma rows_to_filter: "rows_to mib x v = filter (\<lambda>r. match_oid (so_oid x) (fst r)) (filter (\<lambda>r. fst r \<le> v) mib)"
  by (simp add: rows_to_def conj_commute)

lemma rows_to_next:
  assumes "sorted_mib mib" "behind mib v = r # rs"
  shows "rows_to mib x (fst r) = rows_to mib x v @ (if match_oid (so_oid x) (fst r) then [r] else [])"
  unfolding rows_to_filter behind_next(2) [OF assms, symmetric] by simp

text \<open>Where the rows of a variable end.\<close>

lemma rows_end:
  assumes s: "sorted_mib mib" and v: "so_oid x \<le> v"
    and b: "behind mib v = [] \<or> \<not> match_oid (so_oid x) (fst (hd (behind mib v)))"
  shows "rows_to mib x v = subtree mib x" "filter (\<lambda>r. match_oid (so_oid x) (fst r)) (behind mib v) = []"
proof -
  show e: "filter (\<lambda>r. match_oid (so_oid x) (fst r)) (behind mib v) = []"
  proof (cases "behind mib v")
    case (Cons r rs)
    have "sorted_mib (behind mib v)" using s by (simp add: behind_def sorted_wrt_map sorted_wrt_filter)
    then have le: "\<forall>t \<in> set (behind mib v). fst r \<le> fst t" by (auto simp: Cons)
    have "so_oid x \<le> fst r" using behind_next(3) [OF s Cons] v by simp
    then show ?thesis using match_between [of "so_oid x" "fst r"] le b by (auto simp: Cons filter_empty_conv)
  qed simp
  show "rows_to mib x v = subtree mib x"
    unfolding rows_to_filter subtree_def by (subst (2) behind_split [OF s, of v]) (simp add: e)
qed

text \<open>Where the rows of the next variable begin.\<close>

lemma rows_begin:
  assumes s: "sorted_mib mib" and v: "match_oid (so_oid x) v" and xy: "\<not> match_oid (so_oid x) (so_oid y)" "\<not> match_oid (so_oid y) (so_oid x)"
    and b: "behind mib v = r # rs" "match_oid (so_oid y) (fst r)"
  shows "rows_to mib y v = []"
proof -
  have False if t: "t \<in> set mib" "match_oid (so_oid y) (fst t)" "fst t \<le> v" for t
  proof -
    have "so_oid y \<le> v" using match_le [OF t(2)] t(3) by simp
    then have "match_oid (so_oid y) v" using match_between [OF _ _ b(2)] behind_next(3) [OF s b(1)] by simp
    then show False using match_comparable [OF v] xy by blast
  qed
  then show ?thesis by (auto simp: rows_to_def filter_empty_conv)
qed

section \<open>Exchanges\<close>

text \<open>The invariant of an exchange, and that it ends.\<close>

definition result_of :: "oid \<times> snmp_val \<Rightarrow> snmp_result" where
  "result_of r = \<lparr>sr_oid = fst r, sr_val = snd r\<rparr>"

text \<open>What is collected for a variable: of the entity MIB some first rows.\<close>

definition block_ok :: "mib \<Rightarrow> SNMPOid \<Rightarrow> mib \<Rightarrow> bool" where
  "block_ok mib x b \<longleftrightarrow> b = subtree mib x \<or> match_oid (so_oid entPhysical) (so_oid x) \<and> (\<exists>t. subtree mib x = b @ t)"

definition blocks_ok :: "mib \<Rightarrow> SNMPOid list \<Rightarrow> mib \<Rightarrow> bool" where
  "blocks_ok mib xs rs \<longleftrightarrow> (\<exists>bs. rs = concat bs \<and> list_all2 (block_ok mib) xs bs)"

lemma blocks_ok_Nil [simp]: "blocks_ok mib [] []"
  by (simp add: blocks_ok_def)

lemma blocks_ok_snoc: "blocks_ok mib xs rs \<Longrightarrow> block_ok mib x b \<Longrightarrow> blocks_ok mib (xs @ [x]) (rs @ b)"
  unfolding blocks_ok_def by (elim exE) (rule_tac x = "bs @ [b]" in exI, simp add: list_all2_appendI)

definition reading :: "mib \<Rightarrow> SNMPOid list \<Rightarrow> snmp_context \<Rightarrow> SNMPOid \<Rightarrow> SNMPOid list \<Rightarrow> oid \<Rightarrow> bool" where
  "reading mib oids c x xs v \<longleftrightarrow> current_oid c = x # xs \<and> match_oid (so_oid x) v \<and>
     (\<exists>ys a. oids = ys @ x # xs \<and> blocks_ok mib ys a \<and> results c = map result_of (a @ rows_to mib x v))"

definition finished :: "mib \<Rightarrow> SNMPOid list \<Rightarrow> snmp_context \<Rightarrow> SNMPOid \<Rightarrow> SNMPOid list \<Rightarrow> bool" where
  "finished mib oids c x xs \<longleftrightarrow> current_oid c = x # xs \<and>
     (\<exists>ys a. oids = ys @ x # xs \<and> blocks_ok mib (ys @ [x]) a \<and> results c = map result_of a)"

lemma reading_finished:
  assumes "reading mib oids c x xs v" and "block_ok mib x (rows_to mib x v)"
  shows "finished mib oids c x xs"
  using assms blocks_ok_snoc unfolding reading_def finished_def by blast

text \<open>A bound for the rounds that are left.\<close>

definition cost :: "mib \<Rightarrow> SNMPOid list \<Rightarrow> nat" where
  "cost mib xs = sum_list (map (\<lambda>x. Suc (length (subtree mib x))) xs)"

definition left :: "mib \<Rightarrow> SNMPOid \<Rightarrow> oid \<Rightarrow> nat" where
  "left mib x v = length (filter (\<lambda>r. match_oid (so_oid x) (fst r)) (behind mib v))"

definition pot :: "mib \<Rightarrow> oid \<Rightarrow> SNMPOid \<Rightarrow> SNMPOid list \<Rightarrow> nat" where
  "pot mib v x xs = Suc (left mib x v) + cost mib xs"

lemma cost_Cons [simp]: "cost mib (x # xs) = Suc (length (subtree mib x)) + cost mib xs"
  by (simp add: cost_def)

lemma left_subtree: "left mib x v \<le> length (subtree mib x)"
  unfolding left_def subtree_def behind_def by (induction mib) auto

lemma left_next:
  assumes "sorted_mib mib" "behind mib v = r # rs"
  shows "left mib x v = (if match_oid (so_oid x) (fst r) then 1 else 0) + left mib x (fst r)"
  unfolding left_def behind_next(1) [OF assms] assms(2) by simp

lemma store_row:
  assumes "mib_ok oids mib" "r \<in> set mib"
  obtains c' where "store_variable (fst r) (snd r) c = Some c'" "results c' = results c @ [result_of r]"
    "current_oid c' = current_oid c"
proof -
  have r: "length (fst r) \<le> FF_MAX_OID_LEN" "match_oid (so_oid ifNumber) (fst r) \<longrightarrow> val_integer (snd r) \<noteq> None"
    using assms by (simp_all add: mib_ok_def)
  then obtain c1 where "note_ifNumber (fst r) (snd r) c = Some c1" "results c1 = results c" "current_oid c1 = current_oid c"
    by (cases "cx_ifNumber c = 0 \<and> match_oid (so_oid ifNumber) (fst r)") (auto simp: note_ifNumber_def)
  then show thesis using that r(1) by (simp add: store_variable_def add_snmp_result_def result_of_def)
qed

text \<open>Storing the next row of a variable.\<close>

lemma reading_store:
  assumes ok: "mib_ok oids mib" and r: "reading mib oids c x xs v" and b: "behind mib v = r # rs"
    and m: "match_oid (so_oid x) (fst r)"
  obtains c' where "store_variable (fst r) (snd r) c = Some c'" "reading mib oids c' x xs (fst r)"
proof -
  have s: "sorted_mib mib" using ok by (simp add: mib_ok_def)
  from store_row [OF ok behind_next(4) [OF s b], of c] obtain c' where
    c: "store_variable (fst r) (snd r) c = Some c'" "results c' = results c @ [result_of r]" "current_oid c' = current_oid c" .
  have "reading mib oids c' x xs (fst r)"
    using r m unfolding reading_def c(2,3) rows_to_next [OF s b] by auto
  then show thesis using that c(1) by blast
qed

lemma reading_all:
  assumes "mib_ok oids mib" "reading mib oids c x xs v"
    and "behind mib v = [] \<or> \<not> match_oid (so_oid x) (fst (hd (behind mib v)))"
  shows "finished mib oids c x xs" "left mib x v = 0"
proof -
  have s: "sorted_mib mib" using assms(1) by (simp add: mib_ok_def)
  have v: "so_oid x \<le> v" using assms(2) match_le by (auto simp: reading_def)
  show "finished mib oids c x xs" by (rule reading_finished [OF assms(2)]) (simp add: block_ok_def rows_end(1) [OF s v assms(3)])
  show "left mib x v = 0" using rows_end(2) [OF s v assms(3)] by (simp add: left_def)
qed

text \<open>The first row of the next variable.\<close>

lemma reading_cross:
  assumes ok: "mib_ok oids mib" "oids_ok oids" and r: "reading mib oids c x (y # ys) v" and b: "behind mib v = r # rs"
    and n: "\<not> match_oid (so_oid x) (fst r)" and m: "match_oid (so_oid y) (fst r)"
  obtains c' where "store_variable (fst r) (snd r) (c\<lparr>current_oid := y # ys\<rparr>) = Some c'" "reading mib oids c' y ys (fst r)"
proof -
  have s: "sorted_mib mib" using ok(1) by (simp add: mib_ok_def)
  have f: "finished mib oids c x (y # ys)" by (rule reading_all(1) [OF ok(1) r]) (simp add: b n)
  from f obtain zs a where z: "oids = zs @ x # y # ys" "blocks_ok mib (zs @ [x]) a" "results c = map result_of a"
    by (auto simp: finished_def)
  have xy: "\<not> match_oid (so_oid x) (so_oid y)" "\<not> match_oid (so_oid y) (so_oid x)"
    using ok(2) z(1) by (auto simp: oids_ok_def)
  have v: "match_oid (so_oid x) v" using r by (simp add: reading_def)
  have e: "rows_to mib y v = []" by (rule rows_begin [OF s v xy b m])
  from store_row [OF ok(1) behind_next(4) [OF s b], of "c\<lparr>current_oid := y # ys\<rparr>"] obtain c' where
    c: "store_variable (fst r) (snd r) (c\<lparr>current_oid := y # ys\<rparr>) = Some c'" "results c' = results c @ [result_of r]"
    "current_oid c' = y # ys" by auto
  have "reading mib oids c' y ys (fst r)"
    unfolding reading_def c(2,3) rows_to_next [OF s b] e
    using z m by (intro conjI exI [of _ "zs @ [x]"] exI [of _ a]) simp_all
  then show thesis using that c(1) by blast
qed

lemma row_values_simps [simp]: "row_values [] = []" "row_values (r # rs) = (fst r, Value (snd r)) # row_values rs"
  by (simp_all add: row_values_def)

abbreviation type_state :: "SNMPOid \<Rightarrow> QueryState" where
  "type_state x \<equiv> (if so_type x = SNMP_MSG_GET then Q_END_NEXT else Q_NEXT)"

definition read_ok :: "mib \<Rightarrow> SNMPOid list \<Rightarrow> variable list \<Rightarrow> oid \<Rightarrow> nat \<Rightarrow> nat \<Rightarrow> snmp_context \<times> QueryState \<Rightarrow> bool" where
  "read_ok mib oids es v d n cs \<longleftrightarrow> (\<exists>x xs.
     if snd cs = Q_NEXT then es = [] \<and> so_type x \<noteq> SNMP_MSG_GET \<and> reading mib oids (fst cs) x xs v \<and> pot mib v x xs + d \<le> n
     else finished mib oids (fst cs) x xs \<and> cost mib xs < n)"

lemma read_ok_finished:
  "finished mib oids c x xs \<Longrightarrow> st \<noteq> Q_NEXT \<Longrightarrow> read_ok mib oids es v d (pot mib w x xs) (c, st)"
  unfolding read_ok_def by (rule exI [of _ x], rule exI [of _ xs]) (simp add: pot_def)

lemma read_ok_later:
  assumes "read_ok mib oids es v d n cs" "n + 1 \<le> n'"
  shows "read_ok mib oids es v 1 n' cs"
proof -
  from assms(1) obtain x xs where
    "if snd cs = Q_NEXT then es = [] \<and> so_type x \<noteq> SNMP_MSG_GET \<and> reading mib oids (fst cs) x xs v \<and> pot mib v x xs + d \<le> n
     else finished mib oids (fst cs) x xs \<and> cost mib xs < n" unfolding read_ok_def by blast
  then show ?thesis using assms(2) unfolding read_ok_def
    by (intro exI [of _ x] exI [of _ xs]) (simp split: if_splits)
qed

text \<open>No row is left of an instance that has been stored.\<close>

lemma instance_end:
  assumes ok: "mib_ok oids mib" and x: "x \<in> set oids" "so_type x = SNMP_MSG_GET" and v: "so_oid x \<le> v"
  shows "behind mib v = [] \<or> \<not> match_oid (so_oid x) (fst (hd (behind mib v)))"
proof (cases "behind mib v")
  case (Cons r rs)
  have s: "sorted_mib mib" using ok by (simp add: mib_ok_def)
  have "r \<in> set mib" "fst r \<noteq> so_oid x" using behind_next(3,4) [OF s Cons] v by auto
  then show ?thesis using ok x by (simp add: Cons mib_ok_def) blast
qed simp

lemma read_rows:
  assumes ok: "mib_ok oids mib" "oids_ok oids"
  shows "reading mib oids c x xs v \<Longrightarrow> behind mib v = rs @ rest \<Longrightarrow>
    es = [] \<or> rest = [] \<and> (\<exists>j. es = replicate (Suc j) (last (v # map fst rs), ENDOFMIBVIEW)) \<Longrightarrow>
    es \<noteq> [] \<or> rs \<noteq> [] \<or> st = type_state x \<Longrightarrow>
    \<exists>cs. read_variables (row_values rs @ es) c st = Some cs \<and>
      read_ok mib oids es (last (v # map fst rs)) (if rs = [] then 0 else 1) (pot mib v x xs) cs"
proof (induction rs arbitrary: c x xs v st)
  case Nil
  have x: "x \<in> set oids" "match_oid (so_oid x) v" "current_oid c = x # xs" using Nil.prems(1) by (auto simp: reading_def)
  show ?case
  proof (cases "es = []")
    case True
    then have st: "st = type_state x" using Nil.prems(4) by simp
    show ?thesis
    proof (cases "so_type x = SNMP_MSG_GET")
      case T: True
      from reading_all(1) [OF ok(1) Nil.prems(1) instance_end [OF ok(1) x(1) T match_le [OF x(2)]]]
      show ?thesis using T st True by (simp add: read_ok_finished)
    next
      case F: False
      then have "read_ok mib oids es v 0 (pot mib v x xs) (c, Q_NEXT)" using Nil.prems(1) True by (auto simp: read_ok_def)
      then show ?thesis using F st True by simp
    qed
  next
    case False
    then obtain j where e: "es = (v, ENDOFMIBVIEW) # replicate j (v, ENDOFMIBVIEW)" and b: "behind mib v = []"
      using Nil.prems(2,3) by auto
    from reading_all(1) [OF ok(1) Nil.prems(1)] b have "finished mib oids c x xs" by simp
    then show ?thesis using x(2,3) by (simp add: e read_ok_finished)
  qed
next
  case (Cons r rs)
  have s: "sorted_mib mib" using ok(1) by (simp add: mib_ok_def)
  have b: "behind mib v = r # (rs @ rest)" using Cons.prems(2) by simp
  have b': "behind mib (fst r) = rs @ rest" by (rule behind_next(1) [OF s b])
  have es: "es = [] \<or> rest = [] \<and> (\<exists>j. es = replicate (Suc j) (last (fst r # map fst rs), ENDOFMIBVIEW))"
    using Cons.prems(3) by simp
  have cur: "current_oid c = x # xs" using Cons.prems(1) by (simp add: reading_def)
  have step: "\<exists>cs. read_variables (row_values rs @ es) c' (type_state y) = Some cs \<and>
      read_ok mib oids es (last (v # map fst (r # rs))) 1 (pot mib v x xs) cs"
    if r: "reading mib oids c' y ys (fst r)" and p: "pot mib (fst r) y ys + 1 \<le> pot mib v x xs" for c' y ys
  proof -
    from Cons.IH [OF r b' es, of "type_state y"] obtain cs where
      cs: "read_variables (row_values rs @ es) c' (type_state y) = Some cs"
      "read_ok mib oids es (last (fst r # map fst rs)) (if rs = [] then 0 else 1) (pot mib (fst r) y ys) cs" by auto
    have "read_ok mib oids es (last (v # map fst (r # rs))) 1 (pot mib v x xs) cs"
      using read_ok_later [OF cs(2) p] by simp
    then show ?thesis using cs(1) by blast
  qed
  show ?case
  proof (cases "match_oid (so_oid x) (fst r)")
    case True
    from reading_store [OF ok(1) Cons.prems(1) b True] obtain c' where
      c: "store_variable (fst r) (snd r) c = Some c'" "reading mib oids c' x xs (fst r)" .
    have "pot mib (fst r) x xs + 1 \<le> pot mib v x xs" using left_next [OF s b, of x] True by (simp add: pot_def)
    from step [OF c(2) this] show ?thesis using True cur c(1) by simp
  next
    case False
    have f: "finished mib oids c x xs" "left mib x v = 0"
      using reading_all [OF ok(1) Cons.prems(1)] b False by simp_all
    show ?thesis
    proof (cases "\<exists>y ys. xs = y # ys \<and> match_oid (so_oid y) (fst r)")
      case T: True
      then obtain y ys where y: "xs = y # ys" "match_oid (so_oid y) (fst r)" by blast
      from reading_cross [OF ok Cons.prems(1) [unfolded y(1)] b False y(2)] obtain c' where
        c: "store_variable (fst r) (snd r) (c\<lparr>current_oid := y # ys\<rparr>) = Some c'" "reading mib oids c' y ys (fst r)" .
      have "pot mib (fst r) y ys + 1 \<le> pot mib v x xs" using left_subtree [of mib y "fst r"] by (simp add: pot_def y(1))
      from step [OF c(2) this] show ?thesis using False y cur c(1) by simp
    next
      case F: False
      then show ?thesis using False cur f(1) by (cases xs) (simp_all add: read_ok_finished)
    qed
  qed
qed

subsection \<open>Rounds\<close>

lemma bulk_rows:
  assumes "0 < k" "0 < n" "vars = take k (bulk_answer mib v n)"
  obtains rs rest es where "vars = row_values rs @ es" "behind mib v = rs @ rest" "es \<noteq> [] \<or> rs \<noteq> []"
    "es = [] \<or> rest = [] \<and> (\<exists>j. es = replicate (Suc j) (last (v # map fst rs), ENDOFMIBVIEW))"
proof -
  let ?b = "behind mib v" and ?z = "(last (v # map fst (behind mib v)), ENDOFMIBVIEW)"
  define m where "m = min k n"
  have m: "0 < m" "m \<le> n" using assms(1,2) by (simp_all add: m_def)
  have e: "vars = row_values (take m ?b) @ replicate (min (m - length ?b) n) ?z"
    by (simp add: assms(3) bulk_answer_def m_def row_values_def take_map min.commute)
  show thesis
  proof (cases "m \<le> length ?b")
    case True
    then have "take m ?b \<noteq> []" using m by auto
    then show thesis using that [of "take m ?b" "[]" "drop m ?b"] True e by simp
  next
    case False
    then have "min (m - length ?b) n = Suc (m - length ?b - 1)" using m by simp
    then show thesis using that [of ?b "replicate (min (m - length ?b) n) ?z" "[]"] False e by auto
  qed
qed

lemma reading_start:
  assumes ok: "mib_ok oids mib" and o: "oids = ys @ x # xs" "blocks_ok mib ys a"
    and c: "current_oid c = x # xs" "results c = map result_of a" and x: "so_type x \<noteq> SNMP_MSG_GET"
  shows "reading mib oids c x xs (so_oid x)"
proof -
  have "rows_to mib x (so_oid x) = []"
    using ok x o(1) match_le by (fastforce simp: rows_to_def filter_empty_conv mib_ok_def)
  then show ?thesis using o c by (auto simp: reading_def)
qed

lemma instance_rows:
  assumes ok: "mib_ok oids mib" and x: "x \<in> set oids" "so_type x = SNMP_MSG_GET"
  shows "subtree mib x = (case map_of mib (so_oid x) of None \<Rightarrow> [] | Some v \<Rightarrow> [(so_oid x, v)])"
proof -
  have "subtree mib x = filter (\<lambda>r. fst r = so_oid x) mib"
    unfolding subtree_def by (rule filter_cong) (use ok x in \<open>auto simp: mib_ok_def\<close>)
  moreover have "sorted_mib mib" using ok by (simp add: mib_ok_def)
  then have "filter (\<lambda>r. fst r = so_oid x) mib = (case map_of mib (so_oid x) of None \<Rightarrow> [] | Some v \<Rightarrow> [(so_oid x, v)])"
    by (induction mib) (auto simp: filter_empty_conv split: option.splits, use map_of_SomeD in fastforce)
  ultimately show ?thesis by simp
qed

lemma rows_to_part:
  assumes "sorted_mib mib"
  shows "\<exists>t. subtree mib x = rows_to mib x v @ t"
  unfolding rows_to_filter subtree_def by (subst behind_split [OF assms, of v]) auto

text \<open>Where an exchange is that can still take \<open>n\<close> rounds.\<close>

definition progress :: "mib \<Rightarrow> SNMPOid list \<Rightarrow> nat \<Rightarrow> outcome \<Rightarrow> bool" where
  "progress mib oids n out \<longleftrightarrow>
     (\<exists>c x xs v m. out = Ask c (GETBULK v m) \<and> 0 < m \<and> reading mib oids c x xs v \<and> pot mib v x xs \<le> n) \<or>
     (\<exists>c ys x xs a. out = Ask c (GET (so_oid x)) \<and> so_type x = SNMP_MSG_GET \<and> current_oid c = x # xs \<and>
        oids = ys @ x # xs \<and> blocks_ok mib ys a \<and> results c = map result_of a \<and> cost mib (x # xs) \<le> n) \<or>
     (\<exists>a. out = Collected (map result_of a) \<and> blocks_ok mib oids a)"

lemma progress_mono: "progress mib oids m out \<Longrightarrow> m \<le> n \<Longrightarrow> progress mib oids n out"
  unfolding progress_def using le_trans [of _ m n] by (elim disjE) blast+

lemma bulk_size_pos: "0 < bulk_size c"
  by (simp add: bulk_size_def)

lemma progress_next:
  assumes ok: "mib_ok oids mib" and f: "finished mib oids c x xs" and n: "cost mib xs \<le> n" and send: "\<forall>q. send q"
  shows "progress mib oids n (send_query send (c\<lparr>current_oid := tl (current_oid c)\<rparr>) (prepare_snmp_query (c\<lparr>current_oid := tl (current_oid c)\<rparr>)))"
proof -
  from f obtain ys a where o: "oids = (ys @ [x]) @ xs" "blocks_ok mib (ys @ [x]) a" "results c = map result_of a" "current_oid c = x # xs"
    by (auto simp: finished_def)
  show ?thesis
  proof (cases xs)
    case Nil
    then show ?thesis using o by (auto simp: progress_def send_query_def prepare_snmp_query_def)
  next
    case (Cons y zs)
    let ?c = "c\<lparr>current_oid := y # zs\<rparr>"
    show ?thesis
    proof (cases "so_type y = SNMP_MSG_GET")
      case True
      then show ?thesis using o n send Cons
        by (fastforce simp: progress_def send_query_def prepare_snmp_query_def)
    next
      case False
      have r: "reading mib oids ?c y zs (so_oid y)"
        by (rule reading_start [OF ok o(1) [unfolded Cons] o(2)]) (use o(3) False in simp_all)
      have "pot mib (so_oid y) y zs \<le> n" using n left_subtree [of mib y "so_oid y"] by (simp add: pot_def Cons)
      moreover have "\<exists>m. prepare_snmp_query ?c = Some (GETBULK (so_oid y) m) \<and> 0 < m"
        using False bulk_size_pos by (simp add: prepare_snmp_query_def)
      ultimately show ?thesis using r send o(4) unfolding progress_def send_query_def Cons by auto
    qed
  qed
qed

lemma bulk_round:
  assumes ok: "mib_ok oids mib" "oids_ok oids" and r: "reading mib oids c x xs v" and n: "pot mib v x xs \<le> Suc n"
    and k: "0 < k" "0 < m" and send: "\<forall>q. send q"
  shows "\<exists>out. asynch_mixed_response send c (Response (take k (bulk_answer mib v m))) = Some out \<and> progress mib oids n out"
proof -
  have s: "sorted_mib mib" using ok(1) by (simp add: mib_ok_def)
  from bulk_rows [OF k refl, of mib v] obtain rs rest es where
    vars: "take k (bulk_answer mib v m) = row_values rs @ es" and e: "behind mib v = rs @ rest" "es \<noteq> [] \<or> rs \<noteq> []"
    "es = [] \<or> rest = [] \<and> (\<exists>j. es = replicate (Suc j) (last (v # map fst rs), ENDOFMIBVIEW))" .
  from read_rows [OF ok r e(1,3), of Q_NONE] e(2) obtain c' st where
    rd: "read_variables (row_values rs @ es) c Q_NONE = Some (c', st)"
    "read_ok mib oids es (last (v # map fst rs)) (if rs = [] then 0 else 1) (pot mib v x xs) (c', st)" by auto
  have fin: ?thesis if f: "finished mib oids c' y ys" "cost mib ys \<le> n"
      and t: "\<not> (st = Q_NEXT \<and> \<not> match_oid (so_oid entPhysical) (fst (last (row_values rs @ es))))" for y ys
    using progress_next [OF ok(1) f send] unfolding asynch_mixed_response_def vars answer.case rd(1) by (simp add: t Let_def)
  show ?thesis
  proof (cases "st = Q_NEXT")
    case False
    with rd(2) obtain y ys where "finished mib oids c' y ys" "cost mib ys < pot mib v x xs" by (auto simp: read_ok_def)
    then show ?thesis using fin [of y ys] False n by simp
  next
    case True
    with rd(2) obtain y ys where y: "es = []" "so_type y \<noteq> SNMP_MSG_GET" "reading mib oids c' y ys (last (v # map fst rs))"
      "pot mib (last (v # map fst rs)) y ys + (if rs = [] then 0 else 1) \<le> pot mib v x xs" by (auto simp: read_ok_def)
    then have rs: "rs \<noteq> []" using e(2) by simp
    then have l: "fst (last (row_values rs @ es)) = last (v # map fst rs)" using y(1) by (simp add: row_values_def last_map)
    have p: "pot mib (last (v # map fst rs)) y ys \<le> n" using y(4) n rs by simp
    show ?thesis
    proof (cases "match_oid (so_oid entPhysical) (last (v # map fst rs))")
      case T: True
      have "match_oid (so_oid y) (last (v # map fst rs))" "y \<in> set oids" using y(3) by (auto simp: reading_def)
      then have "match_oid (so_oid entPhysical) (so_oid y)" using match_comparable [OF T] ok(2) by (auto simp: oids_ok_def)
      then have "block_ok mib y (rows_to mib y (last (v # map fst rs)))" using rows_to_part [OF s] by (simp add: block_ok_def)
      from reading_finished [OF y(3) this] show ?thesis using fin [of y ys] p T l by (simp add: pot_def)
    next
      case F: False
      have "asynch_mixed_response send c (Response (take k (bulk_answer mib v m))) =
          Some (Ask c' (GETBULK (last (v # map fst rs)) (bulk_size c')))"
        unfolding asynch_mixed_response_def vars answer.case rd(1) using True F send l by (simp add: send_query_def)
      then show ?thesis using y(3) p bulk_size_pos unfolding progress_def by blast
    qed
  qed
qed

lemma get_round:
  assumes ok: "mib_ok oids mib" and x: "so_type x = SNMP_MSG_GET" "current_oid c = x # xs" "oids = ys @ x # xs"
    and a: "blocks_ok mib ys a" "results c = map result_of a" and n: "cost mib (x # xs) \<le> Suc n" and send: "\<forall>q. send q"
    and ans: "ans = Response [(so_oid x, case map_of mib (so_oid x) of Some v \<Rightarrow> Value v | None \<Rightarrow> NOSUCHOBJECT)] \<or>
      map_of mib (so_oid x) = None \<and> ans = Response [(so_oid x, NOSUCHINSTANCE)]"
  shows "\<exists>out. asynch_mixed_response send c ans = Some out \<and> progress mib oids n out"
proof -
  have "x \<in> set oids" using x(3) by simp
  note rows = instance_rows [OF ok this x(1)]
  have "\<exists>vars c' st. ans = Response vars \<and> read_variables vars c Q_NONE = Some (c', st) \<and> st \<noteq> Q_NEXT \<and> finished mib oids c' x xs"
  proof (cases "map_of mib (so_oid x)")
    case None
    have "finished mib oids c x xs" using a x blocks_ok_snoc [OF a(1), of x "[]"] rows
      by (auto simp: finished_def block_ok_def None)
    then show ?thesis using ans x(2) by (auto simp: None)
  next
    case (Some v)
    have "(so_oid x, v) \<in> set mib" using Some by (rule map_of_SomeD)
    from store_row [OF ok this, of c] obtain c' where c: "store_variable (so_oid x) v c = Some c'"
      "results c' = results c @ [result_of (so_oid x, v)]" "current_oid c' = current_oid c" by auto
    have "finished mib oids c' x xs" unfolding finished_def c(2,3)
      using a x blocks_ok_snoc [OF a(1), of x "[(so_oid x, v)]"] rows
      by (auto simp: block_ok_def Some intro!: exI [of _ ys])
    then show ?thesis using ans x(1,2) c(1) by (auto simp: Some)
  qed
  then obtain vars c' st where r: "ans = Response vars" "read_variables vars c Q_NONE = Some (c', st)" "st \<noteq> Q_NEXT"
    "finished mib oids c' x xs" by blast
  have "cost mib xs \<le> n" using n by simp
  from progress_next [OF ok r(4) this send] show ?thesis using r(1-3) by (simp add: asynch_mixed_response_def Let_def)
qed

lemma progress_step:
  assumes ok: "mib_ok oids mib" "oids_ok oids" and ag: "agent_ok mib agent" and send: "\<forall>q. send q"
    and p: "progress mib oids (Suc n) (Ask c q)"
  shows "\<exists>out. asynch_mixed_response send c (agent q) = Some out \<and> progress mib oids n out"
proof -
  from p consider
      x xs v m where "q = GETBULK v m" "0 < m" "reading mib oids c x xs v" "pot mib v x xs \<le> Suc n"
    | ys x xs a where "q = GET (so_oid x)" "so_type x = SNMP_MSG_GET" "current_oid c = x # xs" "oids = ys @ x # xs"
        "blocks_ok mib ys a" "results c = map result_of a" "cost mib (x # xs) \<le> Suc n"
    unfolding progress_def by blast
  then show ?thesis
  proof cases
    case 1
    then obtain k where "0 < k" "agent q = Response (take k (bulk_answer mib v m))" using ag unfolding agent_ok_def by blast
    then show ?thesis using bulk_round [OF ok 1(3,4) _ 1(2) send] by simp
  next
    case 2
    show ?thesis by (rule get_round [OF ok(1) 2(2-7) send]) (use ag 2(1) in \<open>simp add: agent_ok_def\<close>)
  qed
qed

lemma exchange_ends:
  assumes ok: "mib_ok oids mib" "oids_ok oids" and ag: "agent_ok mib agent" and send: "\<forall>q. send q"
  shows "progress mib oids n out \<Longrightarrow> \<exists>a. exchange n send agent out = Some (Collected (map result_of a)) \<and> blocks_ok mib oids a"
proof (induction n arbitrary: out)
  case 0
  then show ?case by (auto simp: progress_def pot_def)
next
  case (Suc n)
  show ?case
  proof (cases out)
    case (Ask c q)
    from progress_step [OF ok ag send Suc.prems [unfolded Ask]] obtain out' where
      "asynch_mixed_response send c (agent q) = Some out'" "progress mib oids n out'" by blast
    then show ?thesis using Suc.IH by (simp add: Ask)
  qed (use Suc.prems in \<open>auto simp: progress_def\<close>)
qed

lemma start_progress:
  assumes ok: "mib_ok oids mib" and ne: "oids \<noteq> []" and send: "\<forall>q. send q"
  shows "progress mib oids (cost mib oids) (start_query send oids)"
proof (cases oids)
  case (Cons x xs)
  let ?c = "\<lparr>current_oid = oids, results = [], cx_ifNumber = 0\<rparr>"
  show ?thesis
  proof (cases "so_type x = SNMP_MSG_GET")
    case True
    then show ?thesis using send by (auto simp: progress_def start_query_def prepare_snmp_query_def Cons)
  next
    case False
    have r: "reading mib oids ?c x xs (so_oid x)"
      by (rule reading_start [OF ok, of "[]" x xs "[]"]) (use False Cons in simp_all)
    have "pot mib (so_oid x) x xs \<le> cost mib oids" using left_subtree [of mib x "so_oid x"] by (simp add: pot_def Cons)
    moreover have "\<exists>m. prepare_snmp_query ?c = Some (GETBULK (so_oid x) m) \<and> 0 < m"
      using False bulk_size_pos by (simp add: prepare_snmp_query_def Cons)
    ultimately show ?thesis using r send unfolding progress_def start_query_def by (auto simp: Let_def)
  qed
qed (use ne in simp)

text \<open>The rounds are at most as many as there are variables and rows.\<close>

lemma one_variable:
  assumes "oids_ok oids"
  shows "length (filter (\<lambda>x. match_oid (so_oid x) v) oids) \<le> 1"
proof -
  have "distinct (filter (\<lambda>x. match_oid (so_oid x) v) oids)" using assms by (simp add: oids_ok_def)
  moreover have "x = y" if "x \<in> set oids" "y \<in> set oids" "match_oid (so_oid x) v" "match_oid (so_oid y) v" for x y
    using match_comparable [OF that(3,4)] assms that(1,2) by (auto simp: oids_ok_def)
  ultimately show ?thesis
    using card_le_Suc0_iff_eq [of "set (filter (\<lambda>x. match_oid (so_oid x) v) oids)"] by (simp add: distinct_card [symmetric])
qed

lemma cost_rows: "oids_ok oids \<Longrightarrow> cost mib oids \<le> length oids + length mib"
proof -
  assume o: "oids_ok oids"
  have "cost mib oids = length oids + sum_list (map (\<lambda>x. length (subtree mib x)) oids)"
    unfolding cost_def by (induction oids) simp_all
  also have "sum_list (map (\<lambda>x. length (subtree mib x)) oids) =
      sum_list (map (\<lambda>r. length (filter (\<lambda>x. match_oid (so_oid x) (fst r)) oids)) mib)"
    unfolding subtree_def
  proof (induction oids)
    case (Cons x xs)
    have "length (filter P mib) + sum_list (map f mib) = sum_list (map (\<lambda>r. if P r then Suc (f r) else f r) mib)" for P f
      by (induction mib) simp_all
    then show ?case using Cons by (simp add: if_distrib [of length] cong: if_cong)
  qed simp
  also have "\<dots> \<le> sum_list (map (\<lambda>r. 1) mib)" by (rule sum_list_mono) (rule one_variable [OF o])
  finally show ?thesis by (simp add: sum_list_triv)
qed

end
