(* ===== verification/Snmp_Values.thy ===== *)
theory Snmp_Values
  imports SnmpPorts Discovery_Props
begin

text \<open>What the functions on single values promise: strings that fit, GUIDs, speeds.\<close>

subsection \<open>Strings\<close>

text \<open>The content of an array of \<open>n\<close> bytes with its NUL.\<close>

definition fits :: "nat \<Rightarrow> string \<Rightarrow> bool" where
  "fits n s \<longleftrightarrow> length s < n \<and> CHR 0x00 \<notin> set s"

lemma fits_Nil [simp]: "fits n [] \<longleftrightarrow> 0 < n"
  by (simp add: fits_def)

lemma hex_digit_nonzero: "n < 16 \<Longrightarrow> hex_digit n \<noteq> CHR 0x00"
proof
  assume n: "n < 16" and e: "hex_digit n = CHR 0x00"
  from e have "(of_char (hex_digit n) :: nat) = 0" by simp
  then show False using n by (simp add: hex_digit_def split: if_splits)
qed

lemma of_char_lt: "(of_char c :: nat) < 256"
  using nat_of_char_less_256 [of c] by simp

lemma hex_byte_nonzero: "CHR 0x00 \<notin> set (hex_byte c)"
proof -
  have "(of_char c :: nat) div 16 < 16" "(of_char c :: nat) mod 16 < 16" using of_char_lt [of c] by (simp_all add: less_mult_imp_div_less)
  then show ?thesis using hex_digit_nonzero [of "of_char c div 16"] hex_digit_nonzero [of "of_char c mod 16"]
    by (auto simp: hex_byte_def)
qed

lemma takeWhile_nonzero: "CHR 0x00 \<notin> set (takeWhile (\<lambda>c. c \<noteq> CHR 0x00) s)"
  by (auto dest: set_takeWhileD)

lemma fits_take: "CHR 0x00 \<notin> set s \<Longrightarrow> m < n \<Longrightarrow> fits n (take m s)"
  by (auto simp: fits_def dest: in_set_takeD)

lemma c_string_nonzero: "c_string s = Some t \<Longrightarrow> CHR 0x00 \<notin> set t"
  using takeWhile_nonzero by (auto simp: c_string_def split: if_splits)

lemma length_hex: "length (concat (map hex_byte s)) = 2 * length s"
  by (induction s) (simp_all add: hex_byte_def)

lemma skip_0x_nonzero: "CHR 0x00 \<notin> set (skip_0x s)"
  unfolding skip_0x_def by (rule takeWhile_nonzero)

lemma copy_snmp_string_fits:
  assumes "copy_snmp_string res dest n hex_only = Some s" and "fits n dest"
  shows "fits n s"
proof -
  have n: "0 < n" using assms(2) by (auto simp: fits_def)
  show ?thesis
  proof (cases "sr_val res")
    case (Octets t)
    have 1: "fits n (concat (map hex_byte (take ((n - 1) div 2) t)))"
      using n hex_byte_nonzero unfolding fits_def length_hex by auto
    have 2: "fits n (take (n - 1) (filter isxdigit (skip_0x t)))"
      using n skip_0x_nonzero [of t] by (intro fits_take) auto
    have 3: "fits n (take (min (length t + 1) n - 1) u)" if "c_string t = Some u" for u
      using n c_string_nonzero [OF that] by (intro fits_take) auto
    from assms(1) show ?thesis using 1 2 3 by (auto simp: copy_snmp_string_def Octets split: if_splits)
  qed (use assms in \<open>simp_all add: copy_snmp_string_def\<close>)
qed

lemma node_desc_fits: "node_desc str = Some s \<Longrightarrow> fits STL_NODE_DESCRIPTION_ARRAY_SIZE s"
  using c_string_nonzero by (fastforce simp: node_desc_def intro: fits_take)

lemma host_prefix_bounds:
  assumes "host_prefix sys k = Some (len, prefix)" "k < STL_NODE_DESCRIPTION_ARRAY_SIZE"
  shows "1 \<le> len" "len < STL_NODE_DESCRIPTION_ARRAY_SIZE" "CHR 0x00 \<notin> set prefix"
proof -
  have "1 \<le> len \<and> len < STL_NODE_DESCRIPTION_ARRAY_SIZE \<and> CHR 0x00 \<notin> set prefix"
  proof (cases sys)
    case None
    then show ?thesis using assms by (auto simp: host_prefix_def)
  next
    case (Some r)
    then obtain str cstr where c: "c_string str = Some cstr" "prefix = take (len - 1) cstr"
      "len = (let len = min (length str + 1) STL_NODE_DESCRIPTION_ARRAY_SIZE in if STL_NODE_DESCRIPTION_ARRAY_SIZE < len + k + 1
            then max 5 (STL_NODE_DESCRIPTION_ARRAY_SIZE - k - 1) else len)"
      using assms(1) by (auto simp: host_prefix_def Let_def split: bind_splits)
    from c(3) have "1 \<le> len" "len < STL_NODE_DESCRIPTION_ARRAY_SIZE" using assms(2) by (auto simp: Let_def split: if_splits)
    then show ?thesis using c(2) c_string_nonzero [OF c(1)] by (auto dest: in_set_takeD)
  qed
  then show "1 \<le> len" "len < STL_NODE_DESCRIPTION_ARRAY_SIZE" "CHR 0x00 \<notin> set prefix" by simp_all
qed

lemma host_desc_fits:
  assumes "host_desc sys name = Some s"
  shows "fits STL_NODE_DESCRIPTION_ARRAY_SIZE s"
proof -
  let ?n = "STL_NODE_DESCRIPTION_ARRAY_SIZE" and ?t = "\<lambda>d. takeWhile (\<lambda>c. c \<noteq> CHR 0x00) (drop d name)"
  have l: "length name < ?n" using assms by (simp add: host_desc_def split: if_splits)
  with assms obtain len prefix where p: "host_prefix sys (length name) = Some (len, prefix)"
    by (cases "host_prefix sys (length name)") (auto simp: host_desc_def)
  define m where "m = min (length name + 2) (?n - len + 1)"
  have m: "m \<le> ?n - len + 1" by (simp add: m_def)
  have s: "s = (if length prefix < len - 1 then prefix else take (len - 1) prefix @ ''-'' @ take (m - 2) (?t (length name + 2 - m)))"
    using assms l unfolding host_desc_def p by (auto simp: Let_def m_def)
  note b = host_prefix_bounds [OF p l]
  have "CHR 0x00 \<notin> set (take (m - 2) (?t (length name + 2 - m)))" using takeWhile_nonzero by (auto dest: in_set_takeD)
  moreover have "length (take (m - 2) (?t (length name + 2 - m))) \<le> ?n - len - 1" using m b(1,2) by simp
  ultimately show ?thesis using b unfolding s fits_def by (auto dest: in_set_takeD)
qed

subsection \<open>GUIDs\<close>

lemma get_hex_digits: "list_all (\<lambda>n. get_hex (hex_digit n) = int n) [0..<16]"
  by code_simp

lemma get_hex_digit: "n < 16 \<Longrightarrow> get_hex (hex_digit n) = int n"
  using get_hex_digits by (simp add: list_all_iff del: upt_rec_numeral)

lemma hex_digits_shift:
  "push_bit 4 (push_bit 4 (res :: uint64) + of_int (get_hex (hex_digit (of_char c div 16)))) +
     of_int (get_hex (hex_digit (of_char c mod 16))) = push_bit 8 res + of_char c"
proof -
  have b: "(of_char c :: nat) div 16 < 16" "(of_char c :: nat) mod 16 < 16" using of_char_lt [of c] by (simp_all add: less_mult_imp_div_less)
  have e: "(of_char c :: uint64) = of_nat (of_char c)" by (rule of_nat_of_char [symmetric])
  have "(of_nat (of_char c) :: uint64) = 16 * of_nat (of_char c div 16) + of_nat (of_char c mod 16)"
    by (metis mult_div_mod_eq of_nat_add of_nat_mult of_nat_numeral)
  then show ?thesis unfolding e get_hex_digit [OF b(1)] get_hex_digit [OF b(2)] by (simp add: push_bit_eq_mult algebra_simps)
qed

lemma foldl_hex_bytes:
  "foldl (\<lambda>res i. push_bit 4 res + of_int i) (res :: uint64) (map get_hex (concat (map hex_byte s))) =
     foldl (\<lambda>res c. push_bit 8 res + of_char c) res s"
proof (induction s arbitrary: res)
  case (Cons c s)
  then show ?case using hex_digits_shift [of res c] by (simp add: hex_byte_def)
qed simp

lemma get_guid_text:
  assumes "is_text t" "map get_hex (filter isxdigit (skip_0x t)) = map get_hex (concat (map hex_byte s))" "length s \<le> 8"
  shows "get_guid t = foldl (\<lambda>res c. push_bit 8 res + of_char c) 0 s"
proof -
  let ?h = "filter isxdigit (skip_0x t)"
  have "length (map get_hex ?h) \<le> 16" using assms(3) unfolding assms(2) length_map length_hex by simp
  then have "get_guid t = foldl (\<lambda>res c. push_bit 4 res + of_int (get_hex c)) 0 ?h" using assms(1) by (simp add: get_guid_def)
  also have "\<dots> = foldl (\<lambda>res i. push_bit 4 res + of_int i) 0 (map get_hex ?h)" by (simp add: foldl_map)
  finally show ?thesis unfolding assms(2) foldl_hex_bytes .
qed

subsection \<open>Speeds\<close>

lemma bit_foldl_or:
  "bit (foldl (\<lambda>res j. if P j then res OR f j else res) (r :: 'a :: len word) xs) k \<longleftrightarrow> bit r k \<or> (\<exists>j \<in> set xs. P j \<and> bit (f j) k)"
  by (induction xs arbitrary: r) (auto simp: bit_or_iff)

text \<open>Mode \<open>i\<close> in a list of bits, and whether one of the modes has a speed.\<close>

definition mode_bit :: "string \<Rightarrow> nat \<Rightarrow> bool" where
  "mode_bit bytes i \<longleftrightarrow> i < 8 * length bytes \<and> bit (of_char (bytes ! (i div 8)) :: uint8) (7 - i mod 8)"

lemma speeds_loop:
  "bit (snd (foldl (\<lambda>(base, res) c. (base + 8, res OR byte_speeds base c)) (base, res) bytes)) k \<longleftrightarrow>
     bit res k \<or> (\<exists>i. mode_bit bytes i \<and> bit (EthLinkModeToSpeed (base + of_nat i)) k)"
proof (induction bytes arbitrary: base res)
  case Nil
  then show ?case by (simp add: mode_bit_def)
next
  case (Cons c cs)
  have 1: "(\<exists>j < 8. bit (of_char c :: uint8) (7 - j) \<and> bit (EthLinkModeToSpeed (base + of_nat j)) k) \<longleftrightarrow>
      (\<exists>i < 8. mode_bit (c # cs) i \<and> bit (EthLinkModeToSpeed (base + of_nat i)) k)" by (auto simp: mode_bit_def)
  have d: "(i + 8) div 8 = Suc (i div 8)" for i :: nat by simp
  have 2: "mode_bit cs i \<longleftrightarrow> mode_bit (c # cs) (i + 8)" for i unfolding mode_bit_def d by simp
  have 3: "(base + 8) + of_nat i = base + of_nat (i + 8)" for i by simp
  have 4: "(\<exists>i. Q i) \<longleftrightarrow> (\<exists>i < 8. Q i) \<or> (\<exists>i. Q (i + 8))" for Q :: "nat \<Rightarrow> bool"
    by (metis le_add_diff_inverse2 not_less)
  let ?Q = "\<lambda>i. mode_bit (c # cs) i \<and> bit (EthLinkModeToSpeed (base + of_nat i)) k"
  have b: "bit (byte_speeds base c) k \<longleftrightarrow> (\<exists>i < 8. ?Q i)" using 1 by (auto simp: byte_speeds_def bit_foldl_or)
  have "bit (snd (foldl (\<lambda>(base, res) c. (base + 8, res OR byte_speeds base c)) (base, res) (c # cs))) k \<longleftrightarrow>
      (bit res k \<or> (\<exists>i < 8. ?Q i)) \<or> (\<exists>i. ?Q (i + 8))"
    unfolding foldl_Cons prod.case Cons.IH 2 3 bit_or_iff b by blast
  then show ?case using 4 [of ?Q] by blast
qed

lemma supported_speeds:
  "bit (get_link_speed_supported bytes) k \<longleftrightarrow> (\<exists>i. mode_bit bytes i \<and> bit (EthLinkModeToSpeed (of_nat i)) k)"
  using speeds_loop [where base = 0 and res = 0] by (simp add: get_link_speed_supported_def)

section \<open>Records of switches\<close>

text \<open>The invariant of the records that are made for a switch.\<close>

subsection \<open>Loops\<close>

definition flow_all :: "('s \<Rightarrow> bool) \<Rightarrow> 's flow \<Rightarrow> bool" where
  "flow_all P fl \<longleftrightarrow> (case fl of Next s \<Rightarrow> P s | Stop s \<Rightarrow> P s)"

lemma flow_all_simps [simp]: "flow_all P (Next s) = P s" "flow_all P (Stop s) = P s"
  by (simp_all add: flow_all_def)

lemma each_result_inv:
  assumes "\<And>rp s fl. P s \<Longrightarrow> f rp s = Some fl \<Longrightarrow> flow_all P fl"
  shows "P s \<Longrightarrow> each_result f res s = Some s' \<Longrightarrow> P s'"
proof (induction res arbitrary: s)
  case (Cons rp res)
  show ?case
  proof (cases "sr_oid rp = []")
    case False
    with Cons.prems(2) obtain fl where "f rp s = Some fl" by (cases "f rp s") simp_all
    then show ?thesis using assms [OF Cons.prems(1)] Cons.prems(2) Cons.IH False by (cases fl) fastforce+
  qed (use Cons.prems in simp)
qed simp

subsection \<open>Records\<close>

definition strings_fit :: "snmp_port \<Rightarrow> bool" where
  "strings_fit p \<longleftrightarrow> fits TINY_STR_ARRAY_SIZE (sp_LocalPortId p) \<and> fits TINY_STR_ARRAY_SIZE (sp_NeighborPortId p) \<and>
     length (sp_LinkModeSupported p) = LINK_MODES_SIZE"

text \<open>Updates that leave the numbers and names of a port alone.\<close>

definition keeps_names :: "(snmp_port \<Rightarrow> snmp_port) \<Rightarrow> bool" where
  "keeps_names f \<longleftrightarrow> (\<forall>p. sp_EndPortLID (f p) = sp_EndPortLID p \<and> sp_PortNum (f p) = sp_PortNum p \<and>
     sp_LocalPortId (f p) = sp_LocalPortId p \<and> sp_NeighborPortId (f p) = sp_NeighborPortId p \<and> sp_LID (f p) = sp_LID p \<and>
     (length (sp_LinkModeSupported p) = LINK_MODES_SIZE \<longrightarrow> length (sp_LinkModeSupported (f p)) = LINK_MODES_SIZE))"

lemma keeps_setters [simp]:
  "keeps_names (set_type i)" "keeps_names (set_mtu i)" "keeps_names (set_ifSpeed i)" "keeps_names (set_ifHighSpeed i)"
  "keeps_names (set_state i)" "keeps_names (set_phys_state i)" "keeps_names (set_down_reason i)" "keeps_names (set_auto_neg i)"
  "keeps_names (set_link_modes str)"
  by (simp_all add: keeps_names_def set_type_def set_mtu_def set_ifSpeed_def set_ifHighSpeed_def set_speed_def set_state_def
    set_phys_state_def set_down_reason_def set_auto_neg_def set_link_modes_def min_def)

definition switch_port_ok :: "uint32 \<Rightarrow> snmp_port \<Rightarrow> bool" where
  "switch_port_ok lid p \<longleftrightarrow> sp_EndPortLID p = lid \<and> sp_PortNum p = 0 \<and> strings_fit p"

lemma keeps_port_ok: "keeps_names f \<Longrightarrow> switch_port_ok lid p \<Longrightarrow> switch_port_ok lid (f p)"
  by (simp add: keeps_names_def switch_port_ok_def strings_fit_def)

text \<open>Port 0 is up and has no id; the maps refer to the others.\<close>

definition indices :: "switch_ports \<Rightarrow> nat set" where
  "indices s = snd ` set (ss_numMap s) \<union> snd ` set (ss_idMap s)"

definition switch_ok :: "uint32 \<Rightarrow> switch_ports \<Rightarrow> bool" where
  "switch_ok lid s \<longleftrightarrow> ss_list s \<noteq> [] \<and> sp_PortState (ss_list s ! 0) = 1 \<and> sp_LocalPortId (ss_list s ! 0) = [] \<and>
     (\<forall>p \<in> set (ss_list s). switch_port_ok lid p) \<and>
     (\<forall>i \<in> indices s. 0 < i \<and> i < length (ss_list s))"

lemma on_port_simps [simp]:
  "ss_list (on_port i f s) = (ss_list s)[i := f (ss_list s ! i)]" "ss_status (on_port i f s) = ss_status s"
  "ss_idMap (on_port i f s) = ss_idMap s" "ss_allocs (on_port i f s) = ss_allocs s"
  by (simp_all add: on_port_def)

lemma on_port_more [simp]:
  "ss_numMap (on_port i f s) = ss_numMap s" "ss_gen (on_port i f s) = ss_gen s" "ss_manAddr (on_port i f s) = ss_manAddr s"
  by (simp_all add: on_port_def)

lemma on_port_indices [simp]: "indices (on_port i f s) = indices s"
  by (simp add: indices_def)

lemma on_port_ok:
  assumes s: "switch_ok lid s" and i: "i < length (ss_list s)" and f: "\<And>p. switch_port_ok lid p \<Longrightarrow> switch_port_ok lid (f p)"
    and z: "i = 0 \<Longrightarrow> \<forall>p. sp_PortState (f p) = sp_PortState p \<and> sp_LocalPortId (f p) = sp_LocalPortId p"
  shows "switch_ok lid (on_port i f s)"
proof -
  have "switch_port_ok lid (f (ss_list s ! i))" using f s i by (simp add: switch_ok_def)
  then have "\<forall>p \<in> set ((ss_list s)[i := f (ss_list s ! i)]). switch_port_ok lid p"
    using s by (auto simp: switch_ok_def dest: set_update_subset_insert [THEN subsetD])
  then show ?thesis using s i z by (cases i) (auto simp: switch_ok_def)
qed

lemma omap_get_value: "omap_get k m = Some v \<Longrightarrow> v \<in> snd ` set m"
  unfolding omap_get_def by (force dest: map_of_SomeD)

lemma switch_ok_fields [simp]:
  "switch_ok lid (s\<lparr>ss_status := st\<rparr>) = switch_ok lid s" "switch_ok lid (s\<lparr>ss_allocs := as\<rparr>) = switch_ok lid s"
  "switch_ok lid (s\<lparr>ss_manAddr := b\<rparr>) = switch_ok lid s" "switch_ok lid (s\<lparr>ss_gen := g\<rparr>) = switch_ok lid s"
  by (simp_all add: switch_ok_def indices_def)

lemma switch_ok_index: "switch_ok lid s \<Longrightarrow> i \<in> indices s \<Longrightarrow> 0 < i \<and> i < length (ss_list s)"
  by (simp add: switch_ok_def)

lemma switch_ok_maps:
  assumes "switch_ok lid s" "ss_list s' = ss_list s" "indices s' \<subseteq> indices s \<union> {i}" "0 < i" "i < length (ss_list s)"
  shows "switch_ok lid s'"
  using assms by (auto simp: switch_ok_def)

lemma new_port_fits: "strings_fit new_port_record"
  by (simp add: strings_fit_def new_port_record_def)

lemma switch_ok_insert:
  assumes "switch_ok lid s" "0 < i" "i < length (ss_list s)"
  shows "switch_ok lid (s\<lparr>ss_numMap := omap_insert k i (ss_numMap s)\<rparr>)" "switch_ok lid (s\<lparr>ss_idMap := omap_insert k i (ss_idMap s)\<rparr>)"
proof -
  have "indices (s\<lparr>ss_numMap := omap_insert k i (ss_numMap s)\<rparr>) \<subseteq> indices s \<union> {i}"
    "indices (s\<lparr>ss_idMap := omap_insert k i (ss_idMap s)\<rparr>) \<subseteq> indices s \<union> {i}"
    using omap_insert_values [of k i "ss_numMap s"] omap_insert_values [of k i "ss_idMap s"] by (auto simp: indices_def)
  then show "switch_ok lid (s\<lparr>ss_numMap := omap_insert k i (ss_numMap s)\<rparr>)" "switch_ok lid (s\<lparr>ss_idMap := omap_insert k i (ss_idMap s)\<rparr>)"
    by (simp_all add: switch_ok_maps [OF assms(1) _ _ assms(2,3)])
qed

lemma add_record_ok:
  assumes s: "switch_ok lid s" and f: "keeps_names f" "keeps_names g"
  shows "flow_all (switch_ok lid) (add_record lid portNum f g s)"
proof -
  define p where "p = f (new_port_record\<lparr>sp_EndPortLID := lid, sp_CapabilityMask := sp_CapabilityMask (ss_list s ! 0),
    sp_CapabilityMask3 := sp_CapabilityMask3 (ss_list s ! 0)\<rparr>)"
  define s1 where "s1 = s\<lparr>ss_list := ss_list s @ [p]\<rparr>"
  have "switch_port_ok lid p" unfolding p_def
    by (rule keeps_port_ok [OF f(1)]) (use new_port_fits in \<open>simp add: switch_port_ok_def strings_fit_def new_port_record_def\<close>)
  moreover have "ss_list s \<noteq> []" "indices s1 = indices s" using s by (simp_all add: switch_ok_def s1_def indices_def)
  ultimately have s1: "switch_ok lid s1" using s switch_ok_index [OF s] by (simp add: switch_ok_def s1_def nth_append less_SucI)
  have i: "0 < length (ss_list s)" "length (ss_list s) < length (ss_list s1)" using s by (auto simp: switch_ok_def s1_def)
  have 1: "switch_ok lid (s1\<lparr>ss_numMap := omap_insert (int_key portNum) (length (ss_list s)) (ss_numMap s1)\<rparr>)"
    by (rule switch_ok_insert(1) [OF s1 i])
  have "switch_ok lid (on_port (length (ss_list s)) g
      (s1\<lparr>ss_numMap := omap_insert (int_key portNum) (length (ss_list s)) (ss_numMap s1), ss_allocs := as\<rparr>))" for as
    by (rule on_port_ok) (use 1 i keeps_port_ok [OF f(2)] in simp_all)
  then show ?thesis using s s1
    by (auto simp: add_record_def Let_def p_def [symmetric] s1_def split: prod.split bool.split)
qed

subsection \<open>Steps\<close>

lemma in_maps:
  assumes "switch_ok lid s"
  shows "omap_get k (ss_numMap s) = Some i \<Longrightarrow> 0 < i \<and> i < length (ss_list s)"
    "omap_get k (ss_idMap s) = Some i \<Longrightarrow> 0 < i \<and> i < length (ss_list s)"
  by (rule switch_ok_index [OF assms], simp add: indices_def omap_get_value)+

lemma on_interface_ok:
  assumes s: "switch_ok lid s" and f: "on_interface v get put rp s = Some fl" and k: "\<And>x. keeps_names (put x)"
  shows "flow_all (switch_ok lid) fl"
proof -
  have "switch_ok lid (on_port i (put x) s)" if "omap_get k (ss_idMap s) = Some i" for i k x
    by (rule on_port_ok [OF s]) (use in_maps(2) [OF s that] keeps_port_ok [OF k] in simp_all)
  then show ?thesis using f s by (auto simp: on_interface_def split: bind_splits option.splits)
qed

lemma on_number_ok:
  assumes s: "switch_ok lid s" and f: "on_number v n f rp s = Some fl"
    and g: "\<And>i s'. 0 < i \<Longrightarrow> i < length (ss_list s) \<Longrightarrow> f i s = Some s' \<Longrightarrow> switch_ok lid s'"
  shows "flow_all (switch_ok lid) fl"
proof -
  have "switch_ok lid s'" if "omap_get k (ss_numMap s) = Some i" "f i s = Some s'" for k i s'
    using g [of i] in_maps(1) [OF s that(1)] that(2) by blast
  then show ?thesis using f s by (auto simp: on_number_def split: bind_splits option.splits)
qed

lemma port_zero:
  assumes "switch_ok lid s" "keeps_names f" "\<forall>p. sp_PortState (f p) = sp_PortState p"
  shows "switch_ok lid (on_port 0 f s)"
  by (rule on_port_ok [OF assms(1)]) (use assms keeps_port_ok in \<open>auto simp: switch_ok_def keeps_names_def\<close>)

lemma set_address_ok: "switch_ok lid s \<Longrightarrow> set_address rp s = Some s' \<Longrightarrow> switch_ok lid s'"
  by (auto simp: set_address_def keeps_names_def split: if_splits bind_splits intro!: port_zero)

lemma keeps_zero: "keeps_names (\<lambda>p. p\<lparr>sp_CapabilityMask := m\<rparr>)" "keeps_names (\<lambda>p. p\<lparr>sp_CapabilityMask3 := n\<rparr>)"
  "keeps_names (\<lambda>p. p\<lparr>sp_LocalPortIdSubtype := b\<rparr>)" "keeps_names (\<lambda>p. p\<lparr>sp_NeighborPortIdSubtype := b\<rparr>)"
  "keeps_names (\<lambda>p. p\<lparr>sp_NeighborNodeGUID := g\<rparr>)" "keeps_names id"
  by (simp_all add: keeps_names_def)

lemma port_zero_address_ok:
  assumes "switch_ok lid s" "port_zero_address rp s = Some fl"
  shows "flow_all (switch_ok lid) fl"
proof (cases "ss_manAddr s")
  case False
  have "switch_ok lid (on_port 0 (\<lambda>p. p\<lparr>sp_LID := of_int i, sp_LocalPortNum := of_int i\<rparr>) s)" for i
    by (rule on_port_ok [OF assms(1)]) (use assms(1) in \<open>auto simp: switch_ok_def switch_port_ok_def strings_fit_def\<close>)
  then show ?thesis using assms(2) False set_address_ok by (fastforce simp: port_zero_address_def split: bind_splits)
qed (use assms in \<open>auto simp: port_zero_address_def\<close>)

lemma fitting_ok:
  assumes "switch_ok lid s" "i < length (ss_list s)"
  shows "strings_fit (ss_list s ! i)"
  using assms by (simp add: switch_ok_def switch_port_ok_def)

lemma number_steps:
  assumes s: "switch_ok lid s" and i: "0 < i" "i < length (ss_list s)"
  shows "remote_subtype rp i s = Some s' \<Longrightarrow> switch_ok lid s'" "remote_port_id rp i s = Some s' \<Longrightarrow> switch_ok lid s'"
    "remote_capabilities rp i s = Some s' \<Longrightarrow> switch_ok lid s'" "local_port_id rp i s = Some s' \<Longrightarrow> switch_ok lid s'"
proof -
  have f: "fits TINY_STR_ARRAY_SIZE (sp_NeighborPortId (ss_list s ! i))" "fits TINY_STR_ARRAY_SIZE (sp_LocalPortId (ss_list s ! i))"
    using fitting_ok [OF s i(2)] by (simp_all add: strings_fit_def)
  note on = on_port_ok [OF s i(2)]
  show "remote_subtype rp i s = Some s' \<Longrightarrow> switch_ok lid s'" "remote_capabilities rp i s = Some s' \<Longrightarrow> switch_ok lid s'"
    using i by (auto simp: remote_subtype_def remote_capabilities_def switch_port_ok_def strings_fit_def split: bind_splits intro!: on)
  show "remote_port_id rp i s = Some s' \<Longrightarrow> switch_ok lid s'" "local_port_id rp i s = Some s' \<Longrightarrow> switch_ok lid s'"
    using i copy_snmp_string_fits [OF _ f(1)] copy_snmp_string_fits [OF _ f(2)]
    by (auto simp: remote_port_id_def local_port_id_def Let_def switch_port_ok_def strings_fit_def split: bind_splits intro!: on)
qed

lemma local_subtype_ok:
  assumes s: "switch_ok lid s" and l: "local_subtype lid down rp s = Some fl"
  shows "flow_all (switch_ok lid) fl"
proof -
  have "switch_ok lid (on_port i (\<lambda>p. p\<lparr>sp_LocalPortIdSubtype := t\<rparr>) s)" if "omap_get k (ss_numMap s) = Some i" for i k t
    using in_maps(1) [OF s that] by (intro on_port_ok [OF s]) (auto simp: switch_port_ok_def strings_fit_def)
  then show ?thesis using l s add_record_ok [OF s keeps_zero(6,3)]
    by (auto simp: local_subtype_def Let_def split: bind_splits option.splits if_splits)
qed

lemma remote_chassis_ok:
  assumes "switch_ok lid s" "remote_chassis lid rp s = Some fl"
  shows "flow_all (switch_ok lid) fl"
  using assms add_record_ok [OF assms(1) keeps_zero(5,6)]
  by (auto simp: remote_chassis_def split: if_splits bind_splits)

lemma find_in: "find P xs = Some x \<Longrightarrow> x \<in> set xs"
  by (auto simp: find_Some_iff)

lemma match_interface_ok:
  assumes s1: "switch_ok lid s" and f: "match_interface rp name n s = Some fl"
  shows "flow_all (switch_ok lid) fl"
proof -
  have a: "flow_all (switch_ok lid) (case take_allocs 1 as of
      (False, as) \<Rightarrow> Stop (s2\<lparr>ss_status := st, ss_allocs := as\<rparr>)
    | (True, as) \<Rightarrow> Next (s2\<lparr>ss_idMap := omap_insert (int_key portId) i (ss_idMap s2), ss_allocs := as\<rparr>))"
    if i: "(k, i) \<in> set (ss_numMap s)"
      and s2: "s2 = on_port i (\<lambda>p. p\<lparr>sp_LID := of_int portId\<rparr>) (s\<lparr>ss_numMap := omap_remove k (ss_numMap s)\<rparr>)" for s2 k i as portId st
  proof -
    have "i \<in> indices s" using i by (force simp: indices_def)
    then have i: "0 < i" "i < length (ss_list s)" using switch_ok_index [OF s1] by simp_all
    have "indices (s\<lparr>ss_numMap := omap_remove k (ss_numMap s)\<rparr>) \<subseteq> indices s \<union> {i}" by (auto simp: indices_def omap_remove_def)
    then have "switch_ok lid (s\<lparr>ss_numMap := omap_remove k (ss_numMap s)\<rparr>)" by (rule switch_ok_maps [OF s1 _ _ i, rotated]) simp
    then have s2': "switch_ok lid s2" unfolding s2 using i by (intro on_port_ok) (auto simp: switch_port_ok_def strings_fit_def)
    have "switch_ok lid (s2\<lparr>ss_idMap := omap_insert (int_key portId) i (ss_idMap s2)\<rparr>)"
      by (rule switch_ok_insert(2) [OF s2']) (use i in \<open>simp_all add: s2\<close>)
    then show ?thesis using s2' by (auto split: prod.split bool.split)
  qed
  let ?find = "find (\<lambda>(k, i). name_matches s name n i) (ss_numMap s)"
  show ?thesis
  proof (cases ?find)
    case None
    then show ?thesis using f s1 by (auto simp: match_interface_def)
  next
    case (Some x)
    obtain k i where x: "x = (k, i)" by (rule prod.exhaust)
    have "(k, i) \<in> set (ss_numMap s)" using find_in [OF Some] x by simp
    from a [OF this refl] f Some x show ?thesis by (auto simp: match_interface_def Let_def split: bind_splits)
  qed
qed

lemma switch_if_name_ok:
  assumes "switch_ok lid s" and "switch_if_name pa rp s = Some fl"
  shows "flow_all (switch_ok lid) fl"
  using assms
  by (auto simp: switch_if_name_def Let_def split: bind_splits if_splits prod.splits intro!: match_interface_ok [rotated])

lemma step_if:
  assumes "(if c then a else b) = Some fl"
  obtains "c" "a = Some fl" | "\<not> c" "b = Some fl"
  using assms by (auto split: if_splits)

lemma switch_port_step_ok:
  assumes s: "switch_ok lid s" and f: "switch_port_step pa lid down rp s = Some fl"
  shows "flow_all (switch_ok lid) fl"
proof -
  have i: "on_interface v get put rp s = Some fl \<Longrightarrow> (\<forall>x. keeps_names (put x)) \<Longrightarrow> flow_all (switch_ok lid) fl"
    for v and get :: "snmp_val \<Rightarrow> 'v option" and put using on_interface_ok [OF s] by blast
  have n: "on_number v k (remote_subtype rp) rp s = Some fl \<Longrightarrow> flow_all (switch_ok lid) fl"
    "on_number v k (remote_port_id rp) rp s = Some fl \<Longrightarrow> flow_all (switch_ok lid) fl"
    "on_number v k (remote_capabilities rp) rp s = Some fl \<Longrightarrow> flow_all (switch_ok lid) fl"
    "on_number v k (local_port_id rp) rp s = Some fl \<Longrightarrow> flow_all (switch_ok lid) fl" for v k
    by (rule on_number_ok [OF s], assumption, rule number_steps [OF s], assumption+)+
  have z: "flow_all (switch_ok lid) (Next (on_port 0 (\<lambda>p. p\<lparr>sp_CapabilityMask := m\<rparr>) s))"
    "flow_all (switch_ok lid) (Next (on_port 0 (\<lambda>p. p\<lparr>sp_CapabilityMask3 := m'\<rparr>) s))" for m m'
    using port_zero [OF s keeps_zero(1)] port_zero [OF s keeps_zero(2)] by simp_all
  note o = port_zero_address_ok [OF s] remote_chassis_ok [OF s] local_subtype_ok [OF s] switch_if_name_ok [OF s]
  from f show ?thesis unfolding switch_port_step_def
    apply (elim step_if)
    subgoal using z by (auto split: bind_splits)
    subgoal using z by (auto split: bind_splits)
    apply (erule o n)+
    apply (erule i, simp)+
    using s by auto
qed

subsection \<open>All records of a switch\<close>

lemma take_allocs_0 [simp]: "take_allocs 0 as = (True, as)"
  by simp

lemma number_ports_nth:
  "length (number_ports pa model ps) = length ps"
  "i < length ps \<Longrightarrow> \<exists>num. number_ports pa model ps ! i = (ps ! i)\<lparr>sp_PortNum := num\<rparr> \<and>
     (sp_LocalPortId (ps ! i) = [] \<longrightarrow> num = sp_PortNum (ps ! i))"
proof (induction ps arbitrary: model i)
  case (Cons p ps)
  { case 1 show ?case using Cons(1) by (simp split: prod.split) next
    case 2
    obtain num model' where g: "pn_gen_get_port (pa_full pa (sp_LocalPortId p)) (pa_group pa (sp_LocalPortId p)) (sp_LocalPortId p) model =
        (num, model')" by (rule prod.exhaust)
    show ?case
    proof (cases i)
      case 0
      then show ?thesis using g by (cases "sp_LocalPortId p = []") (auto intro: exI [of _ "sp_PortNum p"])
    next
      case (Suc j)
      then show ?thesis using 2 Cons(2) [of j model] Cons(2) [of j model'] g by simp
    qed }
qed simp_all

definition switch_records :: "uint32 \<Rightarrow> snmp_port list \<Rightarrow> bool" where
  "switch_records lid ps \<longleftrightarrow> ps \<noteq> [] \<and> sp_PortNum (hd ps) = 0 \<and> sp_PortState (hd ps) = 1 \<and> sp_LocalPortId (hd ps) = [] \<and>
     (\<forall>p \<in> set ps. sp_EndPortLID p = lid \<and> strings_fit p \<and> (sp_LocalPortId p = [] \<longrightarrow> sp_PortNum p = 0))"

lemma switch_ok_records: "switch_ok lid s \<Longrightarrow> switch_records lid (number_ports pa model (ss_list s))"
proof -
  assume s: "switch_ok lid s"
  let ?ps = "ss_list s" and ?qs = "number_ports pa model (ss_list s)"
  have l: "length ?qs = length ?ps" "0 < length ?ps" using number_ports_nth(1) s by (auto simp: switch_ok_def)
  have q: "\<exists>num. ?qs ! i = (?ps ! i)\<lparr>sp_PortNum := num\<rparr> \<and> switch_port_ok lid (?ps ! i) \<and> (sp_LocalPortId (?ps ! i) = [] \<longrightarrow> num = 0)"
    if "i < length ?ps" for i
    using number_ports_nth(2) [OF that, of pa model] s that by (auto simp: switch_ok_def switch_port_ok_def)
  have "sp_EndPortLID p = lid \<and> strings_fit p \<and> (sp_LocalPortId p = [] \<longrightarrow> sp_PortNum p = 0)" if "p \<in> set ?qs" for p
  proof -
    from that obtain i where "i < length ?ps" "p = ?qs ! i" using l by (metis in_set_conv_nth)
    then show ?thesis using q [of i] by (auto simp: switch_port_ok_def strings_fit_def)
  qed
  moreover have "?qs \<noteq> []" using l by auto
  moreover from this have "hd ?qs = ?qs ! 0" by (rule hd_conv_nth)
  ultimately show ?thesis using q [OF l(2)] s by (auto simp: switch_records_def switch_ok_def)
qed

lemma populate_switch_ports_ok:
  assumes "populate_switch_node_port_records pa down as res n = Some (HMGT_STATUS_SUCCESS, rss, as')"
  shows "\<exists>ps. rss = Some ps \<and> switch_records (nd_LID n) ps"
proof -
  define s0 where "s0 a = \<lparr>ss_list = [new_port_record\<lparr>sp_EndPortLID := nd_LID n, sp_PortState := 1\<rparr>], ss_status = HMGT_STATUS_SUCCESS,
      ss_idMap = [], ss_allocs = a, ss_manAddr = False, ss_numMap = [], ss_gen = pn_gen_init\<rparr>" for a
  have s0: "switch_ok (nd_LID n) (s0 a)" for a
    using new_port_fits by (simp add: switch_ok_def indices_def switch_port_ok_def strings_fit_def new_port_record_def s0_def)
  obtain b a where 1: "take_allocs 1 as = (b, a)" by (rule prod.exhaust)
  obtain b' a' where 2: "take_allocs 2 a = (b', a')" by (rule prod.exhaust)
  have t: "b" "b'" using assms 1 2 by (cases b; cases b'; simp add: populate_switch_node_port_records_def)+
  then obtain s where s: "each_result (switch_port_step pa (nd_LID n) down) res (s0 a') = Some s"
      "rss = Some (number_ports pa (ss_gen s) (ss_list s))"
    using assms 1 2 by (auto simp: populate_switch_node_port_records_def s0_def split: bind_splits)
  have "switch_ok (nd_LID n) s" using each_result_inv [where P = "switch_ok (nd_LID n)", OF switch_port_step_ok s0 s(1)] by simp
  then show ?thesis using s(2) switch_ok_records by blast
qed

end
