(* ===== verification/Snmp_Claims.thy ===== *)
theory Snmp_Claims
  imports SnmpQuery_Props Snmp_Values
begin

text \<open>
  The properties of the collection of SNMP results (\<^verbatim>\<open>Topology/hpnmgt_snmp.c\<close>).
\<close>

subsection \<open>The variables that are asked for\<close>

definition apart :: "SNMPOid list \<Rightarrow> SNMPOid \<Rightarrow> bool" where
  "apart oids x \<longleftrightarrow> \<not> match_oid (so_oid x) (so_oid entPhysical) \<and>
     list_all (\<lambda>y. match_oid (so_oid x) (so_oid y) \<longrightarrow> x = y) oids"

lemma oids_ok_apart: "oids_ok oids \<longleftrightarrow> distinct oids \<and> list_all (apart oids) oids"
  by (auto simp: oids_ok_def apart_def list_all_iff)

lemma apart_list: "oids_ok oids \<longleftrightarrow> distinct oids \<and> (\<forall>x \<in> set oids. apart oids x)"
  by (simp add: oids_ok_apart list_all_iff)

lemma apart_lldp: "list_all (apart sw_oids_full) lldp_oids"
  by code_simp

lemma apart_if_error: "list_all (apart sw_oids_full) (if_error_oids @ if_hc_oids @ mau_oids)"
  by code_simp

lemma apart_dot3: "list_all (apart sw_oids_full) [ipAdEntIfIndex, dot3StatsSingleCollisionFrames,
     dot3StatsMultipleCollisionFrames, dot3StatsSQETestErrors, dot3StatsDeferredTransmissions, dot3StatsLateCollisions,
     dot3StatsExcessiveCollisions, dot3StatsCarrierSenseErrors, dot3HCStatsAlignmentErrors, dot3HCStatsFCSErrors,
     dot3HCStatsInternalMacTransmitErrors, dot3HCStatsFrameTooLongs, dot3HCStatsInternalMacReceiveErrors,
     dot3HCStatsSymbolErrors]"
  by code_simp

lemma apart_entity: "list_all (apart sw_oids_full) (ifHighSpeed # entity_oids)"
  by code_simp

lemma distinct_oids: "distinct sw_oids_full" "distinct sw_oids_basic" "distinct nic_oids_full" "distinct nic_oids_basic"
  by code_simp+

lemma sw_full_ok: "oids_ok sw_oids_full"
proof -
  have "list_all (apart sw_oids_full) sw_oids_full"
    using apart_lldp apart_if_error apart_dot3 apart_entity
    by (subst (2) sw_oids_full_def) (simp only: list_all_append list.pred_inject(2))
  then show ?thesis using distinct_oids(1) by (simp add: oids_ok_apart)
qed

lemma oids_ok_subset: "oids_ok xs \<Longrightarrow> set ys \<subseteq> set xs \<Longrightarrow> distinct ys \<Longrightarrow> oids_ok ys"
  unfolding oids_ok_def by blast

lemma device_oids_part: "set (device_oids stats type) \<subseteq> set sw_oids_full"
  unfolding device_oids_def sw_oids_full_def sw_oids_basic_def nic_oids_full_def nic_oids_basic_def nic_oids_def lldp_oids_def
    if_error_oids_def if_hc_oids_def by auto

lemma device_oids_ok: "oids_ok (device_oids stats type)" "device_oids stats type \<noteq> []"
proof -
  have "distinct (device_oids stats type)" using distinct_oids by (simp add: device_oids_def)
  then show "oids_ok (device_oids stats type)" by (rule oids_ok_subset [OF sw_full_ok device_oids_part])
  show "device_oids stats type \<noteq> []"
    by (simp add: device_oids_def sw_oids_full_def sw_oids_basic_def nic_oids_full_def nic_oids_basic_def nic_oids_def lldp_oids_def)
qed

subsection \<open>An exchange\<close>

text \<open>
  C12.  The exchange with a device that answers as SNMP says, however it splits its rows into responses, ends
  after at most as many rounds as there are variables asked for and rows in the MIB, and what it has
  collected is, in the order of the variables, every row of the device under each variable once and in
  order; of a variable of the entity MIB, for which the query is not continued, some first rows.
\<close>

theorem exchange_collects_rows:
  assumes "mib_ok (device_oids stats type) mib" and "agent_ok mib agent" and "\<And>q. send q"
    and "length (device_oids stats type) + length mib \<le> n"
  shows "\<exists>bs. exchange n send agent (start_query send (device_oids stats type)) = Some (Collected (map result_of (concat bs))) \<and>
    list_all2 (\<lambda>x b. b = subtree mib x \<or> match_oid (so_oid entPhysical) (so_oid x) \<and> (\<exists>t. subtree mib x = b @ t))
      (device_oids stats type) bs"
proof -
  let ?oids = "device_oids stats type"
  have send: "\<forall>q. send q" using assms(3) by simp
  have "cost mib ?oids \<le> n" using cost_rows [OF device_oids_ok(1)] assms(4) le_trans by blast
  then have "progress mib ?oids n (start_query send ?oids)"
    by (rule progress_mono [OF start_progress [OF assms(1) device_oids_ok(2) send]])
  from exchange_ends [OF assms(1) device_oids_ok(1) assms(2) send this] show ?thesis
    unfolding blocks_ok_def block_ok_def by blast
qed

text \<open>A host with two interfaces, and an agent that sends two rows at a time.\<close>

definition host_mib :: mib where
  "host_mib = [([1, 3, 6, 1, 2, 1, 1, 5, 0], Octets ''h1''), ([1, 3, 6, 1, 2, 1, 2, 1, 0], Integer 2),
     ([1, 3, 6, 1, 2, 1, 2, 2, 1, 1, 1], Integer 1), ([1, 3, 6, 1, 2, 1, 2, 2, 1, 1, 2], Integer 2),
     ([1, 3, 6, 1, 2, 1, 2, 2, 1, 3, 1], Integer 24), ([1, 3, 6, 1, 2, 1, 2, 2, 1, 3, 2], Integer 6)]"

fun host_agent :: "snmp_query \<Rightarrow> answer" where
  "host_agent (GET v) = Response [(v, case map_of host_mib v of Some x \<Rightarrow> Value x | None \<Rightarrow> NOSUCHOBJECT)]"
| "host_agent (GETBULK v n) = Response (take 2 (bulk_answer host_mib v n))"

lemma host_agent_ok: "agent_ok host_mib host_agent"
  unfolding agent_ok_def by (auto intro: exI [of _ 2])

lemma host_mib_ok: "mib_ok (device_oids False NODE_FI) host_mib"
  by code_simp

theorem exchange_collects_rows_witness:
  "\<exists>bs. exchange 18 (\<lambda>_. True) host_agent (start_query (\<lambda>_. True) nic_oids_basic) = Some (Collected (map result_of (concat bs))) \<and>
     length bs = 12 \<and> bs ! 3 = subtree host_mib ifIndex"
proof -
  have d: "device_oids False NODE_FI = nic_oids_basic" "length nic_oids_basic = 12" "nic_oids_basic ! 3 = ifIndex"
    "length (device_oids False NODE_FI) + length host_mib \<le> 18" "\<not> match_oid (so_oid entPhysical) (so_oid ifIndex)"
    by code_simp+
  from exchange_collects_rows [OF host_mib_ok host_agent_ok TrueI d(4)] obtain bs where
    bs: "exchange 18 (\<lambda>_. True) host_agent (start_query (\<lambda>_. True) nic_oids_basic) = Some (Collected (map result_of (concat bs)))"
    "list_all2 (\<lambda>x b. b = subtree host_mib x \<or> match_oid (so_oid entPhysical) (so_oid x) \<and> (\<exists>t. subtree host_mib x = b @ t))
      nic_oids_basic bs" unfolding d(1) by blast
  have "length bs = 12" using list_all2_lengthD [OF bs(2)] d(2) by simp
  then show ?thesis using bs(1) list_all2_nthD [OF bs(2), of 3] d(2,3,5) by auto
qed

end
