(* ===== verification/QList.thy ===== *)
theory QList
  imports Prelude "HOL-Library.Monad_Syntax"
begin

text \<open>
  The doubly linked lists of \<^verbatim>\<open>IbAccess/Common/Public/ilist.h\<close> and
  \<^verbatim>\<open>ilist.c\<close>: the quick list, a ring of items that the caller owns, and the locked
  quick list.

  An address is a number of bytes, 0 is NULL.  A \<^verbatim>\<open>QUICK_LIST\<close> is the address of
  its head item \<^verbatim>\<open>m_Head\<close>, its first field.  The heap has one function for each
  field.  Every access checks for NULL, and following NULL is the result \<open>None\<close>, like a walk that
  does not end.  The functions a caller passes in do not change the lists: one that searches is a
  predicate on the address of the item, one that is applied has a state of its own.  Memory is
  allocated in the theory \<open>DList\<close>; the fields \<open>allocs\<close> and \<open>live\<close> are explained there.
\<close>

type_synonym laddr = nat

abbreviation NULL :: laddr where "NULL \<equiv> 0"

record lheap =
  pNextItem :: "laddr \<Rightarrow> laddr"
  pPrevItem :: "laddr \<Rightarrow> laddr"
  pObject :: "laddr \<Rightarrow> laddr"
  m_Count :: "laddr \<Rightarrow> uint32"
  m_Lock :: "laddr \<Rightarrow> bool"
  m_pObjMgr :: "laddr \<Rightarrow> laddr"
  MinItems :: "laddr \<Rightarrow> uint32"
  GrowItems :: "laddr \<Rightarrow> uint32"
  m_Initialized :: "laddr \<Rightarrow> bool"
  allocs :: "laddr list"
  live :: "(laddr \<times> nat) list"

definition get_next :: "laddr \<Rightarrow> lheap \<Rightarrow> laddr option" where
  "get_next a h = (if a = NULL then None else Some (pNextItem h a))"

definition get_prev :: "laddr \<Rightarrow> lheap \<Rightarrow> laddr option" where
  "get_prev a h = (if a = NULL then None else Some (pPrevItem h a))"

definition get_obj :: "laddr \<Rightarrow> lheap \<Rightarrow> laddr option" where
  "get_obj a h = (if a = NULL then None else Some (pObject h a))"

definition put_next :: "laddr \<Rightarrow> laddr \<Rightarrow> lheap \<Rightarrow> lheap option" where
  "put_next a v h = (if a = NULL then None else Some (h\<lparr>pNextItem := (pNextItem h)(a := v)\<rparr>))"

definition put_prev :: "laddr \<Rightarrow> laddr \<Rightarrow> lheap \<Rightarrow> lheap option" where
  "put_prev a v h = (if a = NULL then None else Some (h\<lparr>pPrevItem := (pPrevItem h)(a := v)\<rparr>))"

definition put_obj :: "laddr \<Rightarrow> laddr \<Rightarrow> lheap \<Rightarrow> lheap option" where
  "put_obj a v h = (if a = NULL then None else Some (h\<lparr>pObject := (pObject h)(a := v)\<rparr>))"

definition put_count :: "laddr \<Rightarrow> uint32 \<Rightarrow> lheap \<Rightarrow> lheap" where
  "put_count a v h = h\<lparr>m_Count := (m_Count h)(a := v)\<rparr>"

subsection \<open>Items\<close>

definition PrimitiveInsert :: "laddr \<Rightarrow> laddr \<Rightarrow> lheap \<Rightarrow> lheap option" where
  "PrimitiveInsert pListItem pNewItem h = do {
     h \<leftarrow> put_next pNewItem pListItem h;
     p \<leftarrow> get_prev pListItem h;
     h \<leftarrow> put_prev pNewItem p h;
     h \<leftarrow> put_prev pListItem pNewItem h;
     p \<leftarrow> get_prev pNewItem h;
     put_next p pNewItem h }"

definition PrimitiveRemove :: "laddr \<Rightarrow> lheap \<Rightarrow> lheap option" where
  "PrimitiveRemove pListItem h = do {
     n \<leftarrow> get_next pListItem h;
     p \<leftarrow> get_prev pListItem h;
     h \<leftarrow> put_prev n p h;
     p \<leftarrow> get_prev pListItem h;
     n \<leftarrow> get_next pListItem h;
     h \<leftarrow> put_next p n h;
     h \<leftarrow> put_next pListItem NULL h;
     put_prev pListItem NULL h }"

definition ListItemIsInAList :: "laddr \<Rightarrow> lheap \<Rightarrow> bool option" where
  "ListItemIsInAList pListItem h = do { n \<leftarrow> get_next pListItem h; Some (n \<noteq> NULL) }"

definition ListItemInitState :: "laddr \<Rightarrow> lheap \<Rightarrow> lheap option" where
  "ListItemInitState pListItem h = do { h \<leftarrow> put_next pListItem NULL h; put_prev pListItem NULL h }"

definition QListSetObj :: "laddr \<Rightarrow> laddr \<Rightarrow> lheap \<Rightarrow> lheap option" where
  "QListSetObj pListItem obj h = put_obj pListItem obj h"

definition QListObj :: "laddr \<Rightarrow> lheap \<Rightarrow> laddr option" where
  "QListObj pListItem h = get_obj pListItem h"

subsection \<open>Single operations\<close>

definition QListRemoveAll :: "laddr \<Rightarrow> lheap \<Rightarrow> lheap option" where
  "QListRemoveAll l h = do {
     h \<leftarrow> put_next l l h;
     h \<leftarrow> put_prev l l h;
     Some (put_count l 0 h) }"

definition QListInit :: "laddr \<Rightarrow> lheap \<Rightarrow> (bool \<times> lheap) option" where
  "QListInit l h = do { h \<leftarrow> QListRemoveAll l h; Some (True, h) }"

definition QListDestroy :: "laddr \<Rightarrow> lheap \<Rightarrow> lheap option" where
  "QListDestroy l h = QListRemoveAll l h"

definition QListIsEmpty :: "laddr \<Rightarrow> lheap \<Rightarrow> bool" where
  "QListIsEmpty l h \<longleftrightarrow> m_Count h l = 0"

definition QListCount :: "laddr \<Rightarrow> lheap \<Rightarrow> uint32" where
  "QListCount l h = m_Count h l"

definition QListInsertHead :: "laddr \<Rightarrow> laddr \<Rightarrow> lheap \<Rightarrow> lheap option" where
  "QListInsertHead l pListItem h = do {
     n \<leftarrow> get_next l h;
     h \<leftarrow> PrimitiveInsert n pListItem h;
     Some (put_count l (m_Count h l + 1) h) }"

definition QListInsertTail :: "laddr \<Rightarrow> laddr \<Rightarrow> lheap \<Rightarrow> lheap option" where
  "QListInsertTail l pListItem h = do {
     h \<leftarrow> PrimitiveInsert l pListItem h;
     Some (put_count l (m_Count h l + 1) h) }"

definition QListInsertPrev :: "laddr \<Rightarrow> laddr \<Rightarrow> laddr \<Rightarrow> lheap \<Rightarrow> lheap option" where
  "QListInsertPrev l pListItem pNewItem h = do {
     h \<leftarrow> PrimitiveInsert pListItem pNewItem h;
     Some (put_count l (m_Count h l + 1) h) }"

definition QListInsertNext :: "laddr \<Rightarrow> laddr \<Rightarrow> laddr \<Rightarrow> lheap \<Rightarrow> lheap option" where
  "QListInsertNext l pListItem pNewItem h = do {
     n \<leftarrow> get_next pListItem h;
     h \<leftarrow> PrimitiveInsert n pNewItem h;
     Some (put_count l (m_Count h l + 1) h) }"

definition QListHead :: "laddr \<Rightarrow> lheap \<Rightarrow> laddr option" where
  "QListHead l h = (if QListIsEmpty l h then Some NULL else get_next l h)"

definition QListTail :: "laddr \<Rightarrow> lheap \<Rightarrow> laddr option" where
  "QListTail l h = (if QListIsEmpty l h then Some NULL else get_prev l h)"

definition QListPrev :: "laddr \<Rightarrow> laddr \<Rightarrow> lheap \<Rightarrow> laddr option" where
  "QListPrev l pListItem h = do { p \<leftarrow> get_prev pListItem h; Some (if p \<noteq> l then p else NULL) }"

definition QListNext :: "laddr \<Rightarrow> laddr \<Rightarrow> lheap \<Rightarrow> laddr option" where
  "QListNext l pListItem h = do { n \<leftarrow> get_next pListItem h; Some (if n = l then NULL else n) }"

definition QListRemoveHead :: "laddr \<Rightarrow> lheap \<Rightarrow> (laddr \<times> lheap) option" where
  "QListRemoveHead l h =
     (if m_Count h l = 0 then Some (NULL, h)
      else do {
        pItem \<leftarrow> get_next l h;
        h \<leftarrow> PrimitiveRemove pItem h;
        Some (pItem, put_count l (m_Count h l - 1) h) })"

definition QListRemoveTail :: "laddr \<Rightarrow> lheap \<Rightarrow> (laddr \<times> lheap) option" where
  "QListRemoveTail l h =
     (if QListIsEmpty l h then Some (NULL, h)
      else do {
        pItem \<leftarrow> get_prev l h;
        h \<leftarrow> PrimitiveRemove pItem h;
        Some (pItem, put_count l (m_Count h l - 1) h) })"

definition QListRemoveItem :: "laddr \<Rightarrow> laddr \<Rightarrow> lheap \<Rightarrow> lheap option" where
  "QListRemoveItem l pListItem h = do {
     h \<leftarrow> PrimitiveRemove pListItem h;
     Some (put_count l (m_Count h l - 1) h) }"

subsection \<open>Walks\<close>

text \<open>\<open>find_from step P x\<close>: the first item from \<open>x\<close> on that has \<open>P\<close>, NULL if there is none.\<close>

partial_function (option) find_from :: "(laddr \<Rightarrow> laddr option) \<Rightarrow> (laddr \<Rightarrow> bool) \<Rightarrow> laddr \<Rightarrow> laddr option" where
  "find_from step P x =
     (if x = NULL then Some NULL
      else if P x then Some x
      else do { x' \<leftarrow> step x; find_from step P x' })"

definition QListIsItemInList :: "laddr \<Rightarrow> laddr \<Rightarrow> lheap \<Rightarrow> bool option" where
  "QListIsItemInList l pListItem h = do {
     x \<leftarrow> QListHead l h;
     r \<leftarrow> find_from (\<lambda>x. QListNext l x h) (\<lambda>x. x = pListItem) x;
     Some (r \<noteq> NULL) }"

text \<open>The test of the two searches: the function given, or the comparison with the object.\<close>

definition find_test :: "(laddr \<Rightarrow> bool) option \<Rightarrow> laddr \<Rightarrow> lheap \<Rightarrow> laddr \<Rightarrow> bool" where
  "find_test pfnFunc ctx h x = (case pfnFunc of Some f \<Rightarrow> f x | None \<Rightarrow> pObject h x = ctx)"

definition QListFindFromHead :: "laddr \<Rightarrow> (laddr \<Rightarrow> bool) option \<Rightarrow> laddr \<Rightarrow> lheap \<Rightarrow> laddr option" where
  "QListFindFromHead l pfnFunc ctx h = do {
     x \<leftarrow> QListHead l h;
     find_from (\<lambda>x. QListNext l x h) (find_test pfnFunc ctx h) x }"

definition QListFindFromTail :: "laddr \<Rightarrow> (laddr \<Rightarrow> bool) option \<Rightarrow> laddr \<Rightarrow> lheap \<Rightarrow> laddr option" where
  "QListFindFromTail l pfnFunc ctx h = do {
     x \<leftarrow> QListTail l h;
     find_from (\<lambda>x. QListPrev l x h) (find_test pfnFunc ctx h) x }"

definition QListSafeRemoveItem :: "laddr \<Rightarrow> laddr \<Rightarrow> lheap \<Rightarrow> (bool \<times> lheap) option" where
  "QListSafeRemoveItem l pListItem h = do {
     b \<leftarrow> QListIsItemInList l pListItem h;
     if b then do {
       h \<leftarrow> PrimitiveRemove pListItem h;
       Some (True, put_count l (m_Count h l - 1) h) }
     else Some (False, h) }"

primrec walk :: "laddr \<Rightarrow> lheap \<Rightarrow> nat \<Rightarrow> laddr \<Rightarrow> laddr option" where
  "walk l h 0 x = Some x"
| "walk l h (Suc i) x =
     (if x = NULL then Some NULL else do { x' \<leftarrow> QListNext l x h; walk l h i x' })"

definition QListGetItemAt :: "laddr \<Rightarrow> uint32 \<Rightarrow> lheap \<Rightarrow> laddr option" where
  "QListGetItemAt l Index h =
     (if m_Count h l \<le> Index then Some NULL
      else do { x \<leftarrow> QListHead l h; walk l h (unat Index) x })"

partial_function (option) apply_from :: "laddr \<Rightarrow> lheap \<Rightarrow> (laddr \<Rightarrow> 's \<Rightarrow> 's) \<Rightarrow> laddr \<Rightarrow> 's \<Rightarrow> 's option" where
  "apply_from l h f x s =
     (if x = NULL then Some s
      else do { x' \<leftarrow> QListNext l x h; apply_from l h f x' (f x s) })"

definition QListApplyFunc :: "laddr \<Rightarrow> (laddr \<Rightarrow> 's \<Rightarrow> 's) \<Rightarrow> 's \<Rightarrow> lheap \<Rightarrow> 's option" where
  "QListApplyFunc l f s h = do { x \<leftarrow> QListHead l h; apply_from l h f x s }"

subsection \<open>Arrays and lists of items\<close>

text \<open>
  The item at an index of an array of items.  \<open>ItemSize * (ItemCount - 1)\<close> is a product of 32-bit
  numbers; the additions and subtractions of \<open>ItemSize\<close> are made on pointers.
\<close>

primrec insert_heads :: "laddr \<Rightarrow> nat \<Rightarrow> laddr \<Rightarrow> uint32 \<Rightarrow> lheap \<Rightarrow> lheap option" where
  "insert_heads l 0 pItem ItemSize h = Some h"
| "insert_heads l (Suc n) pItem ItemSize h = do {
     h \<leftarrow> QListInsertHead l pItem h;
     insert_heads l n (pItem - unat ItemSize) ItemSize h }"

definition QListInsertArrayHead :: "laddr \<Rightarrow> laddr \<Rightarrow> uint32 \<Rightarrow> uint32 \<Rightarrow> lheap \<Rightarrow> lheap option" where
  "QListInsertArrayHead l pArray ItemCount ItemSize h =
     insert_heads l (unat ItemCount) (pArray + unat (ItemSize * (ItemCount - 1))) ItemSize h"

primrec insert_tails :: "laddr \<Rightarrow> nat \<Rightarrow> laddr \<Rightarrow> uint32 \<Rightarrow> lheap \<Rightarrow> lheap option" where
  "insert_tails l 0 pItem ItemSize h = Some h"
| "insert_tails l (Suc n) pItem ItemSize h = do {
     h \<leftarrow> QListInsertTail l pItem h;
     insert_tails l n (pItem + unat ItemSize) ItemSize h }"

definition QListInsertArrayTail :: "laddr \<Rightarrow> laddr \<Rightarrow> uint32 \<Rightarrow> uint32 \<Rightarrow> lheap \<Rightarrow> lheap option" where
  "QListInsertArrayTail l pArray ItemCount ItemSize h = insert_tails l (unat ItemCount) pArray ItemSize h"

definition QListInsertListHead :: "laddr \<Rightarrow> laddr \<Rightarrow> lheap \<Rightarrow> lheap option" where
  "QListInsertListHead pDestList pSrcList h =
     (if QListIsEmpty pSrcList h then Some h
      else do {
        t \<leftarrow> get_prev pSrcList h;
        n \<leftarrow> get_next pDestList h;
        h \<leftarrow> put_next t n h;
        n \<leftarrow> get_next pDestList h;
        t \<leftarrow> get_prev pSrcList h;
        h \<leftarrow> put_prev n t h;
        n \<leftarrow> get_next pSrcList h;
        h \<leftarrow> put_next pDestList n h;
        n \<leftarrow> get_next pDestList h;
        h \<leftarrow> put_prev n pDestList h;
        QListRemoveAll pSrcList (put_count pDestList (m_Count h pDestList + m_Count h pSrcList) h) })"

definition QListInsertListTail :: "laddr \<Rightarrow> laddr \<Rightarrow> lheap \<Rightarrow> lheap option" where
  "QListInsertListTail pDestList pSrcList h =
     (if QListIsEmpty pSrcList h then Some h
      else do {
        t \<leftarrow> get_prev pDestList h;
        n \<leftarrow> get_next pSrcList h;
        h \<leftarrow> put_next t n h;
        n \<leftarrow> get_next pSrcList h;
        t \<leftarrow> get_prev pDestList h;
        h \<leftarrow> put_prev n t h;
        t \<leftarrow> get_prev pSrcList h;
        h \<leftarrow> put_prev pDestList t h;
        t \<leftarrow> get_prev pDestList h;
        h \<leftarrow> put_next t pDestList h;
        QListRemoveAll pSrcList (put_count pDestList (m_Count h pDestList + m_Count h pSrcList) h) })"

partial_function (option) move_from ::
    "laddr \<Rightarrow> laddr \<Rightarrow> (laddr \<Rightarrow> bool) \<Rightarrow> laddr \<Rightarrow> lheap \<Rightarrow> lheap option" where
  "move_from pSrcList pDestList pfnFunc x h =
     (if x = NULL then Some h
      else do {
        x' \<leftarrow> QListNext pSrcList x h;
        h \<leftarrow> (if pfnFunc x
               then do { h \<leftarrow> QListRemoveItem pSrcList x h; QListInsertTail pDestList x h }
               else Some h);
        move_from pSrcList pDestList pfnFunc x' h })"

definition QListMoveItems :: "laddr \<Rightarrow> laddr \<Rightarrow> (laddr \<Rightarrow> bool) \<Rightarrow> lheap \<Rightarrow> lheap option" where
  "QListMoveItems pSrcList pDestList pfnFunc h = do {
     x \<leftarrow> QListHead pSrcList h;
     move_from pSrcList pDestList pfnFunc x h }"

end
