(* ===== verification/QList_Inv.thy ===== *)
theory QList_Inv
  imports QList
begin

text \<open>
  When a heap holds a list: the head and the items form a ring, the count is its length.  Each
  operation of the quick list is shown to return, to change the sequence of the items as it should and
  to leave every item and list alone that is not involved.
\<close>

subsection \<open>Chains\<close>

definition chain :: "(laddr \<Rightarrow> laddr) \<Rightarrow> (laddr \<Rightarrow> laddr) \<Rightarrow> laddr list \<Rightarrow> bool" where
  "chain nx pv = successively (\<lambda>x y. nx x = y \<and> pv y = x)"

lemma chain_simps [simp]:
  "chain nx pv []"
  "chain nx pv [x]"
  "chain nx pv (x # y # zs) \<longleftrightarrow> nx x = y \<and> pv y = x \<and> chain nx pv (y # zs)"
  by (auto simp: chain_def)

lemma chain_append:
  "chain nx pv (xs @ ys) \<longleftrightarrow> chain nx pv xs \<and> chain nx pv ys \<and>
     (xs \<noteq> [] \<and> ys \<noteq> [] \<longrightarrow> nx (last xs) = hd ys \<and> pv (hd ys) = last xs)"
  by (auto simp: chain_def successively_append_iff)

lemma chain_join:
  "chain nx pv xs \<Longrightarrow> chain nx pv ys \<Longrightarrow> nx (last xs) = hd ys \<Longrightarrow> pv (hd ys) = last xs \<Longrightarrow>
   chain nx pv (xs @ ys)"
  by (simp add: chain_append)

lemma chain_next [simp]: "c \<notin> set (butlast xs) \<Longrightarrow> chain (nx(c := v)) pv xs = chain nx pv xs"
  by (induction xs rule: induct_list012) auto

lemma chain_prev [simp]: "c \<notin> set (tl xs) \<Longrightarrow> chain nx (pv(c := v)) xs = chain nx pv xs"
  by (induction xs rule: induct_list012) auto

lemma chain_cong:
  assumes "\<And>x. x \<in> set xs \<Longrightarrow> nx' x = nx x" "\<And>x. x \<in> set xs \<Longrightarrow> pv' x = pv x"
  shows "chain nx' pv' xs = chain nx pv xs"
  using assms by (induction xs rule: induct_list012) auto

definition ring :: "lheap \<Rightarrow> laddr \<Rightarrow> laddr list \<Rightarrow> bool" where
  "ring h l xs \<longleftrightarrow> chain (pNextItem h) (pPrevItem h) (l # xs @ [l])"

lemma ring_split:
  "ring h l (xs @ ys) \<longleftrightarrow>
     chain (pNextItem h) (pPrevItem h) (l # xs) \<and> chain (pNextItem h) (pPrevItem h) (ys @ [l]) \<and>
     pNextItem h (last (l # xs)) = hd (ys @ [l]) \<and> pPrevItem h (hd (ys @ [l])) = last (l # xs)"
  using chain_append [of "pNextItem h" "pPrevItem h" "l # xs" "ys @ [l]"] by (simp add: ring_def)

definition qlist :: "lheap \<Rightarrow> laddr \<Rightarrow> laddr list \<Rightarrow> bool" where
  "qlist h l xs \<longleftrightarrow> ring h l xs \<and> distinct (l # xs) \<and> NULL \<notin> set (l # xs) \<and>
     length xs < 2 ^ 32 \<and> m_Count h l = of_nat (length xs)"

lemma qlist_count: "qlist h l xs \<Longrightarrow> unat (m_Count h l) = length xs"
  by (simp add: qlist_def unsigned_of_nat take_bit_nat_eq_self)

lemma qlist_empty: "qlist h l xs \<Longrightarrow> m_Count h l = 0 \<longleftrightarrow> xs = []"
  using qlist_count [of h l xs] by (auto simp: qlist_def)

lemma qlist_ends:
  assumes "qlist h l xs"
  shows "pNextItem h l = hd (xs @ [l])" "pPrevItem h l = last (l # xs)"
  using assms ring_split [of h l "[]" xs] ring_split [of h l xs "[]"] by (auto simp: qlist_def)

lemma qlist_around:
  assumes "qlist h l (xs @ x # ys)"
  shows "pNextItem h x = hd (ys @ [l])" "pPrevItem h x = last (l # xs)"
  using assms ring_split [of h l xs "x # ys"] ring_split [of h l "xs @ [x]" ys]
  by (auto simp: qlist_def)

subsection \<open>What is left alone\<close>

definition outside :: "laddr set \<Rightarrow> lheap \<Rightarrow> lheap \<Rightarrow> bool" where
  "outside S h h' \<longleftrightarrow> (\<forall>a. a \<notin> S \<longrightarrow> pNextItem h' a = pNextItem h a \<and> pPrevItem h' a = pPrevItem h a \<and>
     m_Count h' a = m_Count h a) \<and>
   h' = h\<lparr>pNextItem := pNextItem h', pPrevItem := pPrevItem h', m_Count := m_Count h'\<rparr>"

lemma outside_refl [simp]: "outside S h h"
  by (simp add: outside_def)

lemma outside_fields:
  "outside S h h' \<Longrightarrow> pObject h' = pObject h \<and> m_Lock h' = m_Lock h \<and> m_pObjMgr h' = m_pObjMgr h \<and>
     MinItems h' = MinItems h \<and> GrowItems h' = GrowItems h \<and> m_Initialized h' = m_Initialized h \<and>
     allocs h' = allocs h \<and> live h' = live h"
  by (cases h; cases h') (simp add: outside_def)

lemma outside_at:
  "outside S h h' \<Longrightarrow> a \<notin> S \<Longrightarrow>
     pNextItem h' a = pNextItem h a \<and> pPrevItem h' a = pPrevItem h a \<and> m_Count h' a = m_Count h a"
  by (auto simp: outside_def)

lemma outside_I:
  assumes "\<And>a. a \<notin> S \<Longrightarrow> pNextItem h' a = pNextItem h a \<and> pPrevItem h' a = pPrevItem h a \<and> m_Count h' a = m_Count h a"
    and "h' = h\<lparr>pNextItem := pNextItem h', pPrevItem := pPrevItem h', m_Count := m_Count h'\<rparr>"
  shows "outside S h h'"
  using assms by (auto simp: outside_def)

lemma outside_mono: "outside S h h' \<Longrightarrow> S \<subseteq> T \<Longrightarrow> outside T h h'"
  by (auto simp: outside_def)

lemma outside_trans:
  assumes "outside S h h'" "outside T h' h''"
  shows "outside (S \<union> T) h h''"
proof (rule outside_I)
  show "pNextItem h'' a = pNextItem h a \<and> pPrevItem h'' a = pPrevItem h a \<and> m_Count h'' a = m_Count h a"
    if "a \<notin> S \<union> T" for a
    using that outside_at [OF assms(1)] outside_at [OF assms(2)] by auto
  show "h'' = h\<lparr>pNextItem := pNextItem h'', pPrevItem := pPrevItem h'', m_Count := m_Count h''\<rparr>"
    using outside_fields [OF assms(1)] outside_fields [OF assms(2)]
    by (cases h; cases h''; cases h') simp
qed

lemma qlist_outside:
  assumes "qlist h m ys" "outside S h h'" "set (m # ys) \<inter> S = {}"
  shows "qlist h' m ys"
proof -
  have at: "pNextItem h' a = pNextItem h a \<and> pPrevItem h' a = pPrevItem h a \<and> m_Count h' a = m_Count h a"
    if "a \<in> set (m # ys)" for a
    using outside_at [OF assms(2)] that assms(3) by blast
  have "chain (pNextItem h') (pPrevItem h') (m # ys @ [m]) = chain (pNextItem h) (pPrevItem h) (m # ys @ [m])"
    by (rule chain_cong) (use at in auto)
  with assms(1) at [of m] show ?thesis by (simp add: qlist_def ring_def)
qed

subsection \<open>The two primitive operations\<close>

lemma insert_result:
  assumes "b \<noteq> NULL" "n \<noteq> NULL" "n \<noteq> b" "pPrevItem h b \<noteq> NULL"
  shows "PrimitiveInsert b n h =
    Some (h\<lparr>pNextItem := (pNextItem h)(n := b, pPrevItem h b := n),
            pPrevItem := (pPrevItem h)(n := pPrevItem h b, b := n)\<rparr>)"
  using assms by (simp add: PrimitiveInsert_def put_next_def put_prev_def get_prev_def)

lemma remove_result:
  assumes "x \<noteq> NULL" "pNextItem h x \<noteq> NULL" "pPrevItem h x \<noteq> NULL" "pNextItem h x \<noteq> x" "pPrevItem h x \<noteq> x"
  shows "PrimitiveRemove x h =
    Some (h\<lparr>pNextItem := (pNextItem h)(pPrevItem h x := pNextItem h x, x := NULL),
            pPrevItem := (pPrevItem h)(pNextItem h x := pPrevItem h x, x := NULL)\<rparr>)"
  using assms by (simp add: PrimitiveRemove_def put_next_def put_prev_def get_prev_def get_next_def)

lemma insert_at:
  assumes q: "qlist h l (xs @ ys)" and n: "n \<notin> set (l # xs @ ys)" "n \<noteq> NULL"
    and len: "Suc (length (xs @ ys)) < 2 ^ 32"
  shows "\<exists>h1. PrimitiveInsert (hd (ys @ [l])) n h = Some h1 \<and>
    qlist (put_count l (m_Count h1 l + 1) h1) l (xs @ n # ys) \<and>
    outside (set (l # n # xs @ ys)) h (put_count l (m_Count h1 l + 1) h1)"
proof -
  define a where "a = last (l # xs)"
  define b where "b = hd (ys @ [l])"
  have d: "distinct (l # xs @ ys)" "NULL \<notin> set (l # xs @ ys)" "m_Count h l = of_nat (length (xs @ ys))"
    using q by (auto simp: qlist_def)
  have r: "chain (pNextItem h) (pPrevItem h) (l # xs)" "chain (pNextItem h) (pPrevItem h) (ys @ [l])"
    "pNextItem h a = b" "pPrevItem h b = a"
    using q unfolding a_def b_def by (auto simp: qlist_def ring_split)
  have a_in: "a \<in> set (l # xs)" unfolding a_def by (rule last_in_set) simp
  have b_in: "b \<in> set (ys @ [l])" unfolding b_def by (rule hd_in_set) simp
  have nz: "c \<noteq> NULL" if "c \<in> set (l # xs @ ys)" for c using that d(2) by metis
  have ne: "a \<noteq> NULL" "b \<noteq> NULL" "n \<noteq> a" "n \<noteq> b" using a_in b_in nz [of a] nz [of b] n(1) by auto
  let ?h = "h\<lparr>pNextItem := (pNextItem h)(n := b, a := n), pPrevItem := (pPrevItem h)(n := a, b := n)\<rparr>"
  have res: "PrimitiveInsert b n h = Some ?h"
    using insert_result [of b n h] ne n(2) r(4) by simp
  have c1: "chain (pNextItem ?h) (pPrevItem ?h) (l # xs)"
  proof -
    have "a \<notin> set (butlast (l # xs))"
      using d(1) unfolding a_def by (cases xs rule: rev_cases) auto
    moreover have "n \<notin> set (butlast (l # xs))" using n(1) by (auto dest: in_set_butlastD split: if_splits)
    moreover have "b \<notin> set xs" using b_in d(1) by auto
    moreover have "n \<notin> set xs" using n(1) by auto
    ultimately show ?thesis using r(1) by simp
  qed
  have c2: "chain (pNextItem ?h) (pPrevItem ?h) (ys @ [l])"
  proof -
    have "b \<notin> set (tl (ys @ [l]))" using d(1) unfolding b_def by (cases ys) auto
    moreover have "n \<notin> set (tl (ys @ [l]))" using n(1) by (cases ys) auto
    moreover have "a \<notin> set ys" using a_in d(1) by auto
    moreover have "n \<notin> set ys" using n(1) by auto
    ultimately show ?thesis using r(2) by simp
  qed
  have "chain (pNextItem ?h) (pPrevItem ?h) ([n] @ (ys @ [l]))"
    by (rule chain_join [OF _ c2]) (use ne b_def in auto)
  then have "chain (pNextItem ?h) (pPrevItem ?h) ((l # xs) @ ([n] @ (ys @ [l])))"
    by (rule chain_join [OF c1]) (use ne in \<open>auto simp: a_def [symmetric] simp del: last.simps\<close>)
  then have "ring ?h l (xs @ n # ys)" by (simp add: ring_def)
  then have "qlist (put_count l (m_Count ?h l + 1) ?h) l (xs @ n # ys)"
    using d n len by (auto simp: qlist_def put_count_def ring_def)
  moreover have "outside (set (l # n # xs @ ys)) h (put_count l (m_Count ?h l + 1) ?h)"
    by (rule outside_I) (use a_in b_in in \<open>auto simp: put_count_def\<close>)
  ultimately show ?thesis using res unfolding b_def by blast
qed

lemma remove_at:
  assumes q: "qlist h l (xs @ x # ys)"
  shows "\<exists>h1. PrimitiveRemove x h = Some h1 \<and>
    qlist (put_count l (m_Count h1 l - 1) h1) l (xs @ ys) \<and>
    outside (set (l # xs @ x # ys)) h (put_count l (m_Count h1 l - 1) h1) \<and>
    pNextItem h1 x = NULL \<and> pPrevItem h1 x = NULL"
proof -
  define a where "a = last (l # xs)"
  define b where "b = hd (ys @ [l])"
  have d: "distinct (l # xs @ x # ys)" "NULL \<notin> set (l # xs @ x # ys)" "m_Count h l = of_nat (length (xs @ x # ys))"
    using q by (auto simp: qlist_def)
  have r: "chain (pNextItem h) (pPrevItem h) (l # xs)" "chain (pNextItem h) (pPrevItem h) (ys @ [l])"
    using q ring_split [of h l xs "x # ys"] ring_split [of h l "xs @ [x]" ys] by (auto simp: qlist_def)
  have ends: "pNextItem h x = b" "pPrevItem h x = a"
    using qlist_around [OF q] by (auto simp: a_def b_def)
  have a_in: "a \<in> set (l # xs)" unfolding a_def by (rule last_in_set) simp
  have b_in: "b \<in> set (ys @ [l])" unfolding b_def by (rule hd_in_set) simp
  have nz: "c \<noteq> NULL" if "c \<in> set (l # xs @ x # ys)" for c using that d(2) by metis
  have ne: "a \<noteq> NULL" "b \<noteq> NULL" "x \<noteq> a" "x \<noteq> b" "x \<noteq> NULL"
    using a_in b_in d(1) nz [of a] nz [of b] nz [of x] by auto
  let ?h = "h\<lparr>pNextItem := (pNextItem h)(a := b, x := NULL), pPrevItem := (pPrevItem h)(b := a, x := NULL)\<rparr>"
  have res: "PrimitiveRemove x h = Some ?h"
    using remove_result [of x h] ne ends by simp
  have c1: "chain (pNextItem ?h) (pPrevItem ?h) (l # xs)"
  proof -
    have "a \<notin> set (butlast (l # xs))"
      using d(1) unfolding a_def by (cases xs rule: rev_cases) auto
    moreover have "x \<notin> set (butlast (l # xs))" using d(1) by (auto dest: in_set_butlastD split: if_splits)
    moreover have "b \<notin> set xs" using b_in d(1) by auto
    moreover have "x \<notin> set xs" using d(1) by auto
    ultimately show ?thesis using r(1) by simp
  qed
  have c2: "chain (pNextItem ?h) (pPrevItem ?h) (ys @ [l])"
  proof -
    have "b \<notin> set (tl (ys @ [l]))" using d(1) unfolding b_def by (cases ys) auto
    moreover have "x \<notin> set (tl (ys @ [l]))" using d(1) by (cases ys) auto
    moreover have "a \<notin> set ys" using a_in d(1) by auto
    moreover have "x \<notin> set ys" using d(1) by auto
    ultimately show ?thesis using r(2) by simp
  qed
  have "ring ?h l (xs @ ys)"
    unfolding ring_split a_def [symmetric] b_def [symmetric] using c1 c2 ne by auto
  then have "qlist (put_count l (m_Count ?h l - 1) ?h) l (xs @ ys)"
    using d q by (auto simp: qlist_def put_count_def ring_def)
  moreover have "outside (set (l # xs @ x # ys)) h (put_count l (m_Count ?h l - 1) ?h)"
    by (rule outside_I) (use a_in b_in in \<open>auto simp: put_count_def\<close>)
  ultimately show ?thesis using res by auto
qed

end
