(* ===== verification/QList_Ops.thy ===== *)
theory QList_Ops
  imports QList_Inv
begin

text \<open>
  The operations of the quick list in terms of the sequence of its items.
\<close>

subsection \<open>Insertion and removal\<close>

text \<open>\<open>becomes h h' l xs S\<close>: the list \<open>l\<close> is now \<open>xs\<close>, and only \<open>S\<close> has been written.\<close>

definition becomes :: "lheap \<Rightarrow> lheap \<Rightarrow> laddr \<Rightarrow> laddr list \<Rightarrow> laddr set \<Rightarrow> bool" where
  "becomes h h' l xs S \<longleftrightarrow> qlist h' l xs \<and> outside S h h'"

lemma insert_prev_ok:
  assumes "qlist h l (xs @ ys)" "n \<notin> set (l # xs @ ys)" "n \<noteq> NULL" "Suc (length (xs @ ys)) < 2 ^ 32"
  shows "\<exists>h'. QListInsertPrev l (hd (ys @ [l])) n h = Some h' \<and> becomes h h' l (xs @ n # ys) (set (l # n # xs @ ys))"
  using insert_at [OF assms] by (auto simp: QListInsertPrev_def becomes_def)

lemma insert_tail_ok:
  assumes "qlist h l xs" "n \<notin> set (l # xs)" "n \<noteq> NULL" "Suc (length xs) < 2 ^ 32"
  shows "\<exists>h'. QListInsertTail l n h = Some h' \<and> becomes h h' l (xs @ [n]) (set (l # n # xs))"
  using insert_prev_ok [of h l xs "[]" n] assms by (simp add: QListInsertTail_def QListInsertPrev_def)

lemma insert_head_ok:
  assumes "qlist h l xs" "n \<notin> set (l # xs)" "n \<noteq> NULL" "Suc (length xs) < 2 ^ 32"
  shows "\<exists>h'. QListInsertHead l n h = Some h' \<and> becomes h h' l (n # xs) (set (l # n # xs))"
  using insert_prev_ok [of h l "[]" xs n] qlist_ends (1) [OF assms(1)] assms
  by (simp add: QListInsertHead_def QListInsertPrev_def get_next_def qlist_def)

lemma insert_next_ok:
  assumes "qlist h l (xs @ x # ys)" "n \<notin> set (l # xs @ x # ys)" "n \<noteq> NULL" "Suc (length (xs @ x # ys)) < 2 ^ 32"
  shows "\<exists>h'. QListInsertNext l x n h = Some h' \<and> becomes h h' l (xs @ x # n # ys) (set (l # n # xs @ x # ys))"
proof -
  have "x \<noteq> NULL" using assms(1) by (auto simp: qlist_def)
  with insert_prev_ok [of h l "xs @ [x]" ys n] qlist_around (1) [OF assms(1)] assms show ?thesis
    by (simp add: QListInsertNext_def QListInsertPrev_def get_next_def)
qed

lemma remove_item_ok:
  assumes "qlist h l (xs @ x # ys)"
  shows "\<exists>h'. QListRemoveItem l x h = Some h' \<and> becomes h h' l (xs @ ys) (set (l # xs @ x # ys)) \<and>
    pNextItem h' x = NULL \<and> pPrevItem h' x = NULL"
  using remove_at [OF assms] by (auto simp: QListRemoveItem_def becomes_def put_count_def)

lemma remove_head_ok:
  assumes "qlist h l xs"
  shows "\<exists>h'. QListRemoveHead l h = Some (case xs of [] \<Rightarrow> NULL | x # _ \<Rightarrow> x, h') \<and>
    becomes h h' l (tl xs) (set (l # xs)) \<and> (xs \<noteq> [] \<longrightarrow> pNextItem h' (hd xs) = NULL)"
proof (cases xs)
  case Nil
  then show ?thesis using assms by (simp add: QListRemoveHead_def becomes_def qlist_empty [OF assms])
next
  case (Cons x ys)
  then have "pNextItem h l = x" "l \<noteq> NULL" "m_Count h l \<noteq> 0"
    using assms qlist_ends(1) [OF assms] qlist_empty [OF assms] by (auto simp: qlist_def)
  with remove_item_ok [of h l "[]" x ys] assms Cons show ?thesis
    by (auto simp: QListRemoveHead_def QListRemoveItem_def get_next_def split: Option.bind_splits)
qed

lemma remove_tail_ok:
  assumes "qlist h l xs"
  shows "\<exists>h'. QListRemoveTail l h = Some (if xs = [] then NULL else last xs, h') \<and>
    becomes h h' l (butlast xs) (set (l # xs)) \<and> (xs \<noteq> [] \<longrightarrow> pNextItem h' (last xs) = NULL)"
proof (cases xs rule: rev_cases)
  case Nil
  then show ?thesis using assms
    by (simp add: QListRemoveTail_def QListIsEmpty_def becomes_def qlist_empty [OF assms])
next
  case (snoc ys x)
  then have "pPrevItem h l = x" "l \<noteq> NULL" "m_Count h l \<noteq> 0"
    using assms qlist_ends(2) [OF assms] qlist_empty [OF assms] by (auto simp: qlist_def)
  with remove_item_ok [of h l ys x "[]"] assms snoc show ?thesis
    by (auto simp: QListRemoveTail_def QListIsEmpty_def QListRemoveItem_def get_prev_def split: Option.bind_splits)
qed

lemma remove_all_ok:
  assumes "l \<noteq> NULL"
  shows "\<exists>h'. QListRemoveAll l h = Some h' \<and> becomes h h' l [] {l} \<and>
    (\<forall>x. x \<noteq> l \<longrightarrow> pNextItem h' x = pNextItem h x)"
  using assms by (auto simp: QListRemoveAll_def put_next_def put_prev_def put_count_def becomes_def qlist_def
      ring_def outside_def)

subsection \<open>Walks\<close>

definition first :: "laddr list \<Rightarrow> laddr" where
  "first xs = (case xs of [] \<Rightarrow> NULL | x # _ \<Rightarrow> x)"

lemma first_simps [simp]: "first [] = NULL" "first (x # xs) = x"
  by (simp_all add: first_def)

lemma head_is_first: "qlist h l xs \<Longrightarrow> QListHead l h = Some (first xs)"
  using qlist_ends(1) [of h l xs] qlist_empty [of h l xs]
  by (cases xs) (auto simp: QListHead_def QListIsEmpty_def get_next_def qlist_def)

lemma tail_is_last: "qlist h l xs \<Longrightarrow> QListTail l h = Some (first (rev xs))"
  using qlist_ends(2) [of h l xs] qlist_empty [of h l xs]
  by (cases xs rule: rev_cases) (auto simp: QListTail_def QListIsEmpty_def get_prev_def qlist_def)

lemma next_is_first:
  assumes "qlist h l (xs @ x # ys)"
  shows "QListNext l x h = Some (first ys)"
proof -
  have "x \<noteq> NULL" "l \<notin> set ys" using assms by (auto simp: qlist_def)
  with qlist_around(1) [OF assms] show ?thesis
    by (cases ys) (auto simp: QListNext_def get_next_def)
qed

lemma prev_is_last:
  assumes "qlist h l (xs @ x # ys)"
  shows "QListPrev l x h = Some (first (rev xs))"
proof -
  have "x \<noteq> NULL" "l \<notin> set xs" using assms by (auto simp: qlist_def)
  with qlist_around(2) [OF assms] show ?thesis
    by (cases xs rule: rev_cases) (auto simp: QListPrev_def get_prev_def)
qed

definition found :: "(laddr \<Rightarrow> bool) \<Rightarrow> laddr list \<Rightarrow> laddr" where
  "found P xs = (case find P xs of None \<Rightarrow> NULL | Some x \<Rightarrow> x)"

lemma found_simps [simp]: "found P [] = NULL" "found P (x # xs) = (if P x then x else found P xs)"
  by (simp_all add: found_def)

lemma found_null: "NULL \<notin> set xs \<Longrightarrow> found P xs = NULL \<longleftrightarrow> (\<forall>x \<in> set xs. \<not> P x)"
  by (induction xs) auto

lemma find_from_next:
  assumes "qlist h l (xs @ ys)"
  shows "find_from (\<lambda>x. QListNext l x h) P (first ys) = Some (found P ys)"
  using assms
proof (induction ys arbitrary: xs)
  case Nil
  then show ?case by (simp add: find_from.simps)
next
  case (Cons y ys)
  then have "y \<noteq> NULL" by (auto simp: qlist_def)
  with Cons.IH [of "xs @ [y]"] Cons.prems next_is_first [OF Cons.prems] show ?case
    by (subst find_from.simps) simp
qed

lemma find_from_prev:
  assumes "qlist h l (rev ys @ xs)"
  shows "find_from (\<lambda>x. QListPrev l x h) P (first ys) = Some (found P ys)"
  using assms
proof (induction ys arbitrary: xs)
  case Nil
  then show ?case by (simp add: find_from.simps)
next
  case (Cons y ys)
  then have "y \<noteq> NULL" and q: "qlist h l (rev ys @ y # xs)" by (auto simp: qlist_def)
  with Cons.IH [OF q] prev_is_last [OF q] show ?case
    by (subst find_from.simps) simp
qed

lemma find_head_ok: "qlist h l xs \<Longrightarrow> QListFindFromHead l f ctx h = Some (found (find_test f ctx h) xs)"
  using find_from_next [of h l "[]" xs] by (simp add: QListFindFromHead_def head_is_first)

lemma find_tail_ok: "qlist h l xs \<Longrightarrow> QListFindFromTail l f ctx h = Some (found (find_test f ctx h) (rev xs))"
  using find_from_prev [of h l "rev xs" "[]"] by (simp add: QListFindFromTail_def tail_is_last)

lemma is_in_list_ok:
  assumes "qlist h l xs"
  shows "QListIsItemInList l x h = Some (x \<in> set xs)"
proof -
  have "NULL \<notin> set xs" using assms by (simp add: qlist_def)
  then have "found (\<lambda>y. y = x) xs \<noteq> NULL \<longleftrightarrow> x \<in> set xs" using found_null [of xs "\<lambda>y. y = x"] by auto
  with assms show ?thesis using find_from_next [of h l "[]" xs]
    by (simp add: QListIsItemInList_def head_is_first)
qed

lemma walk_ok:
  assumes "qlist h l (xs @ ys)"
  shows "walk l h i (first ys) = Some (if i < length ys then ys ! i else NULL)"
  using assms
proof (induction i arbitrary: xs ys)
  case 0
  then show ?case by (cases ys) auto
next
  case (Suc i)
  show ?case
  proof (cases ys)
    case Nil
    then show ?thesis by simp
  next
    case (Cons y zs)
    with Suc.prems have "y \<noteq> NULL" "QListNext l y h = Some (first zs)"
      using next_is_first [of h l xs y zs] by (auto simp: qlist_def)
    with Suc.IH [of "xs @ [y]" zs] Suc.prems Cons show ?thesis by simp
  qed
qed

lemma get_item_at_ok:
  assumes "qlist h l xs"
  shows "QListGetItemAt l i h = Some (if unat i < length xs then xs ! unat i else NULL)"
  using walk_ok [of h l "[]" xs "unat i"] assms qlist_count [OF assms] head_is_first [OF assms]
  by (auto simp: QListGetItemAt_def word_le_nat_alt)

lemma apply_from_ok:
  assumes "qlist h l (xs @ ys)"
  shows "apply_from l h f (first ys) s = Some (fold f ys s)"
  using assms
proof (induction ys arbitrary: xs s)
  case Nil
  then show ?case by (simp add: apply_from.simps)
next
  case (Cons y ys)
  then have "y \<noteq> NULL" by (auto simp: qlist_def)
  with Cons.IH [of "xs @ [y]"] Cons.prems next_is_first [OF Cons.prems] show ?case
    by (subst apply_from.simps) simp
qed

lemma apply_ok: "qlist h l xs \<Longrightarrow> QListApplyFunc l f s h = Some (fold f xs s)"
  using apply_from_ok [of h l "[]" xs] by (simp add: QListApplyFunc_def head_is_first)

end
