(* ===== verification/LQList.thy ===== *)
theory LQList
  imports QList_Ops
begin

text \<open>
  The locked quick list of \<^verbatim>\<open>IbAccess/Common/Public/ilist.h\<close> and
  \<^verbatim>\<open>ilist.c\<close>: every function takes the lock, calls the function of the quick list and releases
  the lock.  A thread that takes a lock it holds does not return.  The two functions that chain a list
  to another one have two critical sections, so that the items are in neither list in between; the
  sections are definitions of their own, and the theory \<open>LQList_Props\<close> lets others run between them.
\<close>

definition SpinLockAcquire :: "laddr \<Rightarrow> lheap \<Rightarrow> lheap option" where
  "SpinLockAcquire l h = (if m_Lock h l then None else Some (h\<lparr>m_Lock := (m_Lock h)(l := True)\<rparr>))"

definition SpinLockRelease :: "laddr \<Rightarrow> lheap \<Rightarrow> lheap" where
  "SpinLockRelease l h = h\<lparr>m_Lock := (m_Lock h)(l := False)\<rparr>"

text \<open>A critical section that changes the list, one that changes it with a result, one that reads it.\<close>

definition locked_do :: "laddr \<Rightarrow> (lheap \<Rightarrow> lheap option) \<Rightarrow> lheap \<Rightarrow> lheap option" where
  "locked_do l f h = do { h \<leftarrow> SpinLockAcquire l h; h \<leftarrow> f h; Some (SpinLockRelease l h) }"

definition locked_get :: "laddr \<Rightarrow> (lheap \<Rightarrow> ('a \<times> lheap) option) \<Rightarrow> lheap \<Rightarrow> ('a \<times> lheap) option" where
  "locked_get l f h = do {
     h \<leftarrow> SpinLockAcquire l h;
     (r, h) \<leftarrow> f h;
     Some (r, SpinLockRelease l h) }"

definition locked_read :: "laddr \<Rightarrow> (lheap \<Rightarrow> 'a option) \<Rightarrow> lheap \<Rightarrow> ('a \<times> lheap) option" where
  "locked_read l f = locked_get l (\<lambda>h. do { r \<leftarrow> f h; Some (r, h) })"

definition LQListInit :: "laddr \<Rightarrow> bool \<Rightarrow> lheap \<Rightarrow> (bool \<times> lheap) option" where
  "LQListInit l lock_ok h =
     (if \<not> lock_ok then Some (False, h)
      else QListInit l (h\<lparr>m_Lock := (m_Lock h)(l := False)\<rparr>))"

definition LQListDestroy :: "laddr \<Rightarrow> lheap \<Rightarrow> lheap option" where
  "LQListDestroy l h = QListDestroy l h"

definition LQListIsEmpty :: "laddr \<Rightarrow> lheap \<Rightarrow> (bool \<times> lheap) option" where
  "LQListIsEmpty l = locked_read l (\<lambda>h. Some (QListIsEmpty l h))"

definition LQListCount :: "laddr \<Rightarrow> lheap \<Rightarrow> (uint32 \<times> lheap) option" where
  "LQListCount l = locked_read l (\<lambda>h. Some (QListCount l h))"

definition LQListIsItemInList :: "laddr \<Rightarrow> laddr \<Rightarrow> lheap \<Rightarrow> (bool \<times> lheap) option" where
  "LQListIsItemInList l pListItem = locked_read l (QListIsItemInList l pListItem)"

definition LQListInsertHead :: "laddr \<Rightarrow> laddr \<Rightarrow> lheap \<Rightarrow> lheap option" where
  "LQListInsertHead l pListItem = locked_do l (QListInsertHead l pListItem)"

definition LQListInsertTail :: "laddr \<Rightarrow> laddr \<Rightarrow> lheap \<Rightarrow> lheap option" where
  "LQListInsertTail l pListItem = locked_do l (QListInsertTail l pListItem)"

definition LQListInsertPrev :: "laddr \<Rightarrow> laddr \<Rightarrow> laddr \<Rightarrow> lheap \<Rightarrow> lheap option" where
  "LQListInsertPrev l pListItem pNewItem = locked_do l (QListInsertPrev l pListItem pNewItem)"

definition LQListInsertNext :: "laddr \<Rightarrow> laddr \<Rightarrow> laddr \<Rightarrow> lheap \<Rightarrow> lheap option" where
  "LQListInsertNext l pListItem pNewItem = locked_do l (QListInsertNext l pListItem pNewItem)"

definition LQListRemoveHead :: "laddr \<Rightarrow> lheap \<Rightarrow> (laddr \<times> lheap) option" where
  "LQListRemoveHead l = locked_get l (QListRemoveHead l)"

definition LQListRemoveTail :: "laddr \<Rightarrow> lheap \<Rightarrow> (laddr \<times> lheap) option" where
  "LQListRemoveTail l = locked_get l (QListRemoveTail l)"

definition LQListRemoveItem :: "laddr \<Rightarrow> laddr \<Rightarrow> lheap \<Rightarrow> lheap option" where
  "LQListRemoveItem l pListItem = locked_do l (QListRemoveItem l pListItem)"

definition LQListSafeRemoveItem :: "laddr \<Rightarrow> laddr \<Rightarrow> lheap \<Rightarrow> (bool \<times> lheap) option" where
  "LQListSafeRemoveItem l pListItem = locked_get l (QListSafeRemoveItem l pListItem)"

definition LQListRemoveAll :: "laddr \<Rightarrow> lheap \<Rightarrow> lheap option" where
  "LQListRemoveAll l = locked_do l (QListRemoveAll l)"

definition LQListInsertArrayHead :: "laddr \<Rightarrow> laddr \<Rightarrow> uint32 \<Rightarrow> uint32 \<Rightarrow> lheap \<Rightarrow> lheap option" where
  "LQListInsertArrayHead l pArray ItemCount ItemSize = locked_do l (QListInsertArrayHead l pArray ItemCount ItemSize)"

definition LQListInsertArrayTail :: "laddr \<Rightarrow> laddr \<Rightarrow> uint32 \<Rightarrow> uint32 \<Rightarrow> lheap \<Rightarrow> lheap option" where
  "LQListInsertArrayTail l pArray ItemCount ItemSize = locked_do l (QListInsertArrayTail l pArray ItemCount ItemSize)"

definition LQListGetItemAt :: "laddr \<Rightarrow> uint32 \<Rightarrow> lheap \<Rightarrow> (laddr \<times> lheap) option" where
  "LQListGetItemAt l Index = locked_read l (QListGetItemAt l Index)"

definition LQListFindFromHead :: "laddr \<Rightarrow> (laddr \<Rightarrow> bool) option \<Rightarrow> laddr \<Rightarrow> lheap \<Rightarrow> (laddr \<times> lheap) option" where
  "LQListFindFromHead l pfnFunc ctx = locked_read l (QListFindFromHead l pfnFunc ctx)"

definition LQListFindFromTail :: "laddr \<Rightarrow> (laddr \<Rightarrow> bool) option \<Rightarrow> laddr \<Rightarrow> lheap \<Rightarrow> (laddr \<times> lheap) option" where
  "LQListFindFromTail l pfnFunc ctx = locked_read l (QListFindFromTail l pfnFunc ctx)"

definition LQListApplyFunc :: "laddr \<Rightarrow> (laddr \<Rightarrow> 's \<Rightarrow> 's) \<Rightarrow> 's \<Rightarrow> lheap \<Rightarrow> ('s \<times> lheap) option" where
  "LQListApplyFunc l f s = locked_read l (QListApplyFunc l f s)"

definition LQListFindFromHeadAndRemove ::
    "laddr \<Rightarrow> (laddr \<Rightarrow> bool) option \<Rightarrow> laddr \<Rightarrow> lheap \<Rightarrow> (laddr \<times> lheap) option" where
  "LQListFindFromHeadAndRemove l pfnFunc ctx = locked_get l (\<lambda>h. do {
     x \<leftarrow> QListFindFromHead l pfnFunc ctx h;
     if x \<noteq> NULL then do { h \<leftarrow> QListRemoveItem l x h; Some (x, h) } else Some (x, h) })"

definition LQListFindFromTailAndRemove ::
    "laddr \<Rightarrow> (laddr \<Rightarrow> bool) option \<Rightarrow> laddr \<Rightarrow> lheap \<Rightarrow> (laddr \<times> lheap) option" where
  "LQListFindFromTailAndRemove l pfnFunc ctx = locked_get l (\<lambda>h. do {
     x \<leftarrow> QListFindFromTail l pfnFunc ctx h;
     if x \<noteq> NULL then do { h \<leftarrow> QListRemoveItem l x h; Some (x, h) } else Some (x, h) })"

subsection \<open>Chaining one list to another\<close>

text \<open>What the first section takes from the source list: head, tail and number of the items.\<close>

type_synonym taken = "laddr \<times> laddr \<times> uint32"

definition take_list :: "laddr \<Rightarrow> lheap \<Rightarrow> (taken option \<times> lheap) option" where
  "take_list pSrcList h =
     (if QListIsEmpty pSrcList h then Some (None, h)
      else do {
        pSrcHead \<leftarrow> get_next pSrcList h;
        pSrcTail \<leftarrow> get_prev pSrcList h;
        let SrcCount = m_Count h pSrcList;
        h \<leftarrow> QListRemoveAll pSrcList h;
        Some (Some (pSrcHead, pSrcTail, SrcCount), h) })"

fun chain_head :: "laddr \<Rightarrow> taken \<Rightarrow> lheap \<Rightarrow> lheap option" where
  "chain_head pDestList (pSrcHead, pSrcTail, SrcCount) h = do {
     n \<leftarrow> get_next pDestList h;
     h \<leftarrow> put_next pSrcTail n h;
     n \<leftarrow> get_next pDestList h;
     h \<leftarrow> put_prev n pSrcTail h;
     h \<leftarrow> put_next pDestList pSrcHead h;
     n \<leftarrow> get_next pDestList h;
     h \<leftarrow> put_prev n pDestList h;
     Some (put_count pDestList (m_Count h pDestList + SrcCount) h) }"

fun chain_tail :: "laddr \<Rightarrow> taken \<Rightarrow> lheap \<Rightarrow> lheap option" where
  "chain_tail pDestList (pSrcHead, pSrcTail, SrcCount) h = do {
     t \<leftarrow> get_prev pDestList h;
     h \<leftarrow> put_next t pSrcHead h;
     t \<leftarrow> get_prev pDestList h;
     h \<leftarrow> put_prev pSrcHead t h;
     h \<leftarrow> put_prev pDestList pSrcTail h;
     t \<leftarrow> get_prev pDestList h;
     h \<leftarrow> put_next t pDestList h;
     Some (put_count pDestList (m_Count h pDestList + SrcCount) h) }"

definition LQListInsertListHead :: "laddr \<Rightarrow> laddr \<Rightarrow> lheap \<Rightarrow> lheap option" where
  "LQListInsertListHead pDestList pSrcList h = do {
     (src, h) \<leftarrow> locked_get pSrcList (take_list pSrcList) h;
     case src of None \<Rightarrow> Some h | Some c \<Rightarrow> locked_do pDestList (chain_head pDestList c) h }"

definition LQListInsertListTail :: "laddr \<Rightarrow> laddr \<Rightarrow> lheap \<Rightarrow> lheap option" where
  "LQListInsertListTail pDestList pSrcList h = do {
     (src, h) \<leftarrow> locked_get pSrcList (take_list pSrcList) h;
     case src of None \<Rightarrow> Some h | Some c \<Rightarrow> locked_do pDestList (chain_tail pDestList c) h }"

end
