(* ===== verification/QList_Chains.thy ===== *)
theory QList_Chains
  imports LQList
begin

text \<open>
  The operations that move many items: arrays, whole lists, and the items a function selects.
\<close>

subsection \<open>Chaining lists\<close>

definition taken_ok :: "lheap \<Rightarrow> taken \<Rightarrow> laddr list \<Rightarrow> bool" where
  "taken_ok h c ys \<longleftrightarrow> ys \<noteq> [] \<and> c = (hd ys, last ys, of_nat (length ys)) \<and>
     chain (pNextItem h) (pPrevItem h) ys \<and> distinct ys \<and> NULL \<notin> set ys \<and> length ys < 2 ^ 32"

lemma taken_ok_outside:
  assumes "taken_ok h c ys" "outside S h h'" "set ys \<inter> S = {}"
  shows "taken_ok h' c ys"
proof -
  have "chain (pNextItem h') (pPrevItem h') ys = chain (pNextItem h) (pPrevItem h) ys"
    by (rule chain_cong) (use outside_at [OF assms(2)] assms(3) in blast)+
  with assms(1) show ?thesis by (simp add: taken_ok_def)
qed

lemma take_list_ok:
  assumes "qlist h s ys"
  shows "\<exists>h'. take_list s h = Some (if ys = [] then None else Some (hd ys, last ys, of_nat (length ys)), h') \<and>
    becomes h h' s [] {s} \<and> (ys \<noteq> [] \<longrightarrow> taken_ok h' (hd ys, last ys, of_nat (length ys)) ys)"
proof (cases "ys = []")
  case True
  with assms show ?thesis by (simp add: take_list_def QListIsEmpty_def qlist_empty [OF assms] becomes_def)
next
  case False
  have s: "s \<noteq> NULL" "s \<notin> set ys" using assms by (auto simp: qlist_def)
  obtain h' where h': "QListRemoveAll s h = Some h'" "becomes h h' s [] {s}"
    using remove_all_ok [OF s(1)] by blast
  have "chain (pNextItem h) (pPrevItem h) ys"
    using assms ring_split [of h s ys "[]"] by (cases ys) (auto simp: qlist_def ring_def)
  with assms False have "taken_ok h (hd ys, last ys, of_nat (length ys)) ys"
    by (auto simp: taken_ok_def qlist_def)
  then have "taken_ok h' (hd ys, last ys, of_nat (length ys)) ys"
    by (rule taken_ok_outside) (use h'(2) s in \<open>auto simp: becomes_def\<close>)
  with h' False s assms show ?thesis
    using qlist_ends [OF assms]
    by (auto simp: take_list_def QListIsEmpty_def qlist_empty [OF assms] get_next_def get_prev_def qlist_def)
qed

lemma chain_head_ok:
  assumes q: "qlist h d xs" and c: "taken_ok h c ys" and dis: "set (d # xs) \<inter> set ys = {}"
    and len: "length ys + length xs < 2 ^ 32"
  shows "\<exists>h'. chain_head d c h = Some h' \<and> becomes h h' d (ys @ xs) (set (d # ys @ xs))"
proof -
  define n where "n = hd ys"
  define t where "t = last ys"
  define b where "b = hd (xs @ [d])"
  have ys: "ys \<noteq> []" "c = (n, t, of_nat (length ys))" "chain (pNextItem h) (pPrevItem h) ys" "distinct ys" "NULL \<notin> set ys"
    using c by (auto simp: taken_ok_def n_def t_def)
  have d: "distinct (d # xs)" "NULL \<notin> set (d # xs)" "m_Count h d = of_nat (length xs)"
    "chain (pNextItem h) (pPrevItem h) (xs @ [d])" "pNextItem h d = b"
    using q ring_split [of h d "[]" xs] by (auto simp: qlist_def b_def)
  have ins: "n \<in> set ys" "t \<in> set ys" "b \<in> set (xs @ [d])"
    using ys(1) hd_in_set [of "xs @ [d]"] by (auto simp: n_def t_def b_def)
  have nz: "a \<noteq> NULL" if "a \<in> set (d # xs) \<union> set ys" for a using that d(2) ys(5) by (metis Un_iff)
  have ne: "n \<noteq> NULL" "t \<noteq> NULL" "b \<noteq> NULL" "d \<noteq> NULL" "t \<noteq> d" "b \<noteq> n"
    using ins dis nz [of n] nz [of t] nz [of b] nz [of d] by auto
  let ?h = "h\<lparr>pNextItem := (pNextItem h)(t := b, d := n), pPrevItem := (pPrevItem h)(b := t, n := d)\<rparr>"
  have res: "chain_head d c h = Some (put_count d (m_Count h d + of_nat (length ys)) ?h)"
    using ne d(5) by (simp add: ys(2) get_next_def put_next_def put_prev_def)
  have c1: "chain (pNextItem ?h) (pPrevItem ?h) ys"
  proof -
    have "t \<notin> set (butlast ys)" using ys(1,4) unfolding t_def by (cases ys rule: rev_cases) auto
    moreover have "d \<notin> set (butlast ys)" using dis by (auto dest: in_set_butlastD)
    moreover have "b \<notin> set (tl ys)" using ins(3) dis by (auto dest: list.set_sel(2) [OF ys(1)])
    moreover have "n \<notin> set (tl ys)" using ys(1,4) unfolding n_def by (cases ys) auto
    ultimately show ?thesis using ys(3) by simp
  qed
  have c2: "chain (pNextItem ?h) (pPrevItem ?h) (xs @ [d])"
  proof -
    have "t \<notin> set xs" using ins(2) dis by auto
    moreover have "d \<notin> set xs" using d(1) by auto
    moreover have "b \<notin> set (tl (xs @ [d]))" using d(1) unfolding b_def by (cases xs) auto
    moreover have "n \<notin> set (tl (xs @ [d]))" using ins(1) dis by (cases xs) auto
    ultimately show ?thesis using d(4) by simp
  qed
  have "chain (pNextItem ?h) (pPrevItem ?h) (ys @ (xs @ [d]))"
    by (rule chain_join [OF c1 c2]) (use ne in \<open>auto simp: t_def [symmetric] b_def [symmetric] simp del: hd_append\<close>)
  then have "chain (pNextItem ?h) (pPrevItem ?h) ([d] @ (ys @ (xs @ [d])))"
    by (rule chain_join [rotated]) (use ne ys(1) in \<open>auto simp: n_def\<close>)
  then have "qlist (put_count d (m_Count h d + of_nat (length ys)) ?h) d (ys @ xs)"
    using d ys(4,5) dis len by (auto simp: qlist_def ring_def put_count_def)
  moreover have "outside (set (d # ys @ xs)) h (put_count d (m_Count h d + of_nat (length ys)) ?h)"
    by (rule outside_I) (use ins in \<open>auto simp: put_count_def\<close>)
  ultimately show ?thesis using res by (auto simp: becomes_def)
qed

lemma chain_tail_ok:
  assumes q: "qlist h d xs" and c: "taken_ok h c ys" and dis: "set (d # xs) \<inter> set ys = {}"
    and len: "length xs + length ys < 2 ^ 32"
  shows "\<exists>h'. chain_tail d c h = Some h' \<and> becomes h h' d (xs @ ys) (set (d # xs @ ys))"
proof -
  define n where "n = hd ys"
  define t where "t = last ys"
  define a where "a = last (d # xs)"
  have ys: "ys \<noteq> []" "c = (n, t, of_nat (length ys))" "chain (pNextItem h) (pPrevItem h) ys" "distinct ys" "NULL \<notin> set ys"
    using c by (auto simp: taken_ok_def n_def t_def)
  have d: "distinct (d # xs)" "NULL \<notin> set (d # xs)" "m_Count h d = of_nat (length xs)"
    "chain (pNextItem h) (pPrevItem h) (d # xs)" "pPrevItem h d = a"
    using q ring_split [of h d xs "[]"] by (auto simp: qlist_def a_def)
  have ins: "n \<in> set ys" "t \<in> set ys" "a \<in> set (d # xs)"
    using ys(1) last_in_set [of "d # xs"] by (auto simp: n_def t_def a_def simp del: last.simps)
  have nz: "z \<noteq> NULL" if "z \<in> set (d # xs) \<union> set ys" for z using that d(2) ys(5) by (metis Un_iff)
  have ne: "n \<noteq> NULL" "t \<noteq> NULL" "a \<noteq> NULL" "d \<noteq> NULL" "n \<noteq> d" "a \<noteq> t"
    using ins dis nz [of n] nz [of t] nz [of a] nz [of d] by auto
  let ?h = "h\<lparr>pNextItem := (pNextItem h)(a := n, t := d), pPrevItem := (pPrevItem h)(n := a, d := t)\<rparr>"
  have res: "chain_tail d c h = Some (put_count d (m_Count h d + of_nat (length ys)) ?h)"
    using ne d(5) by (cases h) (simp add: ys(2) get_prev_def put_next_def put_prev_def)
  have c1: "chain (pNextItem ?h) (pPrevItem ?h) ys"
  proof -
    have "t \<notin> set (butlast ys)" using ys(1,4) unfolding t_def by (cases ys rule: rev_cases) auto
    moreover have "a \<notin> set (butlast ys)" using ins(3) dis by (auto dest: in_set_butlastD)
    moreover have "d \<notin> set (tl ys)" using dis by (auto dest: list.set_sel(2) [OF ys(1)])
    moreover have "n \<notin> set (tl ys)" using ys(1,4) unfolding n_def by (cases ys) auto
    ultimately show ?thesis using ys(3) by simp
  qed
  have c2: "chain (pNextItem ?h) (pPrevItem ?h) (d # xs)"
  proof -
    have "a \<notin> set (butlast (d # xs))" using d(1) unfolding a_def by (cases xs rule: rev_cases) auto
    moreover have "t \<notin> set (butlast (d # xs))" using ins(2) dis by (auto dest: in_set_butlastD split: if_splits)
    moreover have "n \<notin> set xs" using ins(1) dis by auto
    moreover have "d \<notin> set xs" using d(1) by auto
    ultimately show ?thesis using d(4) by simp
  qed
  have "chain (pNextItem ?h) (pPrevItem ?h) (ys @ [d])"
    by (rule chain_join [OF c1]) (use ne in \<open>auto simp: t_def [symmetric]\<close>)
  then have "chain (pNextItem ?h) (pPrevItem ?h) ((d # xs) @ (ys @ [d]))"
    by (rule chain_join [OF c2])
      (use ne ys(1) in \<open>auto simp: n_def [symmetric] a_def [symmetric] simp del: last.simps\<close>)
  then have "qlist (put_count d (m_Count h d + of_nat (length ys)) ?h) d (xs @ ys)"
    using d ys(4,5) dis len by (auto simp: qlist_def ring_def put_count_def)
  moreover have "outside (set (d # xs @ ys)) h (put_count d (m_Count h d + of_nat (length ys)) ?h)"
    by (rule outside_I) (use ins in \<open>auto simp: put_count_def\<close>)
  ultimately show ?thesis using res by (auto simp: becomes_def)
qed

lemma insert_list_head_is_chain:
  assumes q: "qlist h d xs" and s: "qlist h s ys" and dis: "set (d # xs) \<inter> set (s # ys) = {}" and ne: "ys \<noteq> []"
  shows "QListInsertListHead d s h = do {
    h1 \<leftarrow> chain_head d (hd ys, last ys, of_nat (length ys)) h;
    QListRemoveAll s h1 }"
proof -
  have "pNextItem h s = hd ys" "pPrevItem h s = last ys" "m_Count h s = of_nat (length ys)" "m_Count h s \<noteq> 0"
    using s ne qlist_ends [OF s] qlist_empty [OF s] by (auto simp: qlist_def)
  moreover have "pNextItem h d = hd (xs @ [d])" using qlist_ends [OF q] by simp
  moreover have "hd (xs @ [d]) \<in> set (d # xs)" "hd ys \<in> set ys" "last ys \<in> set ys" using ne by (cases xs; auto)+
  then have "s \<noteq> d" "s \<noteq> hd (xs @ [d])" "hd (xs @ [d]) \<noteq> hd ys" "s \<noteq> last ys" "d \<noteq> last ys" "s \<noteq> hd ys" "s \<noteq> NULL"
    using dis s by (auto simp: qlist_def)
  ultimately show ?thesis
    by (auto simp: QListInsertListHead_def QListIsEmpty_def get_next_def get_prev_def put_next_def put_prev_def
        put_count_def)
qed

lemma insert_list_tail_is_chain:
  assumes q: "qlist h d xs" and s: "qlist h s ys" and dis: "set (d # xs) \<inter> set (s # ys) = {}" and ne: "ys \<noteq> []"
  shows "QListInsertListTail d s h = do {
    h1 \<leftarrow> chain_tail d (hd ys, last ys, of_nat (length ys)) h;
    QListRemoveAll s h1 }"
proof -
  have "pNextItem h s = hd ys" "pPrevItem h s = last ys" "m_Count h s = of_nat (length ys)" "m_Count h s \<noteq> 0"
    using s ne qlist_ends [OF s] qlist_empty [OF s] by (auto simp: qlist_def)
  moreover have "pPrevItem h d = last (d # xs)" using qlist_ends [OF q] by simp
  moreover have "last (d # xs) \<in> set (d # xs)" "hd ys \<in> set ys" "last ys \<in> set ys"
    using ne last_in_set [of "d # xs"] by (auto simp del: last.simps)
  then have "s \<noteq> d" "s \<noteq> last (d # xs)" "s \<noteq> last ys" "d \<noteq> last ys" "s \<noteq> hd ys" "s \<noteq> NULL" "d \<noteq> hd ys"
    using dis s by (auto simp: qlist_def simp del: last.simps)
  ultimately show ?thesis
    by (auto simp: QListInsertListTail_def QListIsEmpty_def get_next_def get_prev_def put_next_def put_prev_def
        put_count_def simp del: last.simps)
qed

end
