(* ===== verification/QList_Moves.thy ===== *)
theory QList_Moves
  imports QList_Chains
begin

text \<open>
  Whole lists chained to others, arrays of items, and the items that a function selects.
\<close>

definition both :: "lheap \<Rightarrow> lheap \<Rightarrow> laddr \<Rightarrow> laddr list \<Rightarrow> laddr \<Rightarrow> laddr list \<Rightarrow> laddr set \<Rightarrow> bool" where
  "both h h' d xs s ys S \<longleftrightarrow> qlist h' d xs \<and> qlist h' s ys \<and> outside S h h'"

lemma chained_then_emptied:
  assumes h1: "becomes h h1 d zs (set (d # xs @ ys))" and dis: "set (d # xs) \<inter> set (s # ys) = {}"
    and s: "qlist h s ys" and zs: "set zs = set xs \<union> set ys"
  shows "\<exists>h'. QListRemoveAll s h1 = Some h' \<and> both h h' d zs s [] (set (d # s # xs @ ys))"
proof -
  have "s \<noteq> NULL" "s \<notin> set ys" using s by (auto simp: qlist_def)
  then obtain h' where h': "QListRemoveAll s h1 = Some h'" "becomes h1 h' s [] {s}"
    using remove_all_ok [of s h1] by blast
  have "qlist h' d zs"
    by (rule qlist_outside [of h1 _ _ "{s}"]) (use h1 h' dis zs \<open>s \<notin> set ys\<close> in \<open>auto simp: becomes_def\<close>)
  moreover have "outside (set (d # xs @ ys) \<union> {s}) h h'"
    by (rule outside_trans) (use h1 h' in \<open>auto simp: becomes_def\<close>)
  then have "outside (set (d # s # xs @ ys)) h h'" by (rule outside_mono) auto
  ultimately show ?thesis using h' by (auto simp: both_def becomes_def)
qed

lemma source_taken:
  assumes "qlist h s ys" "ys \<noteq> []"
  shows "taken_ok h (hd ys, last ys, of_nat (length ys)) ys"
proof -
  have "chain (pNextItem h) (pPrevItem h) ys"
    using assms ring_split [of h s ys "[]"] by (cases ys) (auto simp: qlist_def ring_def)
  with assms show ?thesis by (auto simp: taken_ok_def qlist_def)
qed

lemma insert_list_head_ok:
  assumes q: "qlist h d xs" and s: "qlist h s ys" and dis: "set (d # xs) \<inter> set (s # ys) = {}"
    and len: "length ys + length xs < 2 ^ 32"
  shows "\<exists>h'. QListInsertListHead d s h = Some h' \<and> both h h' d (ys @ xs) s [] (set (d # s # xs @ ys))"
proof (cases "ys = []")
  case True
  then show ?thesis using q s by (simp add: QListInsertListHead_def QListIsEmpty_def qlist_empty [OF s] both_def)
next
  case False
  obtain h1 where h1: "chain_head d (hd ys, last ys, of_nat (length ys)) h = Some h1"
    "becomes h h1 d (ys @ xs) (set (d # ys @ xs))"
    using chain_head_ok [OF q source_taken [OF s False] _ len] dis by auto
  have "set (d # ys @ xs) = set (d # xs @ ys)" by auto
  with chained_then_emptied [of h h1 d "ys @ xs" xs ys s] h1 dis s
  show ?thesis unfolding insert_list_head_is_chain [OF q s dis False] by auto
qed

lemma insert_list_tail_ok:
  assumes q: "qlist h d xs" and s: "qlist h s ys" and dis: "set (d # xs) \<inter> set (s # ys) = {}"
    and len: "length xs + length ys < 2 ^ 32"
  shows "\<exists>h'. QListInsertListTail d s h = Some h' \<and> both h h' d (xs @ ys) s [] (set (d # s # xs @ ys))"
proof (cases "ys = []")
  case True
  then show ?thesis using q s by (simp add: QListInsertListTail_def QListIsEmpty_def qlist_empty [OF s] both_def)
next
  case False
  obtain h1 where h1: "chain_tail d (hd ys, last ys, of_nat (length ys)) h = Some h1"
    "becomes h h1 d (xs @ ys) (set (d # xs @ ys))"
    using chain_tail_ok [OF q source_taken [OF s False] _ len] dis by auto
  with chained_then_emptied [of h h1 d "xs @ ys" xs ys s] dis s
  show ?thesis unfolding insert_list_tail_is_chain [OF q s dis False] by auto
qed

subsection \<open>Arrays\<close>

definition array_items :: "laddr \<Rightarrow> nat \<Rightarrow> nat \<Rightarrow> laddr list" where
  "array_items p n sz = map (\<lambda>i. p + i * sz) [0..<n]"

lemma array_items_snoc: "array_items p (Suc n) sz = array_items p n sz @ [p + n * sz]"
  by (simp add: array_items_def)

lemma array_items_Cons: "array_items p (Suc n) sz = p # array_items (p + sz) n sz"
proof -
  have "map (\<lambda>i. p + i * sz) [0..<Suc n] = p # map (\<lambda>i. p + Suc i * sz) [0..<n]"
    by (simp add: map_upt_Suc del: upt_Suc)
  then show ?thesis by (simp add: array_items_def algebra_simps)
qed

lemma insert_heads_ok:
  assumes "qlist h l xs" "set (array_items p n (unat sz)) \<inter> set (l # xs) = {}" "distinct (array_items p n (unat sz))"
    "NULL \<notin> set (array_items p n (unat sz))" "n + length xs < 2 ^ 32"
  shows "\<exists>h'. insert_heads l n (p + (n - 1) * unat sz) sz h = Some h' \<and>
    becomes h h' l (array_items p n (unat sz) @ xs) (set (l # array_items p n (unat sz) @ xs))"
  using assms
proof (induction n arbitrary: h xs)
  case 0
  then show ?case by (simp add: array_items_def becomes_def)
next
  case (Suc n)
  define x where "x = p + n * unat sz"
  have x: "x \<notin> set (l # xs)" "x \<noteq> NULL" "Suc (length xs) < 2 ^ 32"
    using Suc.prems by (auto simp: x_def array_items_snoc)
  obtain h1 where h1: "QListInsertHead l x h = Some h1" "becomes h h1 l (x # xs) (set (l # x # xs))"
    using insert_head_ok [OF Suc.prems(1) x] by blast
  have "x - unat sz = p + (n - 1) * unat sz \<or> n = 0"
    by (cases n) (auto simp: x_def algebra_simps)
  then have eq: "insert_heads l n (x - unat sz) sz h1 = insert_heads l n (p + (n - 1) * unat sz) sz h1" by auto
  have "\<exists>h'. insert_heads l n (p + (n - 1) * unat sz) sz h1 = Some h' \<and>
    becomes h1 h' l (array_items p n (unat sz) @ x # xs) (set (l # array_items p n (unat sz) @ x # xs))"
    by (rule Suc.IH) (use h1(2) Suc.prems in \<open>auto simp: becomes_def array_items_snoc x_def\<close>)
  then obtain h' where h': "insert_heads l n (x - unat sz) sz h1 = Some h'"
    "becomes h1 h' l (array_items p n (unat sz) @ x # xs) (set (l # array_items p n (unat sz) @ x # xs))"
    unfolding eq by blast
  have "outside (set (l # x # xs) \<union> set (l # array_items p n (unat sz) @ x # xs)) h h'"
    by (rule outside_trans) (use h1 h' in \<open>auto simp: becomes_def\<close>)
  then have "outside (set (l # array_items p (Suc n) (unat sz) @ xs)) h h'"
    by (rule outside_mono) (auto simp: array_items_snoc x_def)
  with h1 h' show ?case by (simp add: becomes_def array_items_snoc x_def)
qed

lemma insert_tails_ok:
  assumes "qlist h l xs" "set (array_items p n (unat sz)) \<inter> set (l # xs) = {}" "distinct (array_items p n (unat sz))"
    "NULL \<notin> set (array_items p n (unat sz))" "length xs + n < 2 ^ 32"
  shows "\<exists>h'. insert_tails l n p sz h = Some h' \<and>
    becomes h h' l (xs @ array_items p n (unat sz)) (set (l # xs @ array_items p n (unat sz)))"
  using assms
proof (induction n arbitrary: h xs p)
  case 0
  then show ?case by (simp add: array_items_def becomes_def)
next
  case (Suc n)
  let ?as = "array_items (p + unat sz) n (unat sz)"
  have x: "p \<notin> set (l # xs)" "p \<noteq> NULL" "Suc (length xs) < 2 ^ 32"
    using Suc.prems by (auto simp: array_items_Cons)
  obtain h1 where h1: "QListInsertTail l p h = Some h1" "becomes h h1 l (xs @ [p]) (set (l # p # xs))"
    using insert_tail_ok [OF Suc.prems(1) x] by blast
  have "\<exists>h'. insert_tails l n (p + unat sz) sz h1 = Some h' \<and>
    becomes h1 h' l ((xs @ [p]) @ ?as) (set (l # (xs @ [p]) @ ?as))"
    by (rule Suc.IH) (use h1(2) Suc.prems in \<open>auto simp: becomes_def array_items_Cons\<close>)
  then obtain h' where h': "insert_tails l n (p + unat sz) sz h1 = Some h'"
    "becomes h1 h' l ((xs @ [p]) @ ?as) (set (l # (xs @ [p]) @ ?as))" by blast
  have "outside (set (l # p # xs) \<union> set (l # (xs @ [p]) @ ?as)) h h'"
    by (rule outside_trans) (use h1 h' in \<open>auto simp: becomes_def\<close>)
  then have "outside (set (l # xs @ array_items p (Suc n) (unat sz))) h h'"
    by (rule outside_mono) (auto simp: array_items_Cons)
  with h1 h' show ?case by (simp add: becomes_def array_items_Cons)
qed

lemma insert_array_head_ok:
  assumes "qlist h l xs" "set (array_items p (unat n) (unat sz)) \<inter> set (l # xs) = {}"
    "distinct (array_items p (unat n) (unat sz))" "NULL \<notin> set (array_items p (unat n) (unat sz))"
    "unat n + length xs < 2 ^ 32" and n: "n \<noteq> 0" "unat sz * (unat n - 1) < 2 ^ 32"
  shows "\<exists>h'. QListInsertArrayHead l p n sz h = Some h' \<and>
    becomes h h' l (array_items p (unat n) (unat sz) @ xs) (set (l # array_items p (unat n) (unat sz) @ xs))"
proof -
  have "unat (n - 1) = unat n - 1" using n(1) by (rule less_minus_one)
  then have "unat (sz * (n - 1)) = (unat n - 1) * unat sz"
    using n(2) by (simp add: unat_word_ariths mult.commute)
  then show ?thesis using insert_heads_ok [OF assms(1-5)] by (simp add: QListInsertArrayHead_def)
qed

lemma insert_array_tail_ok:
  assumes "qlist h l xs" "set (array_items p (unat n) (unat sz)) \<inter> set (l # xs) = {}"
    "distinct (array_items p (unat n) (unat sz))" "NULL \<notin> set (array_items p (unat n) (unat sz))"
    "length xs + unat n < 2 ^ 32"
  shows "\<exists>h'. QListInsertArrayTail l p n sz h = Some h' \<and>
    becomes h h' l (xs @ array_items p (unat n) (unat sz)) (set (l # xs @ array_items p (unat n) (unat sz)))"
  using insert_tails_ok [OF assms] by (simp add: QListInsertArrayTail_def)

subsection \<open>Selected items\<close>

lemma move_from_ok:
  assumes "qlist h s (xs @ ys)" "qlist h d zs" "set (s # xs @ ys) \<inter> set (d # zs) = {}" "length zs + length ys < 2 ^ 32"
  shows "\<exists>h'. move_from s d f (first ys) h = Some h' \<and>
    both h h' d (zs @ filter f ys) s (xs @ filter (\<lambda>x. \<not> f x) ys) (set (d # s # xs @ ys @ zs))"
  using assms
proof (induction ys arbitrary: h xs zs)
  case Nil
  then show ?case by (simp add: move_from.simps both_def)
next
  case (Cons y ys)
  have y: "y \<noteq> NULL" "QListNext s y h = Some (first ys)"
    using Cons.prems(1) next_is_first [OF Cons.prems(1)] by (auto simp: qlist_def)
  show ?case
  proof (cases "f y")
    case False
    have "\<exists>h'. move_from s d f (first ys) h = Some h' \<and>
      both h h' d (zs @ filter f ys) s ((xs @ [y]) @ filter (\<lambda>x. \<not> f x) ys) (set (d # s # (xs @ [y]) @ ys @ zs))"
      by (rule Cons.IH) (use Cons.prems in auto)
    with y False show ?thesis by (subst move_from.simps) simp
  next
    case True
    obtain h1 where h1: "QListRemoveItem s y h = Some h1" "becomes h h1 s (xs @ ys) (set (s # xs @ y # ys))"
      using remove_item_ok [OF Cons.prems(1)] by blast
    have d1: "qlist h1 d zs"
      by (rule qlist_outside [OF Cons.prems(2)]) (use h1(2) Cons.prems(3) in \<open>auto simp: becomes_def\<close>)
    obtain h2 where h2: "QListInsertTail d y h1 = Some h2" "becomes h1 h2 d (zs @ [y]) (set (d # y # zs))"
      using insert_tail_ok [OF d1, of y] Cons.prems(3,4) y(1) by auto
    have dist: "distinct (s # xs @ y # ys)" using Cons.prems(1) by (simp add: qlist_def)
    have s2: "qlist h2 s (xs @ ys)"
      by (rule qlist_outside [of h1 _ _ "set (d # y # zs)"]) (use h1 h2 Cons.prems(3) dist in \<open>auto simp: becomes_def\<close>)
    have "\<exists>h'. move_from s d f (first ys) h2 = Some h' \<and>
      both h2 h' d ((zs @ [y]) @ filter f ys) s (xs @ filter (\<lambda>x. \<not> f x) ys) (set (d # s # xs @ ys @ zs @ [y]))"
      by (rule Cons.IH) (use s2 h2 Cons.prems dist in \<open>auto simp: becomes_def\<close>)
    then obtain h' where h': "move_from s d f (first ys) h2 = Some h'"
      "both h2 h' d ((zs @ [y]) @ filter f ys) s (xs @ filter (\<lambda>x. \<not> f x) ys) (set (d # s # xs @ ys @ zs @ [y]))"
      by blast
    have "outside (set (s # xs @ y # ys) \<union> (set (d # y # zs) \<union> set (d # s # xs @ ys @ zs @ [y]))) h h'"
      by (intro outside_trans [OF _ outside_trans]) (use h1 h2 h' in \<open>auto simp: becomes_def both_def\<close>)
    then have "outside (set (d # s # xs @ (y # ys) @ zs)) h h'" by (rule outside_mono) auto
    with h1 h2 h' y True show ?thesis by (subst move_from.simps) (simp add: both_def)
  qed
qed

lemma move_items_ok:
  assumes "qlist h s ys" "qlist h d zs" "set (s # ys) \<inter> set (d # zs) = {}" "length zs + length ys < 2 ^ 32"
  shows "\<exists>h'. QListMoveItems s d f h = Some h' \<and>
    both h h' d (zs @ filter f ys) s (filter (\<lambda>x. \<not> f x) ys) (set (d # s # ys @ zs))"
  using move_from_ok [of h s "[]" ys d zs f] assms head_is_first [OF assms(1)]
  by (simp add: QListMoveItems_def)

end
