(* ===== verification/LQList_System.thy ===== *)
theory LQList_System
  imports QList_Moves
begin

text \<open>
  Threads that work on locked quick lists.  Between the two sections of a function that chains one list
  to another its thread holds the items and others run.  A specification says where every item is: on a list or
  in flight with a thread; the heap, run by the code's functions one section at a time, follows it.
\<close>

subsection \<open>The program\<close>

datatype lq_op =
    InsertHead laddr laddr | InsertTail laddr laddr | InsertPrev laddr laddr laddr | InsertNext laddr laddr laddr
  | RemoveHead laddr | RemoveTail laddr | RemoveItem laddr laddr | SafeRemoveItem laddr laddr | RemoveAll laddr
  | FindFromHeadAndRemove laddr "laddr \<Rightarrow> bool"
  | TakeList nat bool laddr laddr   \<comment> \<open>thread, at the head?, destination, source\<close>
  | ChainList nat

text \<open>The heap, and for each thread between two sections the local variables of the function it is in.\<close>

record lq_sys =
  heap :: lheap
  pcs :: "nat \<Rightarrow> (bool \<times> laddr \<times> taken) option"

definition on_heap :: "(lheap \<Rightarrow> lheap option) \<Rightarrow> lq_sys \<Rightarrow> lq_sys option" where
  "on_heap f s = do { h \<leftarrow> f (heap s); Some (s\<lparr>heap := h\<rparr>) }"

fun lq_exec :: "lq_op \<Rightarrow> lq_sys \<Rightarrow> lq_sys option" where
  "lq_exec (InsertHead l x) s = on_heap (LQListInsertHead l x) s"
| "lq_exec (InsertTail l x) s = on_heap (LQListInsertTail l x) s"
| "lq_exec (InsertPrev l p x) s = on_heap (LQListInsertPrev l p x) s"
| "lq_exec (InsertNext l p x) s = on_heap (LQListInsertNext l p x) s"
| "lq_exec (RemoveHead l) s = on_heap (\<lambda>h. map_option snd (LQListRemoveHead l h)) s"
| "lq_exec (RemoveTail l) s = on_heap (\<lambda>h. map_option snd (LQListRemoveTail l h)) s"
| "lq_exec (RemoveItem l x) s = on_heap (LQListRemoveItem l x) s"
| "lq_exec (SafeRemoveItem l x) s = on_heap (\<lambda>h. map_option snd (LQListSafeRemoveItem l x h)) s"
| "lq_exec (RemoveAll l) s = on_heap (LQListRemoveAll l) s"
| "lq_exec (FindFromHeadAndRemove l f) s =
     on_heap (\<lambda>h. map_option snd (LQListFindFromHeadAndRemove l (Some f) NULL h)) s"
| "lq_exec (TakeList t front d l) s = do {
     (src, h) \<leftarrow> locked_get l (take_list l) (heap s);
     case src of
       None \<Rightarrow> Some (s\<lparr>heap := h\<rparr>)
     | Some c \<Rightarrow> Some (s\<lparr>heap := h, pcs := (pcs s)(t := Some (front, d, c))\<rparr>) }"
| "lq_exec (ChainList t) s =
     (case pcs s t of
        None \<Rightarrow> None
      | Some (front, d, c) \<Rightarrow> do {
          h \<leftarrow> locked_do d (if front then chain_head d c else chain_tail d c) (heap s);
          Some (s\<lparr>heap := h, pcs := (pcs s)(t := None)\<rparr>) })"

primrec lq_run :: "lq_op list \<Rightarrow> lq_sys \<Rightarrow> lq_sys option" where
  "lq_run [] s = Some s"
| "lq_run (a # as) s = do { s \<leftarrow> lq_exec a s; lq_run as s }"

subsection \<open>The specification\<close>

datatype place = On laddr | Flight nat

record lq_spec =
  content :: "place \<Rightarrow> laddr list"
  dest :: "nat \<Rightarrow> (bool \<times> laddr) option"

definition all_items :: "lq_spec \<Rightarrow> laddr set" where
  "all_items a = (\<Union>p. set (content a p))"

definition fresh :: "laddr set \<Rightarrow> lq_spec \<Rightarrow> laddr \<Rightarrow> bool" where
  "fresh Ls a x \<longleftrightarrow> x \<noteq> NULL \<and> x \<notin> Ls \<and> x \<notin> all_items a \<and> Suc (card (all_items a)) < 2 ^ 32"

definition put :: "laddr \<Rightarrow> laddr list \<Rightarrow> lq_spec \<Rightarrow> lq_spec" where
  "put l xs a = a\<lparr>content := (content a)(On l := xs)\<rparr>"

inductive spec_step :: "laddr set \<Rightarrow> lq_op \<Rightarrow> lq_spec \<Rightarrow> lq_spec \<Rightarrow> bool" for Ls where
  insert_head: "l \<in> Ls \<Longrightarrow> fresh Ls a x \<Longrightarrow> content a (On l) = xs \<Longrightarrow>
     spec_step Ls (InsertHead l x) a (put l (x # xs) a)"
| insert_tail: "l \<in> Ls \<Longrightarrow> fresh Ls a x \<Longrightarrow> content a (On l) = xs \<Longrightarrow>
     spec_step Ls (InsertTail l x) a (put l (xs @ [x]) a)"
| insert_prev: "l \<in> Ls \<Longrightarrow> fresh Ls a x \<Longrightarrow> content a (On l) = xs @ p # ys \<Longrightarrow>
     spec_step Ls (InsertPrev l p x) a (put l (xs @ x # p # ys) a)"
| insert_next: "l \<in> Ls \<Longrightarrow> fresh Ls a x \<Longrightarrow> content a (On l) = xs @ p # ys \<Longrightarrow>
     spec_step Ls (InsertNext l p x) a (put l (xs @ p # x # ys) a)"
| remove_head: "l \<in> Ls \<Longrightarrow> spec_step Ls (RemoveHead l) a (put l (tl (content a (On l))) a)"
| remove_tail: "l \<in> Ls \<Longrightarrow> spec_step Ls (RemoveTail l) a (put l (butlast (content a (On l))) a)"
| remove_item: "l \<in> Ls \<Longrightarrow> content a (On l) = xs @ x # ys \<Longrightarrow> spec_step Ls (RemoveItem l x) a (put l (xs @ ys) a)"
| safe_remove: "l \<in> Ls \<Longrightarrow> spec_step Ls (SafeRemoveItem l x) a (put l (remove1 x (content a (On l))) a)"
| remove_all: "l \<in> Ls \<Longrightarrow> spec_step Ls (RemoveAll l) a (put l [] a)"
| find_and_remove: "l \<in> Ls \<Longrightarrow> spec_step Ls (FindFromHeadAndRemove l f) a
     (put l (takeWhile (\<lambda>x. \<not> f x) (content a (On l)) @ tl (dropWhile (\<lambda>x. \<not> f x) (content a (On l)))) a)"
| take_empty: "l \<in> Ls \<Longrightarrow> d \<in> Ls \<Longrightarrow> content a (On l) = [] \<Longrightarrow> spec_step Ls (TakeList t front d l) a a"
| take_items: "l \<in> Ls \<Longrightarrow> d \<in> Ls \<Longrightarrow> content a (On l) \<noteq> [] \<Longrightarrow> dest a t = None \<Longrightarrow>
     spec_step Ls (TakeList t front d l) a
       (a\<lparr>content := (content a)(On l := [], Flight t := content a (On l)), dest := (dest a)(t := Some (front, d))\<rparr>)"
| chain_items: "dest a t = Some (front, d) \<Longrightarrow>
     spec_step Ls (ChainList t) a
       (a\<lparr>content := (content a)(On d := (if front then content a (Flight t) @ content a (On d)
                                          else content a (On d) @ content a (Flight t)),
                                  Flight t := []),
          dest := (dest a)(t := None)\<rparr>)"

inductive spec_run :: "laddr set \<Rightarrow> lq_op list \<Rightarrow> lq_spec \<Rightarrow> lq_spec \<Rightarrow> bool" for Ls where
  run_nil: "spec_run Ls [] a a"
| run_cons: "spec_step Ls op a b \<Longrightarrow> spec_run Ls ops b c \<Longrightarrow> spec_run Ls (op # ops) a c"

inductive_cases spec_runE: "spec_run Ls ops a b"
inductive_simps spec_run_simps: "spec_run Ls [] a b" "spec_run Ls (op # ops) a b"

definition dest_ok :: "laddr set \<Rightarrow> lq_spec \<Rightarrow> nat \<Rightarrow> bool" where
  "dest_ok Ls a t \<longleftrightarrow> (case dest a t of None \<Rightarrow> content a (Flight t) = []
                         | Some (front, d) \<Rightarrow> content a (Flight t) \<noteq> [] \<and> d \<in> Ls)"

definition spec_ok :: "laddr set \<Rightarrow> lq_spec \<Rightarrow> bool" where
  "spec_ok Ls a \<longleftrightarrow> NULL \<notin> Ls \<and> finite (all_items a) \<and> card (all_items a) < 2 ^ 32 \<and>
     (\<forall>p. distinct (content a p) \<and> NULL \<notin> set (content a p) \<and> set (content a p) \<inter> Ls = {}) \<and>
     (\<forall>p q. p \<noteq> q \<longrightarrow> set (content a p) \<inter> set (content a q) = {}) \<and>
     (\<forall>l. l \<notin> Ls \<longrightarrow> content a (On l) = []) \<and> (\<forall>t. dest_ok Ls a t)"

definition flight_ok :: "lq_sys \<Rightarrow> lq_spec \<Rightarrow> nat \<Rightarrow> bool" where
  "flight_ok s a t \<longleftrightarrow> (case dest a t of None \<Rightarrow> pcs s t = None
     | Some (front, d) \<Rightarrow> (case pcs s t of None \<Rightarrow> False
         | Some (front', d', c) \<Rightarrow> front' = front \<and> d' = d \<and> taken_ok (heap s) c (content a (Flight t))))"

definition follows :: "laddr set \<Rightarrow> lq_sys \<Rightarrow> lq_spec \<Rightarrow> bool" where
  "follows Ls s a \<longleftrightarrow> spec_ok Ls a \<and>
     (\<forall>l \<in> Ls. qlist (heap s) l (content a (On l)) \<and> \<not> m_Lock (heap s) l) \<and>
     (\<forall>t. flight_ok s a t)"

end
