(* ===== verification/LQList_Props.thy ===== *)
theory LQList_Props
  imports LQList_System
begin

text \<open>
  The heap follows the specification: whatever the order in which the sections of the threads run, each of
  them returns, and every item is where the specification has it.
\<close>

subsection \<open>The specification keeps every item in one place\<close>

lemma content_in_all: "set (content a p) \<subseteq> all_items a"
  by (auto simp: all_items_def)

lemma spec_ok_change:
  assumes ok: "spec_ok Ls a" and pq: "p \<noteq> q" and agree: "\<And>r. r \<noteq> p \<Longrightarrow> r \<noteq> q \<Longrightarrow> content b r = content a r"
    and dist: "distinct (content b p)" "distinct (content b q)" "set (content b p) \<inter> set (content b q) = {}"
    and sub: "set (content b p) \<union> set (content b q) \<subseteq> set (content a p) \<union> set (content a q) \<union> N"
    and N: "N = {} \<or> (\<exists>x. N = {x} \<and> fresh Ls a x)"
    and lists: "\<And>l. l \<notin> Ls \<Longrightarrow> content b (On l) = []" and dests: "\<And>t. dest_ok Ls b t"
  shows "spec_ok Ls b"
proof -
  have a: "NULL \<notin> Ls" "finite (all_items a)" "card (all_items a) < 2 ^ 32"
    "\<And>r. distinct (content a r) \<and> NULL \<notin> set (content a r) \<and> set (content a r) \<inter> Ls = {}"
    "\<And>r r'. r \<noteq> r' \<Longrightarrow> set (content a r) \<inter> set (content a r') = {}"
    using ok by (simp_all add: spec_ok_def)
  have n: "NULL \<notin> N" "N \<inter> Ls = {}" "N \<inter> all_items a = {}" "finite N" "card (all_items a) + card N < 2 ^ 32"
    using N a(3) by (auto simp: fresh_def)
  have subset: "set (content b r) \<subseteq> all_items a \<union> N" for r
    using sub agree [of r] content_in_all [of a r] content_in_all [of a p] content_in_all [of a q]
    by (cases "r = p"; cases "r = q") auto
  then have all: "all_items b \<subseteq> all_items a \<union> N" by (auto simp: all_items_def)
  then have "finite (all_items b)" using a(2) n(4) finite_subset by blast
  moreover have "card (all_items b) \<le> card (all_items a \<union> N)" using all a(2) n(4) by (intro card_mono) auto
  then have "card (all_items b) < 2 ^ 32" using n(5) card_Un_le [of "all_items a" N] by linarith
  moreover have "distinct (content b r)" for r using dist agree [of r] a(4) [of r] by (cases "r = p"; cases "r = q") auto
  moreover have nl: "NULL \<notin> all_items a" "all_items a \<inter> Ls = {}" using a(4) by (auto simp: all_items_def)
  then have "NULL \<notin> set (content b r)" "set (content b r) \<inter> Ls = {}" for r
    using subset [of r] n(1,2) by blast+
  moreover have out: "set (content b r) \<inter> (set (content b p) \<union> set (content b q)) = {}" if r: "r \<noteq> p" "r \<noteq> q" for r
  proof -
    have "set (content b r) \<inter> N = {}" using agree [OF r] content_in_all [of a r] n(3) by auto
    with sub agree [OF r] a(5) [OF r(1)] a(5) [OF r(2)] show ?thesis by auto
  qed
  have "set (content b r) \<inter> set (content b r') = {}" if "r \<noteq> r'" for r r'
  proof (cases "r \<in> {p, q}")
    case rin: True
    show ?thesis
    proof (cases "r' \<in> {p, q}")
      case True
      with rin dist(3) that show ?thesis by auto
    next
      case False
      with out [of r'] rin show ?thesis by auto
    qed
  next
    case rout: False
    show ?thesis
    proof (cases "r' \<in> {p, q}")
      case True
      with out [of r] rout show ?thesis by auto
    next
      case False
      with rout agree [of r] agree [of r'] a(5) [OF that] show ?thesis by auto
    qed
  qed
  ultimately show ?thesis using a(1) lists dests unfolding spec_ok_def by blast
qed

lemma dest_ok_other:
  "dest b t = dest a t \<Longrightarrow> content b (Flight t) = content a (Flight t) \<Longrightarrow> dest_ok Ls b t = dest_ok Ls a t"
  by (auto simp: dest_ok_def split: option.splits)

lemma spec_ok_put:
  assumes ok: "spec_ok Ls a" and l: "l \<in> Ls" and d: "distinct xs" and sub: "set xs \<subseteq> set (content a (On l)) \<union> N"
    and N: "N = {} \<or> (\<exists>x. N = {x} \<and> fresh Ls a x)"
  shows "spec_ok Ls (put l xs a)"
proof (rule spec_ok_change [OF ok, of "On l" "Flight 0" _ N])
  have "set (content a (On l)) \<inter> set (content a (Flight 0)) = {}" "distinct (content a (Flight 0))"
    using ok by (auto simp: spec_ok_def)
  moreover have "N \<inter> set (content a (Flight 0)) = {}"
    using N content_in_all [of a "Flight 0"] by (auto simp: fresh_def)
  ultimately show "set (content (put l xs a) (On l)) \<inter> set (content (put l xs a) (Flight 0)) = {}"
    "distinct (content (put l xs a) (Flight 0))" using sub by (auto simp: put_def)
  show "dest_ok Ls (put l xs a) t" for t
  proof -
    have "dest_ok Ls a t" using ok by (simp add: spec_ok_def)
    then show ?thesis by (auto simp: put_def dest_ok_def split: option.splits)
  qed
  show "content (put l xs a) (On k) = []" if "k \<notin> Ls" for k
    using ok l that by (auto simp: put_def spec_ok_def)
qed (use d sub N in \<open>auto simp: put_def\<close>)

lemma set_tl_subset: "set (tl xs) \<subseteq> set xs"
  by (cases xs) auto

lemma around_find:
  assumes "distinct xs"
  shows "distinct (takeWhile P xs @ tl (dropWhile P xs))"
    "set (takeWhile P xs @ tl (dropWhile P xs)) \<subseteq> set xs"
proof -
  have "distinct (us @ vs) \<Longrightarrow> distinct (us @ tl vs) \<and> set (us @ tl vs) \<subseteq> set (us @ vs)" for us vs :: "'a list"
    by (cases vs) auto
  from this [of "takeWhile P xs" "dropWhile P xs"] assms
  show "distinct (takeWhile P xs @ tl (dropWhile P xs))" "set (takeWhile P xs @ tl (dropWhile P xs)) \<subseteq> set xs"
    unfolding takeWhile_dropWhile_id by auto
qed

lemma spec_step_ok: "spec_step Ls op a b \<Longrightarrow> spec_ok Ls a \<Longrightarrow> spec_ok Ls b"
proof (induction rule: spec_step.induct)
  case (insert_head l a x xs)
  then show ?case using content_in_all [of a "On l"]
    by (intro spec_ok_put [where N = "{x}"]) (auto simp: fresh_def spec_ok_def)
next
  case (insert_tail l a x xs)
  then show ?case using content_in_all [of a "On l"]
    by (intro spec_ok_put [where N = "{x}"]) (auto simp: fresh_def spec_ok_def)
next
  case (insert_prev l a x xs p ys)
  then have "distinct (xs @ p # ys)" by (metis spec_ok_def)
  with insert_prev show ?case using content_in_all [of a "On l"]
    by (intro spec_ok_put [where N = "{x}"]) (auto simp: fresh_def)
next
  case (insert_next l a x xs p ys)
  then have "distinct (xs @ p # ys)" by (metis spec_ok_def)
  with insert_next show ?case using content_in_all [of a "On l"]
    by (intro spec_ok_put [where N = "{x}"]) (auto simp: fresh_def)
next
  case (remove_head l a)
  then show ?case
    by (intro spec_ok_put [where N = "{}"]) (use set_tl_subset [of "content a (On l)"] in \<open>auto simp: spec_ok_def distinct_tl\<close>)
next
  case (remove_tail l a)
  then show ?case
    by (intro spec_ok_put [where N = "{}"]) (auto simp: spec_ok_def distinct_butlast dest: in_set_butlastD)
next
  case (remove_item l a xs x ys)
  then have "distinct (xs @ x # ys)" by (metis spec_ok_def)
  with remove_item show ?case by (intro spec_ok_put [where N = "{}"]) auto
next
  case (safe_remove l x a)
  then show ?case
    by (intro spec_ok_put [where N = "{}"]) (auto simp: spec_ok_def dest: notin_set_remove1)
next
  case (remove_all l a)
  then show ?case by (intro spec_ok_put [where N = "{}"]) auto
next
  case (find_and_remove l f a)
  then have "distinct (content a (On l))" by (simp add: spec_ok_def)
  with around_find [OF this] find_and_remove show ?case by (intro spec_ok_put [where N = "{}"]) auto
next
  case (take_empty l d a t front)
  then show ?case by simp
next
  case (take_items l d a t front)
  let ?b = "a\<lparr>content := (content a)(On l := [], Flight t := content a (On l)), dest := (dest a)(t := Some (front, d))\<rparr>"
  have "dest_ok Ls a r" for r using take_items(5) by (simp add: spec_ok_def)
  then have "dest_ok Ls ?b r" for r
    using take_items(2,3) dest_ok_other [of ?b r a Ls] by (cases "r = t") (auto simp: dest_ok_def)
  moreover have "distinct (content a (On l))" "\<And>k. k \<notin> Ls \<Longrightarrow> content ?b (On k) = []"
    using take_items(1,5) by (auto simp: spec_ok_def)
  ultimately show ?case
    by (intro spec_ok_change [OF take_items(5), of "On l" "Flight t" _ "{}"]) auto
next
  case (chain_items a t front d)
  let ?b = "a\<lparr>content := (content a)(On d := (if front then content a (Flight t) @ content a (On d)
      else content a (On d) @ content a (Flight t)), Flight t := []), dest := (dest a)(t := None)\<rparr>"
  have "dest_ok Ls a r" for r using chain_items(2) by (simp add: spec_ok_def)
  then have "dest_ok Ls ?b r" for r
    using dest_ok_other [of ?b r a Ls] by (cases "r = t") (auto simp: dest_ok_def)
  moreover have "set (content a (On d)) \<inter> set (content a (Flight t)) = {}"
    "distinct (content a (On d))" "distinct (content a (Flight t))"
    using chain_items(2) by (auto simp: spec_ok_def)
  moreover have "dest_ok Ls a t" using chain_items(2) by (simp add: spec_ok_def)
  then have "d \<in> Ls" using chain_items(1) by (simp add: dest_ok_def)
  then have "\<And>k. k \<notin> Ls \<Longrightarrow> content ?b (On k) = []" using chain_items(2) by (auto simp: spec_ok_def)
  ultimately show ?case
    by (intro spec_ok_change [OF chain_items(2), of "On d" "Flight t" _ "{}"]) auto
qed

end
