(* ===== verification/LQList_Sim.thy ===== *)
theory LQList_Sim
  imports LQList_Props
begin

text \<open>
  Every step of the specification can be made on the heap, by the code, and the heap then holds what the
  specification says.
\<close>

subsection \<open>Critical sections\<close>

lemma lock_fields [simp]:
  "qlist (h\<lparr>m_Lock := m\<rparr>) l xs = qlist h l xs"
  "taken_ok (h\<lparr>m_Lock := m\<rparr>) c ys = taken_ok h c ys"
  by (simp_all add: qlist_def ring_def taken_ok_def)

lemma outside_lock:
  assumes "outside S (h\<lparr>m_Lock := m\<rparr>) h1"
  shows "m_Lock h1 = m" "outside S h (h1\<lparr>m_Lock := m_Lock h\<rparr>)"
proof -
  show "m_Lock h1 = m" using outside_fields [OF assms] by simp
  show "outside S h (h1\<lparr>m_Lock := m_Lock h\<rparr>)"
    by (rule outside_I) (use outside_at [OF assms] outside_fields [OF assms] in \<open>(cases h; cases h1; auto)+\<close>)
qed

lemma locked_get_ok:
  assumes l: "\<not> m_Lock h l" and f: "f (h\<lparr>m_Lock := (m_Lock h)(l := True)\<rparr>) = Some (r, h1)"
    and h1: "becomes (h\<lparr>m_Lock := (m_Lock h)(l := True)\<rparr>) h1 l xs S"
  shows "locked_get l f h = Some (r, h1\<lparr>m_Lock := m_Lock h\<rparr>)" "becomes h (h1\<lparr>m_Lock := m_Lock h\<rparr>) l xs S"
proof -
  have "m_Lock h1 = (m_Lock h)(l := True)" "outside S h (h1\<lparr>m_Lock := m_Lock h\<rparr>)"
    using h1 outside_lock by (auto simp: becomes_def)
  moreover have "(m_Lock h)(l := False) = m_Lock h" using l by (simp add: fun_upd_idem)
  ultimately show "locked_get l f h = Some (r, h1\<lparr>m_Lock := m_Lock h\<rparr>)" "becomes h (h1\<lparr>m_Lock := m_Lock h\<rparr>) l xs S"
    using l f h1 by (simp_all add: locked_get_def SpinLockAcquire_def SpinLockRelease_def becomes_def)
qed

lemma locked_do_is_get: "locked_do l f h = map_option snd (locked_get l (\<lambda>h. map_option (Pair ()) (f h)) h)"
  by (simp add: locked_do_def locked_get_def map_option_bind option.map_comp o_def map_conv_bind_option
      split: option.splits)

lemma locked_do_ok:
  assumes "\<not> m_Lock h l" "\<exists>h1. f (h\<lparr>m_Lock := (m_Lock h)(l := True)\<rparr>) = Some h1 \<and>
     becomes (h\<lparr>m_Lock := (m_Lock h)(l := True)\<rparr>) h1 l xs S"
  shows "\<exists>h'. locked_do l f h = Some h' \<and> becomes h h' l xs S"
proof -
  obtain h1 where h1: "f (h\<lparr>m_Lock := (m_Lock h)(l := True)\<rparr>) = Some h1"
    "becomes (h\<lparr>m_Lock := (m_Lock h)(l := True)\<rparr>) h1 l xs S" using assms(2) by blast
  have "locked_get l (\<lambda>h. map_option (Pair ()) (f h)) h = Some ((), h1\<lparr>m_Lock := m_Lock h\<rparr>)"
    by (rule locked_get_ok [OF assms(1) _ h1(2)]) (simp add: h1)
  moreover have "becomes h (h1\<lparr>m_Lock := m_Lock h\<rparr>) l xs S"
    by (rule locked_get_ok [OF assms(1) _ h1(2), where f = "\<lambda>h. map_option (Pair ()) (f h)" and r = "()"]) (simp add: h1)
  ultimately show ?thesis by (simp add: locked_do_is_get)
qed

subsection \<open>The lists that are not involved\<close>

lemma follows_lists:
  assumes "follows Ls s a" "l \<in> Ls"
  shows "qlist (heap s) l (content a (On l))" "\<not> m_Lock (heap s) l"
  using assms by (auto simp: follows_def)

lemma places_apart:
  assumes ok: "spec_ok Ls a" and N: "N \<inter> all_items a = {}" "N \<inter> Ls = {}" and L: "L \<subseteq> Ls"
    and S: "S \<subseteq> L \<union> (\<Union>p\<in>P. set (content a p)) \<union> N" and p: "p \<notin> P"
  shows "set (content a p) \<inter> S = {}" "l \<in> Ls \<Longrightarrow> l \<notin> L \<Longrightarrow> l \<notin> S"
proof -
  have "\<And>q. q \<in> P \<Longrightarrow> set (content a p) \<inter> set (content a q) = {}" "\<And>q. set (content a q) \<inter> Ls = {}"
    using ok p unfolding spec_ok_def by metis+
  then show "set (content a p) \<inter> S = {}" "l \<in> Ls \<Longrightarrow> l \<notin> L \<Longrightarrow> l \<notin> S"
    using S N L content_in_all [of a p] by blast+
qed

lemma follows_others:
  assumes fol: "follows Ls s a" and o: "outside S (heap s) h'"
    and N: "N \<inter> all_items a = {}" "N \<inter> Ls = {}" and L: "L \<subseteq> Ls"
    and S: "S \<subseteq> L \<union> (\<Union>p\<in>P. set (content a p)) \<union> N"
  shows "l \<in> Ls \<Longrightarrow> \<not> m_Lock h' l"
    and "l \<in> Ls \<Longrightarrow> l \<notin> L \<Longrightarrow> On l \<notin> P \<Longrightarrow> qlist h' l (content a (On l))"
    and "taken_ok (heap s) c (content a (Flight t)) \<Longrightarrow> Flight t \<notin> P \<Longrightarrow> taken_ok h' c (content a (Flight t))"
proof -
  have ok: "spec_ok Ls a" using fol by (simp add: follows_def)
  note apart = places_apart [OF ok N L S]
  show "l \<in> Ls \<Longrightarrow> \<not> m_Lock h' l" using follows_lists [OF fol] outside_fields [OF o] by simp
  show "qlist h' l (content a (On l))" if "l \<in> Ls" "l \<notin> L" "On l \<notin> P"
  proof (rule qlist_outside [OF follows_lists(1) [OF fol that(1)] o])
    show "set (l # content a (On l)) \<inter> S = {}" using apart [OF that(3)] that(1,2) by simp
  qed
  show "taken_ok h' c (content a (Flight t))" if "taken_ok (heap s) c (content a (Flight t))" "Flight t \<notin> P"
    by (rule taken_ok_outside [OF that(1) o apart(1) [OF that(2)]])
qed

lemma flight_kept:
  assumes fol: "follows Ls s a" and "outside S (heap s) h'" "N \<inter> all_items a = {}" "N \<inter> Ls = {}" "L \<subseteq> Ls"
    "S \<subseteq> L \<union> (\<Union>p\<in>P. set (content a p)) \<union> N" "Flight t \<notin> P"
    and b: "dest b t = dest a t" "pcs s' t = pcs s t" "heap s' = h'" "content b (Flight t) = content a (Flight t)"
  shows "flight_ok s' b t"
proof -
  have "flight_ok s a t" using fol by (simp add: follows_def)
  then show ?thesis unfolding flight_ok_def b
    using follows_others(3) [OF assms(1-6) _ assms(7)] by (auto split: option.splits)
qed

lemma follows_put:
  assumes fol: "follows Ls s a" and l: "l \<in> Ls" and h': "becomes (heap s) h' l xs S"
    and S: "S \<subseteq> insert l (set (content a (On l)) \<union> N)" and N: "N \<inter> all_items a = {}" "N \<inter> Ls = {}"
    and ok: "spec_ok Ls (put l xs a)"
  shows "follows Ls (s\<lparr>heap := h'\<rparr>) (put l xs a)"
proof -
  have o: "outside S (heap s) h'" using h' by (simp add: becomes_def)
  have S': "S \<subseteq> {l} \<union> (\<Union>p\<in>{On l}. set (content a p)) \<union> N" using S by auto
  note others = follows_others [OF fol o N _ S']
  have "qlist h' k (content (put l xs a) (On k)) \<and> \<not> m_Lock h' k" if "k \<in> Ls" for k
  proof (cases "k = l")
    case True
    with h' l others(1) [of l] show ?thesis by (simp add: put_def becomes_def)
  next
    case False
    with that l others(1,2) [of k] show ?thesis by (simp add: put_def)
  qed
  moreover have "flight_ok (s\<lparr>heap := h'\<rparr>) (put l xs a) t" for t
    by (rule flight_kept [OF fol o N _ S']) (use l in \<open>auto simp: put_def\<close>)
  ultimately show ?thesis using ok by (simp add: follows_def)
qed

subsection \<open>One step\<close>

lemma get_step:
  assumes fol: "follows Ls s a" and l: "l \<in> Ls" and ok: "spec_ok Ls (put l xs a)"
    and N: "N = {} \<or> (\<exists>x. N = {x} \<and> fresh Ls a x)"
    and f: "\<And>h. qlist h l (content a (On l)) \<Longrightarrow> \<exists>r h1. f h = Some (r, h1) \<and> becomes h h1 l xs S"
    and S: "S \<subseteq> insert l (set (content a (On l)) \<union> N)"
  shows "\<exists>s'. on_heap (\<lambda>h. map_option snd (locked_get l f h)) s = Some s' \<and> follows Ls s' (put l xs a)"
proof -
  let ?h = "(heap s)\<lparr>m_Lock := (m_Lock (heap s))(l := True)\<rparr>"
  have "qlist ?h l (content a (On l))" using follows_lists [OF fol l] by simp
  then obtain r h1 where h1: "f ?h = Some (r, h1)" "becomes ?h h1 l xs S" using f by blast
  let ?h' = "h1\<lparr>m_Lock := m_Lock (heap s)\<rparr>"
  have "locked_get l f (heap s) = Some (r, ?h')" "becomes (heap s) ?h' l xs S"
    using locked_get_ok [OF follows_lists(2) [OF fol l], where f = f and r = r, OF h1] by auto
  moreover have "N \<inter> all_items a = {}" "N \<inter> Ls = {}" using N by (auto simp: fresh_def)
  ultimately show ?thesis using follows_put [OF fol l _ S _ _ ok] by (simp add: on_heap_def)
qed

lemma do_step:
  assumes "follows Ls s a" "l \<in> Ls" "spec_ok Ls (put l xs a)"
    "N = {} \<or> (\<exists>x. N = {x} \<and> fresh Ls a x)"
    and f: "\<And>h. qlist h l (content a (On l)) \<Longrightarrow> \<exists>h1. f h = Some h1 \<and> becomes h h1 l xs S"
    and "S \<subseteq> insert l (set (content a (On l)) \<union> N)"
  shows "\<exists>s'. on_heap (locked_do l f) s = Some s' \<and> follows Ls s' (put l xs a)"
proof -
  have "locked_do l f = (\<lambda>h. map_option snd (locked_get l (\<lambda>h. map_option (Pair ()) (f h)) h))"
    by (rule ext) (rule locked_do_is_get)
  moreover have "\<exists>r h1. map_option (Pair ()) (f h) = Some (r, h1) \<and> becomes h h1 l xs S"
    if "qlist h l (content a (On l))" for h using f [OF that] by auto
  ultimately show ?thesis
    using get_step [OF assms(1-4) _ assms(6), of "\<lambda>h. map_option (Pair ()) (f h)"] by simp
qed

lemma safe_remove_ok:
  assumes "qlist h l xs"
  shows "\<exists>r h1. QListSafeRemoveItem l x h = Some (r, h1) \<and> becomes h h1 l (remove1 x xs) (set (l # xs))"
proof (cases "x \<in> set xs")
  case False
  with assms show ?thesis by (auto simp: QListSafeRemoveItem_def is_in_list_ok becomes_def remove1_idem)
next
  case True
  then obtain us vs where xs: "xs = us @ x # vs" "x \<notin> set us" by (meson split_list_first)
  with remove_item_ok [of h l us x vs] assms True show ?thesis
    by (auto simp: QListSafeRemoveItem_def is_in_list_ok QListRemoveItem_def remove1_append split: Option.bind_splits)
qed

lemma found_split:
  "found f xs = NULL \<and> NULL \<notin> set xs \<Longrightarrow> takeWhile (\<lambda>x. \<not> f x) xs = xs \<and> dropWhile (\<lambda>x. \<not> f x) xs = []"
  "found f xs \<noteq> NULL \<Longrightarrow> dropWhile (\<lambda>x. \<not> f x) xs = found f xs # tl (dropWhile (\<lambda>x. \<not> f x) xs)"
  by (induction xs) (auto split: if_splits)

lemma find_and_remove_ok:
  assumes q: "qlist h l xs"
  shows "\<exists>r h1. (do { x \<leftarrow> QListFindFromHead l (Some f) NULL h;
      if x \<noteq> NULL then do { h \<leftarrow> QListRemoveItem l x h; Some (x, h) } else Some (x, h) }) = Some (r, h1) \<and>
    becomes h h1 l (takeWhile (\<lambda>x. \<not> f x) xs @ tl (dropWhile (\<lambda>x. \<not> f x) xs)) (set (l # xs))"
proof -
  have x: "QListFindFromHead l (Some f) NULL h = Some (found f xs)"
    using find_head_ok [OF q, of "Some f"] by (simp add: find_test_def [abs_def])
  have nz: "NULL \<notin> set xs" using q by (simp add: qlist_def)
  show ?thesis
  proof (cases "found f xs = NULL")
    case True
    then have "takeWhile (\<lambda>x. \<not> f x) xs = xs" "dropWhile (\<lambda>x. \<not> f x) xs = []"
      using found_split(1) [of f xs] nz by blast+
    note eqs = this
    show ?thesis unfolding eqs using True x q by (simp add: becomes_def)
  next
    case False
    define us where "us = takeWhile (\<lambda>x. \<not> f x) xs"
    define vs where "vs = tl (dropWhile (\<lambda>x. \<not> f x) xs)"
    have "xs = us @ found f xs # vs"
      using found_split(2) [OF False] takeWhile_dropWhile_id [of "\<lambda>x. \<not> f x" xs] by (simp add: us_def vs_def)
    with q remove_item_ok [of h l us "found f xs" vs] False x show ?thesis
      by (auto simp: us_def [symmetric] vs_def [symmetric])
  qed
qed

lemma take_step:
  assumes fol: "follows Ls s a" and step: "l \<in> Ls" "d \<in> Ls" "content a (On l) \<noteq> []" "dest a t = None"
    and ok: "spec_ok Ls b"
    and b: "b = a\<lparr>content := (content a)(On l := [], Flight t := content a (On l)), dest := (dest a)(t := Some (front, d))\<rparr>"
  shows "\<exists>s'. lq_exec (TakeList t front d l) s = Some s' \<and> follows Ls s' b"
proof -
  let ?h = "(heap s)\<lparr>m_Lock := (m_Lock (heap s))(l := True)\<rparr>" and ?ys = "content a (On l)"
  let ?c = "(hd ?ys, last ?ys, of_nat (length ?ys))"
  obtain h1 where h1: "take_list l ?h = Some (Some ?c, h1)" "becomes ?h h1 l [] {l}" "taken_ok h1 ?c ?ys"
    using take_list_ok [of ?h l ?ys] follows_lists [OF fol step(1)] step(3) by auto
  define h' where "h' = h1\<lparr>m_Lock := m_Lock (heap s)\<rparr>"
  have get: "locked_get l (take_list l) (heap s) = Some (Some ?c, h')" "becomes (heap s) h' l [] {l}"
    using locked_get_ok [OF follows_lists(2) [OF fol step(1)], where f = "take_list l" and r = "Some ?c", OF h1(1,2)]
    by (auto simp: h'_def)
  define s' where "s' = s\<lparr>heap := h', pcs := (pcs s)(t := Some (front, d, ?c))\<rparr>"
  have o: "outside {l} (heap s) h'" using get(2) by (simp add: becomes_def)
  have "{l} \<subseteq> {l} \<union> (\<Union>p\<in>{On l, Flight t}. set (content a p)) \<union> {}" by auto
  note o' = fol o _ _ _ this
  have "qlist h' k (content b (On k)) \<and> \<not> m_Lock h' k" if "k \<in> Ls" for k
    using follows_others(1,2) [OF o', of k] get(2) step(1) that b by (cases "k = l") (auto simp: becomes_def)
  moreover have "flight_ok s' b k" for k
  proof (cases "k = t")
    case True
    then show ?thesis using h1(3) by (simp add: flight_ok_def s'_def b h'_def)
  next
    case False
    then show ?thesis by (intro flight_kept [OF o']) (use step(1) in \<open>auto simp: s'_def b\<close>)
  qed
  ultimately have "follows Ls s' b" using ok by (simp add: follows_def s'_def)
  moreover have "lq_exec (TakeList t front d l) s = Some s'" using get(1) by (simp add: s'_def)
  ultimately show ?thesis by blast
qed

lemma chain_step:
  assumes fol: "follows Ls s a" and t: "dest a t = Some (front, d)" and ok: "spec_ok Ls b"
    and b: "b = a\<lparr>content := (content a)(On d := (if front then content a (Flight t) @ content a (On d)
        else content a (On d) @ content a (Flight t)), Flight t := []), dest := (dest a)(t := None)\<rparr>"
  shows "\<exists>s'. lq_exec (ChainList t) s = Some s' \<and> follows Ls s' b"
proof -
  let ?h = "(heap s)\<lparr>m_Lock := (m_Lock (heap s))(d := True)\<rparr>"
  let ?xs = "content a (On d)" and ?ys = "content a (Flight t)" and ?zs = "content b (On d)"
  have aok: "spec_ok Ls a" "dest_ok Ls a t" using fol by (auto simp: follows_def spec_ok_def)
  have d: "d \<in> Ls" using aok(2) t by (simp add: dest_ok_def)
  obtain c where c: "pcs s t = Some (front, d, c)" "taken_ok (heap s) c ?ys"
  proof -
    have "flight_ok s a t" using fol by (simp add: follows_def)
    with t that show thesis by (auto simp: flight_ok_def split: option.splits)
  qed
  have dis: "set ?xs \<inter> set ?ys = {}" "set ?ys \<inter> Ls = {}" "distinct ?xs" "distinct ?ys"
    and card: "finite (all_items a)" "card (all_items a) < 2 ^ 32"
    using aok(1) by (simp_all add: spec_ok_def)
  then have apart: "set (d # ?xs) \<inter> set ?ys = {}" using d by auto
  have "length ?xs + length ?ys = card (set ?xs \<union> set ?ys)"
    using dis by (subst card_Un_disjoint) (auto simp: distinct_card)
  also have "\<dots> \<le> card (all_items a)"
    using card(1) content_in_all [of a] by (intro card_mono) auto
  finally have len: "length ?xs + length ?ys < 2 ^ 32" using card(2) by simp
  have q: "qlist ?h d ?xs" "taken_ok ?h c ?ys" using follows_lists [OF fol d] c(2) by auto
  have "\<exists>h1. (if front then chain_head d c else chain_tail d c) ?h = Some h1 \<and> becomes ?h h1 d ?zs (set (d # ?xs @ ?ys))"
  proof (cases front)
    case True
    have "set (d # ?ys @ ?xs) = set (d # ?xs @ ?ys)" "?zs = ?ys @ ?xs" using True by (auto simp: b)
    with True chain_head_ok [OF q apart] len show ?thesis by (simp only: if_True add.commute)
  next
    case False
    then have "?zs = ?xs @ ?ys" by (simp add: b)
    with False chain_tail_ok [OF q apart] len show ?thesis by (simp only: if_False)
  qed
  then obtain h' where h': "locked_do d (if front then chain_head d c else chain_tail d c) (heap s) = Some h'"
    "becomes (heap s) h' d ?zs (set (d # ?xs @ ?ys))"
    using locked_do_ok [OF follows_lists(2) [OF fol d], where f = "if front then chain_head d c else chain_tail d c"] by blast
  define s' where "s' = s\<lparr>heap := h', pcs := (pcs s)(t := None)\<rparr>"
  have o: "outside (set (d # ?xs @ ?ys)) (heap s) h'" using h'(2) by (simp add: becomes_def)
  have "set (d # ?xs @ ?ys) \<subseteq> {d} \<union> (\<Union>p\<in>{On d, Flight t}. set (content a p)) \<union> {}" by auto
  note o' = fol o _ _ _ this
  have "qlist h' k (content b (On k)) \<and> \<not> m_Lock h' k" if "k \<in> Ls" for k
    using follows_others(1,2) [OF o', of k] h'(2) d that b by (cases "k = d") (auto simp: becomes_def)
  moreover have "flight_ok s' b k" for k
  proof (cases "k = t")
    case True
    then show ?thesis by (simp add: flight_ok_def s'_def b)
  next
    case False
    then show ?thesis by (intro flight_kept [OF o']) (use d in \<open>auto simp: s'_def b\<close>)
  qed
  ultimately have "follows Ls s' b" using ok by (simp add: follows_def s'_def)
  moreover have "lq_exec (ChainList t) s = Some s'" using h'(1) c(1) by (simp add: s'_def)
  ultimately show ?thesis by blast
qed

lemma fresh_item:
  assumes ok: "spec_ok Ls a" and x: "fresh Ls a x" and l: "l \<in> Ls"
  shows "x \<notin> set (l # content a (On l))" "x \<noteq> NULL" "Suc (length (content a (On l))) < 2 ^ 32"
proof -
  have "length (content a (On l)) = card (set (content a (On l)))" using ok by (simp add: spec_ok_def distinct_card)
  also have "\<dots> \<le> card (all_items a)"
    using ok content_in_all [of a] by (intro card_mono) (auto simp: spec_ok_def)
  finally show "Suc (length (content a (On l))) < 2 ^ 32" using x by (simp add: fresh_def)
  show "x \<notin> set (l # content a (On l))" "x \<noteq> NULL" using x l content_in_all [of a "On l"] by (auto simp: fresh_def)
qed

lemmas lq_defs = LQListInsertHead_def LQListInsertTail_def LQListInsertPrev_def LQListInsertNext_def
  LQListRemoveHead_def LQListRemoveTail_def LQListRemoveItem_def LQListSafeRemoveItem_def LQListRemoveAll_def
  LQListFindFromHeadAndRemove_def

lemma insert_step:
  assumes "follows Ls s a" "l \<in> Ls" "spec_ok Ls (put l xs a)" "fresh Ls a x"
    and "\<And>h. qlist h l (content a (On l)) \<Longrightarrow> \<exists>h1. f h = Some h1 \<and> becomes h h1 l xs (set (l # x # content a (On l)))"
  shows "\<exists>s'. on_heap (locked_do l f) s = Some s' \<and> follows Ls s' (put l xs a)"
  by (rule do_step [OF assms(1-3) _ assms(5), of "{x}"]) (use assms(4) in auto)

lemma insert_prev_item_ok:
  assumes "qlist h l (xs @ p # ys)" "x \<notin> set (l # xs @ p # ys)" "x \<noteq> NULL" "Suc (length (xs @ p # ys)) < 2 ^ 32"
  shows "\<exists>h1. QListInsertPrev l p x h = Some h1 \<and> becomes h h1 l (xs @ x # p # ys) (set (l # x # xs @ p # ys))"
  using insert_prev_ok [OF assms] by simp

lemma step_follows:
  assumes "spec_step Ls op a b" "follows Ls s a"
  shows "\<exists>s'. lq_exec op s = Some s' \<and> follows Ls s' b"
proof -
  have aok: "spec_ok Ls a" using assms(2) by (simp add: follows_def)
  have bok: "spec_ok Ls b" using spec_step_ok [OF assms(1) aok] .
  note fresh = fresh_item [OF aok]
  show ?thesis using assms(1)
  proof (cases rule: spec_step.cases)
    case (insert_head l x xs)
    have "\<exists>s'. on_heap (locked_do l (QListInsertHead l x)) s = Some s' \<and> follows Ls s' (put l (x # xs) a)"
      by (rule insert_step [OF assms(2)]) (use insert_head bok fresh [of x l] insert_head_ok in auto)
    with insert_head show ?thesis by (simp add: lq_defs)
  next
    case (insert_tail l x xs)
    have "\<exists>s'. on_heap (locked_do l (QListInsertTail l x)) s = Some s' \<and> follows Ls s' (put l (xs @ [x]) a)"
      by (rule insert_step [OF assms(2)]) (use insert_tail bok fresh [of x l] insert_tail_ok in auto)
    with insert_tail show ?thesis by (simp add: lq_defs)
  next
    case (insert_prev l x xs p ys)
    have "\<exists>s'. on_heap (locked_do l (QListInsertPrev l p x)) s = Some s' \<and> follows Ls s' (put l (xs @ x # p # ys) a)"
      by (rule insert_step [OF assms(2)]) (use insert_prev bok fresh [of x l] insert_prev_item_ok [of _ l xs p ys x] in auto)
    with insert_prev show ?thesis by (simp add: lq_defs)
  next
    case (insert_next l x xs p ys)
    have "\<exists>s'. on_heap (locked_do l (QListInsertNext l p x)) s = Some s' \<and> follows Ls s' (put l (xs @ p # x # ys) a)"
      by (rule insert_step [OF assms(2)]) (use insert_next bok fresh [of x l] insert_next_ok [of _ l xs p ys x] in auto)
    with insert_next show ?thesis by (simp add: lq_defs)
  next
    case (remove_head l)
    have "\<exists>s'. on_heap (\<lambda>h. map_option snd (locked_get l (QListRemoveHead l) h)) s = Some s' \<and> follows Ls s' b"
      unfolding remove_head(2)
      by (rule get_step [OF assms(2) remove_head(3), of _ "{}" _ "set (l # content a (On l))"])
        (use remove_head bok remove_head_ok [of _ l "content a (On l)"] in \<open>(blast | auto)+\<close>)
    with remove_head show ?thesis by (simp add: lq_defs)
  next
    case (remove_tail l)
    have "\<exists>s'. on_heap (\<lambda>h. map_option snd (locked_get l (QListRemoveTail l) h)) s = Some s' \<and> follows Ls s' b"
      unfolding remove_tail(2)
      by (rule get_step [OF assms(2) remove_tail(3), of _ "{}" _ "set (l # content a (On l))"])
        (use remove_tail bok remove_tail_ok [of _ l "content a (On l)"] in \<open>(blast | auto)+\<close>)
    with remove_tail show ?thesis by (simp add: lq_defs)
  next
    case (remove_item l xs x ys)
    have "\<exists>s'. on_heap (locked_do l (QListRemoveItem l x)) s = Some s' \<and> follows Ls s' b"
      unfolding remove_item(2)
      by (rule do_step [OF assms(2) remove_item(3), of _ "{}" _ "set (l # content a (On l))"])
        (use remove_item bok remove_item_ok [of _ l xs x ys] in \<open>(blast | auto)+\<close>)
    with remove_item show ?thesis by (simp add: lq_defs)
  next
    case (safe_remove l x)
    have "\<exists>s'. on_heap (\<lambda>h. map_option snd (locked_get l (QListSafeRemoveItem l x) h)) s = Some s' \<and> follows Ls s' b"
      unfolding safe_remove(2)
      by (rule get_step [OF assms(2) safe_remove(3), of _ "{}" _ "set (l # content a (On l))"])
        (use safe_remove bok safe_remove_ok [of _ l "content a (On l)" x] in \<open>(blast | auto)+\<close>)
    with safe_remove show ?thesis by (simp add: lq_defs)
  next
    case (remove_all l)
    have "l \<noteq> NULL" using aok remove_all(3) by (metis spec_ok_def)
    have "\<exists>s'. on_heap (locked_do l (QListRemoveAll l)) s = Some s' \<and> follows Ls s' b"
      unfolding remove_all(2)
      by (rule do_step [OF assms(2) remove_all(3), of _ "{}" _ "{l}"])
        (use remove_all bok remove_all_ok [OF \<open>l \<noteq> NULL\<close>] in \<open>(blast | auto)+\<close>)
    with remove_all show ?thesis by (simp add: lq_defs)
  next
    case (find_and_remove l f)
    have "\<exists>s'. on_heap (\<lambda>h. map_option snd (locked_get l (\<lambda>h. do {
        x \<leftarrow> QListFindFromHead l (Some f) NULL h;
        if x \<noteq> NULL then do { h \<leftarrow> QListRemoveItem l x h; Some (x, h) } else Some (x, h) }) h)) s = Some s' \<and>
      follows Ls s' b"
      unfolding find_and_remove(2)
      by (rule get_step [OF assms(2) find_and_remove(3), of _ "{}" _ "set (l # content a (On l))"])
        (use find_and_remove bok find_and_remove_ok [of _ l "content a (On l)" f] in \<open>(blast | auto)+\<close>)
    with find_and_remove show ?thesis by (simp add: lq_defs)
  next
    case (take_empty l d t front)
    let ?h = "(heap s)\<lparr>m_Lock := (m_Lock (heap s))(l := True)\<rparr>"
    obtain h1 where h1: "take_list l ?h = Some (None, h1)" "becomes ?h h1 l [] {l}"
      using take_list_ok [of ?h l "[]"] follows_lists [OF assms(2) take_empty(3)] take_empty(5) by auto
    let ?h' = "h1\<lparr>m_Lock := m_Lock (heap s)\<rparr>"
    have get: "locked_get l (take_list l) (heap s) = Some (None, ?h')" "becomes (heap s) ?h' l [] {l}"
      using locked_get_ok [OF follows_lists(2) [OF assms(2) take_empty(3)], where f = "take_list l" and r = None, OF h1]
      by auto
    have "put l [] a = a" using take_empty(5) by (simp add: put_def fun_upd_idem)
    then have "follows Ls (s\<lparr>heap := ?h'\<rparr>) b"
      using follows_put [OF assms(2) take_empty(3) get(2), of "{}"] aok take_empty(2) by simp
    with get(1) take_empty(1) show ?thesis by simp
  next
    case (take_items l d t front)
    then show ?thesis using take_step [OF assms(2)] bok by simp
  next
    case (chain_items t front d)
    then show ?thesis using chain_step [OF assms(2)] bok by simp
  qed
qed

end
