(* ===== verification/DList.thy ===== *)
theory DList
  imports QList_Moves
begin

text \<open>
  The list of objects \<^verbatim>\<open>DLIST\<close> of \<^verbatim>\<open>IbAccess/Common/Public/ilist.h\<close> and
  \<^verbatim>\<open>ilist.c\<close>, with the queue and the stack made of it, and the object manager of
  \<^verbatim>\<open>iobjmgr.c\<close> that holds its memory: objects hang on items of a pool that grows as needed.

  Memory: \<open>live\<close> are the blocks in use, with their sizes; \<open>allocs\<close> are the addresses that the next
  calls of malloc will give, of which NULL and those of a block that overlaps a live one stand for a call
  that fails, so that every list is possible behaviour of malloc, and every behaviour has a list.
  Sizes are those of a 64-bit machine; allocations take 32-bit sizes.
\<close>

subsection \<open>Memory\<close>

abbreviation sizeof_LIST_ITEM :: nat where "sizeof_LIST_ITEM \<equiv> 24"
abbreviation sizeof_QUICK_LIST :: nat where "sizeof_QUICK_LIST \<equiv> 32"
abbreviation sizeof_OBJECT_MGR :: nat where "sizeof_OBJECT_MGR \<equiv> 40"
abbreviation sizeof_DLIST :: nat where "sizeof_DLIST \<equiv> 80"
abbreviation FREE_ITEM_GROW_SIZE :: uint32 where "FREE_ITEM_GROW_SIZE \<equiv> 10"

definition overlap :: "laddr \<times> nat \<Rightarrow> laddr \<times> nat \<Rightarrow> bool" where
  "overlap b c \<longleftrightarrow> fst b < fst c + snd c \<and> fst c < fst b + snd b \<or> fst b = fst c"

definition MemoryAllocate :: "uint32 \<Rightarrow> lheap \<Rightarrow> laddr \<times> lheap" where
  "MemoryAllocate Bytes h =
     (case allocs h of
        [] \<Rightarrow> (NULL, h)
      | p # ps \<Rightarrow>
          if p = NULL \<or> list_ex (overlap (p, unat Bytes)) (live h) then (NULL, h\<lparr>allocs := ps\<rparr>)
          else (p, h\<lparr>allocs := ps, live := (p, unat Bytes) # live h\<rparr>))"

definition MemoryClear :: "laddr \<Rightarrow> nat \<Rightarrow> lheap \<Rightarrow> lheap" where
  "MemoryClear p n h = h\<lparr>pNextItem := (\<lambda>a. if p \<le> a \<and> a < p + n then NULL else pNextItem h a),
     pPrevItem := (\<lambda>a. if p \<le> a \<and> a < p + n then NULL else pPrevItem h a),
     pObject := (\<lambda>a. if p \<le> a \<and> a < p + n then NULL else pObject h a),
     m_Count := (\<lambda>a. if p \<le> a \<and> a < p + n then 0 else m_Count h a)\<rparr>"

definition MemoryAllocateAndClear :: "uint32 \<Rightarrow> lheap \<Rightarrow> laddr \<times> lheap" where
  "MemoryAllocateAndClear Bytes h =
     (case MemoryAllocate Bytes h of
        (p, h) \<Rightarrow> if p \<noteq> NULL then (p, MemoryClear p (unat Bytes) h) else (p, h))"

definition MemoryDeallocate :: "laddr \<Rightarrow> lheap \<Rightarrow> lheap" where
  "MemoryDeallocate p h = h\<lparr>live := filter (\<lambda>b. fst b \<noteq> p) (live h)\<rparr>"

definition QListAllocateAndInit :: "lheap \<Rightarrow> (laddr \<times> lheap) option" where
  "QListAllocateAndInit h =
     (case MemoryAllocateAndClear (of_nat sizeof_QUICK_LIST) h of
        (l, h) \<Rightarrow>
          if l \<noteq> NULL then do {
            (ok, h) \<leftarrow> QListInit l h;
            if \<not> ok then Some (NULL, MemoryDeallocate l h) else Some (l, h) }
          else Some (l, h))"

definition QListDeallocate :: "laddr \<Rightarrow> lheap \<Rightarrow> lheap option" where
  "QListDeallocate l h =
     (if l \<noteq> NULL then do { h \<leftarrow> QListDestroy l h; Some (MemoryDeallocate l h) } else Some h)"

subsection \<open>The object manager\<close>

text \<open>\<^verbatim>\<open>m_ObjList\<close> is the first field of an \<^verbatim>\<open>OBJECT_MGR\<close>.\<close>

definition ObjMgrInitState :: "laddr \<Rightarrow> lheap \<Rightarrow> lheap" where
  "ObjMgrInitState m h = h\<lparr>m_Initialized := (m_Initialized h)(m := False)\<rparr>"

definition ObjMgrInit :: "laddr \<Rightarrow> lheap \<Rightarrow> (bool \<times> lheap) option" where
  "ObjMgrInit m h = do {
     (ok, h) \<leftarrow> QListInit m (h\<lparr>m_Initialized := (m_Initialized h)(m := False)\<rparr>);
     Some (ok, h\<lparr>m_Initialized := (m_Initialized h)(m := ok)\<rparr>) }"

partial_function (option) free_objects :: "laddr \<Rightarrow> lheap \<Rightarrow> lheap option" where
  "free_objects m h = do {
     (x, h) \<leftarrow> QListRemoveHead m h;
     if x \<noteq> NULL then free_objects m (MemoryDeallocate x h) else Some h }"

definition ObjMgrDestroy :: "laddr \<Rightarrow> lheap \<Rightarrow> lheap option" where
  "ObjMgrDestroy m h =
     (if \<not> m_Initialized h m then Some h
      else do {
        h \<leftarrow> free_objects m h;
        h \<leftarrow> QListDestroy m h;
        Some (h\<lparr>m_Initialized := (m_Initialized h)(m := False)\<rparr>) })"

definition ObjMgrAllocate :: "laddr \<Rightarrow> uint32 \<Rightarrow> lheap \<Rightarrow> (laddr \<times> lheap) option" where
  "ObjMgrAllocate m Bytes h =
     (case MemoryAllocateAndClear (Bytes + of_nat sizeof_LIST_ITEM) h of
        (p, h) \<Rightarrow>
          if p = NULL then Some (NULL, h)
          else do {
            h \<leftarrow> put_obj p (p + sizeof_LIST_ITEM) h;
            h \<leftarrow> QListInsertHead m p h;
            x \<leftarrow> get_obj p h;
            Some (x, h) })"

definition ObjMgrDeallocate :: "laddr \<Rightarrow> laddr \<Rightarrow> lheap \<Rightarrow> lheap option" where
  "ObjMgrDeallocate m obj h = do {
     h \<leftarrow> QListRemoveItem m (obj - sizeof_LIST_ITEM) h;
     Some (MemoryDeallocate (obj - sizeof_LIST_ITEM) h) }"

subsection \<open>The pool of items\<close>

text \<open>\<^verbatim>\<open>m_List\<close> is the first field of a \<^verbatim>\<open>DLIST\<close>, \<^verbatim>\<open>m_FreeItemList\<close> the second.\<close>

definition m_FreeItemList :: "laddr \<Rightarrow> laddr" where
  "m_FreeItemList d = d + sizeof_QUICK_LIST"

definition FreeItemPoolGrow :: "laddr \<Rightarrow> lheap \<Rightarrow> lheap option" where
  "FreeItemPoolGrow d h = do {
     (p, h) \<leftarrow> ObjMgrAllocate (m_pObjMgr h d) (of_nat sizeof_LIST_ITEM * GrowItems h d) h;
     if p = NULL then Some h
     else QListInsertArrayHead (m_FreeItemList d) p (GrowItems h d) (of_nat sizeof_LIST_ITEM) h }"

definition FreeItemGet :: "laddr \<Rightarrow> lheap \<Rightarrow> (laddr \<times> lheap) option" where
  "FreeItemGet d h = do {
     h \<leftarrow> (if QListCount (m_FreeItemList d) h = 0 then FreeItemPoolGrow d h else Some h);
     QListRemoveHead (m_FreeItemList d) h }"

subsection \<open>Lists of objects\<close>

definition ListInitState :: "laddr \<Rightarrow> lheap \<Rightarrow> lheap" where
  "ListInitState d h = h\<lparr>m_pObjMgr := (m_pObjMgr h)(d := NULL)\<rparr>"

definition ListDestroy :: "laddr \<Rightarrow> lheap \<Rightarrow> lheap option" where
  "ListDestroy d h = do {
     h \<leftarrow> QListDestroy (m_FreeItemList d) h;
     h \<leftarrow> QListDestroy d h;
     if m_pObjMgr h d \<noteq> NULL then do {
       h \<leftarrow> ObjMgrDestroy (m_pObjMgr h d) h;
       let h = MemoryDeallocate (m_pObjMgr h d) h;
       Some (h\<lparr>m_pObjMgr := (m_pObjMgr h)(d := NULL)\<rparr>) }
     else Some h }"

definition ListInit :: "laddr \<Rightarrow> uint32 \<Rightarrow> lheap \<Rightarrow> (bool \<times> lheap) option" where
  "ListInit d n h = do {
     (ok, h) \<leftarrow> QListInit (m_FreeItemList d) (ListInitState d h);
     if \<not> ok then Some (False, h) else do {
     (ok, h) \<leftarrow> QListInit d h;
     if \<not> ok then do { h \<leftarrow> ListDestroy d h; Some (False, h) } else do {
     let (m, h) = MemoryAllocate (of_nat sizeof_OBJECT_MGR) h;
     let h = h\<lparr>m_pObjMgr := (m_pObjMgr h)(d := m)\<rparr>;
     (ok, h) \<leftarrow> (if m = NULL then Some (False, h) else ObjMgrInit m h);
     if \<not> ok then do { h \<leftarrow> ListDestroy d h; Some (False, h) } else do {
     let h = h\<lparr>MinItems := (MinItems h)(d := n), GrowItems := (GrowItems h)(d := n)\<rparr>;
     h \<leftarrow> FreeItemPoolGrow d h;
     if QListCount (m_FreeItemList d) h = 0 then do { h \<leftarrow> ListDestroy d h; Some (False, h) } else do {
     let g = drop_bit 3 (GrowItems h d);
     Some (True, h\<lparr>GrowItems := (GrowItems h)(d := if g < FREE_ITEM_GROW_SIZE then FREE_ITEM_GROW_SIZE else g)\<rparr>)
     } } } } }"

definition ListIsEmpty :: "laddr \<Rightarrow> lheap \<Rightarrow> bool" where
  "ListIsEmpty d h = QListIsEmpty d h"

definition ListCount :: "laddr \<Rightarrow> lheap \<Rightarrow> uint32" where
  "ListCount d h = QListCount d h"

definition ListInsertHead :: "laddr \<Rightarrow> laddr \<Rightarrow> lheap \<Rightarrow> (bool \<times> lheap) option" where
  "ListInsertHead d obj h = do {
     (i, h) \<leftarrow> FreeItemGet d h;
     if i = NULL then Some (False, h) else do {
     h \<leftarrow> put_obj i obj h;
     h \<leftarrow> QListInsertHead d i h;
     Some (True, h) } }"

definition ListInsertTail :: "laddr \<Rightarrow> laddr \<Rightarrow> lheap \<Rightarrow> (bool \<times> lheap) option" where
  "ListInsertTail d obj h = do {
     (i, h) \<leftarrow> FreeItemGet d h;
     if i = NULL then Some (False, h) else do {
     h \<leftarrow> put_obj i obj h;
     h \<leftarrow> QListInsertTail d i h;
     Some (True, h) } }"

definition ListInsertPrev :: "laddr \<Rightarrow> laddr \<Rightarrow> laddr \<Rightarrow> lheap \<Rightarrow> (bool \<times> lheap) option" where
  "ListInsertPrev d itor obj h = do {
     (i, h) \<leftarrow> FreeItemGet d h;
     if i = NULL then Some (False, h) else do {
     h \<leftarrow> put_obj i obj h;
     h \<leftarrow> QListInsertPrev d itor i h;
     Some (True, h) } }"

definition ListInsertNext :: "laddr \<Rightarrow> laddr \<Rightarrow> laddr \<Rightarrow> lheap \<Rightarrow> (bool \<times> lheap) option" where
  "ListInsertNext d itor obj h = do {
     (i, h) \<leftarrow> FreeItemGet d h;
     if i = NULL then Some (False, h) else do {
     h \<leftarrow> put_obj i obj h;
     h \<leftarrow> QListInsertNext d itor i h;
     Some (True, h) } }"

definition ListObj :: "laddr \<Rightarrow> lheap \<Rightarrow> laddr option" where
  "ListObj itor h = get_obj itor h"

definition ListHead :: "laddr \<Rightarrow> lheap \<Rightarrow> laddr option" where
  "ListHead d h = QListHead d h"

definition ListTail :: "laddr \<Rightarrow> lheap \<Rightarrow> laddr option" where
  "ListTail d h = QListTail d h"

definition ListPrev :: "laddr \<Rightarrow> laddr \<Rightarrow> lheap \<Rightarrow> laddr option" where
  "ListPrev d itor h = QListPrev d itor h"

definition ListNext :: "laddr \<Rightarrow> laddr \<Rightarrow> lheap \<Rightarrow> laddr option" where
  "ListNext d itor h = QListNext d itor h"

definition ListRemoveHead :: "laddr \<Rightarrow> lheap \<Rightarrow> (laddr \<times> lheap) option" where
  "ListRemoveHead d h = do {
     (i, h) \<leftarrow> QListRemoveHead d h;
     if i = NULL then Some (NULL, h) else do {
     h \<leftarrow> QListInsertHead (m_FreeItemList d) i h;
     obj \<leftarrow> get_obj i h;
     Some (obj, h) } }"

definition ListRemoveTail :: "laddr \<Rightarrow> lheap \<Rightarrow> (laddr \<times> lheap) option" where
  "ListRemoveTail d h = do {
     (i, h) \<leftarrow> QListRemoveTail d h;
     if i = NULL then Some (NULL, h) else do {
     h \<leftarrow> QListInsertHead (m_FreeItemList d) i h;
     obj \<leftarrow> get_obj i h;
     Some (obj, h) } }"

definition ListRemoveItem :: "laddr \<Rightarrow> laddr \<Rightarrow> lheap \<Rightarrow> lheap option" where
  "ListRemoveItem d itor h = do {
     h \<leftarrow> QListRemoveItem d itor h;
     QListInsertHead (m_FreeItemList d) itor h }"

definition ListRemoveObject :: "laddr \<Rightarrow> laddr \<Rightarrow> lheap \<Rightarrow> (bool \<times> lheap) option" where
  "ListRemoveObject d obj h = do {
     i \<leftarrow> QListFindFromHead d None obj h;
     if i \<noteq> NULL then do {
       h \<leftarrow> QListRemoveItem d i h;
       h \<leftarrow> QListInsertHead (m_FreeItemList d) i h;
       Some (True, h) }
     else Some (False, h) }"

definition ListRemoveAll :: "laddr \<Rightarrow> lheap \<Rightarrow> lheap option" where
  "ListRemoveAll d h = QListInsertListHead (m_FreeItemList d) d h"

text \<open>
  The arrays: \<open>n\<close> is \<^verbatim>\<open>Count\<close> before the test of the loop.  After a failure the inner loop
  runs while \<^verbatim>\<open>Count++ < ItemCount\<close>, with \<^verbatim>\<open>Count\<close> as it is after the test.
\<close>

primrec remove_heads :: "nat \<Rightarrow> laddr \<Rightarrow> lheap \<Rightarrow> lheap option" where
  "remove_heads 0 d h = Some h"
| "remove_heads (Suc n) d h = do { (_, h) \<leftarrow> ListRemoveHead d h; remove_heads n d h }"

primrec remove_tails :: "nat \<Rightarrow> laddr \<Rightarrow> lheap \<Rightarrow> lheap option" where
  "remove_tails 0 d h = Some h"
| "remove_tails (Suc n) d h = do { (_, h) \<leftarrow> ListRemoveTail d h; remove_tails n d h }"

primrec insert_object_heads :: "laddr \<Rightarrow> nat \<Rightarrow> laddr \<Rightarrow> nat \<Rightarrow> uint32 \<Rightarrow> lheap \<Rightarrow> (bool \<times> lheap) option" where
  "insert_object_heads d 0 obj ItemCount ItemSize h = Some (True, h)"
| "insert_object_heads d (Suc n) obj ItemCount ItemSize h = do {
     (ok, h) \<leftarrow> ListInsertHead d obj h;
     if \<not> ok then do { h \<leftarrow> remove_heads (ItemCount - n) d h; Some (False, h) }
     else insert_object_heads d n (obj - unat ItemSize) ItemCount ItemSize h }"

definition ListInsertArrayHead :: "laddr \<Rightarrow> laddr \<Rightarrow> uint32 \<Rightarrow> uint32 \<Rightarrow> lheap \<Rightarrow> (bool \<times> lheap) option" where
  "ListInsertArrayHead d pArray ItemCount ItemSize h =
     insert_object_heads d (unat ItemCount) (pArray + unat (ItemSize * (ItemCount - 1))) (unat ItemCount) ItemSize h"

primrec insert_object_tails :: "laddr \<Rightarrow> nat \<Rightarrow> laddr \<Rightarrow> nat \<Rightarrow> uint32 \<Rightarrow> lheap \<Rightarrow> (bool \<times> lheap) option" where
  "insert_object_tails d 0 obj ItemCount ItemSize h = Some (True, h)"
| "insert_object_tails d (Suc n) obj ItemCount ItemSize h = do {
     (ok, h) \<leftarrow> ListInsertTail d obj h;
     if \<not> ok then do { h \<leftarrow> remove_tails (ItemCount - n) d h; Some (False, h) }
     else insert_object_tails d n (obj + unat ItemSize) ItemCount ItemSize h }"

definition ListInsertArrayTail :: "laddr \<Rightarrow> laddr \<Rightarrow> uint32 \<Rightarrow> uint32 \<Rightarrow> lheap \<Rightarrow> (bool \<times> lheap) option" where
  "ListInsertArrayTail d pArray ItemCount ItemSize h =
     insert_object_tails d (unat ItemCount) pArray (unat ItemCount) ItemSize h"

definition ListIsObjectInList :: "laddr \<Rightarrow> laddr \<Rightarrow> lheap \<Rightarrow> bool option" where
  "ListIsObjectInList d obj h = do { i \<leftarrow> QListFindFromHead d None obj h; Some (i \<noteq> NULL) }"

definition ListGetObjectAt :: "laddr \<Rightarrow> uint32 \<Rightarrow> lheap \<Rightarrow> laddr option" where
  "ListGetObjectAt d Index h = do {
     i \<leftarrow> QListGetItemAt d Index h;
     if i \<noteq> NULL then get_obj i h else Some NULL }"

text \<open>A function of the caller on objects, as the loops of the searches apply it to items.\<close>

definition ListFindFromHead :: "laddr \<Rightarrow> (laddr \<Rightarrow> bool) \<Rightarrow> lheap \<Rightarrow> laddr option" where
  "ListFindFromHead d pfnFunc h = do {
     x \<leftarrow> QListHead d h;
     i \<leftarrow> find_from (\<lambda>x. QListNext d x h) (\<lambda>x. pfnFunc (pObject h x)) x;
     if i \<noteq> NULL then get_obj i h else Some NULL }"

definition ListFindFromTail :: "laddr \<Rightarrow> (laddr \<Rightarrow> bool) \<Rightarrow> lheap \<Rightarrow> laddr option" where
  "ListFindFromTail d pfnFunc h = do {
     x \<leftarrow> QListTail d h;
     i \<leftarrow> find_from (\<lambda>x. QListPrev d x h) (\<lambda>x. pfnFunc (pObject h x)) x;
     if i \<noteq> NULL then get_obj i h else Some NULL }"

definition ListApplyFunc :: "laddr \<Rightarrow> (laddr \<Rightarrow> 's \<Rightarrow> 's) \<Rightarrow> 's \<Rightarrow> lheap \<Rightarrow> 's option" where
  "ListApplyFunc d f s h = do { x \<leftarrow> QListHead d h; apply_from d h (\<lambda>x. f (pObject h x)) x s }"

subsection \<open>Queues and stacks\<close>

definition QueueInsert :: "laddr \<Rightarrow> laddr \<Rightarrow> lheap \<Rightarrow> (bool \<times> lheap) option" where
  "QueueInsert q obj h = ListInsertTail q obj h"

definition QueueInsertArray :: "laddr \<Rightarrow> laddr \<Rightarrow> uint32 \<Rightarrow> uint32 \<Rightarrow> lheap \<Rightarrow> (bool \<times> lheap) option" where
  "QueueInsertArray q pArray ItemCount ItemSize h = ListInsertArrayTail q pArray ItemCount ItemSize h"

definition QueueRemove :: "laddr \<Rightarrow> lheap \<Rightarrow> (laddr \<times> lheap) option" where
  "QueueRemove q h = ListRemoveHead q h"

definition QueueGetHead :: "laddr \<Rightarrow> lheap \<Rightarrow> laddr option" where
  "QueueGetHead q h = do { i \<leftarrow> ListHead q h; if i \<noteq> NULL then ListObj i h else Some NULL }"

definition StackPush :: "laddr \<Rightarrow> laddr \<Rightarrow> lheap \<Rightarrow> (bool \<times> lheap) option" where
  "StackPush s obj h = ListInsertHead s obj h"

definition StackPushArray :: "laddr \<Rightarrow> laddr \<Rightarrow> uint32 \<Rightarrow> uint32 \<Rightarrow> lheap \<Rightarrow> (bool \<times> lheap) option" where
  "StackPushArray s pArray ItemCount ItemSize h = ListInsertArrayHead s pArray ItemCount ItemSize h"

definition StackPop :: "laddr \<Rightarrow> lheap \<Rightarrow> (laddr \<times> lheap) option" where
  "StackPop s h = ListRemoveHead s h"

end
