(* ===== verification/DList_Inv.thy ===== *)
theory DList_Inv
  imports DList "HOL-Library.Multiset"
begin

text \<open>
  The invariant of a list of objects: the list, the pool of free items and the list of memory blocks are
  quick lists that share no item, all of them in live memory, and the blocks of the list are the ones that are
  live beside those of the rest of the program (\<open>base\<close>).  An item may be in hand, between two lists.
\<close>

subsection \<open>Memory\<close>

definition in_use :: "lheap \<Rightarrow> laddr set" where
  "in_use h = (\<Union>b\<in>set (live h). {fst b..<fst b + snd b})"

text \<open>The fields of the addresses in \<open>A\<close> and the control data are the same.\<close>

definition agree :: "laddr set \<Rightarrow> lheap \<Rightarrow> lheap \<Rightarrow> bool" where
  "agree A h h' \<longleftrightarrow> (\<forall>a \<in> A. pNextItem h' a = pNextItem h a \<and> pPrevItem h' a = pPrevItem h a \<and>
     pObject h' a = pObject h a \<and> m_Count h' a = m_Count h a) \<and>
   m_pObjMgr h' = m_pObjMgr h \<and> GrowItems h' = GrowItems h \<and> m_Initialized h' = m_Initialized h"

lemma agree_at:
  "agree A h h' \<Longrightarrow> a \<in> A \<Longrightarrow> pNextItem h' a = pNextItem h a \<and> pPrevItem h' a = pPrevItem h a \<and>
     pObject h' a = pObject h a \<and> m_Count h' a = m_Count h a"
  by (simp add: agree_def)

lemma agree_fields:
  "agree A h h' \<Longrightarrow> m_pObjMgr h' = m_pObjMgr h \<and> GrowItems h' = GrowItems h \<and> m_Initialized h' = m_Initialized h"
  by (simp add: agree_def)

lemma agree_trans: "agree A h h' \<Longrightarrow> agree B h' h'' \<Longrightarrow> agree (A \<inter> B) h h''"
  by (auto simp: agree_def)

lemma agree_mono: "agree A h h' \<Longrightarrow> B \<subseteq> A \<Longrightarrow> agree B h h'"
  by (auto simp: agree_def)

lemma outside_agree: "outside S h h' \<Longrightarrow> agree (- S) h h'"
  using outside_at [of S h h'] outside_fields [of S h h'] by (auto simp: agree_def)

lemma qlist_agree:
  assumes "qlist h l xs" "agree A h h'" "set (l # xs) \<subseteq> A"
  shows "qlist h' l xs"
proof -
  have "chain (pNextItem h') (pPrevItem h') (l # xs @ [l]) = chain (pNextItem h) (pPrevItem h) (l # xs @ [l])"
    by (rule chain_cong) (use agree_at [OF assms(2)] assms(3) in auto)
  with assms agree_at [OF assms(2), of l] show ?thesis by (simp add: qlist_def ring_def)
qed

lemma in_use_live: "live h' = live h \<Longrightarrow> in_use h' = in_use h"
  by (simp add: in_use_def)

lemma alloc_cases:
  obtains (failed) "MemoryAllocate B h = (NULL, h\<lparr>allocs := tl (allocs h)\<rparr>)"
  | (block) p where "MemoryAllocate B h = (p, h\<lparr>allocs := tl (allocs h), live := (p, unat B) # live h\<rparr>)"
    "p \<noteq> NULL" "{p..<p + unat B} \<inter> in_use h = {}" "p \<notin> fst ` set (live h)"
proof (cases "allocs h")
  case Nil
  then have "h\<lparr>allocs := tl (allocs h)\<rparr> = h" by (cases h) simp
  with Nil show ?thesis by (intro failed) (simp add: MemoryAllocate_def)
next
  case (Cons p ps)
  show ?thesis
  proof (cases "p = NULL \<or> list_ex (overlap (p, unat B)) (live h)")
    case True
    with Cons show ?thesis by (intro failed) (auto simp: MemoryAllocate_def)
  next
    case False
    then have no: "\<not> overlap (p, unat B) b" if "b \<in> set (live h)" for b using that by (auto simp: list_ex_iff)
    have "{p..<p + unat B} \<inter> {fst b..<fst b + snd b} = {}" if "b \<in> set (live h)" for b
    proof -
      have "\<not> (p < fst b + snd b \<and> fst b < p + unat B)" using no [OF that] by (auto simp: overlap_def)
      then show ?thesis by auto
    qed
    then have "{p..<p + unat B} \<inter> in_use h = {}" unfolding in_use_def by blast
    moreover have "p \<notin> fst ` set (live h)" using no by (force simp: overlap_def)
    ultimately show ?thesis using False Cons by (intro block [of p]) (auto simp: MemoryAllocate_def)
  qed
qed

lemma alloc_clear_cases:
  obtains (failed) h' where "MemoryAllocateAndClear B h = (NULL, h')" "fst (MemoryAllocate B h) = NULL"
    "agree UNIV h h'" "live h' = live h"
  | (block) p h' where "MemoryAllocateAndClear B h = (p, h')" "fst (MemoryAllocate B h) = p" "p \<noteq> NULL"
    "{p..<p + unat B} \<inter> in_use h = {}" "p \<notin> fst ` set (live h)" "agree (- {p..<p + unat B}) h h'"
    "live h' = (p, unat B) # live h"
proof (cases rule: alloc_cases [of B h])
  case failed
  note f = this
  show ?thesis
    by (rule that(1) [of "h\<lparr>allocs := tl (allocs h)\<rparr>"]) (use f in \<open>auto simp: MemoryAllocateAndClear_def agree_def\<close>)
next
  case (block p)
  note b = this
  show ?thesis
    by (rule that(2) [of p "MemoryClear p (unat B) (h\<lparr>allocs := tl (allocs h), live := (p, unat B) # live h\<rparr>)"])
      (use b in \<open>auto simp: MemoryAllocateAndClear_def agree_def MemoryClear_def\<close>)
qed

subsection \<open>The invariant\<close>

definition rep :: "lheap \<Rightarrow> laddr \<Rightarrow> (laddr \<times> nat) list \<Rightarrow> laddr list \<Rightarrow> laddr list \<Rightarrow> laddr list \<Rightarrow> laddr list \<Rightarrow> bool" where
  "rep h d base items free blocks hand \<longleftrightarrow>
     qlist h d items \<and> qlist h (m_FreeItemList d) free \<and> qlist h (m_pObjMgr h d) blocks \<and>
     m_Initialized h (m_pObjMgr h d) \<and>
     distinct ([d, m_FreeItemList d, m_pObjMgr h d] @ items @ free @ blocks @ hand) \<and> NULL \<notin> set hand \<and>
     set ([d, m_FreeItemList d, m_pObjMgr h d] @ items @ free @ blocks @ hand) \<subseteq> in_use h \<and>
     filter (\<lambda>b. fst b \<notin> set (m_pObjMgr h d # blocks)) (live h) = base \<and>
     GrowItems h d \<noteq> 0 \<and> 24 * (unat (GrowItems h d) + 1) < 2 ^ 32 \<and>
     length (items @ free @ hand) < 2 ^ 32 \<and> length blocks \<le> length (items @ free @ hand)"

lemma rep_lists:
  assumes "rep h d base items free blocks hand"
  shows "qlist h d items" "qlist h (m_FreeItemList d) free" "qlist h (m_pObjMgr h d) blocks"
    "m_Initialized h (m_pObjMgr h d)" "NULL \<notin> set hand"
    "distinct ([d, m_FreeItemList d, m_pObjMgr h d] @ items @ free @ blocks @ hand)"
    "set ([d, m_FreeItemList d, m_pObjMgr h d] @ items @ free @ blocks @ hand) \<subseteq> in_use h"
    "length (items @ free @ hand) < 2 ^ 32"
  using assms by (auto simp: rep_def)

lemma rep_change:
  assumes r: "rep h d base items free blocks hand" and a: "agree A h h'" and live: "live h' = live h"
    and kept: "set (m_pObjMgr h d # blocks) \<subseteq> A"
    and q: "qlist h' d items'" "qlist h' (m_FreeItemList d) free'"
    and ms: "mset (items' @ free' @ hand') = mset (items @ free @ hand)"
  shows "rep h' d base items' free' blocks hand'"
proof -
  have m: "m_pObjMgr h' d = m_pObjMgr h d" "m_Initialized h' = m_Initialized h" "GrowItems h' = GrowItems h"
    using agree_fields [OF a] by auto
  have len: "length (items' @ free' @ hand') = length (items @ free @ hand)"
    by (rule mset_eq_length [OF ms])
  have st: "set (items' @ free' @ hand') = set (items @ free @ hand)" using ms by (rule mset_eq_setD)
  have "mset (items' @ free' @ blocks @ hand') = mset (items @ free @ blocks @ hand)"
    using ms by (simp add: union_ac)
  then have "mset ([d, m_FreeItemList d, m_pObjMgr h d] @ items' @ free' @ blocks @ hand') =
      mset ([d, m_FreeItemList d, m_pObjMgr h d] @ items @ free @ blocks @ hand)" by simp
  note all = mset_eq_imp_distinct_iff [OF this] mset_eq_setD [OF this]
  have nz: "NULL \<notin> set (items @ free @ hand)" using rep_lists(1,2,5) [OF r] by (simp add: qlist_def)
  have "qlist h' (m_pObjMgr h d) blocks" by (rule qlist_agree [OF rep_lists(3) [OF r] a kept])
  moreover have "NULL \<notin> set hand'" using nz unfolding st [symmetric] by simp
  ultimately show ?thesis
    using r q in_use_live [OF live] live unfolding rep_def m all len by simp
qed

definition dlist :: "lheap \<Rightarrow> laddr \<Rightarrow> (laddr \<times> nat) list \<Rightarrow> laddr list \<Rightarrow> bool" where
  "dlist h d base objs \<longleftrightarrow> (\<exists>items free blocks. rep h d base items free blocks [] \<and> map (pObject h) items = objs)"

section \<open>The pool of free items\<close>

text \<open>
  The pool of free items: an item is taken from it, or it grows by a block of new items, or it is
  exhausted.
\<close>

definition pool_exhausted :: "lheap \<Rightarrow> laddr \<Rightarrow> bool" where
  "pool_exhausted h d \<longleftrightarrow> m_Count h (m_FreeItemList d) = 0 \<and>
     fst (MemoryAllocate (of_nat sizeof_LIST_ITEM * GrowItems h d + of_nat sizeof_LIST_ITEM) h) = NULL"

lemma array_items_range:
  "a \<in> set (array_items p n 24) \<Longrightarrow> p \<le> a \<and> a < p + 24 * n"
  by (auto simp: array_items_def)

lemma array_items_distinct: "distinct (array_items p n 24)"
  by (auto simp: array_items_def distinct_map inj_on_def)

text \<open>What stays the same of the objects while items move between the list and the pool.\<close>

definition same_objects :: "lheap \<Rightarrow> lheap \<Rightarrow> laddr list \<Rightarrow> laddr \<Rightarrow> bool" where
  "same_objects h h' items d \<longleftrightarrow> (\<forall>i \<in> set items. pObject h' i = pObject h i) \<and> GrowItems h' d = GrowItems h d"

lemma same_objects_map: "same_objects h h' items d \<Longrightarrow> map (pObject h') items = map (pObject h) items"
  by (simp add: same_objects_def)

lemma grow_bytes:
  assumes "24 * (unat (g :: uint32) + 1) < 2 ^ 32"
  shows "unat (of_nat sizeof_LIST_ITEM * g + of_nat sizeof_LIST_ITEM) = 24 * (unat g + 1)"
proof -
  have "unat (24 * g) = 24 * unat g" using assms by (simp add: unat_word_ariths)
  then show ?thesis using assms by (simp add: unat_word_ariths)
qed

lemma pool_grow_ok:
  assumes r: "rep h d base items [] blocks []" and room: "length items + unat (GrowItems h d) < 2 ^ 32"
  shows "\<exists>h' free' blocks'. FreeItemPoolGrow d h = Some h' \<and> rep h' d base items free' blocks' [] \<and>
    (free' = [] \<longleftrightarrow> pool_exhausted h d) \<and> same_objects h h' items d"
proof -
  let ?m = "m_pObjMgr h d" and ?f = "m_FreeItemList d" and ?g = "GrowItems h d"
  let ?B = "of_nat sizeof_LIST_ITEM * ?g + of_nat sizeof_LIST_ITEM :: uint32"
  note lists = rep_lists [OF r]
  have g: "?g \<noteq> 0" "24 * (unat ?g + 1) < 2 ^ 32" and lb: "length blocks \<le> length items"
    and base: "filter (\<lambda>b. fst b \<notin> set (?m # blocks)) (live h) = base" using r by (simp_all add: rep_def)
  have B: "unat ?B = 24 * (unat ?g + 1)" using grow_bytes [OF g(2)] .
  have cnt: "m_Count h ?f = 0" using qlist_empty [OF lists(2)] by simp
  let ?use = "set ([d, ?f, ?m] @ items @ blocks)"
  have use: "?use \<subseteq> in_use h" using lists(7) by auto
  show ?thesis
  proof (cases rule: alloc_clear_cases [of ?B h])
    case (failed h')
    have "rep h' d base items [] blocks []"
      by (rule rep_change [OF r failed(3,4)]) (use qlist_agree [OF _ failed(3)] lists in auto)
    moreover have "same_objects h h' items d" using failed(3) by (simp add: same_objects_def agree_def)
    moreover have "FreeItemPoolGrow d h = Some h'"
      using failed(1) by (simp add: FreeItemPoolGrow_def ObjMgrAllocate_def)
    ultimately show ?thesis using cnt failed(2) by (auto simp: pool_exhausted_def)
  next
    case (block p h1)
    define R where "R = {p..<p + unat ?B}"
    define as where "as = array_items (p + 24) (unat ?g) 24"
    have p_in: "p \<in> R" using B by (simp add: R_def)
    have "a \<in> R \<and> a \<noteq> p" if "a \<in> set as" for a
      using array_items_range [of a "p + 24" "unat ?g"] that B by (simp add: as_def R_def)
    then have as_in: "set as \<subseteq> R" "p \<notin> set as" by auto
    have as_props: "distinct as" "length as = unat ?g" "NULL \<notin> set as"
      using array_items_distinct array_items_range [of NULL "p + 24" "unat ?g"] by (auto simp: as_def array_items_def)
    have apart: "R \<inter> ?use = {}" using block(4) use unfolding R_def by blast
    define h2 where "h2 = h1\<lparr>pObject := (pObject h1)(p := p + 24)\<rparr>"
    have a2: "agree (- R) h h2" using block(6) p_in unfolding R_def by (auto simp: agree_def h2_def)
    have h2: "put_obj p (p + sizeof_LIST_ITEM) h1 = Some h2" using block(3) by (simp add: put_obj_def h2_def)
    have m2: "qlist h2 ?m blocks" by (rule qlist_agree [OF lists(3) a2]) (use apart in auto)
    have g1: "unat ?g \<ge> 1" using g(1) by (simp add: Suc_le_eq unat_gt_0)
    then have "Suc (length blocks) < 2 ^ 32" using lb room by linarith
    moreover have "p \<notin> set (?m # blocks)" using p_in apart by auto
    ultimately obtain h3 where h3: "QListInsertHead ?m p h2 = Some h3" "becomes h2 h3 ?m (p # blocks) (set (?m # p # blocks))"
      using insert_head_ok [OF m2] block(3) by blast
    have o3: "outside (set (?m # p # blocks)) h2 h3" using h3(2) by (simp add: becomes_def)
    have obj: "get_obj p h3 = Some (p + 24)"
      using outside_fields [OF o3] block(3) by (simp add: get_obj_def h2_def)
    have a3: "agree (- R \<inter> - set (?m # p # blocks)) h h3" using agree_trans [OF a2 outside_agree [OF o3]] .
    have f3: "qlist h3 ?f []" by (rule qlist_agree [OF lists(2) a3]) (use lists(6) apart p_in in auto)
    have n3: "m_pObjMgr h3 = m_pObjMgr h" "GrowItems h3 = GrowItems h" using agree_fields [OF a3] by auto
    have c: "array_items (p + 24) (unat ?g) (unat (24 :: uint32)) = as" by (simp add: as_def)
    have conds: "set as \<inter> set [?f] = {}" "unat ?g + length ([] :: laddr list) < 2 ^ 32"
      "unat (24 :: uint32) * (unat ?g - 1) < 2 ^ 32"
      using as_in(1) apart room g(2) by auto
    have "\<exists>h'. QListInsertArrayHead ?f (p + 24) ?g 24 h3 = Some h' \<and> becomes h3 h' ?f (as @ []) (set (?f # as @ []))"
      by (rule insert_array_head_ok [OF f3, of "p + 24" ?g 24, unfolded c])
        (rule conds as_props g)+
    then obtain h' where h': "QListInsertArrayHead ?f (p + 24) ?g 24 h3 = Some h'" "becomes h3 h' ?f as (set (?f # as))"
      by auto
    have o4: "outside (set (?f # as)) h3 h'" using h'(2) by (simp add: becomes_def)
    have a4: "agree (- R \<inter> - set (?m # p # blocks) \<inter> - set (?f # as)) h h'"
      using agree_trans [OF a3 outside_agree [OF o4]] .
    have n4: "m_pObjMgr h' = m_pObjMgr h" "GrowItems h' = GrowItems h" "m_Initialized h' = m_Initialized h"
      using agree_fields [OF a4] by auto
    have dis: "distinct ([d, ?f, ?m] @ items @ blocks)" using lists(6) by auto
    have "set (d # items) \<subseteq> - R \<inter> - set (?m # p # blocks) \<inter> - set (?f # as)"
      using dis apart as_in p_in by auto
    note keeps = this
    have items': "qlist h' d items" by (rule qlist_agree [OF lists(1) a4 keeps])
    have blocks': "qlist h' ?m (p # blocks)"
      by (rule qlist_agree [OF _ outside_agree [OF o4]]) (use h3(2) dis apart as_in p_in in \<open>auto simp: becomes_def\<close>)
    have live': "live h' = (p, unat ?B) # live h"
      using outside_fields [OF o4] outside_fields [OF o3] block(7) by (simp add: h2_def)
    then have use': "in_use h' = in_use h \<union> R" unfolding R_def in_use_def by auto
    have "filter (\<lambda>b. fst b \<notin> set (?m # p # blocks)) (live h') = base"
      unfolding live' base [symmetric] using block(5) by (auto intro!: filter_cong)
    moreover have "distinct ([d, ?f, ?m] @ items @ as @ (p # blocks) @ [])"
      using dis apart as_in p_in as_props(1) by auto
    moreover have "set ([d, ?f, ?m] @ items @ as @ (p # blocks) @ []) \<subseteq> in_use h'"
      unfolding use' using use as_in p_in by auto
    ultimately have "rep h' d base items as (p # blocks) []"
      using items' blocks' h'(2) g g1 room lb lists(4) as_props(2) unfolding rep_def n4 by (simp add: becomes_def)
    moreover have "FreeItemPoolGrow d h = Some h'"
      using block(1,3) h2 h3(1) obj h'(1) n3 agree_fields [OF block(6)]
      by (simp add: FreeItemPoolGrow_def ObjMgrAllocate_def)
    moreover have "as \<noteq> []" using as_props(2) g1 by auto
    moreover have "same_objects h h' items d"
      using agree_at [OF a4] keeps n4 by (auto simp: same_objects_def)
    ultimately show ?thesis using block(2,3) by (auto simp: pool_exhausted_def)
  qed
qed

end
