(* ===== verification/DList_Ops.thy ===== *)
theory DList_Ops
  imports DList_Inv
begin

text \<open>
  The operations of a list of objects, in terms of the sequence of its objects.
\<close>

subsection \<open>Items\<close>

lemma free_to_hand:
  assumes r: "rep h d base items (i # free) blocks []"
  shows "\<exists>h'. QListRemoveHead (m_FreeItemList d) h = Some (i, h') \<and> rep h' d base items free blocks [i] \<and>
    same_objects h h' items d \<and> i \<noteq> NULL"
proof -
  let ?f = "m_FreeItemList d"
  note lists = rep_lists [OF r]
  obtain h' where h': "QListRemoveHead ?f h = Some (i, h')" "becomes h h' ?f free (set (?f # i # free))"
    using remove_head_ok [OF lists(2)] by auto
  have o: "outside (set (?f # i # free)) h h'" using h'(2) by (simp add: becomes_def)
  note a = outside_agree [OF o]
  have nz: "i \<noteq> NULL" using lists(2) by (auto simp: qlist_def)
  have "rep h' d base items free blocks [i]"
  proof (rule rep_change [OF r a])
    show "live h' = live h" using outside_fields [OF o] by simp
    show "qlist h' d items" by (rule qlist_agree [OF lists(1) a]) (use lists(6) in auto)
    show "qlist h' ?f free" using h'(2) by (simp add: becomes_def)
  qed (use lists(6) in auto)
  with h'(1) nz outside_fields [OF o] show ?thesis by (auto simp: same_objects_def)
qed

lemma free_item_get_ok:
  assumes r: "rep h d base items free blocks []" and room: "length items + unat (GrowItems h d) < 2 ^ 32"
  shows "\<exists>i h' free' blocks'. FreeItemGet d h = Some (i, h') \<and> (i = NULL \<longleftrightarrow> pool_exhausted h d) \<and>
    same_objects h h' items d \<and> rep h' d base items free' blocks' (if i = NULL then [] else [i])"
proof -
  let ?f = "m_FreeItemList d"
  note lists = rep_lists [OF r]
  show ?thesis
  proof (cases free)
    case (Cons i fs)
    obtain h' where h': "QListRemoveHead ?f h = Some (i, h')" "rep h' d base items fs blocks [i]"
      "same_objects h h' items d" "i \<noteq> NULL" using free_to_hand r Cons by blast
    moreover have "m_Count h ?f \<noteq> 0" using qlist_empty [OF lists(2)] Cons by simp
    ultimately show ?thesis by (auto simp: FreeItemGet_def QListCount_def pool_exhausted_def)
  next
    case Nil
    then have cnt: "m_Count h ?f = 0" using qlist_empty [OF lists(2)] by simp
    obtain h1 free' blocks' where h1: "FreeItemPoolGrow d h = Some h1" "rep h1 d base items free' blocks' []"
      "free' = [] \<longleftrightarrow> pool_exhausted h d" "same_objects h h1 items d"
      using pool_grow_ok [OF _ room] r Nil by blast
    show ?thesis
    proof (cases free')
      case empty: Nil
      have "QListRemoveHead ?f h1 = Some (NULL, h1)"
        using qlist_empty [OF rep_lists(2) [OF h1(2)]] empty by (simp add: QListRemoveHead_def)
      moreover have "FreeItemGet d h = QListRemoveHead ?f h1" using cnt h1(1) by (simp add: FreeItemGet_def QListCount_def)
      ultimately show ?thesis using h1 empty by auto
    next
      case (Cons i fs)
      obtain h' where h': "QListRemoveHead ?f h1 = Some (i, h')" "rep h' d base items fs blocks' [i]"
        "same_objects h1 h' items d" "i \<noteq> NULL" using free_to_hand h1(2) Cons by blast
      moreover have "same_objects h h' items d" using h1(4) h'(3) by (simp add: same_objects_def)
      moreover have "FreeItemGet d h = QListRemoveHead ?f h1" using cnt h1(1) by (simp add: FreeItemGet_def QListCount_def)
      ultimately show ?thesis using h1(3) Cons by auto
    qed
  qed
qed

lemma placed:
  assumes r: "rep h d base items free blocks [i]" and b: "becomes (h\<lparr>pObject := (pObject h)(i := obj)\<rparr>) h2 d items' (set (d # i # items))"
    and ms: "mset items' = add_mset i (mset items)"
  shows "rep h2 d base items' free blocks []" "pObject h2 i = obj" "same_objects h h2 items d"
proof -
  let ?h1 = "h\<lparr>pObject := (pObject h)(i := obj)\<rparr>"
  note lists = rep_lists [OF r]
  have o: "outside (set (d # i # items)) ?h1 h2" using b by (simp add: becomes_def)
  have "agree (- {i}) h ?h1" by (auto simp: agree_def)
  note a = agree_trans [OF this outside_agree [OF o]]
  show "rep h2 d base items' free blocks []"
  proof (rule rep_change [OF r a])
    show "live h2 = live h" using outside_fields [OF o] by simp
    show "qlist h2 d items'" using b by (simp add: becomes_def)
    show "qlist h2 (m_FreeItemList d) free" by (rule qlist_agree [OF lists(2) a]) (use lists(6) in auto)
    show "mset (items' @ free @ []) = mset (items @ free @ [i])" using ms by (simp add: union_ac)
  qed (use lists(6) in auto)
  show "pObject h2 i = obj" using outside_fields [OF o] by simp
  have "i \<notin> set items" using lists(6) by auto
  then show "same_objects h h2 items d" using outside_fields [OF o] by (auto simp: same_objects_def)
qed

lemma returned:
  assumes r: "rep h d base items free blocks []" and b: "becomes h h1 d items' (set (d # items))"
    and ms: "mset items = add_mset i (mset items')"
  shows "\<exists>h2. QListInsertHead (m_FreeItemList d) i h1 = Some h2 \<and> rep h2 d base items' (i # free) blocks [] \<and>
    pObject h2 = pObject h \<and> GrowItems h2 = GrowItems h \<and> i \<noteq> NULL"
proof -
  let ?f = "m_FreeItemList d"
  note lists = rep_lists [OF r]
  have o1: "outside (set (d # items)) h h1" using b by (simp add: becomes_def)
  have i_in: "i \<in> set items" using mset_eq_setD [of items "i # items'"] ms by auto
  have "NULL \<notin> set items" using lists(1) by (simp add: qlist_def)
  then have i: "i \<noteq> NULL" using i_in by metis
  have f1: "qlist h1 ?f free" by (rule qlist_agree [OF lists(2) outside_agree [OF o1]]) (use lists(6) in auto)
  have nin: "i \<notin> set (?f # free)" using i_in lists(6) by auto
  have "length items = Suc (length items')" using mset_eq_length [of items "i # items'"] ms by simp
  then have len: "Suc (length free) < 2 ^ 32" using lists(8) by simp
  obtain h2 where h2: "QListInsertHead ?f i h1 = Some h2" "becomes h1 h2 ?f (i # free) (set (?f # i # free))"
    using insert_head_ok [OF f1 nin i len] by blast
  have o2: "outside (set (?f # i # free)) h1 h2" using h2(2) by (simp add: becomes_def)
  note a = agree_trans [OF outside_agree [OF o1] outside_agree [OF o2]]
  have sub: "set items' \<subseteq> set items" using mset_eq_setD [of items "i # items'"] ms by auto
  have "i \<notin> set items'"
  proof -
    have "distinct (i # items')" using mset_eq_imp_distinct_iff [of items "i # items'"] ms lists(6) by auto
    then show ?thesis by simp
  qed
  then have "qlist h2 d items'"
    using b sub lists(6) i_in by (intro qlist_agree [OF _ outside_agree [OF o2]]) (auto simp: becomes_def)
  moreover have "qlist h2 ?f (i # free)" using h2(2) by (simp add: becomes_def)
  moreover have "live h2 = live h" using outside_fields [OF o1] outside_fields [OF o2] by simp
  moreover have "mset (items' @ (i # free) @ []) = mset (items @ free @ [])" using ms by simp
  moreover have "set (m_pObjMgr h d # blocks) \<subseteq> - set (d # items) \<inter> - set (?f # i # free)"
    using lists(6) i_in by auto
  ultimately have "rep h2 d base items' (i # free) blocks []" by (intro rep_change [OF r a])
  with h2(1) i outside_fields [OF o1] outside_fields [OF o2] show ?thesis by simp
qed

subsection \<open>Insertion\<close>

lemma put_obj_item: "i \<noteq> NULL \<Longrightarrow> put_obj i obj h = Some (h\<lparr>pObject := (pObject h)(i := obj)\<rparr>)"
  by (simp add: put_obj_def)

text \<open>Taking an item and hanging an object on it, for any of the four ways to insert the item.\<close>

lemma insert_object_ok:
  assumes r: "rep h d base items free blocks []" and room: "length items + unat (GrowItems h d) < 2 ^ 32"
    and ins: "\<And>h1 i. qlist h1 d items \<Longrightarrow> i \<notin> set (d # items) \<Longrightarrow> i \<noteq> NULL \<Longrightarrow> Suc (length items) < 2 ^ 32 \<Longrightarrow>
      \<exists>h2. insert_item i h1 = Some h2 \<and> becomes h1 h2 d (items' i) (set (d # i # items))"
    and ms: "\<And>i. mset (items' i) = add_mset i (mset items)"
  shows "\<exists>i h' free' blocks'. (do { (i, h) \<leftarrow> FreeItemGet d h;
      if i = NULL then Some (False, h) else do { h \<leftarrow> put_obj i obj h; h \<leftarrow> insert_item i h; Some (True, h) } })
      = Some (\<not> pool_exhausted h d, h') \<and>
    rep h' d base (if pool_exhausted h d then items else items' i) free' blocks' [] \<and>
    same_objects h h' items d \<and> (\<not> pool_exhausted h d \<longrightarrow> pObject h' i = obj)"
proof -
  obtain i h1 free' blocks' where h1: "FreeItemGet d h = Some (i, h1)" "i = NULL \<longleftrightarrow> pool_exhausted h d"
    "same_objects h h1 items d" "rep h1 d base items free' blocks' (if i = NULL then [] else [i])"
    using free_item_get_ok [OF r room] by blast
  show ?thesis
  proof (cases "i = NULL")
    case True
    with h1 show ?thesis by auto
  next
    case False
    then have r1: "rep h1 d base items free' blocks' [i]" using h1(4) by simp
    let ?h = "h1\<lparr>pObject := (pObject h1)(i := obj)\<rparr>"
    have "qlist ?h d items" using rep_lists(1) [OF r1] by (simp add: qlist_def ring_def)
    moreover have "i \<notin> set (d # items)" "Suc (length items) < 2 ^ 32" using rep_lists(6,8) [OF r1] by auto
    ultimately obtain h2 where h2: "insert_item i ?h = Some h2" "becomes ?h h2 d (items' i) (set (d # i # items))"
      using ins False by blast
    note p = placed [OF r1 h2(2) ms]
    have "same_objects h h2 items d" using h1(3) p(3) by (simp add: same_objects_def)
    with False h1(1,2) h2(1) p(1,2) show ?thesis by (auto simp: put_obj_item)
  qed
qed

lemma list_insert_head_ok:
  assumes dl: "dlist h d base objs" and room: "length objs + unat (GrowItems h d) < 2 ^ 32"
  shows "\<exists>h'. ListInsertHead d obj h = Some (\<not> pool_exhausted h d, h') \<and>
    dlist h' d base (if pool_exhausted h d then objs else obj # objs) \<and> GrowItems h' d = GrowItems h d"
proof -
  obtain items free blocks where r: "rep h d base items free blocks []" and o: "map (pObject h) items = objs"
    using dl by (auto simp: dlist_def)
  have len: "length items + unat (GrowItems h d) < 2 ^ 32" using room o by auto
  obtain i h' free' blocks' where h': "ListInsertHead d obj h = Some (\<not> pool_exhausted h d, h')"
    "rep h' d base (if pool_exhausted h d then items else i # items) free' blocks' []" "same_objects h h' items d"
    "\<not> pool_exhausted h d \<longrightarrow> pObject h' i = obj"
    using insert_object_ok [OF r len, of "QListInsertHead d" "\<lambda>i. i # items" obj] insert_head_ok
    unfolding ListInsertHead_def by auto
  have "map (pObject h') (if pool_exhausted h d then items else i # items) = (if pool_exhausted h d then objs else obj # objs)"
    using h'(3,4) same_objects_map [OF h'(3)] o by simp
  with h' show ?thesis unfolding dlist_def same_objects_def by blast
qed

lemma list_insert_tail_ok:
  assumes dl: "dlist h d base objs" and room: "length objs + unat (GrowItems h d) < 2 ^ 32"
  shows "\<exists>h'. ListInsertTail d obj h = Some (\<not> pool_exhausted h d, h') \<and>
    dlist h' d base (if pool_exhausted h d then objs else objs @ [obj]) \<and> GrowItems h' d = GrowItems h d"
proof -
  obtain items free blocks where r: "rep h d base items free blocks []" and o: "map (pObject h) items = objs"
    using dl by (auto simp: dlist_def)
  have len: "length items + unat (GrowItems h d) < 2 ^ 32" using room o by auto
  obtain i h' free' blocks' where h': "ListInsertTail d obj h = Some (\<not> pool_exhausted h d, h')"
    "rep h' d base (if pool_exhausted h d then items else items @ [i]) free' blocks' []" "same_objects h h' items d"
    "\<not> pool_exhausted h d \<longrightarrow> pObject h' i = obj"
    using insert_object_ok [OF r len, of "QListInsertTail d" "\<lambda>i. items @ [i]" obj] insert_tail_ok
    unfolding ListInsertTail_def by auto
  have "map (pObject h') (if pool_exhausted h d then items else items @ [i]) = (if pool_exhausted h d then objs else objs @ [obj])"
    using h'(3,4) same_objects_map [OF h'(3)] o by simp
  with h' show ?thesis unfolding dlist_def same_objects_def by blast
qed

subsection \<open>Removal\<close>

lemma dlist_rep: "dlist h d base objs \<longleftrightarrow>
    (\<exists>items free blocks. rep h d base items free blocks [] \<and> objs = map (pObject h) items)"
  by (auto simp: dlist_def)

lemma list_remove_head_ok:
  assumes dl: "dlist h d base objs"
  shows "\<exists>h'. ListRemoveHead d h = Some (if objs = [] then NULL else hd objs, h') \<and> dlist h' d base (tl objs) \<and>
    GrowItems h' d = GrowItems h d"
proof -
  obtain items free blocks where r: "rep h d base items free blocks []" and o: "objs = map (pObject h) items"
    using dl by (auto simp: dlist_rep)
  show ?thesis
  proof (cases items)
    case Nil
    then have "QListRemoveHead d h = Some (NULL, h)"
      using qlist_empty [OF rep_lists(1) [OF r]] by (simp add: QListRemoveHead_def)
    with Nil o dl show ?thesis by (simp add: ListRemoveHead_def)
  next
    case (Cons i zs)
    obtain h1 where h1: "QListRemoveHead d h = Some (i, h1)" "becomes h h1 d zs (set (d # items))"
      using remove_head_ok [OF rep_lists(1) [OF r]] Cons by auto
    obtain h2 where h2: "QListInsertHead (m_FreeItemList d) i h1 = Some h2" "rep h2 d base zs (i # free) blocks []"
      "pObject h2 = pObject h" "GrowItems h2 = GrowItems h" "i \<noteq> NULL"
      using returned [OF r h1(2), of i] Cons by auto
    have "dlist h2 d base (tl objs)" using h2 o Cons unfolding dlist_rep by auto
    with h1(1) h2 o Cons show ?thesis by (simp add: ListRemoveHead_def get_obj_def)
  qed
qed

lemma list_remove_tail_ok:
  assumes dl: "dlist h d base objs"
  shows "\<exists>h'. ListRemoveTail d h = Some (if objs = [] then NULL else last objs, h') \<and> dlist h' d base (butlast objs) \<and>
    GrowItems h' d = GrowItems h d"
proof -
  obtain items free blocks where r: "rep h d base items free blocks []" and o: "objs = map (pObject h) items"
    using dl by (auto simp: dlist_rep)
  show ?thesis
  proof (cases items rule: rev_cases)
    case Nil
    then have "QListRemoveTail d h = Some (NULL, h)"
      using qlist_empty [OF rep_lists(1) [OF r]] by (simp add: QListRemoveTail_def QListIsEmpty_def)
    with Nil o dl show ?thesis by (simp add: ListRemoveTail_def)
  next
    case (snoc zs i)
    obtain h1 where h1: "QListRemoveTail d h = Some (i, h1)" "becomes h h1 d zs (set (d # items))"
      using remove_tail_ok [OF rep_lists(1) [OF r]] snoc by auto
    obtain h2 where h2: "QListInsertHead (m_FreeItemList d) i h1 = Some h2" "rep h2 d base zs (i # free) blocks []"
      "pObject h2 = pObject h" "GrowItems h2 = GrowItems h" "i \<noteq> NULL"
      using returned [OF r h1(2), of i] snoc by auto
    have "dlist h2 d base (butlast objs)" using h2 o snoc unfolding dlist_rep by auto
    with h1(1) h2 o snoc show ?thesis by (simp add: ListRemoveTail_def get_obj_def)
  qed
qed

lemma list_remove_item_ok:
  assumes r: "rep h d base (xs @ i # ys) free blocks []"
  shows "\<exists>h'. ListRemoveItem d i h = Some h' \<and> rep h' d base (xs @ ys) (i # free) blocks [] \<and>
    pObject h' = pObject h \<and> GrowItems h' = GrowItems h"
proof -
  obtain h1 where h1: "QListRemoveItem d i h = Some h1" "becomes h h1 d (xs @ ys) (set (d # xs @ i # ys))"
    using remove_item_ok [OF rep_lists(1) [OF r]] by blast
  with returned [OF r h1(2), of i] show ?thesis by (auto simp: ListRemoveItem_def)
qed

lemma list_remove_object_ok:
  assumes dl: "dlist h d base objs"
  shows "\<exists>h'. ListRemoveObject d obj h = Some (obj \<in> set objs, h') \<and> dlist h' d base (remove1 obj objs) \<and>
    GrowItems h' d = GrowItems h d"
proof -
  obtain items free blocks where r: "rep h d base items free blocks []" and o: "objs = map (pObject h) items"
    using dl by (auto simp: dlist_rep)
  note q = rep_lists(1) [OF r]
  let ?P = "\<lambda>x. pObject h x = obj"
  have f: "QListFindFromHead d None obj h = Some (found ?P items)"
    using find_head_ok [OF q, of None obj] by (simp add: find_test_def [abs_def])
  have nz: "NULL \<notin> set items" using q by (simp add: qlist_def)
  show ?thesis
  proof (cases "obj \<in> set objs")
    case False
    then have "found ?P items = NULL" using o found_null [OF nz, of ?P] by auto
    with f False dl show ?thesis by (simp add: ListRemoveObject_def remove1_idem)
  next
    case True
    then obtain i where "i \<in> set items" "?P i" using o by auto
    then obtain xs j ys where split: "items = xs @ j # ys" "?P j" "\<forall>x \<in> set xs. \<not> ?P x"
      using split_list_first_prop [of items ?P] by blast
    have "found ?P items = j" unfolding split(1) using split(2,3) by (induction xs) auto
    moreover have "j \<noteq> NULL" using nz split(1) by auto
    moreover obtain h' where h': "ListRemoveItem d j h = Some h'" "rep h' d base (xs @ ys) (j # free) blocks []"
      "pObject h' = pObject h" "GrowItems h' = GrowItems h"
      using list_remove_item_ok r split(1) by blast
    moreover have "remove1 obj objs = map (pObject h) (xs @ ys)"
      using split o by (auto simp: remove1_append)
    ultimately have res: "ListRemoveObject d obj h = Some (True, h')" and e: "remove1 obj objs = map (pObject h') (xs @ ys)"
      using f by (auto simp: ListRemoveObject_def ListRemoveItem_def split: Option.bind_splits)
    have "dlist h' d base (remove1 obj objs)" unfolding dlist_rep e using h'(2) by blast
    with res True h'(4) show ?thesis by simp
  qed
qed

lemma list_remove_all_ok:
  assumes dl: "dlist h d base objs"
  shows "\<exists>h'. ListRemoveAll d h = Some h' \<and> dlist h' d base [] \<and> GrowItems h' d = GrowItems h d"
proof -
  let ?f = "m_FreeItemList d"
  obtain items free blocks where r: "rep h d base items free blocks []" using dl by (auto simp: dlist_rep)
  note lists = rep_lists [OF r]
  have dis: "set (?f # free) \<inter> set (d # items) = {}" "length items + length free < 2 ^ 32" using lists(6,8) by auto
  obtain h' where h': "ListRemoveAll d h = Some h'" "both h h' ?f (items @ free) d [] (set (?f # d # free @ items))"
    using insert_list_head_ok [OF lists(2,1) dis] by (auto simp: ListRemoveAll_def)
  have o: "outside (set (?f # d # free @ items)) h h'" using h'(2) by (simp add: both_def)
  have "rep h' d base [] (items @ free) blocks []"
    by (rule rep_change [OF r outside_agree [OF o]])
      (use h'(2) outside_fields [OF o] lists(6) in \<open>auto simp: both_def\<close>)
  with h'(1) outside_fields [OF o] show ?thesis by (auto simp: dlist_rep)
qed

end
