(* ===== verification/DList_Life.thy ===== *)
theory DList_Life
  imports DList_Ops
begin

text \<open>
  Arrays of objects, searches, and the life of a list of objects, from its initialisation to its
  destruction.
\<close>

subsection \<open>Arrays\<close>

lemma remove_heads_ok:
  "dlist h d base objs \<Longrightarrow> \<exists>h'. remove_heads n d h = Some h' \<and> dlist h' d base (drop n objs) \<and> GrowItems h' d = GrowItems h d"
proof (induction n arbitrary: h objs)
  case 0
  then show ?case by simp
next
  case (Suc n)
  obtain h1 where h1: "ListRemoveHead d h = Some (if objs = [] then NULL else hd objs, h1)" "dlist h1 d base (tl objs)"
    "GrowItems h1 d = GrowItems h d" using list_remove_head_ok [OF Suc.prems] by blast
  with Suc.IH [OF h1(2)] show ?case by (auto simp: drop_Suc)
qed

lemma remove_tails_ok:
  "dlist h d base objs \<Longrightarrow> \<exists>h'. remove_tails n d h = Some h' \<and> dlist h' d base (take (length objs - n) objs) \<and>
     GrowItems h' d = GrowItems h d"
proof (induction n arbitrary: h objs)
  case 0
  then show ?case by simp
next
  case (Suc n)
  obtain h1 where h1: "ListRemoveTail d h = Some (if objs = [] then NULL else last objs, h1)" "dlist h1 d base (butlast objs)"
    "GrowItems h1 d = GrowItems h d" using list_remove_tail_ok [OF Suc.prems] by blast
  have "take (length (butlast objs) - n) (butlast objs) = take (length objs - Suc n) objs"
    by (simp add: butlast_conv_take)
  with h1 Suc.IH [OF h1(2)] show ?case by auto
qed

lemma insert_object_heads_ok:
  assumes "dlist h d base (ins @ objs)" "length ins + n = N" "N + length objs + unat (GrowItems h d) < 2 ^ 32"
  shows "\<exists>b h'. insert_object_heads d n (p + (n - 1) * unat sz) N sz h = Some (b, h') \<and>
    dlist h' d base (if b then array_items p n (unat sz) @ ins @ objs else tl objs)"
  using assms
proof (induction n arbitrary: h ins)
  case 0
  then show ?case by (auto simp: array_items_def)
next
  case (Suc n)
  let ?x = "p + n * unat sz" and ?full = "pool_exhausted h d"
  obtain h1 where h1: "ListInsertHead d ?x h = Some (\<not> ?full, h1)"
    "dlist h1 d base (if ?full then ins @ objs else ?x # ins @ objs)" "GrowItems h1 d = GrowItems h d"
    using list_insert_head_ok [OF Suc.prems(1), of ?x] Suc.prems by auto
  show ?case
  proof (cases ?full)
    case True
    obtain h2 where h2: "remove_heads (N - n) d h1 = Some h2" "dlist h2 d base (drop (N - n) (ins @ objs))"
      using remove_heads_ok [of h1 d base "ins @ objs" "N - n"] h1(2) True by auto
    have "N - n = Suc (length ins)" using Suc.prems(2) by simp
    then have "drop (N - n) (ins @ objs) = tl objs" by (simp add: drop_Suc)
    then have "dlist h2 d base (tl objs)" using h2(2) by simp
    moreover have "insert_object_heads d (Suc n) ?x N sz h = Some (False, h2)" using h1(1) True h2(1) by simp
    ultimately show ?thesis by auto
  next
    case False
    have "\<exists>b h'. insert_object_heads d n (p + (n - 1) * unat sz) N sz h1 = Some (b, h') \<and>
      dlist h' d base (if b then array_items p n (unat sz) @ (?x # ins) @ objs else tl objs)"
      by (rule Suc.IH) (use h1 False Suc.prems in auto)
    moreover have "insert_object_heads d n (?x - unat sz) N sz h1 = insert_object_heads d n (p + (n - 1) * unat sz) N sz h1"
      by (cases n) auto
    ultimately obtain b h' where "insert_object_heads d n (?x - unat sz) N sz h1 = Some (b, h')"
      "dlist h' d base (if b then array_items p n (unat sz) @ (?x # ins) @ objs else tl objs)" by auto
    then have "insert_object_heads d (Suc n) ?x N sz h = Some (b, h')"
      "dlist h' d base (if b then array_items p (Suc n) (unat sz) @ ins @ objs else tl objs)"
      using h1(1) False by (cases b; simp add: array_items_snoc)+
    then show ?thesis by auto
  qed
qed

lemma insert_object_tails_ok:
  assumes "dlist h d base (objs @ ins)" "length ins + n = N" "N + length objs + unat (GrowItems h d) < 2 ^ 32"
  shows "\<exists>b h'. insert_object_tails d n p N sz h = Some (b, h') \<and>
    dlist h' d base (if b then objs @ ins @ array_items p n (unat sz) else butlast objs)"
  using assms
proof (induction n arbitrary: h ins p)
  case 0
  then show ?case by (auto simp: array_items_def)
next
  case (Suc n)
  let ?full = "pool_exhausted h d"
  obtain h1 where h1: "ListInsertTail d p h = Some (\<not> ?full, h1)"
    "dlist h1 d base (if ?full then objs @ ins else (objs @ ins) @ [p])" "GrowItems h1 d = GrowItems h d"
    using list_insert_tail_ok [OF Suc.prems(1), of p] Suc.prems by auto
  show ?case
  proof (cases ?full)
    case True
    have N: "N - n = Suc (length ins)" using Suc.prems(2) by simp
    then have "take (length (objs @ ins) - (N - n)) (objs @ ins) = butlast objs" by (simp add: butlast_conv_take)
    moreover obtain h2 where "remove_tails (N - n) d h1 = Some h2"
      "dlist h2 d base (take (length (objs @ ins) - (N - n)) (objs @ ins))"
      using remove_tails_ok [of h1 d base "objs @ ins" "N - n"] h1(2) True by auto
    ultimately have "insert_object_tails d (Suc n) p N sz h = Some (False, h2)" "dlist h2 d base (butlast objs)"
      using h1(1) True by simp_all
    then show ?thesis by auto
  next
    case False
    have "\<exists>b h'. insert_object_tails d n (p + unat sz) N sz h1 = Some (b, h') \<and>
      dlist h' d base (if b then objs @ (ins @ [p]) @ array_items (p + unat sz) n (unat sz) else butlast objs)"
      by (rule Suc.IH) (use h1 False Suc.prems in auto)
    then obtain b h' where "insert_object_tails d n (p + unat sz) N sz h1 = Some (b, h')"
      "dlist h' d base (if b then objs @ (ins @ [p]) @ array_items (p + unat sz) n (unat sz) else butlast objs)" by blast
    then have "insert_object_tails d (Suc n) p N sz h = Some (b, h')"
      "dlist h' d base (if b then objs @ ins @ array_items p (Suc n) (unat sz) else butlast objs)"
      using h1(1) False by (cases b; simp add: array_items_Cons)+
    then show ?thesis by blast
  qed
qed

subsection \<open>Searches\<close>

lemma found_map: "found (\<lambda>i. f (ob i)) items \<noteq> NULL \<Longrightarrow> find f (map ob items) = Some (ob (found (\<lambda>i. f (ob i)) items))"
  by (induction items) (auto split: if_splits)

lemma found_none: "NULL \<notin> set items \<Longrightarrow> found (\<lambda>i. f (ob i)) items = NULL \<Longrightarrow> find f (map ob items) = None"
  by (induction items) (auto split: if_splits)

definition object_or_null :: "laddr option \<Rightarrow> laddr" where
  "object_or_null r = (case r of None \<Rightarrow> NULL | Some x \<Rightarrow> x)"

lemma list_find_head_ok:
  assumes "dlist h d base objs"
  shows "ListFindFromHead d f h = Some (object_or_null (find f objs))"
proof -
  obtain items free blocks where r: "rep h d base items free blocks []" and o: "objs = map (pObject h) items"
    using assms by (auto simp: dlist_rep)
  note q = rep_lists(1) [OF r]
  have nz: "NULL \<notin> set items" using q by (simp add: qlist_def)
  have "find_from (\<lambda>x. QListNext d x h) (\<lambda>x. f (pObject h x)) (first items) = Some (found (\<lambda>x. f (pObject h x)) items)"
    using find_from_next [of h d "[]" items] q by simp
  with head_is_first [OF q] found_map [of f "pObject h" items] found_none [OF nz, of f "pObject h"] show ?thesis
    by (auto simp: ListFindFromHead_def o object_or_null_def get_obj_def)
qed

lemma list_find_tail_ok:
  assumes "dlist h d base objs"
  shows "ListFindFromTail d f h = Some (object_or_null (find f (rev objs)))"
proof -
  obtain items free blocks where r: "rep h d base items free blocks []" and o: "objs = map (pObject h) items"
    using assms by (auto simp: dlist_rep)
  note q = rep_lists(1) [OF r]
  have nz: "NULL \<notin> set (rev items)" using q by (simp add: qlist_def)
  have "find_from (\<lambda>x. QListPrev d x h) (\<lambda>x. f (pObject h x)) (first (rev items)) = Some (found (\<lambda>x. f (pObject h x)) (rev items))"
    using find_from_prev [of h d "rev items" "[]"] q by simp
  with tail_is_last [OF q] found_map [of f "pObject h" "rev items"] found_none [OF nz, of f "pObject h"] show ?thesis
    by (auto simp: ListFindFromTail_def o object_or_null_def get_obj_def rev_map)
qed

lemma list_is_object_ok:
  assumes "dlist h d base objs"
  shows "ListIsObjectInList d x h = Some (x \<in> set objs)"
proof -
  obtain items free blocks where r: "rep h d base items free blocks []" and o: "objs = map (pObject h) items"
    using assms by (auto simp: dlist_rep)
  note q = rep_lists(1) [OF r]
  have "NULL \<notin> set items" using q by (simp add: qlist_def)
  then have "found (\<lambda>y. pObject h y = x) items \<noteq> NULL \<longleftrightarrow> x \<in> set objs"
    using found_null [of items "\<lambda>y. pObject h y = x"] by (auto simp: o)
  then show ?thesis using find_head_ok [OF q, of None x] by (simp add: ListIsObjectInList_def find_test_def [abs_def])
qed

lemma list_object_at_ok:
  assumes "dlist h d base objs"
  shows "ListGetObjectAt d i h = Some (if unat i < length objs then objs ! unat i else NULL)"
proof -
  obtain items free blocks where r: "rep h d base items free blocks []" and o: "objs = map (pObject h) items"
    using assms by (auto simp: dlist_rep)
  note q = rep_lists(1) [OF r]
  have "items ! unat i \<noteq> NULL" if "unat i < length items"
    using q nth_mem [OF that] by (metis (no_types) qlist_def list.set_intros(2))
  with get_item_at_ok [OF q, of i] show ?thesis by (auto simp: ListGetObjectAt_def get_obj_def o)
qed

lemma list_apply_ok:
  assumes "dlist h d base objs"
  shows "ListApplyFunc d f s h = Some (fold f objs s)"
proof -
  obtain items free blocks where r: "rep h d base items free blocks []" and o: "objs = map (pObject h) items"
    using assms by (auto simp: dlist_rep)
  note q = rep_lists(1) [OF r]
  have "apply_from d h (\<lambda>x. f (pObject h x)) (first items) s = Some (fold (\<lambda>x. f (pObject h x)) items s)"
    using apply_from_ok [of h d "[]" items] q by simp
  with head_is_first [OF q] show ?thesis by (simp add: ListApplyFunc_def o fold_map o_def)
qed

subsection \<open>Initialisation and destruction\<close>

lemma free_objects_ok:
  assumes "qlist h m blocks"
  shows "\<exists>h'. free_objects m h = Some h' \<and> qlist h' m [] \<and> live h' = filter (\<lambda>b. fst b \<notin> set blocks) (live h) \<and>
    m_pObjMgr h' = m_pObjMgr h"
  using assms
proof (induction blocks arbitrary: h)
  case Nil
  then show ?case using qlist_empty [OF Nil] by (subst free_objects.simps) (simp add: QListRemoveHead_def)
next
  case (Cons b bs)
  obtain h1 where h1: "QListRemoveHead m h = Some (b, h1)" "becomes h h1 m bs (set (m # b # bs))"
    using remove_head_ok [OF Cons.prems] by auto
  let ?h = "MemoryDeallocate b h1"
  have o: "live h1 = live h" "m_pObjMgr h1 = m_pObjMgr h" using h1(2) outside_fields by (auto simp: becomes_def)
  have b: "b \<noteq> NULL" using Cons.prems by (auto simp: qlist_def)
  have "qlist ?h m bs" using h1(2) by (simp add: becomes_def MemoryDeallocate_def qlist_def ring_def)
  from Cons.IH [OF this] obtain h' where h': "free_objects m ?h = Some h'" "qlist h' m []"
    "live h' = filter (\<lambda>b. fst b \<notin> set bs) (live ?h)" "m_pObjMgr h' = m_pObjMgr ?h" by blast
  have "live h' = filter (\<lambda>c. fst c \<notin> set (b # bs)) (live h)"
    using h'(3) o by (auto simp: MemoryDeallocate_def intro: filter_cong)
  then show ?case using h1(1) b h' o by (subst free_objects.simps) (simp add: MemoryDeallocate_def)
qed

lemma list_destroy_ok:
  assumes r: "rep h d base items free blocks []"
  shows "\<exists>h'. ListDestroy d h = Some h' \<and> live h' = base \<and> m_pObjMgr h' d = NULL"
proof -
  let ?f = "m_FreeItemList d" and ?m = "m_pObjMgr h d"
  note lists = rep_lists [OF r]
  have nz: "?f \<noteq> NULL" "d \<noteq> NULL" "?m \<noteq> NULL" using lists(1-3) by (simp_all add: qlist_def)
  obtain h1 where h1: "QListRemoveAll ?f h = Some h1" "becomes h h1 ?f [] {?f}" using remove_all_ok [OF nz(1)] by blast
  obtain h2 where h2: "QListRemoveAll d h1 = Some h2" "becomes h1 h2 d [] {d}" using remove_all_ok [OF nz(2)] by blast
  have o: "outside {?f} h h1" "outside {d} h1 h2" using h1 h2 by (auto simp: becomes_def)
  note a = agree_trans [OF outside_agree [OF o(1)] outside_agree [OF o(2)]]
  have q: "qlist h2 ?m blocks" by (rule qlist_agree [OF lists(3) a]) (use lists(6) in auto)
  have same: "m_pObjMgr h2 = m_pObjMgr h" "m_Initialized h2 = m_Initialized h" "live h2 = live h"
    using outside_fields [OF o(1)] outside_fields [OF o(2)] by simp_all
  obtain h3 where h3: "free_objects ?m h2 = Some h3" "qlist h3 ?m []"
    "live h3 = filter (\<lambda>b. fst b \<notin> set blocks) (live h2)" "m_pObjMgr h3 = m_pObjMgr h2"
    using free_objects_ok [OF q] by blast
  obtain h4 where h4: "QListRemoveAll ?m h3 = Some h4" "becomes h3 h4 ?m [] {?m}" using remove_all_ok [OF nz(3)] by blast
  have o4: "live h4 = live h3" "m_pObjMgr h4 = m_pObjMgr h3" using h4(2) outside_fields by (auto simp: becomes_def)
  have "filter (\<lambda>b. fst b \<noteq> ?m) (live h3) = filter (\<lambda>b. fst b \<notin> set (?m # blocks)) (live h)"
    unfolding h3(3) same filter_filter by (rule filter_cong) auto
  also have "\<dots> = base" using r by (simp add: rep_def)
  finally have "filter (\<lambda>b. fst b \<noteq> ?m) (live h3) = base" .
  with h1(1) h2(1) h3(1) h4(1) o4 nz(3) same lists(4) h3(4) show ?thesis
    by (simp add: ListDestroy_def QListDestroy_def ObjMgrDestroy_def MemoryDeallocate_def)
qed

lemma list_init_ok:
  assumes d: "d \<noteq> NULL" "{d, m_FreeItemList d} \<subseteq> in_use h" and n: "n \<noteq> 0" "24 * (unat n + 1) < 2 ^ 32"
  shows "\<exists>b h'. ListInit d n h = Some (b, h') \<and>
    (if b then dlist h' d (live h) [] \<and> GrowItems h' d = max 10 (drop_bit 3 n) else live h' = live h \<and> m_pObjMgr h' d = NULL)"
proof -
  let ?f = "m_FreeItemList d"
  have f: "?f \<noteq> NULL" "?f \<noteq> d" by (simp_all add: m_FreeItemList_def)
  let ?h0 = "ListInitState d h"
  obtain h1 where h1: "QListRemoveAll ?f ?h0 = Some h1" "becomes ?h0 h1 ?f [] {?f}" using remove_all_ok [OF f(1)] by blast
  obtain h2 where h2: "QListRemoveAll d h1 = Some h2" "becomes h1 h2 d [] {d}" using remove_all_ok [OF d(1)] by blast
  have o: "outside {?f} ?h0 h1" "outside {d} h1 h2" using h1 h2 by (auto simp: becomes_def)
  have q2: "qlist h2 d []" "qlist h2 ?f []"
    using h2(2) qlist_outside [of h1 ?f "[]" "{d}" h2] h1(2) f(2) by (auto simp: becomes_def)
  have live2: "live h2 = live h" "m_pObjMgr h2 d = NULL"
    using outside_fields [OF o(1)] outside_fields [OF o(2)] by (simp_all add: ListInitState_def)
  note steps = ListInit_def QListInit_def h1(1) h2(1)
  show ?thesis
  proof (cases rule: alloc_cases [of "of_nat sizeof_OBJECT_MGR" h2])
    case failed
    let ?h3 = "h2\<lparr>allocs := tl (allocs h2), m_pObjMgr := (m_pObjMgr h2)(d := NULL)\<rparr>"
    obtain h4 where h4: "QListRemoveAll ?f ?h3 = Some h4" "becomes ?h3 h4 ?f [] {?f}" using remove_all_ok [OF f(1)] by blast
    obtain h5 where h5: "QListRemoveAll d h4 = Some h5" "becomes h4 h5 d [] {d}" using remove_all_ok [OF d(1)] by blast
    have "outside {?f} ?h3 h4" "outside {d} h4 h5" using h4 h5 by (auto simp: becomes_def)
    then have "live h5 = live h" "m_pObjMgr h5 d = NULL" using outside_fields live2 by auto
    moreover have "ListDestroy d ?h3 = Some h5" using h4(1) h5(1) \<open>m_pObjMgr h5 d = NULL\<close>
      by (simp add: ListDestroy_def QListDestroy_def)
    then have "ListInit d n h = Some (False, h5)" using failed by (simp add: steps)
    ultimately show ?thesis by auto
  next
    case (block m)
    let ?h3 = "h2\<lparr>allocs := tl (allocs h2), live := (m, 40) # live h2, m_pObjMgr := (m_pObjMgr h2)(d := m),
        m_Initialized := (m_Initialized h2)(m := False)\<rparr>"
    obtain h4 where h4: "QListRemoveAll m ?h3 = Some h4" "becomes ?h3 h4 m [] {m}" using remove_all_ok [OF block(2)] by blast
    let ?h5 = "h4\<lparr>m_Initialized := (m_Initialized h4)(m := True), MinItems := (MinItems h4)(d := n), GrowItems := (GrowItems h4)(d := n)\<rparr>"
    have o4: "outside {m} ?h3 h4" using h4(2) by (simp add: becomes_def)
    note fields = outside_fields [OF o4]
    have m_in: "m \<in> {m..<m + unat (of_nat sizeof_OBJECT_MGR :: uint32)}" by simp
    then have "m \<notin> in_use h" using block(3) in_use_live [OF live2(1)] by blast
    then have m: "m \<noteq> d" "m \<noteq> ?f" using d(2) by auto
    have "qlist h4 d []" "qlist h4 ?f []"
      using qlist_outside [OF _ o4, of d "[]"] qlist_outside [OF _ o4, of ?f "[]"] q2 m by (auto simp: qlist_def ring_def)
    then have "qlist ?h5 d []" "qlist ?h5 ?f []" "qlist ?h5 m []" using h4(2) by (auto simp: becomes_def qlist_def ring_def)
    moreover have "live ?h5 = (m, 40) # live h" "m_pObjMgr ?h5 d = m" using fields live2 by auto
    moreover have "m \<notin> fst ` set (live h)" using block(4) live2 by simp
    then have "filter (\<lambda>b. fst b \<noteq> m) (live h) = live h" by (auto intro!: filter_True)
    moreover have "{d, ?f, m} \<subseteq> in_use ?h5" using d(2) \<open>live ?h5 = _\<close> by (auto simp: in_use_def)
    ultimately have r5: "rep ?h5 d (live h) [] [] [] []" using m f n by (auto simp: rep_def)
    have "unat n < 2 ^ 32" using unat_bound [of n] by simp
    then obtain h6 free blocks where h6: "FreeItemPoolGrow d ?h5 = Some h6" "rep h6 d (live h) [] free blocks []"
      "free = [] \<longleftrightarrow> pool_exhausted ?h5 d" "same_objects ?h5 h6 [] d"
      using pool_grow_ok [OF r5] by auto
    have g6: "GrowItems h6 d = n" using h6(4) by (simp add: same_objects_def)
    have steps': "ListInit d n h = (if QListCount ?f h6 = 0 then do { h \<leftarrow> ListDestroy d h6; Some (False, h) }
       else Some (True, h6\<lparr>GrowItems := (GrowItems h6)(d := if drop_bit 3 n < 10 then 10 else drop_bit 3 n)\<rparr>))"
      using block(1,2) h4(1) h6(1) g6 by (simp add: steps ObjMgrInit_def)
    have cnt: "QListCount ?f h6 = 0 \<longleftrightarrow> free = []" using qlist_empty [OF rep_lists(2) [OF h6(2)]] by (simp add: QListCount_def)
    show ?thesis
    proof (cases "free = []")
      case True
      obtain h7 where "ListDestroy d h6 = Some h7" "live h7 = live h" "m_pObjMgr h7 d = NULL"
        using list_destroy_ok [OF h6(2)] by blast
      then show ?thesis using steps' cnt True by auto
    next
      case False
      define g where "g = max 10 (drop_bit 3 n)"
      let ?h7 = "h6\<lparr>GrowItems := (GrowItems h6)(d := g)\<rparr>"
      have "unat (drop_bit 3 n) \<le> unat n" by (simp add: drop_bit_eq_div unat_div)
      then have g: "g \<noteq> 0" "24 * (unat g + 1) < 2 ^ 32"
        using n(2) by (auto simp: g_def max_def word_le_nat_alt)
      have "rep ?h7 d (live h) [] free blocks []"
        using h6(2) g by (simp add: rep_def qlist_def ring_def in_use_def)
      then have "dlist ?h7 d (live h) []" by (auto simp: dlist_def)
      moreover have "(if drop_bit 3 n < 10 then 10 else drop_bit 3 n) = g" by (simp add: g_def max_def not_le)
      ultimately show ?thesis using steps' cnt False by (auto simp: g_def)
    qed
  qed
qed

end
