(* ===== verification/ObjectList.thy ===== *)
theory ObjectList
  imports DList_Life
begin

text \<open>
  The interface that the users of a list of objects rely on: objects are added at either end, which may
  fail, and taken from the front.  The queue is first in, first out on every provider of the interface, and a
  pop of the stack undoes a push.  \<^verbatim>\<open>DLIST\<close> provides it.
\<close>

datatype 'o queue_op = Enqueue 'o | Dequeue

text \<open>A program on a queue, with the objects that were entered and those that came out.\<close>

fun run_queue :: "('o \<Rightarrow> 'h \<Rightarrow> (bool \<times> 'h) option) \<Rightarrow> ('h \<Rightarrow> ('o \<times> 'h) option) \<Rightarrow> 'o \<Rightarrow> 'o queue_op list \<Rightarrow> 'h \<Rightarrow>
    ('o list \<times> 'o list \<times> 'h) option" where
  "run_queue put get null [] h = Some ([], [], h)"
| "run_queue put get null (Enqueue x # ops) h = do {
     (ok, h) \<leftarrow> put x h;
     (i, r, h) \<leftarrow> run_queue put get null ops h;
     Some (if ok then x # i else i, r, h) }"
| "run_queue put get null (Dequeue # ops) h = do {
     (x, h) \<leftarrow> get h;
     (i, r, h) \<leftarrow> run_queue put get null ops h;
     Some (i, if x = null then r else x # r, h) }"

fun enqueued :: "'o queue_op list \<Rightarrow> 'o list" where
  "enqueued [] = []"
| "enqueued (Enqueue x # ops) = x # enqueued ops"
| "enqueued (Dequeue # ops) = enqueued ops"

locale object_list =
  fixes holds :: "'h \<Rightarrow> 'o list \<Rightarrow> bool"
    and push_front :: "'o \<Rightarrow> 'h \<Rightarrow> (bool \<times> 'h) option"
    and push_back :: "'o \<Rightarrow> 'h \<Rightarrow> (bool \<times> 'h) option"
    and pop_front :: "'h \<Rightarrow> ('o \<times> 'h) option"
    and null :: 'o
    and room :: nat
  assumes push_front: "holds h xs \<Longrightarrow> length xs < room \<Longrightarrow>
      \<exists>b h'. push_front x h = Some (b, h') \<and> holds h' (if b then x # xs else xs)"
    and push_back: "holds h xs \<Longrightarrow> length xs < room \<Longrightarrow>
      \<exists>b h'. push_back x h = Some (b, h') \<and> holds h' (if b then xs @ [x] else xs)"
    and pop_front: "holds h xs \<Longrightarrow>
      \<exists>h'. pop_front h = Some (if xs = [] then null else hd xs, h') \<and> holds h' (tl xs)"
begin

lemma fifo:
  assumes "holds h xs" "length xs + length (enqueued ops) \<le> room" "null \<notin> set xs" "null \<notin> set (enqueued ops)"
  shows "\<exists>i r h' rest. run_queue push_back pop_front null ops h = Some (i, r, h') \<and> holds h' rest \<and> xs @ i = r @ rest"
  using assms
proof (induction ops arbitrary: h xs rule: enqueued.induct)
  case 1
  then show ?case by auto
next
  case (2 x ops)
  obtain b h1 where h1: "push_back x h = Some (b, h1)" "holds h1 (if b then xs @ [x] else xs)"
    using push_back [OF 2(2), of x] 2(3) by auto
  have "length (if b then xs @ [x] else xs) + length (enqueued ops) \<le> room"
    "null \<notin> set (if b then xs @ [x] else xs)" "null \<notin> set (enqueued ops)" using 2(3-5) by auto
  then obtain i r h' rest where "run_queue push_back pop_front null ops h1 = Some (i, r, h')" "holds h' rest"
    "(if b then xs @ [x] else xs) @ i = r @ rest"
    using 2(1) [OF h1(2)] by blast
  with h1(1) show ?case by (intro exI [of _ "if b then x # i else i"] exI [of _ r] exI [of _ h'] exI [of _ rest]) auto
next
  case (3 ops)
  obtain h1 where h1: "pop_front h = Some (if xs = [] then null else hd xs, h1)" "holds h1 (tl xs)"
    using pop_front [OF 3(2)] by blast
  have "null \<notin> set (tl xs)" "length (tl xs) + length (enqueued ops) \<le> room" "null \<notin> set (enqueued ops)"
    using 3(3-5) by (cases xs; auto)+
  then obtain i r h' rest where r: "run_queue push_back pop_front null ops h1 = Some (i, r, h')" "holds h' rest" "tl xs @ i = r @ rest"
    using 3(1) [OF h1(2)] by blast
  show ?case
  proof (cases xs)
    case Nil
    with r h1 show ?thesis by auto
  next
    case (Cons y ys)
    then have "run_queue push_back pop_front null (Dequeue # ops) h = Some (i, y # r, h')" "xs @ i = (y # r) @ rest"
      using r h1 3(4) by auto
    with r(2) show ?thesis by blast
  qed
qed

lemma pop_undoes_push:
  assumes "holds h xs" "length xs < room" "push_front x h = Some (True, h1)"
  shows "\<exists>h'. pop_front h1 = Some (x, h') \<and> holds h' xs"
  using push_front [OF assms(1,2), of x] assms(3) pop_front [of h1 "x # xs"] by auto

end

text \<open>A \<^verbatim>\<open>DLIST\<close> whose pool grows by \<open>g\<close> items.\<close>

definition dlist_holds :: "laddr \<Rightarrow> (laddr \<times> nat) list \<Rightarrow> uint32 \<Rightarrow> lheap \<Rightarrow> laddr list \<Rightarrow> bool" where
  "dlist_holds d base g h objs \<longleftrightarrow> dlist h d base objs \<and> GrowItems h d = g"

interpretation dl: object_list "dlist_holds d base g" "ListInsertHead d" "ListInsertTail d" "ListRemoveHead d" NULL
    "2 ^ 32 - unat g" for d base g
proof unfold_locales
  fix h xs x
  assume h: "dlist_holds d base g h xs" and len: "length xs < 2 ^ 32 - unat g"
  have room: "length xs + unat (GrowItems h d) < 2 ^ 32" using h len by (simp add: dlist_holds_def)
  have dl: "dlist h d base xs" "GrowItems h d = g" using h by (simp_all add: dlist_holds_def)
  obtain h' where "ListInsertHead d x h = Some (\<not> pool_exhausted h d, h')"
    "dlist h' d base (if pool_exhausted h d then xs else x # xs)" "GrowItems h' d = GrowItems h d"
    using list_insert_head_ok [OF dl(1) room] by blast
  then show "\<exists>b h'. ListInsertHead d x h = Some (b, h') \<and> dlist_holds d base g h' (if b then x # xs else xs)"
    using dl(2) by (intro exI [of _ "\<not> pool_exhausted h d"] exI [of _ h']) (auto simp: dlist_holds_def split: if_splits)
  obtain h' where "ListInsertTail d x h = Some (\<not> pool_exhausted h d, h')"
    "dlist h' d base (if pool_exhausted h d then xs else xs @ [x])" "GrowItems h' d = GrowItems h d"
    using list_insert_tail_ok [OF dl(1) room] by blast
  then show "\<exists>b h'. ListInsertTail d x h = Some (b, h') \<and> dlist_holds d base g h' (if b then xs @ [x] else xs)"
    using dl(2) by (intro exI [of _ "\<not> pool_exhausted h d"] exI [of _ h']) (auto simp: dlist_holds_def split: if_splits)
next
  fix h xs
  assume "dlist_holds d base g h xs"
  then show "\<exists>h'. ListRemoveHead d h = Some (if xs = [] then NULL else hd xs, h') \<and> dlist_holds d base g h' (tl xs)"
    using list_remove_head_ok [of h d base xs] by (auto simp: dlist_holds_def)
qed

end
