(* ===== verification/List_Claims.thy ===== *)
theory List_Claims
  imports LQList_Sim ObjectList
begin

text \<open>
  The properties of the lists of \<^verbatim>\<open>IbAccess/Common/Public/ilist.c\<close>.
\<close>

subsection \<open>Small heaps\<close>

text \<open>Two lists, at 16 with the item 100 and at 64 without an item.\<close>

definition two_lists :: lheap where
  "two_lists = \<lparr>pNextItem = (\<lambda>_. 0)(16 := 100, 100 := 16, 64 := 64), pPrevItem = (\<lambda>_. 0)(16 := 100, 100 := 16, 64 := 64),
     pObject = (\<lambda>_. 0), m_Count = (\<lambda>_. 0)(16 := 1), m_Lock = (\<lambda>_. False), m_pObjMgr = (\<lambda>_. 0), MinItems = (\<lambda>_. 0),
     GrowItems = (\<lambda>_. 0), m_Initialized = (\<lambda>_. False), allocs = [], live = []\<rparr>"

definition idle_sys :: lq_sys where
  "idle_sys = \<lparr>heap = two_lists, pcs = (\<lambda>_. None)\<rparr>"

definition idle_spec :: lq_spec where
  "idle_spec = \<lparr>content = (\<lambda>_. [])(On 16 := [100]), dest = (\<lambda>_. None)\<rparr>"

lemma two_lists_ok: "qlist two_lists 16 [100]" "qlist two_lists 64 []"
  by (simp_all add: two_lists_def qlist_def ring_def)

lemma idle_items: "all_items idle_spec = {100}"
proof -
  have "set (content idle_spec p) \<subseteq> {100}" for p by (auto simp: idle_spec_def)
  moreover have "100 \<in> set (content idle_spec (On 16))" by (simp add: idle_spec_def)
  ultimately show ?thesis unfolding all_items_def by blast
qed

lemma idle_follows: "follows {16, 64} idle_sys idle_spec"
proof -
  have "spec_ok {16, 64} idle_spec" using idle_items
    by (auto simp: spec_ok_def dest_ok_def idle_spec_def)
  then show ?thesis using two_lists_ok
    by (simp add: follows_def flight_ok_def idle_sys_def idle_spec_def two_lists_def)
qed

text \<open>Thread 0 chains list 16 to list 64; between its sections an item is inserted into list 16.\<close>

definition sample_ops :: "lq_op list" where
  "sample_ops = [TakeList 0 True 64 16, InsertHead 16 200, ChainList 0]"

definition sample_end :: lq_spec where
  "sample_end = \<lparr>content = (\<lambda>_. [])(On 16 := [200], On 64 := [100]), dest = (\<lambda>_. None)\<rparr>"

lemma sample_runs: "spec_run {16, 64} sample_ops idle_spec sample_end"
proof -
  let ?a = "idle_spec\<lparr>content := (content idle_spec)(On 16 := [], Flight 0 := content idle_spec (On 16)),
      dest := (dest idle_spec)(0 := Some (True, 64))\<rparr>"
  let ?b = "put 16 [200] ?a"
  have "spec_step {16, 64} (TakeList 0 True 64 16) idle_spec ?a"
    by (rule spec_step.take_items) (simp_all add: idle_spec_def)
  moreover have all: "all_items ?a \<subseteq> {100}" by (auto simp: all_items_def idle_spec_def split: if_splits)
  have "card (all_items ?a) \<le> card {100 :: nat}" using all by (intro card_mono) auto
  then have "fresh {16, 64} ?a 200" using all by (auto simp: fresh_def)
  then have "spec_step {16, 64} (InsertHead 16 200) ?a ?b"
    using spec_step.insert_head [of 16 "{16, 64}" ?a 200 "[]"] by simp
  moreover have "spec_step {16, 64} (ChainList 0) ?b sample_end"
    using spec_step.chain_items [of ?b 0 True 64 "{16, 64}"]
    by (simp add: put_def idle_spec_def sample_end_def fun_upd_twist fun_upd_idem)
  ultimately show ?thesis unfolding sample_ops_def by (blast intro: run_nil run_cons)
qed

subsection \<open>Locked lists\<close>

lemma run_follows:
  "spec_run Ls ops a b \<Longrightarrow> follows Ls s a \<Longrightarrow> \<exists>s'. lq_run ops s = Some s' \<and> follows Ls s' b"
proof (induction arbitrary: s rule: spec_run.induct)
  case (run_nil a)
  then show ?case by simp
next
  case (run_cons op a b ops c)
  obtain s1 where s1: "lq_exec op s = Some s1" "follows Ls s1 b" using step_follows [OF run_cons(1,4)] by blast
  with run_cons(3) [OF s1(2)] show ?case by simp
qed

text \<open>
  C4.  Threads that use locked lists as they should (an item is inserted once, and removed from a
  list it is on) never get stuck, follow NULL or loop, whatever the order of their critical sections, those of
  functions that have two included, and after every run the heap holds the lists and the
  chains in flight of the specification.
\<close>

theorem locked_lists_follow_spec:
  assumes "follows Ls s a" "spec_run Ls ops a b"
  shows "\<exists>s'. lq_run ops s = Some s' \<and> follows Ls s' b"
  using assms by (intro run_follows)

theorem locked_lists_follow_spec_witness:
  "\<exists>s'. lq_run sample_ops idle_sys = Some s' \<and> follows {16, 64} s' sample_end"
  by (rule locked_lists_follow_spec [OF idle_follows sample_runs])

text \<open>What a section takes out of the lists: of an item that is chained it takes nothing.\<close>

fun removed :: "lq_op \<Rightarrow> lq_spec \<Rightarrow> laddr set" where
  "removed (RemoveHead l) a = set (take 1 (content a (On l)))"
| "removed (RemoveTail l) a = (if content a (On l) = [] then {} else {last (content a (On l))})"
| "removed (RemoveItem l x) a = {x}"
| "removed (SafeRemoveItem l x) a = set (content a (On l)) \<inter> {x}"
| "removed (RemoveAll l) a = set (content a (On l))"
| "removed (FindFromHeadAndRemove l f) a = set (take 1 (dropWhile (\<lambda>x. \<not> f x) (content a (On l))))"
| "removed _ a = {}"

text \<open>Some section of the run has taken the item out.\<close>

definition taken_out :: "laddr set \<Rightarrow> lq_op list \<Rightarrow> lq_spec \<Rightarrow> laddr \<Rightarrow> bool" where
  "taken_out Ls ops a x \<longleftrightarrow> (\<exists>pre op post c. ops = pre @ op # post \<and> spec_run Ls pre a c \<and> x \<in> removed op c)"

lemma put_loses:
  assumes "x \<in> set (content a p)" "set (content a (On l)) \<subseteq> set xs \<union> R"
  shows "(\<exists>q. x \<in> set (content (put l xs a) q)) \<or> x \<in> R"
proof (cases "p = On l")
  case True
  with assms have "x \<in> set (content (put l xs a) (On l)) \<or> x \<in> R" by (auto simp: put_def)
  then show ?thesis by blast
next
  case False
  with assms have "x \<in> set (content (put l xs a) p)" by (auto simp: put_def)
  then show ?thesis by blast
qed

lemma in_butlast_or_last: "set xs \<subseteq> set (butlast xs) \<union> (if xs = [] then {} else {last xs})"
  by (cases xs rule: rev_cases) auto

lemma in_tl_or_first: "set xs \<subseteq> set (tl xs) \<union> set (take 1 xs)"
  by (cases xs) auto

lemma found_or_kept: "set xs \<subseteq> set (takeWhile P xs @ tl (dropWhile P xs)) \<union> set (take 1 (dropWhile P xs))"
proof -
  have "set xs = set (takeWhile P xs) \<union> set (dropWhile P xs)" by (metis set_append takeWhile_dropWhile_id)
  then show ?thesis using in_tl_or_first [of "dropWhile P xs"] by auto
qed

lemma removed_or_kept: "set xs \<subseteq> set (remove1 y xs) \<union> set xs \<inter> {y}"
proof
  fix x assume "x \<in> set xs"
  then show "x \<in> set (remove1 y xs) \<union> set xs \<inter> {y}" using in_set_remove1 [of x y xs] by (cases "x = y") auto
qed

lemma step_loses:
  assumes "spec_step Ls op a b" "x \<in> all_items a" and ok: "spec_ok Ls a"
  shows "x \<in> all_items b \<or> x \<in> removed op a"
proof -
  obtain p where p: "x \<in> set (content a p)" using assms(2) by (auto simp: all_items_def)
  note lost = put_loses [OF p]
  have "(\<exists>q. x \<in> set (content b q)) \<or> x \<in> removed op a" using assms(1)
  proof (cases rule: spec_step.cases)
    case (insert_head l y xs)
    then show ?thesis by (simp only:) (rule lost, auto)
  next
    case (insert_tail l y xs)
    then show ?thesis by (simp only:) (rule lost, auto)
  next
    case (insert_prev l y xs q ys)
    then show ?thesis by (simp only:) (rule lost, auto)
  next
    case (insert_next l y xs q ys)
    then show ?thesis by (simp only:) (rule lost, auto)
  next
    case (remove_head l)
    then show ?thesis by (simp only: removed.simps) (rule lost, rule in_tl_or_first)
  next
    case (remove_tail l)
    then show ?thesis by (simp only: removed.simps) (rule lost, rule in_butlast_or_last)
  next
    case (remove_item l xs y ys)
    then show ?thesis by (simp only: removed.simps) (rule lost, auto)
  next
    case (safe_remove l y)
    then show ?thesis by (simp only: removed.simps) (rule lost, rule removed_or_kept)
  next
    case (remove_all l)
    then show ?thesis by (simp only: removed.simps) (rule lost, auto)
  next
    case (find_and_remove l f)
    then show ?thesis by (simp only: removed.simps) (rule lost, rule found_or_kept)
  next
    case (take_empty l d t front)
    with p show ?thesis by blast
  next
    case (take_items l d t front)
    have "dest_ok Ls a t" using ok by (simp add: spec_ok_def)
    then have "p \<noteq> Flight t" using p take_items by (auto simp: dest_ok_def)
    then show ?thesis using p take_items by (cases "p = On l") (auto intro: exI [of _ "Flight t"] exI [of _ p])
  next
    case (chain_items t front d)
    then have "set (content a p) \<subseteq> set (content b (if p = Flight t then On d else p))" by auto
    with p show ?thesis by blast
  qed
  then show ?thesis by (auto simp: all_items_def)
qed

lemma chain_keeps_items: "spec_step Ls (ChainList t) a b \<Longrightarrow> spec_ok Ls a \<Longrightarrow> all_items a \<subseteq> all_items b"
  using step_loses [of Ls "ChainList t" a b] by auto

lemma taken_out_Cons: "spec_step Ls op a b \<Longrightarrow> taken_out Ls ops b x \<Longrightarrow> taken_out Ls (op # ops) a x"
  unfolding taken_out_def by (metis append_Cons run_cons)

lemma run_loses:
  assumes "spec_run Ls ops a b" "x \<in> all_items a" "spec_ok Ls a"
  shows "(x \<in> all_items b \<or> taken_out Ls ops a x) \<and> spec_ok Ls b"
  using assms
proof (induction rule: spec_run.induct)
  case (run_nil a)
  then show ?case by simp
next
  case (run_cons op a b ops c)
  have ok: "spec_ok Ls b" using spec_step_ok [OF run_cons(1,5)] .
  from step_loses [OF run_cons(1,4,5)] show ?case
  proof
    assume "x \<in> all_items b"
    then show ?thesis using run_cons(3) [OF _ ok] taken_out_Cons [OF run_cons(1)] by blast
  next
    assume "x \<in> removed op a"
    then have "taken_out Ls (op # ops) a x"
      unfolding taken_out_def by (intro exI [of _ "[]"] exI [of _ op] exI [of _ ops] exI [of _ a]) (simp add: run_nil)
    moreover have "spec_ok Ls c" using run_cons(2) ok by (induction rule: spec_run.induct) (auto dest: spec_step_ok)
    ultimately show ?thesis by blast
  qed
qed

text \<open>
  C5.  While it is being chained an item is in neither list, but it is not lost: whatever the threads
  have done in between, when every thread is past its second section an item that was on a list or in
  flight is on exactly one list, unless a section that removes items from a list has taken it out.
\<close>

theorem chained_items_not_lost:
  assumes "follows Ls s a" "spec_run Ls ops a b" "x \<in> all_items a" "\<forall>t. dest b t = None"
  shows "\<exists>s'. lq_run ops s = Some s' \<and>
    ((\<exists>!l. l \<in> Ls \<and> QListIsItemInList l x (heap s') = Some True) \<or> taken_out Ls ops a x)"
proof -
  obtain s' where s': "lq_run ops s = Some s'" "follows Ls s' b" using run_follows [OF assms(2,1)] by blast
  have "spec_ok Ls a" using assms(1) by (simp add: follows_def)
  from run_loses [OF assms(2,3) this] have kept: "x \<in> all_items b \<or> taken_out Ls ops a x" and ok: "spec_ok Ls b" by blast+
  have none: "content b (Flight t) = []" for t
  proof -
    have "dest_ok Ls b t" using ok by (simp add: spec_ok_def)
    then show ?thesis using assms(4) by (simp add: dest_ok_def)
  qed
  have in_list: "QListIsItemInList k x (heap s') = Some (x \<in> set (content b (On k)))" if "k \<in> Ls" for k
    by (rule is_in_list_ok [OF follows_lists(1) [OF s'(2) that]])
  have empty: "k \<notin> Ls \<Longrightarrow> content b (On k) = []" and apart: "q \<noteq> r \<Longrightarrow> set (content b q) \<inter> set (content b r) = {}" for k q r
    using ok by (simp_all add: spec_ok_def)
  have "\<exists>!l. l \<in> Ls \<and> QListIsItemInList l x (heap s') = Some True" if mem: "x \<in> all_items b"
  proof -
    obtain p where p: "x \<in> set (content b p)" using mem by (auto simp: all_items_def)
    obtain l where l: "p = On l" using p none by (cases p) auto
    have l_in: "l \<in> Ls" using empty [of l] p l by (cases "l \<in> Ls") auto
    have unique: "k = l" if "x \<in> set (content b (On k))" for k
      using apart [of "On k" "On l"] p l that by (cases "k = l") auto
    show ?thesis
    proof (rule ex1I [of _ l])
      show "l \<in> Ls \<and> QListIsItemInList l x (heap s') = Some True" using in_list [OF l_in] l_in p l by simp
      fix k assume k: "k \<in> Ls \<and> QListIsItemInList k x (heap s') = Some True"
      then have "x \<in> set (content b (On k))" using in_list [of k] by simp
      then show "k = l" by (rule unique)
    qed
  qed
  with s'(1) kept show ?thesis by blast
qed

theorem chained_items_not_lost_witness:
  "\<exists>s'. lq_run sample_ops idle_sys = Some s' \<and>
     (\<exists>!l. l \<in> {16, 64} \<and> QListIsItemInList l 100 (heap s') = Some True)"
proof -
  have "\<not> taken_out {16, 64} sample_ops idle_spec 100"
    by (auto simp: taken_out_def sample_ops_def Cons_eq_append_conv)
  then show ?thesis
    using chained_items_not_lost [OF idle_follows sample_runs, of 100] by (simp add: idle_items sample_end_def)
qed

lemma finite_flights:
  assumes "spec_ok Ls a"
  shows "finite {t. dest a t \<noteq> None}"
proof (rule inj_on_finite)
  have apart: "set (content a (Flight t)) \<inter> set (content a (Flight u)) = {}" if "t \<noteq> u" for t u
    using assms that unfolding spec_ok_def by (metis place.inject(2))
  have ne: "content a (Flight t) \<noteq> []" if "dest a t \<noteq> None" for t
  proof -
    have "dest_ok Ls a t" using assms by (simp add: spec_ok_def)
    then show ?thesis using that by (auto simp: dest_ok_def)
  qed
  show "inj_on (\<lambda>t. hd (content a (Flight t))) {t. dest a t \<noteq> None}"
  proof (rule inj_onI, rule ccontr)
    fix t u
    assume "t \<in> {t. dest a t \<noteq> None}" "u \<in> {t. dest a t \<noteq> None}" and e: "hd (content a (Flight t)) = hd (content a (Flight u))"
      and "t \<noteq> u"
    then have "hd (content a (Flight t)) \<in> set (content a (Flight t))" "hd (content a (Flight u)) \<in> set (content a (Flight u))"
      using hd_in_set [OF ne [of t]] hd_in_set [OF ne [of u]] by auto
    then have "hd (content a (Flight t)) \<in> set (content a (Flight t)) \<inter> set (content a (Flight u))" unfolding e by simp
    then show False using apart [OF \<open>t \<noteq> u\<close>] by simp
  qed
  show "(\<lambda>t. hd (content a (Flight t))) ` {t. dest a t \<noteq> None} \<subseteq> all_items a"
    using ne content_in_all [of a] by (auto dest: hd_in_set)
  show "finite (all_items a)" using assms by (simp add: spec_ok_def)
qed

lemma pcs_iff_dest: "follows Ls s a \<Longrightarrow> pcs s t \<noteq> None \<longleftrightarrow> dest a t \<noteq> None"
proof -
  assume "follows Ls s a"
  then have "flight_ok s a t" by (simp add: follows_def)
  then show ?thesis by (auto simp: flight_ok_def split: option.splits)
qed

lemma chains_run:
  assumes "follows Ls s a" "distinct ts" "set ts \<subseteq> {t. pcs s t \<noteq> None}"
  shows "\<exists>s' b. lq_run (map ChainList ts) s = Some s' \<and> follows Ls s' b \<and>
    {t. pcs s' t \<noteq> None} = {t. pcs s t \<noteq> None} - set ts \<and> all_items a \<subseteq> all_items b"
  using assms
proof (induction ts arbitrary: s a)
  case Nil
  then show ?case by auto
next
  case (Cons t ts)
  obtain front d where t: "dest a t = Some (front, d)" using Cons.prems pcs_iff_dest [OF Cons.prems(1), of t] by auto
  obtain b where step: "spec_step Ls (ChainList t) a b" using spec_step.chain_items [OF t] by blast
  obtain s1 where s1: "lq_exec (ChainList t) s = Some s1" "follows Ls s1 b" using step_follows [OF step Cons.prems(1)] by blast
  have "spec_ok Ls a" using Cons.prems(1) by (simp add: follows_def)
  then have items: "all_items a \<subseteq> all_items b" using chain_keeps_items [OF step] by simp
  have pcs1: "pcs s1 = (pcs s)(t := None)" using s1(1)
    by (auto split: option.splits prod.splits Option.bind_splits)
  have "set ts \<subseteq> {u. pcs s1 u \<noteq> None}" using Cons.prems(2,3) by (auto simp: pcs1)
  with Cons.IH [OF s1(2)] Cons.prems(2) obtain s' c where "lq_run (map ChainList ts) s1 = Some s'" "follows Ls s' c"
    "{u. pcs s' u \<noteq> None} = {u. pcs s1 u \<noteq> None} - set ts" "all_items b \<subseteq> all_items c" by auto
  with s1(1) items show ?case by (intro exI [of _ s'] exI [of _ c]) (auto simp: pcs1)
qed

text \<open>
  C6.  Whatever has happened, finitely many threads are between two sections, none of them is stuck, and when they go
  on, in any order, all of them finish and the items they carried are on the lists again.
\<close>

theorem chains_complete:
  assumes "follows Ls s a"
  shows "finite {t. pcs s t \<noteq> None} \<and>
    (\<forall>ts. distinct ts \<and> set ts = {t. pcs s t \<noteq> None} \<longrightarrow>
       (\<exists>s' b. lq_run (map ChainList ts) s = Some s' \<and> (\<forall>t. pcs s' t = None) \<and>
          follows Ls s' b \<and> all_items a \<subseteq> all_items b))"
proof (intro conjI allI impI)
  have "spec_ok Ls a" using assms by (simp add: follows_def)
  then show "finite {t. pcs s t \<noteq> None}" using finite_flights pcs_iff_dest [OF assms] by simp
  fix ts
  assume ts: "distinct ts \<and> set ts = {t. pcs s t \<noteq> None}"
  then obtain s' b where b: "lq_run (map ChainList ts) s = Some s'" "follows Ls s' b"
    "{t. pcs s' t \<noteq> None} = {t. pcs s t \<noteq> None} - set ts" "all_items a \<subseteq> all_items b"
    using chains_run [OF assms, of ts] by auto
  then have "\<forall>t. pcs s' t = None" using ts by blast
  with b show "\<exists>s' b. lq_run (map ChainList ts) s = Some s' \<and> (\<forall>t. pcs s' t = None) \<and>
      follows Ls s' b \<and> all_items a \<subseteq> all_items b" by blast
qed

theorem chains_complete_witness:
  "\<exists>s s'. lq_run [TakeList 0 True 64 16] idle_sys = Some s \<and> pcs s 0 \<noteq> None \<and>
     lq_run (map ChainList [0]) s = Some s' \<and> pcs s' 0 = None"
proof -
  obtain a where a: "spec_step {16, 64} (TakeList 0 True 64 16) idle_spec a" "dest a = (dest idle_spec)(0 := Some (True, 64))"
    using spec_step.take_items [of 16 "{16, 64}" 64 idle_spec 0 True] by (auto simp: idle_spec_def)
  obtain s where s: "lq_run [TakeList 0 True 64 16] idle_sys = Some s" "follows {16, 64} s a"
    using run_follows [OF run_cons [OF a(1) run_nil] idle_follows] by blast
  have "pcs s t \<noteq> None \<longleftrightarrow> t = 0" for t
    using pcs_iff_dest [OF s(2), of t] a(2) by (cases "t = 0") (simp_all add: idle_spec_def)
  then have p: "pcs s 0 \<noteq> None" "distinct [0 :: nat] \<and> set [0] = {t. pcs s t \<noteq> None}" by auto
  obtain s' where "lq_run (map ChainList [0]) s = Some s'" "\<forall>t. pcs s' t = None"
    using chains_complete [OF s(2)] p(2) by blast
  then have "lq_run (map ChainList [0]) s = Some s'" "pcs s' 0 = None" by (blast, simp)
  with s(1) p(1) show ?thesis by (intro exI [of _ s] exI [of _ s'] conjI)
qed

subsection \<open>Quick lists\<close>

text \<open>
  \<^verbatim>\<open>QListMoveItems\<close> to another list returns, moves exactly the items that the function selects to
  the tail of the destination, keeps the order of both, and changes no other list; the two functions
  that insert a list put its items in front of or behind those of the destination, in order, and empty it.
\<close>

theorem list_moves:
  assumes "qlist h s xs" "qlist h d ys" "set (s # xs) \<inter> set (d # ys) = {}" "length ys + length xs < 2 ^ 32"
  shows "(\<exists>h'. QListMoveItems s d f h = Some h' \<and> qlist h' s (filter (\<lambda>x. \<not> f x) xs) \<and> qlist h' d (ys @ filter f xs) \<and>
      outside (set (d # s # xs @ ys)) h h') \<and>
    (\<exists>h'. QListInsertListHead d s h = Some h' \<and> qlist h' s [] \<and> qlist h' d (xs @ ys) \<and>
      outside (set (d # s # ys @ xs)) h h') \<and>
    (\<exists>h'. QListInsertListTail d s h = Some h' \<and> qlist h' s [] \<and> qlist h' d (ys @ xs) \<and>
      outside (set (d # s # ys @ xs)) h h')"
proof -
  have dis: "set (d # ys) \<inter> set (s # xs) = {}" using assms(3) by auto
  have len: "length xs + length ys < 2 ^ 32" using assms(4) by simp
  show ?thesis
    using move_items_ok [OF assms, of f] insert_list_head_ok [OF assms(2,1) dis len]
      insert_list_tail_ok [OF assms(2,1) dis assms(4)] unfolding both_def by blast
qed

theorem list_moves_witness:
  "\<exists>h'. QListInsertListTail 64 16 two_lists = Some h' \<and> qlist h' 16 [] \<and> qlist h' 64 [100]"
  using list_moves [OF two_lists_ok] by auto

text \<open>
  \<^verbatim>\<open>ListItemIsInAList\<close> is false for an item that has been removed, as it says; but
  \<^verbatim>\<open>QListRemoveAll\<close> leaves the links of the items, so that it is still true for every item that
  has been removed by it.  Removing an item a second time follows NULL.
\<close>

theorem item_flag_after_removal:
  assumes "qlist h l (xs @ x # ys)"
  shows "(\<exists>h'. QListRemoveItem l x h = Some h' \<and> ListItemIsInAList x h' = Some False \<and>
      QListIsItemInList l x h' = Some False \<and> QListRemoveItem l x h' = None) \<and>
    (\<exists>h'. QListRemoveAll l h = Some h' \<and> ListItemIsInAList x h' = Some True \<and> QListIsItemInList l x h' = Some False)"
proof
  have nz: "x \<noteq> NULL" "l \<noteq> NULL" "x \<noteq> l" "x \<notin> set (xs @ ys)" using assms by (auto simp: qlist_def)
  obtain h' where h': "QListRemoveItem l x h = Some h'" "becomes h h' l (xs @ ys) (set (l # xs @ x # ys))"
    "pNextItem h' x = NULL" "pPrevItem h' x = NULL" using remove_item_ok [OF assms] by blast
  have "QListIsItemInList l x h' = Some False" using is_in_list_ok [of h' l "xs @ ys" x] h'(2) nz by (simp add: becomes_def)
  moreover have "ListItemIsInAList x h' = Some False" using h'(3) nz by (simp add: ListItemIsInAList_def get_next_def)
  moreover have "QListRemoveItem l x h' = None"
    using h'(3,4) nz by (simp add: QListRemoveItem_def PrimitiveRemove_def get_next_def get_prev_def put_prev_def)
  ultimately show "\<exists>h'. QListRemoveItem l x h = Some h' \<and> ListItemIsInAList x h' = Some False \<and>
      QListIsItemInList l x h' = Some False \<and> QListRemoveItem l x h' = None" using h'(1) by blast
  obtain h2 where h2: "QListRemoveAll l h = Some h2" "becomes h h2 l [] {l}" "\<forall>x. x \<noteq> l \<longrightarrow> pNextItem h2 x = pNextItem h x"
    using remove_all_ok [OF nz(2)] by blast
  have "pNextItem h x = hd (ys @ [l])" using qlist_around(1) [OF assms] .
  moreover have "hd (ys @ [l]) \<in> set (l # ys)" by (cases ys) auto
  moreover have "NULL \<notin> set (l # ys)" using assms by (auto simp: qlist_def)
  ultimately have "pNextItem h x \<noteq> NULL" by metis
  then have "ListItemIsInAList x h2 = Some True" using h2(3) nz by (simp add: ListItemIsInAList_def get_next_def)
  moreover have "QListIsItemInList l x h2 = Some False" using is_in_list_ok [of h2 l "[]" x] h2(2) by (simp add: becomes_def)
  ultimately show "\<exists>h'. QListRemoveAll l h = Some h' \<and> ListItemIsInAList x h' = Some True \<and>
      QListIsItemInList l x h' = Some False" using h2(1) by blast
qed

theorem item_flag_after_removal_witness:
  "\<exists>h'. QListRemoveAll 16 two_lists = Some h' \<and> ListItemIsInAList 100 h' = Some True \<and>
     QListIsItemInList 16 100 h' = Some False"
  using item_flag_after_removal [of two_lists 16 "[]" 100 "[]"] two_lists_ok by simp

subsection \<open>Lists of objects\<close>

text \<open>A list at 16 with one object and no free item, when no more memory can be had.\<close>

definition full_list :: lheap where
  "full_list = \<lparr>pNextItem = (\<lambda>_. 0)(16 := 324, 324 := 16, 48 := 48, 200 := 300, 300 := 200),
     pPrevItem = (\<lambda>_. 0)(16 := 324, 324 := 16, 48 := 48, 200 := 300, 300 := 200),
     pObject = (\<lambda>_. 0)(324 := 7, 300 := 324), m_Count = (\<lambda>_. 0)(16 := 1, 200 := 1), m_Lock = (\<lambda>_. False),
     m_pObjMgr = (\<lambda>_. 0)(16 := 200), MinItems = (\<lambda>_. 0)(16 := 1), GrowItems = (\<lambda>_. 0)(16 := 10),
     m_Initialized = (\<lambda>_. False)(200 := True), allocs = [], live = [(300, 48), (200, 40), (16, 80)]\<rparr>"

lemma full_list_ok: "dlist full_list 16 [(16, 80)] [7]" "GrowItems full_list 16 = 10"
proof -
  have "{16, 48, 200, 324, 300} \<subseteq> in_use full_list" by (simp add: in_use_def full_list_def)
  then have "rep full_list 16 [(16, 80)] [324] [] [300] []"
    by (simp add: rep_def full_list_def m_FreeItemList_def qlist_def ring_def)
  moreover have "map (pObject full_list) [324] = [7]" by (simp add: full_list_def)
  ultimately show "dlist full_list 16 [(16, 80)] [7]"
    unfolding dlist_def by (intro exI [of _ "[324]"] exI [of _ "[]"] exI [of _ "[300]"] conjI)
  show "GrowItems full_list 16 = 10" by (simp add: full_list_def)
qed

text \<open>
  C9.  \<^verbatim>\<open>ListInsertArrayHead\<close> and \<^verbatim>\<open>ListInsertArrayTail\<close> insert all objects of the array in
  order, or fail; but when they fail they take one object too many out again, and the list has lost its
  first or its last object.
\<close>

theorem array_insert_all_or_lose_one:
  assumes "dlist h d base objs" "n \<noteq> 0" "unat sz * (unat n - 1) < 2 ^ 32"
    and "unat n + length objs + unat (GrowItems h d) < 2 ^ 32"
  shows "(\<exists>b h'. ListInsertArrayHead d p n sz h = Some (b, h') \<and>
      dlist h' d base (if b then array_items p (unat n) (unat sz) @ objs else tl objs)) \<and>
    (\<exists>b h'. ListInsertArrayTail d p n sz h = Some (b, h') \<and>
      dlist h' d base (if b then objs @ array_items p (unat n) (unat sz) else butlast objs))"
proof -
  have "unat (n - 1) = unat n - 1" using assms(2) by (rule less_minus_one)
  then have "unat (sz * (n - 1)) = (unat n - 1) * unat sz"
    using assms(3) by (simp add: unat_word_ariths mult.commute)
  moreover have "\<exists>b h'. insert_object_heads d (unat n) (p + (unat n - 1) * unat sz) (unat n) sz h = Some (b, h') \<and>
      dlist h' d base (if b then array_items p (unat n) (unat sz) @ objs else tl objs)"
    by (rule insert_object_heads_ok [of h d base "[]", unfolded append_Nil]) (simp_all add: assms(1) assms(4) [simplified])
  moreover have "\<exists>b h'. insert_object_tails d (unat n) p (unat n) sz h = Some (b, h') \<and>
      dlist h' d base (if b then objs @ array_items p (unat n) (unat sz) else butlast objs)"
    by (rule insert_object_tails_ok [of h d base objs "[]", unfolded append_Nil append_Nil2])
      (simp_all add: assms(1) assms(4) [simplified])
  ultimately show ?thesis unfolding ListInsertArrayHead_def ListInsertArrayTail_def by simp
qed

theorem array_insert_all_or_lose_one_witness:
  "\<exists>h'. ListInsertArrayHead 16 1000 1 8 full_list = Some (False, h') \<and> dlist h' 16 [(16, 80)] []"
proof -
  obtain b h' where h': "ListInsertArrayHead 16 1000 1 8 full_list = Some (b, h')"
    "dlist h' 16 [(16, 80)] (if b then array_items 1000 (unat (1 :: uint32)) (unat (8 :: uint32)) @ [7] else tl [7])"
    using array_insert_all_or_lose_one [OF full_list_ok(1), of 1 8 1000] by (auto simp: full_list_def)
  have "pool_exhausted full_list 16"
    by (simp add: pool_exhausted_def full_list_def m_FreeItemList_def MemoryAllocate_def)
  then obtain h1 where "ListInsertHead 16 1000 full_list = Some (False, h1)"
    using list_insert_head_ok [OF full_list_ok(1), of 1000] by (auto simp: full_list_ok(2))
  then have "b = False" using h'(1) by (auto simp: ListInsertArrayHead_def split: Option.bind_splits)
  with h' show ?thesis by simp
qed

text \<open>
  C8.  A list of objects gives back all its memory: \<^verbatim>\<open>ListInit\<close> succeeds with an empty
  list or, when memory runs out at any point, fails and leaves the live blocks as they were; and whatever has been
  done to a list since, \<^verbatim>\<open>ListDestroy\<close> returns and leaves exactly the blocks of the rest of the program.
\<close>

theorem list_gives_memory_back:
  assumes "d \<noteq> NULL" "{d, m_FreeItemList d} \<subseteq> in_use h" "n \<noteq> 0" "24 * (unat n + 1) < 2 ^ 32"
  shows "(\<exists>b h'. ListInit d n h = Some (b, h') \<and>
      (if b then dlist h' d (live h) [] else live h' = live h \<and> m_pObjMgr h' d = NULL)) \<and>
    (\<forall>h' objs. dlist h' d (live h) objs \<longrightarrow> (\<exists>h''. ListDestroy d h' = Some h'' \<and> live h'' = live h))"
proof (intro conjI allI impI)
  show "\<exists>b h'. ListInit d n h = Some (b, h') \<and>
      (if b then dlist h' d (live h) [] else live h' = live h \<and> m_pObjMgr h' d = NULL)"
  proof -
    obtain b h' where "ListInit d n h = Some (b, h')" "if b then dlist h' d (live h) [] \<and> GrowItems h' d = max 10 (drop_bit 3 n)
      else live h' = live h \<and> m_pObjMgr h' d = NULL" using list_init_ok [OF assms] by blast
    then show ?thesis by (intro exI [of _ b] exI [of _ h']) (cases b; simp)
  qed
  fix h' objs
  assume "dlist h' d (live h) objs"
  then show "\<exists>h''. ListDestroy d h' = Some h'' \<and> live h'' = live h"
    using list_destroy_ok unfolding dlist_def by blast
qed

theorem list_gives_memory_back_witness:
  "\<exists>b h'. ListInit 16 5 (full_list\<lparr>live := [(16, 80)]\<rparr>) = Some (b, h') \<and>
     (if b then dlist h' 16 [(16, 80)] [] else live h' = [(16, 80)] \<and> m_pObjMgr h' 16 = NULL)"
proof -
  let ?h = "full_list\<lparr>live := [(16, 80)]\<rparr>"
  have "{16, m_FreeItemList 16} \<subseteq> in_use ?h" by (simp add: in_use_def m_FreeItemList_def)
  then have "\<exists>b h'. ListInit 16 5 ?h = Some (b, h') \<and>
      (if b then dlist h' 16 (live ?h) [] else live h' = live ?h \<and> m_pObjMgr h' 16 = NULL)"
    by (intro conjunct1 [OF list_gives_memory_back]) simp_all
  moreover have "live ?h = [(16, 80)]" by simp
  ultimately show ?thesis by (simp only:)
qed

text \<open>
  C7.  A queue is first in, first out: for every program of insertions and removals, failed
  insertions included, the objects that were there and those that were entered are those that came out
  and those that are there now, in this order; and the program returns.
\<close>

theorem queue_is_fifo:
  assumes "dlist h q base objs" "length objs + length (enqueued ops) + unat (GrowItems h q) < 2 ^ 32"
    and "NULL \<notin> set objs" "NULL \<notin> set (enqueued ops)"
  shows "\<exists>i r h' rest. run_queue (QueueInsert q) (QueueRemove q) NULL ops h = Some (i, r, h') \<and>
    dlist h' q base rest \<and> objs @ i = r @ rest"
proof -
  have "QueueInsert q = ListInsertTail q" "QueueRemove q = ListRemoveHead q"
    by (simp_all add: fun_eq_iff QueueInsert_def QueueRemove_def)
  moreover have "dlist_holds q base (GrowItems h q) h objs" using assms(1) by (simp add: dlist_holds_def)
  moreover have "length objs + length (enqueued ops) \<le> 2 ^ 32 - unat (GrowItems h q)" using assms(2) by simp
  ultimately show ?thesis using dl.fifo [of q base "GrowItems h q" h objs ops] assms(3,4) by (auto simp: dlist_holds_def)
qed

theorem queue_is_fifo_witness:
  "\<exists>i r h' rest. run_queue (QueueInsert 16) (QueueRemove 16) NULL [Enqueue 8, Dequeue, Enqueue 9, Dequeue] full_list = Some (i, r, h') \<and>
     dlist h' 16 [(16, 80)] rest \<and> [7] @ i = r @ rest"
  using queue_is_fifo [OF full_list_ok(1), of "[Enqueue 8, Dequeue, Enqueue 9, Dequeue]"] by (simp add: full_list_ok(2))

text \<open>
  \<^verbatim>\<open>StackPop\<close> after a \<^verbatim>\<open>StackPush\<close> that succeeded returns the object and restores the
  stack; a push fails only when no item is free and no memory can be had, and leaves the stack as it was.
\<close>

theorem stack_pop_undoes_push:
  assumes "dlist h s base objs" "length objs + unat (GrowItems h s) < 2 ^ 32"
  shows "\<exists>h1. StackPush s x h = Some (\<not> pool_exhausted h s, h1) \<and>
    (if pool_exhausted h s then dlist h1 s base objs
     else \<exists>h2. StackPop s h1 = Some (x, h2) \<and> dlist h2 s base objs)"
proof -
  obtain h1 where h1: "ListInsertHead s x h = Some (\<not> pool_exhausted h s, h1)"
    "dlist h1 s base (if pool_exhausted h s then objs else x # objs)"
    using list_insert_head_ok [OF assms] by blast
  have h: "dlist_holds s base (GrowItems h s) h objs" "length objs < 2 ^ 32 - unat (GrowItems h s)"
    using assms by (auto simp: dlist_holds_def)
  show ?thesis
  proof (cases "pool_exhausted h s")
    case True
    with h1 show ?thesis by (simp add: StackPush_def)
  next
    case False
    then have "\<exists>h2. ListRemoveHead s h1 = Some (x, h2) \<and> dlist_holds s base (GrowItems h s) h2 objs"
      using dl.pop_undoes_push [OF h] h1(1) by simp
    with h1 False show ?thesis by (auto simp: StackPush_def StackPop_def dlist_holds_def)
  qed
qed

theorem stack_pop_undoes_push_witness:
  "\<exists>h1. StackPush 16 9 full_list = Some (False, h1) \<and> dlist h1 16 [(16, 80)] [7]"
proof -
  have "pool_exhausted full_list 16"
    by (simp add: pool_exhausted_def full_list_def m_FreeItemList_def MemoryAllocate_def)
  then show ?thesis using stack_pop_undoes_push [OF full_list_ok(1), of 9] by (simp add: full_list_ok(2))
qed

end
