(* ===== verification/QMap_Heap.thy ===== *)
theory QMap_Heap
  imports Prelude
begin

text \<open>
  The quick map of \<^verbatim>\<open>IbAccess/Common/Public/iquickmap.c\<close> and
  \<^verbatim>\<open>iquickmap.h\<close>: a red-black tree whose nodes the caller owns, threaded by a
  circular doubly linked list in key order.  Every map has two nodes of its own, the
  \<^verbatim>\<open>root\<close> sentinel above the top item and the \<^verbatim>\<open>nil_item\<close> that ends
  every branch and the list.

  The heap is modelled explicitly, one function from addresses to values per field of
  \<^verbatim>\<open>cl_map_item_t\<close>; the per-map fields \<^verbatim>\<open>count\<close> and
  \<^verbatim>\<open>key_compare\<close> are indexed by the map.  Several maps live in one heap, so that
  operations on two maps (merge, delta) can be stated.  Every function below performs the
  writes of the C function in their order.  A loop whose end depends on the shape of the
  heap is a \<^theory_text>\<open>partial_function (option)\<close>: \<open>None\<close> is a run that does
  not return.
\<close>

subsection \<open>Addresses, nodes and the heap\<close>

datatype addr =
    MRoot nat   \<comment> \<open>\<^verbatim>\<open>&p_map->root\<close> of the map with this number\<close>
  | MNil nat    \<comment> \<open>\<^verbatim>\<open>&p_map->nil_item\<close>\<close>
  | Item nat    \<comment> \<open>an item the caller allocated\<close>

datatype cl_map_color = CL_MAP_RED | CL_MAP_BLACK

type_synonym key_compare = "uint64 \<Rightarrow> uint64 \<Rightarrow> int"

record qheap =
  p_left :: "addr \<Rightarrow> addr"
  p_right :: "addr \<Rightarrow> addr"
  p_up :: "addr \<Rightarrow> addr"
  color :: "addr \<Rightarrow> cl_map_color"
  key :: "addr \<Rightarrow> uint64"
  p_next :: "addr \<Rightarrow> addr"
  p_prev :: "addr \<Rightarrow> addr"
  count :: "nat \<Rightarrow> uint64"
  key_cmp :: "nat \<Rightarrow> key_compare option"

abbreviation set_left :: "addr \<Rightarrow> addr \<Rightarrow> qheap \<Rightarrow> qheap" where
  "set_left a v h \<equiv> h\<lparr>p_left := (p_left h)(a := v)\<rparr>"
abbreviation set_right :: "addr \<Rightarrow> addr \<Rightarrow> qheap \<Rightarrow> qheap" where
  "set_right a v h \<equiv> h\<lparr>p_right := (p_right h)(a := v)\<rparr>"
abbreviation set_up :: "addr \<Rightarrow> addr \<Rightarrow> qheap \<Rightarrow> qheap" where
  "set_up a v h \<equiv> h\<lparr>p_up := (p_up h)(a := v)\<rparr>"
abbreviation set_color :: "addr \<Rightarrow> cl_map_color \<Rightarrow> qheap \<Rightarrow> qheap" where
  "set_color a v h \<equiv> h\<lparr>color := (color h)(a := v)\<rparr>"
abbreviation set_key :: "addr \<Rightarrow> uint64 \<Rightarrow> qheap \<Rightarrow> qheap" where
  "set_key a v h \<equiv> h\<lparr>key := (key h)(a := v)\<rparr>"
abbreviation set_next :: "addr \<Rightarrow> addr \<Rightarrow> qheap \<Rightarrow> qheap" where
  "set_next a v h \<equiv> h\<lparr>p_next := (p_next h)(a := v)\<rparr>"
abbreviation set_prev :: "addr \<Rightarrow> addr \<Rightarrow> qheap \<Rightarrow> qheap" where
  "set_prev a v h \<equiv> h\<lparr>p_prev := (p_prev h)(a := v)\<rparr>"
abbreviation set_count :: "nat \<Rightarrow> uint64 \<Rightarrow> qheap \<Rightarrow> qheap" where
  "set_count m v h \<equiv> h\<lparr>count := (count h)(m := v)\<rparr>"

subsection \<open>The threaded list\<close>

definition cl_primitive_insert :: "addr \<Rightarrow> addr \<Rightarrow> qheap \<Rightarrow> qheap" where
  "cl_primitive_insert p_list_item p_new_item h =
     (let h = set_next p_new_item p_list_item h;
          h = set_prev p_new_item (p_prev h p_list_item) h;
          h = set_prev p_list_item p_new_item h
      in set_next (p_prev h p_new_item) p_new_item h)"

definition cl_primitive_remove :: "addr \<Rightarrow> qheap \<Rightarrow> qheap" where
  "cl_primitive_remove p_list_item h =
     (let h = set_prev (p_next h p_list_item) (p_prev h p_list_item) h
      in set_next (p_prev h p_list_item) (p_next h p_list_item) h)"

definition cl_qmap_count :: "nat \<Rightarrow> qheap \<Rightarrow> uint64" where
  "cl_qmap_count m h = count h m"

definition cl_is_qmap_empty :: "nat \<Rightarrow> qheap \<Rightarrow> bool" where
  "cl_is_qmap_empty m h \<longleftrightarrow> count h m = 0"

definition cl_qmap_key :: "addr \<Rightarrow> qheap \<Rightarrow> uint64" where
  "cl_qmap_key p_item h = key h p_item"

definition cl_qmap_end :: "nat \<Rightarrow> addr" where
  "cl_qmap_end m = MNil m"

definition cl_qmap_head :: "nat \<Rightarrow> qheap \<Rightarrow> addr" where
  "cl_qmap_head m h = p_next h (MNil m)"

definition cl_qmap_tail :: "nat \<Rightarrow> qheap \<Rightarrow> addr" where
  "cl_qmap_tail m h = p_prev h (MNil m)"

definition cl_qmap_next :: "addr \<Rightarrow> qheap \<Rightarrow> addr" where
  "cl_qmap_next p_item h = p_next h p_item"

definition cl_qmap_prev :: "addr \<Rightarrow> qheap \<Rightarrow> addr" where
  "cl_qmap_prev p_item h = p_prev h p_item"

definition cl_qmap_remove_all :: "nat \<Rightarrow> qheap \<Rightarrow> qheap" where
  "cl_qmap_remove_all m h =
     (let h = set_left (MRoot m) (MNil m) h;
          h = set_next (MNil m) (MNil m) h;
          h = set_prev (MNil m) (MNil m) h
      in set_count m 0 h)"

subsection \<open>Tree navigation\<close>

definition cl_map_root :: "nat \<Rightarrow> qheap \<Rightarrow> addr" where
  "cl_map_root m h = p_left h (MRoot m)"

definition cl_map_is_left_child :: "addr \<Rightarrow> qheap \<Rightarrow> bool" where
  "cl_map_is_left_child p_item h \<longleftrightarrow> p_left h (p_up h p_item) = p_item"

text \<open>
  \<^verbatim>\<open>__cl_map_get_parent_ptr_to_item\<close> returns the address of a link field: a
  \<open>slot\<close> is such an address, and is read and written through \<open>get_slot\<close> and
  \<open>set_slot\<close>.
\<close>

datatype slot = LeftSlot addr | RightSlot addr

fun get_slot :: "slot \<Rightarrow> qheap \<Rightarrow> addr" where
  "get_slot (LeftSlot a) h = p_left h a"
| "get_slot (RightSlot a) h = p_right h a"

fun set_slot :: "slot \<Rightarrow> addr \<Rightarrow> qheap \<Rightarrow> qheap" where
  "set_slot (LeftSlot a) v h = set_left a v h"
| "set_slot (RightSlot a) v h = set_right a v h"

definition cl_map_get_parent_ptr_to_item :: "addr \<Rightarrow> qheap \<Rightarrow> slot" where
  "cl_map_get_parent_ptr_to_item p_item h =
     (if cl_map_is_left_child p_item h then LeftSlot (p_up h p_item)
      else RightSlot (p_up h p_item))"

subsection \<open>Rotations\<close>

definition cl_map_rot_left :: "nat \<Rightarrow> addr \<Rightarrow> qheap \<Rightarrow> qheap" where
  "cl_map_rot_left m p_item h =
     (let pp_root = cl_map_get_parent_ptr_to_item p_item h;
          h = set_slot pp_root (p_right h p_item) h;
          h = set_up (get_slot pp_root h) (p_up h p_item) h;
          h = set_right p_item (p_left h (get_slot pp_root h)) h;
          h = (if p_left h (get_slot pp_root h) \<noteq> MNil m
               then set_up (p_left h (get_slot pp_root h)) p_item h else h);
          h = set_left (get_slot pp_root h) p_item h
      in set_up p_item (get_slot pp_root h) h)"

definition cl_map_rot_right :: "nat \<Rightarrow> addr \<Rightarrow> qheap \<Rightarrow> qheap" where
  "cl_map_rot_right m p_item h =
     (let pp_root = cl_map_get_parent_ptr_to_item p_item h;
          h = set_slot pp_root (p_left h p_item) h;
          h = set_up (get_slot pp_root h) (p_up h p_item) h;
          h = set_left p_item (p_right h (get_slot pp_root h)) h;
          h = (if p_right h (get_slot pp_root h) \<noteq> MNil m
               then set_up (p_right h (get_slot pp_root h)) p_item h else h);
          h = set_right (get_slot pp_root h) p_item h
      in set_up p_item (get_slot pp_root h) h)"

subsection \<open>Initialisation\<close>

text \<open>
  \<^verbatim>\<open>MemoryClear\<close> zeroes the two sentinel nodes; the fields written afterwards
  are the only ones the code reads of them, so the zeroed keys and links are not part of the
  model.  The \<^verbatim>\<open>state\<close> field is only read by assertions.
\<close>

definition cl_qmap_init :: "nat \<Rightarrow> key_compare option \<Rightarrow> qheap \<Rightarrow> qheap" where
  "cl_qmap_init m key_compare h =
     (let h = set_up (MRoot m) (MRoot m) h;
          h = set_left (MRoot m) (MNil m) h;
          h = set_right (MRoot m) (MNil m) h;
          h = set_color (MRoot m) CL_MAP_BLACK h;
          h = set_up (MNil m) (MNil m) h;
          h = set_left (MNil m) (MNil m) h;
          h = set_right (MNil m) (MNil m) h;
          h = set_color (MNil m) CL_MAP_BLACK h;
          h = h\<lparr>key_cmp := (key_cmp h)(m := key_compare)\<rparr>
      in cl_qmap_remove_all m h)"

subsection \<open>Lookup\<close>

text \<open>
  The comparison of an item's key with a sought key, as the two branches of the code make
  it: the raw order of the keys when the map has no \<^verbatim>\<open>key_compare\<close>, its result
  otherwise.  A positive value means that the item's key is the greater one.
\<close>

definition qmap_cmp :: "key_compare option \<Rightarrow> uint64 \<Rightarrow> uint64 \<Rightarrow> int" where
  "qmap_cmp kc item_key k =
     (case kc of
        None \<Rightarrow> (if k = item_key then 0 else if k < item_key then 1 else -1)
      | Some f \<Rightarrow> f item_key k)"

partial_function (option) qmap_get_loop ::
  "nat \<Rightarrow> (addr \<Rightarrow> int) \<Rightarrow> qheap \<Rightarrow> addr \<Rightarrow> addr option" where
  "qmap_get_loop m cmp h p_item =
     (if p_item \<noteq> MNil m then
        (if cmp p_item = 0 then Some p_item
         else if cmp p_item > 0 then qmap_get_loop m cmp h (p_left h p_item)
         else qmap_get_loop m cmp h (p_right h p_item))
      else Some p_item)"

definition cl_qmap_get :: "nat \<Rightarrow> uint64 \<Rightarrow> qheap \<Rightarrow> addr option" where
  "cl_qmap_get m k h =
     qmap_get_loop m (\<lambda>p_item. qmap_cmp (key_cmp h m) (key h p_item) k) h (cl_map_root m h)"

definition cl_qmap_get_compare ::
  "nat \<Rightarrow> uint64 \<Rightarrow> key_compare \<Rightarrow> qheap \<Rightarrow> addr option" where
  "cl_qmap_get_compare m k key_compare h =
     qmap_get_loop m (\<lambda>p_item. key_compare (key h p_item) k) h (cl_map_root m h)"

definition cl_qmap_get_item_compare ::
  "nat \<Rightarrow> uint64 \<Rightarrow> (addr \<Rightarrow> uint64 \<Rightarrow> int) \<Rightarrow> qheap \<Rightarrow> addr option" where
  "cl_qmap_get_item_compare m k compare h =
     qmap_get_loop m (\<lambda>p_item. compare p_item k) h (cl_map_root m h)"

text \<open>
  \<^verbatim>\<open>cl_qmap_get_next\<close>: the branch without a \<^verbatim>\<open>key_compare\<close> goes left
  when the sought key is below the item's, the branch with one goes left when the callback's
  result is negative.
\<close>

partial_function (option) qmap_get_next_loop ::
  "nat \<Rightarrow> (addr \<Rightarrow> bool) \<Rightarrow> qheap \<Rightarrow> addr \<Rightarrow> addr \<Rightarrow> addr option" where
  "qmap_get_next_loop m goes_left h p_item p_item_found =
     (if p_item \<noteq> MNil m then
        (if goes_left p_item then qmap_get_next_loop m goes_left h (p_left h p_item) p_item
         else qmap_get_next_loop m goes_left h (p_right h p_item) p_item_found)
      else Some p_item_found)"

definition cl_qmap_get_next :: "nat \<Rightarrow> uint64 \<Rightarrow> qheap \<Rightarrow> addr option" where
  "cl_qmap_get_next m k h =
     (case key_cmp h m of
        None \<Rightarrow> qmap_get_next_loop m (\<lambda>p_item. k < key h p_item) h (cl_map_root m h) (MNil m)
      | Some f \<Rightarrow>
          qmap_get_next_loop m (\<lambda>p_item. f (key h p_item) k < 0) h (cl_map_root m h) (MNil m))"

text \<open>
  \<^verbatim>\<open>cl_qmap_apply_func\<close> runs a callback over the list.  The callback is a state
  transformer on a state of its own (what \<^verbatim>\<open>context\<close> points to); it does not
  change the map.
\<close>

partial_function (option) qmap_apply_loop ::
  "nat \<Rightarrow> (addr \<Rightarrow> 's \<Rightarrow> 's) \<Rightarrow> qheap \<Rightarrow> addr \<Rightarrow> 's \<Rightarrow> 's option" where
  "qmap_apply_loop m pfn_func h p_map_item s =
     (if p_map_item \<noteq> cl_qmap_end m
      then qmap_apply_loop m pfn_func h (cl_qmap_next p_map_item h) (pfn_func p_map_item s)
      else Some s)"

definition cl_qmap_apply_func :: "nat \<Rightarrow> (addr \<Rightarrow> 's \<Rightarrow> 's) \<Rightarrow> 's \<Rightarrow> qheap \<Rightarrow> 's option" where
  "cl_qmap_apply_func m pfn_func s h = qmap_apply_loop m pfn_func h (cl_qmap_head m h) s"

subsection \<open>Insertion\<close>

partial_function (option) cl_map_ins_bal :: "nat \<Rightarrow> addr \<Rightarrow> qheap \<Rightarrow> qheap option" where
  "cl_map_ins_bal m p_item h =
     (if color h (p_up h p_item) = CL_MAP_RED then
        (if cl_map_is_left_child (p_up h p_item) h then
           (let p_grand_uncle = p_right h (p_up h (p_up h p_item)) in
            if color h p_grand_uncle = CL_MAP_RED then
              (let h = set_color p_grand_uncle CL_MAP_BLACK h;
                   h = set_color (p_up h p_item) CL_MAP_BLACK h;
                   h = set_color (p_up h (p_up h p_item)) CL_MAP_RED h
               in cl_map_ins_bal m (p_up h (p_up h p_item)) h)
            else
              (let (p_item, h) =
                     (if \<not> cl_map_is_left_child p_item h
                      then (p_up h p_item, cl_map_rot_left m (p_up h p_item) h)
                      else (p_item, h));
                   h = set_color (p_up h p_item) CL_MAP_BLACK h;
                   h = set_color (p_up h (p_up h p_item)) CL_MAP_RED h;
                   h = cl_map_rot_right m (p_up h (p_up h p_item)) h
               in cl_map_ins_bal m p_item h))
         else
           (let p_grand_uncle = p_left h (p_up h (p_up h p_item)) in
            if color h p_grand_uncle = CL_MAP_RED then
              (let h = set_color p_grand_uncle CL_MAP_BLACK h;
                   h = set_color (p_up h p_item) CL_MAP_BLACK h;
                   h = set_color (p_up h (p_up h p_item)) CL_MAP_RED h
               in cl_map_ins_bal m (p_up h (p_up h p_item)) h)
            else
              (let (p_item, h) =
                     (if cl_map_is_left_child p_item h
                      then (p_up h p_item, cl_map_rot_right m (p_up h p_item) h)
                      else (p_item, h));
                   h = set_color (p_up h p_item) CL_MAP_BLACK h;
                   h = set_color (p_up h (p_up h p_item)) CL_MAP_RED h;
                   h = cl_map_rot_left m (p_up h (p_up h p_item)) h
               in cl_map_ins_bal m p_item h)))
      else Some h)"

text \<open>
  The search for the insertion point: \<open>Inl\<close> is the early return of an item that has the
  key already, \<open>Inr\<close> the item to insert at with the last comparison.
\<close>

partial_function (option) qmap_insert_loop ::
  "nat \<Rightarrow> (addr \<Rightarrow> int) \<Rightarrow> qheap \<Rightarrow> addr \<Rightarrow> addr \<Rightarrow> int \<Rightarrow> (addr + addr \<times> int) option" where
  "qmap_insert_loop m cmp h p_insert_at p_comp_item compare_res =
     (if p_comp_item \<noteq> MNil m then
        (let p_insert_at = p_comp_item; compare_res = cmp p_insert_at in
         if compare_res = 0 then Some (Inl p_insert_at)
         else if compare_res > 0
           then qmap_insert_loop m cmp h p_insert_at (p_left h p_insert_at) compare_res
           else qmap_insert_loop m cmp h p_insert_at (p_right h p_insert_at) compare_res)
      else Some (Inr (p_insert_at, compare_res)))"

definition qmap_link_item ::
  "nat \<Rightarrow> uint64 \<Rightarrow> addr \<Rightarrow> addr \<Rightarrow> int \<Rightarrow> qheap \<Rightarrow> qheap" where
  "qmap_link_item m k p_item p_insert_at compare_res h =
     (let h = set_left p_item (MNil m) h;
          h = set_right p_item (MNil m) h;
          h = set_key p_item k h;
          h = set_color p_item CL_MAP_RED h;
          h = (if p_insert_at = MRoot m then
                 cl_primitive_insert (MNil m) p_item (set_left p_insert_at p_item h)
               else if compare_res > 0 then
                 cl_primitive_insert p_insert_at p_item (set_left p_insert_at p_item h)
               else
                 (let h = set_right p_insert_at p_item h
                  in cl_primitive_insert (p_next h p_insert_at) p_item h));
          h = set_count m (count h m + 1) h
      in set_up p_item p_insert_at h)"

definition cl_qmap_insert :: "nat \<Rightarrow> uint64 \<Rightarrow> addr \<Rightarrow> qheap \<Rightarrow> (addr \<times> qheap) option" where
  "cl_qmap_insert m k p_item h =
     (case qmap_insert_loop m (\<lambda>p. qmap_cmp (key_cmp h m) (key h p) k) h
             (MRoot m) (cl_map_root m h) 0 of
        None \<Rightarrow> None
      | Some (Inl p) \<Rightarrow> Some (p, h)
      | Some (Inr (p_insert_at, compare_res)) \<Rightarrow>
          (case cl_map_ins_bal m p_item (qmap_link_item m k p_item p_insert_at compare_res h) of
             None \<Rightarrow> None
           | Some h \<Rightarrow> Some (p_item, set_color (cl_map_root m h) CL_MAP_BLACK h)))"

subsection \<open>Removal\<close>

partial_function (option) cl_map_del_bal :: "nat \<Rightarrow> addr \<Rightarrow> qheap \<Rightarrow> qheap option" where
  "cl_map_del_bal m p_item h =
     (if color h p_item \<noteq> CL_MAP_RED \<and> p_up h p_item \<noteq> MRoot m then
        (if cl_map_is_left_child p_item h then
           (let p_uncle = p_right h (p_up h p_item);
                (p_uncle, h) =
                  (if color h p_uncle = CL_MAP_RED then
                     (let h = set_color p_uncle CL_MAP_BLACK h;
                          h = set_color (p_up h p_item) CL_MAP_RED h;
                          h = cl_map_rot_left m (p_up h p_item) h
                      in (p_right h (p_up h p_item), h))
                   else (p_uncle, h))
            in
            if color h (p_right h p_uncle) \<noteq> CL_MAP_RED \<and>
               color h (p_left h p_uncle) \<noteq> CL_MAP_RED then
              (let h = set_color p_uncle CL_MAP_RED h
               in cl_map_del_bal m (p_up h p_item) h)
            else
              (let (p_uncle, h) =
                     (if color h (p_right h p_uncle) \<noteq> CL_MAP_RED then
                        (let h = set_color (p_left h p_uncle) CL_MAP_BLACK h;
                             h = set_color p_uncle CL_MAP_RED h;
                             h = cl_map_rot_right m p_uncle h
                         in (p_right h (p_up h p_item), h))
                      else (p_uncle, h));
                   h = set_color p_uncle (color h (p_up h p_item)) h;
                   h = set_color (p_up h p_item) CL_MAP_BLACK h;
                   h = set_color (p_right h p_uncle) CL_MAP_BLACK h;
                   h = cl_map_rot_left m (p_up h p_item) h
               in Some (set_color p_item CL_MAP_BLACK h)))
         else
           (let p_uncle = p_left h (p_up h p_item);
                (p_uncle, h) =
                  (if color h p_uncle = CL_MAP_RED then
                     (let h = set_color p_uncle CL_MAP_BLACK h;
                          h = set_color (p_up h p_item) CL_MAP_RED h;
                          h = cl_map_rot_right m (p_up h p_item) h
                      in (p_left h (p_up h p_item), h))
                   else (p_uncle, h))
            in
            if color h (p_left h p_uncle) \<noteq> CL_MAP_RED \<and>
               color h (p_right h p_uncle) \<noteq> CL_MAP_RED then
              (let h = set_color p_uncle CL_MAP_RED h
               in cl_map_del_bal m (p_up h p_item) h)
            else
              (let (p_uncle, h) =
                     (if color h (p_left h p_uncle) \<noteq> CL_MAP_RED then
                        (let h = set_color (p_right h p_uncle) CL_MAP_BLACK h;
                             h = set_color p_uncle CL_MAP_RED h;
                             h = cl_map_rot_left m p_uncle h
                         in (p_left h (p_up h p_item), h))
                      else (p_uncle, h));
                   h = set_color p_uncle (color h (p_up h p_item)) h;
                   h = set_color (p_up h p_item) CL_MAP_BLACK h;
                   h = set_color (p_left h p_uncle) CL_MAP_BLACK h;
                   h = cl_map_rot_right m (p_up h p_item) h
               in Some (set_color p_item CL_MAP_BLACK h))))
      else Some (set_color p_item CL_MAP_BLACK h))"

definition qmap_replace_item :: "addr \<Rightarrow> addr \<Rightarrow> qheap \<Rightarrow> qheap" where
  "qmap_replace_item p_item p_del_item h =
     (let h = set_up p_del_item (p_up h p_item) h;
          h = set_left p_del_item (p_left h p_item) h;
          h = set_right p_del_item (p_right h p_item) h;
          h = set_slot (cl_map_get_parent_ptr_to_item p_item h) p_del_item h;
          h = set_up (p_right h p_item) p_del_item h;
          h = set_up (p_left h p_item) p_del_item h
      in set_color p_del_item (color h p_item) h)"

definition cl_qmap_remove_item :: "nat \<Rightarrow> addr \<Rightarrow> qheap \<Rightarrow> qheap option" where
  "cl_qmap_remove_item m p_item h =
     (if p_item = cl_qmap_end m then Some h
      else
        (let p_del_item = (if p_right h p_item = MNil m \<or> p_left h p_item = MNil m
                           then p_item else cl_qmap_next p_item h);
             h = cl_primitive_remove p_item h;
             h = set_count m (count h m - 1) h;
             p_child = (if p_left h p_del_item \<noteq> MNil m then p_left h p_del_item
                        else p_right h p_del_item);
             h = set_up p_child (p_up h p_del_item) h;
             h = set_slot (cl_map_get_parent_ptr_to_item p_del_item h) p_child h
         in case (if color h p_del_item \<noteq> CL_MAP_RED then cl_map_del_bal m p_child h
                  else Some h) of
              None \<Rightarrow> None
            | Some h \<Rightarrow>
                Some (if p_del_item \<noteq> p_item then qmap_replace_item p_item p_del_item h
                      else h)))"

definition cl_qmap_remove :: "nat \<Rightarrow> uint64 \<Rightarrow> qheap \<Rightarrow> (addr \<times> qheap) option" where
  "cl_qmap_remove m k h =
     (case cl_qmap_get m k h of
        None \<Rightarrow> None
      | Some p_item \<Rightarrow> map_option (\<lambda>h. (p_item, h)) (cl_qmap_remove_item m p_item h))"

definition cl_qmap_remove_compare ::
  "nat \<Rightarrow> uint64 \<Rightarrow> key_compare \<Rightarrow> qheap \<Rightarrow> (addr \<times> qheap) option" where
  "cl_qmap_remove_compare m k key_compare h =
     (case cl_qmap_get_compare m k key_compare h of
        None \<Rightarrow> None
      | Some p_item \<Rightarrow> map_option (\<lambda>h. (p_item, h)) (cl_qmap_remove_item m p_item h))"

subsection \<open>Operations on two maps\<close>

partial_function (option) qmap_merge_loop :: "nat \<Rightarrow> nat \<Rightarrow> addr \<Rightarrow> qheap \<Rightarrow> qheap option" where
  "qmap_merge_loop dest src p_item h =
     (if p_item \<noteq> cl_qmap_end src then
        (let p_next = cl_qmap_next p_item h in
         Option.bind (cl_qmap_remove_item src p_item h) (\<lambda>h.
         Option.bind (cl_qmap_insert dest (cl_qmap_key p_item h) p_item h) (\<lambda>(p_item2, h).
         if p_item2 \<noteq> p_item then
           Option.bind (cl_qmap_insert src (cl_qmap_key p_item h) p_item h) (\<lambda>(p_item2, h).
           qmap_merge_loop dest src p_next h)
         else qmap_merge_loop dest src p_next h)))
      else Some h)"

definition cl_qmap_merge :: "nat \<Rightarrow> nat \<Rightarrow> qheap \<Rightarrow> qheap option" where
  "cl_qmap_merge dest src h = qmap_merge_loop dest src (cl_qmap_head src h) h"

definition cl_qmap_delta_move :: "nat \<Rightarrow> nat \<Rightarrow> addr \<Rightarrow> qheap \<Rightarrow> (addr \<times> qheap) option" where
  "cl_qmap_delta_move dest src p_item h =
     (let p_next = cl_qmap_next p_item h in
      Option.bind (cl_qmap_remove_item src p_item h) (\<lambda>h.
      Option.bind (cl_qmap_insert dest (cl_qmap_key p_item h) p_item h) (\<lambda>(p_temp, h).
      Some (p_next, h))))"

partial_function (option) qmap_delta_rest :: "nat \<Rightarrow> nat \<Rightarrow> addr \<Rightarrow> qheap \<Rightarrow> qheap option" where
  "qmap_delta_rest dest src p_item h =
     (if p_item \<noteq> cl_qmap_end src then
        Option.bind (cl_qmap_delta_move dest src p_item h) (\<lambda>(p_item, h).
        qmap_delta_rest dest src p_item h)
      else Some h)"

partial_function (option) qmap_delta_loop ::
  "nat \<Rightarrow> nat \<Rightarrow> nat \<Rightarrow> nat \<Rightarrow> addr \<Rightarrow> addr \<Rightarrow> qheap \<Rightarrow> (addr \<times> addr \<times> qheap) option" where
  "qmap_delta_loop m1 m2 new old p_item1 p_item2 h =
     (if p_item1 \<noteq> cl_qmap_end m1 \<and> p_item2 \<noteq> cl_qmap_end m2 then
        (let key1 = cl_qmap_key p_item1 h; key2 = cl_qmap_key p_item2 h in
         if key1 < key2 then
           Option.bind (cl_qmap_delta_move old m1 p_item1 h) (\<lambda>(p_item1, h).
           qmap_delta_loop m1 m2 new old p_item1 p_item2 h)
         else if key1 > key2 then
           Option.bind (cl_qmap_delta_move new m2 p_item2 h) (\<lambda>(p_item2, h).
           qmap_delta_loop m1 m2 new old p_item1 p_item2 h)
         else qmap_delta_loop m1 m2 new old (cl_qmap_next p_item1 h) (cl_qmap_next p_item2 h) h)
      else Some (p_item1, p_item2, h))"

definition cl_qmap_delta :: "nat \<Rightarrow> nat \<Rightarrow> nat \<Rightarrow> nat \<Rightarrow> qheap \<Rightarrow> qheap option" where
  "cl_qmap_delta m1 m2 new old h =
     Option.bind (qmap_delta_loop m1 m2 new old (cl_qmap_head m1 h) (cl_qmap_head m2 h) h)
       (\<lambda>(p_item1, p_item2, h).
        Option.bind (qmap_delta_rest new m2 p_item2 h) (\<lambda>h.
        qmap_delta_rest old m1 p_item1 h))"

end
