(* ===== verification/QMap_Tree.thy ===== *)
theory QMap_Tree
  imports QMap_Heap
begin

text \<open>
  The functional view of the quick map's tree: coloured binary trees over item numbers, and
  paths (the frames between a subtree and the root).  \<open>ins_tree\<close> and \<open>del_tree\<close>
  are the tree transformations that the two balancing loops of \<^verbatim>\<open>iquickmap.c\<close>
  perform; this theory shows that they keep the order of the items and restore the
  red-black invariant.  The theories \<open>QMap_Insert\<close> and \<open>QMap_Remove\<close> show that the
  pointer programs compute them.
\<close>

subsection \<open>Trees and paths\<close>

datatype qtree = Leaf | Node cl_map_color qtree nat qtree

text \<open>\<open>InL c x r\<close>: the hole is the left child of \<open>x\<close>; \<open>InR c x l\<close>: the right child.\<close>

datatype frame = InL cl_map_color nat qtree | InR cl_map_color nat qtree

type_synonym path = "frame list"

fun plug :: "path \<Rightarrow> qtree \<Rightarrow> qtree" where
  "plug [] t = t"
| "plug (InL c x r # k) t = plug k (Node c t x r)"
| "plug (InR c x l # k) t = plug k (Node c l x t)"

fun inorder :: "qtree \<Rightarrow> nat list" where
  "inorder Leaf = []"
| "inorder (Node c l x r) = inorder l @ x # inorder r"

fun before :: "path \<Rightarrow> nat list" where
  "before [] = []"
| "before (InL c x r # k) = before k"
| "before (InR c x l # k) = before k @ inorder l @ [x]"

fun after :: "path \<Rightarrow> nat list" where
  "after [] = []"
| "after (InL c x r # k) = x # inorder r @ after k"
| "after (InR c x l # k) = after k"

lemma inorder_plug [shape_simps]: "inorder (plug k t) = before k @ inorder t @ after k"
  by (induction k t rule: plug.induct) auto

lemma plug_append: "plug (k @ k') t = plug k' (plug k t)"
  by (induction k t rule: plug.induct) auto

lemma before_append [shape_simps]: "before (k @ k') = before k' @ before k"
  by (induction k rule: before.induct) auto

lemma after_append [shape_simps]: "after (k @ k') = after k @ after k'"
  by (induction k rule: after.induct) auto

subsection \<open>The red-black invariant\<close>

fun tcol :: "qtree \<Rightarrow> cl_map_color" where
  "tcol Leaf = CL_MAP_BLACK"
| "tcol (Node c l x r) = c"

fun paint :: "cl_map_color \<Rightarrow> qtree \<Rightarrow> qtree" where
  "paint c Leaf = Leaf"
| "paint c (Node d l x r) = Node c l x r"

fun bh :: "qtree \<Rightarrow> nat" where
  "bh Leaf = 0"
| "bh (Node c l x r) = bh l + (if c = CL_MAP_BLACK then 1 else 0)"

fun invc :: "qtree \<Rightarrow> bool" where
  "invc Leaf = True"
| "invc (Node c l x r) \<longleftrightarrow> invc l \<and> invc r \<and>
     (c = CL_MAP_RED \<longrightarrow> tcol l = CL_MAP_BLACK \<and> tcol r = CL_MAP_BLACK)"

fun invh :: "qtree \<Rightarrow> bool" where
  "invh Leaf = True"
| "invh (Node c l x r) \<longleftrightarrow> invh l \<and> invh r \<and> bh l = bh r"

definition rb_tree :: "qtree \<Rightarrow> bool" where
  "rb_tree t \<longleftrightarrow> invc t \<and> invh t \<and> tcol t = CL_MAP_BLACK"

lemma not_red [simp]: "c \<noteq> CL_MAP_RED \<longleftrightarrow> c = CL_MAP_BLACK"
  by (cases c) auto

lemma not_black [simp]: "c \<noteq> CL_MAP_BLACK \<longleftrightarrow> c = CL_MAP_RED"
  by (cases c) auto

lemma inorder_paint [simp]: "inorder (paint c t) = inorder t"
  by (cases t) auto

lemma invh_paint [simp]: "invh (paint c t) = invh t"
  by (cases t) auto

lemma tcol_paint_black [simp]: "tcol (paint CL_MAP_BLACK t) = CL_MAP_BLACK"
  by (cases t) auto

lemma invc_paint_black: "invc t \<Longrightarrow> invc (paint CL_MAP_BLACK t)"
  by (cases t) auto

lemma paint_same [simp]: "paint (tcol t) t = t"
  by (cases t) auto

lemma paint_black_id: "tcol t = CL_MAP_BLACK \<Longrightarrow> paint CL_MAP_BLACK t = t"
  by (cases t) auto

lemma paint_paint [simp]: "paint c (paint d t) = paint c t"
  by (cases t) auto

lemma bh_paint_black: "bh (paint CL_MAP_BLACK t) = bh t + (if tcol t = CL_MAP_RED then 1 else 0)"
  by (cases t) auto

lemma red_node: "tcol t = CL_MAP_RED \<Longrightarrow> \<exists>l x r. t = Node CL_MAP_RED l x r"
  by (cases t) auto

text \<open>
  The part of the invariant that belongs to a path: what a subtree of black height \<open>n\<close>
  needs of its context.
\<close>

fun kcol :: "path \<Rightarrow> cl_map_color" where
  "kcol [] = CL_MAP_BLACK"
| "kcol (InL c x r # k) = c"
| "kcol (InR c x l # k) = c"

fun kinv :: "path \<Rightarrow> nat \<Rightarrow> bool" where
  "kinv [] n = True"
| "kinv (InL c x s # k) n \<longleftrightarrow> invc s \<and> invh s \<and> bh s = n \<and>
     (c = CL_MAP_RED \<longrightarrow> tcol s = CL_MAP_BLACK \<and> kcol k = CL_MAP_BLACK) \<and>
     kinv k (n + (if c = CL_MAP_BLACK then 1 else 0))"
| "kinv (InR c x s # k) n \<longleftrightarrow> invc s \<and> invh s \<and> bh s = n \<and>
     (c = CL_MAP_RED \<longrightarrow> tcol s = CL_MAP_BLACK \<and> kcol k = CL_MAP_BLACK) \<and>
     kinv k (n + (if c = CL_MAP_BLACK then 1 else 0))"

text \<open>The top frame of a path below the root sentinel is black.\<close>

definition root_black :: "path \<Rightarrow> bool" where
  "root_black k \<longleftrightarrow> k = [] \<or> kcol [last k] = CL_MAP_BLACK"

lemma root_black_Cons [simp]:
  "root_black (f # k) \<longleftrightarrow> (if k = [] then kcol [f] = CL_MAP_BLACK else root_black k)"
  by (simp add: root_black_def)

lemma root_black_Nil [simp]: "root_black []"
  by (simp add: root_black_def)

lemma kcol_single: "kcol (f # k) = kcol [f]"
  by (cases f) auto

lemma plug_inv:
  "invc (plug k t) \<and> invh (plug k t) \<longleftrightarrow>
     kinv k (bh t) \<and> invc t \<and> invh t \<and> (kcol k = CL_MAP_RED \<longrightarrow> tcol t = CL_MAP_BLACK)"
  by (induction k t rule: plug.induct) auto

lemma plugI:
  assumes "kinv k (bh t)" "invc t" "invh t" "kcol k = CL_MAP_RED \<longrightarrow> tcol t = CL_MAP_BLACK"
  shows invc_plugI: "invc (plug k t)" and invh_plugI: "invh (plug k t)"
    and invc_paint_plugI: "invc (paint CL_MAP_BLACK (plug k t))"
  using plug_inv [of k t] assms by (auto intro: invc_paint_black)

lemmas plug_intros = invc_plugI invh_plugI invc_paint_plugI

lemma tcol_plug: "tcol (plug k t) = (if k = [] then tcol t else kcol [last k])"
  by (induction k t rule: plug.induct) auto

lemma rb_tree_plug:
  "rb_tree (plug k t) \<longleftrightarrow>
     kinv k (bh t) \<and> invc t \<and> invh t \<and> (kcol k = CL_MAP_RED \<longrightarrow> tcol t = CL_MAP_BLACK) \<and>
     (if k = [] then tcol t = CL_MAP_BLACK else root_black k)"
  using plug_inv [of k t] by (auto simp: rb_tree_def tcol_plug root_black_def)

subsection \<open>Rebalancing after an insertion\<close>

text \<open>
  \<open>ins_tree t k\<close>: \<open>t\<close> is the red subtree whose top item is \<^verbatim>\<open>p_item\<close>, \<open>k\<close>
  the path above it.
\<close>

fun ins_tree :: "qtree \<Rightarrow> path \<Rightarrow> qtree" where
  "ins_tree t (InL CL_MAP_RED p s # InL g gp u # k) =
     (if tcol u = CL_MAP_RED
      then ins_tree (Node CL_MAP_RED (Node CL_MAP_BLACK t p s) gp (paint CL_MAP_BLACK u)) k
      else plug k (Node CL_MAP_BLACK t p (Node CL_MAP_RED s gp u)))"
| "ins_tree (Node c a x b) (InR CL_MAP_RED p s # InL g gp u # k) =
     (if tcol u = CL_MAP_RED
      then ins_tree (Node CL_MAP_RED (Node CL_MAP_BLACK s p (Node c a x b)) gp
                       (paint CL_MAP_BLACK u)) k
      else plug k (Node CL_MAP_BLACK (Node CL_MAP_RED s p a) x (Node CL_MAP_RED b gp u)))"
| "ins_tree t (InR CL_MAP_RED p s # InR g gp u # k) =
     (if tcol u = CL_MAP_RED
      then ins_tree (Node CL_MAP_RED (paint CL_MAP_BLACK u) gp (Node CL_MAP_BLACK s p t)) k
      else plug k (Node CL_MAP_BLACK (Node CL_MAP_RED u gp s) p t))"
| "ins_tree (Node c a x b) (InL CL_MAP_RED p s # InR g gp u # k) =
     (if tcol u = CL_MAP_RED
      then ins_tree (Node CL_MAP_RED (paint CL_MAP_BLACK u) gp
                       (Node CL_MAP_BLACK (Node c a x b) p s)) k
      else plug k (Node CL_MAP_BLACK (Node CL_MAP_RED u gp a) x (Node CL_MAP_RED b p s)))"
| "ins_tree t k = plug k t"

lemma inorder_ins_tree:
  "inorder (ins_tree t k) = before k @ inorder t @ after k"
  by (induction t k rule: ins_tree.induct) (auto simp: shape_simps)

lemma ins_tree_inv:
  assumes "tcol t = CL_MAP_RED" "invc t" "invh t" "kinv k (bh t)" "root_black k"
  shows "invc (paint CL_MAP_BLACK (ins_tree t k)) \<and> invh (ins_tree t k)"
  using assms
  by (induction t k rule: ins_tree.induct)
    (auto simp: invc_paint_black bh_paint_black intro!: plug_intros split: if_splits)

text \<open>
  The tree an insertion leaves: a red leaf at the hole, rebalanced, the top item painted
  black.
\<close>

definition ins_result :: "nat \<Rightarrow> path \<Rightarrow> qtree" where
  "ins_result x k = paint CL_MAP_BLACK (ins_tree (Node CL_MAP_RED Leaf x Leaf) k)"

subsection \<open>Rebalancing after a removal\<close>

text \<open>
  \<open>del_tree t k\<close>: \<open>t\<close> is the subtree of \<^verbatim>\<open>p_item\<close>, one black node short,
  \<open>k\<close> the path above it.  \<open>red_uncle\<close> is the first test of the loop body (a red
  sibling is rotated above the parent), \<open>fix_left\<close> and \<open>fix_right\<close> the rotations
  that end the loop.
\<close>

fun red_uncle :: "path \<Rightarrow> path" where
  "red_uncle (InL c p (Node CL_MAP_RED a u b) # k) =
     InL CL_MAP_RED p a # InL CL_MAP_BLACK u b # k"
| "red_uncle (InR c p (Node CL_MAP_RED a u b) # k) =
     InR CL_MAP_RED p b # InR CL_MAP_BLACK u a # k"
| "red_uncle k = k"

fun fix_left :: "cl_map_color \<Rightarrow> nat \<Rightarrow> qtree \<Rightarrow> qtree \<Rightarrow> nat \<Rightarrow> qtree \<Rightarrow> qtree" where
  "fix_left c p t (Node CL_MAP_RED a y b) u (Node CL_MAP_BLACK v x w) =
     Node c (Node CL_MAP_BLACK t p a) y (Node CL_MAP_BLACK b u (Node CL_MAP_BLACK v x w))"
| "fix_left c p t (Node CL_MAP_RED a y b) u Leaf =
     Node c (Node CL_MAP_BLACK t p a) y (Node CL_MAP_BLACK b u Leaf)"
| "fix_left c p t s u r = Node c (Node CL_MAP_BLACK t p s) u (paint CL_MAP_BLACK r)"

fun fix_right :: "cl_map_color \<Rightarrow> nat \<Rightarrow> qtree \<Rightarrow> qtree \<Rightarrow> nat \<Rightarrow> qtree \<Rightarrow> qtree" where
  "fix_right c p t (Node CL_MAP_RED a y b) u (Node CL_MAP_BLACK v x w) =
     Node c (Node CL_MAP_BLACK (Node CL_MAP_BLACK v x w) u a) y (Node CL_MAP_BLACK b p t)"
| "fix_right c p t (Node CL_MAP_RED a y b) u Leaf =
     Node c (Node CL_MAP_BLACK Leaf u a) y (Node CL_MAP_BLACK b p t)"
| "fix_right c p t s u l = Node c (paint CL_MAP_BLACK l) u (Node CL_MAP_BLACK s p t)"

lemma red_uncle_length:
  "red_uncle k = f # k' \<Longrightarrow>
     length k' < length k \<or> length k' = length k \<and> kcol [f] = CL_MAP_RED"
  by (induction k rule: red_uncle.induct) auto

function del_tree :: "qtree \<Rightarrow> path \<Rightarrow> qtree" where
  "del_tree t k =
     (if tcol t = CL_MAP_RED \<or> k = [] then plug k (paint CL_MAP_BLACK t)
      else case red_uncle k of
        InL c p (Node d s u r) # k' \<Rightarrow>
          (if tcol r = CL_MAP_BLACK \<and> tcol s = CL_MAP_BLACK
           then del_tree (Node c t p (Node CL_MAP_RED s u r)) k'
           else plug k' (fix_left c p t s u r))
      | InR c p (Node d l u s) # k' \<Rightarrow>
          (if tcol l = CL_MAP_BLACK \<and> tcol s = CL_MAP_BLACK
           then del_tree (Node c (Node CL_MAP_RED l u s) p t) k'
           else plug k' (fix_right c p t s u l))
      | k' \<Rightarrow> plug k' t)"
  by pat_completeness auto

termination
proof (relation "measure (\<lambda>(t, k). 2 * length k + (if tcol t = CL_MAP_RED then 0 else 1))",
    goal_cases)
  case 1 show ?case by simp
qed (auto dest!: red_uncle_length)

declare del_tree.simps [simp del]

lemma del_tree_red: "tcol t = CL_MAP_RED \<Longrightarrow> del_tree t k = plug k (paint CL_MAP_BLACK t)"
  by (simp add: del_tree.simps)

lemma del_tree_Nil: "del_tree t [] = paint CL_MAP_BLACK t"
  by (simp add: del_tree.simps)

lemma inorder_fix_left: "inorder (fix_left c p t s u r) = inorder t @ p # inorder s @ u # inorder r"
  by (induction c p t s u r rule: fix_left.induct) auto

lemma inorder_fix_right: "inorder (fix_right c p t s u l) = inorder l @ u # inorder s @ p # inorder t"
  by (induction c p t s u l rule: fix_right.induct) auto

lemma red_uncle_before [simp]: "before (red_uncle k) = before k"
  by (induction k rule: red_uncle.induct) auto

lemma red_uncle_after [simp]: "after (red_uncle k) = after k"
  by (induction k rule: red_uncle.induct) auto

lemma inorder_del_tree: "inorder (del_tree t k) = before k @ inorder t @ after k"
proof (induction t k rule: del_tree.induct)
  case (1 t k)
  have b: "before k = before (red_uncle k)" "after k = after (red_uncle k)" by simp_all
  show ?case
    by (subst del_tree.simps)
      (auto simp: shape_simps b inorder_fix_left inorder_fix_right 1
        split: list.split frame.split qtree.split simp del: red_uncle_before red_uncle_after)
qed

text \<open>A red sibling is replaced by a black one without touching the invariant.\<close>

lemma red_uncle_inv:
  assumes "kinv k (Suc n)" "root_black k" "k \<noteq> []"
  shows "kinv (red_uncle k) (Suc n) \<and> root_black (red_uncle k) \<and>
    ((\<exists>c p s u r k'. red_uncle k = InL c p (Node CL_MAP_BLACK s u r) # k') \<or>
     (\<exists>c p l u s k'. red_uncle k = InR c p (Node CL_MAP_BLACK l u s) # k'))"
  using assms
proof (cases k)
  case (Cons f k')
  with assms show ?thesis
  proof (cases f)
    case (InL c p s)
    with Cons assms show ?thesis
      by (cases s; cases "tcol s") (auto elim!: bh.elims split: if_splits)
  next
    case (InR c p s)
    with Cons assms show ?thesis
      by (cases s; cases "tcol s") (auto elim!: bh.elims split: if_splits)
  qed
qed simp

lemma fix_left_inv:
  assumes "invc t" "invh t" "tcol t = CL_MAP_BLACK" "invc s" "invh s" "invc r" "invh r"
    "bh s = bh t" "bh r = bh t" "tcol r = CL_MAP_RED \<or> tcol s = CL_MAP_RED"
  shows "invc (fix_left c p t s u r)" "invh (fix_left c p t s u r)"
    "bh (fix_left c p t s u r) = Suc (bh t) + (if c = CL_MAP_BLACK then 1 else 0)"
    "tcol (fix_left c p t s u r) = c"
  using assms
  by (induction c p t s u r rule: fix_left.induct)
    (auto simp: bh_paint_black invc_paint_black split: if_splits)

lemma fix_right_inv:
  assumes "invc t" "invh t" "tcol t = CL_MAP_BLACK" "invc s" "invh s" "invc l" "invh l"
    "bh s = bh t" "bh l = bh t" "tcol l = CL_MAP_RED \<or> tcol s = CL_MAP_RED"
  shows "invc (fix_right c p t s u l)" "invh (fix_right c p t s u l)"
    "bh (fix_right c p t s u l) = Suc (bh t) + (if c = CL_MAP_BLACK then 1 else 0)"
    "tcol (fix_right c p t s u l) = c"
  using assms
  by (induction c p t s u l rule: fix_right.induct)
    (auto simp: bh_paint_black invc_paint_black split: if_splits)

lemma del_tree_inv:
  assumes "invc (paint CL_MAP_BLACK t)" "invh t" "kinv k (Suc (bh t))" "root_black k"
  shows "rb_tree (del_tree t k)"
  using assms
proof (induction t k rule: del_tree.induct)
  case (1 t k)
  show ?case
  proof (cases "tcol t = CL_MAP_RED \<or> k = []")
    case True
    then show ?thesis
      using 1 by (subst del_tree.simps) (auto simp: rb_tree_plug bh_paint_black)
  next
    case False
    then have t: "tcol t = CL_MAP_BLACK" "k \<noteq> []" by auto
    with 1 have tc: "invc t" by (simp add: paint_black_id)
    note ru = red_uncle_inv [OF "1.prems"(3,4) t(2)]
    then consider
        (L) c p s u r k' where "red_uncle k = InL c p (Node CL_MAP_BLACK s u r) # k'"
      | (R) c p l u s k' where "red_uncle k = InR c p (Node CL_MAP_BLACK l u s) # k'"
      by blast
    then show ?thesis
    proof cases
      case L
      with ru 1(1) t tc "1.prems" show ?thesis
        by (subst del_tree.simps)
          (auto simp: rb_tree_plug fix_left_inv paint_black_id split: if_splits)
    next
      case R
      with ru 1(2) t tc "1.prems" show ?thesis
        by (subst del_tree.simps)
          (auto simp: rb_tree_plug fix_right_inv paint_black_id split: if_splits)
    qed
  qed
qed

subsection \<open>Replacing an item in place\<close>

fun subst_item :: "nat \<Rightarrow> nat \<Rightarrow> qtree \<Rightarrow> qtree" where
  "subst_item x y Leaf = Leaf"
| "subst_item x y (Node c l z r) =
     Node c (subst_item x y l) (if z = x then y else z) (subst_item x y r)"

lemma tcol_subst [simp]: "tcol (subst_item x y t) = tcol t"
  by (cases t) auto

lemma bh_subst [simp]: "bh (subst_item x y t) = bh t"
  by (induction t) auto

lemma invc_subst [simp]: "invc (subst_item x y t) = invc t"
  by (induction t) auto

lemma invh_subst [simp]: "invh (subst_item x y t) = invh t"
  by (induction t) auto

lemma rb_tree_subst [simp]: "rb_tree (subst_item x y t) = rb_tree t"
  by (simp add: rb_tree_def)

lemma inorder_subst:
  "inorder (subst_item x y t) = map (\<lambda>z. if z = x then y else z) (inorder t)"
  by (induction t) auto

lemma subst_item_id: "x \<notin> set (inorder t) \<Longrightarrow> subst_item x y t = t"
  by (induction t) auto

subsection \<open>Leftmost item and height\<close>

fun leftmost_path :: "qtree \<Rightarrow> path" where
  "leftmost_path (Node c (Node d l y m) x r) =
     leftmost_path (Node d l y m) @ [InL c x r]"
| "leftmost_path t = []"

fun leftmost :: "qtree \<Rightarrow> qtree" where
  "leftmost (Node c (Node d l y m) x r) = leftmost (Node d l y m)"
| "leftmost t = t"

lemma plug_leftmost: "plug (leftmost_path t) (leftmost t) = t"
  by (induction t rule: leftmost.induct) (auto simp: plug_append)

lemma leftmost_Node: "t \<noteq> Leaf \<Longrightarrow> \<exists>c x r. leftmost t = Node c Leaf x r"
  by (induction t rule: leftmost.induct) auto

lemma before_leftmost: "before (leftmost_path t) = []"
  by (induction t rule: leftmost.induct) (auto simp: shape_simps)

lemma inorder_split: "x \<in> set (inorder t) \<Longrightarrow> \<exists>k c l r. t = plug k (Node c l x r)"
proof (induction t)
  case (Node c l y r)
  then consider "x = y" | "x \<in> set (inorder l)" | "x \<in> set (inorder r)" by auto
  then show ?case
  proof cases
    case 1 then show ?thesis using plug.simps(1) by metis
  next
    case 2
    with Node obtain k d l' r' where "l = plug k (Node d l' x r')" by blast
    then have "Node c l y r = plug (k @ [InL c y r]) (Node d l' x r')" by (simp add: plug_append)
    then show ?thesis by blast
  next
    case 3
    with Node obtain k d l' r' where "r = plug k (Node d l' x r')" by blast
    then have "Node c l y r = plug (k @ [InR c y l]) (Node d l' x r')" by (simp add: plug_append)
    then show ?thesis by blast
  qed
qed simp

fun theight :: "qtree \<Rightarrow> nat" where
  "theight Leaf = 0"
| "theight (Node c l x r) = Suc (max (theight l) (theight r))"

lemma theight_bh:
  "invc t \<Longrightarrow> invh t \<Longrightarrow> theight t \<le> 2 * bh t + (if tcol t = CL_MAP_RED then 1 else 0)"
  by (induction t) (auto split: if_splits)

lemma bh_size: "invh t \<Longrightarrow> 2 ^ bh t \<le> Suc (length (inorder t))"
  by (induction t) auto

text \<open>The depth of a red-black tree is logarithmic in the number of its items.\<close>

lemma rb_tree_height: "rb_tree t \<Longrightarrow> 2 ^ theight t \<le> (Suc (length (inorder t)))\<^sup>2"
proof -
  assume t: "rb_tree t"
  then have "theight t \<le> 2 * bh t" using theight_bh [of t] by (simp add: rb_tree_def)
  then have "(2::nat) ^ theight t \<le> 2 ^ (2 * bh t)" by (simp add: power_increasing)
  also have "\<dots> = (2 ^ bh t)\<^sup>2" by (simp add: power_mult [symmetric] mult.commute)
  also have "\<dots> \<le> (Suc (length (inorder t)))\<^sup>2"
    using t bh_size [of t] by (intro power_mono) (auto simp: rb_tree_def)
  finally show ?thesis .
qed

end
