(* ===== verification/QMap_Rep.thy ===== *)
theory QMap_Rep
  imports QMap_Tree
begin

text \<open>
  When a heap holds a tree: \<open>rep\<close> for a subtree below a given parent, \<open>krep\<close> for
  the path above a hole, \<open>tree_rep\<close> for a whole map.  All are stated over the four link
  and colour fields, so that a write to a node outside the footprint is removed by one
  rewrite rule.  The section on rotations shows that the two pointer rotations rotate the
  tree at any position of it.
\<close>

subsection \<open>Pointers of trees and paths\<close>

fun ptr :: "nat \<Rightarrow> qtree \<Rightarrow> addr" where
  "ptr m Leaf = MNil m"
| "ptr m (Node c l x r) = Item x"

fun pptr :: "nat \<Rightarrow> path \<Rightarrow> addr" where
  "pptr m [] = MRoot m"
| "pptr m (InL c x r # k) = Item x"
| "pptr m (InR c x l # k) = Item x"

lemma Item_image [simp]:
  "Item x \<in> Item ` S \<longleftrightarrow> x \<in> S" "MNil m \<notin> Item ` S" "MRoot m \<notin> Item ` S"
  by auto

lemma ptr_neq [simp]: "x \<notin> set (inorder t) \<Longrightarrow> ptr m t \<noteq> Item x" "ptr m t \<noteq> MRoot n"
  "x \<notin> set (inorder t) \<Longrightarrow> Item x \<noteq> ptr m t" "MRoot n \<noteq> ptr m t"
  by (cases t; auto)+

lemma ptr_eq_MNil [simp]: "ptr m t = MNil n \<longleftrightarrow> t = Leaf \<and> m = n"
  by (cases t) auto

lemma pptr_neq [simp]: "pptr m k \<noteq> MNil n" "MNil n \<noteq> pptr m k"
  by (cases "(m, k)" rule: pptr.cases; auto)+

lemma pptr_eq_root [simp]: "pptr m k = MRoot n \<longleftrightarrow> k = [] \<and> m = n"
  by (cases "(m, k)" rule: pptr.cases) auto

lemma pptr_Item: "x \<notin> set (before k) \<Longrightarrow> x \<notin> set (after k) \<Longrightarrow> pptr m k \<noteq> Item x"
  by (cases "(m, k)" rule: pptr.cases) auto

lemma ptr_paint [simp]: "ptr m (paint c t) = ptr m t"
  by (cases t) auto

subsection \<open>Trees in the heap\<close>

fun rep ::
  "(addr \<Rightarrow> addr) \<Rightarrow> (addr \<Rightarrow> addr) \<Rightarrow> (addr \<Rightarrow> addr) \<Rightarrow> (addr \<Rightarrow> cl_map_color) \<Rightarrow>
   nat \<Rightarrow> addr \<Rightarrow> qtree \<Rightarrow> bool" where
  "rep L R U C m u Leaf = True"
| "rep L R U C m u (Node c l x r) \<longleftrightarrow>
     U (Item x) = u \<and> C (Item x) = c \<and> L (Item x) = ptr m l \<and> R (Item x) = ptr m r \<and>
     rep L R U C m (Item x) l \<and> rep L R U C m (Item x) r"

fun krep ::
  "(addr \<Rightarrow> addr) \<Rightarrow> (addr \<Rightarrow> addr) \<Rightarrow> (addr \<Rightarrow> addr) \<Rightarrow> (addr \<Rightarrow> cl_map_color) \<Rightarrow>
   nat \<Rightarrow> addr \<Rightarrow> path \<Rightarrow> bool" where
  "krep L R U C m a [] \<longleftrightarrow> L (MRoot m) = a"
| "krep L R U C m a (InL c x s # k) \<longleftrightarrow>
     L (Item x) = a \<and> R (Item x) = ptr m s \<and> C (Item x) = c \<and> U (Item x) = pptr m k \<and>
     rep L R U C m (Item x) s \<and> krep L R U C m (Item x) k"
| "krep L R U C m a (InR c x s # k) \<longleftrightarrow>
     R (Item x) = a \<and> L (Item x) = ptr m s \<and> C (Item x) = c \<and> U (Item x) = pptr m k \<and>
     rep L R U C m (Item x) s \<and> krep L R U C m (Item x) k"

abbreviation hrep :: "qheap \<Rightarrow> nat \<Rightarrow> addr \<Rightarrow> qtree \<Rightarrow> bool" where
  "hrep h \<equiv> rep (p_left h) (p_right h) (p_up h) (color h)"

abbreviation hkrep :: "qheap \<Rightarrow> nat \<Rightarrow> addr \<Rightarrow> path \<Rightarrow> bool" where
  "hkrep h \<equiv> krep (p_left h) (p_right h) (p_up h) (color h)"

definition sentinels :: "qheap \<Rightarrow> nat \<Rightarrow> bool" where
  "sentinels h m \<longleftrightarrow> color h (MRoot m) = CL_MAP_BLACK \<and> color h (MNil m) = CL_MAP_BLACK"

definition tree_rep :: "qheap \<Rightarrow> nat \<Rightarrow> qtree \<Rightarrow> bool" where
  "tree_rep h m t \<longleftrightarrow> p_left h (MRoot m) = ptr m t \<and> hrep h m (MRoot m) t \<and>
     distinct (inorder t) \<and> sentinels h m"

lemma rep_upd [heap_simps]:
  shows "a \<notin> Item ` set (inorder t) \<Longrightarrow> rep (L(a := v)) R U C m u t = rep L R U C m u t"
    and "a \<notin> Item ` set (inorder t) \<Longrightarrow> rep L (R(a := v)) U C m u t = rep L R U C m u t"
    and "a \<notin> Item ` set (inorder t) \<Longrightarrow> rep L R (U(a := v)) C m u t = rep L R U C m u t"
    and "a \<notin> Item ` set (inorder t) \<Longrightarrow> rep L R U (C(a := c)) m u t = rep L R U C m u t"
  by (induction t arbitrary: u) (auto simp: image_Un)

lemma krep_upd [heap_simps]:
  assumes "a \<notin> Item ` set (before k)" "a \<notin> Item ` set (after k)"
  shows "a \<noteq> MRoot m \<Longrightarrow> krep (L(a := v)) R U C m b k = krep L R U C m b k"
    and "krep L (R(a := v)) U C m b k = krep L R U C m b k"
    and "krep L R (U(a := v)) C m b k = krep L R U C m b k"
    and "krep L R U (C(a := c)) m b k = krep L R U C m b k"
  using assms by (induction k arbitrary: b rule: before.induct) (auto simp: heap_simps image_Un)

lemma rep_cong:
  assumes "\<And>x. x \<in> set (inorder t) \<Longrightarrow> L' (Item x) = L (Item x) \<and> R' (Item x) = R (Item x) \<and>
      U' (Item x) = U (Item x) \<and> C' (Item x) = C (Item x)"
  shows "rep L' R' U' C' m u t = rep L R U C m u t"
  using assms by (induction t arbitrary: u) auto

lemma rep_reparent:
  assumes "rep L R U C m u t" "distinct (inorder t)"
    and "\<And>x. x \<in> set (inorder t) \<Longrightarrow> L' (Item x) = L (Item x) \<and> R' (Item x) = R (Item x) \<and>
      C' (Item x) = C (Item x) \<and> U' (Item x) = (if Item x = ptr m t then v else U (Item x))"
  shows "rep L' R' U' C' m v t"
proof (cases t)
  case (Node c l x r)
  have "rep L' R' U' C' m (Item x) l" "rep L' R' U' C' m (Item x) r"
    using assms unfolding Node by (subst rep_cong [where L = L and R = R and U = U and C = C]; force)+
  then show ?thesis using assms Node by auto
qed simp

lemma krep_cong:
  assumes "\<And>x. x \<in> set (before k) \<union> set (after k) \<Longrightarrow> L' (Item x) = L (Item x) \<and>
      R' (Item x) = R (Item x) \<and> U' (Item x) = U (Item x) \<and> C' (Item x) = C (Item x)"
    and "L' (MRoot m) = L (MRoot m)"
  shows "krep L' R' U' C' m a k = krep L R U C m a k"
  using assms
proof (induction k arbitrary: a rule: before.induct)
  case (2 c x s k)
  have "rep L' R' U' C' m (Item x) s = rep L R U C m (Item x) s"
    by (rule rep_cong) (use 2 in auto)
  then show ?case using 2 by auto
next
  case (3 c x s k)
  have "rep L' R' U' C' m (Item x) s = rep L R U C m (Item x) s"
    by (rule rep_cong) (use 3 in auto)
  then show ?case using 3 by auto
qed simp

text \<open>The link above the hole redirected, all other fields of the path kept.\<close>

lemma krep_redirect:
  assumes k: "krep L R U C m a k" "distinct (before k @ after k)" "L0 (MRoot m) = L (MRoot m)"
    and eq: "\<And>z. z \<in> set (before k) \<union> set (after k) \<Longrightarrow> L0 (Item z) = L (Item z) \<and>
      R0 (Item z) = R (Item z) \<and> U' (Item z) = U (Item z) \<and> C' (Item z) = C (Item z)"
  shows "krep (case k of InR d z s # k' \<Rightarrow> L0 | _ \<Rightarrow> L0(pptr m k := b))
    (case k of InR d z s # k' \<Rightarrow> R0(pptr m k := b) | _ \<Rightarrow> R0) U' C' m b k"
proof (cases k rule: before.cases)
  case (2 d z s k')
  have "rep L0 R0 U' C' m (Item z) s = rep L R U C m (Item z) s"
    by (rule rep_cong) (use eq 2 in auto)
  moreover have "krep L0 R0 U' C' m (Item z) k' = krep L R U C m (Item z) k'"
    by (rule krep_cong) (use eq k(3) 2 in auto)
  ultimately show ?thesis using k eq [of z] 2 by (simp add: heap_simps)
next
  case (3 d z s k')
  have "rep L0 R0 U' C' m (Item z) s = rep L R U C m (Item z) s"
    by (rule rep_cong) (use eq 3 in auto)
  moreover have "krep L0 R0 U' C' m (Item z) k' = krep L R U C m (Item z) k'"
    by (rule krep_cong) (use eq k(3) 3 in auto)
  ultimately show ?thesis using k eq [of z] 3 by (simp add: heap_simps)
qed simp

lemma rep_plug:
  "rep L R U C m (MRoot m) (plug k t) \<and> L (MRoot m) = ptr m (plug k t) \<longleftrightarrow>
     rep L R U C m (pptr m k) t \<and> krep L R U C m (ptr m t) k"
  by (induction k t rule: plug.induct) auto

lemma tree_rep_plug:
  "tree_rep h m (plug k t) \<longleftrightarrow>
     hrep h m (pptr m k) t \<and> hkrep h m (ptr m t) k \<and>
     distinct (before k @ inorder t @ after k) \<and> sentinels h m"
  using rep_plug [of "p_left h" "p_right h" "p_up h" "color h" m k t]
  by (auto simp: tree_rep_def shape_simps)

subsection \<open>What a step on one map leaves alone\<close>

definition unchanged :: "nat \<Rightarrow> nat set \<Rightarrow> qheap \<Rightarrow> qheap \<Rightarrow> bool" where
  "unchanged m S h h' \<longleftrightarrow>
     key h' = key h \<and> p_next h' = p_next h \<and> p_prev h' = p_prev h \<and>
     count h' = count h \<and> key_cmp h' = key_cmp h \<and>
     (\<forall>a. a \<notin> Item ` S \<longrightarrow> a \<noteq> MRoot m \<longrightarrow>
        p_left h' a = p_left h a \<and> p_right h' a = p_right h a \<and>
        p_up h' a = p_up h a \<and> color h' a = color h a)"

lemma unchanged_refl [simp, intro]: "unchanged m S h h"
  by (simp add: unchanged_def)

lemma unchanged_trans: "unchanged m S h h' \<Longrightarrow> unchanged m S h' h'' \<Longrightarrow> unchanged m S h h''"
  by (auto simp: unchanged_def)

lemma unchanged_up_nil: "unchanged m S h h' \<Longrightarrow> p_up h' (MNil n) = p_up h (MNil n)"
  by (auto simp: unchanged_def)

subsection \<open>Colour writes\<close>

lemma set_color_rep:
  assumes "tree_rep h m (plug k (Node c l x r))"
  shows "tree_rep (set_color (Item x) d h) m (plug k (Node d l x r))"
  using assms by (auto simp: tree_rep_plug heap_simps sentinels_def)

lemma set_color_unchanged: "x \<in> S \<Longrightarrow> unchanged m S h (set_color (Item x) d h)"
  by (auto simp: unchanged_def)

subsection \<open>Rotations\<close>

lemma slot_of_item:
  assumes "tree_rep h m (plug k (Node c l x r))"
  shows "cl_map_get_parent_ptr_to_item (Item x) h =
    (case k of [] \<Rightarrow> LeftSlot (MRoot m) | InL d y s # k' \<Rightarrow> LeftSlot (Item y)
       | InR d y s # k' \<Rightarrow> RightSlot (Item y))"
  using assms
  by (auto simp: tree_rep_plug cl_map_get_parent_ptr_to_item_def cl_map_is_left_child_def
      split: list.split frame.split)

lemma rot_left_heap:
  assumes t: "tree_rep h m (plug k (Node d w a (Node e b c z)))"
  shows "cl_map_rot_left m (Item a) h =
     (let h1 = set_slot (cl_map_get_parent_ptr_to_item (Item a) h) (Item c) h in
      h1\<lparr>p_right := (p_right h1)(Item a := ptr m b),
         p_left := (p_left h1)(Item c := Item a),
         p_up := (if b = Leaf then (p_up h)(Item c := pptr m k)
                  else (p_up h)(Item c := pptr m k, ptr m b := Item a))(Item a := Item c)\<rparr>)"
proof -
  note t' = t [unfolded tree_rep_plug]
  from t' have "a \<noteq> c" "c \<noteq> a" "a \<notin> set (inorder b)" "c \<notin> set (inorder b)"
    "p_up h (Item a) = pptr m k" "p_right h (Item a) = Item c" "p_left h (Item c) = ptr m b"
    by auto
  then show ?thesis
    using t' by (cases k rule: before.cases; cases b)
      (simp_all add: slot_of_item [OF t] cl_map_rot_left_def Let_def)
qed

lemma rot_left_rep:
  assumes t: "tree_rep h m (plug k (Node d w a (Node e b c z)))"
  shows "tree_rep (cl_map_rot_left m (Item a) h) m (plug k (Node e (Node d w a b) c z))"
proof -
  note t' = t [unfolded tree_rep_plug]
  note r = rot_left_heap [OF t] slot_of_item [OF t]
  show ?thesis
  proof (cases k)
    case Nil
    show ?thesis unfolding tree_rep_plug
      using t' by (cases b) (simp_all add: r Nil heap_simps sentinels_def)
  next
    case (Cons f k')
    show ?thesis unfolding tree_rep_plug
      using t' by (cases f; cases b) (simp_all add: r Cons heap_simps sentinels_def pptr_Item)
  qed
qed

lemma rot_left_unchanged:
  assumes t: "tree_rep h m (plug k (Node d w a (Node e b c z)))"
  shows "unchanged m (set (inorder (plug k (Node d w a (Node e b c z))))) h (cl_map_rot_left m (Item a) h)"
  unfolding rot_left_heap [OF t] slot_of_item [OF t]
  by (cases k rule: before.cases; cases b) (auto simp: unchanged_def shape_simps Let_def)

lemma rot_right_heap:
  assumes t: "tree_rep h m (plug k (Node d (Node e z c b) a w))"
  shows "cl_map_rot_right m (Item a) h =
     (let h1 = set_slot (cl_map_get_parent_ptr_to_item (Item a) h) (Item c) h in
      h1\<lparr>p_left := (p_left h1)(Item a := ptr m b),
         p_right := (p_right h1)(Item c := Item a),
         p_up := (if b = Leaf then (p_up h)(Item c := pptr m k)
                  else (p_up h)(Item c := pptr m k, ptr m b := Item a))(Item a := Item c)\<rparr>)"
proof -
  note t' = t [unfolded tree_rep_plug]
  from t' have "a \<noteq> c" "c \<noteq> a" "a \<notin> set (inorder b)" "c \<notin> set (inorder b)"
    "p_up h (Item a) = pptr m k" "p_left h (Item a) = Item c" "p_right h (Item c) = ptr m b"
    by auto
  then show ?thesis
    using t' by (cases k rule: before.cases; cases b)
      (simp_all add: slot_of_item [OF t] cl_map_rot_right_def Let_def)
qed

lemma rot_right_rep:
  assumes t: "tree_rep h m (plug k (Node d (Node e z c b) a w))"
  shows "tree_rep (cl_map_rot_right m (Item a) h) m (plug k (Node e z c (Node d b a w)))"
proof -
  note t' = t [unfolded tree_rep_plug]
  note r = rot_right_heap [OF t] slot_of_item [OF t]
  show ?thesis
  proof (cases k)
    case Nil
    show ?thesis unfolding tree_rep_plug
      using t' by (cases b) (simp_all add: r Nil heap_simps sentinels_def)
  next
    case (Cons f k')
    show ?thesis unfolding tree_rep_plug
      using t' by (cases f; cases b) (simp_all add: r Cons heap_simps sentinels_def pptr_Item)
  qed
qed

lemma rot_right_unchanged:
  assumes t: "tree_rep h m (plug k (Node d (Node e z c b) a w))"
  shows "unchanged m (set (inorder (plug k (Node d (Node e z c b) a w)))) h (cl_map_rot_right m (Item a) h)"
  unfolding rot_right_heap [OF t] slot_of_item [OF t]
  by (cases k rule: before.cases; cases b) (auto simp: unchanged_def shape_simps Let_def)

end
