(* ===== verification/QMap_Insert.thy ===== *)
theory QMap_Insert
  imports QMap_Rep
begin

text \<open>
  The insertion loop \<^verbatim>\<open>__cl_map_ins_bal\<close> on the heap: started at a red item
  anywhere in a tree it returns, and the heap it leaves holds \<open>ins_tree\<close> of that tree.
\<close>

subsection \<open>Steps on a fixed set of items\<close>

text \<open>
  \<open>evolves m h0 S h t\<close>: from \<open>h0\<close> the heap became \<open>h\<close>, which holds the tree \<open>t\<close>
  over the items \<open>S\<close>, with no write outside these items and the root sentinel.
\<close>

definition evolves :: "nat \<Rightarrow> qheap \<Rightarrow> nat set \<Rightarrow> qheap \<Rightarrow> qtree \<Rightarrow> bool" where
  "evolves m h0 S h t \<longleftrightarrow> tree_rep h m t \<and> set (inorder t) = S \<and> unchanged m S h0 h"

lemma evolves_start: "tree_rep h m t \<Longrightarrow> evolves m h (set (inorder t)) h t"
  by (simp add: evolves_def)

lemma evolves_color:
  "evolves m h0 S h (plug k (Node c l x r)) \<Longrightarrow>
     evolves m h0 S (set_color (Item x) d h) (plug k (Node d l x r))"
  unfolding evolves_def
  by (auto simp: shape_simps intro: set_color_rep unchanged_trans [OF _ set_color_unchanged])

lemma evolves_rot_left:
  "evolves m h0 S h (plug k (Node d w a (Node e b c z))) \<Longrightarrow>
     evolves m h0 S (cl_map_rot_left m (Item a) h) (plug k (Node e (Node d w a b) c z))"
  unfolding evolves_def
  using rot_left_rep rot_left_unchanged unchanged_trans by (fastforce simp: shape_simps)

lemma evolves_rot_right:
  "evolves m h0 S h (plug k (Node d (Node e z c b) a w)) \<Longrightarrow>
     evolves m h0 S (cl_map_rot_right m (Item a) h) (plug k (Node e z c (Node d b a w)))"
  unfolding evolves_def
  using rot_right_rep rot_right_unchanged unchanged_trans by (fastforce simp: shape_simps)

text \<open>Reading a node of the tree.\<close>

lemma evolves_rep: "evolves m h0 S h (plug k t) \<Longrightarrow> hrep h m (pptr m k) t"
  by (simp add: evolves_def tree_rep_plug)

lemma evolves_distinct: "evolves m h0 S h (plug k t) \<Longrightarrow> distinct (before k @ inorder t @ after k)"
  by (simp add: evolves_def tree_rep_plug)

lemma color_parent: "evolves m h0 S h (plug k t) \<Longrightarrow> color h (pptr m k) = kcol k"
  unfolding evolves_def tree_rep_plug
  by (cases k rule: before.cases) (auto simp: sentinels_def)

lemma color_ptr: "evolves m h0 S h (plug k t) \<Longrightarrow> color h (ptr m t) = tcol t"
  unfolding evolves_def tree_rep_plug by (cases t) (auto simp: sentinels_def)

lemma up_ptr: "evolves m h0 S h (plug k (Node c l x r)) \<Longrightarrow> p_up h (Item x) = pptr m k"
  by (auto dest: evolves_rep)

lemma is_left_InL:
  assumes "evolves m h0 S h (plug (InL c p s # k) (Node d l x r))"
  shows "cl_map_is_left_child (Item x) h"
  using assms by (auto simp: cl_map_is_left_child_def evolves_def tree_rep_plug)

lemma is_left_InR:
  assumes "evolves m h0 S h (plug (InR c p s # k) (Node d l x r))"
  shows "\<not> cl_map_is_left_child (Item x) h"
  using assms by (auto simp: cl_map_is_left_child_def evolves_def tree_rep_plug)

subsection \<open>The four shapes of a red parent\<close>

lemma ins_tree_black: "kcol k = CL_MAP_BLACK \<Longrightarrow> ins_tree t k = plug k t"
  by (cases "(t, k)" rule: ins_tree.cases) auto

lemma red_path_cases:
  assumes "kcol k = CL_MAP_RED" "root_black k"
  obtains (LL) p s g gp u k' where "k = InL CL_MAP_RED p s # InL g gp u # k'"
    | (RL) p s g gp u k' where "k = InR CL_MAP_RED p s # InL g gp u # k'"
    | (RR) p s g gp u k' where "k = InR CL_MAP_RED p s # InR g gp u # k'"
    | (LR) p s g gp u k' where "k = InL CL_MAP_RED p s # InR g gp u # k'"
  using assms
  by (cases k rule: before.cases; cases "tl k" rule: before.cases) (auto split: if_splits)

lemma ins_bal_exit:
  assumes "evolves m h0 S h (plug k (Node c l x r))" "kcol k = CL_MAP_BLACK"
  shows "cl_map_ins_bal m (Item x) h = Some h"
  using assms color_parent [OF assms(1)] up_ptr [OF assms(1)]
  by (subst cl_map_ins_bal.simps) simp

text \<open>
  Recolouring under a red uncle, seen from the grandparent: \<open>rc\<close> is the composition of the
  three colour writes.
\<close>

definition recolor3 :: "addr \<Rightarrow> addr \<Rightarrow> addr \<Rightarrow> qheap \<Rightarrow> qheap" where
  "recolor3 u p g h = set_color g CL_MAP_RED (set_color p CL_MAP_BLACK (set_color u CL_MAP_BLACK h))"

lemma recolor_left:
  assumes "evolves m h0 S h (plug k (Node g (Node d a p b) gp (Node e ul ux ur)))"
  shows "evolves m h0 S (recolor3 (Item ux) (Item p) (Item gp) h)
    (plug k (Node CL_MAP_RED (Node CL_MAP_BLACK a p b) gp (Node CL_MAP_BLACK ul ux ur)))"
  using evolves_color [where k = k, OF
      evolves_color [where k = "InL g gp (Node CL_MAP_BLACK ul ux ur) # k", simplified, OF
        evolves_color [where k = "InR g gp (Node d a p b) # k", simplified, OF assms]]]
  by (simp add: recolor3_def)

lemma recolor_right:
  assumes "evolves m h0 S h (plug k (Node g (Node e ul ux ur) gp (Node d a p b)))"
  shows "evolves m h0 S (recolor3 (Item ux) (Item p) (Item gp) h)
    (plug k (Node CL_MAP_RED (Node CL_MAP_BLACK ul ux ur) gp (Node CL_MAP_BLACK a p b)))"
  using evolves_color [where k = k, OF
      evolves_color [where k = "InR g gp (Node CL_MAP_BLACK ul ux ur) # k", simplified, OF
        evolves_color [where k = "InL g gp (Node d a p b) # k", simplified, OF assms]]]
  by (simp add: recolor3_def)

text \<open>Rotating the grandparent after its colour and the parent's have been exchanged.\<close>

lemma rotate_left_left:
  assumes "evolves m h0 S h (plug k (Node g (Node d a p b) gp u))"
  shows "evolves m h0 S (cl_map_rot_right m (Item gp)
      (set_color (Item gp) CL_MAP_RED (set_color (Item p) CL_MAP_BLACK h)))
    (plug k (Node CL_MAP_BLACK a p (Node CL_MAP_RED b gp u)))"
  by (rule evolves_rot_right, rule evolves_color [where k = k and c = g])
    (use evolves_color [where k = "InL g gp u # k", simplified, OF assms] in simp)

lemma rotate_right_right:
  assumes "evolves m h0 S h (plug k (Node g u gp (Node d b p a)))"
  shows "evolves m h0 S (cl_map_rot_left m (Item gp)
      (set_color (Item gp) CL_MAP_RED (set_color (Item p) CL_MAP_BLACK h)))
    (plug k (Node CL_MAP_BLACK (Node CL_MAP_RED u gp b) p a))"
  by (rule evolves_rot_left, rule evolves_color [where k = k and c = g])
    (use evolves_color [where k = "InR g gp u # k", simplified, OF assms] in simp)

subsection \<open>One turn of the loop\<close>

text \<open>What the loop body reads around a red parent that is a left (right) child.\<close>

lemma parent_left:
  assumes "evolves m h0 S h (plug k (Node g (Node d a p b) gp u))"
  shows "p_up h (Item p) = Item gp" "cl_map_is_left_child (Item p) h"
    "p_right h (Item gp) = ptr m u" "color h (ptr m u) = tcol u" "color h (Item p) = d"
  using evolves_rep [OF assms] up_ptr [of m h0 S h "InL g gp u # k"]
    is_left_InL [of m h0 S h g gp u k d a p b]
    color_ptr [of m h0 S h "InR g gp (Node d a p b) # k" u] assms
  by auto

lemma parent_right:
  assumes "evolves m h0 S h (plug k (Node g u gp (Node d b p a)))"
  shows "p_up h (Item p) = Item gp" "\<not> cl_map_is_left_child (Item p) h"
    "p_left h (Item gp) = ptr m u" "color h (ptr m u) = tcol u" "color h (Item p) = d"
  using evolves_rep [OF assms] up_ptr [of m h0 S h "InR g gp u # k"]
    is_left_InR [of m h0 S h g gp u k d b p a]
    color_ptr [of m h0 S h "InL g gp (Node d b p a) # k" u] assms
  by auto

lemmas loop_reads = parent_left parent_right

lemma turn_LL:
  assumes e: "evolves m h0 S h (plug k (Node g (Node CL_MAP_RED (Node c l x r) p s) gp u))"
  shows "cl_map_ins_bal m (Item x) h =
    (if tcol u = CL_MAP_RED then cl_map_ins_bal m (Item gp) (recolor3 (ptr m u) (Item p) (Item gp) h)
     else cl_map_ins_bal m (Item x) (cl_map_rot_right m (Item gp)
            (set_color (Item gp) CL_MAP_RED (set_color (Item p) CL_MAP_BLACK h))))"
proof -
  have e': "evolves m h0 S h (plug (InL g gp u # k) (Node CL_MAP_RED (Node c l x r) p s))"
    using e by simp
  show ?thesis
    by (subst cl_map_ins_bal.simps)
      (simp add: Let_def recolor3_def parent_left [OF e] parent_left [OF e'])
qed

lemma turn_RL:
  assumes e: "evolves m h0 S h (plug k (Node g (Node CL_MAP_RED s p (Node c l x r)) gp u))"
  shows "cl_map_ins_bal m (Item x) h =
    (if tcol u = CL_MAP_RED then cl_map_ins_bal m (Item gp) (recolor3 (ptr m u) (Item p) (Item gp) h)
     else cl_map_ins_bal m (Item p) (cl_map_rot_right m (Item gp)
            (set_color (Item gp) CL_MAP_RED (set_color (Item x) CL_MAP_BLACK
              (cl_map_rot_left m (Item p) h)))))"
proof -
  have e': "evolves m h0 S h (plug (InL g gp u # k) (Node CL_MAP_RED s p (Node c l x r)))"
    using e by simp
  from evolves_rot_left [OF e']
  have r: "evolves m h0 S (cl_map_rot_left m (Item p) h)
      (plug k (Node g (Node c (Node CL_MAP_RED s p l) x r) gp u))" by simp
  then have r': "evolves m h0 S (cl_map_rot_left m (Item p) h)
      (plug (InL g gp u # k) (Node c (Node CL_MAP_RED s p l) x r))" by simp
  show ?thesis
    by (subst cl_map_ins_bal.simps)
      (simp add: Let_def recolor3_def parent_left [OF e] parent_right [OF e'] parent_left [OF r]
        parent_left [OF r'])
qed

lemma turn_RR:
  assumes e: "evolves m h0 S h (plug k (Node g u gp (Node CL_MAP_RED s p (Node c l x r))))"
  shows "cl_map_ins_bal m (Item x) h =
    (if tcol u = CL_MAP_RED then cl_map_ins_bal m (Item gp) (recolor3 (ptr m u) (Item p) (Item gp) h)
     else cl_map_ins_bal m (Item x) (cl_map_rot_left m (Item gp)
            (set_color (Item gp) CL_MAP_RED (set_color (Item p) CL_MAP_BLACK h))))"
proof -
  have e': "evolves m h0 S h (plug (InR g gp u # k) (Node CL_MAP_RED s p (Node c l x r)))"
    using e by simp
  show ?thesis
    by (subst cl_map_ins_bal.simps)
      (simp add: Let_def recolor3_def parent_right [OF e] parent_right [OF e'])
qed

lemma turn_LR:
  assumes e: "evolves m h0 S h (plug k (Node g u gp (Node CL_MAP_RED (Node c l x r) p s)))"
  shows "cl_map_ins_bal m (Item x) h =
    (if tcol u = CL_MAP_RED then cl_map_ins_bal m (Item gp) (recolor3 (ptr m u) (Item p) (Item gp) h)
     else cl_map_ins_bal m (Item p) (cl_map_rot_left m (Item gp)
            (set_color (Item gp) CL_MAP_RED (set_color (Item x) CL_MAP_BLACK
              (cl_map_rot_right m (Item p) h)))))"
proof -
  have e': "evolves m h0 S h (plug (InR g gp u # k) (Node CL_MAP_RED (Node c l x r) p s))"
    using e by simp
  from evolves_rot_right [OF e']
  have r: "evolves m h0 S (cl_map_rot_right m (Item p) h)
      (plug k (Node g u gp (Node c l x (Node CL_MAP_RED r p s))))" by simp
  then have r': "evolves m h0 S (cl_map_rot_right m (Item p) h)
      (plug (InR g gp u # k) (Node c l x (Node CL_MAP_RED r p s)))" by simp
  show ?thesis
    by (subst cl_map_ins_bal.simps)
      (simp add: Let_def recolor3_def parent_right [OF e] parent_left [OF e'] parent_right [OF r]
        parent_right [OF r'])
qed

subsection \<open>The loop\<close>

lemma ins_bal_sim:
  assumes "evolves m h0 S h (plug k (Node CL_MAP_RED l x r))" "root_black k"
  shows "\<exists>h'. cl_map_ins_bal m (Item x) h = Some h' \<and>
    evolves m h0 S h' (ins_tree (Node CL_MAP_RED l x r) k)"
  using assms
proof (induction "length k" arbitrary: k l x r h rule: less_induct)
  case less
  note e = less.prems(1)
  show ?case
  proof (cases "kcol k = CL_MAP_BLACK")
    case True
    then show ?thesis using e by (simp add: ins_bal_exit ins_tree_black)
  next
    case False
    then have "kcol k = CL_MAP_RED" by simp
    then show ?thesis using less.prems(2)
    proof (cases rule: red_path_cases)
      case (LL p s g gp u k')
      with e have e': "evolves m h0 S h (plug k' (Node g (Node CL_MAP_RED (Node CL_MAP_RED l x r) p s) gp u))" by simp
      have k': "length k' < length k" "root_black k'"
        using LL less.prems(2) by (auto split: if_splits)
      show ?thesis
      proof (cases "tcol u = CL_MAP_RED")
        case True
        then obtain ul ux ur where u: "u = Node CL_MAP_RED ul ux ur" using red_node by blast
        from less.hyps [OF k'(1) recolor_left [OF e' [unfolded u]] k'(2)] show ?thesis
          by (simp add: turn_LL [OF e'] LL u)
      next
        case False
        note e2 = rotate_left_left [OF e']
        then have "evolves m h0 S (cl_map_rot_right m (Item gp) (set_color (Item gp) CL_MAP_RED (set_color (Item p) CL_MAP_BLACK h)))
           (plug (InL CL_MAP_BLACK p (Node CL_MAP_RED s gp u) # k') (Node CL_MAP_RED l x r))" by simp
        from ins_bal_exit [OF this] False e2 show ?thesis
          by (simp add: turn_LL [OF e'] LL)
      qed
    next
      case (RL p s g gp u k')
      with e have e': "evolves m h0 S h (plug k' (Node g (Node CL_MAP_RED s p (Node CL_MAP_RED l x r)) gp u))" by simp
      have k': "length k' < length k" "root_black k'"
        using RL less.prems(2) by (auto split: if_splits)
      show ?thesis
      proof (cases "tcol u = CL_MAP_RED")
        case True
        then obtain ul ux ur where u: "u = Node CL_MAP_RED ul ux ur" using red_node by blast
        from less.hyps [OF k'(1) recolor_left [OF e' [unfolded u]] k'(2)] show ?thesis
          by (simp add: turn_RL [OF e'] RL u)
      next
        case False
        note e2 = rotate_left_left [OF evolves_rot_left [where k = "InL g gp u # k'", simplified, OF e']]
        then have "evolves m h0 S (cl_map_rot_right m (Item gp) (set_color (Item gp) CL_MAP_RED
            (set_color (Item x) CL_MAP_BLACK (cl_map_rot_left m (Item p) h))))
           (plug (InL CL_MAP_BLACK x (Node CL_MAP_RED r gp u) # k') (Node CL_MAP_RED s p l))" by simp
        from ins_bal_exit [OF this] False e2 show ?thesis
          by (simp add: turn_RL [OF e'] RL)
      qed
    next
      case (RR p s g gp u k')
      with e have e': "evolves m h0 S h (plug k' (Node g u gp (Node CL_MAP_RED s p (Node CL_MAP_RED l x r))))" by simp
      have k': "length k' < length k" "root_black k'"
        using RR less.prems(2) by (auto split: if_splits)
      show ?thesis
      proof (cases "tcol u = CL_MAP_RED")
        case True
        then obtain ul ux ur where u: "u = Node CL_MAP_RED ul ux ur" using red_node by blast
        from less.hyps [OF k'(1) recolor_right [OF e' [unfolded u]] k'(2)] show ?thesis
          by (simp add: turn_RR [OF e'] RR u)
      next
        case False
        note e2 = rotate_right_right [OF e']
        then have "evolves m h0 S (cl_map_rot_left m (Item gp) (set_color (Item gp) CL_MAP_RED (set_color (Item p) CL_MAP_BLACK h)))
           (plug (InR CL_MAP_BLACK p (Node CL_MAP_RED u gp s) # k') (Node CL_MAP_RED l x r))" by simp
        from ins_bal_exit [OF this] False e2 show ?thesis
          by (simp add: turn_RR [OF e'] RR)
      qed
    next
      case (LR p s g gp u k')
      with e have e': "evolves m h0 S h (plug k' (Node g u gp (Node CL_MAP_RED (Node CL_MAP_RED l x r) p s)))" by simp
      have k': "length k' < length k" "root_black k'"
        using LR less.prems(2) by (auto split: if_splits)
      show ?thesis
      proof (cases "tcol u = CL_MAP_RED")
        case True
        then obtain ul ux ur where u: "u = Node CL_MAP_RED ul ux ur" using red_node by blast
        from less.hyps [OF k'(1) recolor_right [OF e' [unfolded u]] k'(2)] show ?thesis
          by (simp add: turn_LR [OF e'] LR u)
      next
        case False
        note e2 = rotate_right_right [OF evolves_rot_right [where k = "InR g gp u # k'", simplified, OF e']]
        then have "evolves m h0 S (cl_map_rot_left m (Item gp) (set_color (Item gp) CL_MAP_RED
            (set_color (Item x) CL_MAP_BLACK (cl_map_rot_right m (Item p) h))))
           (plug (InR CL_MAP_BLACK x (Node CL_MAP_RED u gp l) # k') (Node CL_MAP_RED r p s))" by simp
        from ins_bal_exit [OF this] False e2 show ?thesis
          by (simp add: turn_LR [OF e'] LR)
      qed
    qed
  qed
qed

end
