(* ===== verification/QMap_Inv.thy ===== *)
theory QMap_Inv
  imports QMap_Insert
begin

text \<open>
  The representation invariant of a quick map: the heap holds a red-black tree whose items
  are strictly ordered by the map's comparison, the list threads the items in that order,
  and \<^verbatim>\<open>count\<close> is their number.  Lookup and traversal are characterised here.
\<close>

subsection \<open>The threaded list\<close>

fun seg :: "(addr \<Rightarrow> addr) \<Rightarrow> (addr \<Rightarrow> addr) \<Rightarrow> addr \<Rightarrow> nat list \<Rightarrow> addr \<Rightarrow> bool" where
  "seg N P a [] b \<longleftrightarrow> N a = b \<and> P b = a"
| "seg N P a (x # xs) b \<longleftrightarrow> N a = Item x \<and> P (Item x) = a \<and> seg N P (Item x) xs b"

definition thread :: "qheap \<Rightarrow> nat \<Rightarrow> nat list \<Rightarrow> bool" where
  "thread h m xs \<longleftrightarrow> seg (p_next h) (p_prev h) (MNil m) xs (MNil m)"

fun first_of :: "nat list \<Rightarrow> addr \<Rightarrow> addr" where
  "first_of [] b = b"
| "first_of (x # xs) b = Item x"

fun last_of :: "addr \<Rightarrow> nat list \<Rightarrow> addr" where
  "last_of a [] = a"
| "last_of a (x # xs) = last_of (Item x) xs"

lemma last_of_snoc [simp]: "last_of a (xs @ [x]) = Item x"
  by (induction xs arbitrary: a) auto

lemma last_of_cases: "last_of a xs = a \<and> xs = [] \<or> (\<exists>x \<in> set xs. last_of a xs = Item x)"
  by (cases xs rule: rev_cases) auto

lemma seg_append:
  "seg N P a (xs @ ys) b \<longleftrightarrow>
     (if ys = [] then seg N P a xs b
      else seg N P a xs (first_of ys b) \<and> seg N P (last_of a xs) ys b)"
  by (induction xs arbitrary: a) (cases ys, auto)+

lemma seg_next: "seg N P a xs b \<Longrightarrow> N (last_of a xs) = b"
  by (induction xs arbitrary: a) auto

lemma seg_first: "seg N P a xs b \<Longrightarrow> N a = first_of xs b"
  by (cases xs) auto

lemma seg_prev: "seg N P a xs b \<Longrightarrow> P b = last_of a xs"
  by (induction xs arbitrary: a) auto

lemma seg_prev_first: "seg N P a xs b \<Longrightarrow> P (first_of xs b) = a"
  by (cases xs) auto

lemma seg_upd_next:
  "z \<noteq> a \<Longrightarrow> z \<notin> Item ` set xs \<Longrightarrow> seg (N(z := v)) P a xs b = seg N P a xs b"
  by (induction xs arbitrary: a) auto

lemma seg_upd_prev:
  "z \<noteq> b \<Longrightarrow> z \<notin> Item ` set xs \<Longrightarrow> seg N (P(z := v)) a xs b = seg N P a xs b"
  by (induction xs arbitrary: a) auto

lemma seg_cong:
  assumes "\<And>z. z = a \<or> z \<in> Item ` set xs \<Longrightarrow> N' z = N z"
    and "\<And>z. z = b \<or> z \<in> Item ` set xs \<Longrightarrow> P' z = P z"
  shows "seg N' P' a xs b = seg N P a xs b"
  using assms by (induction xs arbitrary: a) auto

text \<open>The last link of a segment redirected, and the first.\<close>

lemma seg_set_last:
  assumes "seg N P a xs b" "distinct xs" "a \<notin> Item ` set xs" "c \<noteq> b" "c \<notin> Item ` set xs"
  shows "seg (N(last_of a xs := c)) (P(c := last_of a xs)) a xs c"
  using assms
proof (induction xs arbitrary: a)
  case (Cons x xs)
  from Cons.prems(3) have "last_of (Item x) xs \<noteq> a"
    using last_of_cases [of "Item x" xs] by auto
  moreover have "Item x \<notin> Item ` set xs" "seg N P (Item x) xs b" "c \<noteq> Item x" "c \<notin> Item ` set xs"
    using Cons.prems by auto
  ultimately show ?case using Cons.IH [of "Item x"] Cons.prems by simp
qed simp

lemma thread_insert:
  assumes t: "thread h m (xs @ ys)" and d: "distinct (xs @ ys)" and x: "x \<notin> set (xs @ ys)"
  shows "thread (cl_primitive_insert (first_of ys (MNil m)) (Item x) h) m (xs @ x # ys)"
proof -
  let ?N = "p_next h" and ?P = "p_prev h" and ?b = "first_of ys (MNil m)"
  let ?l = "last_of (MNil m) xs"
  have l: "?l \<noteq> Item x" "?P ?b = ?l"
    using t x last_of_cases [of "MNil m" xs] seg_prev_first [of ?N ?P ?l ys "MNil m"]
      seg_prev [of ?N ?P "MNil m" xs "MNil m"]
    by (auto simp: thread_def seg_append split: if_splits)
  have b: "?b \<noteq> Item x" "?b \<notin> Item ` set xs"
    using x d by (cases ys; auto)+
  have 1: "seg ?N ?P (MNil m) xs ?b"
    using t by (auto simp: thread_def seg_append split: if_splits)
  have 2: "seg (?N(Item x := ?b, ?l := Item x)) (?P(Item x := ?l, ?b := Item x)) (MNil m) xs (Item x)"
  proof -
    have "seg (?N(?l := Item x)) (?P(Item x := ?l)) (MNil m) xs (Item x)"
      using seg_set_last [OF 1, of "Item x"] b x d by auto
    then show ?thesis
      using b l x by (subst seg_cong [where N = "?N(?l := Item x)" and P = "?P(Item x := ?l)"]) auto
  qed
  have 3: "seg (?N(Item x := ?b, ?l := Item x)) (?P(Item x := ?l, ?b := Item x)) (Item x) ys (MNil m)"
  proof (cases ys)
    case Nil with l show ?thesis by simp
  next
    case (Cons y zs)
    with t have "seg ?N ?P (Item y) zs (MNil m)" by (simp add: thread_def seg_append)
    moreover have "?l \<notin> Item ` set ys" "?l \<noteq> Item y"
      using d Cons last_of_cases [of "MNil m" xs] by auto
    ultimately show ?thesis
      using Cons x d l by (auto simp: seg_upd_next seg_upd_prev)
  qed
  show ?thesis
    unfolding thread_def seg_append using 2 3 l b
    by (simp add: cl_primitive_insert_def Let_def)
qed

lemma thread_remove:
  assumes t: "thread h m (xs @ x # ys)" and d: "distinct (xs @ x # ys)"
  shows "thread (cl_primitive_remove (Item x) h) m (xs @ ys)"
proof -
  let ?N = "p_next h" and ?P = "p_prev h" and ?b = "first_of ys (MNil m)"
  let ?l = "last_of (MNil m) xs"
  have s: "seg ?N ?P (MNil m) xs (Item x)" "?N ?l = Item x" "?P (Item x) = ?l"
    "seg ?N ?P (Item x) ys (MNil m)" "?N (Item x) = ?b"
    using t seg_first [of ?N ?P "Item x" ys "MNil m"] seg_next [of ?N ?P "MNil m" xs "Item x"]
    by (auto simp: thread_def seg_append)
  have l: "?l \<noteq> Item x" "?l \<notin> Item ` set ys"
    using d last_of_cases [of "MNil m" xs] by auto
  have b: "?b \<noteq> Item x" "?b \<notin> Item ` set xs" using d by (cases ys; auto)+
  have 1: "seg (?N(?l := ?b)) (?P(?b := ?l)) (MNil m) xs ?b"
    using seg_set_last [OF s(1), of ?b] b d by auto
  have 2: "seg (?N(?l := ?b)) (?P(?b := ?l)) ?l ys (MNil m)"
  proof (cases ys)
    case Nil then show ?thesis by simp
  next
    case (Cons y zs)
    with s(4) have "seg ?N ?P (Item y) zs (MNil m)" by simp
    with Cons d l show ?thesis by (auto simp: seg_upd_next seg_upd_prev)
  qed
  have "seg (?N(?l := ?b)) (?P(?b := ?l)) (MNil m) (xs @ ys) (MNil m)"
    using 1 2 by (cases "ys = []") (auto simp: seg_append)
  then show ?thesis using s b by (simp add: thread_def cl_primitive_remove_def)
qed

subsection \<open>Comparisons\<close>

text \<open>
  What the code needs of a comparison: a total preorder on keys.  The default comparison
  of a map without a callback is one, and identifies equal keys only.
\<close>

definition cmp_ok :: "key_compare option \<Rightarrow> bool" where
  "cmp_ok kc \<longleftrightarrow>
     (\<forall>a b. qmap_cmp kc a b < 0 \<longleftrightarrow> qmap_cmp kc b a > 0) \<and>
     (\<forall>a b c. qmap_cmp kc a b \<le> 0 \<longrightarrow> qmap_cmp kc b c \<le> 0 \<longrightarrow> qmap_cmp kc a c \<le> 0)"

lemma cmp_ok_default [simp]: "cmp_ok None"
  by (auto simp: cmp_ok_def qmap_cmp_def split: if_splits)

lemma qmap_cmp_default [simp]: "qmap_cmp None a b < 0 \<longleftrightarrow> a < b"
  "qmap_cmp None a b = 0 \<longleftrightarrow> a = b" "qmap_cmp None a b > 0 \<longleftrightarrow> b < a"
  by (auto simp: qmap_cmp_def)

lemma cmp_flip: "cmp_ok kc \<Longrightarrow> qmap_cmp kc a b > 0 \<longleftrightarrow> qmap_cmp kc b a < 0"
  unfolding cmp_ok_def by blast

lemma cmp_le: "cmp_ok kc \<Longrightarrow> \<not> qmap_cmp kc a b < 0 \<longleftrightarrow> qmap_cmp kc b a \<le> 0"
  using cmp_flip [of kc b a] by auto

lemma cmp_less_trans:
  assumes "cmp_ok kc" "qmap_cmp kc a b < 0" "qmap_cmp kc b c \<le> 0"
  shows "qmap_cmp kc a c < 0"
proof (rule ccontr)
  assume "\<not> qmap_cmp kc a c < 0"
  then have "qmap_cmp kc c a \<le> 0" using assms(1) by (simp add: cmp_le)
  with assms(1,3) have "qmap_cmp kc b a \<le> 0" unfolding cmp_ok_def by blast
  then show False using assms(1,2) cmp_le [of kc a b] by simp
qed

lemma cmp_le_less_trans:
  assumes "cmp_ok kc" "qmap_cmp kc a b \<le> 0" "qmap_cmp kc b c < 0"
  shows "qmap_cmp kc a c < 0"
proof (rule ccontr)
  assume "\<not> qmap_cmp kc a c < 0"
  then have "qmap_cmp kc c a \<le> 0" using assms(1) by (simp add: cmp_le)
  with assms(1,2) have "qmap_cmp kc c b \<le> 0" unfolding cmp_ok_def by blast
  then show False using assms(1,3) cmp_le [of kc b c] by simp
qed

subsection \<open>The invariant\<close>

abbreviation keys_of :: "qheap \<Rightarrow> nat list \<Rightarrow> uint64 list" where
  "keys_of h xs \<equiv> map (\<lambda>x. key h (Item x)) xs"

definition qmap_sorted :: "key_compare option \<Rightarrow> uint64 list \<Rightarrow> bool" where
  "qmap_sorted kc ks \<longleftrightarrow> sorted_wrt (\<lambda>a b. qmap_cmp kc a b < 0) ks"

definition qmap_rep :: "qheap \<Rightarrow> nat \<Rightarrow> qtree \<Rightarrow> bool" where
  "qmap_rep h m t \<longleftrightarrow> tree_rep h m t \<and> rb_tree t \<and> thread h m (inorder t) \<and>
     qmap_sorted (key_cmp h m) (keys_of h (inorder t)) \<and>
     count h m = of_nat (length (inorder t))"

text \<open>\<open>qmap h m xs\<close>: map \<open>m\<close> of the heap is well formed and holds the items \<open>xs\<close>, in order.\<close>

definition qmap :: "qheap \<Rightarrow> nat \<Rightarrow> nat list \<Rightarrow> bool" where
  "qmap h m xs \<longleftrightarrow> (\<exists>t. qmap_rep h m t \<and> inorder t = xs)"

lemma qmap_distinct: "qmap h m xs \<Longrightarrow> distinct xs"
  by (auto simp: qmap_def qmap_rep_def tree_rep_def)

lemma qmap_sortedD: "qmap h m xs \<Longrightarrow> qmap_sorted (key_cmp h m) (keys_of h xs)"
  by (auto simp: qmap_def qmap_rep_def)

lemma qmap_threadD: "qmap h m xs \<Longrightarrow> thread h m xs"
  by (auto simp: qmap_def qmap_rep_def)

lemma qmap_countD: "qmap h m xs \<Longrightarrow> count h m = of_nat (length xs)"
  by (auto simp: qmap_def qmap_rep_def)

lemma qmap_init: "qmap (cl_qmap_init m kc h) m []"
  by (auto simp: qmap_def qmap_rep_def cl_qmap_init_def cl_qmap_remove_all_def Let_def tree_rep_def
      rb_tree_def thread_def qmap_sorted_def sentinels_def intro!: exI [of _ Leaf])

lemma key_cmp_init: "key_cmp (cl_qmap_init m kc h) = (key_cmp h)(m := kc)"
  by (simp add: cl_qmap_init_def cl_qmap_remove_all_def Let_def)

lemma qmap_remove_all: "qmap h m xs \<Longrightarrow> qmap (cl_qmap_remove_all m h) m []"
  by (auto simp: qmap_def qmap_rep_def cl_qmap_remove_all_def Let_def tree_rep_def
      rb_tree_def thread_def qmap_sorted_def sentinels_def intro!: exI [of _ Leaf])

subsection \<open>Footprint of an operation on one map\<close>

definition map_frame :: "nat \<Rightarrow> nat set \<Rightarrow> qheap \<Rightarrow> qheap \<Rightarrow> bool" where
  "map_frame m S h h' \<longleftrightarrow>
     (\<forall>a. a \<notin> Item ` S \<longrightarrow> a \<noteq> MRoot m \<longrightarrow> a \<noteq> MNil m \<longrightarrow>
        p_left h' a = p_left h a \<and> p_right h' a = p_right h a \<and> p_up h' a = p_up h a \<and>
        color h' a = color h a \<and> key h' a = key h a \<and>
        p_next h' a = p_next h a \<and> p_prev h' a = p_prev h a) \<and>
     (\<forall>n. n \<noteq> m \<longrightarrow> count h' n = count h n) \<and> key_cmp h' = key_cmp h"

lemma map_frame_refl [simp, intro]: "map_frame m S h h"
  by (simp add: map_frame_def)

lemma map_frame_trans: "map_frame m S h h' \<Longrightarrow> map_frame m S h' h'' \<Longrightarrow> map_frame m S h h''"
  by (auto simp: map_frame_def)

lemma map_frame_mono: "map_frame m S h h' \<Longrightarrow> S \<subseteq> S' \<Longrightarrow> map_frame m S' h h'"
  unfolding map_frame_def by blast

lemma unchanged_frame: "unchanged m S h h' \<Longrightarrow> map_frame m S h h'"
  by (auto simp: map_frame_def unchanged_def)

lemma qmap_frame:
  assumes q: "qmap h n xs" and f: "map_frame m S h h'" and n: "n \<noteq> m" "set xs \<inter> S = {}"
  shows "qmap h' n xs"
proof -
  from q obtain t where t: "qmap_rep h n t" "inorder t = xs" by (auto simp: qmap_def)
  have eq: "p_left h' a = p_left h a \<and> p_right h' a = p_right h a \<and> p_up h' a = p_up h a \<and>
      color h' a = color h a \<and> key h' a = key h a \<and> p_next h' a = p_next h a \<and> p_prev h' a = p_prev h a"
    if "a = MRoot n \<or> a = MNil n \<or> (\<exists>x \<in> set xs. a = Item x)" for a
    using that f n by (auto simp: map_frame_def)
  have r: "hrep h' n (MRoot n) t = hrep h n (MRoot n) t"
    by (rule rep_cong) (use eq t(2) in blast)
  have "thread h' n xs = thread h n xs"
    unfolding thread_def by (rule seg_cong) (use eq in blast)+
  moreover have k: "keys_of h' xs = keys_of h xs" using eq by auto
  have "qmap_sorted (key_cmp h n) (keys_of h' xs)"
    unfolding k using t by (auto simp: qmap_rep_def)
  ultimately have "qmap_rep h' n t"
    using t r eq [of "MRoot n"] eq [of "MNil n"] f n
    by (auto simp: qmap_rep_def tree_rep_def sentinels_def map_frame_def)
  with t show ?thesis by (auto simp: qmap_def)
qed

end
