(* ===== verification/QMap_Lookup.thy ===== *)
theory QMap_Lookup
  imports QMap_Inv
begin

text \<open>
  Lookup, successor search and traversal of a well formed quick map, in terms of the
  ordered list of its items.
\<close>

subsection \<open>Lookup\<close>

lemma get_loop_tree:
  assumes "hrep h m u t"
    and "sorted_wrt (\<lambda>x y. 0 \<le> g (Item x) \<longrightarrow> 0 < g (Item y)) (inorder t)"
  shows "qmap_get_loop m g h (ptr m t) =
    Some (case find (\<lambda>x. g (Item x) = 0) (inorder t) of None \<Rightarrow> MNil m | Some x \<Rightarrow> Item x)"
  using assms
proof (induction t arbitrary: u)
  case Leaf
  show ?case by (simp add: qmap_get_loop.simps)
next
  case (Node c l x r)
  have s: "sorted_wrt (\<lambda>x y. 0 \<le> g (Item x) \<longrightarrow> 0 < g (Item y)) (inorder l)"
    "sorted_wrt (\<lambda>x y. 0 \<le> g (Item x) \<longrightarrow> 0 < g (Item y)) (inorder r)"
    "\<forall>y \<in> set (inorder l). 0 \<le> g (Item y) \<longrightarrow> 0 < g (Item x)"
    "\<forall>y \<in> set (inorder r). 0 \<le> g (Item x) \<longrightarrow> 0 < g (Item y)"
    using Node.prems(2) by (auto simp: sorted_wrt_append)
  have p: "p_left h (Item x) = ptr m l" "p_right h (Item x) = ptr m r"
    "hrep h m (Item x) l" "hrep h m (Item x) r" using Node.prems(1) by auto
  have f: "find (\<lambda>x. g (Item x) = 0) (ys @ zs) =
      (case find (\<lambda>x. g (Item x) = 0) ys of None \<Rightarrow> find (\<lambda>x. g (Item x) = 0) zs | Some y \<Rightarrow> Some y)"
    for ys zs by (induction ys) auto
  have n: "find (\<lambda>x. g (Item x) = 0) (inorder l) = None" if "g (Item x) \<le> 0"
    using s(3) that by (fastforce simp: find_None_iff)
  have n': "find (\<lambda>x. g (Item x) = 0) (inorder r) = None" if "0 < g (Item x)"
    using s(4) that by (fastforce simp: find_None_iff)
  show ?case
    using Node.IH(1) [OF p(3) s(1)] Node.IH(2) [OF p(4) s(2)] n n'
    by (subst qmap_get_loop.simps) (auto simp: p f split: option.splits)
qed

text \<open>The items of a map, seen through the comparison with a sought key.\<close>

lemma sought_sorted:
  assumes "cmp_ok kc" "qmap_sorted kc (keys_of h xs)"
  shows "sorted_wrt (\<lambda>x y. 0 \<le> qmap_cmp kc (key h (Item x)) k \<longrightarrow>
      0 < qmap_cmp kc (key h (Item y)) k) xs"
proof -
  have "0 < qmap_cmp kc b k" if "qmap_cmp kc a b < 0" "0 \<le> qmap_cmp kc a k" for a b
  proof -
    have "qmap_cmp kc k a \<le> 0" using that(2) cmp_le [OF assms(1), of a k] by simp
    then show ?thesis using cmp_le_less_trans [OF assms(1)] that(1) cmp_flip [OF assms(1)] by blast
  qed
  note step = this
  have base: "sorted_wrt (\<lambda>x y. qmap_cmp kc (key h (Item x)) (key h (Item y)) < 0) xs"
    using assms(2) by (simp add: qmap_sorted_def sorted_wrt_map)
  show ?thesis by (rule sorted_wrt_mono_rel [OF _ base]) (simp add: step)
qed

definition lookup_item :: "qheap \<Rightarrow> nat \<Rightarrow> uint64 \<Rightarrow> nat list \<Rightarrow> nat option" where
  "lookup_item h m k xs = find (\<lambda>x. qmap_cmp (key_cmp h m) (key h (Item x)) k = 0) xs"

definition item_addr :: "nat \<Rightarrow> nat option \<Rightarrow> addr" where
  "item_addr m x = (case x of None \<Rightarrow> MNil m | Some x \<Rightarrow> Item x)"

lemma get_correct:
  assumes "qmap h m xs" "cmp_ok (key_cmp h m)"
  shows "cl_qmap_get m k h = Some (item_addr m (lookup_item h m k xs))"
proof -
  from assms(1) obtain t where t: "qmap_rep h m t" "inorder t = xs" by (auto simp: qmap_def)
  then have r: "hrep h m (MRoot m) t" "p_left h (MRoot m) = ptr m t"
    by (auto simp: qmap_rep_def tree_rep_def)
  have "sorted_wrt (\<lambda>x y. 0 \<le> qmap_cmp (key_cmp h m) (key h (Item x)) k \<longrightarrow>
      0 < qmap_cmp (key_cmp h m) (key h (Item y)) k) (inorder t)"
    using t by (intro sought_sorted [OF assms(2)]) (auto simp: qmap_rep_def)
  from get_loop_tree [OF r(1), of "\<lambda>p. qmap_cmp (key_cmp h m) (key h p) k", OF this]
  show ?thesis using t(2)
    by (simp add: cl_qmap_get_def cl_map_root_def r(2) lookup_item_def item_addr_def)
qed

lemma lookup_item_Some:
  "lookup_item h m k xs = Some x \<Longrightarrow> x \<in> set xs \<and> qmap_cmp (key_cmp h m) (key h (Item x)) k = 0"
  unfolding lookup_item_def by (auto simp: find_Some_iff)

lemma lookup_item_None:
  "lookup_item h m k xs = None \<longleftrightarrow> (\<forall>x \<in> set xs. qmap_cmp (key_cmp h m) (key h (Item x)) k \<noteq> 0)"
  by (auto simp: lookup_item_def find_None_iff)

subsection \<open>Successor search\<close>

lemma get_next_loop_tree:
  assumes "hrep h m u t" "sorted_wrt (\<lambda>x y. g (Item x) \<longrightarrow> g (Item y)) (inorder t)"
  shows "qmap_get_next_loop m g h (ptr m t) f =
    Some (case find (\<lambda>x. g (Item x)) (inorder t) of None \<Rightarrow> f | Some x \<Rightarrow> Item x)"
  using assms
proof (induction t arbitrary: u f)
  case Leaf
  show ?case by (simp add: qmap_get_next_loop.simps)
next
  case (Node c l x r)
  have s: "sorted_wrt (\<lambda>x y. g (Item x) \<longrightarrow> g (Item y)) (inorder l)"
    "sorted_wrt (\<lambda>x y. g (Item x) \<longrightarrow> g (Item y)) (inorder r)"
    "\<forall>y \<in> set (inorder l). g (Item y) \<longrightarrow> g (Item x)"
    using sorted_wrt_around [OF Node.prems(2) [unfolded inorder.simps]] by blast+
  have p: "p_left h (Item x) = ptr m l" "p_right h (Item x) = ptr m r"
    "hrep h m (Item x) l" "hrep h m (Item x) r" using Node.prems(1) by auto
  have fa: "find (\<lambda>x. g (Item x)) (ys @ zs) =
      (case find (\<lambda>x. g (Item x)) ys of None \<Rightarrow> find (\<lambda>x. g (Item x)) zs | Some y \<Rightarrow> Some y)"
    for ys zs by (induction ys) auto
  have n: "find (\<lambda>x. g (Item x)) (inorder l) = None" if "\<not> g (Item x)"
    using s(3) that by (auto simp: find_None_iff)
  note l = Node.IH(1) [OF p(3) s(1), of "Item x"] and r = Node.IH(2) [OF p(4) s(2), of f]
  show ?case
  proof (cases "g (Item x)")
    case True
    then show ?thesis
      by (subst qmap_get_next_loop.simps)
        (cases "find (\<lambda>x. g (Item x)) (inorder l)"; simp add: p fa l)
  next
    case False
    then show ?thesis by (subst qmap_get_next_loop.simps) (simp add: p fa n r)
  qed
qed

lemma get_next_correct:
  assumes "qmap h m xs" "key_cmp h m = None"
  shows "cl_qmap_get_next m k h = Some (item_addr m (find (\<lambda>x. k < key h (Item x)) xs))"
proof -
  from assms(1) obtain t where t: "qmap_rep h m t" "inorder t = xs" by (auto simp: qmap_def)
  then have r: "hrep h m (MRoot m) t" "p_left h (MRoot m) = ptr m t"
    by (auto simp: qmap_rep_def tree_rep_def)
  have "sorted_wrt (\<lambda>x y. k < key h (Item x) \<longrightarrow> k < key h (Item y)) (inorder t)"
    using t assms(2) unfolding qmap_rep_def qmap_sorted_def sorted_wrt_map
    by (elim conjE sorted_wrt_mono_rel [rotated]) auto
  from get_next_loop_tree [OF r(1), of "\<lambda>p. k < key h p", OF this]
  show ?thesis using t(2) assms(2)
    by (simp add: cl_qmap_get_next_def cl_map_root_def r(2) item_addr_def)
qed

text \<open>
  With a callback the loop descends the wrong way: its test holds for the items below the
  sought key, and the search ends at the first item of the map or at the end.
\<close>

lemma get_next_loop_down:
  assumes "hrep h m u t" "\<forall>x \<in> set (inorder t). g (Item x)"
  shows "qmap_get_next_loop m g h (ptr m t) f = Some (first_of (inorder t) f)"
  using assms
proof (induction t arbitrary: u f)
  case Leaf
  show ?case by (simp add: qmap_get_next_loop.simps)
next
  case (Node c l x r)
  then have "qmap_get_next_loop m g h (ptr m l) (Item x) = Some (first_of (inorder l) (Item x))"
    by auto
  moreover have "p_left h (Item x) = ptr m l" "g (Item x)" using Node.prems by auto
  moreover have "first_of (inorder l @ x # inorder r) f = first_of (inorder l) (Item x)"
    by (cases "inorder l") auto
  ultimately show ?case by (subst qmap_get_next_loop.simps) simp
qed

lemma get_next_loop_up:
  assumes "hrep h m u t" "\<forall>x \<in> set (inorder t). \<not> g (Item x)"
  shows "qmap_get_next_loop m g h (ptr m t) f = Some f"
  using assms
proof (induction t arbitrary: u f)
  case Leaf
  show ?case by (simp add: qmap_get_next_loop.simps)
next
  case (Node c l x r)
  then show ?case by (subst qmap_get_next_loop.simps) auto
qed

lemma get_next_callback:
  assumes q: "qmap h m xs" and f: "key_cmp h m = Some f" and ok: "cmp_ok (Some f)"
  shows "cl_qmap_get_next m k h \<in> {Some (cl_qmap_head m h), Some (cl_qmap_end m)}"
proof -
  from q obtain t where t: "qmap_rep h m t" "inorder t = xs" by (auto simp: qmap_def)
  then have r: "hrep h m (MRoot m) t" "p_left h (MRoot m) = ptr m t"
    by (auto simp: qmap_rep_def tree_rep_def)
  let ?g = "\<lambda>p. f (key h p) k < 0"
  have q': "qmap_cmp (Some f) a b = f a b" for a b by (simp add: qmap_cmp_def)
  have s: "sorted_wrt (\<lambda>x y. ?g (Item y) \<longrightarrow> ?g (Item x)) (inorder t)"
    using t f cmp_less_trans [OF ok] unfolding qmap_rep_def qmap_sorted_def sorted_wrt_map q'
    by (elim conjE sorted_wrt_mono_rel [rotated]) (metis f order_less_imp_le q')
  have e: "cl_qmap_get_next m k h = qmap_get_next_loop m ?g h (ptr m t) (MNil m)"
    by (simp add: cl_qmap_get_next_def f cl_map_root_def r(2))
  have hd: "cl_qmap_head m h = first_of (inorder t) (MNil m)"
    using t seg_first by (auto simp: cl_qmap_head_def qmap_rep_def thread_def)
  show ?thesis
  proof (cases t)
    case Leaf
    with e show ?thesis by (simp add: qmap_get_next_loop.simps cl_qmap_end_def)
  next
    case (Node c l x y)
    have fl: "first_of (inorder t) (MNil m) = first_of (inorder l) (Item x)"
      unfolding Node by (cases "inorder l") auto
    show ?thesis
    proof (cases "?g (Item x)")
      case True
      with s Node have "\<forall>z \<in> set (inorder l). ?g (Item z)" by (auto simp: sorted_wrt_append)
      with get_next_loop_down [of h m "Item x" l ?g "Item x"] True r(1) Node e hd fl
      show ?thesis by (auto simp: qmap_get_next_loop.simps [of m ?g h "Item x"])
    next
      case False
      with s Node have "\<forall>z \<in> set (inorder y). \<not> ?g (Item z)" by (auto simp: sorted_wrt_append)
      with get_next_loop_up [of h m "Item x" y ?g "MNil m"] False r(1) Node e
      show ?thesis by (auto simp: cl_qmap_end_def qmap_get_next_loop.simps [of m ?g h "Item x"])
    qed
  qed
qed

subsection \<open>Traversal\<close>

lemma apply_loop_seg:
  "seg (p_next h) (p_prev h) a xs (MNil m) \<Longrightarrow>
     qmap_apply_loop m f h (first_of xs (MNil m)) s = Some (fold (\<lambda>x. f (Item x)) xs s)"
proof (induction xs arbitrary: a s)
  case Nil
  show ?case by (simp add: qmap_apply_loop.simps cl_qmap_end_def)
next
  case (Cons x xs)
  then have "p_next h (Item x) = first_of xs (MNil m)" using seg_first by fastforce
  with Cons show ?case
    by (subst qmap_apply_loop.simps) (auto simp: cl_qmap_end_def cl_qmap_next_def)
qed

lemma apply_func_correct:
  assumes "qmap h m xs"
  shows "cl_qmap_apply_func m f s h = Some (fold (\<lambda>x. f (Item x)) xs s)"
  using qmap_threadD [OF assms] seg_first apply_loop_seg
  by (fastforce simp: cl_qmap_apply_func_def cl_qmap_head_def thread_def)

lemma head_correct: "qmap h m xs \<Longrightarrow> cl_qmap_head m h = first_of xs (MNil m)"
  using qmap_threadD [of h m xs] seg_first by (auto simp: cl_qmap_head_def thread_def)

lemma tail_correct: "qmap h m xs \<Longrightarrow> cl_qmap_tail m h = last_of (MNil m) xs"
  using qmap_threadD [of h m xs] seg_prev by (auto simp: cl_qmap_tail_def thread_def)

lemma next_correct:
  "qmap h m (xs @ x # ys) \<Longrightarrow> cl_qmap_next (Item x) h = first_of ys (MNil m)"
  using qmap_threadD [of h m "xs @ x # ys"] seg_first
  by (auto simp: cl_qmap_next_def thread_def seg_append)

lemma prev_correct:
  "qmap h m (xs @ x # ys) \<Longrightarrow> cl_qmap_prev (Item x) h = last_of (MNil m) xs"
  using qmap_threadD [of h m "xs @ x # ys"]
  by (auto simp: cl_qmap_prev_def thread_def seg_append)

end
