(* ===== verification/QMap_Insert_Spec.thy ===== *)
theory QMap_Insert_Spec
  imports QMap_Lookup
begin

text \<open>
  \<^verbatim>\<open>cl_qmap_insert\<close> on a well formed map: it always returns; an item with the
  key already there is handed back with the heap untouched, and otherwise the new item takes
  its place in the order.
\<close>

subsection \<open>The search for the insertion point\<close>

lemma find_zero:
  assumes "sorted_wrt (\<lambda>x y. 0 \<le> g x \<longrightarrow> 0 < g y) xs" "x \<in> set xs" "g x = (0::int)"
  shows "find (\<lambda>x. g x = 0) xs = Some x"
  using assms by (induction xs) fastforce+

fun turn_ok :: "path \<Rightarrow> int \<Rightarrow> bool" where
  "turn_ok [] r = True"
| "turn_ok (InL c x s # k) r \<longleftrightarrow> r > 0"
| "turn_ok (InR c x s # k) r \<longleftrightarrow> \<not> r > 0"

lemma insert_loop_sim:
  assumes "hrep h m (pptr m k) t"
    and "sorted_wrt (\<lambda>x y. 0 \<le> g (Item x) \<longrightarrow> 0 < g (Item y)) (inorder t)"
    and "\<forall>x \<in> set (before k). g (Item x) < 0" "\<forall>x \<in> set (after k). 0 < g (Item x)"
    and "turn_ok k r"
  shows "(\<exists>x \<in> set (inorder t). g (Item x) = 0 \<and>
           qmap_insert_loop m g h (pptr m k) (ptr m t) r = Some (Inl (Item x))) \<or>
         (\<exists>k' r'. qmap_insert_loop m g h (pptr m k) (ptr m t) r = Some (Inr (pptr m k', r')) \<and>
           plug k' Leaf = plug k t \<and> turn_ok k' r' \<and>
           (\<forall>x \<in> set (before k'). g (Item x) < 0) \<and> (\<forall>x \<in> set (after k'). 0 < g (Item x)))"
  using assms
proof (induction t arbitrary: k r)
  case Leaf
  then show ?case by (subst (1 2) qmap_insert_loop.simps) auto
next
  case (Node c l x rt)
  note s = sorted_wrt_around [OF Node.prems(2) [unfolded inorder.simps]]
  have p: "p_left h (Item x) = ptr m l" "p_right h (Item x) = ptr m rt"
    "hrep h m (Item x) l" "hrep h m (Item x) rt" using Node.prems(1) by auto
  consider "g (Item x) = 0" | "g (Item x) > 0" | "g (Item x) < 0" by linarith
  then show ?case
  proof cases
    case 1
    then show ?thesis by (subst (1 2) qmap_insert_loop.simps) (simp add: Let_def)
  next
    case 2
    have "\<forall>y \<in> set (after (InL c x rt # k)). 0 < g (Item y)"
      using 2 s(4) Node.prems(4) by auto
    then show ?thesis
      using Node.IH(1) [of "InL c x rt # k" "g (Item x)"] p s(1) Node.prems 2
      by (subst (1 2) qmap_insert_loop.simps) (auto simp: Let_def)
  next
    case 3
    have "\<forall>y \<in> set (before (InR c x l # k)). g (Item y) < 0"
      using 3 s(3) Node.prems(3) by (auto simp: not_less [symmetric])
    then show ?thesis
      using Node.IH(2) [of "InR c x l # k" "g (Item x)"] p s(2) Node.prems 3
      by (subst (1 2) qmap_insert_loop.simps) (auto simp: Let_def)
  qed
qed

subsection \<open>Linking the new item\<close>

lemma thread_next_last:
  "thread h m (xs @ y # ys) \<Longrightarrow> p_next h (Item y) = first_of ys (MNil m)"
  using seg_first by (fastforce simp: thread_def seg_append)

lemma primitive_insert_fields [simp]:
  "p_left (cl_primitive_insert a b h) = p_left h" "p_right (cl_primitive_insert a b h) = p_right h"
  "p_up (cl_primitive_insert a b h) = p_up h" "color (cl_primitive_insert a b h) = color h"
  "key (cl_primitive_insert a b h) = key h" "count (cl_primitive_insert a b h) = count h"
  "key_cmp (cl_primitive_insert a b h) = key_cmp h"
  by (simp_all add: cl_primitive_insert_def Let_def)

lemma primitive_insert_links:
  "p_next (cl_primitive_insert a b h) =
     (p_next h)(b := a, ((p_prev h)(b := p_prev h a, a := b)) b := b)"
  "p_prev (cl_primitive_insert a b h) = (p_prev h)(b := p_prev h a, a := b)"
  by (simp_all add: cl_primitive_insert_def Let_def)

text \<open>The fields after the new item has been hung below \<open>k\<close>.\<close>

lemma link_item_fields:
  fixes h :: qheap and x :: nat and v :: uint64
  assumes "turn_ok k r" "thread h m (before k @ after k)"
  defines "h' \<equiv> qmap_link_item m v (Item x) (pptr m k) r h"
  shows "p_up h' = (p_up h)(Item x := pptr m k)"
    "color h' = (color h)(Item x := CL_MAP_RED)"
    "key h' = (key h)(Item x := v)"
    "count h' = (count h)(m := count h m + 1)" "key_cmp h' = key_cmp h"
    "p_next h' = p_next (cl_primitive_insert (first_of (after k) (MNil m)) (Item x) h)"
    "p_prev h' = p_prev (cl_primitive_insert (first_of (after k) (MNil m)) (Item x) h)"
    "p_left h' = (case k of [] \<Rightarrow> (p_left h)(Item x := MNil m, MRoot m := Item x)
       | InL c y s # k' \<Rightarrow> (p_left h)(Item x := MNil m, Item y := Item x)
       | InR c y s # k' \<Rightarrow> (p_left h)(Item x := MNil m))"
    "p_right h' = (case k of InR c y s # k' \<Rightarrow> (p_right h)(Item x := MNil m, Item y := Item x)
       | _ \<Rightarrow> (p_right h)(Item x := MNil m))"
proof -
  have n: "p_next h (Item y) = first_of (after k) (MNil m)" if "k = InR c y s # k'" for c y s k'
    using that assms(2) thread_next_last [of h m "before k' @ inorder s" y "after k"] by simp
  show "p_up h' = (p_up h)(Item x := pptr m k)"
    "color h' = (color h)(Item x := CL_MAP_RED)"
    "key h' = (key h)(Item x := v)"
    "count h' = (count h)(m := count h m + 1)" "key_cmp h' = key_cmp h"
    "p_next h' = p_next (cl_primitive_insert (first_of (after k) (MNil m)) (Item x) h)"
    "p_prev h' = p_prev (cl_primitive_insert (first_of (after k) (MNil m)) (Item x) h)"
    "p_left h' = (case k of [] \<Rightarrow> (p_left h)(Item x := MNil m, MRoot m := Item x)
       | InL c y s # k' \<Rightarrow> (p_left h)(Item x := MNil m, Item y := Item x)
       | InR c y s # k' \<Rightarrow> (p_left h)(Item x := MNil m))"
    "p_right h' = (case k of InR c y s # k' \<Rightarrow> (p_right h)(Item x := MNil m, Item y := Item x)
       | _ \<Rightarrow> (p_right h)(Item x := MNil m))"
    using assms(1) unfolding h'_def
    by (cases k rule: before.cases;
        simp add: qmap_link_item_def Let_def primitive_insert_links n)+
qed

lemma link_item_tree:
  assumes t: "tree_rep h m (plug k Leaf)" and x: "x \<notin> set (before k @ after k)"
    and l: "turn_ok k r" "thread h m (before k @ after k)"
  shows "tree_rep (qmap_link_item m v (Item x) (pptr m k) r h) m (plug k (Node CL_MAP_RED Leaf x Leaf))"
proof -
  define h' where "h' = qmap_link_item m v (Item x) (pptr m k) r h"
  note t' = t [unfolded tree_rep_plug]
    and f = link_item_fields [OF l, where v = v and x = x, folded h'_def]
  show ?thesis
    unfolding tree_rep_plug h'_def [symmetric] using t' x
    by (cases k rule: before.cases) (auto simp: f heap_simps sentinels_def)
qed

lemma link_item_thread:
  assumes l: "turn_ok k r" "thread h m (before k @ after k)"
    and d: "distinct (before k @ after k)" "x \<notin> set (before k @ after k)"
  shows "thread (qmap_link_item m v (Item x) (pptr m k) r h) m (before k @ x # after k)"
  using thread_insert [OF l(2) d] link_item_fields [OF l, where v = v and x = x]
  by (simp add: thread_def)

lemma link_item_frame:
  assumes l: "turn_ok k r" "thread h m (before k @ after k)"
  shows "map_frame m (insert x (set (before k @ after k))) h
    (qmap_link_item m v (Item x) (pptr m k) r h)"
proof -
  define h' where "h' = qmap_link_item m v (Item x) (pptr m k) r h"
  note f = link_item_fields [OF l, where v = v and x = x, folded h'_def]
  have "first_of (after k) (MNil m) \<in> insert (MNil m) (Item ` set (after k))"
    by (cases "after k") auto
  moreover have "p_prev h (first_of (after k) (MNil m)) \<in> insert (MNil m) (Item ` set (before k))"
    using l(2) last_of_cases [of "MNil m" "before k"] seg_prev seg_prev_first
    by (fastforce simp: thread_def seg_append split: if_splits)
  ultimately show ?thesis
    unfolding h'_def [symmetric]
    by (cases k rule: before.cases) (auto simp: map_frame_def f primitive_insert_links)
qed

subsection \<open>The whole operation\<close>

text \<open>Where a new item with key \<open>v\<close> goes.\<close>

definition item_insert :: "qheap \<Rightarrow> nat \<Rightarrow> uint64 \<Rightarrow> nat \<Rightarrow> nat list \<Rightarrow> nat list" where
  "item_insert h m v x xs =
     takeWhile (\<lambda>y. qmap_cmp (key_cmp h m) (key h (Item y)) v < 0) xs @
     x # dropWhile (\<lambda>y. qmap_cmp (key_cmp h m) (key h (Item y)) v < 0) xs"

lemma set_item_insert [simp]: "set (item_insert h m v x xs) = insert x (set xs)"
proof -
  let ?P = "\<lambda>y. qmap_cmp (key_cmp h m) (key h (Item y)) v < 0"
  have "set (takeWhile ?P xs) \<union> set (dropWhile ?P xs) = set xs"
    by (metis set_append takeWhile_dropWhile_id)
  then show ?thesis by (auto simp: item_insert_def)
qed

lemma length_item_insert [simp]: "length (item_insert h m v x xs) = Suc (length xs)"
proof -
  let ?P = "\<lambda>y. qmap_cmp (key_cmp h m) (key h (Item y)) v < 0"
  have "length (takeWhile ?P xs) + length (dropWhile ?P xs) = length xs"
    by (metis length_append takeWhile_dropWhile_id)
  then show ?thesis by (simp add: item_insert_def)
qed

lemma item_insert_split:
  assumes "\<forall>y \<in> set as. qmap_cmp (key_cmp h m) (key h (Item y)) v < 0"
    and "\<forall>y \<in> set bs. 0 < qmap_cmp (key_cmp h m) (key h (Item y)) v"
  shows "item_insert h m v x (as @ bs) = as @ x # bs"
  using assms by (cases bs) (auto simp: item_insert_def)

text \<open>The outcome of the search on a whole map.\<close>

lemma insert_search:
  fixes v :: uint64
  assumes q: "qmap_rep h m t" and ok: "cmp_ok (key_cmp h m)"
  defines "g \<equiv> \<lambda>p. qmap_cmp (key_cmp h m) (key h p) v"
  shows "case lookup_item h m v (inorder t) of
      Some y \<Rightarrow> qmap_insert_loop m g h (MRoot m) (cl_map_root m h) 0 = Some (Inl (Item y))
    | None \<Rightarrow> \<exists>k r. qmap_insert_loop m g h (MRoot m) (cl_map_root m h) 0 = Some (Inr (pptr m k, r)) \<and>
        plug k Leaf = t \<and> turn_ok k r \<and>
        (\<forall>x \<in> set (before k). g (Item x) < 0) \<and> (\<forall>x \<in> set (after k). 0 < g (Item x))"
proof -
  from q have r: "hrep h m (MRoot m) t" "cl_map_root m h = ptr m t"
    by (auto simp: qmap_rep_def tree_rep_def cl_map_root_def)
  have s: "sorted_wrt (\<lambda>x y. 0 \<le> g (Item x) \<longrightarrow> 0 < g (Item y)) (inorder t)"
    unfolding g_def using q by (intro sought_sorted [OF ok]) (auto simp: qmap_rep_def)
  note sim = insert_loop_sim [where k = "[]", simplified, OF r(1) s, of 0]
  show ?thesis
  proof (cases "lookup_item h m v (inorder t)")
    case None
    then have "\<not> (\<exists>x \<in> set (inorder t). g (Item x) = 0)"
      by (auto simp: lookup_item_None g_def)
    with sim None show ?thesis by (auto simp: r(2))
  next
    case (Some y)
    from sim show ?thesis
    proof (elim disjE bexE exE conjE, goal_cases)
      case (1 x)
      with find_zero [OF s] Some show ?thesis by (simp add: r(2) lookup_item_def g_def)
    next
      case (2 k r)
      have "inorder t = before k @ after k" by (simp add: 2(2) [symmetric] shape_simps)
      with lookup_item_Some [OF Some] have "y \<in> set (before k) \<or> y \<in> set (after k)" "g (Item y) = 0"
        by (auto simp: g_def)
      with 2(4,5) show ?thesis by force
    qed
  qed
qed

lemma insert_dup:
  assumes "qmap h m xs" "cmp_ok (key_cmp h m)" "lookup_item h m v xs = Some y"
  shows "cl_qmap_insert m v p h = Some (Item y, h)"
  using assms insert_search [of h m _ v] by (fastforce simp: qmap_def cl_qmap_insert_def)

lemma insert_new:
  assumes q: "qmap h m xs" and ok: "cmp_ok (key_cmp h m)"
    and x: "x \<notin> set xs" and n: "lookup_item h m v xs = None"
  shows "\<exists>h'. cl_qmap_insert m v (Item x) h = Some (Item x, h') \<and>
    qmap h' m (item_insert h m v x xs) \<and> key h' = (key h)(Item x := v) \<and>
    map_frame m (insert x (set xs)) h h'"
proof -
  let ?g = "\<lambda>p. qmap_cmp (key_cmp h m) (key h p) v"
  from q obtain t where t: "qmap_rep h m t" "inorder t = xs" by (auto simp: qmap_def)
  with insert_search [OF t(1) ok, of v] n obtain k r where
    l: "qmap_insert_loop m ?g h (MRoot m) (cl_map_root m h) 0 = Some (Inr (pptr m k, r))"
    and k: "plug k Leaf = t" "turn_ok k r"
    and lt: "\<forall>x \<in> set (before k). ?g (Item x) < 0" and gt: "\<forall>x \<in> set (after k). 0 < ?g (Item x)"
    by auto
  from k(1) t(2) have xs: "xs = before k @ after k" by (auto simp: shape_simps)
  have th: "thread h m (before k @ after k)" and tr: "tree_rep h m (plug k Leaf)"
    using t k xs by (auto simp: qmap_rep_def)
  define h1 where "h1 = qmap_link_item m v (Item x) (pptr m k) r h"
  note f1 = link_item_fields [OF k(2) th, where v = v and x = x, folded h1_def]
  have e1: "evolves m h1 (insert x (set xs)) h1 (plug k (Node CL_MAP_RED Leaf x Leaf))"
    using link_item_tree [OF tr _ k(2) th, of x v] x xs
    by (auto simp: evolves_def h1_def shape_simps)
  have rb: "rb_tree (plug k Leaf)" using t k by (simp add: qmap_rep_def)
  then have kv: "kinv k 0" "root_black k" using rb_tree_plug [of k Leaf] by (auto split: if_splits)
  from ins_bal_sim [OF e1 kv(2)] obtain h2 where
    b: "cl_map_ins_bal m (Item x) h1 = Some h2"
    and e2: "evolves m h1 (insert x (set xs)) h2 (ins_tree (Node CL_MAP_RED Leaf x Leaf) k)"
    by blast
  obtain d tl y tr' where it: "ins_tree (Node CL_MAP_RED Leaf x Leaf) k = Node d tl y tr'"
    using inorder_ins_tree [of "Node CL_MAP_RED Leaf x Leaf" k]
    by (cases "ins_tree (Node CL_MAP_RED Leaf x Leaf) k") auto
  have root: "cl_map_root m h2 = Item y"
    using e2 unfolding it by (simp add: cl_map_root_def evolves_def tree_rep_def)
  define h3 where "h3 = set_color (Item y) CL_MAP_BLACK h2"
  have e3: "evolves m h1 (insert x (set xs)) h3 (ins_result x k)"
    using evolves_color [where k = "[]", simplified, OF e2 [unfolded it]]
    by (simp add: ins_result_def it h3_def)
  then have u: "unchanged m (insert x (set xs)) h1 h3" and tr3: "tree_rep h3 m (ins_result x k)"
    by (auto simp: evolves_def)
  have io: "inorder (ins_result x k) = before k @ x # after k"
    by (simp add: ins_result_def inorder_ins_tree)
  have "qmap_rep h3 m (ins_result x k)"
    unfolding qmap_rep_def
  proof (intro conjI)
    show "tree_rep h3 m (ins_result x k)" by (rule tr3)
    show "rb_tree (ins_result x k)"
      using ins_tree_inv [of "Node CL_MAP_RED Leaf x Leaf" k] kv by (simp add: rb_tree_def ins_result_def)
    show "thread h3 m (inorder (ins_result x k))"
      using link_item_thread [OF k(2) th, of x v] x xs qmap_distinct [OF q] u
      by (simp add: io thread_def unchanged_def h1_def)
    show "count h3 m = of_nat (length (inorder (ins_result x k)))"
      using u f1 qmap_countD [OF q] by (simp add: io xs unchanged_def)
    have ks: "keys_of h3 (before k @ x # after k) = keys_of h (before k) @ v # keys_of h (after k)"
      using u x by (auto simp: unchanged_def f1 xs)
    have kc: "key_cmp h3 m = key_cmp h m" using u by (simp add: unchanged_def f1)
    show "qmap_sorted (key_cmp h3 m) (keys_of h3 (inorder (ins_result x k)))"
      using qmap_sortedD [OF q] lt gt
      by (simp only: io ks kc, simp add: qmap_sorted_def sorted_wrt_mid xs cmp_flip [OF ok])
  qed
  then have "qmap h3 m (item_insert h m v x xs)"
    using lt gt by (auto simp: qmap_def io xs item_insert_split)
  moreover have "key h3 = (key h)(Item x := v)" using u by (simp add: unchanged_def f1)
  moreover have "map_frame m (insert x (set xs)) h h3"
    using link_item_frame [OF k(2) th, of x v] unchanged_frame [OF u] map_frame_trans
    unfolding h1_def xs by blast
  moreover have "cl_qmap_insert m v (Item x) h = Some (Item x, h3)"
    by (simp add: cl_qmap_insert_def l b [unfolded h1_def] root h3_def)
  ultimately show ?thesis by blast
qed

end
