(* ===== verification/QMap_Remove.thy ===== *)
theory QMap_Remove
  imports QMap_Insert_Spec
begin

text \<open>
  The removal loop \<^verbatim>\<open>__cl_map_del_bal\<close> on the heap: started at a subtree that is
  one black node short (possibly the nil item) it returns, and the heap it leaves holds
  \<open>del_tree\<close> of that tree.
\<close>

subsection \<open>The two halves of a turn\<close>

text \<open>
  A turn first makes the sibling (the code's \<^verbatim>\<open>p_uncle\<close>) black, then recolours or
  rotates; \<open>rest_left\<close> and \<open>rest_right\<close> name what follows the first half,
  \<open>finish_left\<close> and \<open>finish_right\<close> its last rotation.
\<close>

definition finish_left :: "nat \<Rightarrow> addr \<Rightarrow> addr \<Rightarrow> qheap \<Rightarrow> qheap" where
  "finish_left m p_item p_uncle h =
     (let h = set_color p_uncle (color h (p_up h p_item)) h;
          h = set_color (p_up h p_item) CL_MAP_BLACK h;
          h = set_color (p_right h p_uncle) CL_MAP_BLACK h;
          h = cl_map_rot_left m (p_up h p_item) h
      in set_color p_item CL_MAP_BLACK h)"

definition rest_left :: "nat \<Rightarrow> addr \<Rightarrow> addr \<Rightarrow> qheap \<Rightarrow> qheap option" where
  "rest_left m p_item p_uncle h =
     (if color h (p_right h p_uncle) \<noteq> CL_MAP_RED \<and> color h (p_left h p_uncle) \<noteq> CL_MAP_RED then
        cl_map_del_bal m (p_up h p_item) (set_color p_uncle CL_MAP_RED h)
      else
        (let (p_uncle, h) =
               (if color h (p_right h p_uncle) \<noteq> CL_MAP_RED then
                  (let h = set_color (p_left h p_uncle) CL_MAP_BLACK h;
                       h = set_color p_uncle CL_MAP_RED h;
                       h = cl_map_rot_right m p_uncle h
                   in (p_right h (p_up h p_item), h))
                else (p_uncle, h))
         in Some (finish_left m p_item p_uncle h)))"

definition finish_right :: "nat \<Rightarrow> addr \<Rightarrow> addr \<Rightarrow> qheap \<Rightarrow> qheap" where
  "finish_right m p_item p_uncle h =
     (let h = set_color p_uncle (color h (p_up h p_item)) h;
          h = set_color (p_up h p_item) CL_MAP_BLACK h;
          h = set_color (p_left h p_uncle) CL_MAP_BLACK h;
          h = cl_map_rot_right m (p_up h p_item) h
      in set_color p_item CL_MAP_BLACK h)"

definition rest_right :: "nat \<Rightarrow> addr \<Rightarrow> addr \<Rightarrow> qheap \<Rightarrow> qheap option" where
  "rest_right m p_item p_uncle h =
     (if color h (p_left h p_uncle) \<noteq> CL_MAP_RED \<and> color h (p_right h p_uncle) \<noteq> CL_MAP_RED then
        cl_map_del_bal m (p_up h p_item) (set_color p_uncle CL_MAP_RED h)
      else
        (let (p_uncle, h) =
               (if color h (p_left h p_uncle) \<noteq> CL_MAP_RED then
                  (let h = set_color (p_right h p_uncle) CL_MAP_BLACK h;
                       h = set_color p_uncle CL_MAP_RED h;
                       h = cl_map_rot_left m p_uncle h
                   in (p_left h (p_up h p_item), h))
                else (p_uncle, h))
         in Some (finish_right m p_item p_uncle h)))"

lemma del_bal_stop:
  "color h p = CL_MAP_RED \<or> p_up h p = MRoot m \<Longrightarrow>
     cl_map_del_bal m p h = Some (set_color p CL_MAP_BLACK h)"
  by (subst cl_map_del_bal.simps) auto

lemma del_bal_left:
  assumes "color h p = CL_MAP_BLACK" "p_up h p \<noteq> MRoot m" "cl_map_is_left_child p h"
  shows "cl_map_del_bal m p h =
    (let u = p_right h (p_up h p) in
     if color h u = CL_MAP_RED then
       (let h' = cl_map_rot_left m (p_up h p)
                   (set_color (p_up h p) CL_MAP_RED (set_color u CL_MAP_BLACK h))
        in rest_left m p (p_right h' (p_up h' p)) h')
     else rest_left m p u h)"
  using assms by (subst cl_map_del_bal.simps) (simp add: rest_left_def finish_left_def Let_def)

lemma del_bal_right:
  assumes "color h p = CL_MAP_BLACK" "p_up h p \<noteq> MRoot m" "\<not> cl_map_is_left_child p h"
  shows "cl_map_del_bal m p h =
    (let u = p_left h (p_up h p) in
     if color h u = CL_MAP_RED then
       (let h' = cl_map_rot_right m (p_up h p)
                   (set_color (p_up h p) CL_MAP_RED (set_color u CL_MAP_BLACK h))
        in rest_right m p (p_left h' (p_up h' p)) h')
     else rest_right m p u h)"
  using assms by (subst cl_map_del_bal.simps) (simp add: rest_right_def finish_right_def Let_def)

subsection \<open>The cursor\<close>

text \<open>
  The cursor \<^verbatim>\<open>p_item\<close> is the top of the short subtree.  When that subtree is
  empty it is the nil item, whose parent link the caller has set.
\<close>

definition cursor :: "nat \<Rightarrow> qheap \<Rightarrow> nat set \<Rightarrow> qheap \<Rightarrow> qtree \<Rightarrow> path \<Rightarrow> bool" where
  "cursor m h0 S h t k \<longleftrightarrow> evolves m h0 S h (plug k t) \<and> p_up h (ptr m t) = pptr m k"

lemma cursorI:
  assumes "evolves m h0 S h (plug k t)" "t = Leaf \<Longrightarrow> p_up h (MNil m) = pptr m k"
  shows "cursor m h0 S h t k"
  using assms evolves_rep [OF assms(1)] by (cases t) (auto simp: cursor_def)

lemma cursor_Node: "evolves m h0 S h (plug k (Node c l x r)) \<Longrightarrow> cursor m h0 S h (Node c l x r) k"
  by (rule cursorI) simp_all

lemma evolves_up_nil: "evolves m h0 S h t \<Longrightarrow> p_up h (MNil m) = p_up h0 (MNil m)"
  by (auto simp: evolves_def intro: unchanged_up_nil)

text \<open>A change of the tree around the cursor that keeps the item above it.\<close>

lemma cursor_move:
  assumes "cursor m h0 S h t k" "evolves m h0 S h' (plug k' t)" "pptr m k' = pptr m k"
  shows "cursor m h0 S h' t k'"
  using assms evolves_up_nil [of m h0 S h] evolves_up_nil [OF assms(2)]
  by (intro cursorI) (auto simp: cursor_def)

lemma color_cursor: "cursor m h0 S h t k \<Longrightarrow> color h (ptr m t) = tcol t"
  by (auto simp: cursor_def dest: color_ptr)

lemma set_black_noop:
  assumes "evolves m h0 S h (plug k t)" "tcol t = CL_MAP_BLACK"
  shows "set_color (ptr m t) CL_MAP_BLACK h = h"
proof -
  have "color h (ptr m t) = CL_MAP_BLACK" using assms color_ptr by metis
  then have "(color h)(ptr m t := CL_MAP_BLACK) = color h" by (metis fun_upd_triv)
  then show ?thesis by simp
qed

lemma evolves_paint:
  assumes "evolves m h0 S h (plug k t)"
  shows "evolves m h0 S (set_color (ptr m t) CL_MAP_BLACK h) (plug k (paint CL_MAP_BLACK t))"
proof (cases t)
  case Leaf
  then show ?thesis using assms set_black_noop [OF assms] by simp
next
  case (Node c l x r)
  then show ?thesis using assms evolves_color by simp
qed

subsection \<open>Reading around the cursor\<close>

lemma cursor_left:
  assumes "cursor m h0 S h t (InL c p s # k)"
  shows "p_up h (ptr m t) = Item p" "p_right h (Item p) = ptr m s" "color h (Item p) = c"
    "color h (ptr m s) = tcol s" "cl_map_is_left_child (ptr m t) h"
proof -
  have e: "evolves m h0 S h (plug k (Node c t p s))" using assms by (simp add: cursor_def)
  show "p_up h (ptr m t) = Item p" using assms by (simp add: cursor_def)
  then show "p_right h (Item p) = ptr m s" "color h (Item p) = c" "cl_map_is_left_child (ptr m t) h"
    using evolves_rep [OF e] by (auto simp: cl_map_is_left_child_def)
  show "color h (ptr m s) = tcol s" using color_ptr [of m h0 S h "InR c p t # k" s] e by simp
qed

lemma cursor_right:
  assumes "cursor m h0 S h t (InR c p s # k)" "s \<noteq> Leaf"
  shows "p_up h (ptr m t) = Item p" "p_left h (Item p) = ptr m s" "color h (Item p) = c"
    "color h (ptr m s) = tcol s" "\<not> cl_map_is_left_child (ptr m t) h"
proof -
  have e: "evolves m h0 S h (plug k (Node c s p t))" using assms by (simp add: cursor_def)
  show "p_up h (ptr m t) = Item p" using assms by (simp add: cursor_def)
  moreover have "ptr m s \<noteq> ptr m t"
    using assms(2) evolves_distinct [OF e] by (cases s; cases t) auto
  ultimately show "p_left h (Item p) = ptr m s" "color h (Item p) = c"
    "\<not> cl_map_is_left_child (ptr m t) h"
    using evolves_rep [OF e] by (auto simp: cl_map_is_left_child_def)
  show "color h (ptr m s) = tcol s" using color_ptr [of m h0 S h "InL c p t # k" s] e by simp
qed

text \<open>What the code reads of the sibling.\<close>

lemma sibling_left:
  assumes "evolves m h0 S h (plug k (Node c t p (Node d s u r)))"
  shows "p_right h (Item u) = ptr m r" "p_left h (Item u) = ptr m s"
    "color h (ptr m r) = tcol r" "color h (ptr m s) = tcol s"
  using evolves_rep [OF assms] assms
    color_ptr [of m h0 S h "InR d u s # InR c p t # k" r]
    color_ptr [of m h0 S h "InL d u r # InR c p t # k" s] by auto

lemma sibling_right:
  assumes "evolves m h0 S h (plug k (Node c (Node d l u s) p t))"
  shows "p_left h (Item u) = ptr m l" "p_right h (Item u) = ptr m s"
    "color h (ptr m l) = tcol l" "color h (ptr m s) = tcol s"
  using evolves_rep [OF assms] assms
    color_ptr [of m h0 S h "InL d u s # InL c p t # k" l]
    color_ptr [of m h0 S h "InR d u l # InL c p t # k" s] by auto

subsection \<open>The last rotation\<close>

lemma finish_left_sim:
  assumes c: "cursor m h0 S h t (InL c p (Node d s u r) # k)" and t: "tcol t = CL_MAP_BLACK"
  shows "evolves m h0 S (finish_left m (ptr m t) (Item u) h)
    (plug k (Node c (Node CL_MAP_BLACK t p s) u (paint CL_MAP_BLACK r)))"
proof -
  have e: "evolves m h0 S h (plug k (Node c t p (Node d s u r)))" using c by (simp add: cursor_def)
  note rd = cursor_left [OF c] sibling_left [OF e]
  have "evolves m h0 S (set_color (Item u) c h) (plug k (Node c t p (Node c s u r)))"
    using evolves_color [where k = "InR c p t # k", simplified, OF e] .
  from evolves_color [where k = k, OF this]
  have "evolves m h0 S (set_color (Item p) CL_MAP_BLACK (set_color (Item u) c h))
      (plug k (Node CL_MAP_BLACK t p (Node c s u r)))" .
  from evolves_paint [where k = "InR c u s # InR CL_MAP_BLACK p t # k", simplified, OF this]
  have "evolves m h0 S (cl_map_rot_left m (Item p)
        (set_color (ptr m r) CL_MAP_BLACK (set_color (Item p) CL_MAP_BLACK (set_color (Item u) c h))))
      (plug k (Node c (Node CL_MAP_BLACK t p s) u (paint CL_MAP_BLACK r)))"
    using evolves_rot_left by simp
  from this set_black_noop
    [where k = "InL CL_MAP_BLACK p s # InL c u (paint CL_MAP_BLACK r) # k", simplified, OF this t]
  show ?thesis by (simp add: finish_left_def Let_def rd)
qed

lemma finish_right_sim:
  assumes c: "cursor m h0 S h t (InR c p (Node d l u s) # k)" and t: "tcol t = CL_MAP_BLACK"
  shows "evolves m h0 S (finish_right m (ptr m t) (Item u) h)
    (plug k (Node c (paint CL_MAP_BLACK l) u (Node CL_MAP_BLACK s p t)))"
proof -
  have e: "evolves m h0 S h (plug k (Node c (Node d l u s) p t))" using c by (simp add: cursor_def)
  note rd = cursor_right [OF c] sibling_right [OF e]
  have "evolves m h0 S (set_color (Item u) c h) (plug k (Node c (Node c l u s) p t))"
    using evolves_color [where k = "InL c p t # k", simplified, OF e] .
  from evolves_color [where k = k, OF this]
  have "evolves m h0 S (set_color (Item p) CL_MAP_BLACK (set_color (Item u) c h))
      (plug k (Node CL_MAP_BLACK (Node c l u s) p t))" .
  from evolves_paint [where k = "InL c u s # InL CL_MAP_BLACK p t # k", simplified, OF this]
  have "evolves m h0 S (cl_map_rot_right m (Item p)
        (set_color (ptr m l) CL_MAP_BLACK (set_color (Item p) CL_MAP_BLACK (set_color (Item u) c h))))
      (plug k (Node c (paint CL_MAP_BLACK l) u (Node CL_MAP_BLACK s p t)))"
    using evolves_rot_right by simp
  from this set_black_noop
    [where k = "InR CL_MAP_BLACK p s # InR c u (paint CL_MAP_BLACK l) # k", simplified, OF this t]
  show ?thesis by (simp add: finish_right_def Let_def rd)
qed

subsection \<open>The second half of a turn\<close>

lemma rest_left_recolor:
  assumes c: "cursor m h0 S h t (InL c p (Node d s u r) # k)"
    and "tcol r = CL_MAP_BLACK" "tcol s = CL_MAP_BLACK"
  shows "rest_left m (ptr m t) (Item u) h = cl_map_del_bal m (Item p) (set_color (Item u) CL_MAP_RED h)"
    and "evolves m h0 S (set_color (Item u) CL_MAP_RED h) (plug k (Node c t p (Node CL_MAP_RED s u r)))"
proof -
  have e: "evolves m h0 S h (plug k (Node c t p (Node d s u r)))" using c by (simp add: cursor_def)
  show "rest_left m (ptr m t) (Item u) h = cl_map_del_bal m (Item p) (set_color (Item u) CL_MAP_RED h)"
    using assms by (simp add: rest_left_def cursor_left [OF c] sibling_left [OF e])
  show "evolves m h0 S (set_color (Item u) CL_MAP_RED h) (plug k (Node c t p (Node CL_MAP_RED s u r)))"
    using evolves_color [where k = "InR c p t # k", simplified, OF e] .
qed

lemma rest_right_recolor:
  assumes c: "cursor m h0 S h t (InR c p (Node d l u s) # k)"
    and "tcol l = CL_MAP_BLACK" "tcol s = CL_MAP_BLACK"
  shows "rest_right m (ptr m t) (Item u) h = cl_map_del_bal m (Item p) (set_color (Item u) CL_MAP_RED h)"
    and "evolves m h0 S (set_color (Item u) CL_MAP_RED h) (plug k (Node c (Node CL_MAP_RED l u s) p t))"
proof -
  have e: "evolves m h0 S h (plug k (Node c (Node d l u s) p t))" using c by (simp add: cursor_def)
  show "rest_right m (ptr m t) (Item u) h = cl_map_del_bal m (Item p) (set_color (Item u) CL_MAP_RED h)"
    using assms by (simp add: rest_right_def cursor_right [OF c] sibling_right [OF e])
  show "evolves m h0 S (set_color (Item u) CL_MAP_RED h) (plug k (Node c (Node CL_MAP_RED l u s) p t))"
    using evolves_color [where k = "InL c p t # k", simplified, OF e] .
qed

lemma rest_left_rotate:
  assumes c: "cursor m h0 S h t (InL c p (Node d s u r) # k)" and t: "tcol t = CL_MAP_BLACK"
    and red: "tcol r = CL_MAP_RED \<or> tcol s = CL_MAP_RED"
  shows "\<exists>h'. rest_left m (ptr m t) (Item u) h = Some h' \<and>
    evolves m h0 S h' (plug k (fix_left c p t s u r))"
proof -
  have e: "evolves m h0 S h (plug k (Node c t p (Node d s u r)))" using c by (simp add: cursor_def)
  note rd = cursor_left [OF c] sibling_left [OF e]
  show ?thesis
  proof (cases "tcol r = CL_MAP_RED")
    case True
    then have "fix_left c p t s u r = Node c (Node CL_MAP_BLACK t p s) u (paint CL_MAP_BLACK r)"
      by (cases "(c, p, t, s, u, r)" rule: fix_left.cases) auto
    with True finish_left_sim [OF c t] show ?thesis by (simp add: rest_left_def rd)
  next
    case False
    with red obtain a y b where s: "s = Node CL_MAP_RED a y b" using red_node by blast
    let ?h = "cl_map_rot_right m (Item u)
      (set_color (Item u) CL_MAP_RED (set_color (Item y) CL_MAP_BLACK h))"
    have "evolves m h0 S (set_color (Item y) CL_MAP_BLACK h)
        (plug k (Node c t p (Node d (Node CL_MAP_BLACK a y b) u r)))"
      using evolves_color [where k = "InL d u r # InR c p t # k", simplified, OF e [unfolded s]] .
    from evolves_rot_right [where k = "InR c p t # k", simplified,
        OF evolves_color [where k = "InR c p t # k", simplified, OF this]]
    have e2: "evolves m h0 S ?h (plug k (Node c t p (Node CL_MAP_BLACK a y (Node CL_MAP_RED b u r))))" .
    then have c2: "cursor m h0 S ?h t (InL c p (Node CL_MAP_BLACK a y (Node CL_MAP_RED b u r)) # k)"
      using cursor_move [OF c] by simp
    have "fix_left c p t s u r =
        Node c (Node CL_MAP_BLACK t p a) y (paint CL_MAP_BLACK (Node CL_MAP_RED b u r))"
      using False s by (cases r) auto
    with finish_left_sim [OF c2 t] False s cursor_left (1,2) [OF c2] rd(9) show ?thesis
      by (simp add: rest_left_def Let_def rd [unfolded s])
  qed
qed

lemma rest_right_rotate:
  assumes c: "cursor m h0 S h t (InR c p (Node d l u s) # k)" and t: "tcol t = CL_MAP_BLACK"
    and red: "tcol l = CL_MAP_RED \<or> tcol s = CL_MAP_RED"
  shows "\<exists>h'. rest_right m (ptr m t) (Item u) h = Some h' \<and>
    evolves m h0 S h' (plug k (fix_right c p t s u l))"
proof -
  have e: "evolves m h0 S h (plug k (Node c (Node d l u s) p t))" using c by (simp add: cursor_def)
  note rd = cursor_right [OF c] sibling_right [OF e]
  show ?thesis
  proof (cases "tcol l = CL_MAP_RED")
    case True
    then have "fix_right c p t s u l = Node c (paint CL_MAP_BLACK l) u (Node CL_MAP_BLACK s p t)"
      by (cases "(c, p, t, s, u, l)" rule: fix_right.cases) auto
    with True finish_right_sim [OF c t] show ?thesis by (simp add: rest_right_def rd)
  next
    case False
    with red obtain a y b where s: "s = Node CL_MAP_RED a y b" using red_node by blast
    let ?h = "cl_map_rot_left m (Item u)
      (set_color (Item u) CL_MAP_RED (set_color (Item y) CL_MAP_BLACK h))"
    have "evolves m h0 S (set_color (Item y) CL_MAP_BLACK h)
        (plug k (Node c (Node d l u (Node CL_MAP_BLACK a y b)) p t))"
      using evolves_color [where k = "InR d u l # InL c p t # k", simplified, OF e [unfolded s]] .
    from evolves_rot_left [where k = "InL c p t # k", simplified,
        OF evolves_color [where k = "InL c p t # k", simplified, OF this]]
    have e2: "evolves m h0 S ?h (plug k (Node c (Node CL_MAP_BLACK (Node CL_MAP_RED l u a) y b) p t))" .
    then have c2: "cursor m h0 S ?h t (InR c p (Node CL_MAP_BLACK (Node CL_MAP_RED l u a) y b) # k)"
      using cursor_move [OF c] by simp
    have "fix_right c p t s u l =
        Node c (paint CL_MAP_BLACK (Node CL_MAP_RED l u a)) y (Node CL_MAP_BLACK b p t)"
      using False s by (cases l) auto
    with finish_right_sim [OF c2 t] False s cursor_right (1,2) [OF c2] rd(9) show ?thesis
      by (simp add: rest_right_def Let_def rd [unfolded s])
  qed
qed

subsection \<open>The first half of a turn\<close>

lemma raise_left:
  assumes c: "cursor m h0 S h t (InL c p (Node d a u b) # k)"
  shows "cursor m h0 S (cl_map_rot_left m (Item p)
      (set_color (Item p) CL_MAP_RED (set_color (Item u) CL_MAP_BLACK h)))
    t (InL CL_MAP_RED p a # InL CL_MAP_BLACK u b # k)"
proof -
  have "evolves m h0 S h (plug k (Node c t p (Node d a u b)))" using c by (simp add: cursor_def)
  from evolves_rot_left [where k = k, OF evolves_color [where k = k,
      OF evolves_color [where k = "InR c p t # k", simplified, OF this]]]
  show ?thesis using cursor_move [OF c] by simp
qed

lemma raise_right:
  assumes c: "cursor m h0 S h t (InR c p (Node d b u a) # k)"
  shows "cursor m h0 S (cl_map_rot_right m (Item p)
      (set_color (Item p) CL_MAP_RED (set_color (Item u) CL_MAP_BLACK h)))
    t (InR CL_MAP_RED p a # InR CL_MAP_BLACK u b # k)"
proof -
  have "evolves m h0 S h (plug k (Node c (Node d b u a) p t))" using c by (simp add: cursor_def)
  from evolves_rot_right [where k = k, OF evolves_color [where k = k,
      OF evolves_color [where k = "InL c p t # k", simplified, OF this]]]
  show ?thesis using cursor_move [OF c] by simp
qed

lemma turn_left:
  assumes c: "cursor m h0 S h t (InL c p s # k)" and s: "s \<noteq> Leaf" "tcol t = CL_MAP_BLACK"
    and ru: "red_uncle (InL c p s # k) = InL c' p' (Node CL_MAP_BLACK s' u r) # k'"
  shows "\<exists>h'. cl_map_del_bal m (ptr m t) h = rest_left m (ptr m t) (Item u) h' \<and>
    cursor m h0 S h' t (InL c' p' (Node CL_MAP_BLACK s' u r) # k')"
proof -
  obtain d a v b where sv: "s = Node d a v b" using s(1) by (cases s) auto
  note rd = cursor_left [OF c] color_cursor [OF c]
  show ?thesis
  proof (cases "d = CL_MAP_RED")
    case True
    with ru sv have a: "a = Node CL_MAP_BLACK s' u r" "c' = CL_MAP_RED" "p' = p"
      "k' = InL CL_MAP_BLACK v b # k" by auto
    note c2 = raise_left [OF c [unfolded sv]]
    show ?thesis
      using c2 cursor_left(1,2) [OF c2] s(2) True rd(4)
      by (auto simp: del_bal_left rd sv Let_def a)
  next
    case False
    with ru sv c s(2) rd show ?thesis by (auto simp: del_bal_left Let_def)
  qed
qed

lemma turn_right:
  assumes c: "cursor m h0 S h t (InR c p s # k)" and s: "s \<noteq> Leaf" "tcol t = CL_MAP_BLACK"
    and ru: "red_uncle (InR c p s # k) = InR c' p' (Node CL_MAP_BLACK l u s') # k'"
  shows "\<exists>h'. cl_map_del_bal m (ptr m t) h = rest_right m (ptr m t) (Item u) h' \<and>
    cursor m h0 S h' t (InR c' p' (Node CL_MAP_BLACK l u s') # k')"
proof -
  obtain d a v b where sv: "s = Node d a v b" using s(1) by (cases s) auto
  note rd = cursor_right [OF c s(1)] color_cursor [OF c]
  show ?thesis
  proof (cases "d = CL_MAP_RED")
    case True
    with ru sv have b: "b = Node CL_MAP_BLACK l u s'" "c' = CL_MAP_RED" "p' = p"
      "k' = InR CL_MAP_BLACK v a # k" by auto
    note c2 = raise_right [OF c [unfolded sv]]
    show ?thesis
      using c2 cursor_right(1,2) [OF c2] s(2) True rd(4)
      by (auto simp: del_bal_right rd sv Let_def b)
  next
    case False
    with ru sv c s(2) rd show ?thesis by (auto simp: del_bal_right Let_def)
  qed
qed

subsection \<open>The loop\<close>

lemma red_uncle_shape:
  "red_uncle k = InL c p t # k' \<Longrightarrow> \<exists>c p s k1. k = InL c p s # k1"
  "red_uncle k = InR c p t # k' \<Longrightarrow> \<exists>c p s k1. k = InR c p s # k1"
  by (induction k rule: red_uncle.induct) auto

lemma del_bal_sim:
  assumes "cursor m h0 S h t k" "invc (paint CL_MAP_BLACK t)" "invh t"
    "kinv k (Suc (bh t))" "root_black k"
  shows "\<exists>h'. cl_map_del_bal m (ptr m t) h = Some h' \<and> evolves m h0 S h' (del_tree t k)"
  using assms
proof (induction t k arbitrary: h rule: del_tree.induct)
  case (1 t k)
  note c = "1.prems"(1)
  have e: "evolves m h0 S h (plug k t)" and up: "p_up h (ptr m t) = pptr m k"
    using c by (simp_all add: cursor_def)
  show ?case
  proof (cases "tcol t = CL_MAP_RED \<or> k = []")
    case True
    then have "del_tree t k = plug k (paint CL_MAP_BLACK t)" by (simp add: del_tree.simps)
    then show ?thesis
      using evolves_paint [OF e] True up color_cursor [OF c] by (auto simp: del_bal_stop)
  next
    case False
    then have t: "tcol t = CL_MAP_BLACK" "k \<noteq> []" by auto
    with "1.prems" have tc: "invc t" by (simp add: paint_black_id)
    note ru = red_uncle_inv [OF "1.prems"(4,5) t(2)]
    then consider
        (L) c p s u r k' where "red_uncle k = InL c p (Node CL_MAP_BLACK s u r) # k'"
      | (R) c p l u s k' where "red_uncle k = InR c p (Node CL_MAP_BLACK l u s) # k'"
      by blast
    then show ?thesis
    proof cases
      case (L c1 p s u r k')
      then obtain c2 p2 s2 k2 where k: "k = InL c2 p2 s2 # k2" using red_uncle_shape(1) by blast
      with "1.prems"(4) have "s2 \<noteq> Leaf" by auto
      from turn_left [OF c [unfolded k] this t(1) L [unfolded k]] obtain h1 where
        h1: "cl_map_del_bal m (ptr m t) h = rest_left m (ptr m t) (Item u) h1"
        and c1: "cursor m h0 S h1 t (InL c1 p (Node CL_MAP_BLACK s u r) # k')" by blast
      show ?thesis
      proof (cases "tcol r = CL_MAP_BLACK \<and> tcol s = CL_MAP_BLACK")
        case True
        then have d: "del_tree t k = del_tree (Node c1 t p (Node CL_MAP_RED s u r)) k'"
          using L t by (subst del_tree.simps) simp
        note rc = rest_left_recolor [OF c1 conjunct1 [OF True] conjunct2 [OF True]]
        have "\<exists>h'. cl_map_del_bal m (ptr m (Node c1 t p (Node CL_MAP_RED s u r)))
            (set_color (Item u) CL_MAP_RED h1) = Some h' \<and>
            evolves m h0 S h' (del_tree (Node c1 t p (Node CL_MAP_RED s u r)) k')"
          by (rule "1.IH"(1) [OF False L refl refl True cursor_Node [OF rc(2)]])
            (use ru L True tc "1.prems" in \<open>auto split: if_splits\<close>)
        then show ?thesis by (simp add: d h1 rc(1))
      next
        case False
        then have "del_tree t k = plug k' (fix_left c1 p t s u r)"
          using L t by (subst del_tree.simps) auto
        with rest_left_rotate [OF c1 t(1)] False h1 show ?thesis by auto
      qed
    next
      case (R c1 p l u s k')
      then obtain c2 p2 s2 k2 where k: "k = InR c2 p2 s2 # k2" using red_uncle_shape(2) by blast
      with "1.prems"(4) have "s2 \<noteq> Leaf" by auto
      from turn_right [OF c [unfolded k] this t(1) R [unfolded k]] obtain h1 where
        h1: "cl_map_del_bal m (ptr m t) h = rest_right m (ptr m t) (Item u) h1"
        and c1: "cursor m h0 S h1 t (InR c1 p (Node CL_MAP_BLACK l u s) # k')" by blast
      show ?thesis
      proof (cases "tcol l = CL_MAP_BLACK \<and> tcol s = CL_MAP_BLACK")
        case True
        then have d: "del_tree t k = del_tree (Node c1 (Node CL_MAP_RED l u s) p t) k'"
          using R t by (subst del_tree.simps) simp
        note rc = rest_right_recolor [OF c1 conjunct1 [OF True] conjunct2 [OF True]]
        have "\<exists>h'. cl_map_del_bal m (ptr m (Node c1 (Node CL_MAP_RED l u s) p t))
            (set_color (Item u) CL_MAP_RED h1) = Some h' \<and>
            evolves m h0 S h' (del_tree (Node c1 (Node CL_MAP_RED l u s) p t) k')"
          by (rule "1.IH"(2) [OF False R refl refl True cursor_Node [OF rc(2)]])
            (use ru R True tc "1.prems" in \<open>auto split: if_splits\<close>)
        then show ?thesis by (simp add: d h1 rc(1))
      next
        case False
        then have "del_tree t k = plug k' (fix_right c1 p t s u l)"
          using R t by (subst del_tree.simps) auto
        with rest_right_rotate [OF c1 t(1)] False h1 show ?thesis by auto
      qed
    qed
  qed
qed

end
