(* ===== verification/QMap_Remove_Spec.thy ===== *)
theory QMap_Remove_Spec
  imports QMap_Remove
begin

text \<open>
  \<^verbatim>\<open>cl_qmap_remove_item\<close> and \<^verbatim>\<open>cl_qmap_remove\<close> on a well formed map:
  they always return, and the item leaves the map, every other item keeping its place.
\<close>

subsection \<open>Steps on the tree of one map\<close>

definition tree_step :: "nat \<Rightarrow> nat set \<Rightarrow> qheap \<Rightarrow> qheap \<Rightarrow> bool" where
  "tree_step m S h h' \<longleftrightarrow> map_frame m S h h' \<and> key h' = key h \<and> p_next h' = p_next h \<and>
     p_prev h' = p_prev h \<and> count h' = count h"

lemma tree_step_trans: "tree_step m S h h' \<Longrightarrow> tree_step m S h' h'' \<Longrightarrow> tree_step m S h h''"
  by (auto simp: tree_step_def intro: map_frame_trans)

lemma tree_step_mono: "tree_step m S h h' \<Longrightarrow> S \<subseteq> S' \<Longrightarrow> tree_step m S' h h'"
  by (auto simp: tree_step_def intro: map_frame_mono)

lemma unchanged_tree_step: "unchanged m S h h' \<Longrightarrow> tree_step m S h h'"
  using unchanged_frame [of m S h h'] by (auto simp: tree_step_def unchanged_def)

subsection \<open>Taking out an item with at most one child\<close>

definition detach_tree :: "cl_map_color \<Rightarrow> qtree \<Rightarrow> path \<Rightarrow> qtree" where
  "detach_tree c t k = (if c = CL_MAP_BLACK then del_tree t k else plug k t)"

lemma inorder_detach: "inorder (detach_tree c t k) = before k @ inorder t @ after k"
  by (simp add: detach_tree_def inorder_del_tree shape_simps)

definition only_child :: "qtree \<Rightarrow> qtree \<Rightarrow> qtree" where
  "only_child l r = (if l \<noteq> Leaf then l else r)"

lemma only_child_inv:
  assumes "rb_tree (plug k (Node c l x r))" "l = Leaf \<or> r = Leaf"
  shows "invc (only_child l r)" "invh (only_child l r)" "bh (only_child l r) = bh r"
    "c = CL_MAP_RED \<Longrightarrow> tcol (only_child l r) = CL_MAP_BLACK"
    "inorder (only_child l r) = inorder l @ inorder r"
    "c = CL_MAP_BLACK \<Longrightarrow> kinv k (Suc (bh r))" "c = CL_MAP_RED \<Longrightarrow> kinv k (bh r)" "root_black k"
    "c = CL_MAP_RED \<Longrightarrow> k \<noteq> [] \<and> kcol k = CL_MAP_BLACK"
  using assms by (auto simp: rb_tree_plug only_child_def split: if_splits)

lemma detach_inv:
  assumes "rb_tree (plug k (Node c l x r))" "l = Leaf \<or> r = Leaf"
  shows "rb_tree (detach_tree c (only_child l r) k)"
proof (cases c)
  case CL_MAP_RED
  then show ?thesis using only_child_inv [OF assms] by (auto simp: detach_tree_def rb_tree_plug)
next
  case CL_MAP_BLACK
  then show ?thesis
    using only_child_inv [OF assms] by (auto simp: detach_tree_def intro: del_tree_inv invc_paint_black)
qed

text \<open>The two pointer writes that splice the child in.\<close>

definition splice :: "nat \<Rightarrow> addr \<Rightarrow> addr \<Rightarrow> qheap \<Rightarrow> qheap" where
  "splice m p_del p_child h =
     (let h = set_up p_child (p_up h p_del) h
      in set_slot (cl_map_get_parent_ptr_to_item p_del h) p_child h)"

lemma splice_tree:
  assumes t: "tree_rep h m (plug k (Node c l x r))" and s: "l = Leaf \<or> r = Leaf"
  defines "h' \<equiv> splice m (Item x) (ptr m (only_child l r)) h"
  shows "tree_rep h' m (plug k (only_child l r))" "p_up h' (ptr m (only_child l r)) = pptr m k"
    "tree_step m (set (inorder (plug k (Node c l x r)))) h h'" "color h' = color h"
proof -
  note t' = t [unfolded tree_rep_plug]
  let ?c = "only_child l r"
  let ?h = "set_up (ptr m ?c) (p_up h (Item x)) h"
  have x: "ptr m ?c \<noteq> Item x" "p_up h (Item x) = pptr m k" "ptr m ?c = MNil m \<or> ptr m ?c \<in> Item ` set (inorder ?c)"
    using t' by (auto simp: only_child_def) (cases l; cases r; auto)+
  have sl: "cl_map_get_parent_ptr_to_item (Item x) ?h = cl_map_get_parent_ptr_to_item (Item x) h"
    using x by (simp add: cl_map_get_parent_ptr_to_item_def cl_map_is_left_child_def)
  have h': "h' = set_slot (cl_map_get_parent_ptr_to_item (Item x) h) (ptr m ?c) ?h"
    unfolding h'_def splice_def Let_def sl ..
  have io: "set (inorder ?c) \<subseteq> set (inorder l @ inorder r)" by (auto simp: only_child_def)
  have rc: "hrep ?h m (pptr m k) ?c"
    using t' x by (cases ?c) (auto simp: only_child_def heap_simps split: if_splits)
  have dc: "distinct (inorder ?c)" "set (before k) \<inter> set (inorder ?c) = {}"
    "set (after k) \<inter> set (inorder ?c) = {}"
    using t' by (auto simp: only_child_def)
  have "ptr m ?c \<notin> Item ` set (before k)" "ptr m ?c \<notin> Item ` set (after k)"
    using x(3) dc by auto
  from krep_upd(3) [OF this] have kc: "hkrep ?h m (Item x) k" using t' by simp
  show "tree_rep h' m (plug k ?c)"
    unfolding tree_rep_plug h' slot_of_item [OF t] using rc kc dc t'
    by (cases k rule: before.cases) (auto simp: heap_simps sentinels_def)
  show "p_up h' (ptr m ?c) = pptr m k"
    unfolding h' slot_of_item [OF t] using x by (cases k rule: before.cases) auto
  show "tree_step m (set (inorder (plug k (Node c l x r)))) h h'"
    unfolding h' slot_of_item [OF t] tree_step_def map_frame_def using x(3) io
    by (cases k rule: before.cases) (auto simp: shape_simps)
  show "color h' = color h"
    unfolding h' slot_of_item [OF t] by (cases k rule: before.cases) auto
qed

definition detach :: "nat \<Rightarrow> addr \<Rightarrow> qheap \<Rightarrow> qheap option" where
  "detach m p_del h =
     (let p_child = (if p_left h p_del \<noteq> MNil m then p_left h p_del else p_right h p_del);
          h = splice m p_del p_child h
      in if color h p_del \<noteq> CL_MAP_RED then cl_map_del_bal m p_child h else Some h)"

lemma detach_sim:
  assumes t: "tree_rep h m (plug k (Node c l x r))" and s: "l = Leaf \<or> r = Leaf"
    and rb: "rb_tree (plug k (Node c l x r))"
  shows "\<exists>h'. detach m (Item x) h = Some h' \<and> tree_rep h' m (detach_tree c (only_child l r) k) \<and>
    tree_step m (set (inorder (plug k (Node c l x r)))) h h'"
proof -
  let ?c = "only_child l r" and ?h = "splice m (Item x) (ptr m (only_child l r)) h"
  note sp = splice_tree [OF t s] and inv = only_child_inv [OF rb s]
  have rd: "(if p_left h (Item x) \<noteq> MNil m then p_left h (Item x) else p_right h (Item x)) = ptr m ?c"
    "color h (Item x) = c"
    using t by (auto simp: tree_rep_plug only_child_def)
  show ?thesis
  proof (cases c)
    case CL_MAP_RED
    then show ?thesis using sp rd by (auto simp: detach_def detach_tree_def)
  next
    case CL_MAP_BLACK
    let ?S = "set (inorder (plug k ?c))"
    have "cursor m ?h ?S ?h ?c k"
      using sp(1,2) by (simp add: cursor_def evolves_start)
    then obtain h' where d: "cl_map_del_bal m (ptr m ?c) ?h = Some h'"
      and e: "evolves m ?h ?S h' (del_tree ?c k)"
      using del_bal_sim [of m ?h ?S ?h ?c k] inv CL_MAP_BLACK by (auto intro: invc_paint_black)
    have "?S \<subseteq> set (inorder (plug k (Node c l x r)))" using inv(5) by (auto simp: shape_simps)
    then have "tree_step m (set (inorder (plug k (Node c l x r)))) h h'"
      using e sp(3) unfolding evolves_def
      by (meson unchanged_tree_step tree_step_mono tree_step_trans)
    moreover have "detach m (Item x) h = Some h'"
      unfolding detach_def rd(1) Let_def using d rd(2) sp(4) CL_MAP_BLACK by simp
    ultimately show ?thesis using e CL_MAP_BLACK by (auto simp: evolves_def detach_tree_def)
  qed
qed

subsection \<open>Putting the successor in the removed item's place\<close>

lemma subst_plug:
  assumes "x \<notin> set (before k)" "x \<notin> set (after k)"
  shows "subst_item x y (plug k t) = plug k (subst_item x y t)"
  using assms by (induction k t rule: plug.induct) (auto simp: subst_item_id)

text \<open>The fields the replacement writes.\<close>

lemma replace_fields:
  fixes h :: qheap
  assumes t: "tree_rep h m (plug k (Node c l x r))" and y: "y \<notin> set (inorder (plug k (Node c l x r)))"
  defines "h' \<equiv> qmap_replace_item (Item x) (Item y) h"
  shows "p_up h' = (p_up h)(Item y := pptr m k, ptr m r := Item y, ptr m l := Item y)"
    "color h' = (color h)(Item y := c)"
    "p_left h' = (case k of InR d z s # k' \<Rightarrow> (p_left h)(Item y := ptr m l)
       | _ \<Rightarrow> (p_left h)(Item y := ptr m l, pptr m k := Item y))"
    "p_right h' = (case k of InR d z s # k' \<Rightarrow> (p_right h)(Item y := ptr m r, pptr m k := Item y)
       | _ \<Rightarrow> (p_right h)(Item y := ptr m r))"
    "key h' = key h" "p_next h' = p_next h" "p_prev h' = p_prev h" "count h' = count h"
    "key_cmp h' = key_cmp h"
proof -
  note t' = t [unfolded tree_rep_plug]
  have g: "p_up h (Item x) = pptr m k" "p_left h (Item x) = ptr m l" "p_right h (Item x) = ptr m r"
    "color h (Item x) = c" using t' by simp_all
  have xk: "x \<noteq> y" "pptr m k \<noteq> Item x" "pptr m k \<noteq> Item y"
    using y t' pptr_Item by (auto simp: shape_simps)
  have sl: "cl_map_get_parent_ptr_to_item (Item x)
      (h\<lparr>p_up := (p_up h)(Item y := pptr m k), p_left := (p_left h)(Item y := ptr m l),
         p_right := (p_right h)(Item y := ptr m r)\<rparr>) = cl_map_get_parent_ptr_to_item (Item x) h"
    using g xk by (simp add: cl_map_get_parent_ptr_to_item_def cl_map_is_left_child_def)
  have eq: "h' = (case k of
      InR d z s # k' \<Rightarrow> h\<lparr>p_up := (p_up h)(Item y := pptr m k, ptr m r := Item y, ptr m l := Item y),
            p_left := (p_left h)(Item y := ptr m l),
            p_right := (p_right h)(Item y := ptr m r, pptr m k := Item y), color := (color h)(Item y := c)\<rparr>
    | _ \<Rightarrow> h\<lparr>p_up := (p_up h)(Item y := pptr m k, ptr m r := Item y, ptr m l := Item y),
            p_left := (p_left h)(Item y := ptr m l, pptr m k := Item y),
            p_right := (p_right h)(Item y := ptr m r), color := (color h)(Item y := c)\<rparr>)"
    using xk unfolding h'_def
    by (simp add: qmap_replace_item_def Let_def g sl slot_of_item [OF t] del: pptr.simps)
      (cases k rule: before.cases; simp add: g)
  show "p_up h' = (p_up h)(Item y := pptr m k, ptr m r := Item y, ptr m l := Item y)"
    "color h' = (color h)(Item y := c)"
    "p_left h' = (case k of InR d z s # k' \<Rightarrow> (p_left h)(Item y := ptr m l)
       | _ \<Rightarrow> (p_left h)(Item y := ptr m l, pptr m k := Item y))"
    "p_right h' = (case k of InR d z s # k' \<Rightarrow> (p_right h)(Item y := ptr m r, pptr m k := Item y)
       | _ \<Rightarrow> (p_right h)(Item y := ptr m r))"
    "key h' = key h" "p_next h' = p_next h" "p_prev h' = p_prev h" "count h' = count h"
    "key_cmp h' = key_cmp h"
    unfolding eq by (cases k rule: before.cases; simp)+
qed

lemma replace_sim:
  assumes t: "tree_rep h m T" and x: "x \<in> set (inorder T)" and y: "y \<notin> set (inorder T)"
  shows "tree_rep (qmap_replace_item (Item x) (Item y) h) m (subst_item x y T)"
    and "tree_step m (insert y (set (inorder T))) h (qmap_replace_item (Item x) (Item y) h)"
proof -
  from inorder_split [OF x] obtain k c l r where T: "T = plug k (Node c l x r)" by blast
  note t' = t [unfolded T tree_rep_plug] and f = replace_fields [OF t [unfolded T] y [unfolded T]]
  define h' where "h' = qmap_replace_item (Item x) (Item y) h"
  note f' = f [folded h'_def]
  have ny: "y \<notin> set (before k)" "y \<notin> set (after k)" "y \<notin> set (inorder l)" "y \<notin> set (inorder r)"
    using y by (auto simp: T shape_simps)
  have xk: "pptr m k \<noteq> Item y" using ny t' pptr_Item by auto
  have st: "subst_item x y T = plug k (Node c l y r)"
    using t' by (simp add: T subst_plug subst_item_id)
  have l: "ptr m l = MNil m \<or> ptr m l \<in> Item ` set (inorder l)" by (cases l) auto
  have r: "ptr m r = MNil m \<or> ptr m r \<in> Item ` set (inorder r)" by (cases r) auto
  have out: "pptr m k \<notin> Item ` set (inorder l)" "pptr m k \<notin> Item ` set (inorder r)"
    using t' by (cases k rule: before.cases; auto)+
  have rl: "hrep h' m (Item y) l"
    by (rule rep_reparent [where u = "Item x" and L = "p_left h" and R = "p_right h" and
          U = "p_up h" and C = "color h"])
      (use t' ny out r in \<open>auto simp: f' split: list.split frame.split\<close>)
  have rr: "hrep h' m (Item y) r"
    by (rule rep_reparent [where u = "Item x" and L = "p_left h" and R = "p_right h" and
          U = "p_up h" and C = "color h"])
      (use t' ny out l in \<open>auto simp: f' split: list.split frame.split\<close>)
  have "Item z \<noteq> ptr m l \<and> Item z \<noteq> ptr m r \<and> z \<noteq> y" if "z \<in> set (before k) \<union> set (after k)" for z
    using that t' ny l r by auto
  then have kk: "hkrep h' m (Item y) k"
    unfolding f' using t' by (intro krep_redirect [of "p_left h" "p_right h" "p_up h" "color h" m "Item x"]) auto
  show "tree_rep (qmap_replace_item (Item x) (Item y) h) m (subst_item x y T)"
    unfolding st tree_rep_plug h'_def [symmetric]
    using rl rr kk ny xk t'
    by (auto simp: f' sentinels_def split: list.split frame.split)
  show "tree_step m (insert y (set (inorder T))) h (qmap_replace_item (Item x) (Item y) h)"
    unfolding h'_def [symmetric] tree_step_def map_frame_def using l r
    by (cases k rule: before.cases) (auto simp: f' T shape_simps)
qed

subsection \<open>The whole operation\<close>

lemma primitive_remove_fields [simp]:
  "p_left (cl_primitive_remove a h) = p_left h" "p_right (cl_primitive_remove a h) = p_right h"
  "p_up (cl_primitive_remove a h) = p_up h" "color (cl_primitive_remove a h) = color h"
  "key (cl_primitive_remove a h) = key h" "count (cl_primitive_remove a h) = count h"
  "key_cmp (cl_primitive_remove a h) = key_cmp h"
  by (simp_all add: cl_primitive_remove_def Let_def)

text \<open>The heap once the item has left the list and the count.\<close>

definition unthread :: "nat \<Rightarrow> addr \<Rightarrow> qheap \<Rightarrow> qheap" where
  "unthread m p_item h = set_count m (count h m - 1) (cl_primitive_remove p_item h)"

lemma unthread_frame:
  assumes "thread h m (xs @ x # ys)"
  shows "map_frame m (set (xs @ ys)) h (unthread m (Item x) h)"
proof -
  have s: "p_prev h (Item x) = last_of (MNil m) xs" "p_next h (Item x) = first_of ys (MNil m)"
    using assms thread_next_last [OF assms] by (auto simp: thread_def seg_append)
  have "first_of ys (MNil m) \<in> insert (MNil m) (Item ` set ys)" by (cases ys) auto
  moreover have "last_of (MNil m) xs \<in> insert (MNil m) (Item ` set xs)"
    using last_of_cases [of "MNil m" xs] by auto
  ultimately show ?thesis
    by (auto simp: map_frame_def unthread_def cl_primitive_remove_def Let_def s)
qed

lemma remove_item_unfold:
  "cl_qmap_remove_item m (Item x) h =
     (let p_del = (if p_right h (Item x) = MNil m \<or> p_left h (Item x) = MNil m
                   then Item x else p_next h (Item x))
      in map_option (\<lambda>h. if p_del \<noteq> Item x then qmap_replace_item (Item x) p_del h else h)
           (detach m p_del (unthread m (Item x) h)))"
  by (simp add: cl_qmap_remove_item_def cl_qmap_end_def cl_qmap_next_def Let_def detach_def
      splice_def unthread_def split: option.split)

lemma remove_finish:
  assumes q: "qmap h m (xs @ x # ys)" and T: "tree_rep h' m T" "rb_tree T" "inorder T = xs @ ys"
    and st: "tree_step m (set (xs @ x # ys)) (unthread m (Item x) h) h'"
  shows "qmap h' m (xs @ ys) \<and> key h' = key h \<and> map_frame m (set (xs @ x # ys)) h h'"
proof -
  let ?u = "unthread m (Item x) h"
  have e: "p_next h' = p_next ?u" "p_prev h' = p_prev ?u" "key h' = key h" "key_cmp h' = key_cmp h"
    "count h' m = count h m - 1"
    using st by (auto simp: tree_step_def unthread_def map_frame_def)
  have "qmap_rep h' m T"
    unfolding qmap_rep_def
  proof (intro conjI T(1,2))
    show "thread h' m (inorder T)"
      using thread_remove [OF qmap_threadD [OF q] qmap_distinct [OF q]]
      by (simp add: T(3) thread_def e unthread_def)
    show "qmap_sorted (key_cmp h' m) (keys_of h' (inorder T))"
      using qmap_sortedD [OF q] by (simp add: T(3) e qmap_sorted_def sorted_wrt_mid)
    show "count h' m = of_nat (length (inorder T))"
      using qmap_countD [OF q] by (simp add: T(3) e)
  qed
  then have "qmap h' m (xs @ ys)" using T(3) by (auto simp: qmap_def)
  moreover have "map_frame m (set (xs @ x # ys)) h h'"
    using map_frame_mono [OF unthread_frame [OF qmap_threadD [OF q]], of "set (xs @ x # ys)"] st
    unfolding tree_step_def by (intro map_frame_trans [of m _ h ?u h']) auto
  ultimately show ?thesis using e by simp
qed

lemma remove_item_sim:
  assumes q: "qmap h m (xs @ x # ys)"
  shows "\<exists>h'. cl_qmap_remove_item m (Item x) h = Some h' \<and> qmap h' m (xs @ ys) \<and>
    key h' = key h \<and> map_frame m (set (xs @ x # ys)) h h'"
proof -
  let ?u = "unthread m (Item x) h"
  from q obtain t where t: "tree_rep h m t" "rb_tree t" "inorder t = xs @ x # ys"
    by (auto simp: qmap_def qmap_rep_def)
  obtain k c l r where tk: "t = plug k (Node c l x r)" using inorder_split [of x t] t(3) by auto
  have d: "x \<notin> set xs" "x \<notin> set ys" using qmap_distinct [OF q] by auto
  have io: "xs = before k @ inorder l" "ys = inorder r @ after k"
    using t(1,3) d append_Cons_eq_iff [of x "before k @ inorder l" "inorder r @ after k" xs ys]
    by (auto simp: tk tree_rep_plug shape_simps)
  have u: "tree_rep ?u m t" using t(1) by (simp add: tree_rep_def unthread_def sentinels_def)
  have rd: "p_left h (Item x) = ptr m l" "p_right h (Item x) = ptr m r"
    using t(1) by (auto simp: tk tree_rep_plug)
  show ?thesis
  proof (cases "l = Leaf \<or> r = Leaf")
    case True
    from detach_sim [OF u [unfolded tk] this t(2) [unfolded tk]] obtain h' where
      h': "detach m (Item x) ?u = Some h'" "tree_rep h' m (detach_tree c (only_child l r) k)"
        "tree_step m (set (xs @ x # ys)) ?u h'"
      using t(3) by (auto simp: tk)
    have "cl_qmap_remove_item m (Item x) h = Some h'"
      using h'(1) True by (auto simp: remove_item_unfold rd)
    moreover have "inorder (detach_tree c (only_child l r) k) = xs @ ys"
      using only_child_inv(5) [OF t(2) [unfolded tk] True] by (simp add: inorder_detach io)
    ultimately show ?thesis
      using remove_finish [OF q h'(2) detach_inv [OF t(2) [unfolded tk] True] _ h'(3)] by blast
  next
    case False
    then obtain e y r2 where lr: "leftmost r = Node e Leaf y r2" using leftmost_Node by blast
    let ?k = "leftmost_path r @ InR c x l # k"
    have r: "r = plug (leftmost_path r) (Node e Leaf y r2)" using plug_leftmost [of r] lr by simp
    have tk': "t = plug ?k (Node e Leaf y r2)" using r by (simp add: tk plug_append)
    have ri: "inorder r = y # inorder r2 @ after (leftmost_path r)"
      by (subst r) (simp add: shape_simps before_leftmost)
    have nx: "p_next h (Item x) = Item y"
      using thread_next_last [OF qmap_threadD [OF q]] by (simp add: io ri)
    let ?T = "detach_tree e r2 ?k"
    from detach_sim [OF u [unfolded tk'] disjI1 [OF refl] t(2) [unfolded tk']] obtain h1 where
      h1: "detach m (Item y) ?u = Some h1" "tree_rep h1 m ?T" "tree_step m (set (xs @ x # ys)) ?u h1"
      using t(3) by (auto simp: tk' only_child_def)
    have rb: "rb_tree ?T" using detach_inv [OF t(2) [unfolded tk']] by (simp add: only_child_def)
    have iT: "inorder ?T = xs @ x # inorder r2 @ after (leftmost_path r) @ after k"
      by (simp add: inorder_detach shape_simps before_leftmost io)
    have ny: "y \<notin> set (inorder ?T)" "x \<noteq> y" "y \<in> set ys"
      using qmap_distinct [OF q] by (auto simp: iT io ri)
    let ?h = "qmap_replace_item (Item x) (Item y) h1"
    note rp = replace_sim [OF h1(2) _ ny(1), of x]
    have "tree_step m (set (xs @ x # ys)) h1 ?h"
      by (rule tree_step_mono [OF rp(2)]) (use ny(3) in \<open>auto simp: iT io ri\<close>)
    then have st: "tree_step m (set (xs @ x # ys)) ?u ?h" using h1(3) tree_step_trans by blast
    have "inorder (subst_item x y ?T) = xs @ ys"
      using d by (auto simp: inorder_subst iT io ri intro!: map_idI)
    with remove_finish [OF q rp(1) _ _ st] rb
    have "qmap ?h m (xs @ ys) \<and> key ?h = key h \<and> map_frame m (set (xs @ x # ys)) h ?h"
      by (simp add: iT)
    moreover have "cl_qmap_remove_item m (Item x) h = Some ?h"
      using h1(1) False ny(2) by (simp add: remove_item_unfold rd nx)
    ultimately show ?thesis by blast
  qed
qed

lemma remove_end: "cl_qmap_remove_item m (cl_qmap_end m) h = Some h"
  by (simp add: cl_qmap_remove_item_def)

text \<open>\<^verbatim>\<open>cl_qmap_remove\<close>: the item found, or the end of the map and no change.\<close>

lemma remove_found:
  assumes q: "qmap h m xs" and ok: "cmp_ok (key_cmp h m)" and l: "lookup_item h m v xs = Some x"
  shows "\<exists>h'. cl_qmap_remove m v h = Some (Item x, h') \<and> qmap h' m (remove1 x xs) \<and>
    key h' = key h \<and> map_frame m (set xs) h h'"
proof -
  from lookup_item_Some [OF l] obtain as bs where xs: "xs = as @ x # bs" by (auto dest: split_list)
  then have "remove1 x xs = as @ bs" using qmap_distinct [OF q] by (simp add: remove1_append)
  then show ?thesis
    using remove_item_sim [OF q [unfolded xs]] xs get_correct [OF q ok, of v] l
    by (auto simp: cl_qmap_remove_def item_addr_def)
qed

lemma remove_missing:
  assumes "qmap h m xs" "cmp_ok (key_cmp h m)" "lookup_item h m v xs = None"
  shows "cl_qmap_remove m v h = Some (MNil m, h)"
  using get_correct [OF assms(1,2), of v] assms(3) remove_end [of m h]
  by (simp add: cl_qmap_remove_def item_addr_def cl_qmap_end_def)

end
