(* ===== verification/QMap_Props.thy ===== *)
theory QMap_Props
  imports QMap_Remove_Spec
begin

text \<open>
  The properties of the quick map, and the map seen from outside: a partial function from
  keys to items (\<open>qmap_abs\<close>), which every client program of insertions and removals
  updates the way a finite map is updated.
\<close>

subsection \<open>The map as a partial function\<close>

definition qmap_abs :: "qheap \<Rightarrow> nat list \<Rightarrow> uint64 \<rightharpoonup> nat" where
  "qmap_abs h xs k = find (\<lambda>x. key h (Item x) = k) xs"

lemma keys_distinct:
  assumes "qmap_sorted None (keys_of h xs)" "x \<in> set xs" "y \<in> set xs" "key h (Item x) = key h (Item y)"
  shows "x = y"
proof -
  have "sorted_wrt (<) (keys_of h xs)" using assms(1) by (simp add: qmap_sorted_def)
  then have "distinct (keys_of h xs)" by (simp add: strict_sorted_iff)
  with assms(2-4) show ?thesis by (auto simp: distinct_map inj_on_def)
qed

lemma qmap_abs_Some:
  assumes "qmap_sorted None (keys_of h xs)"
  shows "qmap_abs h xs k = Some x \<longleftrightarrow> x \<in> set xs \<and> key h (Item x) = k"
proof (cases "qmap_abs h xs k")
  case None
  then have "\<forall>x \<in> set xs. key h (Item x) \<noteq> k" by (auto simp: qmap_abs_def find_None_iff)
  with None show ?thesis by auto
next
  case (Some y)
  then have "y \<in> set xs" "key h (Item y) = k" by (auto simp: qmap_abs_def find_Some_iff)
  with Some assms keys_distinct show ?thesis by auto
qed

lemma lookup_abs: "key_cmp h m = None \<Longrightarrow> lookup_item h m k xs = qmap_abs h xs k"
  by (simp add: lookup_item_def qmap_abs_def)

lemma qmap_abs_eqI:
  assumes "qmap_sorted None (keys_of h xs)" "\<And>k x. f k = Some x \<longleftrightarrow> x \<in> set xs \<and> key h (Item x) = k"
  shows "qmap_abs h xs = f"
proof
  fix k
  show "qmap_abs h xs k = f k"
    using qmap_abs_Some [OF assms(1), of k] assms(2) [of k] by (metis option.exhaust)
qed

lemma ran_abs: "qmap_sorted None (keys_of h xs) \<Longrightarrow> ran (qmap_abs h xs) = set xs"
  using qmap_abs_Some [of h xs] by (auto simp: ran_def)

subsection \<open>Client programs\<close>

datatype qop = QInsert uint64 nat | QRemove uint64

fun qop_exec :: "nat \<Rightarrow> qop \<Rightarrow> qheap \<Rightarrow> qheap option" where
  "qop_exec m (QInsert k x) h = map_option snd (cl_qmap_insert m k (Item x) h)"
| "qop_exec m (QRemove k) h = map_option snd (cl_qmap_remove m k h)"

fun qop_spec :: "qop \<Rightarrow> (uint64 \<rightharpoonup> nat) \<Rightarrow> (uint64 \<rightharpoonup> nat)" where
  "qop_spec (QInsert k x) f = (if k \<in> dom f then f else f(k \<mapsto> x))"
| "qop_spec (QRemove k) f = f(k := None)"

text \<open>The client may not insert an item that is in the map already.\<close>

fun qop_legal :: "qop \<Rightarrow> (uint64 \<rightharpoonup> nat) \<Rightarrow> bool" where
  "qop_legal (QInsert k x) f \<longleftrightarrow> x \<notin> ran f"
| "qop_legal (QRemove k) f \<longleftrightarrow> True"

fun qrun :: "nat \<Rightarrow> qop list \<Rightarrow> qheap \<Rightarrow> qheap option" where
  "qrun m [] h = Some h"
| "qrun m (p # ps) h = Option.bind (qop_exec m p h) (qrun m ps)"

fun qlegal :: "qop list \<Rightarrow> (uint64 \<rightharpoonup> nat) \<Rightarrow> bool" where
  "qlegal [] f \<longleftrightarrow> True"
| "qlegal (p # ps) f \<longleftrightarrow> qop_legal p f \<and> qlegal ps (qop_spec p f)"

lemma qop_refines:
  assumes q: "qmap h m xs" and kc: "key_cmp h m = None" and l: "qop_legal p (qmap_abs h xs)"
  shows "\<exists>h' ys. qop_exec m p h = Some h' \<and> qmap h' m ys \<and> key_cmp h' m = None \<and>
    qmap_abs h' ys = qop_spec p (qmap_abs h xs)"
proof -
  have ok: "cmp_ok (key_cmp h m)" by (simp add: kc)
  have s: "qmap_sorted None (keys_of h xs)" using qmap_sortedD [OF q] kc by simp
  note sm = qmap_abs_Some [OF s]
  show ?thesis
  proof (cases p)
    case (QInsert k x)
    then have x: "x \<notin> set xs" using l ran_abs [OF s] by simp
    show ?thesis
    proof (cases "qmap_abs h xs k")
      case None
      with insert_new [OF q ok x, of k] lookup_abs [OF kc] obtain h' where
        h': "cl_qmap_insert m k (Item x) h = Some (Item x, h')"
          "qmap h' m (item_insert h m k x xs)" "key h' = (key h)(Item x := k)"
          "map_frame m (insert x (set xs)) h h'" by auto
      then have kc': "key_cmp h' m = None" using kc by (simp add: map_frame_def)
      have "qmap_abs h' (item_insert h m k x xs) = (qmap_abs h xs)(k \<mapsto> x)"
        using qmap_sortedD [OF h'(2)] kc' None sm x h'(3)
        by (intro qmap_abs_eqI) (auto simp: qmap_abs_def find_None_iff split: if_splits)
      then show ?thesis using h' kc' None QInsert by (auto simp: domIff)
    next
      case (Some y)
      with insert_dup [OF q ok, of k y] lookup_abs [OF kc] show ?thesis
        using QInsert q kc by auto
    qed
  next
    case (QRemove k)
    show ?thesis
    proof (cases "qmap_abs h xs k")
      case None
      with remove_missing [OF q ok, of k] lookup_abs [OF kc] show ?thesis
        using QRemove q kc by (auto simp: fun_upd_idem)
    next
      case (Some x)
      with remove_found [OF q ok, of k x] lookup_abs [OF kc] obtain h' where
        h': "cl_qmap_remove m k h = Some (Item x, h')" "qmap h' m (remove1 x xs)" "key h' = key h"
          "map_frame m (set xs) h h'" by auto
      then have kc': "key_cmp h' m = None" using kc by (simp add: map_frame_def)
      have "qmap_abs h' (remove1 x xs) = (qmap_abs h xs)(k := None)"
        using qmap_sortedD [OF h'(2)] kc' Some sm h'(3) qmap_distinct [OF q]
          keys_distinct [OF s]
        by (intro qmap_abs_eqI) (auto split: if_splits)
      then show ?thesis using h' kc' QRemove by auto
    qed
  qed
qed

lemma qrun_refines:
  "qmap h m xs \<Longrightarrow> key_cmp h m = None \<Longrightarrow> qlegal ps (qmap_abs h xs) \<Longrightarrow>
     \<exists>h' ys. qrun m ps h = Some h' \<and> qmap h' m ys \<and> key_cmp h' m = None \<and>
       qmap_abs h' ys = fold qop_spec ps (qmap_abs h xs)"
proof (induction ps arbitrary: h xs)
  case (Cons p ps)
  then obtain h1 ys where "qop_exec m p h = Some h1" "qmap h1 m ys" "key_cmp h1 m = None"
    "qmap_abs h1 ys = qop_spec p (qmap_abs h xs)"
    using qop_refines by (metis qlegal.simps(2))
  with Cons.IH [of h1 ys] Cons.prems(3) show ?case by simp
qed auto

subsection \<open>A map with one item\<close>

definition one_item :: qheap where
  "one_item = \<lparr>p_left = (\<lambda>a. if a = MRoot 0 then Item 7 else MNil 0), p_right = (\<lambda>_. MNil 0),
     p_up = (\<lambda>_. MRoot 0), color = (\<lambda>_. CL_MAP_BLACK), key = (\<lambda>_. 5),
     p_next = (\<lambda>a. if a = MNil 0 then Item 7 else MNil 0),
     p_prev = (\<lambda>a. if a = MNil 0 then Item 7 else MNil 0),
     count = (\<lambda>_. 1), key_cmp = (\<lambda>_. None)\<rparr>"

lemma one_item_qmap: "qmap one_item 0 [7]"
  by (auto simp: qmap_def qmap_rep_def one_item_def tree_rep_def rb_tree_def thread_def
      qmap_sorted_def sentinels_def intro!: exI [of _ "Node CL_MAP_BLACK Leaf 7 Leaf"])

lemma one_item_facts: "key_cmp one_item 0 = None" "key one_item a = 5"
  by (simp_all add: one_item_def)

lemma one_item_lookup: "lookup_item one_item 0 k [7] = (if k = 5 then Some 7 else None)"
  by (simp add: lookup_item_def one_item_facts qmap_cmp_def)

subsection \<open>Properties\<close>

text \<open>
  C1.  Refinement.  Every program of insertions and removals by key on a well formed map
  without a callback returns, leaves a well formed map (a red-black tree in key order,
  threaded in that order, with the right count), and updates the partial function from keys
  to items as a finite map: an insertion of a key that is present changes nothing.
\<close>

theorem qmap_refines_finite_map:
  assumes "qmap h m xs" "key_cmp h m = None" "qlegal ps (qmap_abs h xs)"
  shows "\<exists>h' ys. qrun m ps h = Some h' \<and> qmap h' m ys \<and>
    qmap_abs h' ys = fold qop_spec ps (qmap_abs h xs)"
  using qrun_refines [OF assms] by blast

theorem qmap_refines_finite_map_witness:
  "\<exists>h' ys. qrun 0 [QInsert 9 1, QRemove 5, QInsert 9 2, QInsert 5 2] one_item = Some h' \<and>
     qmap h' 0 ys \<and> qmap_abs h' ys = [9 \<mapsto> 1, 5 \<mapsto> 2]"
proof -
  have a: "qmap_abs one_item [7] = [5 \<mapsto> 7]"
    by (auto simp: qmap_abs_def one_item_facts)
  have l: "qlegal [QInsert 9 1, QRemove 5, QInsert 9 2, QInsert 5 2] (qmap_abs one_item [7])"
    by (simp add: a ran_def)
  have s: "fold qop_spec [QInsert 9 1, QRemove 5, QInsert 9 2, QInsert 5 2] (qmap_abs one_item [7])
      = [9 \<mapsto> 1, 5 \<mapsto> 2]"
    by (auto simp: a)
  show ?thesis
    using qmap_refines_finite_map [OF one_item_qmap one_item_facts(1) l] unfolding s .
qed

text \<open>
  C2.  \<^verbatim>\<open>cl_qmap_insert\<close> of a new key, for any comparison that is a total
  preorder: the loops end, the item is returned, it takes its place in the order, and no
  node of another map is written.
\<close>

theorem qmap_insert_new_key:
  assumes "qmap h m xs" "cmp_ok (key_cmp h m)" "x \<notin> set xs" "lookup_item h m v xs = None"
  shows "\<exists>h'. cl_qmap_insert m v (Item x) h = Some (Item x, h') \<and>
    qmap h' m (item_insert h m v x xs) \<and> key h' = (key h)(Item x := v) \<and>
    map_frame m (insert x (set xs)) h h'"
  by (rule insert_new [OF assms])

theorem qmap_insert_new_key_witness:
  "\<exists>h'. cl_qmap_insert 0 3 (Item 1) one_item = Some (Item 1, h') \<and> qmap h' 0 [1, 7] \<and>
     key h' = (key one_item)(Item 1 := 3) \<and> map_frame 0 {1, 7} one_item h'"
  using qmap_insert_new_key [OF one_item_qmap, of 1 3]
  by (simp add: one_item_facts one_item_lookup item_insert_def)

text \<open>
  \<^verbatim>\<open>cl_qmap_insert\<close> of a key that is present returns the item that has it
  and changes nothing.
\<close>

theorem qmap_insert_present_key:
  assumes "qmap h m xs" "cmp_ok (key_cmp h m)" "lookup_item h m v xs = Some y"
  shows "cl_qmap_insert m v p h = Some (Item y, h)"
  by (rule insert_dup [OF assms])

theorem qmap_insert_present_key_witness:
  "cl_qmap_insert 0 5 (Item 1) one_item = Some (Item 7, one_item)"
  using qmap_insert_present_key [OF one_item_qmap, of 5 7 "Item 1"]
  by (simp add: one_item_facts one_item_lookup)

text \<open>
  C3.  \<^verbatim>\<open>cl_qmap_remove_item\<close> of an item of a well formed map returns, whatever
  the position of the item in the tree, and leaves a well formed map of the other items in
  their order.
\<close>

theorem qmap_remove_item_correct:
  assumes "qmap h m (xs @ x # ys)"
  shows "\<exists>h'. cl_qmap_remove_item m (Item x) h = Some h' \<and> qmap h' m (xs @ ys) \<and>
    key h' = key h \<and> map_frame m (set (xs @ x # ys)) h h'"
  by (rule remove_item_sim [OF assms])

theorem qmap_remove_item_correct_witness:
  "\<exists>h'. cl_qmap_remove_item 0 (Item 7) one_item = Some h' \<and> qmap h' 0 [] \<and>
     key h' = key one_item \<and> map_frame 0 {7} one_item h'"
  using qmap_remove_item_correct [of one_item 0 "[]" 7 "[]"] one_item_qmap by simp

text \<open>
  \<^verbatim>\<open>cl_qmap_get\<close> descends to the item whose key compares equal to the sought
  one, and returns the end of the map when there is none.
\<close>

theorem qmap_get_finds_item:
  assumes "qmap h m xs" "cmp_ok (key_cmp h m)"
  shows "cl_qmap_get m k h = Some (item_addr m (lookup_item h m k xs))"
  by (rule get_correct [OF assms])

theorem qmap_get_finds_item_witness:
  "cl_qmap_get 0 5 one_item = Some (Item 7) \<and> cl_qmap_get 0 6 one_item = Some (MNil 0)"
  using qmap_get_finds_item [OF one_item_qmap, of 5] qmap_get_finds_item [OF one_item_qmap, of 6]
  by (simp add: one_item_facts one_item_lookup item_addr_def)

text \<open>
  \<^verbatim>\<open>cl_qmap_get_next\<close> on a map without a callback returns the first item
  whose key is above the sought one.
\<close>

theorem qmap_get_next_finds_successor:
  assumes "qmap h m xs" "key_cmp h m = None"
  shows "cl_qmap_get_next m k h = Some (item_addr m (find (\<lambda>x. k < key h (Item x)) xs))"
  by (rule get_next_correct [OF assms])

theorem qmap_get_next_finds_successor_witness:
  "cl_qmap_get_next 0 4 one_item = Some (Item 7) \<and> cl_qmap_get_next 0 5 one_item = Some (MNil 0)"
  using qmap_get_next_finds_successor [OF one_item_qmap, of 4]
    qmap_get_next_finds_successor [OF one_item_qmap, of 5]
  by (simp add: one_item_facts item_addr_def)

text \<open>
  On a map with a callback the test of \<^verbatim>\<open>cl_qmap_get_next\<close> has the other
  sign: whatever the sought key, the search returns the first item of the map or its end.
\<close>

theorem qmap_get_next_with_callback:
  assumes "qmap h m xs" "key_cmp h m = Some f" "cmp_ok (Some f)"
  shows "cl_qmap_get_next m k h \<in> {Some (cl_qmap_head m h), Some (cl_qmap_end m)}"
  by (rule get_next_callback [OF assms])

theorem qmap_get_next_with_callback_witness:
  "cl_qmap_get_next 0 9 (cl_qmap_init 0 (Some (\<lambda>a b. uint a - uint b)) one_item)
     \<in> {Some (cl_qmap_head 0 (cl_qmap_init 0 (Some (\<lambda>a b. uint a - uint b)) one_item)),
         Some (cl_qmap_end 0)}"
  by (rule qmap_get_next_with_callback [OF qmap_init, where f = "\<lambda>a b. uint a - uint b"])
    (auto simp: key_cmp_init cmp_ok_def qmap_cmp_def)

text \<open>
  \<^verbatim>\<open>cl_qmap_apply_func\<close> ends, and calls the callback once for every item, in
  key order.
\<close>

theorem qmap_apply_func_in_order:
  assumes "qmap h m xs"
  shows "cl_qmap_apply_func m f s h = Some (fold (\<lambda>x. f (Item x)) xs s)"
  by (rule apply_func_correct [OF assms])

theorem qmap_apply_func_in_order_witness:
  "cl_qmap_apply_func 0 (\<lambda>p s. p # s) [] one_item = Some [Item 7]"
  using qmap_apply_func_in_order [OF one_item_qmap, of "\<lambda>p s. p # s" "[]"] by simp

end
