(* ===== verification/QMap_KeyMap.thy ===== *)
theory QMap_KeyMap
  imports QMap_Props KeyMap
begin

text \<open>
  The pointer program as an instance of the key map interface, and the list of entries that
  a walk from \<^verbatim>\<open>cl_qmap_head\<close> sees: an insertion into the heap is
  \<open>omap_insert\<close> on the entries, a removal \<open>omap_remove\<close>.
\<close>

definition heap_inv :: "nat \<Rightarrow> qheap \<Rightarrow> bool" where
  "heap_inv m h \<longleftrightarrow> (\<exists>xs. qmap h m xs) \<and> key_cmp h m = None"

definition heap_fresh :: "nat \<Rightarrow> nat \<Rightarrow> qheap \<Rightarrow> bool" where
  "heap_fresh m x h \<longleftrightarrow> (\<forall>xs. qmap h m xs \<longrightarrow> x \<notin> set xs)"

definition heap_get :: "nat \<Rightarrow> uint64 \<Rightarrow> qheap \<Rightarrow> nat option" where
  "heap_get m k h = (case cl_qmap_get m k h of Some (Item x) \<Rightarrow> Some x | _ \<Rightarrow> None)"

definition heap_ins :: "nat \<Rightarrow> uint64 \<Rightarrow> nat \<Rightarrow> qheap \<Rightarrow> qheap" where
  "heap_ins m k x h = (case cl_qmap_insert m k (Item x) h of Some (_, h') \<Rightarrow> h' | None \<Rightarrow> h)"

definition heap_del :: "nat \<Rightarrow> uint64 \<Rightarrow> qheap \<Rightarrow> qheap" where
  "heap_del m k h = (case cl_qmap_remove m k h of Some (_, h') \<Rightarrow> h' | None \<Rightarrow> h)"

lemma heap_get_abs: "qmap h m xs \<Longrightarrow> key_cmp h m = None \<Longrightarrow> heap_get m k h = qmap_abs h xs k"
  using get_correct [of h m xs k]
  by (auto simp: heap_get_def lookup_abs item_addr_def split: option.split)

lemma heap_ins_abs:
  assumes q: "qmap h m xs" and kc: "key_cmp h m = None" and x: "x \<notin> set xs"
  shows "\<exists>ys. qmap (heap_ins m k x h) m ys \<and> key_cmp (heap_ins m k x h) m = None \<and>
    qmap_abs (heap_ins m k x h) ys = (if k \<in> dom (qmap_abs h xs) then qmap_abs h xs
      else (qmap_abs h xs)(k \<mapsto> x))"
proof -
  have "qop_legal (QInsert k x) (qmap_abs h xs)"
    using x ran_abs qmap_sortedD [OF q] kc by simp
  from qop_refines [OF q kc this] show ?thesis by (fastforce simp: heap_ins_def)
qed

lemma heap_del_abs:
  assumes q: "qmap h m xs" and kc: "key_cmp h m = None"
  shows "\<exists>ys. qmap (heap_del m k h) m ys \<and> key_cmp (heap_del m k h) m = None \<and>
    qmap_abs (heap_del m k h) ys = (qmap_abs h xs)(k := None)"
  using qop_refines [OF q kc, of "QRemove k"] by (fastforce simp: heap_del_def)

interpretation heap: key_map "heap_inv m" "heap_fresh m" "heap_get m" "heap_ins m" "heap_del m" for m
proof unfold_locales
  fix h :: qheap and x :: nat and k j :: uint64
  assume i: "heap_inv m h"
  then obtain xs where q: "qmap h m xs" "key_cmp h m = None" by (auto simp: heap_inv_def)
  {
    assume "heap_fresh m x h"
    then have "x \<notin> set xs" using q by (simp add: heap_fresh_def)
    from heap_ins_abs [OF q this, of k] obtain ys where
      y: "qmap (heap_ins m k x h) m ys" "key_cmp (heap_ins m k x h) m = None"
      "qmap_abs (heap_ins m k x h) ys = (if k \<in> dom (qmap_abs h xs) then qmap_abs h xs
        else (qmap_abs h xs)(k \<mapsto> x))" by blast
    then show "heap_inv m (heap_ins m k x h)" by (auto simp: heap_inv_def)
    show "heap_get m j (heap_ins m k x h) =
        (if j = k \<and> heap_get m k h = None then Some x else heap_get m j h)"
      unfolding heap_get_abs [OF y(1,2)] heap_get_abs [OF q] y(3) by (auto simp: domIff)
  }
  from heap_del_abs [OF q, of k] obtain ys where
    y: "qmap (heap_del m k h) m ys" "key_cmp (heap_del m k h) m = None"
    "qmap_abs (heap_del m k h) ys = (qmap_abs h xs)(k := None)" by blast
  then show "heap_inv m (heap_del m k h)" by (auto simp: heap_inv_def)
  show "heap_get m j (heap_del m k h) = (if j = k then None else heap_get m j h)"
    unfolding heap_get_abs [OF y(1,2)] heap_get_abs [OF q] y(3) by auto
qed

subsection \<open>Entries\<close>

definition qmap_entries :: "qheap \<Rightarrow> nat list \<Rightarrow> nat omap" where
  "qmap_entries h xs = map (\<lambda>x. (key h (Item x), x)) xs"

lemma qmap_entries_ok: "qmap h m xs \<Longrightarrow> key_cmp h m = None \<Longrightarrow> omap_ok (qmap_entries h xs)"
  using qmap_sortedD [of h m xs] by (simp add: omap_ok_def qmap_entries_def qmap_sorted_def comp_def)

lemma qmap_entries_get: "omap_get k (qmap_entries h xs) = qmap_abs h xs k"
  by (induction xs) (auto simp: omap_get_def qmap_entries_def qmap_abs_def)

lemma omap_eqI:
  assumes "omap_ok a" "omap_ok b" "\<And>k. omap_get k a = omap_get k b"
  shows "a = b"
proof -
  have "set a = set b" using omap_entry [OF assms(1)] omap_entry [OF assms(2)] assms(3) by auto
  moreover have "sorted (map fst a)" "distinct (map fst a)" "sorted (map fst b)" "distinct (map fst b)"
    using assms(1,2) by (simp_all add: omap_ok_def strict_sorted_iff)
  ultimately show ?thesis
    by (intro map_sorted_distinct_set_unique [of fst a b]) (auto simp: distinct_map)
qed

fun entries_op :: "qop \<Rightarrow> nat omap \<Rightarrow> nat omap" where
  "entries_op (QInsert k x) es = omap_insert k x es"
| "entries_op (QRemove k) es = omap_remove k es"

lemma entries_op_ok: "omap_ok es \<Longrightarrow> omap_ok (entries_op p es)"
  by (cases p) (simp_all add: omap_insert_ok omap_remove_ok)

lemma entries_op_spec:
  "omap_ok es \<Longrightarrow> (\<lambda>k. omap_get k (entries_op p es)) = qop_spec p (\<lambda>k. omap_get k es)"
  by (cases p) (auto simp: omap_get_insert omap_get_remove fun_eq_iff domIff)

lemma entries_fold:
  "omap_ok es \<Longrightarrow> omap_ok (fold entries_op ps es) \<and>
     (\<lambda>k. omap_get k (fold entries_op ps es)) = fold qop_spec ps (\<lambda>k. omap_get k es)"
  by (induction ps arbitrary: es) (simp_all add: entries_op_ok entries_op_spec)

text \<open>
  The list that a walk along the map sees.  Every program of insertions and removals on
  a well formed map returns, and the entries met from \<^verbatim>\<open>cl_qmap_head\<close> along
  \<^verbatim>\<open>cl_qmap_next\<close> afterwards are the ones of the ordered list on which the same
  program has run.
\<close>

theorem qmap_walk_is_ordered_list:
  assumes "qmap h m xs" "key_cmp h m = None" "qlegal ps (qmap_abs h xs)"
  shows "\<exists>h' ys. qrun m ps h = Some h' \<and> qmap h' m ys \<and>
    cl_qmap_apply_func m (\<lambda>p es. es @ [(cl_qmap_key p h', p)]) [] h' =
      Some (map (\<lambda>(k, x). (k, Item x)) (fold entries_op ps (qmap_entries h xs)))"
proof -
  from qrun_refines [OF assms] obtain h' ys where
    r: "qrun m ps h = Some h'" "qmap h' m ys" "qmap_abs h' ys = fold qop_spec ps (qmap_abs h xs)"
    "key_cmp h' m = None" by blast
  have "qmap_entries h' ys = fold entries_op ps (qmap_entries h xs)"
    using entries_fold [OF qmap_entries_ok [OF assms(1,2)], of ps] r(3)
    by (intro omap_eqI qmap_entries_ok [OF r(2,4)]) (auto simp: qmap_entries_get fun_eq_iff)
  moreover have "fold (\<lambda>x es. es @ [(cl_qmap_key (Item x) h', Item x)]) ys zs =
      zs @ map (\<lambda>(k, x). (k, Item x)) (qmap_entries h' ys)" for zs
    by (induction ys arbitrary: zs) (simp_all add: qmap_entries_def cl_qmap_key_def)
  ultimately show ?thesis
    using r apply_func_correct [OF r(2), of "\<lambda>p es. es @ [(cl_qmap_key p h', p)]" "[]"] by auto
qed

theorem qmap_walk_is_ordered_list_witness:
  "\<exists>h' ys. qrun 0 [QInsert 9 1, QInsert 2 3, QRemove 5] one_item = Some h' \<and> qmap h' 0 ys \<and>
    cl_qmap_apply_func 0 (\<lambda>p es. es @ [(cl_qmap_key p h', p)]) [] h' =
      Some [(2, Item 3), (9, Item 1)]"
proof -
  have a: "qmap_abs one_item [7] = [5 \<mapsto> 7]" by (auto simp: qmap_abs_def one_item_facts)
  have l: "qlegal [QInsert 9 1, QInsert 2 3, QRemove 5] (qmap_abs one_item [7])"
    by (simp add: a ran_def)
  have e: "fold entries_op [QInsert 9 1, QInsert 2 3, QRemove 5] (qmap_entries one_item [7]) = [(2, 3), (9, 1)]"
    by (simp add: qmap_entries_def one_item_facts omap_remove_def)
  show ?thesis
    using qmap_walk_is_ordered_list [OF one_item_qmap one_item_facts(1) l] unfolding e by simp
qed

end
