(* ===== verification/BitVector.thy ===== *)
theory BitVector
  imports Prelude
begin

text \<open>
  The bit vector of \<^verbatim>\<open>IbAccess/Common/Public/ibitvector.c\<close> and
  \<^verbatim>\<open>ibitvector.h\<close>: a growable array of 32-bit words.  Sizes, capacities and
  indexes are 32-bit words and wrap as in C; the size computations that the code makes in
  \<^verbatim>\<open>uintn\<close> or \<^verbatim>\<open>size_t\<close> are made in 64 bits.  \<open>None\<close> as the
  array is the NULL pointer.  A read outside the array is \<open>None\<close> of the result, so a
  proof that a search returns shows that it stays inside its memory.
\<close>

unbundle bit_operations_syntax

record bit_vector =
  m_Size :: uint32
  m_GrowSize :: uint32
  m_MaxSize :: uint32
  m_Capacity :: uint32
  m_Pageable :: bool
  m_pBitArray :: "uint32 list option"

subsection \<open>Positions\<close>

definition BitVectorSubscript :: "uint32 \<Rightarrow> uint32" where
  "BitVectorSubscript i = i div 32"

definition BitVectorMaskShift :: "uint32 \<Rightarrow> uint32" where
  "BitVectorMaskShift i = i AND 31"

definition BitVectorMask :: "uint32 \<Rightarrow> uint32" where
  "BitVectorMask i = push_bit (unat (BitVectorMaskShift i)) 1"

text \<open>\<^verbatim>\<open>m_pBitArray[k]\<close>, absent outside the allocated words.\<close>

definition entry_at :: "uint32 list option \<Rightarrow> nat \<Rightarrow> uint32 option" where
  "entry_at arr k = (case arr of None \<Rightarrow> None | Some ws \<Rightarrow> if k < length ws then Some (ws ! k) else None)"

definition BitVectorGet :: "bit_vector \<Rightarrow> uint32 \<Rightarrow> uint8 option" where
  "BitVectorGet v Index =
     map_option (\<lambda>e. ucast (drop_bit (unat (BitVectorMaskShift Index)) (e AND BitVectorMask Index)))
       (entry_at (m_pBitArray v) (unat (BitVectorSubscript Index)))"

definition BitVectorGetCapacity :: "bit_vector \<Rightarrow> uint32" where
  "BitVectorGetCapacity v = m_Capacity v"

definition BitVectorGetSize :: "bit_vector \<Rightarrow> uint32" where
  "BitVectorGetSize v = m_Size v"

definition BitVectorGetMaxSize :: "bit_vector \<Rightarrow> uint32" where
  "BitVectorGetMaxSize v = m_MaxSize v"

subsection \<open>Rounding\<close>

definition ROUNDUPP2 :: "uint64 \<Rightarrow> uint64 \<Rightarrow> uint64" where
  "ROUNDUPP2 val align = (val + align - 1) AND NOT (align - 1)"

definition ROUNDUP :: "uint64 \<Rightarrow> uint64 \<Rightarrow> uint64" where
  "ROUNDUP val align = (val + align - 1) div align * align"

subsection \<open>Size and capacity\<close>

text \<open>
  \<open>alloc_ok\<close> is the outcome of \<^verbatim>\<open>MemoryAllocateAndClear\<close>; an operation
  makes at most one allocation.
\<close>

definition BitVectorInitState :: bit_vector where
  "BitVectorInitState =
     \<lparr>m_Size = 0, m_GrowSize = 0, m_MaxSize = 0, m_Capacity = 0, m_Pageable = False,
      m_pBitArray = None\<rparr>"

definition words_of :: "uint32 \<Rightarrow> nat" where
  "words_of capacity = unat ((ucast capacity + 32 :: uint64) div 32)"

definition BitVectorSetCapacity ::
  "bool \<Rightarrow> bit_vector \<Rightarrow> uint32 \<Rightarrow> fstatus \<times> bit_vector" where
  "BitVectorSetCapacity alloc_ok v NewCapacity =
     (let NewCapacity = (if NewCapacity > m_MaxSize v then m_MaxSize v else NewCapacity) in
      if NewCapacity \<le> m_Capacity v then (FSUCCESS, v)
      else if \<not> alloc_ok then (FINSUFFICIENT_MEMORY, v)
      else
        (let pNewBitArray = replicate (words_of NewCapacity) 0;
             pNewBitArray = (case m_pBitArray v of
               None \<Rightarrow> pNewBitArray
             | Some old \<Rightarrow> take (words_of (m_Capacity v)) old @
                             drop (words_of (m_Capacity v)) pNewBitArray)
         in (FSUCCESS, v\<lparr>m_pBitArray := Some pNewBitArray, m_Capacity := NewCapacity\<rparr>)))"

definition BitVectorSetSize :: "bool \<Rightarrow> bit_vector \<Rightarrow> uint32 \<Rightarrow> fstatus \<times> bit_vector" where
  "BitVectorSetSize alloc_ok v Size =
     (if Size = m_Size v then (FSUCCESS, v)
      else if Size > m_MaxSize v then (FINSUFFICIENT_RESOURCES, v)
      else
        (let (Status, v) =
               (if Size \<ge> m_Capacity v
                then BitVectorSetCapacity alloc_ok v
                       (ucast (ROUNDUP (ucast Size) (ucast (m_GrowSize v))))
                else (FSUCCESS, v))
         in if Status \<noteq> FSUCCESS then (Status, v) else (FSUCCESS, v\<lparr>m_Size := Size\<rparr>)))"

definition BitVectorSetMinSize :: "bool \<Rightarrow> bit_vector \<Rightarrow> uint32 \<Rightarrow> fstatus \<times> bit_vector" where
  "BitVectorSetMinSize alloc_ok v MinSize =
     (if MinSize > m_Size v then BitVectorSetSize alloc_ok v MinSize else (FSUCCESS, v))"

definition BitVectorInit ::
  "bool \<Rightarrow> uint32 \<Rightarrow> uint32 \<Rightarrow> uint32 \<Rightarrow> bool \<Rightarrow> fstatus \<times> bit_vector" where
  "BitVectorInit alloc_ok InitialSize GrowSize MaxSize IsPageable =
     (let v = BitVectorInitState\<lparr>m_GrowSize := ucast (ROUNDUPP2 (ucast GrowSize) 32),
                m_MaxSize := (if MaxSize = 0 then - 1 else MaxSize), m_Pageable := IsPageable\<rparr>
      in BitVectorSetSize alloc_ok v (min InitialSize (m_MaxSize v)))"

definition BitVectorDestroy :: "bit_vector \<Rightarrow> bit_vector" where
  "BitVectorDestroy v = v\<lparr>m_Capacity := 0, m_GrowSize := 0, m_Size := 0, m_pBitArray := None\<rparr>"

subsection \<open>Access\<close>

text \<open>\<open>Inl\<close> is an error status; \<open>None\<close> a read outside the array.\<close>

definition BitVectorAt :: "bit_vector \<Rightarrow> uint32 \<Rightarrow> (fstatus + uint8) option" where
  "BitVectorAt v Index =
     (if Index \<ge> m_Size v then Some (Inl FINVALID_PARAMETER)
      else map_option Inr (BitVectorGet v Index))"

definition write_bit :: "bit_vector \<Rightarrow> uint32 \<Rightarrow> uint8 \<Rightarrow> (fstatus \<times> bit_vector) option" where
  "write_bit v Index Value =
     (let k = unat (BitVectorSubscript Index) in
      case m_pBitArray v of
        None \<Rightarrow> None
      | Some ws \<Rightarrow>
          if k < length ws
          then Some (FSUCCESS, v\<lparr>m_pBitArray := Some (ws[k :=
                 if Value \<noteq> 0 then ws ! k OR BitVectorMask Index
                 else ws ! k AND NOT (BitVectorMask Index)])\<rparr>)
          else None)"

definition BitVectorSet ::
  "bool \<Rightarrow> bit_vector \<Rightarrow> uint32 \<Rightarrow> uint8 \<Rightarrow> (fstatus \<times> bit_vector) option" where
  "BitVectorSet alloc_ok v Index Value =
     (if Index \<ge> m_Size v then
        (let (Status, v) = BitVectorSetSize alloc_ok v (Index + 1) in
         if Status \<noteq> FSUCCESS \<and> m_Size v \<le> Index then Some (Status, v)
         else if m_Size v \<le> Index then Some (FINSUFFICIENT_MEMORY, v)
         else write_bit v Index Value)
      else write_bit v Index Value)"

subsection \<open>Iteration\<close>

text \<open>
  The callback is a state transformer; the loops run from \<^verbatim>\<open>StartIndex\<close> to the end
  of the range, cut at the size of the vector.
\<close>

function apply_loop ::
  "bit_vector \<Rightarrow> (uint32 \<Rightarrow> uint8 \<Rightarrow> 's \<Rightarrow> 's) \<Rightarrow> (uint8 \<Rightarrow> bool) \<Rightarrow> uint32 \<Rightarrow> uint32 \<Rightarrow> 's \<Rightarrow> 's option" where
  "apply_loop v pfnCallback selected i EndIndexP1 s =
     (if i < EndIndexP1 then
        (case BitVectorGet v i of
           None \<Rightarrow> None
         | Some Value \<Rightarrow> apply_loop v pfnCallback selected (i + 1) EndIndexP1
                           (if selected Value then pfnCallback i Value s else s))
      else Some s)"
  by pat_completeness auto
termination
  by (relation "measure (\<lambda>(v, f, g, i, e, s). unat e - unat i)")
    (auto simp: less_plus_one word_less_nat_alt)

definition BitVectorApplyFuncRange ::
  "bit_vector \<Rightarrow> (uint32 \<Rightarrow> uint8 \<Rightarrow> 's \<Rightarrow> 's) \<Rightarrow> uint32 \<Rightarrow> uint32 \<Rightarrow> 's \<Rightarrow> 's option" where
  "BitVectorApplyFuncRange v pfnCallback StartIndex EndIndexP1 s =
     (let EndIndexP1 = (if EndIndexP1 > m_Size v then m_Size v else EndIndexP1)
      in apply_loop v pfnCallback (\<lambda>_. True) StartIndex EndIndexP1 s)"

definition BitVectorApplyFunc ::
  "bit_vector \<Rightarrow> (uint32 \<Rightarrow> uint8 \<Rightarrow> 's \<Rightarrow> 's) \<Rightarrow> 's \<Rightarrow> 's option" where
  "BitVectorApplyFunc v pfnCallback s = BitVectorApplyFuncRange v pfnCallback 0 (m_Size v) s"

definition BitVectorApplyFuncSelectedRange ::
  "bit_vector \<Rightarrow> (uint32 \<Rightarrow> uint8 \<Rightarrow> 's \<Rightarrow> 's) \<Rightarrow> uint8 \<Rightarrow> uint32 \<Rightarrow> uint32 \<Rightarrow> 's \<Rightarrow> 's option" where
  "BitVectorApplyFuncSelectedRange v pfnCallback Value StartIndex EndIndexP1 s =
     (let EndIndexP1 = (if EndIndexP1 > m_Size v then m_Size v else EndIndexP1)
      in apply_loop v (\<lambda>i _. pfnCallback i Value) (\<lambda>Val. Value = Val) StartIndex EndIndexP1 s)"

definition BitVectorApplyFuncSelected ::
  "bit_vector \<Rightarrow> (uint32 \<Rightarrow> uint8 \<Rightarrow> 's \<Rightarrow> 's) \<Rightarrow> uint8 \<Rightarrow> 's \<Rightarrow> 's option" where
  "BitVectorApplyFuncSelected v pfnCallback Value s =
     BitVectorApplyFuncSelectedRange v pfnCallback Value 0 (m_Size v) s"

subsection \<open>Searching forward\<close>

function find_bit_loop :: "uint32 \<Rightarrow> bool \<Rightarrow> uint32 \<Rightarrow> uint32 \<Rightarrow> uint32" where
  "find_bit_loop entry value i EndIndexP1 =
     (if i < EndIndexP1 then
        (if (entry AND BitVectorMask i \<noteq> 0) = value then i
         else find_bit_loop entry value (i + 1) EndIndexP1)
      else i)"
  by pat_completeness auto
termination
  by (relation "measure (\<lambda>(w, b, i, e). unat e - unat i)") (auto simp: less_plus_one word_less_nat_alt)

text \<open>
  The outer loop; \<open>k\<close> is the index of \<^verbatim>\<open>pEntry\<close> in the array.  The index
  \<open>i\<close> is a 32-bit word, so the loop need not end.
\<close>

partial_function (option) find_entry_loop ::
  "uint32 list option \<Rightarrow> bool \<Rightarrow> uint32 \<Rightarrow> nat \<Rightarrow> uint32 \<Rightarrow> uint32 \<Rightarrow> uint32 \<Rightarrow> uint32 option" where
  "find_entry_loop arr value EndIndexP1 k i inc msk =
     (if i < EndIndexP1 then
        (case entry_at arr k of
           None \<Rightarrow> None
         | Some entry \<Rightarrow>
             if (if value then entry AND msk \<noteq> 0 else entry AND msk \<noteq> msk)
             then Some (find_bit_loop entry value i EndIndexP1)
             else find_entry_loop arr value EndIndexP1 (k + 1) (i + inc) 32 (- 1))
      else Some i)"

definition BitVectorFindRange :: "bit_vector \<Rightarrow> uint8 \<Rightarrow> uint32 \<Rightarrow> uint32 \<Rightarrow> uint32 option" where
  "BitVectorFindRange v Value StartIndex EndIndexP1 =
     (let i = StartIndex;
          EndIndexP1 = (if EndIndexP1 > m_Size v then m_Size v else EndIndexP1);
          inc = 32 - BitVectorMaskShift i;
          msk = push_bit (unat (BitVectorMaskShift i)) (- 1)
      in map_option (\<lambda>i. if i > EndIndexP1 then EndIndexP1 else i)
           (find_entry_loop (m_pBitArray v) (Value \<noteq> 0) EndIndexP1
              (unat (BitVectorSubscript i)) i inc msk))"

definition BitVectorFindFromStart :: "bit_vector \<Rightarrow> uint8 \<Rightarrow> uint32 option" where
  "BitVectorFindFromStart v Value = BitVectorFindRange v Value 0 (m_Size v)"

definition BitVectorFindFromIndex :: "bit_vector \<Rightarrow> uint8 \<Rightarrow> uint32 \<Rightarrow> uint32 option" where
  "BitVectorFindFromIndex v Value Index = BitVectorFindRange v Value Index (m_Size v)"

subsection \<open>Searching backward\<close>

text \<open>\<open>None\<close> of the inner loop is the jump to \<^verbatim>\<open>notfound\<close>.\<close>

function find_back_bit :: "uint32 \<Rightarrow> bool \<Rightarrow> uint32 \<Rightarrow> uint32 option" where
  "find_back_bit entry value i =
     (if i \<noteq> 0 then
        (if (entry AND BitVectorMask i \<noteq> 0) = value then Some i
         else find_back_bit entry value (i - 1))
      else None)"
  by pat_completeness auto
termination
  by (relation "measure (\<lambda>(w, b, i). unat i)") (auto simp: measure_unat)

text \<open>\<open>k\<close> is an integer: \<^verbatim>\<open>--pEntry\<close> may move the pointer before the array.\<close>

partial_function (option) find_back_loop ::
  "uint32 list option \<Rightarrow> bool \<Rightarrow> int \<Rightarrow> uint32 \<Rightarrow> uint32 option option" where
  "find_back_loop arr value k i =
     (if i \<noteq> 0 then
        (if k < 0 then None
         else case entry_at arr (nat k) of
             None \<Rightarrow> None
           | Some entry \<Rightarrow>
               if (if value then entry \<noteq> 0 else entry \<noteq> - 1)
               then Some (find_back_bit entry value i)
               else find_back_loop arr value (k - 1) (i - 32))
      else Some None)"

definition BitVectorFindFromEnd :: "bit_vector \<Rightarrow> uint8 \<Rightarrow> uint32 option" where
  "BitVectorFindFromEnd v Value =
     map_option (\<lambda>r. case r of None \<Rightarrow> m_Size v | Some i \<Rightarrow> i)
       (find_back_loop (m_pBitArray v) (Value \<noteq> 0) (uint (BitVectorSubscript (m_Size v))) (m_Size v))"

declare apply_loop.simps [simp del] find_bit_loop.simps [simp del] find_back_bit.simps [simp del]
declare find_entry_loop.simps [code] find_back_loop.simps [code]

end
