(* ===== verification/BitVector_Lemmas.thy ===== *)
theory BitVector_Lemmas
  imports BitVector
begin

text \<open>
  The invariant of a bit vector, its bits as a predicate on indexes, and what each operation
  does to both.
\<close>

declare push_bit_minus_one_eq_not_mask [simp del]

subsection \<open>Bits and words\<close>

lemma unat_subscript: "unat (BitVectorSubscript i) = unat i div 32"
  by (simp add: BitVectorSubscript_def unat_div)

lemma unat_mask_shift: "unat (BitVectorMaskShift i) = unat i mod 32"
proof -
  have "BitVectorMaskShift i = take_bit 5 i"
    by (simp add: BitVectorMaskShift_def take_bit_eq_mask mask_eq_exp_minus_1)
  then show ?thesis by (simp add: take_bit_eq_mod unat_mod)
qed

lemma and_mask_bit:
  fixes e :: "'a :: len word"
  shows "e AND push_bit n 1 = (if bit e n then push_bit n 1 else 0)"
  by (rule bit_word_eqI) (auto simp: bit_simps)

lemma and_BitVectorMask:
  "e AND BitVectorMask i = (if bit e (unat i mod 32) then BitVectorMask i else 0)"
  unfolding BitVectorMask_def unat_mask_shift by (rule and_mask_bit)

lemma BitVectorMask_nonzero [simp]: "BitVectorMask i \<noteq> 0"
proof -
  have "bit (BitVectorMask i) (unat i mod 32)"
    by (simp add: BitVectorMask_def unat_mask_shift bit_simps)
  then show ?thesis by auto
qed

lemma test_bit_BitVectorMask: "(e AND BitVectorMask i \<noteq> 0) = bit e (unat i mod 32)"
  by (simp add: and_BitVectorMask)

lemma drop_BitVectorMask:
  "drop_bit (unat (BitVectorMaskShift i)) (e AND BitVectorMask i) = of_bool (bit e (unat i mod 32))"
  unfolding and_BitVectorMask unfolding BitVectorMask_def unat_mask_shift
  by (rule bit_word_eqI) (auto simp: bit_simps)

lemma words_of: "words_of c = unat c div 32 + 1"
proof -
  have "unat (ucast c + 32 :: uint64) = unat c + 32"
    using unat_bound [of c] by (simp add: unat_word_ariths unat_ucast_mod)
  then show ?thesis by (simp add: words_of_def unat_div)
qed

subsection \<open>The invariant\<close>

definition bv_bit :: "bit_vector \<Rightarrow> nat \<Rightarrow> bool" where
  "bv_bit v j = (case entry_at (m_pBitArray v) (j div 32) of None \<Rightarrow> False | Some e \<Rightarrow> bit e (j mod 32))"

definition bv_ok :: "bit_vector \<Rightarrow> bool" where
  "bv_ok v \<longleftrightarrow>
     (case m_pBitArray v of None \<Rightarrow> m_Capacity v = 0 | Some ws \<Rightarrow> length ws = words_of (m_Capacity v)) \<and>
     m_Size v \<le> m_Capacity v \<and> m_Capacity v \<le> m_MaxSize v \<and> m_GrowSize v \<noteq> 0"

text \<open>Every index below the size (and the word at the size itself) is inside the array.\<close>

lemma entry_in_array:
  assumes "bv_ok v" "m_Size v \<noteq> 0" "j \<le> unat (m_Size v)"
  shows "\<exists>ws. m_pBitArray v = Some ws \<and> entry_at (m_pBitArray v) (j div 32) = Some (ws ! (j div 32)) \<and>
    j div 32 < length ws"
proof (cases "m_pBitArray v")
  case None
  then show ?thesis using assms(1,2) by (auto simp: bv_ok_def)
next
  case (Some ws)
  then have "length ws = unat (m_Capacity v) div 32 + 1" "unat (m_Size v) \<le> unat (m_Capacity v)"
    using assms(1) by (auto simp: bv_ok_def words_of word_le_nat_alt)
  then have "j div 32 < length ws" using assms(3) div_le_mono [of j "unat (m_Capacity v)" 32] by linarith
  with Some show ?thesis by (simp add: entry_at_def)
qed

lemma size_pos: "(i :: uint32) < n \<Longrightarrow> n \<noteq> 0 \<and> unat i \<le> unat n"
  by (auto simp: word_less_nat_alt)

lemma get_bit:
  assumes "bv_ok v" "i < m_Size v"
  shows "BitVectorGet v i = Some (of_bool (bv_bit v (unat i)))"
  using entry_in_array [OF assms(1), of "unat i"] size_pos [OF assms(2)]
  unfolding BitVectorGet_def drop_BitVectorMask by (auto simp: bv_bit_def unat_subscript)

subsection \<open>Growing\<close>

lemma set_capacity:
  assumes v: "bv_ok v"
  shows "case BitVectorSetCapacity alloc_ok v n of (st, v') \<Rightarrow>
    bv_ok v' \<and> (\<forall>j. bv_bit v' j = bv_bit v j) \<and> m_Size v' = m_Size v \<and> m_MaxSize v' = m_MaxSize v \<and>
    m_GrowSize v' = m_GrowSize v \<and>
    (st = FSUCCESS \<and> min n (m_MaxSize v) \<le> m_Capacity v' \<or>
     st = FINSUFFICIENT_MEMORY \<and> v' = v \<and> \<not> alloc_ok)"
proof -
  let ?n = "if n > m_MaxSize v then m_MaxSize v else n"
  have mn: "?n = min n (m_MaxSize v)" by (auto simp: min_def)
  show ?thesis
  proof (cases "?n \<le> m_Capacity v \<or> \<not> alloc_ok")
    case True
    then show ?thesis using v mn by (auto simp: BitVectorSetCapacity_def Let_def)
  next
    case False
    then have c: "m_Capacity v < ?n" "alloc_ok" by auto
    then have le: "words_of (m_Capacity v) \<le> words_of ?n"
      by (simp add: words_of word_less_nat_alt div_le_mono)
    define ws where "ws = (case m_pBitArray v of None \<Rightarrow> replicate (words_of ?n) 0
      | Some old \<Rightarrow> take (words_of (m_Capacity v)) old @
          drop (words_of (m_Capacity v)) (replicate (words_of ?n) 0))"
    have r: "BitVectorSetCapacity alloc_ok v n =
        (FSUCCESS, v\<lparr>m_pBitArray := Some ws, m_Capacity := ?n\<rparr>)"
      using c unfolding BitVectorSetCapacity_def Let_def ws_def by auto
    have "bv_ok (v\<lparr>m_pBitArray := Some ws, m_Capacity := ?n\<rparr>)"
      using v c le by (auto simp: bv_ok_def ws_def split: option.splits)
    moreover have "bv_bit (v\<lparr>m_pBitArray := Some ws, m_Capacity := ?n\<rparr>) j = bv_bit v j" for j
      using v le by (auto simp: bv_bit_def bv_ok_def ws_def entry_at_def nth_append split: option.splits)
    ultimately show ?thesis using mn by (simp add: r)
  qed
qed

lemma roundup:
  fixes s g :: uint32
  assumes g: "g \<noteq> 0" and b: "unat s + unat g \<le> 2 ^ 32"
  shows "s \<le> ucast (ROUNDUP (ucast s) (ucast g))"
proof -
  let ?r = "(unat s + unat g - 1) div unat g * unat g"
  have g': "0 < unat g" using g by (simp add: unat_gt_0)
  have r: "?r \<le> unat s + unat g - 1" by simp
  have ge: "unat s \<le> ?r"
  proof -
    have "unat s + unat g - 1 < ((unat s + unat g - 1) div unat g + 1) * unat g"
      using g' by (simp add: dividend_less_div_times)
    then show ?thesis using g' by simp
  qed
  have "unat (ucast s + ucast g - 1 :: uint64) = unat s + unat g - 1"
  proof -
    have "ucast s + ucast g - 1 = (of_nat (unat s + unat g - 1) :: uint64)"
      using g' by (simp add: of_nat_diff)
    then show ?thesis using b by (simp add: unat_of_nat)
  qed
  moreover have lt: "unat s + unat g - 1 < 2 ^ 64" using b by simp
  note le_less_trans [OF div_le_dividend lt] le_less_trans [OF r lt]
  ultimately have "unat (ROUNDUP (ucast s) (ucast g)) = ?r"
    using unat_bound [of g] by (simp add: ROUNDUP_def unat_word_ariths unat_div unat_ucast_mod)
  then have "unat (ucast (ROUNDUP (ucast s) (ucast g)) :: uint32) = ?r"
  proof -
    have "unat s + unat g - 1 < 2 ^ 32" using b g' by simp
    from le_less_trans [OF r this] show ?thesis
      using \<open>unat (ROUNDUP (ucast s) (ucast g)) = ?r\<close> by (simp add: unat_ucast_mod)
  qed
  then show ?thesis using ge by (simp add: word_le_nat_alt)
qed

lemma set_size:
  assumes v: "bv_ok v" and b: "unat n + unat (m_GrowSize v) \<le> 2 ^ 32"
  shows "case BitVectorSetSize alloc_ok v n of (st, v') \<Rightarrow>
    bv_ok v' \<and> (\<forall>j. bv_bit v' j = bv_bit v j) \<and> m_MaxSize v' = m_MaxSize v \<and>
    m_GrowSize v' = m_GrowSize v \<and>
    (st = FSUCCESS \<and> m_Size v' = n \<or> st = FINSUFFICIENT_RESOURCES \<and> v' = v \<and> n > m_MaxSize v \<or>
     st = FINSUFFICIENT_MEMORY \<and> v' = v \<and> \<not> alloc_ok)"
proof (cases "n = m_Size v \<or> n > m_MaxSize v")
  case True
  then show ?thesis using v by (auto simp: BitVectorSetSize_def)
next
  case False
  have size_upd: "bv_ok (u\<lparr>m_Size := n\<rparr>)" "bv_bit (u\<lparr>m_Size := n\<rparr>) = bv_bit u"
    if "bv_ok u" "n \<le> m_Capacity u" for u
    using that by (auto simp: bv_ok_def bv_bit_def fun_eq_iff split: option.splits)
  show ?thesis
  proof (cases "n \<ge> m_Capacity v")
    case True
    define c where "c = (ucast (ROUNDUP (ucast n) (ucast (m_GrowSize v))) :: uint32)"
    then have "n \<le> c" using roundup [of "m_GrowSize v" n] v b by (simp add: c_def bv_ok_def)
    moreover have "n \<le> m_MaxSize v" using False by (simp add: not_less)
    ultimately have nc: "n \<le> min c (m_MaxSize v)" by simp
    obtain st u where u: "BitVectorSetCapacity alloc_ok v c = (st, u)" by (cases "BitVectorSetCapacity alloc_ok v c")
    note sc = set_capacity [OF v, of c alloc_ok, unfolded u prod.case]
    have "n \<le> m_Capacity u" if "st = FSUCCESS" using sc that order_trans [OF nc, of "m_Capacity u"] by auto
    with sc size_upd [of u] show ?thesis using False True
      by (auto simp: BitVectorSetSize_def c_def [symmetric] u)
  next
    case F: False
    then show ?thesis using v False size_upd [of v] by (auto simp: BitVectorSetSize_def)
  qed
qed

subsection \<open>Writing a bit\<close>

lemma write_bit_word:
  "bit (if b then w OR BitVectorMask i else w AND NOT (BitVectorMask i)) n =
     (if n = unat i mod 32 then b else bit w n)"
  if "n < 32" for w :: uint32
  using that by (auto simp: BitVectorMask_def unat_mask_shift bit_simps)

lemma div_mod_eq: "(j :: nat) div 32 = i div 32 \<Longrightarrow> j mod 32 = i mod 32 \<Longrightarrow> j = i"
  by (metis div_mult_mod_eq)

lemma write_bit_spec:
  assumes v: "bv_ok v" and i: "i < m_Size v"
  shows "\<exists>v'. write_bit v i b = Some (FSUCCESS, v') \<and> bv_ok v' \<and> m_Size v' = m_Size v \<and>
    (\<forall>j. bv_bit v' j = (if j = unat i then b \<noteq> 0 else bv_bit v j))"
proof -
  let ?k = "unat i div 32"
  from entry_in_array [OF v, of "unat i"] size_pos [OF i] obtain ws where
    ws: "m_pBitArray v = Some ws" "?k < length ws" by blast
  let ?w = "if b \<noteq> 0 then ws ! ?k OR BitVectorMask i else ws ! ?k AND NOT (BitVectorMask i)"
  let ?v = "v\<lparr>m_pBitArray := Some (ws[?k := ?w])\<rparr>"
  have r: "write_bit v i b = Some (FSUCCESS, ?v)"
    using ws by (simp add: write_bit_def unat_subscript Let_def)
  have ok: "bv_ok ?v" using v ws by (simp add: bv_ok_def)
  have "bv_bit ?v j = (if j = unat i then b \<noteq> 0 else bv_bit v j)" for j
  proof (cases "j div 32 = ?k")
    case True
    have "bit ?w (j mod 32) = (if j mod 32 = unat i mod 32 then b \<noteq> 0 else bit (ws ! ?k) (j mod 32))"
      by (rule write_bit_word) simp
    then show ?thesis using True ws div_mod_eq [OF True] by (auto simp: bv_bit_def entry_at_def)
  next
    case False
    then show ?thesis using ws by (auto simp: bv_bit_def entry_at_def)
  qed
  with r ok show ?thesis by auto
qed

lemma set_bit_spec:
  assumes v: "bv_ok v" and b: "unat i + unat (m_GrowSize v) < 2 ^ 32"
  shows "\<exists>st v'. BitVectorSet alloc_ok v i b = Some (st, v') \<and> bv_ok v' \<and>
    (st = FSUCCESS \<and> m_Size v' = max (m_Size v) (i + 1) \<and>
       (\<forall>j. bv_bit v' j = (if j = unat i then b \<noteq> 0 else bv_bit v j)) \<or>
     st = FINSUFFICIENT_RESOURCES \<and> v' = v \<and> m_MaxSize v \<le> i \<or>
     st = FINSUFFICIENT_MEMORY \<and> v' = v \<and> \<not> alloc_ok)"
proof (cases "i < m_Size v")
  case True
  then have "i + 1 \<le> m_Size v"
    using less_plus_one [OF True] by (simp add: word_le_nat_alt word_less_nat_alt)
  then have "max (m_Size v) (i + 1) = m_Size v" by (rule max_absorb1)
  with write_bit_spec [OF v True, of b] True show ?thesis by (auto simp: BitVectorSet_def)
next
  case False
  have g: "0 < unat (m_GrowSize v)" using v by (simp add: bv_ok_def unat_gt_0)
  then have i1: "unat (i + 1) = unat i + 1" using b by (simp add: unat_word_ariths)
  obtain st u where u: "BitVectorSetSize alloc_ok v (i + 1) = (st, u)"
    by (cases "BitVectorSetSize alloc_ok v (i + 1)")
  note sz = set_size [OF v, of "i + 1" alloc_ok, unfolded u prod.case]
  have lt: "i < i + 1" using i1 by (simp add: word_less_nat_alt)
  have mx: "max (m_Size v) (i + 1) = i + 1"
    using False i1 by (auto simp: max_def word_le_nat_alt word_less_nat_alt)
  have r: "BitVectorSet alloc_ok v i b =
      (if st \<noteq> FSUCCESS \<and> m_Size u \<le> i then Some (st, u)
       else if m_Size u \<le> i then Some (FINSUFFICIENT_MEMORY, u) else write_bit u i b)"
    using False by (simp add: BitVectorSet_def u not_less)
  have bd: "unat (i + 1) + unat (m_GrowSize v) \<le> 2 ^ 32" using b i1 by simp
  consider (ok) "st = FSUCCESS" "m_Size u = i + 1" "bv_ok u" "\<forall>j. bv_bit u j = bv_bit v j"
    | (res) "st = FINSUFFICIENT_RESOURCES" "u = v" "i + 1 > m_MaxSize v"
    | (mem) "st = FINSUFFICIENT_MEMORY" "u = v" "\<not> alloc_ok"
    using sz bd by auto
  then show ?thesis
  proof cases
    case ok
    with write_bit_spec [of u i b] lt r mx show ?thesis by auto
  next
    case res
    then have "m_MaxSize v \<le> i" using i1 by (simp add: word_less_nat_alt word_le_nat_alt)
    with res r False v show ?thesis by (auto simp: not_less)
  next
    case mem
    with r False v show ?thesis by (auto simp: not_less)
  qed
qed

subsection \<open>Searching forward\<close>

text \<open>The first index of a range with a property, or the end of the range.\<close>

definition first_in :: "(nat \<Rightarrow> bool) \<Rightarrow> nat \<Rightarrow> nat \<Rightarrow> nat" where
  "first_in P s e = (case find P [s..<e] of None \<Rightarrow> e | Some j \<Rightarrow> j)"

lemma first_in_rec: "first_in P s e = (if s < e \<and> \<not> P s then first_in P (Suc s) e else if s < e then s else e)"
  by (simp add: first_in_def upt_conv_Cons)

lemma first_in_skip:
  assumes "\<And>j. s \<le> j \<Longrightarrow> j < w \<Longrightarrow> \<not> P j" "s \<le> w"
  shows "first_in P s e = first_in P w e"
  using assms
proof (induction "w - s" arbitrary: s)
  case 0
  then show ?case by simp
next
  case (Suc n)
  then have "first_in P (Suc s) e = first_in P w e" by simp
  moreover have "\<not> P s" using Suc by simp
  moreover have "first_in P w e = e" if "e \<le> s"
    using that Suc(2,4) by (subst first_in_rec) simp
  ultimately show ?case by (subst first_in_rec) auto
qed

lemma first_in_cong:
  assumes "\<And>j. s \<le> j \<Longrightarrow> j < w \<Longrightarrow> P j = Q j" "s \<le> j1" "j1 < w" "P j1"
  shows "first_in P s e = first_in Q s e"
  using assms
proof (induction "w - s" arbitrary: s)
  case (Suc n)
  have "first_in P (Suc s) e = first_in Q (Suc s) e" if "\<not> P s"
  proof -
    have "s \<noteq> j1" using that Suc.prems by auto
    with Suc show ?thesis by simp
  qed
  moreover have "P s = Q s" using Suc.prems by simp
  ultimately show ?case by (subst (1 2) first_in_rec) auto
qed simp

lemma find_bit_loop_first:
  "unat i \<le> unat e \<Longrightarrow>
     unat (find_bit_loop w b i e) = first_in (\<lambda>j. bit w (j mod 32) = b) (unat i) (unat e)"
proof (induction w b i e rule: find_bit_loop.induct)
  case (1 w b i e)
  show ?case
  proof (cases "i < e")
    case True
    then have "unat i < unat e" "unat (i + 1) = Suc (unat i)"
      by (simp_all add: word_less_nat_alt less_plus_one)
    with 1 True show ?thesis
      by (subst find_bit_loop.simps, subst first_in_rec) (auto simp: test_bit_BitVectorMask)
  next
    case False
    with 1(2) have "unat i = unat e" by (simp add: word_less_nat_alt)
    then show ?thesis by (subst find_bit_loop.simps, subst first_in_rec) (simp add: word_less_nat_alt)
  qed
qed

lemma bit_top_mask: "bit (push_bit n (- 1 :: uint32)) j \<longleftrightarrow> n \<le> j \<and> j < 32"
  by (auto simp: bit_simps)

lemma word_test:
  fixes w :: uint32
  assumes "n < 32"
  shows "(if b then w AND push_bit n (- 1) \<noteq> 0 else w AND push_bit n (- 1) \<noteq> push_bit n (- 1)) \<longleftrightarrow>
    (\<exists>j. n \<le> j \<and> j < 32 \<and> bit w j = b)"
proof (cases b)
  case True
  have "w AND push_bit n (- 1) \<noteq> 0 \<longleftrightarrow> (\<exists>j < 32. bit (w AND push_bit n (- 1)) j)"
    by (auto simp: bit_eq_iff)
  with True show ?thesis by (auto simp: bit_and_iff bit_top_mask)
next
  case False
  have "w AND push_bit n (- 1) \<noteq> push_bit n (- 1) \<longleftrightarrow>
      (\<exists>j < 32. bit (w AND push_bit n (- 1)) j \<noteq> bit (push_bit n (- 1 :: uint32)) j)"
    by (auto simp: bit_eq_iff)
  with False show ?thesis by (auto simp: bit_and_iff bit_top_mask)
qed

lemma same_word:
  fixes i j :: nat
  assumes "i \<le> j" "j < i div 32 * 32 + 32"
  shows "j div 32 = i div 32" "i mod 32 \<le> j mod 32"
proof -
  have "i div 32 * 32 \<le> i" by simp
  then show "j div 32 = i div 32" using assms by (intro div_nat_eqI) auto
  then show "i mod 32 \<le> j mod 32"
    using assms(1) div_mult_mod_eq [of i 32] div_mult_mod_eq [of j 32] by linarith
qed

lemma first_entry_test:
  assumes e: "entry_at (m_pBitArray v) (unat i div 32) = Some e"
    and j: "unat i \<le> j" "j < unat i div 32 * 32 + 32"
  shows "bv_bit v j = bit e (j mod 32)"
  using e same_word(1) [OF j] by (simp add: bv_bit_def)

lemma find_entry_loop_first:
  assumes v: "bv_ok v" and E: "E \<le> m_Size v" "unat E + 32 \<le> 2 ^ 32"
    and msk: "msk = push_bit (unat i mod 32) (- 1)" and inc: "inc = of_nat (32 - unat i mod 32)"
  shows "\<exists>r. find_entry_loop (m_pBitArray v) b E (unat i div 32) i inc msk = Some r \<and>
    min (unat r) (unat E) = first_in (\<lambda>j. bv_bit v j = b) (unat i) (unat E)"
  using msk inc
proof (induction "unat E - unat i" arbitrary: i inc msk rule: less_induct)
  case less
  let ?P = "\<lambda>j. bv_bit v j = b" and ?k = "unat i div 32"
  show ?case
  proof (cases "i < E")
    case False
    then have "unat E \<le> unat i" by (simp add: word_less_nat_alt)
    then show ?thesis using False
      by (subst find_entry_loop.simps, subst first_in_rec) simp
  next
    case True
    then have iE: "unat i < unat E" by (simp add: word_less_nat_alt)
    have Es: "unat E \<le> unat (m_Size v)" using E(1) by (simp add: word_le_nat_alt)
    have "m_Size v \<noteq> 0" "unat i \<le> unat (m_Size v)" using iE Es by auto
    from entry_in_array [OF v this] obtain e where e: "entry_at (m_pBitArray v) ?k = Some e" by auto
    note pe = first_entry_test [OF e]
    let ?W = "?k * 32 + 32"
    have km: "?k * 32 + unat i mod 32 = unat i" by simp
    have W: "unat i < ?W" "unat i + (32 - unat i mod 32) = ?W" by presburger+
    note test = word_test [of "unat i mod 32" b e, simplified, folded less.prems(1)]
    show ?thesis
    proof (cases "\<exists>j. unat i mod 32 \<le> j \<and> j < 32 \<and> bit e j = b")
      case hit: True
      then obtain j where j: "unat i mod 32 \<le> j" "j < 32" "bit e j = b" by blast
      have kj: "unat i \<le> ?k * 32 + j" using j(1) km by linarith
      have "first_in (\<lambda>j. bit e (j mod 32) = b) (unat i) (unat E) = first_in ?P (unat i) (unat E)"
        by (rule first_in_cong [of _ ?W _ _ "?k * 32 + j"]) (use pe j kj in auto)
      moreover have "first_in ?P (unat i) (unat E) \<le> unat E"
        by (auto simp: first_in_def find_Some_iff split: option.split)
      ultimately show ?thesis
        using hit test find_bit_loop_first [of i E e b] iE True e
        by (subst find_entry_loop.simps) auto
    next
      case miss: False
      have none: "\<not> ?P j" if "unat i \<le> j" "j < ?W" for j
      proof -
        have "j mod 32 < 32" by simp
        then show ?thesis using miss same_word(2) [OF that] pe [OF that] by blast
      qed
      have nw: "unat (i + inc) = ?W"
      proof -
        have "32 - unat i mod 32 < 2 ^ 32" by simp
        then have "unat inc = 32 - unat i mod 32" unfolding less.prems(2) unat_of_nat by simp
        moreover have "?k * 32 \<le> unat i" by simp
        then have "?W < 2 ^ 32" using iE E(2) by linarith
        ultimately show ?thesis using W by (simp add: unat_word_ariths)
      qed
      have "\<exists>r. find_entry_loop (m_pBitArray v) b E (unat (i + inc) div 32) (i + inc) 32 (- 1) = Some r \<and>
          min (unat r) (unat E) = first_in ?P (unat (i + inc)) (unat E)"
        by (rule less.hyps) (use nw W iE in auto)
      moreover have "unat (i + inc) div 32 = ?k + 1" using nw by simp
      moreover have "first_in ?P (unat i) (unat E) = first_in ?P (unat (i + inc)) (unat E)"
        unfolding nw by (rule first_in_skip) (use none W in auto)
      moreover have "find_entry_loop (m_pBitArray v) b E ?k i inc msk =
          find_entry_loop (m_pBitArray v) b E (?k + 1) (i + inc) 32 (- 1)"
      proof -
        have "\<not> (if b then e AND msk \<noteq> 0 else e AND msk \<noteq> msk)"
          using miss test by blast
        then show ?thesis
          unfolding find_entry_loop.simps [of "m_pBitArray v" b E ?k i inc msk]
          by (simp only: True e if_True if_False option.case)
      qed
      ultimately show ?thesis by metis
    qed
  qed
qed

lemma unat_inc: "32 - BitVectorMaskShift i = of_nat (32 - unat i mod 32)"
proof -
  have "of_nat (unat (BitVectorMaskShift i)) = BitVectorMaskShift i" by simp
  then show ?thesis unfolding unat_mask_shift by (simp add: of_nat_diff)
qed

lemma find_range_spec:
  assumes v: "bv_ok v" and sz: "unat (m_Size v) + 32 \<le> 2 ^ 32"
  shows "\<exists>r. BitVectorFindRange v Value s e = Some r \<and>
    unat r = first_in (\<lambda>j. bv_bit v j = (Value \<noteq> 0)) (unat s) (min (unat e) (unat (m_Size v)))"
proof -
  define E where "E = (if e > m_Size v then m_Size v else e)"
  have E: "E \<le> m_Size v" "unat E = min (unat e) (unat (m_Size v))"
    by (auto simp: E_def word_le_nat_alt word_less_nat_alt)
  have "unat E + 32 \<le> 2 ^ 32" using E(2) sz by simp
  from find_entry_loop_first [OF v E(1) this refl refl, of "Value \<noteq> 0" s] obtain r where
    r: "find_entry_loop (m_pBitArray v) (Value \<noteq> 0) E (unat s div 32) s (of_nat (32 - unat s mod 32))
          (push_bit (unat s mod 32) (- 1)) = Some r"
    "min (unat r) (unat E) = first_in (\<lambda>j. bv_bit v j = (Value \<noteq> 0)) (unat s) (unat E)" by auto
  have "BitVectorFindRange v Value s e = Some (if r > E then E else r)"
    unfolding BitVectorFindRange_def Let_def E_def [symmetric] unat_subscript unat_mask_shift unat_inc r(1)
    by simp
  moreover have "unat (if r > E then E else r) = min (unat r) (unat E)"
    by (auto simp: word_less_nat_alt)
  ultimately show ?thesis using r(2) E(2) by simp
qed

end
