(* ===== verification/BitVector_Props.thy ===== *)
theory BitVector_Props
  imports BitVector_Lemmas
begin

text \<open>
  Properties of the bit vector: initialisation, growth, writes and forward search do what
  their comments say, within the bounds on sizes that 32-bit arithmetic needs; the
  concrete theorems at the end show where the code leaves its comments.
\<close>

subsection \<open>Iteration\<close>

lemma apply_loop_fold:
  assumes v: "bv_ok v" and e: "e \<le> m_Size v" and i: "unat i \<le> unat e"
  shows "apply_loop v f sel i e s =
    Some (fold (\<lambda>j s. if sel (of_bool (bv_bit v j)) then f (of_nat j) (of_bool (bv_bit v j)) s else s)
      [unat i..<unat e] s)"
  using i
proof (induction "unat e - unat i" arbitrary: i s)
  case 0
  then have "\<not> i < e" by (simp add: word_less_nat_alt)
  with 0 show ?case by (subst apply_loop.simps) simp
next
  case (Suc n)
  then have lt: "i < e" by (simp add: word_less_nat_alt)
  then have u: "unat (i + 1) = Suc (unat i)" by (rule less_plus_one)
  have "i < m_Size v" using lt e by simp
  from get_bit [OF v this] Suc(1) [of "i + 1"] Suc(2,3) u show ?case
    by (subst apply_loop.simps) (simp add: lt upt_conv_Cons)
qed

lemma apply_range:
  assumes "bv_ok v"
  shows "BitVectorApplyFuncRange v f s e z =
    Some (fold (\<lambda>j. f (of_nat j) (of_bool (bv_bit v j))) [unat s..<min (unat e) (unat (m_Size v))] z)"
proof -
  define E where "E = (if e > m_Size v then m_Size v else e)"
  have E: "E \<le> m_Size v" "unat E = min (unat e) (unat (m_Size v))"
    by (auto simp: E_def word_le_nat_alt word_less_nat_alt)
  show ?thesis
  proof (cases "unat s \<le> unat E")
    case True
    then show ?thesis
      unfolding BitVectorApplyFuncRange_def Let_def E_def [symmetric]
      using apply_loop_fold [OF assms E(1) True, of f "\<lambda>_. True" z] E(2) by simp
  next
    case False
    then have "unat E \<le> unat s" by simp
    then have n: "\<not> s < E" "[unat s..<min (unat e) (unat (m_Size v))] = []"
      by (simp_all add: word_less_nat_alt E(2) [symmetric])
    show ?thesis
      unfolding BitVectorApplyFuncRange_def Let_def E_def [symmetric] n(2)
      by (subst apply_loop.simps) (simp add: n(1))
  qed
qed

subsection \<open>Properties\<close>

text \<open>A vector of ten bits with bit 4 set, for the witnesses.\<close>

definition ten_bits :: bit_vector where
  "ten_bits = \<lparr>m_Size = 10, m_GrowSize = 32, m_MaxSize = 100, m_Capacity = 32, m_Pageable = False,
     m_pBitArray = Some [16, 0]\<rparr>"

lemma ten_bits_ok: "bv_ok ten_bits"
  by (simp add: bv_ok_def ten_bits_def words_of)

text \<open>
  C10.  \<^verbatim>\<open>BitVectorSet\<close> on a well formed vector, for an index whose rounded
  capacity fits 32 bits: either the vector has grown to hold the index, exactly that bit has
  the value and no other bit of the vector has changed, or the vector is unchanged and the
  status says why (the index is beyond the maximum size, or the allocation failed).
\<close>

theorem bitvector_set_writes_one_bit:
  assumes "bv_ok v" "unat i + unat (m_GrowSize v) < 2 ^ 32"
  shows "\<exists>st v'. BitVectorSet alloc_ok v i b = Some (st, v') \<and> bv_ok v' \<and>
    (st = FSUCCESS \<and> m_Size v' = max (m_Size v) (i + 1) \<and>
       (\<forall>j. bv_bit v' j = (if j = unat i then b \<noteq> 0 else bv_bit v j)) \<or>
     st = FINSUFFICIENT_RESOURCES \<and> v' = v \<and> m_MaxSize v \<le> i \<or>
     st = FINSUFFICIENT_MEMORY \<and> v' = v \<and> \<not> alloc_ok)"
  by (rule set_bit_spec [OF assms])

theorem bitvector_set_writes_one_bit_witness:
  "\<exists>st v'. BitVectorSet True ten_bits 40 1 = Some (st, v') \<and> bv_ok v' \<and>
    (st = FSUCCESS \<and> m_Size v' = 41 \<and>
       (\<forall>j. bv_bit v' j = (if j = 40 then (1 :: uint8) \<noteq> 0 else bv_bit ten_bits j)) \<or>
     st = FINSUFFICIENT_RESOURCES \<and> v' = ten_bits \<and> m_MaxSize ten_bits \<le> 40 \<or>
     st = FINSUFFICIENT_MEMORY \<and> v' = ten_bits \<and> \<not> True)"
  using bitvector_set_writes_one_bit [OF ten_bits_ok, of 40 True 1] unfolding ten_bits_def
  by simp

text \<open>
  C11.  \<^verbatim>\<open>BitVectorFindRange\<close> on a well formed vector of at most
  \<open>2 ^ 32 - 32\<close> bits returns, reads no word outside the array although it tests 32 bits at a
  time, and finds the first bit of the range that has the value, or the end of the range cut
  at the size.
\<close>

theorem bitvector_find_range_first:
  assumes "bv_ok v" "unat (m_Size v) + 32 \<le> 2 ^ 32"
  shows "\<exists>r. BitVectorFindRange v Value s e = Some r \<and>
    unat r = first_in (\<lambda>j. bv_bit v j = (Value \<noteq> 0)) (unat s) (min (unat e) (unat (m_Size v)))"
  by (rule find_range_spec [OF assms])

theorem bitvector_find_range_first_witness:
  "\<exists>r. BitVectorFindRange ten_bits 1 2 9 = Some r \<and>
    unat r = first_in (\<lambda>j. bv_bit ten_bits j = ((1 :: uint8) \<noteq> 0)) 2 9"
  using bitvector_find_range_first [OF ten_bits_ok, of 1 2 9] by (simp add: ten_bits_def)

text \<open>
  \<^verbatim>\<open>BitVectorSetSize\<close> keeps the vector well formed and every bit that is
  inside both the old and the new vector; it fails only beyond the maximum size or when the
  allocation does, and then changes nothing.
\<close>

theorem bitvector_set_size_keeps_bits:
  assumes "bv_ok v" "unat n + unat (m_GrowSize v) \<le> 2 ^ 32"
  shows "case BitVectorSetSize alloc_ok v n of (st, v') \<Rightarrow>
    bv_ok v' \<and> (\<forall>j. bv_bit v' j = bv_bit v j) \<and> m_MaxSize v' = m_MaxSize v \<and>
    m_GrowSize v' = m_GrowSize v \<and>
    (st = FSUCCESS \<and> m_Size v' = n \<or> st = FINSUFFICIENT_RESOURCES \<and> v' = v \<and> n > m_MaxSize v \<or>
     st = FINSUFFICIENT_MEMORY \<and> v' = v \<and> \<not> alloc_ok)"
  by (rule set_size [OF assms])

theorem bitvector_set_size_keeps_bits_witness:
  "case BitVectorSetSize False ten_bits 90 of (st, v') \<Rightarrow>
    bv_ok v' \<and> (\<forall>j. bv_bit v' j = bv_bit ten_bits j) \<and> m_MaxSize v' = 100 \<and> m_GrowSize v' = 32 \<and>
    (st = FSUCCESS \<and> m_Size v' = 90 \<or> st = FINSUFFICIENT_RESOURCES \<and> v' = ten_bits \<and> 90 > (100 :: uint32) \<or>
     st = FINSUFFICIENT_MEMORY \<and> v' = ten_bits \<and> \<not> False)"
  using bitvector_set_size_keeps_bits [OF ten_bits_ok, of 90 False] by (simp add: ten_bits_def)

text \<open>
  \<^verbatim>\<open>BitVectorApplyFuncRange\<close> ends and calls the callback once for every
  index of the range that is inside the vector, in order, with the value of the bit.
\<close>

theorem bitvector_apply_range_folds:
  assumes "bv_ok v"
  shows "BitVectorApplyFuncRange v f s e z =
    Some (fold (\<lambda>j. f (of_nat j) (of_bool (bv_bit v j))) [unat s..<min (unat e) (unat (m_Size v))] z)"
  by (rule apply_range [OF assms])

theorem bitvector_apply_range_folds_witness:
  "BitVectorApplyFuncRange ten_bits (\<lambda>_ b n. n + unat b) 0 50 0 =
     Some (fold (\<lambda>j n. n + unat (of_bool (bv_bit ten_bits j) :: uint8)) [0..<10] 0)"
  using bitvector_apply_range_folds [OF ten_bits_ok, of "\<lambda>_ b n. n + unat b" 0 50 0]
  by (simp add: ten_bits_def)

text \<open>
  \<^verbatim>\<open>BitVectorFindFromEnd\<close> does not do what its comment says.  With five
  bits of which only bit 0 is set it answers that no bit is set; with five clear bits it
  looks for a set bit in the word before the array (a read outside it); and with 32 bits, all
  set, it answers that no bit is set, because it tests the word after them only.
\<close>

theorem bitvector_find_from_end_misses:
  "BitVectorFindFromEnd (ten_bits\<lparr>m_Size := 5, m_pBitArray := Some [1, 0]\<rparr>) 1 = Some 5 \<and>
   BitVectorFindFromEnd (ten_bits\<lparr>m_Size := 5, m_pBitArray := Some [0, 0]\<rparr>) 1 = None \<and>
   BitVectorFindFromEnd (ten_bits\<lparr>m_Size := 32, m_pBitArray := Some [- 1, 0]\<rparr>) 1 = Some 32"
  by code_simp

text \<open>
  Near the end of the 32-bit range the rounded capacity wraps to 0: a vector without
  a maximum size accepts the size \<open>2 ^ 32 - 1\<close> without allocating a word.
\<close>

theorem bitvector_size_wraps:
  "case BitVectorSetSize alloc_ok (snd (BitVectorInit alloc_ok 0 32 0 False)) (- 1) of
     (st, v) \<Rightarrow> st = FSUCCESS \<and> m_Size v = - 1 \<and> m_Capacity v = 0 \<and> m_pBitArray v = None"
  by (cases alloc_ok) code_simp+

end
