(* ===== verification/PortNumGen_Parse.thy ===== *)
theory PortNumGen_Parse
  imports PortNumGen
begin

text \<open>
  The parser of port names against a declarative reading: the segments are the maximal runs
  of digits and of letters, numbered from 1, with the decimal value of the runs of digits.
\<close>

subsection \<open>The reading of a name\<close>

definition char_class :: "char \<Rightarrow> nat" where
  "char_class c = (if isdigit c then 1 else if isalpha c then 2 else 0)"

fun pieces :: "string \<Rightarrow> string list" where
  "pieces [] = []"
| "pieces (c # cs) =
     (if char_class c = 0 then pieces cs
      else case pieces cs of
          [] \<Rightarrow> [[c]]
        | p # ps \<Rightarrow> if cs \<noteq> [] \<and> char_class (hd cs) = char_class c then (c # p) # ps else [c] # p # ps)"

definition piece_value :: "string \<Rightarrow> int" where
  "piece_value p = (if isdigit (hd p) then foldl (\<lambda>v c. v * 10 + digit_value c) 0 p else -1)"

definition piece_seg :: "nat \<Rightarrow> string \<Rightarrow> pn_seg" where
  "piece_seg i p = \<lparr>seg_key = cal_str_key (int i) p None, seg_num = piece_value p\<rparr>"

text \<open>No two separators in a row.\<close>

fun single_seps :: "string \<Rightarrow> bool" where
  "single_seps (c # d # cs) \<longleftrightarrow> \<not> (char_class c = 0 \<and> char_class d = 0) \<and> single_seps (d # cs)"
| "single_seps cs \<longleftrightarrow> True"

fun put_pieces :: "nat \<Rightarrow> string list \<Rightarrow> pn_seg list \<Rightarrow> pn_seg list" where
  "put_pieces n [] ss = ss"
| "put_pieces n (p # ps) ss = put_pieces (n + 1) ps (ss[n := piece_seg (n + 1) p])"

lemma digit_not_alpha: "isdigit c \<Longrightarrow> \<not> isalpha c"
  unfolding isdigit_def isalpha_def by linarith

lemma class_simps [simp]:
  "isdigit c \<longleftrightarrow> char_class c = 1"
  "isalpha c \<longleftrightarrow> char_class c = 2"
  using digit_not_alpha [of c] by (auto simp: char_class_def)

lemma class_cases: "char_class c = 0 \<or> char_class c = 1 \<or> char_class c = 2"
  unfolding char_class_def by simp

lemma digit_value_nonneg: "char_class c = 1 \<Longrightarrow> 0 \<le> digit_value c"
  unfolding class_simps [symmetric] isdigit_def digit_value_def
  using of_nat_mono [of 48 "of_char c"] by (simp only: of_nat_of_char of_nat_numeral)  (simp add: of_char_def)

subsection \<open>Runs\<close>

definition run_of :: "nat \<Rightarrow> string \<Rightarrow> bool" where
  "run_of k r \<longleftrightarrow> k \<noteq> 0 \<and> r \<noteq> [] \<and> (\<forall>c \<in> set r. char_class c = k)"

lemma pieces_run:
  "run_of k r \<Longrightarrow> cs = [] \<or> char_class (hd cs) \<noteq> k \<Longrightarrow> pieces (r @ cs) = r # pieces cs"
proof (induction r)
  case (Cons c r)
  show ?case
  proof (cases "r = []")
    case True
    with Cons.prems show ?thesis by (auto simp: run_of_def split: list.splits)
  next
    case False
    with Cons.prems have "run_of k r" by (auto simp: run_of_def)
    from Cons.IH [OF this Cons.prems(2)] Cons.prems False show ?thesis
      by (auto simp: run_of_def hd_append)
  qed
qed (simp add: run_of_def)

lemma pieces_run_prefix:
  assumes "run_of k r"
  shows "\<exists>t ps. run_of k (r @ t) \<and> pieces (r @ cs) = (r @ t) # ps"
proof -
  let ?t = "takeWhile (\<lambda>c. char_class c = k) cs" and ?d = "dropWhile (\<lambda>c. char_class c = k) cs"
  have t: "run_of k (r @ ?t)" using assms by (auto simp: run_of_def dest: set_takeWhileD)
  have "?d = [] \<or> char_class (hd ?d) \<noteq> k" using hd_dropWhile by blast
  from pieces_run [OF t this] t show ?thesis by fastforce
qed

lemma run_ofD: "run_of k (c # cs) \<Longrightarrow> char_class c = k"
  by (simp add: run_of_def)

lemma foldl_digits_mono:
  "\<forall>c \<in> set t. char_class c = 1 \<Longrightarrow> 0 \<le> a \<Longrightarrow> a \<le> foldl (\<lambda>v c. v * 10 + digit_value c) a t"
proof (induction t arbitrary: a)
  case (Cons c t)
  have "0 \<le> digit_value c" using Cons.prems(1) by (intro digit_value_nonneg) simp
  then have le: "a \<le> a * 10 + digit_value c" using Cons.prems(2) by simp
  then have "a * 10 + digit_value c \<le> foldl (\<lambda>v c. v * 10 + digit_value c) (a * 10 + digit_value c) t"
    using Cons.prems by (intro Cons.IH) auto
  with le show ?case by simp
qed simp

lemma piece_value_prefix:
  assumes "run_of 1 (r @ t)" "r \<noteq> []"
  shows "0 \<le> piece_value r \<and> piece_value r \<le> piece_value (r @ t)"
proof -
  let ?f = "foldl (\<lambda>v c. v * 10 + digit_value c)"
  have h: "isdigit (hd r)" "hd (r @ t) = hd r" using assms by (auto simp: run_of_def)
  have "0 \<le> ?f 0 r" "?f 0 r \<le> ?f (?f 0 r) t"
    using foldl_digits_mono [of r 0] foldl_digits_mono [of t "?f 0 r"] assms
    by (auto simp: run_of_def)
  with h show ?thesis by (simp add: piece_value_def)
qed

lemma piece_value_snoc:
  "run_of k r \<Longrightarrow> char_class c = k \<Longrightarrow>
     piece_value (r @ [c]) = (if k = 1 then piece_value r * 10 + digit_value c else -1)"
  by (cases r) (auto simp: piece_value_def run_of_def)

lemma piece_value_single: "run_of k [c] \<Longrightarrow> piece_value [c] = (if k = 1 then digit_value c else -1)"
  by (auto simp: piece_value_def run_of_def)

subsection \<open>The loop\<close>

definition parse_result ::
  "(parse_state + parse_state) option \<Rightarrow> bool \<Rightarrow> nat \<Rightarrow> string list \<Rightarrow> pn_seg list \<Rightarrow> bool" where
  "parse_result r d n ps ss \<longleftrightarrow>
     (if n + length ps > MAX_SEGS then \<exists>s. r = Some (Inl s)
      else \<exists>s s'. r = Some (Inr s) \<and> ps_has_num s = d \<and>
        (if ps_state s = 2 then close_segment [] s else Some s) = Some s' \<and>
        ps_segments s' = put_pieces n ps ss \<and> ps_index s' = n + length ps)"

definition values_ok :: "string list \<Rightarrow> bool" where
  "values_ok ps \<longleftrightarrow> (\<forall>p \<in> set ps. piece_value p < 2 ^ 31)"

definition has_digit :: "string \<Rightarrow> bool" where
  "has_digit cs \<longleftrightarrow> (\<exists>c \<in> set cs. isdigit c)"

text \<open>Inside the run \<open>r\<close>, and between two runs.\<close>

definition in_run :: "nat \<Rightarrow> string \<Rightarrow> string \<Rightarrow> parse_state \<Rightarrow> bool" where
  "in_run k r cs s \<longleftrightarrow> run_of k r \<and> ps_state s = 2 \<and> ps_seg_start s = r @ cs \<and> ps_is_num s = (k = 1) \<and>
     ps_value s = piece_value r \<and> \<not> ps_to_close_seg s \<and> ps_index s < MAX_SEGS \<and>
     (k = 1 \<longrightarrow> ps_has_num s)"

definition between :: "string \<Rightarrow> parse_state \<Rightarrow> bool" where
  "between cs s \<longleftrightarrow> (ps_state s = 0 \<or> ps_state s = 3 \<and> (cs = [] \<or> char_class (hd cs) \<noteq> 0)) \<and>
     \<not> ps_to_close_seg s \<and> ps_index s \<le> MAX_SEGS"

lemma close_at:
  assumes "in_run k r p s"
  shows "close_segment p s = Some (s\<lparr>ps_segments := (ps_segments s)[ps_index s := piece_seg (ps_index s + 1) r],
     ps_to_close_seg := False, ps_index := ps_index s + 1\<rparr>)"
  using assms by (simp add: in_run_def close_segment_def piece_seg_def cal_str_key_def)

lemma parse_result_close:
  "parse_result r d (n + 1) ps (ss[n := piece_seg (n + 1) p]) \<Longrightarrow> parse_result r d n (p # ps) ss"
  unfolding parse_result_def put_pieces.simps length_Cons Suc_eq_plus1 by (simp only: ac_simps)

lemma in_run_same:
  assumes "in_run k r (c # cs) s" "char_class c = k" "values_ok (pieces (r @ c # cs))"
  shows "\<exists>s'. parse_loop (c # cs) s = parse_loop cs s' \<and> in_run k (r @ [c]) cs s' \<and>
    ps_has_num s' = ps_has_num s \<and> ps_segments s' = ps_segments s \<and> ps_index s' = ps_index s"
proof -
  have r: "run_of k (r @ [c])" "run_of k r" using assms(1,2) by (auto simp: in_run_def run_of_def)
  obtain t ps where t: "run_of k ((r @ [c]) @ t)" "pieces ((r @ [c]) @ cs) = ((r @ [c]) @ t) # ps"
    using pieces_run_prefix [OF r(1), of cs] by blast
  show ?thesis
  proof (cases "k = 1")
    case True
    have "piece_value (r @ [c]) \<le> piece_value ((r @ [c]) @ t)"
      using piece_value_prefix [of "r @ [c]" t] t(1) True by simp
    also have "\<dots> < 2 ^ 31" using t(2) assms(3) by (simp add: values_ok_def)
    finally have "ps_value s * 10 + digit_value c < 2 ^ 31"
      using piece_value_snoc [OF r(2) assms(2)] True assms(1) by (simp add: in_run_def)
    then show ?thesis using assms(1,2) r True piece_value_snoc [OF r(2) assms(2)]
      by (intro exI [of _ "s\<lparr>ps_value := piece_value (r @ [c])\<rparr>"]) (simp add: in_run_def parse_classify_def Let_def)
  next
    case False
    then have "k = 2" using r(2) class_cases [of c] assms(2) by (auto simp: run_of_def)
    have "piece_value r = -1" using r(2) False by (auto simp: piece_value_def run_of_def)
    with \<open>k = 2\<close> show ?thesis using assms(1,2) r piece_value_snoc [OF r(2) assms(2)]
      by (intro exI [of _ s]) (simp add: in_run_def parse_classify_def)
  qed
qed

lemma in_run_other:
  assumes "in_run k r (c # cs) s" "char_class c \<noteq> k" "char_class c \<noteq> 0"
  shows "if ps_index s + 1 = MAX_SEGS then \<exists>s'. parse_loop (c # cs) s = Some (Inl s')
    else \<exists>s'. parse_loop (c # cs) s = parse_loop cs s' \<and> in_run (char_class c) [c] cs s' \<and>
      ps_has_num s' = (ps_has_num s \<or> isdigit c) \<and> ps_index s' = ps_index s + 1 \<and>
      ps_segments s' = (ps_segments s)[ps_index s := piece_seg (ps_index s + 1) r]"
proof -
  let ?t = "s\<lparr>ps_is_num := (char_class c = 1), ps_has_num := (ps_has_num s \<or> char_class c = 1),
    ps_to_close_seg := True, ps_state := 1\<rparr>"
  let ?u = "?t\<lparr>ps_segments := (ps_segments s)[ps_index s := piece_seg (ps_index s + 1) r],
    ps_to_close_seg := False, ps_index := ps_index s + 1\<rparr>"
  let ?v = "?u\<lparr>ps_seg_start := c # cs,
      ps_value := (if char_class c = 1 then digit_value c else -1), ps_state := 2\<rparr>"
  have r: "run_of (char_class c) [c]" using assms(3) by (simp add: run_of_def)
  have st: "ps_state s = 2" "ps_is_num s \<noteq> (char_class c = 1)"
    using assms class_cases [of c] class_cases [of "hd r"]
    by (auto simp: in_run_def run_of_def dest!: bspec [of _ _ "hd r"])
  have "parse_classify c s = Some ?t"
  proof (cases "char_class c = 1")
    case True
    with st show ?thesis by (simp add: parse_classify_def)
  next
    case False
    with st class_cases [of c] assms(3) show ?thesis by (simp add: parse_classify_def)
  qed
  moreover have "close_segment (c # cs) ?t = Some ?u"
    using assms(1) by (simp add: in_run_def close_segment_def piece_seg_def cal_str_key_def)
  ultimately have "parse_loop (c # cs) s = (if ps_index s + 1 = MAX_SEGS then Some (Inl ?u)
    else parse_loop cs ?v)"
    by simp
  moreover have "in_run (char_class c) [c] cs ?v" if "ps_index s + 1 \<noteq> MAX_SEGS"
    using assms(1) r that piece_value_single [OF r] by (simp add: in_run_def)
  ultimately show ?thesis
    by (cases "ps_index s + 1 = MAX_SEGS") (simp, simp only: if_False, intro exI [of _ ?v], simp)
qed

lemma in_run_sep:
  assumes "in_run k r (c # cs) s" "char_class c = 0" "cs = [] \<or> char_class (hd cs) \<noteq> 0"
  shows "\<exists>s'. parse_loop (c # cs) s = parse_loop cs s' \<and> between cs s' \<and>
      ps_has_num s' = ps_has_num s \<and> ps_index s' = ps_index s + 1 \<and>
      ps_segments s' = (ps_segments s)[ps_index s := piece_seg (ps_index s + 1) r]"
proof -
  let ?t = "s\<lparr>ps_state := 3\<rparr>"
  let ?u = "?t\<lparr>ps_segments := (ps_segments s)[ps_index s := piece_seg (ps_index s + 1) r],
    ps_to_close_seg := False, ps_index := ps_index s + 1\<rparr>"
  have "parse_classify c s = Some ?t"
    using assms by (auto simp: in_run_def parse_classify_def)
  moreover have "close_segment (c # cs) ?t = Some ?u"
    using assms(1) by (simp add: in_run_def close_segment_def piece_seg_def cal_str_key_def)
  ultimately have "parse_loop (c # cs) s = parse_loop cs ?u" by simp
  then show ?thesis using assms(1,3) by (intro exI [of _ ?u]) (simp add: between_def in_run_def)
qed

lemma between_char:
  assumes "between (c # cs) s" "char_class c \<noteq> 0"
  shows "if ps_index s = MAX_SEGS then \<exists>s'. parse_loop (c # cs) s = Some (Inl s')
    else \<exists>s'. parse_loop (c # cs) s = parse_loop cs s' \<and> in_run (char_class c) [c] cs s' \<and>
      ps_has_num s' = (ps_has_num s \<or> isdigit c) \<and> ps_index s' = ps_index s \<and> ps_segments s' = ps_segments s"
proof -
  let ?t = "s\<lparr>ps_is_num := (char_class c = 1), ps_has_num := (ps_has_num s \<or> char_class c = 1),
    ps_to_close_seg := False, ps_state := 1\<rparr>"
  let ?v = "?t\<lparr>ps_seg_start := c # cs,
      ps_value := (if char_class c = 1 then digit_value c else -1), ps_state := 2\<rparr>"
  have r: "run_of (char_class c) [c]" using assms(2) by (simp add: run_of_def)
  have "parse_classify c s = Some ?t"
    using assms class_cases [of c] by (auto simp: between_def parse_classify_def)
  then have "parse_loop (c # cs) s = (if ps_index s = MAX_SEGS then Some (Inl ?t)
    else parse_loop cs ?v)"
    by simp
  moreover have "in_run (char_class c) [c] cs ?v" if "ps_index s \<noteq> MAX_SEGS"
    using assms(1) r that piece_value_single [OF r] by (simp add: in_run_def between_def)
  ultimately show ?thesis
    by (cases "ps_index s = MAX_SEGS") (simp, simp only: if_False, intro exI [of _ ?v], simp)
qed

lemma between_sep:
  "between (c # cs) s \<Longrightarrow> char_class c = 0 \<Longrightarrow> parse_loop (c # cs) s = parse_loop cs s \<and> between cs s"
  by (auto simp: between_def parse_classify_def)

lemma single_seps_dropWhile: "single_seps cs \<Longrightarrow> single_seps (dropWhile (\<lambda>c. char_class c = 0) cs)"
  by (induction cs rule: single_seps.induct) auto

lemma parse_loop_correct:
  "(\<forall>k r. in_run k r cs s \<longrightarrow> values_ok (pieces (r @ cs)) \<longrightarrow> single_seps cs \<longrightarrow>
      parse_result (parse_loop cs s) (ps_has_num s \<or> has_digit cs) (ps_index s) (pieces (r @ cs)) (ps_segments s)) \<and>
   (between cs s \<longrightarrow> values_ok (pieces cs) \<longrightarrow> single_seps (dropWhile (\<lambda>c. char_class c = 0) cs) \<longrightarrow>
      parse_result (parse_loop cs s) (ps_has_num s \<or> has_digit cs) (ps_index s) (pieces cs) (ps_segments s))"
proof (induction cs arbitrary: s)
  case Nil
  have "parse_result (parse_loop [] s) (ps_has_num s \<or> has_digit []) (ps_index s) (pieces (r @ [])) (ps_segments s)"
    if "in_run k r [] s" for k r
  proof -
    have "pieces (r @ []) = [r]" using that pieces_run [of k r "[]"] by (simp add: in_run_def)
    then show ?thesis using that close_at [OF that]
      by (simp add: parse_result_def in_run_def has_digit_def)
  qed
  moreover have "between [] s \<Longrightarrow>
      parse_result (parse_loop [] s) (ps_has_num s \<or> has_digit []) (ps_index s) (pieces []) (ps_segments s)"
    by (auto simp: parse_result_def between_def has_digit_def)
  ultimately show ?case by blast
next
  case (Cons c cs)
  let ?goal = "\<lambda>ps. parse_result (parse_loop (c # cs) s) (ps_has_num s \<or> has_digit (c # cs)) (ps_index s) ps (ps_segments s)"
  have hd: "has_digit (c # cs) = (isdigit c \<or> has_digit cs)" by (simp add: has_digit_def)
  have "?goal (pieces (r @ c # cs))"
    if i: "in_run k r (c # cs) s" and v: "values_ok (pieces (r @ c # cs))" and ss: "single_seps (c # cs)" for k r
  proof -
    have ss': "single_seps cs" "char_class c = 0 \<Longrightarrow> cs = [] \<or> char_class (hd cs) \<noteq> 0"
      using ss by (cases cs; simp)+
    have r: "run_of k r" using i by (simp add: in_run_def)
    consider "char_class c = k" | "char_class c \<noteq> k" "char_class c \<noteq> 0" | "char_class c \<noteq> k" "char_class c = 0" by blast
    then show ?thesis
    proof cases
      case 1
      from in_run_same [OF i 1 v] obtain s' where s': "parse_loop (c # cs) s = parse_loop cs s'"
        "in_run k (r @ [c]) cs s'" "ps_has_num s' = (ps_has_num s \<or> isdigit c)" "ps_segments s' = ps_segments s"
        "ps_index s' = ps_index s"
        using i 1 by (auto simp: in_run_def)
      have "values_ok (pieces ((r @ [c]) @ cs))" using v by simp
      with Cons.IH [of s'] s'(2) ss' 
      have "parse_result (parse_loop cs s') (ps_has_num s' \<or> has_digit cs) (ps_index s') (pieces ((r @ [c]) @ cs)) (ps_segments s')"
        by blast
      then show ?thesis unfolding s' hd by (simp add: disj_assoc)
    next
      case 2
      have ps: "pieces (r @ c # cs) = r # pieces (c # cs)" using pieces_run [OF r] 2 by simp
      show ?thesis
      proof (cases "ps_index s + 1 = MAX_SEGS")
        case True
        from pieces_run_prefix [of "char_class c" "[c]" cs] 2 have "pieces (c # cs) \<noteq> []" by (auto simp: run_of_def)
        with in_run_other [OF i 2] True show ?thesis unfolding ps parse_result_def by (cases "pieces (c # cs)") auto
      next
        case False
        with in_run_other [OF i 2] obtain s' where s': "parse_loop (c # cs) s = parse_loop cs s'"
          "in_run (char_class c) [c] cs s'" "ps_has_num s' = (ps_has_num s \<or> isdigit c)" "ps_index s' = ps_index s + 1"
          "ps_segments s' = (ps_segments s)[ps_index s := piece_seg (ps_index s + 1) r]" by auto
        have "values_ok (pieces ([c] @ cs))" using v ps by (simp add: values_ok_def)
        with Cons.IH [of s'] s'(2) ss' 
        have "parse_result (parse_loop cs s') (ps_has_num s' \<or> has_digit cs) (ps_index s') (pieces ([c] @ cs)) (ps_segments s')"
          by blast
        then show ?thesis unfolding s' hd ps
          by (intro parse_result_close) (simp add: disj_assoc)
      qed
    next
      case 3
      have ps: "pieces (r @ c # cs) = r # pieces cs" using pieces_run [OF r, of "c # cs"] 3 by simp
      from in_run_sep [OF i 3(2) ss'(2) [OF 3(2)]] obtain s' where s': "parse_loop (c # cs) s = parse_loop cs s'"
        "between cs s'" "ps_has_num s' = ps_has_num s" "ps_index s' = ps_index s + 1"
        "ps_segments s' = (ps_segments s)[ps_index s := piece_seg (ps_index s + 1) r]" by auto
      have "values_ok (pieces cs)" using v ps by (simp add: values_ok_def)
      with Cons.IH [of s'] s'(2) single_seps_dropWhile [OF ss'(1)]
      have "parse_result (parse_loop cs s') (ps_has_num s' \<or> has_digit cs) (ps_index s') (pieces cs) (ps_segments s')"
        by blast
      then show ?thesis unfolding s' hd ps using 3 by (intro parse_result_close) simp
    qed
  qed
  moreover have "?goal (pieces (c # cs))"
    if b: "between (c # cs) s" and v: "values_ok (pieces (c # cs))"
      and ss: "single_seps (dropWhile (\<lambda>c. char_class c = 0) (c # cs))"
  proof (cases "char_class c = 0")
    case True
    from between_sep [OF b True] Cons.IH [of s] v ss True show ?thesis by (simp add: hd)
  next
    case False
    show ?thesis
    proof (cases "ps_index s = MAX_SEGS")
      case True
      from pieces_run_prefix [of "char_class c" "[c]" cs] False have "pieces (c # cs) \<noteq> []" by (auto simp: run_of_def)
      with between_char [OF b False] True show ?thesis unfolding parse_result_def by (cases "pieces (c # cs)") auto
    next
      case le: False
      with between_char [OF b False] obtain s' where s': "parse_loop (c # cs) s = parse_loop cs s'"
        "in_run (char_class c) [c] cs s'" "ps_has_num s' = (ps_has_num s \<or> isdigit c)" "ps_index s' = ps_index s"
        "ps_segments s' = ps_segments s" by auto
      have "single_seps cs" using ss False by (cases cs) auto
      moreover have "values_ok (pieces ([c] @ cs))" using v by simp
      ultimately have "parse_result (parse_loop cs s') (ps_has_num s' \<or> has_digit cs) (ps_index s') (pieces ([c] @ cs)) (ps_segments s')"
        using Cons.IH [of s'] s'(2) by blast
      then show ?thesis unfolding s' hd by (simp add: disj_assoc)
    qed
  qed
  ultimately show ?case by blast
qed

subsection \<open>The parser\<close>

lemma put_pieces_length [simp]: "length (put_pieces n ps ss) = length ss"
  by (induction n ps ss rule: put_pieces.induct) auto

lemma put_pieces_nth:
  "n + length ps \<le> length ss \<Longrightarrow> i < length ss \<Longrightarrow>
     put_pieces n ps ss ! i = (if n \<le> i \<and> i < n + length ps then piece_seg (i + 1) (ps ! (i - n)) else ss ! i)"
proof (induction n ps ss rule: put_pieces.induct)
  case (2 n p ps ss)
  have "i - n = Suc (i - Suc n)" if "n < i" using that by simp
  with 2 show ?case by (cases "i < n"; cases "i = n") (auto simp: nth_list_update)
qed auto

definition segments_of :: "string list \<Rightarrow> pn_seg list" where
  "segments_of ps = map (\<lambda>i. piece_seg (i + 1) (ps ! i)) [0..<length ps]"

lemma take_put_pieces:
  assumes "length ps \<le> length ss"
  shows "take (length ps) (put_pieces 0 ps ss) = segments_of ps"
  using assms by (intro nth_equalityI) (auto simp: segments_of_def put_pieces_nth)

lemma parse_port_name_correct:
  assumes "single_seps (dropWhile (\<lambda>c. char_class c = 0) name)" "values_ok (pieces name)"
    and len: "length (segments item) = MAX_SEGS"
  shows "\<exists>item'. parse_port_name (Some name) item =
      Some (if length (pieces name) \<le> MAX_SEGS \<and> has_digit name then PNG_OK else PNG_INVALID_PORT_NAME, item') \<and>
    (length (pieces name) \<le> MAX_SEGS \<and> has_digit name \<longrightarrow>
       seg_count item' = length (pieces name) \<and>
       take (seg_count item') (segments item') = segments_of (pieces name))"
proof (cases name)
  case Nil
  then show ?thesis by (simp add: parse_port_name_def has_digit_def)
next
  case (Cons c cs)
  let ?s = "\<lparr>ps_index = 0, ps_seg_start = name, ps_has_num = False, ps_is_num = False,
    ps_to_close_seg = False, ps_value = 0, ps_state = 0, ps_segments = segments item\<rparr>"
  have "between name ?s" by (simp add: between_def)
  with parse_loop_correct [of name ?s] assms
  have r: "parse_result (parse_loop name ?s) (has_digit name) 0 (pieces name) (segments item)" by simp
  show ?thesis
  proof (cases "length (pieces name) \<le> MAX_SEGS")
    case False
    with r obtain s where "parse_loop name ?s = Some (Inl s)" by (auto simp: parse_result_def)
    with False Cons show ?thesis by (simp add: parse_port_name_def del: parse_loop.simps)
  next
    case le: True
    with r obtain s s' where s: "parse_loop name ?s = Some (Inr s)" "ps_has_num s = has_digit name"
      "(if ps_state s = 2 then close_segment [] s else Some s) = Some s'"
      "ps_segments s' = put_pieces 0 (pieces name) (segments item)" "ps_index s' = length (pieces name)"
      by (auto simp: parse_result_def)
    have t: "take (length (pieces name)) (ps_segments s') = segments_of (pieces name)"
      using take_put_pieces [of "pieces name" "segments item"] le len s(4) by simp
    show ?thesis
    proof (cases "has_digit name")
      case False
      with s Cons show ?thesis by (simp add: parse_port_name_def del: parse_loop.simps)
    next
      case True
      then have "parse_port_name (Some name) item =
          Some (PNG_OK, item\<lparr>segments := ps_segments s', seg_count := ps_index s'\<rparr>)"
        using s Cons unfolding parse_port_name_def by (simp only: option.case list.case sum.case prod.case not_True_eq_False if_False simp_thms)
      with True le s t show ?thesis by simp
    qed
  qed
qed

subsection \<open>What the parser writes\<close>

definition segs_ok :: "pn_seg list \<Rightarrow> bool" where
  "segs_ok ss \<longleftrightarrow> length ss = MAX_SEGS \<and> (\<forall>s \<in> set ss. -1 \<le> seg_num s)"

definition parse_inv :: "parse_state \<Rightarrow> bool" where
  "parse_inv s \<longleftrightarrow> segs_ok (ps_segments s) \<and> ps_index s \<le> MAX_SEGS \<and> -1 \<le> ps_value s \<and>
     (ps_state s = 2 \<and> ps_is_num s \<longrightarrow> 0 \<le> ps_value s)"

lemma parse_classify_inv: "parse_classify c s = Some s' \<Longrightarrow> parse_inv s \<Longrightarrow> parse_inv s'"
  using digit_value_nonneg [of c]
  by (auto simp: parse_classify_def parse_inv_def Let_def split: if_splits)

lemma close_segment_inv:
  assumes "close_segment p s = Some s'" "parse_inv s"
  shows "parse_inv s'"
proof -
  let ?g = "\<lparr>seg_key = cal_str_key (int (ps_index s + 1)) (ps_seg_start s) (Some p), seg_num = ps_value s\<rparr>"
  have "set ((ps_segments s)[ps_index s := ?g]) \<subseteq> insert ?g (set (ps_segments s))"
    by (rule set_update_subset_insert)
  then have "segs_ok ((ps_segments s)[ps_index s := ?g])"
    using assms(2) by (auto simp: parse_inv_def segs_ok_def)
  with assms show ?thesis by (auto simp: close_segment_def parse_inv_def split: if_splits)
qed

lemma parse_classify_num:
  "parse_classify c s = Some t \<Longrightarrow> ps_state s \<noteq> 1 \<Longrightarrow> ps_state t = 1 \<Longrightarrow> ps_is_num t \<Longrightarrow> char_class c = 1"
  by (auto simp: parse_classify_def Let_def split: if_splits)

lemma parse_loop_inv:
  "parse_loop cs s = Some r \<Longrightarrow> parse_inv s \<Longrightarrow> ps_state s \<noteq> 1 \<Longrightarrow> (case r of Inl s' \<Rightarrow> parse_inv s' | Inr s' \<Rightarrow> parse_inv s')"
proof (induction cs arbitrary: s)
  case (Cons c cs)
  from Cons.prems(1) obtain t where t: "parse_classify c s = Some t" by (auto split: option.splits)
  with Cons.prems(1) obtain u where
    u: "(if ps_state t = 3 \<or> ps_to_close_seg t then close_segment (c # cs) t else Some t) = Some u"
    by (auto simp del: if_split split: option.splits)
  have inv: "parse_inv u"
    using u parse_classify_inv [OF t Cons.prems(2)] close_segment_inv by (auto split: if_splits)
  let ?v = "u\<lparr>ps_seg_start := c # cs, ps_value := (if ps_is_num u then digit_value c else -1), ps_state := 2\<rparr>"
  have num: "ps_is_num u \<Longrightarrow> ps_state u = 1 \<Longrightarrow> char_class c = 1"
    using u parse_classify_num [OF t Cons.prems(3)] by (auto simp: close_segment_def split: if_splits)
  have v: "ps_state u = 1 \<Longrightarrow> parse_inv ?v"
    using inv num digit_value_nonneg [of c] by (auto simp: parse_inv_def)
  have "parse_loop (c # cs) s = (if ps_state u = 1 then (if ps_index u = MAX_SEGS then Some (Inl u)
      else parse_loop cs ?v) else parse_loop cs u)"
    using t u by (simp del: if_split)
  then show ?case using Cons.prems(1) Cons.IH [of ?v] Cons.IH [of u] inv v by (auto split: if_splits)
qed auto

lemma parse_port_name_inv:
  assumes "parse_port_name (Some name) item = Some (st, item')" "segs_ok (segments item)" "seg_count item \<le> MAX_SEGS"
  shows "segs_ok (segments item') \<and> seg_count item' \<le> MAX_SEGS \<and> port_offset item' = port_offset item"
proof (cases name)
  case Nil
  with assms show ?thesis by (simp add: parse_port_name_def)
next
  case (Cons c cs)
  let ?s = "\<lparr>ps_index = 0, ps_seg_start = name, ps_has_num = False, ps_is_num = False,
    ps_to_close_seg = False, ps_value = 0, ps_state = 0, ps_segments = segments item\<rparr>"
  have inv: "parse_inv ?s" using assms(2) by (simp add: parse_inv_def)
  from assms(1) Cons obtain r where r: "parse_loop name ?s = Some r"
    by (auto simp: parse_port_name_def simp del: parse_loop.simps split: option.splits)
  note i = parse_loop_inv [OF r inv]
  show ?thesis
  proof (cases r)
    case (Inl s)
    with i r assms Cons show ?thesis
      by (auto simp: parse_port_name_def parse_inv_def simp del: parse_loop.simps)
  next
    case (Inr s)
    have "parse_inv s'" if "(if ps_state s = 2 then close_segment [] s else Some s) = Some s'" for s'
      using that i Inr close_segment_inv by (auto split: if_splits)
    with i Inr r assms Cons show ?thesis
      by (auto simp: parse_port_name_def parse_inv_def simp del: parse_loop.simps split: if_splits option.splits)
  qed
qed

end
