(* ===== verification/PortNumGen_Props.thy ===== *)
theory PortNumGen_Props
  imports PortNumGen_Parse "HOL-Library.Multiset"
begin

text \<open>
  The generator's guarantees: the group sort sorts, the aligned groups do not overlap, and a
  model that has been processed gives ports of different groups different positive numbers.
\<close>

subsection \<open>Sorting the groups\<close>

lemma compare_groups_pos: "compare_groups a b > 0 \<longleftrightarrow> compare_groups b a < 0"
  by (auto simp: compare_groups_def)

lemma compare_groups_trans:
  "compare_groups a b \<le> 0 \<Longrightarrow> compare_groups b c \<le> 0 \<Longrightarrow> compare_groups a c \<le> 0"
  by (auto simp: compare_groups_def split: if_splits)

lemma compare_groups_flip: "compare_groups a b \<ge> 0 \<longleftrightarrow> compare_groups b a \<le> 0"
  by (auto simp: compare_groups_def)

abbreviation group_le :: "pn_group_item \<Rightarrow> pn_group_item \<Rightarrow> bool" where
  "group_le a b \<equiv> compare_groups a b \<le> 0"

lemma insert_back_mset: "mset (insert_back x rs) = add_mset x (mset rs)"
  by (induction x rs rule: insert_back.induct) auto

lemma insert_back_sorted:
  "sorted_wrt (\<lambda>a b. group_le b a) rs \<Longrightarrow> sorted_wrt (\<lambda>a b. group_le b a) (insert_back x rs)"
proof (induction x rs rule: insert_back.induct)
  case (2 x r rs)
  show ?case
  proof (cases "compare_groups x r > 0")
    case True
    then have "group_le r x" using compare_groups_pos [of x r] by simp
    moreover have "\<forall>y \<in> set rs. group_le y x"
      using 2(2) \<open>group_le r x\<close> compare_groups_trans by fastforce
    ultimately show ?thesis using True 2(2) by simp
  next
    case False
    then have "group_le x r" by simp
    moreover have "set (insert_back x rs) = insert x (set rs)"
      using insert_back_mset [of x rs] by (metis set_mset_add_mset_insert set_mset_mset)
    ultimately show ?thesis using False 2 by simp
  qed
qed simp

lemma sort_groups_loop_correct:
  "sorted_wrt (\<lambda>a b. group_le b a) bs \<Longrightarrow>
     sorted_wrt group_le (sort_groups_loop bs as) \<and> mset (sort_groups_loop bs as) = mset bs + mset as"
proof (induction bs as rule: sort_groups_loop.induct)
  case (1 bs)
  then show ?case by (simp add: sorted_wrt_rev)
next
  case (2 x as)
  then show ?case by simp
next
  case (3 p bs x as)
  show ?case
  proof (cases "compare_groups x p \<ge> 0")
    case True
    then have "group_le p x" using compare_groups_flip by simp
    then have "\<forall>y \<in> set bs. group_le y x" using 3(3) compare_groups_trans by fastforce
    with \<open>group_le p x\<close> 3 True show ?thesis by simp
  next
    case False
    then have "group_le x p" by simp
    moreover have s: "set (insert_back x bs) = insert x (set bs)"
      using insert_back_mset [of x bs] by (metis set_mset_add_mset_insert set_mset_mset)
    ultimately have "sorted_wrt (\<lambda>a b. group_le b a) (p # insert_back x bs)"
      using 3(3) insert_back_sorted by simp
    with 3 False show ?thesis by (simp add: insert_back_mset)
  qed
qed

lemma sort_groups_correct:
  "sorted_wrt group_le (sort_groups gs) \<and> mset (sort_groups gs) = mset gs"
  using sort_groups_loop_correct [of "[hd gs]" "tl gs"]
  by (cases gs) (simp_all add: sort_groups_def)

lemma set_sort_groups [simp]: "set (sort_groups gs) = set gs"
  using sort_groups_correct [of gs] by (metis set_mset_mset)

subsection \<open>Aligning the groups\<close>

definition group_lo :: "pn_group_item \<Rightarrow> int" where
  "group_lo g = uint (g_min g) + g_offset g"

definition group_hi :: "pn_group_item \<Rightarrow> int" where
  "group_hi g = uint (g_max g) + g_offset g"

lemma align_groups_chain:
  assumes "\<forall>g \<in> set (p # gs). g_min g \<le> g_max g" "\<forall>g \<in> set gs. g_offset g = 0" "group_lo p \<ge> 1"
  shows "sorted_wrt (\<lambda>a b. group_hi a < group_lo b) (align_groups p gs) \<and>
    (\<forall>g \<in> set (align_groups p gs). group_lo g \<ge> 1 \<and> group_lo g \<ge> group_lo p \<and> g_min g \<le> g_max g)"
  using assms
proof (induction p gs rule: align_groups.induct)
  case (2 p g gs)
  let ?g = "if uint (g_min g) \<le> uint (g_max p) + g_offset p
    then g\<lparr>g_offset := uint (g_max p) + g_offset p - uint (g_min g) + 1\<rparr> else g"
  have lo: "group_hi p < group_lo ?g" and mm: "g_min ?g \<le> g_max ?g"
    using 2(2-4) by (auto simp: group_hi_def group_lo_def)
  have pp: "group_lo p \<le> group_hi p"
    using 2(2) by (simp add: group_hi_def group_lo_def word_le_def)
  have ih: "sorted_wrt (\<lambda>a b. group_hi a < group_lo b) (align_groups ?g gs) \<and>
    (\<forall>h \<in> set (align_groups ?g gs). group_lo h \<ge> 1 \<and> group_lo h \<ge> group_lo ?g \<and> g_min h \<le> g_max h)"
    by (rule 2(1)) (use 2(2-4) lo pp mm in auto)
  then have "group_hi p < group_lo h \<and> group_lo p \<le> group_lo h" if "h \<in> set (align_groups ?g gs)" for h
    using that lo pp by (meson order_less_le_trans order_le_less_trans order_less_imp_le)
  with ih 2(2,4) show ?case by simp
qed simp

text \<open>What alignment leaves of a group.\<close>

lemma align_groups_keeps:
  "map (\<lambda>g. (g_key g, g_min g, g_max g)) (align_groups p gs) = map (\<lambda>g. (g_key g, g_min g, g_max g)) (p # gs)"
  by (induction p gs rule: align_groups.induct) auto

lemma resolve_groups_correct:
  assumes "\<forall>g \<in> set gs. g_min g \<le> g_max g \<and> g_offset g = 0"
  shows "sorted_wrt (\<lambda>a b. group_hi a < group_lo b) (resolve_groups gs) \<and>
    (\<forall>g \<in> set (resolve_groups gs). group_lo g \<ge> 1) \<and>
    (\<lambda>g. (g_key g, g_min g, g_max g)) ` set (resolve_groups gs) =
      (\<lambda>g. (g_key g, g_min g, g_max g)) ` set gs \<and>
    map g_key (resolve_groups gs) = map g_key (sort_groups gs)"
proof (cases "sort_groups gs")
  case Nil
  then have "gs = []" using set_sort_groups [of gs] by simp
  then show ?thesis by (simp add: resolve_groups_def sort_groups_def)
next
  case (Cons p rest)
  let ?f = "\<lambda>g. (g_key g, g_min g, g_max g)"
  let ?p = "if g_min p = 0 then p\<lparr>g_offset := 1\<rparr> else p"
  have st: "set (p # rest) = set gs" using Cons set_sort_groups [of gs] by simp
  have lo: "group_lo ?p \<ge> 1"
  proof (cases "g_min p = 0")
    case False
    then have "uint (g_min p) > 0" using uint_0_iff uint_ge_0 order_le_neq_trans by metis
    moreover have "p \<in> set gs" using st by auto
    ultimately show ?thesis using False assms by (auto simp: group_lo_def)
  qed (simp add: group_lo_def)
  have r: "resolve_groups gs = align_groups ?p rest" by (simp add: resolve_groups_def Cons)
  have keeps: "map ?f (resolve_groups gs) = map ?f (p # rest)"
    unfolding r align_groups_keeps by simp
  have "map g_key (resolve_groups gs) = map g_key (sort_groups gs)"
    using arg_cong [OF keeps, of "map fst"] by (simp add: comp_def Cons)
  moreover have "?f ` set (resolve_groups gs) = ?f ` set gs"
    using arg_cong [OF keeps, of set] unfolding set_map st .
  moreover have "\<forall>g \<in> set (?p # rest). g_min g \<le> g_max g" "\<forall>g \<in> set rest. g_offset g = 0"
    using assms st by auto
  ultimately show ?thesis using align_groups_chain [of ?p rest] lo unfolding r by blast
qed

lemma resolve_groups_keeps:
  "map (\<lambda>g. (g_key g, g_min g, g_max g)) (resolve_groups gs) =
     map (\<lambda>g. (g_key g, g_min g, g_max g)) (sort_groups gs)"
  by (simp add: resolve_groups_def align_groups_keeps split: list.split)

subsection \<open>The loop over the ports\<close>

text \<open>Groups only widen, and keep their key.\<close>

definition widens :: "pn_group_item \<Rightarrow> pn_group_item \<Rightarrow> bool" where
  "widens g g' \<longleftrightarrow> g_key g' = g_key g \<and> g_min g' \<le> g_min g \<and> g_max g \<le> g_max g'"

definition covers :: "pn_group_item list \<Rightarrow> pn_group_item list \<Rightarrow> bool" where
  "covers gs gs' \<longleftrightarrow> (\<forall>g \<in> set gs. \<exists>g' \<in> set gs'. widens g g')"

lemma widens_refl [simp]: "widens g g"
  by (simp add: widens_def)

lemma widens_trans: "widens a b \<Longrightarrow> widens b c \<Longrightarrow> widens a c"
  by (auto simp: widens_def)

lemma covers_refl [simp]: "covers gs gs"
  by (auto simp: covers_def intro: widens_refl)

lemma covers_trans: "covers a b \<Longrightarrow> covers b c \<Longrightarrow> covers a c"
  unfolding covers_def by (meson widens_trans)

lemma covers_append: "covers gs (gs @ hs)"
  by (auto simp: covers_def intro: widens_refl)

definition groups_ok :: "pn_group_item list \<Rightarrow> bool" where
  "groups_ok gs \<longleftrightarrow> distinct (map g_key gs) \<and> (\<forall>g \<in> set gs. g_min g \<le> g_max g \<and> g_offset g = 0)"

definition in_group :: "pn_group_item list \<Rightarrow> pn_port_item \<Rightarrow> bool" where
  "in_group gs p \<longleftrightarrow> (\<exists>g \<in> set gs. g_key g = group_key p \<and> g_min g \<le> port_num p \<and> port_num p \<le> g_max g)"

lemma in_group_covers:
  assumes "covers gs gs'" "in_group gs p"
  shows "in_group gs' p"
proof -
  from assms(2) obtain g where g: "g \<in> set gs" "g_key g = group_key p" "g_min g \<le> port_num p" "port_num p \<le> g_max g"
    by (auto simp: in_group_def)
  with assms(1) obtain g' where "g' \<in> set gs'" "widens g g'" by (auto simp: covers_def)
  with g show ?thesis unfolding in_group_def widens_def by (intro bexI [of _ g']) auto
qed

lemma update_group_None: "update_group k n gs = None \<longleftrightarrow> k \<notin> g_key ` set gs"
  by (induction gs) auto

lemma update_group_Some:
  "update_group k n gs = Some gs' \<Longrightarrow> groups_ok gs \<Longrightarrow>
     map g_key gs' = map g_key gs \<and> groups_ok gs' \<and> covers gs gs' \<and>
     (\<exists>g \<in> set gs'. g_key g = k \<and> g_min g \<le> n \<and> n \<le> g_max g)"
proof (induction gs arbitrary: gs')
  case (Cons p gs)
  show ?case
  proof (cases "g_key p = k")
    case True
    let ?p = "p\<lparr>g_max := (if n > g_max p then n else g_max p), g_min := (if n < g_min p then n else g_min p),
      g_count := g_count p + 1\<rparr>"
    from True Cons.prems have gs': "gs' = ?p # gs" by simp
    have "groups_ok gs'" using Cons.prems(2) unfolding gs' by (auto simp: groups_ok_def)
    moreover have "covers (p # gs) gs'" unfolding gs' covers_def widens_def by auto
    ultimately show ?thesis using True unfolding gs' by auto
  next
    case False
    with Cons.prems obtain hs where hs: "update_group k n gs = Some hs" "gs' = p # hs" by auto
    have "groups_ok gs" using Cons.prems(2) by (simp add: groups_ok_def)
    from Cons.IH [OF hs(1) this] Cons.prems(2) False hs(2) show ?thesis
      by (auto simp: groups_ok_def covers_def simp del: map_eq_conv dest: map_eq_imp_length_eq)
  qed
qed simp

text \<open>What the loop has done to a port.\<close>

lemma choose_segment_cong [simp]:
  "choose_segment segs (p\<lparr>port_num := n\<rparr>) = choose_segment segs p"
  "choose_segment segs (p\<lparr>group_key := k\<rparr>) = choose_segment segs p"
  "choose_segment segs (p\<lparr>port_offset := d\<rparr>) = choose_segment segs p"
  by (simp_all add: choose_segment_def cong: if_cong)

lemma group_key_of_cong [simp]:
  "group_key_of (p\<lparr>port_num := n\<rparr>) j = group_key_of p j"
  by (simp add: group_key_of_def cong: if_cong)

definition numbered :: "uint8 omap \<Rightarrow> pn_port_item \<Rightarrow> pn_port_item" where
  "numbered segs port = port\<lparr>port_num := of_int (seg_num (segments port ! choose_segment segs port)),
     group_key := group_key_of port (choose_segment segs port)\<rparr>"

definition new_group :: "pn_port_item \<Rightarrow> pn_group_item" where
  "new_group port = \<lparr>g_key = group_key port, g_min = port_num port, g_max = port_num port,
     g_count = 1, g_offset = 0\<rparr>"

text \<open>One turn of the loop, when the whole loop succeeds.\<close>

lemma process_ports_step:
  assumes "process_ports al segs ((k, port) # rest) full gs conf = (PNG_OK, es', gs', conf')"
  obtains (skip) es1 where "\<not> choose_segment segs port < MAX_SEGS" "es' = (k, port) # es1"
      "process_ports al segs rest full gs conf = (PNG_OK, es1, gs', conf')"
    | (taken) hs es1 pn clash where "choose_segment segs port < MAX_SEGS"
      "pn = seg_num (segments port ! choose_segment segs port)" "pn < MAX_PORT_NUM"
      "clash \<longleftrightarrow> full (nat pn) \<or> pn = 0" "es' = (k, numbered segs port) # es1"
      "update_group (group_key (numbered segs port)) (port_num (numbered segs port)) gs = Some hs \<or>
       update_group (group_key (numbered segs port)) (port_num (numbered segs port)) gs = None \<and>
         hs = gs @ [new_group (numbered segs port)]"
      "process_ports al segs rest (if clash then full else full(nat pn := True)) hs (conf \<or> clash) =
         (PNG_OK, es1, gs', conf')"
proof (cases "choose_segment segs port < MAX_SEGS")
  case False
  then show thesis using assms skip by (auto split: prod.splits)
next
  case True
  let ?pn = "seg_num (segments port ! choose_segment segs port)"
  let ?clash = "full (nat ?pn) \<or> ?pn = 0"
  have lt: "?pn < MAX_PORT_NUM" using assms True by (auto simp: Let_def split: if_splits)
  note t = taken [OF True refl lt refl [of ?clash]]
  show thesis
  proof (cases "update_group (group_key (numbered segs port)) (port_num (numbered segs port)) gs")
    case (Some hs)
    with assms True lt show thesis
      by (auto simp: Let_def numbered_def split: prod.splits intro!: t [of _ hs])
  next
    case None
    with assms True lt show thesis
      by (auto simp: Let_def numbered_def new_group_def split: prod.splits if_splits
          intro!: t [of _ "gs @ [new_group (numbered segs port)]"])
  qed
qed

lemma choose_segment_numbered [simp]: "choose_segment segs (numbered segs' p) = choose_segment segs p"
  by (simp add: numbered_def)

lemma port_offset_numbered [simp]: "port_offset (numbered segs p) = port_offset p"
  by (simp add: numbered_def)

lemma groups_ok_new: "groups_ok gs \<Longrightarrow> group_key p \<notin> g_key ` set gs \<Longrightarrow> groups_ok (gs @ [new_group p])"
  by (auto simp: groups_ok_def new_group_def)

lemma process_ports_groups:
  "process_ports al segs es full gs conf = (PNG_OK, es', gs', conf') \<Longrightarrow> groups_ok gs \<Longrightarrow>
     groups_ok gs' \<and> covers gs gs' \<and>
     (\<forall>(k, p) \<in> set es'. choose_segment segs p < MAX_SEGS \<longrightarrow> in_group gs' p)"
proof (induction es arbitrary: full gs conf es')
  case (Cons e es)
  obtain k port where e: "e = (k, port)" by (cases e)
  from Cons.prems(1) [unfolded e] show ?case
  proof (cases rule: process_ports_step)
    case (skip es1)
    with Cons show ?thesis by auto
  next
    case (taken hs es1 pn clash)
    let ?p = "numbered segs port"
    have hs: "groups_ok hs \<and> covers gs hs \<and> in_group hs ?p"
      using taken(6)
    proof (elim disjE conjE)
      assume u: "update_group (group_key ?p) (port_num ?p) gs = Some hs"
      from update_group_Some [OF u Cons.prems(2)] show ?thesis by (auto simp: in_group_def)
    next
      assume "update_group (group_key ?p) (port_num ?p) gs = None" "hs = gs @ [new_group ?p]"
      with groups_ok_new [OF Cons.prems(2)] show ?thesis
        by (auto simp: update_group_None covers_append in_group_def new_group_def)
    qed
    then have h: "groups_ok hs" "covers gs hs" "in_group hs ?p" by auto
    note ih = Cons.IH [OF taken(7) h(1)]
    then have "covers hs gs'" by blast
    then have "covers gs gs'" "in_group gs' ?p"
      using covers_trans [OF h(2)] in_group_covers [OF _ h(3)] by auto
    with ih taken(5) show ?thesis by simp
  qed
qed simp

lemma process_ports_conf:
  "process_ports al segs es full gs True = (PNG_OK, es', gs', conf') \<Longrightarrow> conf'"
proof (induction es arbitrary: full gs es')
  case (Cons e es)
  obtain k port where e: "e = (k, port)" by (cases e)
  from Cons.prems [unfolded e] show ?case
    by (cases rule: process_ports_step) (use Cons.IH in auto)
qed simp

text \<open>Numbers of the chosen segments are not negative: what the parser writes.\<close>

definition nums_ok :: "uint8 omap \<Rightarrow> pn_port_item \<Rightarrow> bool" where
  "nums_ok segs p \<longleftrightarrow> (choose_segment segs p < MAX_SEGS \<longrightarrow> 0 \<le> seg_num (segments p ! choose_segment segs p))"

lemma uint_of_pn:
  "0 \<le> pn \<Longrightarrow> pn < MAX_PORT_NUM \<Longrightarrow> uint (of_int pn :: uint16) = pn"
  by (simp add: uint_word_of_int_eq take_bit_int_eq_self)

lemma process_ports_distinct:
  "process_ports al segs es full gs False = (PNG_OK, es', gs', False) \<Longrightarrow>
     \<forall>(k, p) \<in> set es. nums_ok segs p \<Longrightarrow>
     distinct (map (\<lambda>(k, p). port_num p) (filter (\<lambda>(k, p). choose_segment segs p < MAX_SEGS) es')) \<and>
     (\<forall>(k, p) \<in> set es'. choose_segment segs p < MAX_SEGS \<longrightarrow>
        uint (port_num p) \<ge> 1 \<and> \<not> full (nat (uint (port_num p))))"
proof (induction es arbitrary: full gs es')
  case (Cons e es)
  obtain k port where e: "e = (k, port)" by (cases e)
  from Cons.prems(1) [unfolded e] show ?case
  proof (cases rule: process_ports_step)
    case (skip es1)
    with Cons show ?thesis by auto
  next
    case (taken hs es1 pn clash)
    have nc: "\<not> clash" using taken(7) process_ports_conf by (cases clash) auto
    have pn: "0 \<le> pn" using Cons.prems(2) taken(1,2) by (simp add: e nums_ok_def)
    have u: "uint (port_num (numbered segs port)) = pn"
      using uint_of_pn [OF pn taken(3)] by (simp add: numbered_def taken(2))
    have run: "process_ports al segs es (full(nat pn := True)) hs False = (PNG_OK, es1, gs', False)"
      using taken(7) nc by simp
    have "\<forall>(k, p) \<in> set es. nums_ok segs p" using Cons.prems(2) by simp
    note IH = Cons.IH [OF run this]
    have ih: "distinct (map (\<lambda>(k, p). port_num p) (filter (\<lambda>(k, p). choose_segment segs p < MAX_SEGS) es1))"
      "\<forall>(k, p) \<in> set es1. choose_segment segs p < MAX_SEGS \<longrightarrow>
        uint (port_num p) \<ge> 1 \<and> \<not> (full(nat pn := True)) (nat (uint (port_num p)))"
      using IH by blast+
    have "port_num (numbered segs port) \<notin>
        set (map (\<lambda>(k, p). port_num p) (filter (\<lambda>(k, p). choose_segment segs p < MAX_SEGS) es1))"
      using ih(2) u by auto
    moreover have "pn \<noteq> 0" "\<not> full (nat pn)" using nc taken(4) by auto
    ultimately show ?thesis using ih taken(1,5) u pn by (auto split: if_splits)
  qed
qed simp

lemma process_ports_offsets:
  "process_ports al segs es full gs conf = (PNG_OK, es', gs', conf') \<Longrightarrow>
     map (\<lambda>(k, p). (k, port_offset p)) es' = map (\<lambda>(k, p). (k, port_offset p)) es"
proof (induction es arbitrary: full gs conf es')
  case (Cons e es)
  obtain k port where e: "e = (k, port)" by (cases e)
  from Cons.prems [unfolded e] show ?case
    by (cases rule: process_ports_step) (use Cons.IH e in auto)
qed simp

subsection \<open>The model after processing\<close>

definition pn_value :: "pn_port_item \<Rightarrow> int" where
  "pn_value p = uint (port_num p) + port_offset p"

definition item_ok :: "pn_port_item \<Rightarrow> bool" where
  "item_ok p \<longleftrightarrow> segs_ok (segments p) \<and> seg_count p \<le> MAX_SEGS"

definition pn_model_ok :: "pn_gen \<Rightarrow> bool" where
  "pn_model_ok model \<longleftrightarrow> omap_ok (port_map model) \<and> omap_ok (seg_map model) \<and>
     (\<forall>(k, p) \<in> set (port_map model). port_offset p = 0 \<and> item_ok p)"

lemma choose_segment_num:
  assumes "choose_segment segs p < MAX_SEGS"
  shows "choose_segment segs p < seg_count p \<and> seg_num (segments p ! choose_segment segs p) \<noteq> -1"
proof -
  let ?f = "\<lambda>i (pn_index, min_count). if seg_num (segments p ! i) = -1 then (pn_index, min_count)
    else case omap_get (seg_key (segments p ! i)) segs of None \<Rightarrow> (pn_index, min_count)
      | Some c \<Rightarrow> if uint c \<le> min_count then (i, uint c) else (pn_index, min_count)"
  have "fst (fold ?f [0..<n] (MAX_SEGS, 256)) = MAX_SEGS \<or>
      fst (fold ?f [0..<n] (MAX_SEGS, 256)) < n \<and>
      seg_num (segments p ! fst (fold ?f [0..<n] (MAX_SEGS, 256))) \<noteq> -1" for n
    by (induction n) (auto split: prod.splits option.splits)
  from this [of "seg_count p"] assms show ?thesis by (auto simp: choose_segment_def)
qed

lemma item_nums_ok:
  assumes "item_ok p"
  shows "nums_ok segs p"
  unfolding nums_ok_def
proof
  let ?i = "choose_segment segs p"
  assume "?i < MAX_SEGS"
  then have "?i < length (segments p)" "seg_num (segments p ! ?i) \<noteq> -1"
    using choose_segment_num [of segs p] assms by (auto simp: item_ok_def segs_ok_def)
  then have "segments p ! ?i \<in> set (segments p)" by simp
  then have "-1 \<le> seg_num (segments p ! ?i)" using assms unfolding item_ok_def segs_ok_def by blast
  then show "0 \<le> seg_num (segments p ! ?i)" using \<open>seg_num (segments p ! ?i) \<noteq> -1\<close> by simp
qed

lemma chain_disjoint:
  assumes "sorted_wrt (\<lambda>a b. group_hi a < group_lo b) gs" "a \<in> set gs" "b \<in> set gs"
    "group_lo a \<le> x" "x \<le> group_hi a" "group_lo b \<le> x" "x \<le> group_hi b"
  shows "a = b"
  using assms by (induction gs) auto

lemma apply_offsets_port:
  assumes gs: "groups_ok gs" and p: "in_group gs p"
  shows "\<exists>g \<in> set (resolve_groups gs). g_key g = group_key p \<and>
    find (\<lambda>g. g_key g = group_key p) (resolve_groups gs) = Some g \<and>
    group_lo g \<le> uint (port_num p) + g_offset g \<and> uint (port_num p) + g_offset g \<le> group_hi g"
proof -
  have r: "(\<lambda>g. (g_key g, g_min g, g_max g)) ` set (resolve_groups gs) = (\<lambda>g. (g_key g, g_min g, g_max g)) ` set gs"
    "map g_key (resolve_groups gs) = map g_key (sort_groups gs)"
    using resolve_groups_correct [of gs] gs by (auto simp: groups_ok_def)
  have "mset (map g_key (sort_groups gs)) = mset (map g_key gs)"
    using sort_groups_correct [of gs] by simp
  then have d: "distinct (map g_key (resolve_groups gs))"
    unfolding r(2) using gs mset_eq_imp_distinct_iff groups_ok_def by blast
  from p obtain g0 where g0: "g0 \<in> set gs" "g_key g0 = group_key p" "g_min g0 \<le> port_num p" "port_num p \<le> g_max g0"
    by (auto simp: in_group_def)
  then have "(g_key g0, g_min g0, g_max g0) \<in> (\<lambda>g. (g_key g, g_min g, g_max g)) ` set (resolve_groups gs)"
    unfolding r(1) by blast
  then obtain g where g: "g \<in> set (resolve_groups gs)" "g_key g = group_key p"
    "g_min g \<le> port_num p" "port_num p \<le> g_max g"
    using g0 by auto
  have "find (\<lambda>g. g_key g = group_key p) (resolve_groups gs) = Some g"
  proof (cases "find (\<lambda>g. g_key g = group_key p) (resolve_groups gs)")
    case None
    then show ?thesis using g by (auto simp: find_None_iff)
  next
    case (Some h)
    then have "h \<in> set (resolve_groups gs)" "g_key h = group_key p" by (auto simp: find_Some_iff)
    with g d Some show ?thesis by (auto simp: distinct_map inj_on_def)
  qed
  with g show ?thesis
    by (intro bexI [of _ g]) (auto simp: group_lo_def group_hi_def word_le_def)
qed

lemma port_num_offset [simp]: "port_num (p\<lparr>port_offset := d\<rparr>) = port_num p"
  "group_key (p\<lparr>port_offset := d\<rparr>) = group_key p"
  by simp_all

lemma process_numbers:
  assumes ok: "pn_model_ok model" and pr: "pn_gen_process a al model = (PNG_OK, model')"
    and p1: "(k1, p1) \<in> set (port_map model')" "choose_segment (seg_map model) p1 < MAX_SEGS"
  shows "pn_value p1 \<ge> 1 \<and> ((k2, p2) \<in> set (port_map model') \<longrightarrow> choose_segment (seg_map model) p2 < MAX_SEGS \<longrightarrow>
      k1 \<noteq> k2 \<longrightarrow> pn_value p1 = pn_value p2 \<longrightarrow>
      group_key p1 = group_key p2 \<and> port_num p1 = port_num p2)"
proof -
  let ?segs = "seg_map model"
  from pr obtain es gs conf where
    run: "process_ports al ?segs (port_map model) (\<lambda>_. False) [] False = (PNG_OK, es, gs, conf)"
    and m': "port_map model' = (if conf then apply_offsets (resolve_groups gs) es else es)"
    by (auto simp: pn_gen_process_def split: if_splits prod.splits png_status.splits)
  have g: "groups_ok gs" "\<forall>(k, p) \<in> set es. choose_segment ?segs p < MAX_SEGS \<longrightarrow> in_group gs p"
    using process_ports_groups [OF run] by (auto simp: groups_ok_def)
  have nums: "\<forall>(k, p) \<in> set (port_map model). nums_ok ?segs p"
    using ok item_nums_ok by (auto simp: pn_model_ok_def)
  have off: "\<forall>(k, p) \<in> set es. port_offset p = 0"
  proof -
    have "set (map (\<lambda>(k, p). (k, port_offset p)) es) = set (map (\<lambda>(k, p). (k, port_offset p)) (port_map model))"
      using process_ports_offsets [OF run] by simp
    then show ?thesis using ok by (fastforce simp: pn_model_ok_def)
  qed
  show ?thesis
  proof (cases conf)
    case False
    have "process_ports al ?segs (port_map model) (\<lambda>_. False) [] False = (PNG_OK, es, gs, False)"
      using run False by simp
    note d = process_ports_distinct [OF this nums]
    have "pn_value p1 = uint (port_num p1)" "1 \<le> uint (port_num p1)"
      using False m' p1 off d by (auto simp: pn_value_def)
    moreover have "port_num p1 \<noteq> port_num p2"
      if "(k2, p2) \<in> set es" "choose_segment ?segs p2 < MAX_SEGS" "k1 \<noteq> k2"
    proof -
      let ?c = "filter (\<lambda>(k, p). choose_segment ?segs p < MAX_SEGS) es"
      have "(k1, p1) \<in> set ?c" "(k2, p2) \<in> set ?c" using that p1 False m' by auto
      with d that(3) show ?thesis by (auto simp: distinct_map inj_on_def)
    qed
    moreover have "pn_value p2 = uint (port_num p2)" if "(k2, p2) \<in> set es"
      using that off by (auto simp: pn_value_def)
    ultimately show ?thesis using False m' by (auto simp: word_uint_eq_iff)
  next
    case True
    have chain: "sorted_wrt (\<lambda>a b. group_hi a < group_lo b) (resolve_groups gs)"
      "\<forall>g \<in> set (resolve_groups gs). group_lo g \<ge> 1"
      using resolve_groups_correct [of gs] g(1) by (auto simp: groups_ok_def)
    have *: "\<exists>g \<in> set (resolve_groups gs). g_key g = group_key p \<and> port_offset p = g_offset g \<and>
        group_lo g \<le> pn_value p \<and> pn_value p \<le> group_hi g"
      if "(k, p) \<in> set (port_map model')" "choose_segment ?segs p < MAX_SEGS" for k p
    proof -
      from that(1) True m' obtain q where q: "(k, q) \<in> set es"
        "p = (case find (\<lambda>g. g_key g = group_key q) (resolve_groups gs) of
            None \<Rightarrow> q | Some g \<Rightarrow> q\<lparr>port_offset := g_offset g\<rparr>)"
        by (auto simp: apply_offsets_def)
      then have "choose_segment ?segs q < MAX_SEGS" using that(2) by (auto split: option.splits)
      with q(1) g(2) have "in_group gs q" by auto
      from apply_offsets_port [OF g(1) this] q(2) show ?thesis
        by (auto simp: pn_value_def)
    qed
    from * [OF p1] obtain g1 where g1: "g1 \<in> set (resolve_groups gs)" "g_key g1 = group_key p1"
      "port_offset p1 = g_offset g1" "group_lo g1 \<le> pn_value p1" "pn_value p1 \<le> group_hi g1" by blast
    have "group_key p1 = group_key p2 \<and> port_num p1 = port_num p2"
      if p2: "(k2, p2) \<in> set (port_map model')" "choose_segment ?segs p2 < MAX_SEGS" and e: "pn_value p1 = pn_value p2"
    proof -
      from * [OF p2] obtain g2 where g2: "g2 \<in> set (resolve_groups gs)" "g_key g2 = group_key p2"
        "port_offset p2 = g_offset g2" "group_lo g2 \<le> pn_value p2" "pn_value p2 \<le> group_hi g2" by blast
      have "g1 = g2" using chain_disjoint [OF chain(1) g1(1) g2(1)] g1 g2 e by auto
      with g1 g2 e show ?thesis by (simp add: pn_value_def word_uint_eq_iff)
    qed
    moreover have "pn_value p1 \<ge> 1" using g1 chain(2) by fastforce
    ultimately show ?thesis by blast
  qed
qed

lemma process_keys:
  assumes "pn_gen_process a al model = (PNG_OK, model')"
  shows "processed model' \<and> map fst (port_map model') = map fst (port_map model)"
proof -
  from assms obtain es gs conf where
    run: "process_ports al (seg_map model) (port_map model) (\<lambda>_. False) [] False = (PNG_OK, es, gs, conf)"
    and m': "model' = model\<lparr>port_map := (if conf then apply_offsets (resolve_groups gs) es else es), processed := True\<rparr>"
    by (auto simp: pn_gen_process_def split: if_splits prod.splits png_status.splits)
  have "map fst es = map fst (port_map model)"
    using arg_cong [OF process_ports_offsets [OF run], of "map fst"] by (simp add: comp_def split_beta)
  then show ?thesis by (simp add: m' apply_offsets_def comp_def split_beta)
qed

subsection \<open>Registration\<close>

lemma update_count_ok: "omap_ok m \<Longrightarrow> omap_ok (snd (update_count al k m))"
  by (simp add: update_count_def omap_insert_ok split: option.split)

lemma count_segments_ok: "omap_ok m \<Longrightarrow> omap_ok (count_segments al ss m)"
  by (induction al ss m rule: count_segments.induct) (simp_all add: update_count_ok)

lemma create_port_obj_ok: "item_ok create_port_obj"
  by (simp add: item_ok_def segs_ok_def create_port_obj_def)

lemma set_omap_insert: "set (omap_insert k v es) \<subseteq> insert (k, v) (set es)"
  by (induction k v es rule: omap_insert.induct) auto

lemma register_keeps:
  assumes ok: "pn_model_ok model" and r: "pn_gen_register ap ac name model = Some (st, model')"
  shows "pn_model_ok model'"
proof (cases "processed model \<or> \<not> ap")
  case True
  with r ok show ?thesis by (auto simp: pn_gen_register_def split: if_splits)
next
  case False
  let ?k = "cal_str_key 0 name None"
  from r False obtain item where p: "parse_port_name (Some name) create_port_obj = Some (st, item)"
    and m': "port_map model' = omap_insert ?k item (port_map model)"
      "seg_map model' = seg_map model \<or>
       seg_map model' = count_segments ac (take (seg_count item) (segments item)) (seg_map model)"
    by (auto simp: pn_gen_register_def Let_def split: option.splits png_status.splits)
  have "item_ok item \<and> port_offset item = 0"
    using parse_port_name_inv [OF p] create_port_obj_ok by (simp add: item_ok_def create_port_obj_def)
  moreover have "set (port_map model') \<subseteq> insert (?k, item) (set (port_map model))"
    unfolding m' by (rule set_omap_insert)
  ultimately have "\<forall>(k, p) \<in> set (port_map model'). port_offset p = 0 \<and> item_ok p"
    using ok unfolding pn_model_ok_def by blast
  with ok m' show ?thesis
    by (auto simp: pn_model_ok_def omap_insert_ok count_segments_ok)
qed

end
