(* ===== verification/PortNumGen_Claims.thy ===== *)
theory PortNumGen_Claims
  imports PortNumGen_Props
begin

text \<open>
  The properties of the port number generator.
\<close>

subsection \<open>Parsing\<close>

text \<open>
  C13.  Of the names that have no two separators in a row after their first run and no number of
  \<open>2 ^ 31\<close> or more, \<^verbatim>\<open>parse_port_name\<close> accepts exactly those with a digit and at most
  eight runs of digits or letters, and then fills one segment per run, in order: its key is
  the hash of the run and of its position (from 1), its number the decimal value of a run of
  digits and -1 for letters.
\<close>

theorem parse_port_name_reads_runs:
  assumes "single_seps (dropWhile (\<lambda>c. char_class c = 0) name)"
    and "\<forall>p \<in> set (pieces name). piece_value p < 2 ^ 31"
    and "length (segments item) = MAX_SEGS"
  shows "\<exists>item'. parse_port_name (Some name) item =
      Some (if length (pieces name) \<le> MAX_SEGS \<and> (\<exists>c \<in> set name. isdigit c) then PNG_OK
            else PNG_INVALID_PORT_NAME, item') \<and>
    (length (pieces name) \<le> MAX_SEGS \<and> (\<exists>c \<in> set name. isdigit c) \<longrightarrow>
       seg_count item' = length (pieces name) \<and>
       take (seg_count item') (segments item') =
         map (\<lambda>i. \<lparr>seg_key = cal_str_key (int (i + 1)) (pieces name ! i) None,
                   seg_num = piece_value (pieces name ! i)\<rparr>) [0..<length (pieces name)])"
  using parse_port_name_correct [of name item] assms
  by (simp add: values_ok_def has_digit_def segments_of_def piece_seg_def del: class_simps)

theorem parse_port_name_reads_runs_witness:
  "\<exists>item'. parse_port_name (Some ''.Eth1/12'') create_port_obj = Some (PNG_OK, item') \<and>
     seg_count item' = 3 \<and> map seg_num (take (seg_count item') (segments item')) = [-1, 1, 12]"
proof -
  let ?n = "''.Eth1/12''" and ?p = "[''Eth'', ''1'', ''12'']"
  have p: "pieces ?n = ?p" "(\<exists>c \<in> set ?n. isdigit c) = True"
    "single_seps (dropWhile (\<lambda>c. char_class c = 0) ?n) = True"
    "(\<forall>p \<in> set ?p. piece_value p < 2 ^ 31) = True" "length (segments create_port_obj) = MAX_SEGS"
    "(length ?p \<le> MAX_SEGS) = True" "length ?p = 3"
    by code_simp+
  have v: "map seg_num (map (\<lambda>i. \<lparr>seg_key = cal_str_key (int (i + 1)) (?p ! i) None,
      seg_num = piece_value (?p ! i)\<rparr>) [0..<3]) = [-1, 1, 12]"
    by code_simp
  show ?thesis
    using parse_port_name_reads_runs [of ?n create_port_obj, unfolded p, OF TrueI TrueI refl] v
    by (auto simp del: class_simps)
qed

text \<open>
  A run of separators is not skipped as one: the name \<^verbatim>\<open>Eth1--2\<close> gets the
  four segments \<open>-1, 1, 1, 2\<close>, the run \<^verbatim>\<open>1\<close> being closed twice, and
  a name with eight separators behind its number makes the parser write behind the eighth segment.
\<close>

theorem parse_port_name_repeated_separators:
  "map_option (\<lambda>(st, item). (st, map seg_num (take (seg_count item) (segments item))))
      (parse_port_name (Some ''Eth1--2'') create_port_obj) = Some (PNG_OK, [-1, 1, 1, 2]) \<and>
   parse_port_name (Some ''1---------'') create_port_obj = None"
  by code_simp

subsection \<open>Registration\<close>

text \<open>
  C14.  Registering a name returns when the model is processed, when the memory for a port is missing, and
  for every name without repeated separators after its first run and without a number of \<open>2 ^ 31\<close> or
  more, which it accepts exactly when it has a digit and at most eight runs.  Whenever it returns,
  whichever allocations fail, the model is well formed: both maps in key order, every port with eight
  segments of numbers not below -1, at most eight of them in use, and no offset.  The port is in the map
  unless the memory for it is missing, and a processed model refuses the name and stays as it is.
\<close>

theorem pn_gen_register_keeps_model:
  assumes "pn_model_ok model"
  shows "(processed model \<or> \<not> alloc_port \<or>
       single_seps (dropWhile (\<lambda>c. char_class c = 0) name) \<and> (\<forall>p \<in> set (pieces name). piece_value p < 2 ^ 31) \<longrightarrow>
       (\<exists>st model'. pn_gen_register alloc_port alloc_count name model = Some (st, model') \<and>
          (\<not> processed model \<and> alloc_port \<longrightarrow>
             st = (if length (pieces name) \<le> MAX_SEGS \<and> (\<exists>c \<in> set name. isdigit c) then PNG_OK else PNG_INVALID_PORT_NAME)))) \<and>
    (\<forall>st model'. pn_gen_register alloc_port alloc_count name model = Some (st, model') \<longrightarrow>
       pn_model_ok model' \<and> processed model' = processed model \<and>
       (if processed model then st = PNG_ALREADY_PROCESSED \<and> model' = model
        else if \<not> alloc_port then st = PNG_NO_MEMORY \<and> model' = model
        else omap_get (cal_str_key 0 name None) (port_map model') \<noteq> None \<and>
          (\<forall>j v. omap_get j (port_map model) = Some v \<longrightarrow> omap_get j (port_map model') = Some v)))"
    (is "(?returns \<longrightarrow> ?some) \<and> (\<forall>st model'. ?r = Some (st, model') \<longrightarrow> ?kept st model')")
proof -
  have A: ?some if returns: ?returns
  proof (cases "processed model \<or> \<not> alloc_port")
    case True
    then show ?thesis by (auto simp: pn_gen_register_def)
  next
    case False
    have "length (segments create_port_obj) = MAX_SEGS" by (simp add: create_port_obj_def)
    then obtain item where "parse_port_name (Some name) create_port_obj =
        Some (if length (pieces name) \<le> MAX_SEGS \<and> has_digit name then PNG_OK else PNG_INVALID_PORT_NAME, item)"
      using returns False parse_port_name_correct [of name create_port_obj] unfolding values_ok_def by blast
    then show ?thesis using False by (auto simp: pn_gen_register_def Let_def has_digit_def del: class_simps)
  qed
  have B: "?kept st model'" if r: "?r = Some (st, model')" for st model'
  proof -
    have "omap_ok (port_map model)" using assms by (simp add: pn_model_ok_def)
  then have "processed model' = processed model \<and>
      (if processed model then st = PNG_ALREADY_PROCESSED \<and> model' = model
       else if \<not> alloc_port then st = PNG_NO_MEMORY \<and> model' = model
       else omap_get (cal_str_key 0 name None) (port_map model') \<noteq> None \<and>
         (\<forall>j v. omap_get j (port_map model) = Some v \<longrightarrow> omap_get j (port_map model') = Some v))"
    using r by (auto simp: pn_gen_register_def Let_def omap_get_insert split: option.splits png_status.splits if_splits)
    then show ?thesis using register_keeps [OF assms r] by simp
  qed
  show ?thesis using A B by blast
qed

theorem pn_gen_register_keeps_model_witness:
  "\<exists>model'. pn_gen_register True (\<lambda>_. True) ''p1'' pn_gen_init = Some (PNG_OK, model') \<and> pn_model_ok model'"
proof -
  let ?n = "''p1''"
  have n: "single_seps (dropWhile (\<lambda>c. char_class c = 0) ?n) = True" "(\<forall>p \<in> set (pieces ?n). piece_value p < 2 ^ 31) = True"
    "(length (pieces ?n) \<le> MAX_SEGS) = True" "(\<exists>c \<in> set ?n. isdigit c) = True" "processed pn_gen_init = False"
    by code_simp+
  have "pn_model_ok pn_gen_init" by (simp add: pn_model_ok_def pn_gen_init_def omap_ok_def)
  from pn_gen_register_keeps_model [OF this, of True ?n "\<lambda>_. True", unfolded n] show ?thesis by auto
qed

subsection \<open>Processing\<close>

text \<open>
  \<^verbatim>\<open>sort_groups\<close> returns the groups it was given, in the order of
  \<^verbatim>\<open>compare_groups\<close>: larger groups first, then by smallest number, then by key.
\<close>

theorem sort_groups_sorts:
  "sorted_wrt (\<lambda>a b. compare_groups a b \<le> 0) (sort_groups gs) \<and> mset (sort_groups gs) = mset gs"
  by (rule sort_groups_correct)

text \<open>
  C15.  Behind \<^verbatim>\<open>resolve_conflicts\<close> the shifted number ranges of the groups are
  disjoint, follow one another and start above 0; the groups keep their keys and ranges.
\<close>

theorem resolve_groups_disjoint:
  assumes "\<forall>g \<in> set gs. g_min g \<le> g_max g \<and> g_offset g = 0"
  shows "sorted_wrt (\<lambda>a b. uint (g_max a) + g_offset a < uint (g_min b) + g_offset b) (resolve_groups gs) \<and>
    (\<forall>g \<in> set (resolve_groups gs). uint (g_min g) + g_offset g \<ge> 1) \<and>
    map (\<lambda>g. (g_key g, g_min g, g_max g)) (resolve_groups gs) =
      map (\<lambda>g. (g_key g, g_min g, g_max g)) (sort_groups gs)"
  using resolve_groups_correct [OF assms] resolve_groups_keeps [of gs]
  by (simp add: group_lo_def group_hi_def)

theorem resolve_groups_disjoint_witness:
  "sorted_wrt (\<lambda>a b. uint (g_max a) + g_offset a < uint (g_min b) + g_offset b)
     (resolve_groups [\<lparr>g_key = 1, g_min = 0, g_max = 4, g_count = 2, g_offset = 0\<rparr>,
                      \<lparr>g_key = 2, g_min = 2, g_max = 3, g_count = 3, g_offset = 0\<rparr>])"
  using resolve_groups_disjoint [of "[\<lparr>g_key = 1, g_min = 0, g_max = 4, g_count = 2, g_offset = 0\<rparr>,
    \<lparr>g_key = 2, g_min = 2, g_max = 3, g_count = 3, g_offset = 0\<rparr>]"] by simp

text \<open>
  C16.  When processing has succeeded, \<^verbatim>\<open>pn_gen_get_port\<close> gives names with a number segment, whose
  shifted numbers are below \<open>2 ^ 16\<close>, a positive number without changing the model, and two such
  names whose keys differ get the same number only when they are in one group and had the same
  number in their names: ports of different groups never collide.  The model keeps its ports in
  their order and is locked.
\<close>

theorem pn_gen_process_separates_groups:
  assumes "pn_model_ok model" "pn_gen_process alloc_full alloc_group model = (PNG_OK, model')"
    and "omap_get (cal_str_key 0 name1 None) (port_map model') = Some p1" "choose_segment (seg_map model) p1 < MAX_SEGS"
    and "omap_get (cal_str_key 0 name2 None) (port_map model') = Some p2" "choose_segment (seg_map model) p2 < MAX_SEGS"
    and "cal_str_key 0 name1 None \<noteq> cal_str_key 0 name2 None"
    and "uint (port_num p1) + port_offset p1 < 2 ^ 16" "uint (port_num p2) + port_offset p2 < 2 ^ 16"
  shows "processed model' \<and> map fst (port_map model') = map fst (port_map model) \<and>
    snd (pn_gen_get_port af ag name1 model') = model' \<and> fst (pn_gen_get_port af ag name1 model') > 0 \<and>
    (fst (pn_gen_get_port af ag name1 model') = fst (pn_gen_get_port af ag name2 model') \<longrightarrow>
       group_key p1 = group_key p2 \<and> port_num p1 = port_num p2)"
proof -
  let ?v = "\<lambda>p. uint (port_num p) + port_offset p"
  have in_map: "(cal_str_key 0 name1 None, p1) \<in> set (port_map model')" "(cal_str_key 0 name2 None, p2) \<in> set (port_map model')"
    using assms(3,5) by (auto simp: omap_get_def map_of_SomeD)
  note N = process_numbers [OF assms(1,2), unfolded pn_value_def]
  have P: "1 \<le> ?v p1" "1 \<le> ?v p2" "?v p1 = ?v p2 \<longrightarrow> group_key p1 = group_key p2 \<and> port_num p1 = port_num p2"
    using N [OF in_map(1) assms(4), of "cal_str_key 0 name2 None" p2] N [OF in_map(2) assms(6)] in_map(2) assms(6,7)
    by blast+
  have K: "processed model'" "map fst (port_map model') = map fst (port_map model)"
    using process_keys [OF assms(2)] by simp_all
  have g: "pn_gen_get_port af ag name1 model' = (of_int (?v p1), model')"
    "pn_gen_get_port af ag name2 model' = (of_int (?v p2), model')"
    using K(1) assms(3,5) by (simp_all add: pn_gen_get_port_def)
  have word: "uint (of_int v :: uint16) = v" if "1 \<le> v" "v < 2 ^ 16" for v :: int
    using that by (simp add: uint_word_of_int)
  have u: "uint (of_int (?v p1) :: uint16) = ?v p1" "uint (of_int (?v p2) :: uint16) = ?v p2"
    by (rule word [OF P(1) assms(8)], rule word [OF P(2) assms(9)])
  have "(0 :: uint16) < of_int (?v p1)" unfolding word_less_def u(1) using P(1) by simp
  moreover have "?v p1 = ?v p2" if "(of_int (?v p1) :: uint16) = of_int (?v p2)" using that u by metis
  ultimately show ?thesis using P(3) K unfolding g fst_conv snd_conv by blast
qed

definition two_ports :: pn_gen where
  "two_ports =
     (case pn_gen_register True (\<lambda>_. True) ''A1'' pn_gen_init of
        None \<Rightarrow> pn_gen_init
      | Some (_, m) \<Rightarrow>
          (case pn_gen_register True (\<lambda>_. True) ''B1'' m of None \<Rightarrow> pn_gen_init | Some (_, m) \<Rightarrow> m))"

theorem pn_gen_process_separates_groups_witness:
  "let m = snd (pn_gen_process True (\<lambda>_. True) two_ports) in
     fst (pn_gen_get_port True (\<lambda>_. True) ''A1'' m) > 0 \<and>
     fst (pn_gen_get_port True (\<lambda>_. True) ''A1'' m) \<noteq> fst (pn_gen_get_port True (\<lambda>_. True) ''B1'' m)"
proof -
  let ?m = "snd (pn_gen_process True (\<lambda>_. True) two_ports)"
  let ?k1 = "cal_str_key 0 ''A1'' None" and ?k2 = "cal_str_key 0 ''B1'' None"
  let ?p1 = "the (omap_get ?k1 (port_map ?m))" and ?p2 = "the (omap_get ?k2 (port_map ?m))"
  have "pn_model_ok two_ports" "fst (pn_gen_process True (\<lambda>_. True) two_ports) = PNG_OK" "?k1 \<noteq> ?k2"
    "omap_get ?k1 (port_map ?m) \<noteq> None" "omap_get ?k2 (port_map ?m) \<noteq> None"
    "choose_segment (seg_map two_ports) ?p1 < MAX_SEGS" "choose_segment (seg_map two_ports) ?p2 < MAX_SEGS"
    "group_key ?p1 \<noteq> group_key ?p2" "uint (port_num ?p1) + port_offset ?p1 < 2 ^ 16"
    "uint (port_num ?p2) + port_offset ?p2 < 2 ^ 16"
    by code_simp+
  moreover from this have "omap_get ?k1 (port_map ?m) = Some ?p1" "omap_get ?k2 (port_map ?m) = Some ?p2"
    "pn_gen_process True (\<lambda>_. True) two_ports = (PNG_OK, ?m)"
    by (auto simp: prod_eq_iff)
  ultimately show ?thesis
    using pn_gen_process_separates_groups [of two_ports True "\<lambda>_. True" ?m "''A1''" ?p1 "''B1''" ?p2 True "\<lambda>_. True"]
    unfolding Let_def by blast
qed

end
