(* ===== verification/Point_Compare.thy ===== *)
theory Point_Compare
  imports Point
begin

text \<open>
  The comparisons of objects with a point and the compression of points, of
  \<^verbatim>\<open>Topology/point.c\<close>.  A comparison that walks a copied list head is \<open>None\<close>.
\<close>

subsection \<open>Comparisons\<close>

text \<open>Two walks, the second only when the first finds nothing.\<close>

definition pair_has :: "(node \<Rightarrow> bool) \<Rightarrow> dlist \<Rightarrow> dlist \<Rightarrow> bool option" where
  "pair_has P l1 l2 =
     (case list_has P l1 of None \<Rightarrow> None | Some True \<Rightarrow> Some True | Some False \<Rightarrow> list_has P l2)"

definition ComparePortPoint :: "fabric \<Rightarrow> port \<Rightarrow> point option \<Rightarrow> bool option" where
  "ComparePortPoint g portp point =
     (if \<not> PointValid point then Some True
      else case p_u (the point) of
          P_None \<Rightarrow> Some False
        | P_Port p \<Rightarrow> Some (portp = p)
        | P_PortList l \<Rightarrow> list_has (\<lambda>portp2. portp = portp2) l
        | P_Node n \<Rightarrow> Some (port_nodep g portp = n)
        | P_NodeList l \<Rightarrow> list_has (\<lambda>nodep. port_nodep g portp = nodep) l
        | P_System s \<Rightarrow> Some (node_systemp g (port_nodep g portp) = s)
        | P_NodePairList l1 l2 \<Rightarrow> pair_has (\<lambda>nodep. port_nodep g portp = nodep) l1 l2
        | P_Ioc _ \<Rightarrow> Some False
        | P_IocList _ \<Rightarrow> Some False)"

definition CompareNodePoint :: "fabric \<Rightarrow> node \<Rightarrow> point option \<Rightarrow> bool option" where
  "CompareNodePoint g nodep point =
     (if \<not> PointValid point then Some True
      else case p_u (the point) of
          P_None \<Rightarrow> Some False
        | P_Port p \<Rightarrow> Some (nodep = port_nodep g p)
        | P_PortList l \<Rightarrow> list_has (\<lambda>portp. nodep = port_nodep g portp) l
        | P_Node n \<Rightarrow> Some (nodep = n)
        | P_NodeList l \<Rightarrow> list_has (\<lambda>nodep2. nodep = nodep2) l
        | P_Ioc i \<Rightarrow> Some (nodep = iou_nodep g (ioc_ioup g i))
        | P_IocList l \<Rightarrow> list_has (\<lambda>iocp. nodep = iou_nodep g (ioc_ioup g iocp)) l
        | P_System s \<Rightarrow> Some (node_systemp g nodep = s)
        | P_NodePairList l1 l2 \<Rightarrow> pair_has (\<lambda>nodep2. nodep = nodep2) l1 l2)"

definition CompareIouPoint :: "fabric \<Rightarrow> iou \<Rightarrow> point option \<Rightarrow> bool option" where
  "CompareIouPoint g ioup point = CompareNodePoint g (iou_nodep g ioup) point"

definition CompareIocPoint :: "fabric \<Rightarrow> ioc \<Rightarrow> point option \<Rightarrow> bool option" where
  "CompareIocPoint g iocp point =
     (if \<not> PointValid point then Some True
      else case p_u (the point) of
          P_Ioc i \<Rightarrow> Some (iocp = i)
        | P_IocList l \<Rightarrow> list_has (\<lambda>iocp2. iocp = iocp2) l
        | _ \<Rightarrow> CompareNodePoint g (iou_nodep g (ioc_ioup g iocp)) point)"

definition CompareSystemPoint :: "fabric \<Rightarrow> sys \<Rightarrow> point option \<Rightarrow> bool option" where
  "CompareSystemPoint g systemp point =
     (if \<not> PointValid point then Some True
      else case p_u (the point) of
          P_None \<Rightarrow> Some False
        | P_Port p \<Rightarrow> Some (systemp = node_systemp g (port_nodep g p))
        | P_PortList l \<Rightarrow> list_has (\<lambda>portp. systemp = node_systemp g (port_nodep g portp)) l
        | P_Node n \<Rightarrow> Some (systemp = node_systemp g n)
        | P_NodeList l \<Rightarrow> list_has (\<lambda>nodep. systemp = node_systemp g nodep) l
        | P_System s \<Rightarrow> Some (systemp = s)
        | P_NodePairList l1 l2 \<Rightarrow> pair_has (\<lambda>nodep. systemp = node_systemp g nodep) l1 l2
        | P_Ioc _ \<Rightarrow> Some False
        | P_IocList _ \<Rightarrow> Some False)"

definition expected_has :: "expected \<Rightarrow> expected_u \<Rightarrow> bool option" where
  "expected_has e u = (case u of
       E_None \<Rightarrow> Some False
     | E_One e2 \<Rightarrow> Some (e = e2)
     | E_List l \<Rightarrow> list_has (\<lambda>e2. e = e2) l)"

definition CompareExpectedNodePoint :: "expected \<Rightarrow> point option \<Rightarrow> bool option" where
  "CompareExpectedNodePoint enodep point =
     (if \<not> PointValid point then Some True else expected_has enodep (p_enode (the point)))"

definition CompareExpectedSMPoint :: "expected \<Rightarrow> point option \<Rightarrow> bool option" where
  "CompareExpectedSMPoint esmp point =
     (if \<not> PointValid point then Some True else expected_has esmp (p_esm (the point)))"

definition CompareExpectedLinkPoint :: "expected \<Rightarrow> point option \<Rightarrow> bool option" where
  "CompareExpectedLinkPoint elinkp point =
     (if \<not> PointValid point then Some True else expected_has elinkp (p_elink (the point)))"

definition PointListAppendUniquePort ::
  "fabric \<Rightarrow> outcomes \<Rightarrow> point \<Rightarrow> port \<Rightarrow> (fstatus \<times> point) option" where
  "PointListAppendUniquePort g ok point portp =
     (if point_tag (p_u point) = POINT_TYPE_PORT_LIST then
        (case ComparePortPoint g portp (Some point) of
           None \<Rightarrow> None
         | Some True \<Rightarrow> Some (FSUCCESS, point)
         | Some False \<Rightarrow> PointListAppend ok point POINT_TYPE_PORT_LIST portp)
      else PointListAppend ok point POINT_TYPE_PORT_LIST portp)"

subsection \<open>Compression\<close>

text \<open>
  Destroying the point and making it the simple one.  The object of an empty list's head
  does not exist: \<open>None\<close>.
\<close>

definition become :: "point_type \<Rightarrow> nat \<Rightarrow> point \<Rightarrow> point option" where
  "become type obj point = map_option (\<lambda>p. PointInitSimple p type obj) (PointFabricDestroy point)"

definition compress_list ::
  "dlist \<Rightarrow> point_type \<Rightarrow> (nat \<Rightarrow> nat) \<Rightarrow> (nat \<Rightarrow> nat) \<Rightarrow> point_type \<Rightarrow> (nat \<Rightarrow> nat) \<Rightarrow> point \<Rightarrow> point option" where
  "compress_list l single up count whole obj point =
     (case list_objs l of
        None \<Rightarrow> None
      | Some [] \<Rightarrow> None
      | Some (x # xs) \<Rightarrow>
          if length (x # xs) = 1 then become single x point
          else if length (x # xs) = count (up x) then
            (if \<forall>y \<in> set (x # xs). up x = up y then become whole (obj (up x)) point else Some point)
          else Some point)"

definition PointFabricCompress :: "fabric \<Rightarrow> point \<Rightarrow> point option" where
  "PointFabricCompress g point = (case p_u point of
       P_PortList l \<Rightarrow> compress_list l POINT_TYPE_PORT (port_nodep g) (node_port_count g)
         POINT_TYPE_NODE (\<lambda>nodep. nodep) point
     | P_NodeList l \<Rightarrow> compress_list l POINT_TYPE_NODE (node_systemp g) (system_node_count g)
         POINT_TYPE_SYSTEM (\<lambda>systemp. systemp) point
     | P_IocList l \<Rightarrow> compress_list l POINT_TYPE_IOC (ioc_ioup g) (iou_ioc_count g)
         POINT_TYPE_NODE (iou_nodep g) point
     | _ \<Rightarrow> Some point)"

text \<open>Only the list count is read before the head: an empty expected list stays.\<close>

definition expected_compress :: "expected_u \<Rightarrow> expected_u option" where
  "expected_compress u = (case u of
       E_List l \<Rightarrow> (case list_objs l of
           None \<Rightarrow> None
         | Some [e] \<Rightarrow> Some (expected_simple EXPECTED_ONE e)
         | Some _ \<Rightarrow> Some u)
     | _ \<Rightarrow> Some u)"

definition PointEnodeCompress :: "point \<Rightarrow> point option" where
  "PointEnodeCompress point = map_option (\<lambda>u. point\<lparr>p_enode := u\<rparr>) (expected_compress (p_enode point))"

definition PointEsmCompress :: "point \<Rightarrow> point option" where
  "PointEsmCompress point = map_option (\<lambda>u. point\<lparr>p_esm := u\<rparr>) (expected_compress (p_esm point))"

definition PointElinkCompress :: "point \<Rightarrow> point option" where
  "PointElinkCompress point = map_option (\<lambda>u. point\<lparr>p_elink := u\<rparr>) (expected_compress (p_elink point))"

definition PointCompress :: "fabric \<Rightarrow> point \<Rightarrow> point option" where
  "PointCompress g point =
     Option.bind (PointFabricCompress g point) (\<lambda>point.
     Option.bind (PointEnodeCompress point) (\<lambda>point.
     Option.bind (PointEsmCompress point) PointElinkCompress))"

end
