(* ===== verification/Point_Props.thy ===== *)
theory Point_Props
  imports Point_Compare
begin

text \<open>
  The properties of points.  A point is \<open>point_ok\<close> when it owns its lists; on such a
  point every function is defined.
\<close>

fun list_ok :: "dlist \<Rightarrow> bool" where
  "list_ok (DList _) \<longleftrightarrow> True"
| "list_ok SharedList \<longleftrightarrow> False"

definition u_ok :: "point_u \<Rightarrow> bool" where
  "u_ok u \<longleftrightarrow> (case u of
       P_PortList l \<Rightarrow> list_ok l | P_NodeList l \<Rightarrow> list_ok l | P_IocList l \<Rightarrow> list_ok l
     | P_NodePairList l1 l2 \<Rightarrow> list_ok l1 \<and> list_ok l2 | _ \<Rightarrow> True)"

definition expected_ok :: "expected_u \<Rightarrow> bool" where
  "expected_ok u \<longleftrightarrow> (case u of E_List l \<Rightarrow> list_ok l | _ \<Rightarrow> True)"

definition point_ok :: "point \<Rightarrow> bool" where
  "point_ok p \<longleftrightarrow> u_ok (p_u p) \<and> expected_ok (p_enode p) \<and> expected_ok (p_esm p) \<and> expected_ok (p_elink p)"

lemma list_ok_objs: "list_ok l \<longleftrightarrow> (\<exists>xs. l = DList xs)"
  by (cases l) auto

lemma fabric_destroy_ok: "u_ok (p_u p) \<Longrightarrow> PointFabricDestroy p = Some (p\<lparr>p_u := P_None\<rparr>)"
  by (auto simp: PointFabricDestroy_def u_ok_def ListDestroy_def list_ok_objs split: point_u.splits)

lemma expected_destroy_ok: "expected_ok u \<Longrightarrow> expected_destroy u = Some ()"
  by (auto simp: expected_destroy_def expected_ok_def ListDestroy_def list_ok_objs split: expected_u.splits)

text \<open>A destroyed point keeps its flags only.\<close>

definition emptied :: "point \<Rightarrow> point" where
  "emptied p = p\<lparr>p_u := P_None, p_enode := E_None, p_esm := E_None, p_elink := E_None\<rparr>"

lemma destroy_ok: "point_ok p \<Longrightarrow> PointDestroy p = Some (emptied p)"
  by (simp add: PointDestroy_def PointEnodeDestroy_def PointEsmDestroy_def PointElinkDestroy_def
      fabric_destroy_ok expected_destroy_ok point_ok_def emptied_def)

lemma destroy_and_return_ok: "point_ok p \<Longrightarrow> destroy_and_return st p = Some (st, emptied p)"
  by (simp add: destroy_and_return_def destroy_ok)

lemma emptied_u [simp]: "emptied (p\<lparr>p_u := u\<rparr>) = emptied p"
  by (simp add: emptied_def)

subsection \<open>Appending\<close>

text \<open>The list of a kind with the given contents, and the contents of a list of a kind.\<close>

fun listed :: "point_type \<Rightarrow> nat list \<Rightarrow> point_u" where
  "listed POINT_TYPE_PORT_LIST xs = P_PortList (DList xs)"
| "listed POINT_TYPE_NODE_LIST xs = P_NodeList (DList xs)"
| "listed POINT_TYPE_IOC_LIST xs = P_IocList (DList xs)"
| "listed _ xs = P_None"

definition list_kind :: "point_type \<Rightarrow> bool" where
  "list_kind t \<longleftrightarrow> t = POINT_TYPE_PORT_LIST \<or> t = POINT_TYPE_NODE_LIST \<or> t = POINT_TYPE_IOC_LIST"

fun contents :: "point_u \<Rightarrow> nat list" where
  "contents (P_PortList (DList xs)) = xs"
| "contents (P_NodeList (DList xs)) = xs"
| "contents (P_IocList (DList xs)) = xs"
| "contents _ = []"

lemma append_ok:
  assumes "point_ok p"
  shows "PointListAppend ok p type obj =
    (if list_kind type \<and> (p_u p = P_None \<and> fst ok \<or> point_tag (p_u p) = type) \<and> snd ok
     then Some (FSUCCESS, p\<lparr>p_u := listed type (contents (p_u p) @ [obj])\<rparr>)
     else Some (if list_kind type \<and> (p_u p = P_None \<or> point_tag (p_u p) = type) \<or>
                   type = POINT_TYPE_NODE_PAIR_LIST \<and> p_u p = P_None \<and> \<not> fst ok
                then FINSUFFICIENT_MEMORY else FINVALID_OPERATION, emptied p))"
  using assms
  by (cases "p_u p"; cases type)
     (auto simp: PointListAppend_def PointInitList_def Let_def destroy_and_return_ok point_ok_def u_ok_def
        insert_or_destroy_def ListInsertTail_def list_kind_def list_ok_objs emptied_def)

lemma list_has_objs [simp]: "list_has P (DList xs) = Some (\<exists>x \<in> set xs. P x)"
  by (simp add: list_has_def)

lemma compare_port_list:
  "p_u p = P_PortList (DList xs) \<Longrightarrow> ComparePortPoint g portp (Some p) = Some (portp \<in> set xs)"
  by (auto simp: ComparePortPoint_def PointValid_def)

definition add_unique :: "nat \<Rightarrow> nat list \<Rightarrow> nat list" where
  "add_unique x xs = (if x \<in> set xs then xs else xs @ [x])"

lemma append_unique_ok:
  assumes "point_ok p" "p_u p = P_None \<or> point_tag (p_u p) = POINT_TYPE_PORT_LIST" "ok = (True, True)"
  shows "PointListAppendUniquePort g ok p portp =
    Some (FSUCCESS, p\<lparr>p_u := P_PortList (DList (add_unique portp (contents (p_u p))))\<rparr>)"
proof (cases "p_u p = P_None")
  case True
  then show ?thesis using assms append_ok [OF assms(1), of ok POINT_TYPE_PORT_LIST portp]
    by (simp add: PointListAppendUniquePort_def list_kind_def add_unique_def)
next
  case False
  with assms(1,2) obtain xs where xs: "p_u p = P_PortList (DList xs)"
    by (cases "p_u p") (auto simp: point_ok_def u_ok_def list_ok_objs)
  then have "p\<lparr>p_u := P_PortList (DList xs)\<rparr> = p" by (cases p) simp
  then show ?thesis using assms append_ok [OF assms(1), of ok POINT_TYPE_PORT_LIST portp] compare_port_list [OF xs] xs
    by (simp add: PointListAppendUniquePort_def list_kind_def add_unique_def)
qed

lemma append_unique_each:
  "point_ok p \<Longrightarrow> p_u p = P_PortList (DList xs) \<Longrightarrow>
     append_each (\<lambda>p k portp. PointListAppendUniquePort g (True, True) p portp) k ps p =
       Some (FSUCCESS, p\<lparr>p_u := P_PortList (DList (fold add_unique ps xs))\<rparr>)"
proof (induction ps arbitrary: p xs k)
  case Nil
  then show ?case by (cases p) simp
next
  case (Cons x ps)
  let ?q = "p\<lparr>p_u := P_PortList (DList (add_unique x xs))\<rparr>"
  have "PointListAppendUniquePort g (True, True) p x = Some (FSUCCESS, ?q)"
    using append_unique_ok [OF Cons.prems(1), of "(True, True)" g x] Cons.prems(2) by simp
  moreover have "point_ok ?q" using Cons.prems(1) by (simp add: point_ok_def u_ok_def)
  ultimately show ?case using Cons.IH [of ?q "add_unique x xs" "k + 1"] by simp
qed

lemma fold_add_unique:
  "distinct xs \<Longrightarrow> distinct (fold add_unique ps xs) \<and> set (fold add_unique ps xs) = set xs \<union> set ps"
  by (induction ps arbitrary: xs) (auto simp: add_unique_def)

subsection \<open>Compression\<close>

text \<open>
  The fabric around the points: \<open>Ps\<close>, \<open>Ns\<close> and \<open>Is\<close> are its ports, nodes and
  IOCs, the counts are those of the maps that hold them, and a node has at most one IO unit.
\<close>

definition fabric_ok :: "fabric \<Rightarrow> port set \<Rightarrow> node set \<Rightarrow> ioc set \<Rightarrow> bool" where
  "fabric_ok g Ps Ns Is \<longleftrightarrow>
     (\<forall>p \<in> Ps. port_nodep g p \<in> Ns) \<and> (\<forall>i \<in> Is. iou_nodep g (ioc_ioup g i) \<in> Ns) \<and>
     (\<forall>n. finite {p \<in> Ps. port_nodep g p = n} \<and> card {p \<in> Ps. port_nodep g p = n} = node_port_count g n) \<and>
     (\<forall>s. finite {n \<in> Ns. node_systemp g n = s} \<and> card {n \<in> Ns. node_systemp g n = s} = system_node_count g s) \<and>
     (\<forall>u. finite {i \<in> Is. ioc_ioup g i = u} \<and> card {i \<in> Is. ioc_ioup g i = u} = iou_ioc_count g u) \<and>
     (\<forall>i \<in> Is. \<forall>j \<in> Is. iou_nodep g (ioc_ioup g i) = iou_nodep g (ioc_ioup g j) \<longrightarrow> ioc_ioup g i = ioc_ioup g j)"

text \<open>The objects listed by a point are distinct objects of the fabric.\<close>

definition listed_in :: "port set \<Rightarrow> node set \<Rightarrow> ioc set \<Rightarrow> point_u \<Rightarrow> bool" where
  "listed_in Ps Ns Is u \<longleftrightarrow> distinct (contents u) \<and>
     (case u of P_PortList _ \<Rightarrow> set (contents u) \<subseteq> Ps | P_NodeList _ \<Rightarrow> set (contents u) \<subseteq> Ns
      | P_IocList _ \<Rightarrow> set (contents u) \<subseteq> Is | _ \<Rightarrow> True)"

text \<open>A distinct list of members of one class that has the size of the class is the class.\<close>

lemma list_is_class:
  assumes "distinct xs" "set xs \<subseteq> A" "\<forall>y \<in> set xs. f y = c"
    and "finite {a \<in> A. f a = c}" "length xs = card {a \<in> A. f a = c}"
  shows "set xs = {a \<in> A. f a = c}"
  using assms by (intro card_subset_eq) (auto simp: distinct_card)

lemma ex_class:
  "x \<in> set xs \<Longrightarrow> \<forall>y \<in> set xs. f y = f x \<Longrightarrow> (\<exists>y \<in> set xs. P (f y)) = P (f x)"
  by metis

text \<open>The two ways to compress a list.\<close>

lemma compress_list_cases:
  assumes "compress_list (DList xs) single up count whole obj p = Some q" "u_ok (p_u p)"
  obtains (same) "q = p"
    | (single) x where "xs = [x]" "q = PointInitSimple p single x"
    | (whole) x where "x \<in> set xs" "length xs = count (up x)" "\<forall>y \<in> set xs. up y = up x"
        "q = PointInitSimple p whole (obj (up x))"
proof (cases xs)
  case Nil
  with assms show thesis by (simp add: compress_list_def)
next
  case (Cons x ys)
  have b: "become t v p = Some (PointInitSimple p t v)" for t v
    using fabric_destroy_ok [OF assms(2)] by (simp add: become_def PointInitSimple_def)
  consider "ys = []" | "ys \<noteq> []" "length xs = count (up x)" "\<forall>y \<in> set xs. up x = up y" |
    "ys \<noteq> []" "\<not> (length xs = count (up x) \<and> (\<forall>y \<in> set xs. up x = up y))" by blast
  then show thesis
  proof cases
    case 1
    with assms Cons b show thesis by (intro single [of x]) (auto simp: compress_list_def)
  next
    case 2
    with assms Cons b show thesis by (intro whole [of x]) (auto simp: compress_list_def)
  next
    case 3
    with assms Cons show thesis by (intro same) (auto simp: compress_list_def split: if_splits)
  qed
qed

text \<open>What a point matches in the fabric.\<close>

definition same_nodes :: "fabric \<Rightarrow> node set \<Rightarrow> ioc set \<Rightarrow> point \<Rightarrow> point \<Rightarrow> bool" where
  "same_nodes g Ns Is p q \<longleftrightarrow>
     (\<forall>n \<in> Ns. CompareNodePoint g n (Some q) = CompareNodePoint g n (Some p)) \<and>
     (\<forall>i \<in> Is. CompareIocPoint g i (Some q) = CompareIocPoint g i (Some p))"

definition same_ports :: "fabric \<Rightarrow> port set \<Rightarrow> point \<Rightarrow> point \<Rightarrow> bool" where
  "same_ports g Ps p q \<longleftrightarrow>
     (\<forall>portp \<in> Ps. ComparePortPoint g portp (Some q) = ComparePortPoint g portp (Some p)) \<and>
     (\<forall>s. CompareSystemPoint g s (Some q) = CompareSystemPoint g s (Some p))"

lemmas compare_defs = CompareNodePoint_def CompareIocPoint_def ComparePortPoint_def CompareSystemPoint_def
  PointValid_def PointInitSimple_def

lemma same_refl [simp]: "same_nodes g Ns Is p p" "same_ports g Ps p p"
  by (simp_all add: same_nodes_def same_ports_def)

lemma compress_ports:
  assumes g: "fabric_ok g Ps Ns Is" and u: "p_u p = P_PortList (DList xs)" and xs: "distinct xs" "set xs \<subseteq> Ps"
    and q: "PointFabricCompress g p = Some q"
  shows "same_nodes g Ns Is p q \<and> same_ports g Ps p q \<and> p_u q \<noteq> P_None \<and> q = p\<lparr>p_u := p_u q\<rparr>"
proof -
  have "compress_list (DList xs) POINT_TYPE_PORT (port_nodep g) (node_port_count g) POINT_TYPE_NODE (\<lambda>n. n) p = Some q"
    using q u by (simp add: PointFabricCompress_def)
  moreover have "u_ok (p_u p)" using u by (simp add: u_ok_def)
  ultimately show ?thesis
  proof (cases rule: compress_list_cases)
    case same
    then show ?thesis using u by (cases p) simp
  next
    case (single x)
    then show ?thesis using u by (simp add: same_nodes_def same_ports_def compare_defs)
  next
    case (whole x)
    have "finite {a \<in> Ps. port_nodep g a = port_nodep g x} \<and> card {a \<in> Ps. port_nodep g a = port_nodep g x} = node_port_count g (port_nodep g x)"
      using g unfolding fabric_ok_def by blast
    then have "set xs = {a \<in> Ps. port_nodep g a = port_nodep g x}"
      using list_is_class [OF xs whole(3)] whole(2) by simp
    then have "portp \<in> set xs \<longleftrightarrow> port_nodep g portp = port_nodep g x" if "portp \<in> Ps" for portp
      using that by blast
    then have "\<forall>portp \<in> Ps. ComparePortPoint g portp (Some q) = ComparePortPoint g portp (Some p)"
      using whole(4) u by (simp add: compare_defs)
    moreover have "(\<exists>y \<in> set xs. n = port_nodep g y) = (n = port_nodep g x)" for n
      using ex_class [OF whole(1,3), of "\<lambda>v. n = v"] .
    then have "CompareNodePoint g n (Some q) = CompareNodePoint g n (Some p)"
      "CompareIocPoint g n (Some q) = CompareIocPoint g n (Some p)" for n
      using whole(4) u by (simp_all add: compare_defs)
    moreover have "(\<exists>y \<in> set xs. s = node_systemp g (port_nodep g y)) = (s = node_systemp g (port_nodep g x))" for s
      using ex_class [OF whole(1,3), of "\<lambda>v. s = node_systemp g v"] .
    then have "CompareSystemPoint g s (Some q) = CompareSystemPoint g s (Some p)" for s
      using whole(4) u by (simp add: compare_defs)
    ultimately show ?thesis using whole(4) by (simp add: same_nodes_def same_ports_def PointInitSimple_def)
  qed
qed

lemma compress_nodes:
  assumes g: "fabric_ok g Ps Ns Is" and u: "p_u p = P_NodeList (DList xs)" and xs: "distinct xs" "set xs \<subseteq> Ns"
    and q: "PointFabricCompress g p = Some q"
  shows "same_nodes g Ns Is p q \<and> same_ports g Ps p q \<and> p_u q \<noteq> P_None \<and> q = p\<lparr>p_u := p_u q\<rparr>"
proof -
  have "compress_list (DList xs) POINT_TYPE_NODE (node_systemp g) (system_node_count g) POINT_TYPE_SYSTEM (\<lambda>s. s) p = Some q"
    using q u by (simp add: PointFabricCompress_def)
  moreover have "u_ok (p_u p)" using u by (simp add: u_ok_def)
  ultimately show ?thesis
  proof (cases rule: compress_list_cases)
    case same
    then show ?thesis using u by (cases p) simp
  next
    case (single x)
    then show ?thesis using u by (simp add: same_nodes_def same_ports_def compare_defs)
  next
    case (whole x)
    have "finite {a \<in> Ns. node_systemp g a = node_systemp g x} \<and> card {a \<in> Ns. node_systemp g a = node_systemp g x} = system_node_count g (node_systemp g x)"
      using g unfolding fabric_ok_def by blast
    then have "set xs = {a \<in> Ns. node_systemp g a = node_systemp g x}"
      using list_is_class [OF xs whole(3)] whole(2) by simp
    then have m: "n \<in> set xs \<longleftrightarrow> node_systemp g n = node_systemp g x" if "n \<in> Ns" for n
      using that by blast
    have "port_nodep g portp \<in> Ns" if "portp \<in> Ps" for portp using g that by (simp add: fabric_ok_def)
    then have "\<forall>portp \<in> Ps. ComparePortPoint g portp (Some q) = ComparePortPoint g portp (Some p)"
      using whole(4) u m by (simp add: compare_defs)
    moreover have "\<forall>n \<in> Ns. CompareNodePoint g n (Some q) = CompareNodePoint g n (Some p)"
      using whole(4) u m by (simp add: compare_defs)
    moreover have "iou_nodep g (ioc_ioup g i) \<in> Ns" if "i \<in> Is" for i using g that by (simp add: fabric_ok_def)
    then have "\<forall>i \<in> Is. CompareIocPoint g i (Some q) = CompareIocPoint g i (Some p)"
      using whole(4) u m by (simp add: compare_defs)
    moreover have "(\<exists>y \<in> set xs. s = node_systemp g y) = (s = node_systemp g x)" for s
      using ex_class [OF whole(1,3), of "\<lambda>v. s = v"] .
    then have "CompareSystemPoint g s (Some q) = CompareSystemPoint g s (Some p)" for s
      using whole(4) u by (simp add: compare_defs)
    ultimately show ?thesis using whole(4) by (simp add: same_nodes_def same_ports_def PointInitSimple_def)
  qed
qed

lemma compress_iocs:
  assumes g: "fabric_ok g Ps Ns Is" and u: "p_u p = P_IocList (DList xs)" and xs: "distinct xs" "set xs \<subseteq> Is"
    and q: "PointFabricCompress g p = Some q"
  shows "same_nodes g Ns Is p q \<and> p_u q \<noteq> P_None \<and> q = p\<lparr>p_u := p_u q\<rparr>"
proof -
  have "compress_list (DList xs) POINT_TYPE_IOC (ioc_ioup g) (iou_ioc_count g) POINT_TYPE_NODE (iou_nodep g) p = Some q"
    using q u by (simp add: PointFabricCompress_def)
  moreover have "u_ok (p_u p)" using u by (simp add: u_ok_def)
  ultimately show ?thesis
  proof (cases rule: compress_list_cases)
    case same
    then show ?thesis using u by (cases p) simp
  next
    case (single x)
    then show ?thesis using u by (simp add: same_nodes_def same_ports_def compare_defs)
  next
    case (whole x)
    have "finite {a \<in> Is. ioc_ioup g a = ioc_ioup g x} \<and> card {a \<in> Is. ioc_ioup g a = ioc_ioup g x} = iou_ioc_count g (ioc_ioup g x)"
      using g unfolding fabric_ok_def by blast
    then have "set xs = {a \<in> Is. ioc_ioup g a = ioc_ioup g x}"
      using list_is_class [OF xs whole(3)] whole(2) by simp
    moreover have "x \<in> Is" using whole(1) xs(2) by blast
    moreover have "\<forall>i \<in> Is. \<forall>j \<in> Is. iou_nodep g (ioc_ioup g i) = iou_nodep g (ioc_ioup g j) \<longrightarrow>
        ioc_ioup g i = ioc_ioup g j"
      using g unfolding fabric_ok_def by blast
    ultimately have "i \<in> set xs \<longleftrightarrow> iou_nodep g (ioc_ioup g i) = iou_nodep g (ioc_ioup g x)" if "i \<in> Is" for i
      using that by auto
    then have "\<forall>i \<in> Is. CompareIocPoint g i (Some q) = CompareIocPoint g i (Some p)"
      using whole(4) u by (simp add: compare_defs)
    moreover have "(\<exists>y \<in> set xs. n = iou_nodep g (ioc_ioup g y)) = (n = iou_nodep g (ioc_ioup g x))" for n
      using ex_class [OF whole(1,3), of "\<lambda>v. n = iou_nodep g v"] .
    then have "CompareNodePoint g n (Some q) = CompareNodePoint g n (Some p)" for n
      using whole(4) u by (simp add: compare_defs)
    ultimately show ?thesis using whole(4) by (simp add: same_nodes_def PointInitSimple_def)
  qed
qed

lemma fabric_compress:
  assumes "fabric_ok g Ps Ns Is" "listed_in Ps Ns Is (p_u p)" "point_ok p" "PointFabricCompress g p = Some q"
  shows "same_nodes g Ns Is p q \<and> (point_tag (p_u p) \<noteq> POINT_TYPE_IOC_LIST \<longrightarrow> same_ports g Ps p q) \<and>
    (p_u q = P_None \<longleftrightarrow> p_u p = P_None) \<and> q = p\<lparr>p_u := p_u q\<rparr>"
proof (cases "p_u p")
  case (P_PortList l)
  then obtain xs where "l = DList xs" using assms(3) by (auto simp: point_ok_def u_ok_def list_ok_objs)
  with P_PortList compress_ports [OF assms(1) _ _ _ assms(4), of xs] assms(2) show ?thesis
    by (simp add: listed_in_def)
next
  case (P_NodeList l)
  then obtain xs where "l = DList xs" using assms(3) by (auto simp: point_ok_def u_ok_def list_ok_objs)
  with P_NodeList compress_nodes [OF assms(1) _ _ _ assms(4), of xs] assms(2) show ?thesis
    by (simp add: listed_in_def)
next
  case (P_IocList l)
  then obtain xs where "l = DList xs" using assms(3) by (auto simp: point_ok_def u_ok_def list_ok_objs)
  with P_IocList compress_iocs [OF assms(1) _ _ _ assms(4), of xs] assms(2) show ?thesis
    by (simp add: listed_in_def)
qed (use assms(4) in \<open>auto simp: PointFabricCompress_def\<close>)

lemma expected_compress_keeps:
  "expected_ok u \<Longrightarrow> \<exists>v. expected_compress u = Some v \<and> expected_has e v = expected_has e u \<and> (v = E_None \<longleftrightarrow> u = E_None)"
  by (cases u) (auto simp: expected_compress_def expected_ok_def list_ok_objs expected_has_def expected_simple_def
      split: list.splits)

lemma point_compress:
  assumes "fabric_ok g Ps Ns Is" "listed_in Ps Ns Is (p_u p)" "point_ok p" "PointCompress g p = Some q"
  shows "PointValid (Some q) = PointValid (Some p) \<and> same_nodes g Ns Is p q \<and>
    (point_tag (p_u p) \<noteq> POINT_TYPE_IOC_LIST \<longrightarrow> same_ports g Ps p q) \<and>
    CompareExpectedNodePoint e (Some q) = CompareExpectedNodePoint e (Some p) \<and>
    CompareExpectedSMPoint e (Some q) = CompareExpectedSMPoint e (Some p) \<and>
    CompareExpectedLinkPoint e (Some q) = CompareExpectedLinkPoint e (Some p)"
proof -
  from assms(4) obtain r a b c where r: "PointFabricCompress g p = Some r"
    "expected_compress (p_enode r) = Some a" "expected_compress (p_esm r) = Some b"
    "expected_compress (p_elink r) = Some c" "q = r\<lparr>p_enode := a, p_esm := b, p_elink := c\<rparr>"
    by (auto simp: PointCompress_def PointEnodeCompress_def PointEsmCompress_def PointElinkCompress_def
        bind_eq_Some_conv)
  note f = fabric_compress [OF assms(1-3) r(1)]
  have e: "p_enode r = p_enode p" "p_esm r = p_esm p" "p_elink r = p_elink p"
    by (subst conjunct2 [OF conjunct2 [OF conjunct2 [OF f]]], simp)+
  have x: "expected_has e a = expected_has e (p_enode p)" "a = E_None \<longleftrightarrow> p_enode p = E_None"
    "expected_has e b = expected_has e (p_esm p)" "b = E_None \<longleftrightarrow> p_esm p = E_None"
    "expected_has e c = expected_has e (p_elink p)" "c = E_None \<longleftrightarrow> p_elink p = E_None"
    using r(2-4) assms(3) expected_compress_keeps [of "p_enode p" e] expected_compress_keeps [of "p_esm p" e]
      expected_compress_keeps [of "p_elink p" e]
    by (auto simp: e point_ok_def)
  have v: "PointValid (Some q) = PointValid (Some p)" "PointValid (Some q) = PointValid (Some r)"
    using f x r(5) by (auto simp: PointValid_def e)
  have u: "p_u q = p_u r" by (simp add: r(5))
  have n: "CompareNodePoint g n (Some q) = CompareNodePoint g n (Some r)" for n
    by (simp add: CompareNodePoint_def u v(2))
  have "same_nodes g Ns Is r q" "same_ports g Ps r q"
    by (simp_all add: same_nodes_def same_ports_def n u v(2) CompareIocPoint_def ComparePortPoint_def
        CompareSystemPoint_def split: point_u.split)
  then show ?thesis using f v x r(5)
    by (simp add: same_nodes_def same_ports_def CompareExpectedNodePoint_def CompareExpectedSMPoint_def
        CompareExpectedLinkPoint_def)
qed

subsection \<open>Node pairs\<close>

lemma pair_append_ok:
  assumes "p_u p = P_None \<and> fst ok \<or> p_u p = P_NodePairList (DList xs) (DList ys)" "snd ok"
    and "p_u p = P_None \<Longrightarrow> xs = [] \<and> ys = []"
  shows "PointNodePairListAppend ok p LSIDE_PAIR n =
      Some (FSUCCESS, p\<lparr>p_u := P_NodePairList (DList (xs @ [n])) (DList ys)\<rparr>)"
    "PointNodePairListAppend ok p RSIDE_PAIR n =
      Some (FSUCCESS, p\<lparr>p_u := P_NodePairList (DList xs) (DList (ys @ [n]))\<rparr>)"
  using assms
  by (auto simp: PointNodePairListAppend_def PointInitList_def Let_def insert_or_destroy_def ListInsertTail_def)

definition is_sw :: "fabric \<Rightarrow> node \<Rightarrow> bool" where
  "is_sw g n \<longleftrightarrow> node_type_of g n = STL_NODE_SW"

definition is_fi :: "fabric \<Rightarrow> node \<Rightarrow> bool" where
  "is_fi g n \<longleftrightarrow> node_type_of g n = STL_NODE_FI"

lemma append_pair_ok:
  assumes "p_u p = P_None \<or> p_u p = P_NodePairList (DList xs) (DList ys)"
    and "p_u p = P_None \<Longrightarrow> xs = [] \<and> ys = []" and "ok k = ((True, True), (True, True))"
  shows "append_pair g ok p k (n1, n2) =
    Some (FSUCCESS, p\<lparr>p_u := P_NodePairList (DList (xs @ [n1])) (DList (ys @ [n2])),
      haveSW := haveSW p \<or> is_sw g n1 \<or> is_sw g n2, haveFI := haveFI p \<or> is_fi g n1\<rparr>)"
proof -
  let ?p1 = "p\<lparr>p_u := P_NodePairList (DList (xs @ [n1])) (DList ys)\<rparr>"
  let ?p2 = "?p1\<lparr>haveSW := haveSW p \<or> is_sw g n1, haveFI := haveFI p \<or> is_fi g n1\<rparr>"
  let ?p3 = "?p2\<lparr>p_u := P_NodePairList (DList (xs @ [n1])) (DList (ys @ [n2]))\<rparr>"
  have 1: "PointNodePairListAppend (True, True) p LSIDE_PAIR n1 = Some (FSUCCESS, ?p1)"
    using pair_append_ok(1) [of p "(True, True)" xs ys n1] assms by simp
  have 2: "PointNodePairListAppend (True, True) ?p2 RSIDE_PAIR n2 = Some (FSUCCESS, ?p3)"
    using pair_append_ok(2) [of ?p2 "(True, True)" "xs @ [n1]" ys n2] by simp
  have f: "(let p = (if \<not> haveSW r \<and> node_type_of g n = STL_NODE_SW then r\<lparr>haveSW := True\<rparr> else r);
        p = (if \<not> haveFI p \<and> node_type_of g m = STL_NODE_FI then p\<lparr>haveFI := True\<rparr> else p) in h p) =
      h (r\<lparr>haveSW := haveSW r \<or> is_sw g n, haveFI := haveFI r \<or> is_fi g m\<rparr>)"
    for r n m and h :: "point \<Rightarrow> (fstatus \<times> point) option"
    by (cases r) (auto simp: Let_def is_sw_def is_fi_def)
  have "append_pair g ok p k (n1, n2) = and_then (PointNodePairListAppend (True, True) ?p2 RSIDE_PAIR n2)
      (\<lambda>q. Some (FSUCCESS, q\<lparr>haveSW := haveSW q \<or> is_sw g n2, haveFI := haveFI q \<or> is_fi g n1\<rparr>))"
    unfolding append_pair_def prod.case assms(3) fst_conv snd_conv 1 f by (simp add: and_then_def)
  also have "\<dots> = Some (FSUCCESS, p\<lparr>p_u := P_NodePairList (DList (xs @ [n1])) (DList (ys @ [n2])),
      haveSW := haveSW p \<or> is_sw g n1 \<or> is_sw g n2, haveFI := haveFI p \<or> is_fi g n1\<rparr>)"
    unfolding 2 by (simp add: and_then_def disj_assoc)
  finally show ?thesis .
qed

lemma append_pairs_ok:
  "p_u p = P_None \<or> p_u p = P_NodePairList (DList xs) (DList ys) \<Longrightarrow> (p_u p = P_None \<Longrightarrow> xs = [] \<and> ys = []) \<Longrightarrow>
   ps \<noteq> [] \<Longrightarrow> \<forall>k. ok k = ((True, True), (True, True)) \<Longrightarrow>
     append_each (append_pair g ok) k ps p =
       Some (FSUCCESS, p\<lparr>p_u := P_NodePairList (DList (xs @ map fst ps)) (DList (ys @ map snd ps)),
         haveSW := haveSW p \<or> (\<exists>(a, b) \<in> set ps. is_sw g a \<or> is_sw g b),
         haveFI := haveFI p \<or> (\<exists>(a, b) \<in> set ps. is_fi g a)\<rparr>)"
proof (induction ps arbitrary: p xs ys k)
  case (Cons ab ps)
  obtain a b where ab: "ab = (a, b)" by (cases ab)
  let ?q = "p\<lparr>p_u := P_NodePairList (DList (xs @ [a])) (DList (ys @ [b])),
      haveSW := haveSW p \<or> is_sw g a \<or> is_sw g b, haveFI := haveFI p \<or> is_fi g a\<rparr>"
  have q: "append_pair g ok p k (a, b) = Some (FSUCCESS, ?q)"
    using append_pair_ok Cons.prems by blast
  show ?case
  proof (cases "ps = []")
    case True
    then show ?thesis by (simp add: ab q)
  next
    case False
    from Cons.IH [of ?q "xs @ [a]" "ys @ [b]" "k + 1", OF _ _ False Cons.prems(4)] q show ?thesis
      by (simp add: ab disj_assoc)
  qed
qed simp

lemma copy_simple:
  assumes "point_ok dest" "point_ok src" "\<forall>l. p_enode src \<noteq> E_List l" "\<forall>l. p_esm src \<noteq> E_List l"
    "\<forall>l. p_elink src \<noteq> E_List l"
    "point_tag (p_u src) \<in> {POINT_TYPE_NONE, POINT_TYPE_PORT, POINT_TYPE_NODE, POINT_TYPE_IOC, POINT_TYPE_SYSTEM}"
  shows "PointCopy ok dest src = Some (FSUCCESS, src)"
proof -
  have c: "struct_copy src = src"
    using assms(3-6) by (cases src) (auto simp: struct_copy_def share_expected_def split: point_u.splits expected_u.splits)
  have f: "PointFabricCopy ok dest src = Some (FSUCCESS, src)"
    using assms c by (cases "p_u src") (auto simp: PointFabricCopy_def fabric_destroy_ok point_ok_def)
  have "PointEnodeCopy ok d src = Some (FSUCCESS, src)" "PointEsmCopy ok d src = Some (FSUCCESS, src)"
    "PointElinkCopy ok d src = Some (FSUCCESS, src)" if "d = src" for d
    using assms c that
    by (auto simp: PointEnodeCopy_def PointEsmCopy_def PointElinkCopy_def PointEnodeDestroy_def PointEsmDestroy_def
        PointElinkDestroy_def expected_destroy_ok point_ok_def split: expected_u.splits)
  with f show ?thesis by (simp add: PointCopy_def and_then_def)
qed

end
