(* ===== verification/Point_Claims.thy ===== *)
theory Point_Claims
  imports Point_Props
begin

text \<open>
  The properties of points, of \<^verbatim>\<open>Topology/point.c\<close>.
\<close>

subsection \<open>A small fabric\<close>

text \<open>
  A NIC, node 0, with ports 0 and 1 and IOCs 0 and 1, and a switch, node 1, with port 2, in
  one system.
\<close>

definition small_fabric :: fabric where
  "small_fabric = \<lparr>port_nodep = (\<lambda>p. if p < 2 then 0 else 1), node_systemp = (\<lambda>_. 0),
     node_type_of = (\<lambda>n. if n = 0 then STL_NODE_FI else STL_NODE_SW),
     node_port_count = (\<lambda>n. if n = 0 then 2 else if n = 1 then 1 else 0),
     system_node_count = (\<lambda>s. if s = 0 then 2 else 0), ioc_ioup = (\<lambda>_. 0), iou_nodep = (\<lambda>_. 0),
     iou_ioc_count = (\<lambda>u. if u = 0 then 2 else 0)\<rparr>"

lemma small_fabric_ok: "fabric_ok small_fabric {0, 1, 2} {0, 1} {0, 1}"
proof -
  have p: "{p \<in> {0, 1, 2}. (if p < (2 :: nat) then 0 else 1) = n} =
      (if n = 0 then {0, 1} else if n = (1 :: nat) then {2} else {})" for n by auto
  have n: "{n \<in> {0, 1 :: nat}. (0 :: nat) = s} = (if s = 0 then {0, 1} else {})" for s by auto
  show ?thesis unfolding fabric_ok_def small_fabric_def fabric.simps p n by auto
qed

definition no_point :: point where
  "no_point = \<lparr>p_u = P_None, haveSW = False, haveFI = False, p_enode = E_None, p_esm = E_None, p_elink = E_None\<rparr>"

subsection \<open>Lists\<close>

text \<open>
  \<^verbatim>\<open>PointListAppend\<close> on a point that owns its lists adds the object behind the
  list of the given kind, which it starts when the point has nothing in the fabric, and leaves
  the rest of the point; in every other case, a kind that is not a list, another kind in
  the point or no memory, it reports an error and leaves a point that is not valid.
\<close>

theorem point_list_append_or_destroy:
  assumes "point_ok p"
  shows "PointListAppend ok p type obj =
    (if list_kind type \<and> (p_u p = P_None \<and> fst ok \<or> point_tag (p_u p) = type) \<and> snd ok
     then Some (FSUCCESS, p\<lparr>p_u := listed type (contents (p_u p) @ [obj])\<rparr>)
     else Some (if list_kind type \<and> (p_u p = P_None \<or> point_tag (p_u p) = type) \<or>
                   type = POINT_TYPE_NODE_PAIR_LIST \<and> p_u p = P_None \<and> \<not> fst ok
                then FINSUFFICIENT_MEMORY else FINVALID_OPERATION, emptied p)) \<and>
    \<not> PointValid (Some (emptied p))"
  using append_ok [OF assms] by (simp add: PointValid_def emptied_def)

theorem point_list_append_or_destroy_witness:
  "PointListAppend (True, True) (no_point\<lparr>p_u := P_PortList (DList [4])\<rparr>) POINT_TYPE_PORT_LIST 7 =
     Some (FSUCCESS, no_point\<lparr>p_u := P_PortList (DList [4, 7])\<rparr>) \<and>
   PointListAppend (True, True) (no_point\<lparr>p_u := P_PortList (DList [4])\<rparr>) POINT_TYPE_NODE_LIST 7 =
     Some (FINVALID_OPERATION, no_point)"
  using point_list_append_or_destroy [of "no_point\<lparr>p_u := P_PortList (DList [4])\<rparr>" "(True, True)"
      POINT_TYPE_PORT_LIST 7]
    point_list_append_or_destroy [of "no_point\<lparr>p_u := P_PortList (DList [4])\<rparr>" "(True, True)"
      POINT_TYPE_NODE_LIST 7]
  by (simp add: point_ok_def u_ok_def expected_ok_def no_point_def list_kind_def emptied_def)

text \<open>
  C17.  A run of \<^verbatim>\<open>PointListAppendUniquePort\<close> on a point with a port list leaves a
  list without duplicates that \<^verbatim>\<open>ComparePortPoint\<close> matches with exactly the ports
  that were there or were added.
\<close>

theorem append_unique_ports_set:
  assumes "point_ok p" "p_u p = P_PortList (DList xs)" "distinct xs"
  shows "\<exists>ys. append_each (\<lambda>p k portp. PointListAppendUniquePort g (True, True) p portp) 0 ps p =
      Some (FSUCCESS, p\<lparr>p_u := P_PortList (DList ys)\<rparr>) \<and> distinct ys \<and>
    (\<forall>portp. ComparePortPoint g portp (Some (p\<lparr>p_u := P_PortList (DList ys)\<rparr>)) =
      Some (portp \<in> set xs \<or> portp \<in> set ps))"
  using append_unique_each [OF assms(1,2), of g 0 ps] fold_add_unique [OF assms(3), of ps]
  by (auto simp: compare_port_list)

theorem append_unique_ports_set_witness:
  "\<exists>ys. append_each (\<lambda>p k portp. PointListAppendUniquePort small_fabric (True, True) p portp) 0 [5, 4, 5]
      (no_point\<lparr>p_u := P_PortList (DList [4])\<rparr>) =
      Some (FSUCCESS, no_point\<lparr>p_u := P_PortList (DList ys)\<rparr>) \<and> distinct ys"
  using append_unique_ports_set [of "no_point\<lparr>p_u := P_PortList (DList [4])\<rparr>" "[4]" small_fabric "[5, 4, 5]"]
  by (auto simp: point_ok_def u_ok_def expected_ok_def no_point_def)

subsection \<open>Compression\<close>

text \<open>
  C18.  Compressing a point whose listed objects are distinct objects of a fabric does not
  change what it matches: the same nodes and IOCs, the same expected objects, and, unless it
  lists IOCs, the same ports and systems.
\<close>

theorem point_compress_same_focus:
  assumes "fabric_ok g Ps Ns Is" "listed_in Ps Ns Is (p_u p)" "point_ok p" "PointCompress g p = Some q"
  shows "PointValid (Some q) = PointValid (Some p) \<and>
    (\<forall>n \<in> Ns. CompareNodePoint g n (Some q) = CompareNodePoint g n (Some p)) \<and>
    (\<forall>i \<in> Is. CompareIocPoint g i (Some q) = CompareIocPoint g i (Some p)) \<and>
    (point_tag (p_u p) \<noteq> POINT_TYPE_IOC_LIST \<longrightarrow>
      (\<forall>portp \<in> Ps. ComparePortPoint g portp (Some q) = ComparePortPoint g portp (Some p)) \<and>
      (\<forall>s. CompareSystemPoint g s (Some q) = CompareSystemPoint g s (Some p))) \<and>
    CompareExpectedNodePoint e (Some q) = CompareExpectedNodePoint e (Some p) \<and>
    CompareExpectedSMPoint e (Some q) = CompareExpectedSMPoint e (Some p) \<and>
    CompareExpectedLinkPoint e (Some q) = CompareExpectedLinkPoint e (Some p)"
  using point_compress [OF assms] unfolding same_nodes_def same_ports_def by blast

theorem point_compress_same_focus_witness:
  "PointCompress small_fabric (no_point\<lparr>p_u := P_PortList (DList [1, 0])\<rparr>) = Some (no_point\<lparr>p_u := P_Node 0\<rparr>) \<and>
   map (\<lambda>portp. ComparePortPoint small_fabric portp (Some (no_point\<lparr>p_u := P_Node 0\<rparr>))) [0, 1, 2] =
     map (\<lambda>portp. ComparePortPoint small_fabric portp (Some (no_point\<lparr>p_u := P_PortList (DList [1, 0])\<rparr>))) [0, 1, 2]"
proof -
  have "PointCompress small_fabric (no_point\<lparr>p_u := P_PortList (DList [1, 0])\<rparr>) = Some (no_point\<lparr>p_u := P_Node 0\<rparr>)"
    by code_simp
  with point_compress_same_focus [OF small_fabric_ok, of "no_point\<lparr>p_u := P_PortList (DList [1, 0])\<rparr>"]
  show ?thesis by (simp add: listed_in_def point_ok_def u_ok_def expected_ok_def no_point_def)
qed

text \<open>
  A list of all the IOCs of an IO unit is compressed to its node, and then matches the
  node's ports and its system, none of which the list matched.
\<close>

theorem point_compress_iocs_widens:
  "PointFabricCompress small_fabric (no_point\<lparr>p_u := P_IocList (DList [0, 1])\<rparr>) =
     Some (no_point\<lparr>p_u := P_Node 0\<rparr>) \<and>
   ComparePortPoint small_fabric 0 (Some (no_point\<lparr>p_u := P_IocList (DList [0, 1])\<rparr>)) = Some False \<and>
   ComparePortPoint small_fabric 0 (Some (no_point\<lparr>p_u := P_Node 0\<rparr>)) = Some True \<and>
   CompareSystemPoint small_fabric 0 (Some (no_point\<lparr>p_u := P_IocList (DList [0, 1])\<rparr>)) = Some False \<and>
   CompareSystemPoint small_fabric 0 (Some (no_point\<lparr>p_u := P_Node 0\<rparr>)) = Some True"
  by code_simp

subsection \<open>Node pairs\<close>

text \<open>
  \<^verbatim>\<open>PointPopulateNodePairList\<close> on an empty point appends every pair of a left
  and a right node once, in the order of the left list, then the right list.
  \<^verbatim>\<open>haveSW\<close> is raised when there is a switch on either side, but
  \<^verbatim>\<open>haveFI\<close> only when there is a NIC on the left.
\<close>

theorem populate_node_pairs_product:
  assumes "p_u p = P_None" "nodes1 \<noteq> []" "nodes2 \<noteq> []" "\<forall>k. ok k = ((True, True), (True, True))"
  shows "\<exists>xs ys. PointPopulateNodePairList g ok p nodes1 nodes2 =
      Some (FSUCCESS, p\<lparr>p_u := P_NodePairList (DList xs) (DList ys),
        haveSW := haveSW p \<or> (\<exists>n \<in> set nodes1 \<union> set nodes2. node_type_of g n = STL_NODE_SW),
        haveFI := haveFI p \<or> (\<exists>n \<in> set nodes1. node_type_of g n = STL_NODE_FI)\<rparr>) \<and>
    zip xs ys = List.product nodes1 nodes2 \<and> length xs = length nodes1 * length nodes2 \<and> length ys = length xs"
proof -
  let ?ps = "List.product nodes1 nodes2"
  have ps: "concat (map (\<lambda>n1. map (Pair n1) nodes2) nodes1) = ?ps" by (simp add: product_concat_map)
  have ne: "?ps \<noteq> []" using assms(2,3) by (cases nodes1; cases nodes2) auto
  have sw: "(\<exists>(a, b) \<in> set ?ps. is_sw g a \<or> is_sw g b) \<longleftrightarrow>
      (\<exists>n \<in> set nodes1 \<union> set nodes2. node_type_of g n = STL_NODE_SW)"
    using assms(2,3) by (cases nodes1; cases nodes2) (auto simp: is_sw_def)
  have fi: "(\<exists>(a, b) \<in> set ?ps. is_fi g a) \<longleftrightarrow> (\<exists>n \<in> set nodes1. node_type_of g n = STL_NODE_FI)"
    using assms(3) by (cases nodes2) (auto simp: is_fi_def)
  show ?thesis
    using append_pairs_ok [of p "[]" "[]" ?ps ok g 0, OF _ _ ne assms(4), unfolded sw fi] assms(1)
    by (rule_tac exI [of _ "map fst ?ps"], rule_tac exI [of _ "map snd ?ps"])
       (simp add: PointPopulateNodePairList_def ps zip_map_fst_snd)
qed

theorem populate_node_pairs_product_witness:
  "\<exists>xs ys. PointPopulateNodePairList small_fabric (\<lambda>_. ((True, True), (True, True))) no_point [1] [0, 1] =
     Some (FSUCCESS, no_point\<lparr>p_u := P_NodePairList (DList xs) (DList ys), haveSW := True, haveFI := False\<rparr>) \<and>
   zip xs ys = [(1, 0), (1, 1)]"
  using populate_node_pairs_product [of no_point "[1]" "[0, 1]" "\<lambda>_. ((True, True), (True, True))" small_fabric]
  by (auto simp: no_point_def small_fabric_def)

subsection \<open>Copies\<close>

text \<open>
  \<^verbatim>\<open>PointCopy\<close> copies a point without lists, whatever the destination held.
\<close>

theorem point_copy_without_lists:
  assumes "point_ok dest" "point_ok src"
    and "point_tag (p_u src) \<in> {POINT_TYPE_NONE, POINT_TYPE_PORT, POINT_TYPE_NODE, POINT_TYPE_IOC, POINT_TYPE_SYSTEM}"
    and "\<forall>e \<in> {p_enode src, p_esm src, p_elink src}. expected_tag e \<noteq> EXPECTED_LIST"
  shows "PointCopy ok dest src = Some (FSUCCESS, src)"
  using assms by (intro copy_simple) auto

theorem point_copy_without_lists_witness:
  "PointCopy (\<lambda>_. (True, True)) (no_point\<lparr>p_u := P_PortList (DList [3])\<rparr>) (no_point\<lparr>p_u := P_Node 5\<rparr>) =
     Some (FSUCCESS, no_point\<lparr>p_u := P_Node 5\<rparr>)"
  by (rule point_copy_without_lists) (auto simp: point_ok_def u_ok_def expected_ok_def no_point_def)

text \<open>
  With lists it does not copy.  The copy of a port list holds a bitwise copy of the
  original's list head, which can be neither walked nor destroyed, because the copies of the
  parts behind it assign the whole structure; and copying a node with a list of expected nodes
  destroys the shared head on the way.
\<close>

theorem point_copy_shares_lists:
  "PointCopy (\<lambda>_. (True, True)) no_point (no_point\<lparr>p_u := P_PortList (DList [3])\<rparr>) =
     Some (FSUCCESS, no_point\<lparr>p_u := P_PortList SharedList\<rparr>) \<and>
   PointDestroy (no_point\<lparr>p_u := P_PortList SharedList\<rparr>) = None \<and>
   ComparePortPoint g 4 (Some (no_point\<lparr>p_u := P_PortList SharedList\<rparr>)) = None \<and>
   PointCopy ok no_point (no_point\<lparr>p_u := P_Node 5, p_enode := E_List (DList [3])\<rparr>) = None"
proof -
  have "PointCopy ok no_point (no_point\<lparr>p_u := P_Node 5, p_enode := E_List (DList [3])\<rparr>) = None"
    by (simp add: PointCopy_def and_then_def no_point_def PointFabricCopy_def PointFabricDestroy_def
        PointEnodeCopy_def PointEnodeDestroy_def expected_destroy_def struct_copy_def share_expected_def
        share_list_def ListDestroy_def)
  moreover have "ComparePortPoint g 4 (Some (no_point\<lparr>p_u := P_PortList SharedList\<rparr>)) = None"
    by (simp add: ComparePortPoint_def PointValid_def list_has_def)
  moreover have "PointCopy (\<lambda>_. (True, True)) no_point (no_point\<lparr>p_u := P_PortList (DList [3])\<rparr>) =
     Some (FSUCCESS, no_point\<lparr>p_u := P_PortList SharedList\<rparr>)" by code_simp
  moreover have "PointDestroy (no_point\<lparr>p_u := P_PortList SharedList\<rparr>) = None" by code_simp
  ultimately show ?thesis by blast
qed

end
