(* ===== verification/Verify.thy ===== *)
theory Verify
  imports Fabric Point_Compare
begin

text \<open>
  The verification reports of \<^verbatim>\<open>IbaTools/ethreport/verify.c\<close>: the links and nodes of
  a fabric against those of a topology file.  What \<^verbatim>\<open>ShowProblem\<close> prints is a list of
  problems; the layout of the reports is left out, but for the objects they list.  A function
  that follows a NULL pointer is undefined, the result \<open>None\<close>.  ASSERT is not modelled.
\<close>

datatype problem =
    IfAddr_mismatch uint64 uint64
  | NodeDesc_mismatch string string
  | PortNum_mismatch uint16 uint16
  | MgmtIfAddr_mismatch uint64 uint64
  | NodeType_mismatch uint8 uint8
  | Port_not_up port_state
  | Link_rate_mismatch uint8 uint32
  | Link_mtu_mismatch uint8 uint16
  | Unexpected_link
  | Missing_link
  | Duplicate_port
  | Incorrect_link bool "port option"
  | Unexpected_node uint8
  | Missing_node uint8
  | Duplicate_node uint8

definition ShowProblem :: "int \<Rightarrow> problem \<Rightarrow> problem list" where
  "ShowProblem detail m = (if detail \<ge> 0 then [m] else [])"

text \<open>One comparison: the verdict so far, and the problems printed.\<close>

definition check :: "bool \<Rightarrow> int \<Rightarrow> problem \<Rightarrow> bool \<times> problem list \<Rightarrow> bool \<times> problem list" where
  "check bad detail m r = (if bad then (False, snd r @ ShowProblem detail m) else r)"

abbreviation NODE_DESCRIPTION_ARRAY_SIZE :: nat where
  "NODE_DESCRIPTION_ARRAY_SIZE \<equiv> 64"

definition desc_differs :: "string \<Rightarrow> string \<Rightarrow> bool" where
  "desc_differs a b \<longleftrightarrow> take NODE_DESCRIPTION_ARRAY_SIZE a \<noteq> take NODE_DESCRIPTION_ARRAY_SIZE b"

definition check_desc :: "string option \<Rightarrow> string \<Rightarrow> int \<Rightarrow> bool \<times> problem list \<Rightarrow> bool \<times> problem list" where
  "check_desc expected found detail r =
     (case expected of
        None \<Rightarrow> r
      | Some d \<Rightarrow> check (desc_differs d found) detail
          (NodeDesc_mismatch d (take NODE_DESCRIPTION_ARRAY_SIZE found)) r)"

subsection \<open>Links\<close>

definition PortVerify :: "fabric_data \<Rightarrow> port \<Rightarrow> int \<Rightarrow> (bool \<times> problem list) option" where
  "PortVerify F p detail =
     (let d = pdata F p; n = port_node F p
      in case elinkp d of
          None \<Rightarrow> None
        | Some e \<Rightarrow>
            (let r = (True, []);
                 portselp = (if portp1 (ldata F e) = Some p then portselp1 (ldata F e)
                             else if portp2 (ldata F e) = Some p then portselp2 (ldata F e) else None);
                 r = (case portselp of
                        None \<Rightarrow> r
                      | Some s \<Rightarrow>
                          (let r = check (ps_NodeGUID s \<noteq> 0 \<and> ps_NodeGUID s \<noteq> NodeGUID n) detail
                                     (IfAddr_mismatch (ps_NodeGUID s) (NodeGUID n)) r;
                               r = check_desc (ps_NodeDesc s) (NodeDesc n) detail r;
                               r = check (gotPortNum s \<and> ps_PortNum s \<noteq> PortNum d) detail
                                     (PortNum_mismatch (ps_PortNum s) (PortNum d)) r;
                               r = check (ps_PortGUID s \<noteq> 0 \<and> ps_PortGUID s \<noteq> PortGUID d) detail
                                     (MgmtIfAddr_mismatch (ps_PortGUID s) (PortGUID d)) r
                           in check (ps_NodeType s \<noteq> 0 \<and> ps_NodeType s \<noteq> NodeType n) detail
                                (NodeType_mismatch (ps_NodeType s) (NodeType n)) r))
             in Some (check (PortState d \<noteq> ETH_PORT_UP) detail (Port_not_up (PortState d)) r)))"

definition LinkAttrVerify :: "fabric_data \<Rightarrow> expected \<Rightarrow> port \<Rightarrow> int \<Rightarrow> (bool \<times> problem list) option" where
  "LinkAttrVerify F e p detail =
     (let l = ldata F e; d = pdata F p;
          r = check (expected_rate l \<noteq> 0 \<and> ucast (expected_rate l) \<noteq> rate d) detail
                (Link_rate_mismatch (expected_rate l) (rate d)) (True, [])
      in if expected_mtu2 l = 0 then Some r
         else case neighbor d of
             None \<Rightarrow> None
           | Some q \<Rightarrow>
               (let m = min (PortInfo_MTU2 d) (PortInfo_MTU2 (pdata F q))
                in Some (check (expected_mtu2 l \<noteq> m) detail (Link_mtu_mismatch (expected_mtu l) m) r)))"

datatype link_verify =
    LINK_VERIFY_OK | LINK_VERIFY_DIFF | LINK_VERIFY_UNEXPECTED | LINK_VERIFY_MISSING
  | LINK_VERIFY_DUP | LINK_VERIFY_CONN

text \<open>Two steps of a verification: the verdict stays \<open>DIFF\<close>, and the output is in order.\<close>

definition and_verify ::
  "(link_verify \<times> problem list) option \<Rightarrow> (bool \<times> problem list) option \<Rightarrow> (link_verify \<times> problem list) option" where
  "and_verify a b =
     (case a of None \<Rightarrow> None
      | Some (r, out) \<Rightarrow> map_option (\<lambda>(ok, out'). (if ok then r else LINK_VERIFY_DIFF, out @ out')) b)"

definition LinkFabricVerify :: "fabric_data \<Rightarrow> port \<Rightarrow> int \<Rightarrow> (link_verify \<times> problem list) option" where
  "LinkFabricVerify F p detail =
     (case neighbor (pdata F p) of
        None \<Rightarrow> None
      | Some q \<Rightarrow>
          (case (elinkp (pdata F p), elinkp (pdata F q)) of
             (Some e, Some _) \<Rightarrow>
               (let r = Some (LINK_VERIFY_OK, []);
                    r = and_verify r (PortVerify F p detail);
                    r = and_verify r (PortVerify F q detail)
                in and_verify r (LinkAttrVerify F e p detail))
           | (None, None) \<Rightarrow> Some (LINK_VERIFY_UNEXPECTED, ShowProblem detail Unexpected_link)
           | _ \<Rightarrow> Some (LINK_VERIFY_UNEXPECTED, [])))"

definition ExpectedLinkVerify :: "fabric_data \<Rightarrow> expected \<Rightarrow> nat \<Rightarrow> int \<Rightarrow> link_verify \<times> problem list" where
  "ExpectedLinkVerify F e side detail =
     (case (portp1 (ldata F e), portp2 (ldata F e)) of
        (None, None) \<Rightarrow>
          (LINK_VERIFY_MISSING, if side = 0 \<or> side = 3 then ShowProblem detail Missing_link else [])
      | (Some p1, Some p2) \<Rightarrow>
          (let bad1 = elinkp (pdata F p1) \<noteq> Some e; bad2 = elinkp (pdata F p2) \<noteq> Some e
           in (if bad1 \<or> bad2 then LINK_VERIFY_DUP else LINK_VERIFY_OK,
               (if bad1 \<and> (side = 0 \<or> side = 1) then ShowProblem detail Duplicate_port else []) @
               (if bad2 \<and> (side = 0 \<or> side = 2) then ShowProblem detail Duplicate_port else []) @
               (if (bad1 \<or> bad2) \<and> side = 3 then ShowProblem detail Duplicate_port else [])))
      | (Some p1, None) \<Rightarrow>
          (LINK_VERIFY_CONN,
           if detail \<ge> 0 \<and> (side = 0 \<or> side = 3)
           then ShowProblem detail (Incorrect_link True (neighbor (pdata F p1))) else [])
      | (None, Some p2) \<Rightarrow>
          (LINK_VERIFY_CONN,
           if detail \<ge> 0 \<and> (side = 0 \<or> side = 3)
           then ShowProblem detail (Incorrect_link False (neighbor (pdata F p2))) else []))"

subsection \<open>Nodes\<close>

definition NodeVerify :: "fabric_data \<Rightarrow> node \<Rightarrow> int \<Rightarrow> (bool \<times> problem list) option" where
  "NodeVerify F n detail =
     (case enodep (ndata F n) of
        None \<Rightarrow> None
      | Some e \<Rightarrow>
          (let en = edata F e; nd = ndata F n;
               r = check (en_NodeGUID en \<noteq> 0 \<and> en_NodeGUID en \<noteq> NodeGUID nd) detail
                     (IfAddr_mismatch (en_NodeGUID en) (NodeGUID nd)) (True, []);
               r = check_desc (en_NodeDesc en) (NodeDesc nd) detail r
           in Some (check (en_NodeType en \<noteq> 0 \<and> en_NodeType en \<noteq> NodeType nd) detail
                (NodeType_mismatch (en_NodeType en) (NodeType nd)) r)))"

datatype node_verify =
  NODE_VERIFY_OK | NODE_VERIFY_DIFF | NODE_VERIFY_UNEXPECTED | NODE_VERIFY_MISSING | NODE_VERIFY_DUP

definition NodeFabricVerify :: "fabric_data \<Rightarrow> node \<Rightarrow> int \<Rightarrow> (node_verify \<times> problem list) option" where
  "NodeFabricVerify F n detail =
     (if enodep (ndata F n) \<noteq> None
      then map_option (\<lambda>(ok, out). (if ok then NODE_VERIFY_OK else NODE_VERIFY_DIFF, out)) (NodeVerify F n detail)
      else Some (NODE_VERIFY_UNEXPECTED, ShowProblem detail (Unexpected_node (NodeType (ndata F n)))))"

definition ExpectedNodeVerify :: "fabric_data \<Rightarrow> expected \<Rightarrow> int \<Rightarrow> node_verify \<times> problem list" where
  "ExpectedNodeVerify F e detail =
     (case en_nodep (edata F e) of
        None \<Rightarrow> (NODE_VERIFY_MISSING, ShowProblem detail (Missing_node (en_NodeType (edata F e))))
      | Some n \<Rightarrow>
          if enodep (ndata F n) \<noteq> Some e
          then (NODE_VERIFY_DUP, ShowProblem detail (Duplicate_node (en_NodeType (edata F e))))
          else (NODE_VERIFY_OK, []))"

subsection \<open>Reports\<close>

text \<open>
  The loops of a report: the objects that are in the report and match the focus are counted,
  judged and, if wrong, listed.  The results of both loops of a report go to one array.
\<close>

record 'r tally =
  checked :: uint32
  errors :: uint32
  results :: "'r \<Rightarrow> uint32"
  shown_objs :: "nat list"

definition verify_item ::
  "'r \<Rightarrow> (nat \<Rightarrow> bool option) \<Rightarrow> (nat \<Rightarrow> 'r option) \<Rightarrow> int \<Rightarrow> nat \<Rightarrow> 'r tally \<Rightarrow> 'r tally option" where
  "verify_item ok_result selected verdict detail x T =
     (case selected x of
        None \<Rightarrow> None
      | Some False \<Rightarrow> Some T
      | Some True \<Rightarrow>
          map_option (\<lambda>res.
            T\<lparr>checked := checked T + 1,
              results := (results T)(res := results T res + 1),
              errors := errors T + (if res \<noteq> ok_result then 1 else 0),
              shown_objs := shown_objs T @ (if res \<noteq> ok_result \<and> detail \<noteq> 0 then [x] else [])\<rparr>) (verdict x))"

fun verify_loop ::
  "'r \<Rightarrow> (nat \<Rightarrow> bool option) \<Rightarrow> (nat \<Rightarrow> 'r option) \<Rightarrow> int \<Rightarrow> nat list \<Rightarrow> 'r tally \<Rightarrow> 'r tally option" where
  "verify_loop ok_result selected verdict detail [] T = Some T"
| "verify_loop ok_result selected verdict detail (x # xs) T =
     (case verify_item ok_result selected verdict detail x T of
        None \<Rightarrow> None
      | Some T \<Rightarrow> verify_loop ok_result selected verdict detail xs T)"

definition zero_tally :: "('r \<Rightarrow> uint32) \<Rightarrow> 'r tally" where
  "zero_tally counts = \<lparr>checked = 0, errors = 0, results = counts, shown_objs = []\<rparr>"

definition or_else :: "bool option \<Rightarrow> bool option \<Rightarrow> bool option" where
  "or_else a b = (case a of Some False \<Rightarrow> b | _ \<Rightarrow> a)"

definition opt_compare :: "('a \<Rightarrow> bool option) \<Rightarrow> 'a option \<Rightarrow> bool option" where
  "opt_compare cmp x = (case x of None \<Rightarrow> Some False | Some a \<Rightarrow> cmp a)"

text \<open>The fabric as the comparisons with a focus see it; \<open>g\<close> has the rest, such as the IOUs.\<close>

definition focus_view :: "fabric \<Rightarrow> fabric_data \<Rightarrow> fabric" where
  "focus_view g F = g\<lparr>port_nodep := (\<lambda>p. nodep (pdata F p)), node_systemp := (\<lambda>n. systemp (ndata F n))\<rparr>"

datatype links_report =
    REPORT_VERIFYLINKS | REPORT_VERIFYEXTLINKS | REPORT_VERIFYNICLINKS | REPORT_VERIFYISLINKS
  | REPORT_VERIFYEXTISLINKS

definition link_in_report :: "links_report \<Rightarrow> fabric_data \<Rightarrow> port \<Rightarrow> bool" where
  "link_in_report report F p = (case report of
       REPORT_VERIFYLINKS \<Rightarrow> True
     | REPORT_VERIFYEXTLINKS \<Rightarrow> \<not> isInternalLink F p
     | REPORT_VERIFYNICLINKS \<Rightarrow> isFILink F p
     | REPORT_VERIFYISLINKS \<Rightarrow> isISLink F p
     | REPORT_VERIFYEXTISLINKS \<Rightarrow> \<not> isInternalLink F p \<and> isISLink F p)"

definition expected_in_report :: "links_report \<Rightarrow> fabric_data \<Rightarrow> expected \<Rightarrow> bool" where
  "expected_in_report report F e = (case report of
       REPORT_VERIFYLINKS \<Rightarrow> True
     | REPORT_VERIFYEXTLINKS \<Rightarrow> isExternalExpectedLink F e
     | REPORT_VERIFYNICLINKS \<Rightarrow> isFIExpectedLink F e
     | REPORT_VERIFYISLINKS \<Rightarrow> isISExpectedLink F e
     | REPORT_VERIFYEXTISLINKS \<Rightarrow> isExternalExpectedLink F e \<and> isISExpectedLink F e)"

definition link_selected :: "fabric \<Rightarrow> point option \<Rightarrow> links_report \<Rightarrow> fabric_data \<Rightarrow> port \<Rightarrow> bool option" where
  "link_selected g focus report F p =
     (if \<not> fromp (pdata F p) \<or> \<not> link_in_report report F p then Some False
      else case neighbor (pdata F p) of
          None \<Rightarrow> None
        | Some q \<Rightarrow>
            or_else (ComparePortPoint (focus_view g F) p focus)
            (or_else (ComparePortPoint (focus_view g F) q focus)
            (or_else (opt_compare (\<lambda>e. CompareExpectedLinkPoint e focus) (elinkp (pdata F p)))
              (opt_compare (\<lambda>e. CompareExpectedLinkPoint e focus) (elinkp (pdata F q))))))"

definition expected_link_selected ::
  "fabric \<Rightarrow> point option \<Rightarrow> links_report \<Rightarrow> fabric_data \<Rightarrow> expected \<Rightarrow> bool option" where
  "expected_link_selected g focus report F e =
     (if \<not> expected_in_report report F e then Some False
      else or_else (opt_compare (\<lambda>p. ComparePortPoint (focus_view g F) p focus) (portp1 (ldata F e)))
        (or_else (opt_compare (\<lambda>p. ComparePortPoint (focus_view g F) p focus) (portp2 (ldata F e)))
          (CompareExpectedLinkPoint e focus)))"

text \<open>
  A report that is not skipped is the tallies of its two loops; \<open>topology_in\<close> and
  \<open>have_expected\<close> are the tests that skip it.
\<close>

datatype 'r report = Skipped | Report "'r tally" "'r tally"

definition ShowVerifyLinksReport ::
  "fabric \<Rightarrow> bool \<Rightarrow> bool \<Rightarrow> fabric_data \<Rightarrow> point option \<Rightarrow> links_report \<Rightarrow> int \<Rightarrow> link_verify report option" where
  "ShowVerifyLinksReport g topology_in have_expected F focus report detail =
     (if \<not> topology_in \<or> \<not> have_expected then Some Skipped
      else case verify_loop LINK_VERIFY_OK (link_selected g focus report F)
              (\<lambda>p. map_option fst (LinkFabricVerify F p (- 1))) detail (AllPorts F) (zero_tally (\<lambda>_. 0)) of
          None \<Rightarrow> None
        | Some T1 \<Rightarrow>
            map_option (Report T1)
              (verify_loop LINK_VERIFY_OK (expected_link_selected g focus report F)
                (\<lambda>e. Some (fst (ExpectedLinkVerify F e 0 (- 1)))) detail (ExpectedLinks F)
                (zero_tally (results T1))))"

definition node_selected :: "fabric \<Rightarrow> point option \<Rightarrow> fabric_data \<Rightarrow> node \<Rightarrow> bool option" where
  "node_selected g focus F n =
     or_else (CompareNodePoint (focus_view g F) n focus)
       (opt_compare (\<lambda>e. CompareExpectedNodePoint e focus) (enodep (ndata F n)))"

definition expected_node_selected :: "fabric \<Rightarrow> point option \<Rightarrow> fabric_data \<Rightarrow> expected \<Rightarrow> bool option" where
  "expected_node_selected g focus F e =
     or_else (opt_compare (\<lambda>n. CompareNodePoint (focus_view g F) n focus) (en_nodep (edata F e)))
       (CompareExpectedNodePoint e focus)"

definition ShowVerifyNodesReport ::
  "fabric \<Rightarrow> bool \<Rightarrow> bool \<Rightarrow> fabric_data \<Rightarrow> point option \<Rightarrow> node_type \<Rightarrow> int \<Rightarrow> node_verify report option" where
  "ShowVerifyNodesReport g topology_in have_expected F focus type detail =
     (let nodes = (case type of STL_NODE_FI \<Rightarrow> AllFIs F | STL_NODE_SW \<Rightarrow> AllSWs F);
          inputs = (case type of STL_NODE_FI \<Rightarrow> ExpectedFIs F | STL_NODE_SW \<Rightarrow> ExpectedSWs F)
      in if \<not> topology_in \<or> \<not> have_expected then Some Skipped
         else case verify_loop NODE_VERIFY_OK (node_selected g focus F)
                 (\<lambda>n. map_option fst (NodeFabricVerify F n (- 1))) detail nodes (zero_tally (\<lambda>_. 0)) of
             None \<Rightarrow> None
           | Some T1 \<Rightarrow>
               map_option (Report T1)
                 (verify_loop NODE_VERIFY_OK (expected_node_selected g focus F)
                   (\<lambda>e. Some (fst (ExpectedNodeVerify F e (- 1)))) detail inputs (zero_tally (results T1))))"

end
