(* ===== verification/Verify_Props.thy ===== *)
theory Verify_Props
  imports Verify FabricLinks Point_Props
begin

text \<open>
  What a verification demands of a link or a node, and what the loops of a report compute, as
  an interface that the four loops of the two reports provide.
\<close>

subsection \<open>One port, link or node\<close>

lemma check_simps:
  "fst (check bad detail m r) \<longleftrightarrow> fst r \<and> \<not> bad"
  "snd (check bad detail m r) = [] \<longleftrightarrow> snd r = [] \<and> (bad \<longrightarrow> detail < 0)"
  by (auto simp: check_def ShowProblem_def)

lemma check_desc_simps:
  "fst (check_desc e found detail r) \<longleftrightarrow> fst r \<and> (\<forall>d. e = Some d \<longrightarrow> \<not> desc_differs d found)"
  "snd (check_desc e found detail r) = [] \<longleftrightarrow>
     snd r = [] \<and> ((\<exists>d. e = Some d \<and> desc_differs d found) \<longrightarrow> detail < 0)"
  by (auto simp: check_desc_def check_simps split: option.split)

definition selector_matches :: "port_selector \<Rightarrow> port_data \<Rightarrow> node_data \<Rightarrow> bool" where
  "selector_matches s d n \<longleftrightarrow>
     (ps_NodeGUID s = 0 \<or> ps_NodeGUID s = NodeGUID n) \<and>
     (\<forall>x. ps_NodeDesc s = Some x \<longrightarrow> \<not> desc_differs x (NodeDesc n)) \<and>
     (gotPortNum s \<longrightarrow> ps_PortNum s = PortNum d) \<and>
     (ps_PortGUID s = 0 \<or> ps_PortGUID s = PortGUID d) \<and>
     (ps_NodeType s = 0 \<or> ps_NodeType s = NodeType n)"

definition port_matches :: "fabric_data \<Rightarrow> port \<Rightarrow> bool" where
  "port_matches F p \<longleftrightarrow>
     (\<forall>s. GetPortSelector F p = Some s \<longrightarrow> selector_matches s (pdata F p) (port_node F p)) \<and>
     PortState (pdata F p) = ETH_PORT_UP"

definition link_attr_matches :: "fabric_data \<Rightarrow> expected \<Rightarrow> port \<Rightarrow> port \<Rightarrow> bool" where
  "link_attr_matches F e p q \<longleftrightarrow>
     (expected_rate (ldata F e) = 0 \<or> ucast (expected_rate (ldata F e)) = rate (pdata F p)) \<and>
     (expected_mtu2 (ldata F e) = 0 \<or>
        expected_mtu2 (ldata F e) = min (PortInfo_MTU2 (pdata F p)) (PortInfo_MTU2 (pdata F q)))"

definition link_matches :: "fabric_data \<Rightarrow> port \<Rightarrow> bool" where
  "link_matches F p = (case (neighbor (pdata F p), elinkp (pdata F p)) of
       (Some q, Some e) \<Rightarrow>
         elinkp (pdata F q) \<noteq> None \<and> port_matches F p \<and> port_matches F q \<and> link_attr_matches F e p q
     | _ \<Rightarrow> False)"

text \<open>A verdict agrees with a specification, and prints something exactly when it may and has to.\<close>

definition verdict_for :: "bool \<Rightarrow> int \<Rightarrow> (bool \<times> problem list) option \<Rightarrow> bool" where
  "verdict_for good detail v \<longleftrightarrow> (\<exists>out. v = Some (good, out) \<and> (out = [] \<longleftrightarrow> good \<or> detail < 0))"

lemma verdict_checks:
  "fst r = good \<Longrightarrow> (snd r = [] \<longleftrightarrow> good \<or> detail < 0) \<Longrightarrow> verdict_for good detail (Some r)"
  by (cases r) (auto simp: verdict_for_def)

lemma port_verify:
  assumes "elinkp (pdata F p) = Some e"
  shows "verdict_for (port_matches F p) detail (PortVerify F p detail)"
proof (cases "GetPortSelector F p")
  case None
  then have s: "(if portp1 (ldata F e) = Some p then portselp1 (ldata F e)
      else if portp2 (ldata F e) = Some p then portselp2 (ldata F e) else None) = None"
    using assms by (simp add: GetPortSelector_def)
  show ?thesis unfolding PortVerify_def Let_def assms option.case s
    by (rule verdict_checks) (auto simp: check_simps port_matches_def None)
next
  case (Some s)
  then have s: "(if portp1 (ldata F e) = Some p then portselp1 (ldata F e)
      else if portp2 (ldata F e) = Some p then portselp2 (ldata F e) else None) = Some s"
    using assms by (simp add: GetPortSelector_def)
  show ?thesis unfolding PortVerify_def Let_def assms option.case s
    by (rule verdict_checks) (auto simp: check_simps check_desc_simps port_matches_def selector_matches_def Some)
qed

lemma link_attr_verify:
  assumes "neighbor (pdata F p) = Some q"
  shows "verdict_for (link_attr_matches F e p q) detail (LinkAttrVerify F e p detail)"
  unfolding LinkAttrVerify_def Let_def assms option.case
  by (auto simp: check_simps link_attr_matches_def intro!: verdict_checks)

lemma and_verify_step:
  assumes "\<exists>out. v = Some (if good then LINK_VERIFY_OK else LINK_VERIFY_DIFF, out) \<and> (out = [] \<longleftrightarrow> good \<or> detail < 0)"
    and "verdict_for good' detail w"
  shows "\<exists>out. and_verify v w = Some (if good \<and> good' then LINK_VERIFY_OK else LINK_VERIFY_DIFF, out) \<and>
    (out = [] \<longleftrightarrow> good \<and> good' \<or> detail < 0)"
  using assms by (auto simp: and_verify_def verdict_for_def)

lemma link_fabric_verify:
  assumes "neighbor (pdata F p) = Some q"
  shows "\<exists>out. LinkFabricVerify F p detail =
      Some (if elinkp (pdata F p) = None \<or> elinkp (pdata F q) = None then LINK_VERIFY_UNEXPECTED
            else if link_matches F p then LINK_VERIFY_OK else LINK_VERIFY_DIFF, out) \<and>
    (detail < 0 \<or> link_matches F p \<longrightarrow> out = []) \<and>
    (0 \<le> detail \<and> \<not> link_matches F p \<and> (elinkp (pdata F p) = None \<longleftrightarrow> elinkp (pdata F q) = None) \<longrightarrow> out \<noteq> [])"
proof (cases "elinkp (pdata F p)")
  case None
  then show ?thesis using assms
    by (cases "elinkp (pdata F q)") (auto simp: LinkFabricVerify_def link_matches_def ShowProblem_def)
next
  case (Some e)
  show ?thesis
  proof (cases "elinkp (pdata F q)")
    case None
    with Some assms show ?thesis by (auto simp: LinkFabricVerify_def link_matches_def)
  next
    case (Some e')
    let ?good = "((True \<and> port_matches F p) \<and> port_matches F q) \<and> link_attr_matches F e p q"
    have start: "\<exists>out. Some (LINK_VERIFY_OK, []) = Some (if True then LINK_VERIFY_OK else LINK_VERIFY_DIFF, out) \<and>
        (out = ([] :: problem list) \<longleftrightarrow> True \<or> detail < 0)" by simp
    note pv = port_verify [OF \<open>elinkp (pdata F p) = Some e\<close>, of detail] port_verify [OF Some, of detail]
    note av = link_attr_verify [OF assms, of e detail]
    have "\<exists>out. LinkFabricVerify F p detail = Some (if ?good then LINK_VERIFY_OK else LINK_VERIFY_DIFF, out) \<and>
        (out = [] \<longleftrightarrow> ?good \<or> detail < 0)"
      using and_verify_step [OF and_verify_step [OF and_verify_step [OF start pv(1)] pv(2)] av]
      by (simp add: LinkFabricVerify_def Let_def assms Some \<open>elinkp (pdata F p) = Some e\<close>)
    moreover have "link_matches F p \<longleftrightarrow> ?good"
      by (simp add: link_matches_def assms Some \<open>elinkp (pdata F p) = Some e\<close>)
    ultimately obtain out where
      "LinkFabricVerify F p detail = Some (if link_matches F p then LINK_VERIFY_OK else LINK_VERIFY_DIFF, out)"
      "out = [] \<longleftrightarrow> link_matches F p \<or> detail < 0" by (simp only: simp_thms) blast
    then show ?thesis by (intro exI [of _ out]) (simp add: Some \<open>elinkp (pdata F p) = Some e\<close>)
  qed
qed

definition node_matches :: "fabric_data \<Rightarrow> node \<Rightarrow> bool" where
  "node_matches F n = (case enodep (ndata F n) of
       None \<Rightarrow> False
     | Some e \<Rightarrow>
         (en_NodeGUID (edata F e) = 0 \<or> en_NodeGUID (edata F e) = NodeGUID (ndata F n)) \<and>
         (\<forall>x. en_NodeDesc (edata F e) = Some x \<longrightarrow> \<not> desc_differs x (NodeDesc (ndata F n))) \<and>
         (en_NodeType (edata F e) = 0 \<or> en_NodeType (edata F e) = NodeType (ndata F n)))"

lemma node_verify:
  assumes "enodep (ndata F n) = Some e"
  shows "verdict_for (node_matches F n) detail (NodeVerify F n detail)"
  unfolding NodeVerify_def Let_def assms option.case
  by (rule verdict_checks) (auto simp: check_simps check_desc_simps node_matches_def assms)

lemma node_fabric_verify:
  "\<exists>out. NodeFabricVerify F n detail =
      Some (if enodep (ndata F n) = None then NODE_VERIFY_UNEXPECTED
            else if node_matches F n then NODE_VERIFY_OK else NODE_VERIFY_DIFF, out) \<and>
    (out = [] \<longleftrightarrow> node_matches F n \<or> detail < 0)"
proof (cases "enodep (ndata F n)")
  case None
  then show ?thesis by (auto simp: NodeFabricVerify_def node_matches_def ShowProblem_def)
next
  case (Some e)
  from node_verify [OF this, of detail] obtain out where
    v: "NodeVerify F n detail = Some (node_matches F n, out)" "out = [] \<longleftrightarrow> node_matches F n \<or> detail < 0"
    unfolding verdict_for_def by blast
  have "NodeFabricVerify F n detail = Some (if node_matches F n then NODE_VERIFY_OK else NODE_VERIFY_DIFF, out)"
    by (simp add: NodeFabricVerify_def Some v(1))
  with v(2) show ?thesis by (intro exI [of _ out]) (simp add: Some)
qed

definition expected_link_found :: "fabric_data \<Rightarrow> expected \<Rightarrow> bool" where
  "expected_link_found F e = (case (portp1 (ldata F e), portp2 (ldata F e)) of
       (Some p1, Some p2) \<Rightarrow> elinkp (pdata F p1) = Some e \<and> elinkp (pdata F p2) = Some e
     | _ \<Rightarrow> False)"

lemma expected_link_ok: "fst (ExpectedLinkVerify F e side detail) = LINK_VERIFY_OK \<longleftrightarrow> expected_link_found F e"
  by (auto simp: ExpectedLinkVerify_def expected_link_found_def Let_def split: option.split)

definition expected_node_found :: "fabric_data \<Rightarrow> expected \<Rightarrow> bool" where
  "expected_node_found F e \<longleftrightarrow> (\<exists>n. en_nodep (edata F e) = Some n \<and> enodep (ndata F n) = Some e)"

lemma expected_node_ok: "fst (ExpectedNodeVerify F e detail) = NODE_VERIFY_OK \<longleftrightarrow> expected_node_found F e"
  by (auto simp: ExpectedNodeVerify_def expected_node_found_def split: option.split)

end
