(* ===== verification/Verify_Report.thy ===== *)
theory Verify_Report
  imports Verify_Props
begin

text \<open>
  The two reports.  What a loop needs of the objects it goes through is the interface
  \<open>verification\<close>; the four loops provide it on fabrics whose links are sound.
\<close>

definition bump :: "'r \<Rightarrow> 'r tally \<Rightarrow> 'r \<Rightarrow> int \<Rightarrow> nat \<Rightarrow> 'r tally" where
  "bump ok T res detail x = T\<lparr>checked := checked T + 1,
     results := (results T)(res := results T res + 1),
     errors := errors T + (if res \<noteq> ok then 1 else 0),
     shown_objs := shown_objs T @ (if res \<noteq> ok \<and> detail \<noteq> 0 then [x] else [])\<rparr>"

lemma verify_item_cases:
  "verify_item ok sel verdict detail x T =
     (case sel x of None \<Rightarrow> None | Some False \<Rightarrow> Some T
      | Some True \<Rightarrow> (case verdict x of None \<Rightarrow> None | Some res \<Rightarrow> Some (bump ok T res detail x)))"
  by (auto simp: verify_item_def bump_def split: option.split bool.split)

text \<open>An invariant of tallies that every step keeps is kept by the loop.\<close>

lemma verify_loop_invariant:
  assumes "verify_loop ok sel verdict detail xs T = Some U" "P T"
    and step: "\<And>T res x. P T \<Longrightarrow> P (bump ok T res detail x)"
  shows "P U"
  using assms(1,2)
proof (induction xs arbitrary: T)
  case (Cons x xs)
  then obtain T' where T: "verify_item ok sel verdict detail x T = Some T'"
    "verify_loop ok sel verdict detail xs T' = Some U" by (auto split: option.splits)
  then have "P T'" using Cons.prems(2) step
    by (auto simp: verify_item_cases split: option.splits bool.splits)
  with T(2) show ?case by (rule Cons.IH)
qed simp

subsection \<open>The interface\<close>

locale verification =
  fixes wf :: "'f \<Rightarrow> bool" and items :: "'f \<Rightarrow> nat list"
    and selected :: "'f \<Rightarrow> nat \<Rightarrow> bool option" and verdict :: "'f \<Rightarrow> nat \<Rightarrow> 'r option" and ok_result :: 'r
  assumes selects: "wf F \<Longrightarrow> x \<in> set (items F) \<Longrightarrow> \<exists>b. selected F x = Some b"
    and judges: "wf F \<Longrightarrow> x \<in> set (items F) \<Longrightarrow> selected F x = Some True \<Longrightarrow> \<exists>r. verdict F x = Some r"
begin

definition wrong :: "'f \<Rightarrow> nat \<Rightarrow> bool" where
  "wrong F x \<longleftrightarrow> selected F x = Some True \<and> verdict F x \<noteq> Some ok_result"

lemma loop_part:
  assumes "wf F" "set xs \<subseteq> set (items F)"
  shows "\<exists>U. verify_loop ok_result (selected F) (verdict F) detail xs T = Some U \<and>
    checked U = checked T + of_nat (length (filter (\<lambda>x. selected F x = Some True) xs)) \<and>
    errors U = errors T + of_nat (length (filter (wrong F) xs)) \<and>
    shown_objs U = shown_objs T @ (if detail = 0 then [] else filter (wrong F) xs)"
  using assms(2)
proof (induction xs arbitrary: T)
  case (Cons x xs)
  then obtain b where b: "selected F x = Some b" using selects [OF assms(1), of x] by auto
  show ?case
  proof (cases b)
    case False
    with b have "verify_item ok_result (selected F) (verdict F) detail x T = Some T" "\<not> wrong F x"
      by (simp_all add: verify_item_cases wrong_def)
    moreover from Cons.prems have "set xs \<subseteq> set (items F)" by simp
    ultimately show ?thesis using Cons.IH [of T] b False by (cases "detail = 0") simp_all
  next
    case True
    with b have s: "selected F x = Some True" by simp
    with Cons.prems judges [OF assms(1), of x] obtain r where r: "verdict F x = Some r" by auto
    have w: "wrong F x \<longleftrightarrow> r \<noteq> ok_result" by (simp add: wrong_def s r)
    from Cons.prems have "set xs \<subseteq> set (items F)" by simp
    from Cons.IH [OF this, of "bump ok_result T r detail x"] show ?thesis
      by (auto simp: verify_item_cases s r w bump_def)
  qed
qed simp

lemma loop:
  assumes "wf F"
  obtains U where "verify_loop ok_result (selected F) (verdict F) detail (items F) T = Some U"
    "checked U = checked T + of_nat (length (filter (\<lambda>x. selected F x = Some True) (items F)))"
    "errors U = errors T + of_nat (length (filter (wrong F) (items F)))"
    "shown_objs U = shown_objs T @ (if detail = 0 then [] else filter (wrong F) (items F))"
  using loop_part [OF assms subset_refl] by blast

text \<open>A short enough list has no errors only if there are none.\<close>

lemma no_errors:
  assumes "length (items F) < 2 ^ 32"
  shows "(of_nat (length (filter (wrong F) (items F))) :: uint32) = 0 \<longleftrightarrow> (\<forall>x \<in> set (items F). \<not> wrong F x)"
proof -
  have "length (filter (wrong F) (items F)) < 2 ^ 32"
    using assms by (rule order_le_less_trans [OF length_filter_le])
  then have "(of_nat (length (filter (wrong F) (items F))) :: uint32) = 0 \<longleftrightarrow> length (filter (wrong F) (items F)) = 0"
    using dvd_imp_le by (fastforce simp: word_of_nat_eq_0_iff)
  then show ?thesis by (simp add: filter_empty_conv)
qed

end

subsection \<open>The loops of the reports\<close>

definition focus_sound :: "point option \<Rightarrow> bool" where
  "focus_sound focus \<longleftrightarrow> (\<forall>p. focus = Some p \<longrightarrow> point_ok p)"

lemma compare_total:
  assumes "focus_sound focus"
  shows "\<exists>b. ComparePortPoint g p focus = Some b" "\<exists>b. CompareNodePoint g n focus = Some b"
    "\<exists>b. CompareExpectedNodePoint e focus = Some b" "\<exists>b. CompareExpectedLinkPoint e focus = Some b"
proof -
  consider "focus = None" | p where "focus = Some p" "u_ok (p_u p)" "expected_ok (p_enode p)" "expected_ok (p_elink p)"
    using assms by (cases focus) (auto simp: focus_sound_def point_ok_def)
  note c = this
  show "\<exists>b. ComparePortPoint g p focus = Some b" using c
    by cases (auto simp: ComparePortPoint_def PointValid_def u_ok_def list_ok_objs pair_has_def split: point_u.splits bool.split)
  show "\<exists>b. CompareNodePoint g n focus = Some b" using c
    by cases (auto simp: CompareNodePoint_def PointValid_def u_ok_def list_ok_objs pair_has_def split: point_u.splits bool.split)
  show "\<exists>b. CompareExpectedNodePoint e focus = Some b" using c
    by cases (auto simp: CompareExpectedNodePoint_def PointValid_def expected_has_def expected_ok_def list_ok_objs
        split: expected_u.splits)
  show "\<exists>b. CompareExpectedLinkPoint e focus = Some b" using c
    by cases (auto simp: CompareExpectedLinkPoint_def PointValid_def expected_has_def expected_ok_def list_ok_objs
        split: expected_u.splits)
qed

lemma or_else_total: "\<exists>b. x = Some b \<Longrightarrow> \<exists>b. y = Some b \<Longrightarrow> \<exists>b. or_else x y = Some b"
  by (auto simp: or_else_def split: bool.split)

lemma opt_compare_total: "(\<And>a. \<exists>b. cmp a = Some b) \<Longrightarrow> \<exists>b. opt_compare cmp x = Some b"
  by (auto simp: opt_compare_def split: option.split)

lemmas selection_total = or_else_total opt_compare_total compare_total

lemma from_neighbor: "links_shape F \<Longrightarrow> fromp (pdata F p) \<Longrightarrow> \<exists>q. neighbor (pdata F p) = Some q"
  unfolding links_shape_def by blast

interpretation links: verification "\<lambda>F. links_shape F \<and> focus_sound focus" AllPorts "link_selected g focus report"
  "\<lambda>F p. map_option fst (LinkFabricVerify F p (- 1))" LINK_VERIFY_OK for g focus report
proof
  fix F x
  assume wf: "links_shape F \<and> focus_sound focus"
  show "\<exists>b. link_selected g focus report F x = Some b"
  proof (cases "fromp (pdata F x) \<and> link_in_report report F x")
    case True
    with wf from_neighbor obtain q where "neighbor (pdata F x) = Some q" by blast
    with True wf show ?thesis unfolding link_selected_def by (simp add: selection_total)
  qed (auto simp: link_selected_def)
  assume "link_selected g focus report F x = Some True"
  then have "fromp (pdata F x)" by (auto simp: link_selected_def split: if_splits)
  with wf from_neighbor obtain q where "neighbor (pdata F x) = Some q" by blast
  from link_fabric_verify [OF this, of "- 1"] show "\<exists>r. map_option fst (LinkFabricVerify F x (- 1)) = Some r" by auto
qed

interpretation elinks: verification "\<lambda>F. focus_sound focus" ExpectedLinks "expected_link_selected g focus report"
  "\<lambda>F e. Some (fst (ExpectedLinkVerify F e 0 (- 1)))" LINK_VERIFY_OK for g focus report
proof
  fix F e
  assume "focus_sound focus"
  then show "\<exists>b. expected_link_selected g focus report F e = Some b"
    by (cases "expected_in_report report F e") (auto simp: expected_link_selected_def selection_total)
qed simp

definition fabric_nodes :: "node_type \<Rightarrow> fabric_data \<Rightarrow> node list" where
  "fabric_nodes type F = (case type of STL_NODE_FI \<Rightarrow> AllFIs F | STL_NODE_SW \<Rightarrow> AllSWs F)"

definition input_nodes :: "node_type \<Rightarrow> fabric_data \<Rightarrow> expected list" where
  "input_nodes type F = (case type of STL_NODE_FI \<Rightarrow> ExpectedFIs F | STL_NODE_SW \<Rightarrow> ExpectedSWs F)"

interpretation nodes: verification "\<lambda>F. focus_sound focus" "fabric_nodes type" "node_selected g focus"
  "\<lambda>F n. map_option fst (NodeFabricVerify F n (- 1))" NODE_VERIFY_OK for g focus type
proof
  fix F x
  assume "focus_sound focus"
  then show "\<exists>b. node_selected g focus F x = Some b" by (simp add: node_selected_def selection_total)
  show "\<exists>r. map_option fst (NodeFabricVerify F x (- 1)) = Some r" using node_fabric_verify [of F x "- 1"] by auto
qed

interpretation enodes: verification "\<lambda>F. focus_sound focus" "input_nodes type" "expected_node_selected g focus"
  "\<lambda>F e. Some (fst (ExpectedNodeVerify F e (- 1)))" NODE_VERIFY_OK for g focus type
  by unfold_locales (simp_all add: expected_node_selected_def selection_total)

end
