(* ===== verification/Verify_Claims.thy ===== *)
theory Verify_Claims
  imports Verify_Report Fabric_Claims
begin

text \<open>
  The properties of the verification reports of
  \<^verbatim>\<open>IbaTools/ethreport/verify.c\<close>.
\<close>

subsection \<open>The tallies\<close>

definition link_wrongs :: "link_verify tally \<Rightarrow> uint32" where
  "link_wrongs T = results T LINK_VERIFY_MISSING + results T LINK_VERIFY_UNEXPECTED +
     results T LINK_VERIFY_CONN + results T LINK_VERIFY_DUP + results T LINK_VERIFY_DIFF"

lemma bump_fields [simp]:
  "checked (bump ok T res detail x) = checked T + 1"
  "errors (bump ok T res detail x) = errors T + (if res \<noteq> ok then 1 else 0)"
  "results (bump ok T res detail x) = (results T)(res := results T res + 1)"
  by (simp_all add: bump_def)

lemma link_tally:
  assumes "verify_loop LINK_VERIFY_OK sel verdict detail xs T = Some U"
  shows "checked U - errors U - results U LINK_VERIFY_OK = checked T - errors T - results T LINK_VERIFY_OK \<and>
    errors U - link_wrongs U = errors T - link_wrongs T"
proof (rule verify_loop_invariant [OF assms])
  fix S :: "link_verify tally" and res x
  assume "checked S - errors S - results S LINK_VERIFY_OK = checked T - errors T - results T LINK_VERIFY_OK \<and>
    errors S - link_wrongs S = errors T - link_wrongs T"
  moreover have "checked (bump LINK_VERIFY_OK S res detail x) - errors (bump LINK_VERIFY_OK S res detail x) -
      results (bump LINK_VERIFY_OK S res detail x) LINK_VERIFY_OK = checked S - errors S - results S LINK_VERIFY_OK"
    by (cases res) simp_all
  moreover have "errors (bump LINK_VERIFY_OK S res detail x) - link_wrongs (bump LINK_VERIFY_OK S res detail x) =
      errors S - link_wrongs S"
    by (cases res) (simp_all add: link_wrongs_def)
  ultimately show "checked (bump LINK_VERIFY_OK S res detail x) - errors (bump LINK_VERIFY_OK S res detail x) -
      results (bump LINK_VERIFY_OK S res detail x) LINK_VERIFY_OK = checked T - errors T - results T LINK_VERIFY_OK \<and>
    errors (bump LINK_VERIFY_OK S res detail x) - link_wrongs (bump LINK_VERIFY_OK S res detail x) =
      errors T - link_wrongs T"
    by simp
qed simp

subsection \<open>Without a focus\<close>

lemma no_focus [simp]:
  "ComparePortPoint g p None = Some True" "CompareNodePoint g n None = Some True"
  "CompareExpectedNodePoint e None = Some True" "CompareExpectedLinkPoint e None = Some True" "focus_sound None"
  by (simp_all add: ComparePortPoint_def CompareNodePoint_def CompareExpectedNodePoint_def
      CompareExpectedLinkPoint_def PointValid_def focus_sound_def)

lemma or_else_simps [simp]: "or_else (Some True) b = Some True" "or_else (Some False) b = b" "or_else a (Some True) = Some True \<longleftrightarrow> a \<noteq> None"
  by (auto simp: or_else_def split: option.split bool.split)

lemma links_wrong:
  assumes "links_shape F"
  shows "links.wrong g None report F p \<longleftrightarrow> fromp (pdata F p) \<and> link_in_report report F p \<and> \<not> link_matches F p"
proof (cases "fromp (pdata F p) \<and> link_in_report report F p")
  case True
  with assms from_neighbor obtain q where q: "neighbor (pdata F p) = Some q" by blast
  have m: "link_matches F p \<Longrightarrow> elinkp (pdata F p) \<noteq> None \<and> elinkp (pdata F q) \<noteq> None"
    using q by (auto simp: link_matches_def split: option.splits)
  from link_fabric_verify [OF q, of "- 1"] obtain out where
    "LinkFabricVerify F p (- 1) = Some (if elinkp (pdata F p) = None \<or> elinkp (pdata F q) = None then LINK_VERIFY_UNEXPECTED
      else if link_matches F p then LINK_VERIFY_OK else LINK_VERIFY_DIFF, out)" by blast
  then have "map_option fst (LinkFabricVerify F p (- 1)) = Some LINK_VERIFY_OK \<longleftrightarrow> link_matches F p"
    using m by (cases "link_matches F p") simp_all
  then show ?thesis using True q by (simp add: links.wrong_def link_selected_def)
next
  case False
  then show ?thesis by (auto simp: links.wrong_def link_selected_def)
qed

lemma elinks_wrong:
  "elinks.wrong g None report F e \<longleftrightarrow> expected_in_report report F e \<and> \<not> expected_link_found F e"
proof (cases "expected_in_report report F e")
  case True
  then have "expected_link_selected g None report F e = Some True"
    by (auto simp: expected_link_selected_def opt_compare_def split: option.split)
  then show ?thesis using True by (simp add: elinks.wrong_def expected_link_ok)
next
  case False
  then show ?thesis by (simp add: elinks.wrong_def expected_link_selected_def)
qed

lemma nodes_wrong: "nodes.wrong g None F n \<longleftrightarrow> \<not> node_matches F n"
proof -
  from node_fabric_verify [of F n "- 1"] obtain out where
    "NodeFabricVerify F n (- 1) = Some (if enodep (ndata F n) = None then NODE_VERIFY_UNEXPECTED
      else if node_matches F n then NODE_VERIFY_OK else NODE_VERIFY_DIFF, out)" by blast
  moreover have "node_matches F n \<Longrightarrow> enodep (ndata F n) \<noteq> None" by (auto simp: node_matches_def split: option.splits)
  ultimately have "map_option fst (NodeFabricVerify F n (- 1)) = Some NODE_VERIFY_OK \<longleftrightarrow> node_matches F n"
    by (cases "node_matches F n") simp_all
  then show ?thesis by (simp add: nodes.wrong_def node_selected_def)
qed

lemma enodes_wrong: "enodes.wrong g None F e \<longleftrightarrow> \<not> expected_node_found F e"
proof -
  have "expected_node_selected g None F e = Some True"
    by (auto simp: expected_node_selected_def opt_compare_def split: option.split)
  then show ?thesis by (simp add: enodes.wrong_def expected_node_ok)
qed

text \<open>The errors of a report that has been made.\<close>

lemma report_errors:
  assumes "links_shape F" "ShowVerifyLinksReport g True True F None report detail = Some (Report T1 T2)"
  shows "errors T1 = of_nat (length (filter (links.wrong g None report F) (AllPorts F))) \<and>
    errors T2 = of_nat (length (filter (elinks.wrong g None report F) (ExpectedLinks F))) \<and>
    shown_objs T1 = (if detail = 0 then [] else filter (links.wrong g None report F) (AllPorts F)) \<and>
    shown_objs T2 = (if detail = 0 then [] else filter (elinks.wrong g None report F) (ExpectedLinks F))"
proof -
  from assms(1) have wf: "links_shape F \<and> focus_sound None" by simp
  obtain U1 where U1: "verify_loop LINK_VERIFY_OK (link_selected g None report F)
      (\<lambda>p. map_option fst (LinkFabricVerify F p (- 1))) detail (AllPorts F) (zero_tally (\<lambda>_. 0)) = Some U1"
    "errors U1 = of_nat (length (filter (links.wrong g None report F) (AllPorts F)))"
    "shown_objs U1 = (if detail = 0 then [] else filter (links.wrong g None report F) (AllPorts F))"
    by (rule links.loop [OF wf, where g = g and report = report and detail = detail and T = "zero_tally (\<lambda>_. 0)"])
      (simp add: zero_tally_def)
  obtain U2 where U2: "verify_loop LINK_VERIFY_OK (expected_link_selected g None report F)
      (\<lambda>e. Some (fst (ExpectedLinkVerify F e 0 (- 1)))) detail (ExpectedLinks F) (zero_tally (results U1)) = Some U2"
    "errors U2 = of_nat (length (filter (elinks.wrong g None report F) (ExpectedLinks F)))"
    "shown_objs U2 = (if detail = 0 then [] else filter (elinks.wrong g None report F) (ExpectedLinks F))"
    by (rule elinks.loop [OF conjunct2 [OF wf], where g = g and report = report and detail = detail
        and T = "zero_tally (results U1)" and F = F]) (simp add: zero_tally_def)
  from assms(2) have "T1 = U1" "T2 = U2" by (simp_all add: ShowVerifyLinksReport_def U1(1) U2(1))
  with U1(2,3) U2(2,3) show ?thesis by simp
qed

lemma report_made:
  assumes "links_shape F"
  shows "\<exists>T1 T2. ShowVerifyLinksReport g True True F None report detail = Some (Report T1 T2)"
proof -
  from assms have wf: "links_shape F \<and> focus_sound None" by simp
  obtain U1 where U1: "verify_loop LINK_VERIFY_OK (link_selected g None report F)
      (\<lambda>p. map_option fst (LinkFabricVerify F p (- 1))) detail (AllPorts F) (zero_tally (\<lambda>_. 0)) = Some U1"
    by (rule links.loop [OF wf, where g = g and report = report and detail = detail and T = "zero_tally (\<lambda>_. 0)"])
  obtain U2 where "verify_loop LINK_VERIFY_OK (expected_link_selected g None report F)
      (\<lambda>e. Some (fst (ExpectedLinkVerify F e 0 (- 1)))) detail (ExpectedLinks F) (zero_tally (results U1)) = Some U2"
    by (rule elinks.loop [OF conjunct2 [OF wf], where g = g and report = report and detail = detail
        and T = "zero_tally (results U1)" and F = F])
  with U1 show ?thesis by (simp add: ShowVerifyLinksReport_def)
qed

subsection \<open>The properties\<close>

text \<open>
  C35.  \<^verbatim>\<open>LinkFabricVerify\<close> accepts a link exactly when both ports carry an expectation,
  both match their selectors (on the fields the selectors specify) and are up, and rate and
  smaller MTU are as expected; it reports an unexpected link exactly when one port carries
  none.  It prints nothing for a link it accepts and nothing below detail 0, and otherwise
  something, but for a link of which one side only resolved.
\<close>

theorem link_verdict:
  assumes "neighbor (pdata F p) = Some q"
  shows "\<exists>out. LinkFabricVerify F p detail =
      Some (if elinkp (pdata F p) = None \<or> elinkp (pdata F q) = None then LINK_VERIFY_UNEXPECTED
            else if link_matches F p then LINK_VERIFY_OK else LINK_VERIFY_DIFF, out) \<and>
    (detail < 0 \<or> link_matches F p \<longrightarrow> out = []) \<and>
    (0 \<le> detail \<and> \<not> link_matches F p \<and> (elinkp (pdata F p) = None \<longleftrightarrow> elinkp (pdata F q) = None) \<longrightarrow> out \<noteq> [])"
  using assms by (rule link_fabric_verify)

definition linked_fabric :: fabric_data where
  "linked_fabric = snd (FabricDataAddLink sample_fabric 0 2)"

lemma linked_fabric_ok: "links_shape linked_fabric"
  using add_link_ok [OF sample_links_ok, of 0 2] by (simp add: linked_fabric_def links_ok_def)

lemma linked_fabric_pdata: "pdata linked_fabric = linked sample_fabric 0 2"
  by (simp add: linked_fabric_def add_link_cases)

lemma linked_fabric_port:
  "neighbor (pdata linked_fabric 0) = Some 2" "elinkp (pdata linked_fabric 0) = None"
  "fromp (pdata linked_fabric 0)" "AllPorts linked_fabric = [0, 1, 2]" "ExpectedLinks linked_fabric = []"
  by (simp_all add: linked_fabric_def add_link_cases linked_def first_from_def count_link_def)
    (simp_all add: sample_fabric_def sample_port_def sample_node_def)

definition sample_view :: fabric where
  "sample_view = \<lparr>port_nodep = id, node_systemp = id, node_type_of = (\<lambda>_. STL_NODE_FI), node_port_count = (\<lambda>_. 1),
     system_node_count = (\<lambda>_. 1), ioc_ioup = id, iou_nodep = id, iou_ioc_count = (\<lambda>_. 0)\<rparr>"

theorem link_verdict_witness:
  "\<exists>out. LinkFabricVerify linked_fabric 0 0 = Some (LINK_VERIFY_UNEXPECTED, out)"
  using link_verdict [OF linked_fabric_port(1), of 0] linked_fabric_port(2) by auto

text \<open>
  The summary of a links report adds up: the incorrect links are the missing, unexpected,
  misconnected, duplicate and different ones, and with the correct ones they are all that were
  checked, in the fabric and in the input.
\<close>

theorem links_summary_adds_up:
  assumes "ShowVerifyLinksReport g topology_in have_expected F focus report detail = Some (Report T1 T2)"
  shows "errors T1 + errors T2 = results T2 LINK_VERIFY_MISSING + results T2 LINK_VERIFY_UNEXPECTED +
      results T2 LINK_VERIFY_CONN + results T2 LINK_VERIFY_DUP + results T2 LINK_VERIFY_DIFF \<and>
    checked T1 + checked T2 = errors T1 + errors T2 + results T2 LINK_VERIFY_OK"
proof -
  from assms have l: "verify_loop LINK_VERIFY_OK (link_selected g focus report F)
      (\<lambda>p. map_option fst (LinkFabricVerify F p (- 1))) detail (AllPorts F) (zero_tally (\<lambda>_. 0)) = Some T1"
    "verify_loop LINK_VERIFY_OK (expected_link_selected g focus report F)
      (\<lambda>e. Some (fst (ExpectedLinkVerify F e 0 (- 1)))) detail (ExpectedLinks F) (zero_tally (results T1)) = Some T2"
    by (auto simp: ShowVerifyLinksReport_def split: if_splits option.splits)
  from link_tally [OF l(1)] link_tally [OF l(2)]
  have "errors T1 = link_wrongs T1" "errors T2 = link_wrongs T2 - link_wrongs T1"
    "checked T1 = errors T1 + results T1 LINK_VERIFY_OK"
    "checked T2 = errors T2 + results T2 LINK_VERIFY_OK - results T1 LINK_VERIFY_OK"
    by (simp_all add: zero_tally_def link_wrongs_def algebra_simps)
  then show ?thesis by (simp add: link_wrongs_def)
qed

theorem links_summary_adds_up_witness:
  "\<exists>T1 T2. ShowVerifyLinksReport sample_view True True linked_fabric None REPORT_VERIFYLINKS 0 = Some (Report T1 T2) \<and>
    checked T1 + checked T2 = errors T1 + errors T2 + results T2 LINK_VERIFY_OK"
proof -
  obtain T1 where T1: "verify_loop LINK_VERIFY_OK (link_selected sample_view None REPORT_VERIFYLINKS linked_fabric)
      (\<lambda>p. map_option fst (LinkFabricVerify linked_fabric p (- 1))) 0 (AllPorts linked_fabric) (zero_tally (\<lambda>_. 0)) = Some T1"
    by (rule links.loop [of linked_fabric None, where g = sample_view and report = REPORT_VERIFYLINKS and detail = 0
        and T = "zero_tally (\<lambda>_. 0)"]) (simp_all add: linked_fabric_ok)
  have "ShowVerifyLinksReport sample_view True True linked_fabric None REPORT_VERIFYLINKS 0 =
      Some (Report T1 (zero_tally (results T1)))"
    by (simp add: ShowVerifyLinksReport_def T1 linked_fabric_port(5))
  then show ?thesis using links_summary_adds_up by blast
qed

text \<open>
  C36.  A links report over the whole fabric is defined, lists exactly the links that do not
  match their expectation and the expected links that are not found (missing, half resolved or
  duplicate), in the order of the fabric and of the input, and counts no errors exactly when
  every link of its class matches and every expected link of its class is found.
\<close>

theorem links_report_clean:
  assumes "links_ok F" "length (AllPorts F) < 2 ^ 32" "length (ExpectedLinks F) < 2 ^ 32"
  shows "\<exists>T1 T2. ShowVerifyLinksReport g True True F None report detail = Some (Report T1 T2) \<and>
    shown_objs T1 = (if detail = 0 then [] else
      filter (\<lambda>p. fromp (pdata F p) \<and> link_in_report report F p \<and> \<not> link_matches F p) (AllPorts F)) \<and>
    shown_objs T2 = (if detail = 0 then [] else
      filter (\<lambda>e. expected_in_report report F e \<and> \<not> expected_link_found F e) (ExpectedLinks F)) \<and>
    (errors T1 = 0 \<and> errors T2 = 0 \<longleftrightarrow>
      (\<forall>p \<in> set (AllPorts F). fromp (pdata F p) \<and> link_in_report report F p \<longrightarrow> link_matches F p) \<and>
      (\<forall>e \<in> set (ExpectedLinks F). expected_in_report report F e \<longrightarrow> expected_link_found F e))"
proof -
  have s: "links_shape F" using assms(1) by (simp add: links_ok_def)
  from report_made [OF s] obtain T1 T2 where
    made: "ShowVerifyLinksReport g True True F None report detail = Some (Report T1 T2)" by blast
  note T = report_errors [OF s made]
  have "errors T1 = 0 \<longleftrightarrow> (\<forall>p \<in> set (AllPorts F). \<not> links.wrong g None report F p)"
    using T links.no_errors [OF assms(2)] by simp
  moreover have "errors T2 = 0 \<longleftrightarrow> (\<forall>e \<in> set (ExpectedLinks F). \<not> elinks.wrong g None report F e)"
    using T elinks.no_errors [OF assms(3)] by simp
  ultimately show ?thesis using T made unfolding links_wrong [OF s] elinks_wrong by blast
qed

theorem links_report_clean_witness:
  "\<exists>T1 T2. ShowVerifyLinksReport sample_view True True linked_fabric None REPORT_VERIFYLINKS 1 = Some (Report T1 T2) \<and>
    \<not> (errors T1 = 0 \<and> errors T2 = 0)"
proof -
  have "links_ok linked_fabric" using add_link_ok [OF sample_links_ok, of 0 2] by (simp add: linked_fabric_def)
  moreover have "\<not> link_matches linked_fabric 0"
    using linked_fabric_port(2) by (auto simp: link_matches_def split: option.split)
  ultimately show ?thesis
    using links_report_clean [of linked_fabric sample_view REPORT_VERIFYLINKS 1] linked_fabric_port(3-5)
    by (auto simp: link_in_report_def)
qed

text \<open>
  Likewise for the nodes of one type: a nodes report counts no errors exactly when every
  node matches its expectation and every expected node is found and the one its node points
  back to.
\<close>

theorem nodes_report_clean:
  assumes "length (fabric_nodes type F) < 2 ^ 32" "length (input_nodes type F) < 2 ^ 32"
  shows "\<exists>T1 T2. ShowVerifyNodesReport g True True F None type detail = Some (Report T1 T2) \<and>
    shown_objs T1 = (if detail = 0 then [] else filter (\<lambda>n. \<not> node_matches F n) (fabric_nodes type F)) \<and>
    shown_objs T2 = (if detail = 0 then [] else filter (\<lambda>e. \<not> expected_node_found F e) (input_nodes type F)) \<and>
    (errors T1 = 0 \<and> errors T2 = 0 \<longleftrightarrow>
      (\<forall>n \<in> set (fabric_nodes type F). node_matches F n) \<and>
      (\<forall>e \<in> set (input_nodes type F). expected_node_found F e))"
proof -
  obtain T1 where T1: "verify_loop NODE_VERIFY_OK (node_selected g None F)
      (\<lambda>n. map_option fst (NodeFabricVerify F n (- 1))) detail (fabric_nodes type F) (zero_tally (\<lambda>_. 0)) = Some T1"
    "errors T1 = of_nat (length (filter (nodes.wrong g None F) (fabric_nodes type F)))"
    "shown_objs T1 = (if detail = 0 then [] else filter (nodes.wrong g None F) (fabric_nodes type F))"
    by (rule nodes.loop [OF no_focus(5), where g = g and F = F and detail = detail and type = type and T = "zero_tally (\<lambda>_. 0)"]) (simp add: zero_tally_def)
  obtain T2 where T2: "verify_loop NODE_VERIFY_OK (expected_node_selected g None F)
      (\<lambda>e. Some (fst (ExpectedNodeVerify F e (- 1)))) detail (input_nodes type F) (zero_tally (results T1)) = Some T2"
    "errors T2 = of_nat (length (filter (enodes.wrong g None F) (input_nodes type F)))"
    "shown_objs T2 = (if detail = 0 then [] else filter (enodes.wrong g None F) (input_nodes type F))"
    by (rule enodes.loop [OF no_focus(5), where g = g and F = F and detail = detail and type = type and T = "zero_tally (results T1)"]) (simp add: zero_tally_def)
  have "ShowVerifyNodesReport g True True F None type detail = Some (Report T1 T2)"
    using T1(1) T2(1) by (simp add: ShowVerifyNodesReport_def fabric_nodes_def input_nodes_def)
  moreover have "errors T1 = 0 \<longleftrightarrow> (\<forall>n \<in> set (fabric_nodes type F). \<not> nodes.wrong g None F n)"
    unfolding T1(2) by (rule nodes.no_errors [OF assms(1)])
  moreover have "errors T2 = 0 \<longleftrightarrow> (\<forall>e \<in> set (input_nodes type F). \<not> enodes.wrong g None F e)"
    unfolding T2(2) by (rule enodes.no_errors [OF assms(2)])
  ultimately show ?thesis using T1(3) T2(3) unfolding nodes_wrong enodes_wrong by blast
qed

theorem nodes_report_clean_witness:
  "\<exists>T1 T2. ShowVerifyNodesReport sample_view True True sample_fabric None STL_NODE_SW 1 = Some (Report T1 T2) \<and>
    shown_objs T1 = [2]"
proof -
  have "fabric_nodes STL_NODE_SW sample_fabric = [2]" "input_nodes STL_NODE_SW sample_fabric = []"
    by (simp_all add: fabric_nodes_def input_nodes_def sample_fabric_def)
  moreover have "\<not> node_matches sample_fabric 2"
    by (simp add: node_matches_def sample_fabric_def sample_node_def)
  ultimately show ?thesis using nodes_report_clean [of STL_NODE_SW sample_fabric sample_view 1] by auto
qed

end
