(* ===== verification/Topology.thy ===== *)
theory Topology
  imports Search
begin

text \<open>
  The topology file of \<^verbatim>\<open>Topology/topology.c\<close>: what happens when the parser has read an
  expected link, node or port, that is, how the expectations are matched with the ports and
  nodes of the fabric.  The XML parser itself and the messages are left out; a handler gets the
  object the parser filled in and whether it is valid.
\<close>

subsection \<open>Links\<close>

datatype match_level = MATCH_NONE | MATCH_NODE | MATCH_PORT

definition LookupNodeName :: "fabric_data \<Rightarrow> string \<Rightarrow> node option" where
  "LookupNodeName F name =
     find (\<lambda>n. strn_eq STL_NODE_DESCRIPTION_ARRAY_SIZE (NodeDesc (ndata F n)) name) (map snd (AllNodes F))"

text \<open>The first of two pointers that is not NULL.\<close>

definition first_of :: "'a option \<Rightarrow> 'a option \<Rightarrow> 'a option" where
  "first_of x y = (case x of None \<Rightarrow> y | Some _ \<Rightarrow> x)"

definition ResolvePortSelector ::
  "fabric_data \<Rightarrow> port_selector option \<Rightarrow> node option \<times> port option \<times> match_level" where
  "ResolvePortSelector F portselp =
     (case portselp of
        None \<Rightarrow> (None, None, MATCH_NONE)
      | Some s \<Rightarrow>
          (let n = (if ps_NodeGUID s \<noteq> 0 then FindNodeGuid F (ps_NodeGUID s) else None);
               n = first_of n (Option.bind (ps_NodeDesc s) (LookupNodeName F));
               m = (if n \<noteq> None then MATCH_NODE else MATCH_NONE);
               p = (if n = None \<and> ps_PortGUID s \<noteq> 0 then FindPortGuid F (ps_PortGUID s) else None);
               n = first_of n (map_option (\<lambda>p. nodep (pdata F p)) p);
               m = (if p \<noteq> None then MATCH_PORT else m)
           in case n of
                None \<Rightarrow> (None, p, m)
              | Some nodep1 \<Rightarrow>
                  (let byNum = (if gotPortNum s then FindNodePort F nodep1 (ps_PortNum s) else None);
                       m = (if byNum \<noteq> None then MATCH_PORT else m);
                       p = first_of byNum p;
                       byId = (if p = None then Option.bind (ps_PortId s) (FindNodePortId F nodep1) else None);
                       m = (if byId \<noteq> None then MATCH_PORT else m);
                       p = first_of p byId;
                       byGuid = (if p = None \<and> ps_PortGUID s \<noteq> 0 then FindPortGuid F (ps_PortGUID s) else None);
                       byGuid = (case byGuid of None \<Rightarrow> None
                         | Some q \<Rightarrow> if nodep (pdata F q) = nodep1 then Some q else None);
                       m = (if byGuid \<noteq> None then MATCH_PORT else m);
                       p = first_of p byGuid;
                       only = (case NodePorts (ndata F nodep1) of [(_, q)] \<Rightarrow> Some q | _ \<Rightarrow> None)
                   in (Some nodep1, first_of p only, m))))"

fun g_linkMatchLevel :: "match_level \<Rightarrow> match_level \<Rightarrow> nat" where
  "g_linkMatchLevel MATCH_NONE MATCH_NONE = 0"
| "g_linkMatchLevel MATCH_NONE MATCH_NODE = 1"
| "g_linkMatchLevel MATCH_NONE MATCH_PORT = 2"
| "g_linkMatchLevel MATCH_NODE MATCH_NONE = 1"
| "g_linkMatchLevel MATCH_NODE MATCH_NODE = 3"
| "g_linkMatchLevel MATCH_NODE MATCH_PORT = 4"
| "g_linkMatchLevel MATCH_PORT MATCH_NONE = 2"
| "g_linkMatchLevel MATCH_PORT MATCH_NODE = 4"
| "g_linkMatchLevel MATCH_PORT MATCH_PORT = 5"

definition isCompletePortSelector :: "port_selector option \<Rightarrow> bool" where
  "isCompletePortSelector portselp = (case portselp of
       None \<Rightarrow> False
     | Some s \<Rightarrow>
         ps_NodeGUID s \<noteq> 0 \<and> gotPortNum s \<or> ps_NodeGUID s \<noteq> 0 \<and> ps_PortId s \<noteq> None \<or> ps_PortGUID s \<noteq> 0 \<or>
         ps_NodeDesc s \<noteq> None \<and> gotPortNum s \<or> ps_NodeDesc s \<noteq> None \<and> ps_PortId s \<noteq> None)"

text \<open>The neighbour of a port if it is at the node.\<close>

definition neighbor_at :: "fabric_data \<Rightarrow> port option \<Rightarrow> node option \<Rightarrow> port option" where
  "neighbor_at F p n =
     (case Option.bind p (\<lambda>p. neighbor (pdata F p)) of
        None \<Rightarrow> None
      | Some q \<Rightarrow> if n = Some (nodep (pdata F q)) then Some q else None)"

text \<open>The first half of \<^verbatim>\<open>ResolvePorts\<close>: the two ports, and how well they match.\<close>

definition resolve_ends :: "fabric_data \<Rightarrow> expected_link \<Rightarrow> port option \<times> port option \<times> nat" where
  "resolve_ends F l =
     (case ResolvePortSelector F (portselp1 l) of (n1, p1, m1) \<Rightarrow>
      case ResolvePortSelector F (portselp2 l) of (n2, p2, m2) \<Rightarrow>
        let level = g_linkMatchLevel m1 m2
        in if p1 = None \<and> p2 = None then (None, None, level)
           else
             (let q2 = (if p1 \<noteq> None \<and> \<not> isCompletePortSelector (portselp2 l)
                        then Option.bind p1 (\<lambda>p. neighbor (pdata F p)) else p2);
                  q1 = (if \<not> (p1 \<noteq> None \<and> \<not> isCompletePortSelector (portselp2 l)) \<and>
                           p2 \<noteq> None \<and> \<not> isCompletePortSelector (portselp1 l)
                        then Option.bind p2 (\<lambda>p. neighbor (pdata F p)) else p1);
                  r2 = (if q2 = None then neighbor_at F q1 n2 else q2);
                  r1 = (if q1 = None then neighbor_at F r2 n1 else q1)
              in (r1, r2, level)))"

definition set_link :: "expected \<Rightarrow> (expected_link \<Rightarrow> expected_link) \<Rightarrow> fabric_data \<Rightarrow> fabric_data" where
  "set_link e f F = F\<lparr>ldata := (ldata F)(e := f (ldata F e))\<rparr>"

definition set_elink :: "port \<Rightarrow> expected option \<Rightarrow> fabric_data \<Rightarrow> fabric_data" where
  "set_elink p e F = set_port p (\<lambda>d. d\<lparr>elinkp := e\<rparr>) F"

text \<open>The second half: the ports get the link, unless an earlier link matched them better.\<close>

definition associate :: "expected \<Rightarrow> port option \<Rightarrow> port option \<Rightarrow> nat \<Rightarrow> fabric_data \<Rightarrow> fabric_data" where
  "associate e p1 p2 level F =
     (let F = set_link e (\<lambda>l. l\<lparr>portp1 := p1, portp2 := p2, matchLevel := level\<rparr>) F
      in case (p1, p2) of
           (Some a, Some b) \<Rightarrow>
             if neighbor (pdata F a) = Some b \<and> elinkp (pdata F a) = None \<and> elinkp (pdata F b) = None
             then set_elink b (Some e) (set_elink a (Some e) F) else F
         | _ \<Rightarrow> F)"

definition release :: "expected \<Rightarrow> port \<Rightarrow> port \<Rightarrow> fabric_data \<Rightarrow> fabric_data" where
  "release e a b F =
     set_link e (\<lambda>l. l\<lparr>portp1 := None, portp2 := None, matchLevel := 0\<rparr>) (set_elink a None (set_elink b None F))"

definition ResolvePorts :: "fabric_data \<Rightarrow> expected \<Rightarrow> fabric_data" where
  "ResolvePorts F e =
     (case resolve_ends F (ldata F e) of (p1, p2, level) \<Rightarrow>
        if p1 = None \<and> p2 = None then F
        else case (p1, p2) of
            (Some a, Some b) \<Rightarrow>
              (case elinkp (pdata F a) of
                 Some e2 \<Rightarrow>
                   if elinkp (pdata F b) = Some e2 then
                     (if matchLevel (ldata F e2) > level then F
                      else if matchLevel (ldata F e2) < level then associate e p1 p2 level (release e2 a b F)
                      else associate e p1 p2 level F)
                   else associate e p1 p2 level F
               | None \<Rightarrow> associate e p1 p2 level F)
          | _ \<Rightarrow> associate e p1 p2 level F)"

text \<open>Freeing a link: its ports forget it and it leaves the list.\<close>

definition forget_link :: "expected \<Rightarrow> port option \<Rightarrow> fabric_data \<Rightarrow> fabric_data" where
  "forget_link e p F = (case p of
       None \<Rightarrow> F
     | Some a \<Rightarrow> if elinkp (pdata F a) = Some e then set_elink a None F else F)"

definition ExpectedLinkFree :: "fabric_data \<Rightarrow> expected \<Rightarrow> fabric_data" where
  "ExpectedLinkFree F e =
     (let F = forget_link e (portp1 (ldata F e)) F;
          F = forget_link e (portp2 (ldata F e)) F
      in F\<lparr>ExpectedLinks := remove1 e (ExpectedLinks F)\<rparr>)"

definition ExpectedLinkFreeAll :: "fabric_data \<Rightarrow> fabric_data" where
  "ExpectedLinkFreeAll F = fold (\<lambda>e F. ExpectedLinkFree F e) (ExpectedLinks F) F"

definition LinkXmlParserEnd :: "bool \<Rightarrow> fabric_data \<Rightarrow> expected \<Rightarrow> fabric_data" where
  "LinkXmlParserEnd valid F e =
     (if \<not> valid then ExpectedLinkFree F e
      else (let F = ResolvePorts F e in F\<lparr>ExpectedLinks := ExpectedLinks F @ [e]\<rparr>))"

text \<open>A port of the link has been read: False when it was freed.\<close>

definition PortSelectorXmlParserEnd :: "bool \<Rightarrow> fabric_data \<Rightarrow> expected \<Rightarrow> port_selector \<Rightarrow> bool \<times> fabric_data" where
  "PortSelectorXmlParserEnd valid F e portselp =
     (if \<not> valid then (False, F)
      else if portselp1 (ldata F e) = None then (True, set_link e (\<lambda>l. l\<lparr>portselp1 := Some portselp\<rparr>) F)
      else if portselp2 (ldata F e) = None then (True, set_link e (\<lambda>l. l\<lparr>portselp2 := Some portselp\<rparr>) F)
      else (False, F))"

subsection \<open>Nodes\<close>

definition set_enode :: "expected \<Rightarrow> (expected_node \<Rightarrow> expected_node) \<Rightarrow> fabric_data \<Rightarrow> fabric_data" where
  "set_enode e f F = F\<lparr>edata := (edata F)(e := f (edata F e))\<rparr>"

definition set_node_enode :: "node \<Rightarrow> expected option \<Rightarrow> fabric_data \<Rightarrow> fabric_data" where
  "set_node_enode n e F = F\<lparr>ndata := (ndata F)(n := (ndata F n)\<lparr>enodep := e\<rparr>)\<rparr>"

definition ResolveNode :: "fabric_data \<Rightarrow> expected option \<Rightarrow> fabric_data" where
  "ResolveNode F enodep1 =
     (case enodep1 of
        None \<Rightarrow> F
      | Some e \<Rightarrow>
          (let en = edata F e;
               n = (if en_NodeGUID en \<noteq> 0 then FindNodeGuid F (en_NodeGUID en) else None);
               n = first_of n (Option.bind (en_NodeDesc en) (LookupNodeName F));
               F = set_enode e (\<lambda>d. d\<lparr>en_nodep := n\<rparr>) F
           in case n of
                None \<Rightarrow> F
              | Some k \<Rightarrow> if enodep (ndata F k) = None then set_node_enode k (Some e) F else F))"

text \<open>
  \<^verbatim>\<open>ExpectedNodeFree\<close>, with the list the node is in; the nodes of type \<open>ty\<close> have a
  list of their own.
\<close>

definition drop_enode :: "uint8 \<Rightarrow> expected \<Rightarrow> fabric_data \<Rightarrow> fabric_data" where
  "drop_enode ty e F =
     (if ty = NODE_FI then F\<lparr>ExpectedFIs := remove1 e (ExpectedFIs F)\<rparr>
      else F\<lparr>ExpectedSWs := remove1 e (ExpectedSWs F)\<rparr>)"

definition ExpectedNodeFree :: "fabric_data \<Rightarrow> expected \<Rightarrow> uint8 \<Rightarrow> fabric_data" where
  "ExpectedNodeFree F e ty =
     (let en = edata F e;
          F = (case en_nodep en of
                 None \<Rightarrow> F
               | Some n \<Rightarrow> if enodep (ndata F n) = Some e then set_node_enode n None F else F);
          F = drop_enode ty e F
      in if en_NodeGUID en \<noteq> 0
         then F\<lparr>ExpectedNodeGuidMap := omap_remove (en_NodeGUID en) (ExpectedNodeGuidMap F)\<rparr> else F)"

definition ExpectedNodesFreeAll :: "fabric_data \<Rightarrow> uint8 \<Rightarrow> fabric_data" where
  "ExpectedNodesFreeAll F ty =
     fold (\<lambda>e F. ExpectedNodeFree F e ty) (if ty = NODE_FI then ExpectedFIs F else ExpectedSWs F) F"

definition enter_enode :: "bool \<Rightarrow> uint8 \<Rightarrow> (expected \<Rightarrow> fabric_data \<Rightarrow> fabric_data) \<Rightarrow> fabric_data \<Rightarrow> expected \<Rightarrow> fabric_data" where
  "enter_enode valid ty add F e =
     (let F = set_enode e (\<lambda>d. d\<lparr>en_NodeType := ty\<rparr>) F
      in if \<not> valid then ExpectedNodeFree F e ty
         else
           (let F = add e (ResolveNode F (Some e))
            in if en_NodeGUID (edata F e) \<noteq> 0
               then F\<lparr>ExpectedNodeGuidMap := omap_insert (en_NodeGUID (edata F e)) e (ExpectedNodeGuidMap F)\<rparr>
               else F))"

definition ExpectedFIXmlParserEnd :: "bool \<Rightarrow> fabric_data \<Rightarrow> expected \<Rightarrow> fabric_data" where
  "ExpectedFIXmlParserEnd valid = enter_enode valid NODE_FI (\<lambda>e F. F\<lparr>ExpectedFIs := ExpectedFIs F @ [e]\<rparr>)"

definition ExpectedSWXmlParserEnd :: "bool \<Rightarrow> fabric_data \<Rightarrow> expected \<Rightarrow> fabric_data" where
  "ExpectedSWXmlParserEnd valid = enter_enode valid NODE_SW (\<lambda>e F. F\<lparr>ExpectedSWs := ExpectedSWs F @ [e]\<rparr>)"

text \<open>An invalid topology is freed as a whole.\<close>

definition TopologyXmlParserEnd :: "bool \<Rightarrow> fabric_data \<Rightarrow> fabric_data" where
  "TopologyXmlParserEnd valid F =
     (if valid then F
      else ExpectedNodesFreeAll (ExpectedNodesFreeAll (ExpectedLinkFreeAll F) NODE_FI) NODE_SW)"

subsection \<open>Ports of expected nodes\<close>

text \<open>
  The size is kept in 16 bits, while the array is allocated with the size computed in an
  \<^verbatim>\<open>int\<close>; \<open>ok\<close> is the outcome of the allocation.  Copying reads no more than
  \<^verbatim>\<open>portsSize\<close> elements of the old array.
\<close>

definition ExpectedNodePrepareSize :: "bool \<Rightarrow> expected_node \<Rightarrow> uint16 \<Rightarrow> fstatus \<times> expected_node" where
  "ExpectedNodePrepareSize ok en portNum =
     (if unat portNum + 1 > unat (portsSize en) then
        (let allocCount = max (if portsSize en = 0 then 1 else 2 * unat (portsSize en)) (unat portNum + 1)
         in if \<not> ok then (FINSUFFICIENT_MEMORY, en)
            else (FSUCCESS, en\<lparr>ports := take (unat (portsSize en)) (ports en) @
                                replicate (allocCount - unat (portsSize en)) None,
                              portsSize := of_nat allocCount\<rparr>))
      else (FSUCCESS, en))"

definition ExpectedNodeAddPort :: "bool \<Rightarrow> expected_node \<Rightarrow> expected_port \<Rightarrow> (fstatus \<times> expected_node) option" where
  "ExpectedNodeAddPort ok en eportp =
     (case ExpectedNodePrepareSize ok en (ep_PortNum eportp) of (st, en) \<Rightarrow>
        if st \<noteq> FSUCCESS then Some (FINSUFFICIENT_MEMORY, en)
        else case enode_port en (unat (ep_PortNum eportp)) of
            None \<Rightarrow> None
          | Some (Some _) \<Rightarrow> Some (FDUPLICATE, en)
          | Some None \<Rightarrow> Some (FSUCCESS, en\<lparr>ports := (ports en)[unat (ep_PortNum eportp) := Some eportp]\<rparr>))"

definition ExpectedNodeGetPort :: "expected_node \<Rightarrow> uint16 \<Rightarrow> expected_port option option" where
  "ExpectedNodeGetPort en portNum =
     (if portNum \<ge> portsSize en then Some None else enode_port en (unat portNum))"

text \<open>The first component is False when the port was freed instead.\<close>

definition ExpectedPortXmlParserEnd :: "bool \<Rightarrow> bool \<Rightarrow> expected_node \<Rightarrow> expected_port \<Rightarrow> (bool \<times> expected_node) option" where
  "ExpectedPortXmlParserEnd ok valid en eportp =
     (if \<not> valid then Some (False, en)
      else map_option (\<lambda>(st, en). (st = FSUCCESS, en)) (ExpectedNodeAddPort ok en eportp))"

end
