(* ===== verification/Topology_Validate.thy ===== *)
theory Topology_Validate
  imports Topology
begin

text \<open>
  The validation of a topology file (\<^verbatim>\<open>TopologyValidate\<close> of
  \<^verbatim>\<open>Topology/topology.c\<close>): every link ends at a port of an expected node, no port has
  two links, and the nodes are connected.  Outcomes of allocations are arguments, by
  expected link and side; following a NULL pointer is undefined, the result \<open>None\<close>.
\<close>

unbundle bit_operations_syntax

datatype topo_val = TOPOVAL_NONE | TOPOVAL_LOOSE | TOPOVAL_SOMEWHAT_STRICT | TOPOVAL_STRICT

definition strict :: "topo_val \<Rightarrow> bool" where
  "strict v \<longleftrightarrow> v = TOPOVAL_SOMEWHAT_STRICT \<or> v = TOPOVAL_STRICT"

definition NodeGUIDtoPortGUID :: "uint64 \<Rightarrow> uint8 \<Rightarrow> uint64" where
  "NodeGUIDtoPortGUID nodeGUID portnum =
     (let portnum = (if portnum \<noteq> 0 then portnum - 1 else portnum)
      in (nodeGUID AND NOT (push_bit 30 3)) OR (push_bit 30 (ucast portnum) AND push_bit 30 3))"

subsection \<open>One end of a link\<close>

text \<open>The node a selector is for, or why there is none.\<close>

definition selected_enode :: "fabric_data \<Rightarrow> port_selector \<Rightarrow> fstatus + expected" where
  "selected_enode F s =
     (if ps_NodeGUID s \<noteq> 0 then
        (case FindExpectedNodeByNodeGuid F (ps_NodeGUID s) of
           None \<Rightarrow> Inl FNOT_FOUND
         | Some n \<Rightarrow>
             (case (ps_NodeDesc s, en_NodeDesc (edata F n)) of
                (Some d, Some d') \<Rightarrow> if d \<noteq> d' then Inl FERROR else Inr n
              | _ \<Rightarrow> Inr n))
      else (case ps_NodeDesc s of
          Some d \<Rightarrow>
            (case FindExpectedNodeByNodeDesc F d (ps_NodeType s) of None \<Rightarrow> Inl FNOT_FOUND | Some n \<Rightarrow> Inr n)
        | None \<Rightarrow> Inl FINVALID_PARAMETER))"

definition end_selector :: "bool \<Rightarrow> expected_link \<Rightarrow> port_selector option" where
  "end_selector second l = (if second then portselp2 l else portselp1 l)"

definition set_selector :: "bool \<Rightarrow> (port_selector \<Rightarrow> port_selector) \<Rightarrow> expected_link \<Rightarrow> expected_link" where
  "set_selector second f l =
     (if second then l\<lparr>portselp2 := map_option f (portselp2 l)\<rparr> else l\<lparr>portselp1 := map_option f (portselp1 l)\<rparr>)"

definition new_port :: "uint16 \<Rightarrow> expected_port" where
  "new_port k = \<lparr>ep_PortNum = k, ep_PortGuid = 0, ep_elinkp = None\<rparr>"

text \<open>
  The expected port is there, or it is added, unless the validation is strict; \<open>ok\<close> has the
  outcomes of the two allocations.
\<close>

definition port_for_link :: "bool \<times> bool \<Rightarrow> topo_val \<Rightarrow> expected_node \<Rightarrow> uint16 \<Rightarrow> (fstatus \<times> expected_node) option" where
  "port_for_link ok validation en k =
     (case ExpectedNodeGetPort en k of
        None \<Rightarrow> None
      | Some (Some _) \<Rightarrow> Some (FSUCCESS, en)
      | Some None \<Rightarrow>
          if validation = TOPOVAL_STRICT then Some (FERROR, en)
          else if \<not> fst ok then Some (FINSUFFICIENT_MEMORY, en)
          else map_option (\<lambda>(st, en). (if st = FSUCCESS then FSUCCESS else FINSUFFICIENT_MEMORY, en))
                 (ExpectedNodeAddPort (snd ok) en (new_port k)))"

definition TopologyValidateLinkPort ::
  "bool \<times> bool \<Rightarrow> topo_val \<Rightarrow> fabric_data \<Rightarrow> expected \<Rightarrow> bool \<Rightarrow> (fstatus \<times> fabric_data) option" where
  "TopologyValidateLinkPort ok validation F e second =
     (case end_selector second (ldata F e) of
        None \<Rightarrow> Some (FINVALID_PARAMETER, F)
      | Some s \<Rightarrow>
          (case selected_enode F s of
             Inl st \<Rightarrow> Some (st, F)
           | Inr n \<Rightarrow>
               if en_NodeType (edata F n) \<noteq> 0 \<and> ps_NodeType s \<noteq> 0 \<and> en_NodeType (edata F n) \<noteq> ps_NodeType s
               then Some (FERROR, F)
               else if \<not> gotPortNum s then Some (FINVALID_PARAMETER, F)
               else case port_for_link ok validation (edata F n) (ps_PortNum s) of
                   None \<Rightarrow> None
                 | Some (st, en) \<Rightarrow>
                     (let F = set_enode n (\<lambda>_. en) F
                      in if st \<noteq> FSUCCESS then Some (st, F)
                         else case enode_port en (unat (ps_PortNum s)) of
                             Some (Some ep) \<Rightarrow>
                               if ep_elinkp ep \<noteq> None then Some (FDUPLICATE, F)
                               else
                                 (let F = set_enode n (\<lambda>en. en\<lparr>ports := (ports en)[unat (ps_PortNum s) := Some (ep\<lparr>ep_elinkp := Some e\<rparr>)]\<rparr>) F;
                                      F = set_link e (set_selector second (\<lambda>s. s\<lparr>ps_enodep := Some n\<rparr>)) F
                                  in Some (FSUCCESS, F))
                           | _ \<Rightarrow> None)))"

subsection \<open>Reachability\<close>

text \<open>
  The nodes at the links of a node, in the order of its ports, NULL ones included.
\<close>

definition link_ends :: "fabric_data \<Rightarrow> expected \<Rightarrow> expected option list option" where
  "link_ends F e =
     (case (portselp1 (ldata F e), portselp2 (ldata F e)) of
        (Some s1, Some s2) \<Rightarrow> Some [ps_enodep s1, ps_enodep s2]
      | _ \<Rightarrow> None)"

fun ends_of_ports :: "fabric_data \<Rightarrow> expected_port option list \<Rightarrow> expected option list option" where
  "ends_of_ports F [] = Some []"
| "ends_of_ports F (None # ps) = ends_of_ports F ps"
| "ends_of_ports F (Some ep # ps) =
     (case ep_elinkp ep of
        None \<Rightarrow> ends_of_ports F ps
      | Some e \<Rightarrow>
          (case (link_ends F e, ends_of_ports F ps) of
             (Some ns, Some ms) \<Rightarrow> Some (ns @ ms)
           | _ \<Rightarrow> None))"

definition successors :: "fabric_data \<Rightarrow> expected \<Rightarrow> expected option list option" where
  "successors F n =
     (let en = edata F n
      in if unat (portsSize en) \<le> length (ports en) then ends_of_ports F (take (unat (portsSize en)) (ports en))
         else None)"

text \<open>
  The recursion of \<^verbatim>\<open>TopologyValidateLinkHelper\<close>, with the calls that are still to be
  made as a list.  A node's ports and links do not change on the way, so they may be read when
  the node is entered.
\<close>

partial_function (option) visit :: "expected option list \<Rightarrow> fabric_data \<Rightarrow> fabric_data option" where
  "visit calls F =
     (case calls of
        [] \<Rightarrow> Some F
      | None # calls \<Rightarrow> visit calls F
      | Some n # calls \<Rightarrow>
          if connected (edata F n) then visit calls F
          else (case successors F n of
                  None \<Rightarrow> None
                | Some ns \<Rightarrow> visit (ns @ calls) (set_enode n (\<lambda>en. en\<lparr>connected := True\<rparr>) F)))"

declare visit.simps [code]

definition TopologyValidateLinkHelper :: "expected option \<Rightarrow> fabric_data \<Rightarrow> fabric_data option" where
  "TopologyValidateLinkHelper n F = visit [n] F"

definition head_of :: "'a list \<Rightarrow> 'a option" where
  "head_of xs = (case xs of [] \<Rightarrow> None | x # _ \<Rightarrow> Some x)"

definition TopologyValidateNoLinksDisjoint :: "fabric_data \<Rightarrow> (fstatus \<times> fabric_data) option" where
  "TopologyValidateNoLinksDisjoint F =
     (case first_of (head_of (ExpectedSWs F)) (head_of (ExpectedFIs F)) of
        None \<Rightarrow> Some (FSUCCESS, F)
      | Some root \<Rightarrow>
          map_option (\<lambda>F. (if \<forall>n \<in> set (ExpectedSWs F) \<union> set (ExpectedFIs F). connected (edata F n)
                           then FSUCCESS else FERROR, F))
            (TopologyValidateLinkHelper (Some root) F))"

subsection \<open>The validation\<close>

definition switch_port0_ok :: "fabric_data \<Rightarrow> expected \<Rightarrow> bool option" where
  "switch_port0_ok F n =
     (let en = edata F n
      in if portsSize en = 0 then Some True
         else case enode_port en 0 of
             None \<Rightarrow> None
           | Some None \<Rightarrow> Some True
           | Some (Some ep) \<Rightarrow>
               Some (\<not> (ep_PortGuid ep \<noteq> 0 \<and> en_NodeGUID en \<noteq> 0 \<and>
                         ep_PortGuid ep \<noteq> NodeGUIDtoPortGUID (en_NodeGUID en) 0)))"

fun switches_ok :: "fabric_data \<Rightarrow> expected list \<Rightarrow> bool option" where
  "switches_ok F [] = Some True"
| "switches_ok F (n # ns) =
     (case switch_port0_ok F n of
        None \<Rightarrow> None
      | Some b \<Rightarrow> map_option (\<lambda>c. b \<and> c) (switches_ok F ns))"

text \<open>The counters of the summary, and the status so far.\<close>

record link_validation =
  lv_ok :: bool
  lv_checked :: nat
  lv_resolved :: nat
  lv_bad :: nat

definition end_status :: "topo_val \<Rightarrow> fstatus \<Rightarrow> bool" where
  "end_status validation st \<longleftrightarrow> st = FSUCCESS \<or> st = FINVALID_PARAMETER \<and> \<not> strict validation"

definition validate_link ::
  "(expected \<Rightarrow> bool \<Rightarrow> bool \<times> bool) \<Rightarrow> topo_val \<Rightarrow> expected \<Rightarrow> link_validation \<times> fabric_data \<Rightarrow>
   (link_validation \<times> fabric_data) option" where
  "validate_link ok validation e st =
     (case st of (V, F) \<Rightarrow>
        if portselp1 (ldata F e) = None \<and> portselp2 (ldata F e) = None
        then Some (V\<lparr>lv_bad := lv_bad V + 1\<rparr>, F)
        else case TopologyValidateLinkPort (ok e False) validation F e False of
            None \<Rightarrow> None
          | Some (st1, F) \<Rightarrow>
              (case TopologyValidateLinkPort (ok e True) validation F e True of
                 None \<Rightarrow> None
               | Some (st2, F) \<Rightarrow>
                   (let bad = (st1 = FINVALID_PARAMETER \<or> st2 = FINVALID_PARAMETER)
                    in Some (V\<lparr>lv_ok := lv_ok V \<and> end_status validation st1 \<and> end_status validation st2,
                               lv_bad := lv_bad V + (if bad then 1 else 0),
                               lv_checked := lv_checked V + (if bad then 0 else 1),
                               lv_resolved := lv_resolved V + (if st1 = FSUCCESS \<and> st2 = FSUCCESS then 1 else 0)\<rparr>, F))))"

fun validate_links ::
  "(expected \<Rightarrow> bool \<Rightarrow> bool \<times> bool) \<Rightarrow> topo_val \<Rightarrow> expected list \<Rightarrow> link_validation \<times> fabric_data \<Rightarrow>
   (link_validation \<times> fabric_data) option" where
  "validate_links ok validation [] st = Some st"
| "validate_links ok validation (e # es) st =
     (case validate_link ok validation e st of None \<Rightarrow> None | Some st \<Rightarrow> validate_links ok validation es st)"

definition TopologyValidate ::
  "(expected \<Rightarrow> bool \<Rightarrow> bool \<times> bool) \<Rightarrow> topo_val \<Rightarrow> fabric_data \<Rightarrow> (fstatus \<times> fabric_data) option" where
  "TopologyValidate ok validation F =
     (if ExpectedLinks F = [] then Some (FERROR, F)
      else case switches_ok F (ExpectedSWs F) of
          None \<Rightarrow> None
        | Some sw \<Rightarrow>
            (case validate_links ok validation (ExpectedLinks F)
                    (\<lparr>lv_ok = sw \<or> \<not> strict validation, lv_checked = 0, lv_resolved = 0, lv_bad = 0\<rparr>, F) of
               None \<Rightarrow> None
             | Some (V, F) \<Rightarrow>
                 if \<not> strict validation then Some (FSUCCESS, F)
                 else if \<not> lv_ok V then Some (FERROR, F)
                 else TopologyValidateNoLinksDisjoint F))"

end
