(* ===== verification/Topology_Ports.thy ===== *)
theory Topology_Ports
  imports Topology_Validate
begin

text \<open>
  The ports of an expected node as a partial function on port numbers.  The array is sound when
  its size is the one that was allocated, which it is for port numbers below 32768.
\<close>

definition en_ok :: "expected_node \<Rightarrow> bool" where
  "en_ok en \<longleftrightarrow> length (ports en) = unat (portsSize en)"

definition port_at :: "expected_node \<Rightarrow> uint16 \<Rightarrow> expected_port option" where
  "port_at en k = (if k < portsSize en then ports en ! unat k else None)"

abbreviation MAX_EXPECTED_PORT :: uint16 where "MAX_EXPECTED_PORT \<equiv> 0x7FFF"

lemma enode_port_at: "en_ok en \<Longrightarrow> k < portsSize en \<Longrightarrow> enode_port en (unat k) = Some (port_at en k)"
  by (simp add: en_ok_def enode_port_def port_at_def word_less_nat_alt)

lemma get_port: "en_ok en \<Longrightarrow> ExpectedNodeGetPort en k = Some (port_at en k)"
  using enode_port_at [of en k] by (auto simp: ExpectedNodeGetPort_def port_at_def not_le)

lemma port_at_size: "port_at en k \<noteq> None \<Longrightarrow> k < portsSize en"
  by (auto simp: port_at_def split: if_splits)

text \<open>Equal but for the array.\<close>

definition same_node :: "expected_node \<Rightarrow> expected_node \<Rightarrow> bool" where
  "same_node en en' \<longleftrightarrow> en' = en\<lparr>ports := ports en', portsSize := portsSize en'\<rparr>"

lemma same_node_refl [simp]: "same_node en en"
  by (simp add: same_node_def)

lemma same_node_trans: "same_node a b \<Longrightarrow> same_node b c \<Longrightarrow> same_node a c"
  unfolding same_node_def by (cases a; cases b; cases c) simp

lemma same_node_fields:
  assumes "same_node en en'"
  shows "en_NodeGUID en' = en_NodeGUID en" "en_NodeDesc en' = en_NodeDesc en" "en_NodeType en' = en_NodeType en"
    "connected en' = connected en"
  by (subst assms [unfolded same_node_def], simp)+

lemma prepare_size:
  assumes "en_ok en" "k \<le> MAX_EXPECTED_PORT"
  shows "\<exists>en'. ExpectedNodePrepareSize True en k = (FSUCCESS, en') \<and> en_ok en' \<and> same_node en en' \<and>
    k < portsSize en' \<and> port_at en' = port_at en"
proof (cases "unat k + 1 > unat (portsSize en)")
  case False
  then show ?thesis using assms(1) by (simp add: ExpectedNodePrepareSize_def word_less_nat_alt)
next
  case True
  define c where "c = max (if portsSize en = 0 then 1 else 2 * unat (portsSize en)) (unat k + 1)"
  let ?en = "en\<lparr>ports := take (unat (portsSize en)) (ports en) @ replicate (c - unat (portsSize en)) None,
      portsSize := of_nat c\<rparr>"
  have k: "unat k \<le> 32767" using assms(2) by (simp add: word_le_nat_alt)
  with True have c: "c < 2 ^ 16" "unat (portsSize en) \<le> c" "unat k < c" by (auto simp: c_def)
  then have u: "unat (of_nat c :: uint16) = c" by (simp add: unat_of_nat take_bit_nat_eq_self)
  have len: "length (ports en) = unat (portsSize en)" using assms(1) by (simp add: en_ok_def)
  have "ExpectedNodePrepareSize True en k = (FSUCCESS, ?en)"
    using True by (simp add: ExpectedNodePrepareSize_def Let_def c_def)
  moreover have "en_ok ?en" using c(2) len u by (simp add: en_ok_def)
  moreover have "same_node en ?en" by (simp add: same_node_def)
  moreover have "k < portsSize ?en" using u c(3) by (simp add: word_less_nat_alt)
  moreover have "port_at ?en j = port_at en j" for j
  proof (cases "unat j < unat (portsSize en)")
    case True
    then have "unat j < c" using c(2) by simp
    with True len u show ?thesis by (simp add: port_at_def word_less_nat_alt nth_append)
  next
    case False
    then show ?thesis using u len by (simp add: port_at_def word_less_nat_alt nth_append)
  qed
  ultimately show ?thesis by blast
qed

lemma add_port:
  assumes "en_ok en" "ep_PortNum ep \<le> MAX_EXPECTED_PORT"
  shows "\<exists>en'. ExpectedNodeAddPort True en ep =
      Some (if port_at en (ep_PortNum ep) = None then FSUCCESS else FDUPLICATE, en') \<and>
    en_ok en' \<and> same_node en en' \<and>
    port_at en' = (if port_at en (ep_PortNum ep) = None then (port_at en)(ep_PortNum ep := Some ep) else port_at en)"
proof -
  let ?k = "ep_PortNum ep"
  from prepare_size [OF assms] obtain en' where
    p: "ExpectedNodePrepareSize True en ?k = (FSUCCESS, en')" "en_ok en'" "same_node en en'" "?k < portsSize en'"
      "port_at en' = port_at en" by blast
  have e: "enode_port en' (unat ?k) = Some (port_at en ?k)" using enode_port_at [OF p(2,4)] p(5) by simp
  show ?thesis
  proof (cases "port_at en ?k")
    case (Some x)
    then show ?thesis using p e by (simp add: ExpectedNodeAddPort_def)
  next
    case None
    let ?en = "en'\<lparr>ports := (ports en')[unat ?k := Some ep]\<rparr>"
    have "unat ?k < length (ports en')" using p(2,4) by (simp add: en_ok_def word_less_nat_alt)
    then have "port_at ?en = (port_at en)(?k := Some ep)"
      using p(4) unfolding p(5) [symmetric] by (auto simp: fun_eq_iff port_at_def nth_list_update word_unat_eq_iff [symmetric])
    moreover have "en_ok ?en" using p(2) by (simp add: en_ok_def)
    moreover have "same_node en' ?en" by (simp add: same_node_def)
    then have "same_node en ?en" using same_node_trans p(3) by blast
    moreover have "ExpectedNodeAddPort True en ep = Some (FSUCCESS, ?en)"
      using p(1) e None by (simp add: ExpectedNodeAddPort_def)
    ultimately show ?thesis using None by simp
  qed
qed

lemma add_port_failed:
  assumes "en_ok en" "ep_PortNum ep \<ge> portsSize en"
  shows "ExpectedNodeAddPort False en ep = Some (FINSUFFICIENT_MEMORY, en)"
  using assms by (simp add: ExpectedNodeAddPort_def ExpectedNodePrepareSize_def Let_def word_le_nat_alt)

text \<open>Above that the size wraps: the greatest port number leaves the node without ports.\<close>

lemma add_port_wraps:
  assumes "portsSize en = 0" "ep_PortNum ep = 0xFFFF"
  shows "\<exists>en'. ExpectedNodeAddPort True en ep = Some (FSUCCESS, en') \<and> portsSize en' = 0 \<and>
    ExpectedNodeGetPort en' 0xFFFF = Some None \<and> length (ports en') = 65536"
proof -
  have u: "unat (ep_PortNum ep) = 65535" using assms(2) by simp
  let ?en = "en\<lparr>ports := replicate 65536 None, portsSize := 0\<rparr>"
  have "ExpectedNodePrepareSize True en (ep_PortNum ep) = (FSUCCESS, ?en)"
    unfolding ExpectedNodePrepareSize_def Let_def u using assms(1) by simp
  moreover have "enode_port ?en 65535 = Some None" unfolding enode_port_def by simp
  ultimately have "ExpectedNodeAddPort True en ep = Some (FSUCCESS, ?en\<lparr>ports := (replicate 65536 None)[65535 := Some ep]\<rparr>)"
    unfolding ExpectedNodeAddPort_def u by simp
  then show ?thesis by (simp add: ExpectedNodeGetPort_def)
qed

subsection \<open>The links of the ports\<close>

definition elink_at :: "expected_node \<Rightarrow> uint16 \<Rightarrow> expected option" where
  "elink_at en k = Option.bind (port_at en k) ep_elinkp"

lemma port_for_link:
  assumes "en_ok en" "k \<le> MAX_EXPECTED_PORT"
  shows "\<exists>st en'. port_for_link ok v en k = Some (st, en') \<and> en_ok en' \<and> same_node en en' \<and>
    elink_at en' = elink_at en \<and> (st = FSUCCESS \<longrightarrow> port_at en' k \<noteq> None)"
proof (cases "port_at en k")
  case (Some ep)
  then show ?thesis using assms(1) by (simp add: port_for_link_def get_port)
next
  case None
  then have c: "port_for_link ok v en k = (if v = TOPOVAL_STRICT then Some (FERROR, en)
      else if \<not> fst ok then Some (FINSUFFICIENT_MEMORY, en)
      else map_option (\<lambda>(st, en). (if st = FSUCCESS then FSUCCESS else FINSUFFICIENT_MEMORY, en))
        (ExpectedNodeAddPort (snd ok) en (new_port k)))"
    using get_port [OF assms(1)] by (simp add: port_for_link_def)
  have num: "ep_PortNum (new_port k) = k" by (simp add: new_port_def)
  show ?thesis
  proof (cases "snd ok")
    case True
    with add_port [OF assms(1), of "new_port k"] assms(2) None num obtain en' where
      a: "ExpectedNodeAddPort (snd ok) en (new_port k) = Some (FSUCCESS, en')" "en_ok en'" "same_node en en'"
        "port_at en' = (port_at en)(k := Some (new_port k))" by auto
    have "elink_at en' = elink_at en" using None by (auto simp: fun_eq_iff elink_at_def a(4) new_port_def)
    then show ?thesis using a assms(1) unfolding c by simp
  next
    case False
    show ?thesis
    proof (cases "k < portsSize en")
      case True
      then have "unat k < unat (portsSize en)" by (simp add: word_less_nat_alt)
      then have "ExpectedNodePrepareSize (snd ok) en k = (FSUCCESS, en)" "ExpectedNodePrepareSize True en k = (FSUCCESS, en)"
        by (simp_all add: ExpectedNodePrepareSize_def)
      then have "ExpectedNodeAddPort (snd ok) en (new_port k) = ExpectedNodeAddPort True en (new_port k)"
        by (simp add: ExpectedNodeAddPort_def num)
      with add_port [OF assms(1), of "new_port k"] assms(2) None num obtain en' where
        a: "ExpectedNodeAddPort (snd ok) en (new_port k) = Some (FSUCCESS, en')" "en_ok en'" "same_node en en'"
          "port_at en' = (port_at en)(k := Some (new_port k))" by auto
      have "elink_at en' = elink_at en" using None by (auto simp: fun_eq_iff elink_at_def a(4) new_port_def)
      then show ?thesis using a assms(1) unfolding c by simp
    next
      case False
      then have "ExpectedNodeAddPort (snd ok) en (new_port k) = Some (FINSUFFICIENT_MEMORY, en)"
        using add_port_failed [OF assms(1), of "new_port k"] \<open>\<not> snd ok\<close> num by simp
      then show ?thesis using assms(1) unfolding c by simp
    qed
  qed
qed

lemma set_elink_at:
  fixes e :: expected
  assumes "en_ok en" "port_at en k = Some ep"
  defines "en' \<equiv> en\<lparr>ports := (ports en)[unat k := Some (ep\<lparr>ep_elinkp := Some e\<rparr>)]\<rparr>"
  shows "en_ok en'" "same_node en en'" "elink_at en' = (elink_at en)(k := Some e)"
proof -
  have k: "k < portsSize en" using assms(2) port_at_size by simp
  then have l: "unat k < length (ports en)" using assms(1) by (simp add: en_ok_def word_less_nat_alt)
  show "en_ok en'" "same_node en en'" using assms(1) by (simp_all add: en'_def en_ok_def same_node_def)
  have "port_at en' j = (if j = k then Some (ep\<lparr>ep_elinkp := Some e\<rparr>) else port_at en j)" for j
    using k l by (auto simp: en'_def port_at_def nth_list_update word_unat_eq_iff [symmetric])
  then show "elink_at en' = (elink_at en)(k := Some e)" by (auto simp: fun_eq_iff elink_at_def)
qed

end
