(* ===== verification/Topology_Links.thy ===== *)
theory Topology_Links
  imports Topology_Ports
begin

text \<open>
  What the validation of the links of a topology file does to the expected nodes and links: the
  ports of the links get pointers to them, and the selectors pointers to the nodes.
\<close>

definition enodes :: "fabric_data \<Rightarrow> expected set" where
  "enodes F = set (ExpectedSWs F) \<union> set (ExpectedFIs F)"

definition elinks :: "fabric_data \<Rightarrow> expected \<Rightarrow> uint16 \<Rightarrow> expected option" where
  "elinks F n = elink_at (edata F n)"

text \<open>The selectors without the pointers to nodes.\<close>

definition bare :: "port_selector option \<Rightarrow> port_selector option" where
  "bare s = map_option (\<lambda>s. s\<lparr>ps_enodep := None\<rparr>) s"

lemma bare_simps [simp]: "bare s = None \<longleftrightarrow> s = None" "bare (map_option (\<lambda>s. s\<lparr>ps_enodep := x\<rparr>) s) = bare s"
  by (cases s; simp add: bare_def)+

lemma bare_num: "bare s = bare s' \<Longrightarrow> map_option ps_PortNum s = map_option ps_PortNum s'"
proof -
  have "map_option ps_PortNum (bare s) = map_option ps_PortNum s" for s by (cases s) (simp_all add: bare_def)
  then show "bare s = bare s' \<Longrightarrow> map_option ps_PortNum s = map_option ps_PortNum s'" by metis
qed

definition validates :: "fabric_data \<Rightarrow> fabric_data \<Rightarrow> bool" where
  "validates F G \<longleftrightarrow> G = F\<lparr>edata := edata G, ldata := ldata G\<rparr> \<and>
     (\<forall>n. same_node (edata F n) (edata G n) \<and> (en_ok (edata F n) \<longrightarrow> en_ok (edata G n))) \<and>
     (\<forall>e x. bare (end_selector x (ldata G e)) = bare (end_selector x (ldata F e)))"

lemma validates_refl [simp]: "validates F F"
  by (simp add: validates_def)

lemma validates_trans:
  assumes "validates F G" "validates G H"
  shows "validates F H"
proof -
  have "H = G\<lparr>edata := edata H, ldata := ldata H\<rparr>" "G = F\<lparr>edata := edata G, ldata := ldata G\<rparr>"
    using assms unfolding validates_def by blast+
  then have "H = F\<lparr>edata := edata H, ldata := ldata H\<rparr>" by (cases F; cases G; cases H) simp
  moreover have "same_node (edata F n) (edata H n)" for n
    using assms same_node_trans unfolding validates_def by blast
  moreover have "en_ok (edata F n) \<longrightarrow> en_ok (edata H n)" for n using assms unfolding validates_def by blast
  moreover have "bare (end_selector x (ldata H e)) = bare (end_selector x (ldata F e))" for e x
    using assms unfolding validates_def by metis
  ultimately show ?thesis unfolding validates_def by blast
qed

lemma validates_fields:
  assumes "validates F G"
  shows "enodes G = enodes F" "ExpectedNodeGuidMap G = ExpectedNodeGuidMap F" "ExpectedLinks G = ExpectedLinks F"
    "ExpectedSWs G = ExpectedSWs F" "ExpectedFIs G = ExpectedFIs F"
proof -
  have "G = F\<lparr>edata := edata G, ldata := ldata G\<rparr>" using assms unfolding validates_def by blast
  then have "ExpectedSWs G = ExpectedSWs (F\<lparr>edata := edata G, ldata := ldata G\<rparr>) \<and>
    ExpectedFIs G = ExpectedFIs (F\<lparr>edata := edata G, ldata := ldata G\<rparr>) \<and>
    ExpectedNodeGuidMap G = ExpectedNodeGuidMap (F\<lparr>edata := edata G, ldata := ldata G\<rparr>) \<and>
    ExpectedLinks G = ExpectedLinks (F\<lparr>edata := edata G, ldata := ldata G\<rparr>)" by metis
  then show "enodes G = enodes F" "ExpectedNodeGuidMap G = ExpectedNodeGuidMap F" "ExpectedLinks G = ExpectedLinks F"
    "ExpectedSWs G = ExpectedSWs F" "ExpectedFIs G = ExpectedFIs F"
    by (simp_all add: enodes_def)
qed

lemma set_enode_simps [simp]:
  "edata (set_enode n f F) = (edata F)(n := f (edata F n))" "ldata (set_enode n f F) = ldata F"
  by (simp_all add: set_enode_def)

lemma set_link_edata [simp]: "edata (set_link e f F) = edata F" "ldata (set_link e f F) = (ldata F)(e := f (ldata F e))"
  by (simp_all add: set_link_def)

lemma validates_set_enode:
  "same_node (edata F n) (f (edata F n)) \<Longrightarrow> (en_ok (edata F n) \<Longrightarrow> en_ok (f (edata F n))) \<Longrightarrow> validates F (set_enode n f F)"
  by (simp add: validates_def set_enode_def)

lemma end_selector_set:
  "end_selector x (set_selector y f l) = (if x = y then map_option f (end_selector x l) else end_selector x l)"
  by (simp add: end_selector_def set_selector_def)

lemma validates_set_link: "validates F (set_link e (set_selector y (\<lambda>s. s\<lparr>ps_enodep := x\<rparr>)) F)"
  by (simp add: validates_def set_link_def end_selector_set)

text \<open>The map of expected nodes has only nodes that are in the lists.\<close>

definition map_ok :: "fabric_data \<Rightarrow> bool" where
  "map_ok F \<longleftrightarrow> snd ` set (ExpectedNodeGuidMap F) \<subseteq> enodes F"

lemma selected_enode_in:
  assumes "map_ok F" "selected_enode F s = Inr n"
  shows "n \<in> enodes F"
proof (cases "ps_NodeGUID s \<noteq> 0")
  case True
  with assms(2) have "FindExpectedNodeByNodeGuid F (ps_NodeGUID s) = Some n"
    by (auto simp: selected_enode_def split: option.splits if_splits)
  then have "(ps_NodeGUID s, n) \<in> set (ExpectedNodeGuidMap F)"
    by (simp add: FindExpectedNodeByNodeGuid_def omap_get_def map_of_SomeD)
  with assms(1) show ?thesis by (force simp: map_ok_def)
next
  case False
  with assms(2) obtain d where "FindExpectedNodeByNodeDesc F d (ps_NodeType s) = Some n"
    by (auto simp: selected_enode_def split: option.splits)
  then show ?thesis
    by (auto simp: FindExpectedNodeByNodeDesc_def enodes_def find_Some_iff split: option.splits if_splits)
qed

subsection \<open>One end of a link\<close>

text \<open>The effect of a success: the port of the node gets the link, the selector the node.\<close>

definition end_linked :: "fabric_data \<Rightarrow> fabric_data \<Rightarrow> expected \<Rightarrow> bool \<Rightarrow> bool" where
  "end_linked F G e second \<longleftrightarrow> (\<exists>s n. end_selector second (ldata F e) = Some s \<and> n \<in> enodes F \<and>
     elinks F n (ps_PortNum s) = None \<and>
     elinks G = (elinks F)(n := (elinks F n)(ps_PortNum s := Some e)) \<and>
     ldata G = (ldata F)(e := set_selector second (\<lambda>s. s\<lparr>ps_enodep := Some n\<rparr>) (ldata F e)))"

definition selector_small :: "fabric_data \<Rightarrow> expected \<Rightarrow> bool" where
  "selector_small F e \<longleftrightarrow> (\<forall>x s. end_selector x (ldata F e) = Some s \<longrightarrow> ps_PortNum s \<le> MAX_EXPECTED_PORT)"

lemma validate_link_port:
  assumes "map_ok F" "\<And>n. n \<in> enodes F \<Longrightarrow> en_ok (edata F n)" "selector_small F e"
  shows "\<exists>st G. TopologyValidateLinkPort ok v F e second = Some (st, G) \<and> validates F G \<and>
    (st = FSUCCESS \<longrightarrow> end_linked F G e second) \<and>
    (st \<noteq> FSUCCESS \<longrightarrow> elinks G = elinks F \<and> ldata G = ldata F)"
proof (cases "end_selector second (ldata F e)")
  case None
  then show ?thesis by (simp add: TopologyValidateLinkPort_def)
next
  case (Some s)
  show ?thesis
  proof (cases "selected_enode F s")
    case (Inl st)
    have "st \<noteq> FSUCCESS" using Inl by (auto simp: selected_enode_def split: option.splits if_splits)
    then show ?thesis using Some Inl by (simp add: TopologyValidateLinkPort_def)
  next
    case (Inr n)
    then have n: "n \<in> enodes F" using selected_enode_in assms(1) by blast
    have k: "ps_PortNum s \<le> MAX_EXPECTED_PORT" using assms(3) Some by (simp add: selector_small_def)
    show ?thesis
    proof (cases "en_NodeType (edata F n) \<noteq> 0 \<and> ps_NodeType s \<noteq> 0 \<and> en_NodeType (edata F n) \<noteq> ps_NodeType s \<or> \<not> gotPortNum s")
      case True
      then show ?thesis using Some Inr by (auto simp: TopologyValidateLinkPort_def)
    next
      case False
      from port_for_link [OF assms(2) [OF n] k, of ok v] obtain st en where
        p: "port_for_link ok v (edata F n) (ps_PortNum s) = Some (st, en)" "en_ok en" "same_node (edata F n) en"
          "elink_at en = elink_at (edata F n)" "st = FSUCCESS \<longrightarrow> port_at en (ps_PortNum s) \<noteq> None" by blast
      let ?F = "set_enode n (\<lambda>_. en) F"
      have vF: "validates F ?F" using p(2,3) by (intro validates_set_enode)
      have eF: "elinks ?F = elinks F" by (auto simp: fun_eq_iff elinks_def p(4))
      have run: "TopologyValidateLinkPort ok v F e second =
          (if st \<noteq> FSUCCESS then Some (st, ?F)
           else case enode_port en (unat (ps_PortNum s)) of
               Some (Some ep) \<Rightarrow>
                 if ep_elinkp ep \<noteq> None then Some (FDUPLICATE, ?F)
                 else Some (FSUCCESS, set_link e (set_selector second (\<lambda>s. s\<lparr>ps_enodep := Some n\<rparr>))
                   (set_enode n (\<lambda>en. en\<lparr>ports := (ports en)[unat (ps_PortNum s) := Some (ep\<lparr>ep_elinkp := Some e\<rparr>)]\<rparr>) ?F))
             | _ \<Rightarrow> None)"
        unfolding TopologyValidateLinkPort_def Let_def using Some Inr False p(1) by auto
      show ?thesis
      proof (cases "st = FSUCCESS")
        case False
        then show ?thesis unfolding run using vF eF by simp
      next
        case True
        with p(5) obtain ep where ep: "port_at en (ps_PortNum s) = Some ep" by blast
        then have port: "enode_port en (unat (ps_PortNum s)) = Some (Some ep)"
          using enode_port_at [OF p(2)] port_at_size by fastforce
        show ?thesis
        proof (cases "ep_elinkp ep")
          case None
          note set = set_elink_at [OF p(2) ep, of e]
          let ?f = "\<lambda>en. en\<lparr>ports := (ports en)[unat (ps_PortNum s) := Some (ep\<lparr>ep_elinkp := Some e\<rparr>)]\<rparr>"
          let ?G = "set_enode n ?f ?F"
          let ?H = "set_link e (set_selector second (\<lambda>s. s\<lparr>ps_enodep := Some n\<rparr>)) ?G"
          have "validates ?F ?G" using set(1,2) by (intro validates_set_enode) simp_all
          then have v: "validates F ?H" using validates_trans vF validates_set_link by blast
          have free: "elinks F n (ps_PortNum s) = None"
            using None ep unfolding elinks_def p(4) [symmetric] by (simp add: elink_at_def)
          have "elinks ?H = (elinks F)(n := (elinks F n)(ps_PortNum s := Some e))"
            using set(3) by (auto simp: fun_eq_iff elinks_def p(4))
          then have "end_linked F ?H e second" unfolding end_linked_def
            using Some n free by (intro exI [of _ s] exI [of _ n]) simp
          then show ?thesis unfolding run using True port None v by simp
        next
          case (Some x)
          then show ?thesis unfolding run using True port vF eF by simp
        qed
      qed
    qed
  qed
qed

subsection \<open>All links\<close>

definition empty_link :: "fabric_data \<Rightarrow> expected \<Rightarrow> bool" where
  "empty_link F e \<longleftrightarrow> portselp1 (ldata F e) = None \<and> portselp2 (ldata F e) = None"

text \<open>A link at two different ports, which have it.\<close>

definition fully_linked :: "fabric_data \<Rightarrow> expected \<Rightarrow> bool" where
  "fully_linked F e \<longleftrightarrow> (\<exists>s1 s2 n1 n2. portselp1 (ldata F e) = Some s1 \<and> portselp2 (ldata F e) = Some s2 \<and>
     ps_enodep s1 = Some n1 \<and> ps_enodep s2 = Some n2 \<and> n1 \<in> enodes F \<and> n2 \<in> enodes F \<and>
     elinks F n1 (ps_PortNum s1) = Some e \<and> elinks F n2 (ps_PortNum s2) = Some e \<and>
     (n1, ps_PortNum s1) \<noteq> (n2, ps_PortNum s2))"

lemma fully_linked_keep:
  assumes "fully_linked F e" "ldata G e = ldata F e" "enodes G = enodes F"
    and "\<And>n k. elinks F n k = Some e \<Longrightarrow> elinks G n k = Some e"
  shows "fully_linked G e"
proof -
  from assms(1) obtain s1 s2 n1 n2 where "portselp1 (ldata F e) = Some s1" "portselp2 (ldata F e) = Some s2"
    "ps_enodep s1 = Some n1" "ps_enodep s2 = Some n2" "n1 \<in> enodes F" "n2 \<in> enodes F"
    "elinks F n1 (ps_PortNum s1) = Some e" "elinks F n2 (ps_PortNum s2) = Some e"
    "(n1, ps_PortNum s1) \<noteq> (n2, ps_PortNum s2)" unfolding fully_linked_def by blast
  then show ?thesis unfolding fully_linked_def
    by (intro exI [of _ s1] exI [of _ s2] exI [of _ n1] exI [of _ n2]) (simp add: assms(2-4))
qed

lemma validates_ldata:
  assumes "validates F G"
  shows "selector_small G e = selector_small F e" "empty_link G e = empty_link F e"
proof -
  have b: "bare (end_selector x (ldata G e)) = bare (end_selector x (ldata F e))" for x
    using assms unfolding validates_def by blast
  have none: "end_selector x (ldata G e) = None \<longleftrightarrow> end_selector x (ldata F e) = None" for x
    using b [of x] bare_simps(1) by metis
  have small: "selector_small H e \<longleftrightarrow>
      (\<forall>x k. map_option ps_PortNum (end_selector x (ldata H e)) = Some k \<longrightarrow> k \<le> MAX_EXPECTED_PORT)" for H
    unfolding selector_small_def by auto
  show "selector_small G e = selector_small F e" unfolding small bare_num [OF b] ..
  show "empty_link G e = empty_link F e"
    using none [of True] none [of False] by (simp add: empty_link_def end_selector_def)
qed

lemma validates_ok:
  "validates F G \<Longrightarrow> map_ok F \<Longrightarrow> map_ok G"
  "validates F G \<Longrightarrow> (\<And>n. n \<in> enodes F \<Longrightarrow> en_ok (edata F n)) \<Longrightarrow> n \<in> enodes G \<Longrightarrow> en_ok (edata G n)"
proof -
  show "validates F G \<Longrightarrow> map_ok F \<Longrightarrow> map_ok G" by (simp add: map_ok_def validates_fields)
  assume v: "validates F G" and "\<And>n. n \<in> enodes F \<Longrightarrow> en_ok (edata F n)" "n \<in> enodes G"
  then have "en_ok (edata F n)" by (simp add: validates_fields)
  with v show "en_ok (edata G n)" unfolding validates_def by blast
qed

text \<open>What one link may add.\<close>

definition adds_only :: "fabric_data \<Rightarrow> fabric_data \<Rightarrow> expected \<Rightarrow> bool" where
  "adds_only F G e \<longleftrightarrow> (\<forall>e'. e' \<noteq> e \<longrightarrow> ldata G e' = ldata F e') \<and>
     (\<forall>n k. elinks F n k \<noteq> None \<longrightarrow> elinks G n k = elinks F n k) \<and>
     (\<forall>n k e'. elinks G n k = Some e' \<longrightarrow> elinks F n k = Some e' \<or> e' = e)"

lemma adds_only_trans: "adds_only F G e \<Longrightarrow> adds_only G H e \<Longrightarrow> adds_only F H e"
  unfolding adds_only_def by (metis option.distinct(1))

lemma end_linked_adds: "end_linked F G e x \<Longrightarrow> adds_only F G e"
  unfolding end_linked_def adds_only_def by (auto split: if_splits)

lemma same_adds: "elinks G = elinks F \<Longrightarrow> ldata G = ldata F \<Longrightarrow> adds_only F G e"
  by (simp add: adds_only_def)

lemma both_ends_linked:
  assumes "end_linked F F1 e False" "end_linked F1 G e True" "enodes F1 = enodes F" "enodes G = enodes F"
  shows "fully_linked G e"
proof -
  from assms(1) obtain s1 n1 where one: "portselp1 (ldata F e) = Some s1" "n1 \<in> enodes F"
    "elinks F1 = (elinks F)(n1 := (elinks F n1)(ps_PortNum s1 := Some e))"
    "ldata F1 = (ldata F)(e := set_selector False (\<lambda>s. s\<lparr>ps_enodep := Some n1\<rparr>) (ldata F e))"
    unfolding end_linked_def end_selector_def by (simp only: if_False) blast
  from assms(2) obtain s2 n2 where two: "portselp2 (ldata F1 e) = Some s2" "n2 \<in> enodes F1"
    "elinks F1 n2 (ps_PortNum s2) = None"
    "elinks G = (elinks F1)(n2 := (elinks F1 n2)(ps_PortNum s2 := Some e))"
    "ldata G = (ldata F1)(e := set_selector True (\<lambda>s. s\<lparr>ps_enodep := Some n2\<rparr>) (ldata F1 e))"
    unfolding end_linked_def end_selector_def by (simp only: if_True) blast
  have "portselp1 (ldata F1 e) = Some (s1\<lparr>ps_enodep := Some n1\<rparr>)" using one(1,4) by (simp add: set_selector_def)
  then have sel: "portselp1 (ldata G e) = Some (s1\<lparr>ps_enodep := Some n1\<rparr>)" "portselp2 (ldata G e) = Some (s2\<lparr>ps_enodep := Some n2\<rparr>)"
    using two(1,5) by (simp_all add: set_selector_def)
  have f1: "elinks F1 n1 (ps_PortNum s1) = Some e" by (simp add: one(3))
  with two(3) have ne: "(n1, ps_PortNum s1) \<noteq> (n2, ps_PortNum s2)" by auto
  then have "elinks G n1 (ps_PortNum s1) = Some e" "elinks G n2 (ps_PortNum s2) = Some e"
    using f1 by (auto simp: two(4))
  then show ?thesis unfolding fully_linked_def
    using sel one(2) two(2) ne assms(3,4)
    by (intro exI [of _ "s1\<lparr>ps_enodep := Some n1\<rparr>"] exI [of _ "s2\<lparr>ps_enodep := Some n2\<rparr>"] exI [of _ n1] exI [of _ n2]) simp
qed

lemma validate_link_step:
  assumes "map_ok F" "\<And>n. n \<in> enodes F \<Longrightarrow> en_ok (edata F n)" "selector_small F e" "strict v"
  shows "\<exists>W G. validate_link ok v e (V, F) = Some (W, G) \<and> validates F G \<and> adds_only F G e \<and>
    (empty_link F e \<longrightarrow> elinks G = elinks F) \<and>
    (lv_ok W \<longrightarrow> lv_ok V \<and> (empty_link F e \<or> fully_linked G e))"
proof (cases "empty_link F e")
  case True
  then show ?thesis by (simp add: validate_link_def empty_link_def same_adds)
next
  case False
  from validate_link_port [OF assms(1-3), of "ok e False" v False] obtain st1 F1 where
    one: "TopologyValidateLinkPort (ok e False) v F e False = Some (st1, F1)" "validates F F1"
      "st1 = FSUCCESS \<longrightarrow> end_linked F F1 e False" "st1 \<noteq> FSUCCESS \<longrightarrow> elinks F1 = elinks F \<and> ldata F1 = ldata F" by blast
  note ok1 = validates_ok [OF one(2)]
  have "map_ok F1" "\<And>n. n \<in> enodes F1 \<Longrightarrow> en_ok (edata F1 n)" "selector_small F1 e"
    using ok1 assms(1-3) validates_ldata(1) [OF one(2)] by blast+
  from validate_link_port [OF this, of "ok e True" v True] obtain st2 G where
    two: "TopologyValidateLinkPort (ok e True) v F1 e True = Some (st2, G)" "validates F1 G"
      "st2 = FSUCCESS \<longrightarrow> end_linked F1 G e True" "st2 \<noteq> FSUCCESS \<longrightarrow> elinks G = elinks F1 \<and> ldata G = ldata F1" by blast
  have "adds_only F F1 e" "adds_only F1 G e"
    using one(3,4) two(3,4) end_linked_adds same_adds by metis+
  then have adds: "adds_only F G e" by (rule adds_only_trans)
  have v: "validates F G" using validates_trans one(2) two(2) .
  have en: "enodes F1 = enodes F" "enodes G = enodes F" using validates_fields(1) one(2) v by simp_all
  let ?W = "V\<lparr>lv_ok := lv_ok V \<and> end_status v st1 \<and> end_status v st2,
      lv_bad := lv_bad V + (if st1 = FINVALID_PARAMETER \<or> st2 = FINVALID_PARAMETER then 1 else 0),
      lv_checked := lv_checked V + (if st1 = FINVALID_PARAMETER \<or> st2 = FINVALID_PARAMETER then 0 else 1),
      lv_resolved := lv_resolved V + (if st1 = FSUCCESS \<and> st2 = FSUCCESS then 1 else 0)\<rparr>"
  have "validate_link ok v e (V, F) = Some (?W, G)"
    unfolding validate_link_def Let_def prod.case if_not_P [OF False [unfolded empty_link_def]] one(1) two(1) option.case ..
  moreover have "lv_ok ?W \<longrightarrow> lv_ok V \<and> fully_linked G e"
    using assms(4) one(3) two(3) both_ends_linked [OF _ _ en] by (auto simp: end_status_def)
  ultimately show ?thesis using v adds False by blast
qed

lemma validate_links_ok:
  assumes "map_ok F" "\<And>n. n \<in> enodes F \<Longrightarrow> en_ok (edata F n)" "\<And>e. e \<in> set es \<Longrightarrow> selector_small F e" "strict v"
    and "distinct es"
  shows "\<exists>W G. validate_links ok v es (V, F) = Some (W, G) \<and> validates F G \<and>
    (\<forall>e. e \<notin> set es \<longrightarrow> fully_linked F e \<longrightarrow> fully_linked G e) \<and>
    (\<forall>n k e. elinks G n k = Some e \<longrightarrow> elinks F n k = Some e \<or> e \<in> set es \<and> \<not> empty_link F e) \<and>
    (lv_ok W \<longrightarrow> lv_ok V \<and> (\<forall>e \<in> set es. empty_link F e \<or> fully_linked G e))"
  using assms
proof (induction es arbitrary: V F)
  case (Cons e es)
  from validate_link_step [OF Cons.prems(1,2) _ Cons.prems(4), of e ok V] Cons.prems(3) obtain W1 F1 where
    one: "validate_link ok v e (V, F) = Some (W1, F1)" "validates F F1" "adds_only F F1 e"
      "empty_link F e \<longrightarrow> elinks F1 = elinks F" "lv_ok W1 \<longrightarrow> lv_ok V \<and> (empty_link F e \<or> fully_linked F1 e)" by auto
  have en: "enodes F1 = enodes F" using validates_fields(1) one(2) .
  have "map_ok F1" "\<And>n. n \<in> enodes F1 \<Longrightarrow> en_ok (edata F1 n)" "\<And>x. x \<in> set es \<Longrightarrow> selector_small F1 x" "distinct es"
    using validates_ok [OF one(2)] validates_ldata(1) [OF one(2)] Cons.prems(1-3,5) by simp_all
  from Cons.IH [OF this(1-3) Cons.prems(4) this(4), of W1] obtain W G where
    two: "validate_links ok v es (W1, F1) = Some (W, G)" "validates F1 G"
      "\<forall>x. x \<notin> set es \<longrightarrow> fully_linked F1 x \<longrightarrow> fully_linked G x"
      "\<forall>n k x. elinks G n k = Some x \<longrightarrow> elinks F1 n k = Some x \<or> x \<in> set es \<and> \<not> empty_link F1 x"
      "lv_ok W \<longrightarrow> lv_ok W1 \<and> (\<forall>x \<in> set es. empty_link F1 x \<or> fully_linked G x)" by blast
  note el = validates_ldata(2) [OF one(2)]
  have keep: "fully_linked F1 x" if "x \<noteq> e" "fully_linked F x" for x
    using fully_linked_keep [OF that(2) _ en] that(1) one(3) unfolding adds_only_def by auto
  have "e \<notin> set es" using Cons.prems(5) by simp
  have "validate_links ok v (e # es) (V, F) = Some (W, G)" using one(1) two(1) by simp
  moreover have "validates F G" using validates_trans one(2) two(2) .
  moreover have "\<forall>x. x \<notin> set (e # es) \<longrightarrow> fully_linked F x \<longrightarrow> fully_linked G x" using keep two(3) by auto
  moreover have "elinks F n k = Some x \<or> x \<in> set (e # es) \<and> \<not> empty_link F x" if g: "elinks G n k = Some x" for n k x
  proof -
    from two(4) g have "elinks F1 n k = Some x \<or> x \<in> set es \<and> \<not> empty_link F x" unfolding el by blast
    moreover have "elinks F n k = Some x \<or> x = e \<and> \<not> empty_link F e" if f: "elinks F1 n k = Some x"
      using one(3,4) f unfolding adds_only_def by metis
    ultimately show ?thesis by auto
  qed
  moreover have "lv_ok W \<longrightarrow> lv_ok V \<and> (\<forall>x \<in> set (e # es). empty_link F x \<or> fully_linked G x)"
    using two(3,5) one(5) \<open>e \<notin> set es\<close> unfolding el by auto
  ultimately show ?case by blast
qed simp

end
