(* ===== verification/Topology_Graph.thy ===== *)
theory Topology_Graph
  imports Topology_Links
begin

text \<open>
  The search of the expected nodes that are connected with the first one: it ends, and marks
  the nodes that can be reached over links.
\<close>

definition graph_ok :: "fabric_data \<Rightarrow> bool" where
  "graph_ok F \<longleftrightarrow> (\<forall>n \<in> enodes F. \<exists>ns. successors F n = Some ns \<and> set ns \<subseteq> Some ` enodes F)"

definition next_nodes :: "fabric_data \<Rightarrow> (expected \<times> expected) set" where
  "next_nodes F = {(n, m). \<exists>ns. successors F n = Some ns \<and> Some m \<in> set ns}"

definition is_marked :: "fabric_data \<Rightarrow> expected \<Rightarrow> bool" where
  "is_marked F n \<longleftrightarrow> connected (edata F n)"

text \<open>Only marks are set.\<close>

definition marks :: "fabric_data \<Rightarrow> fabric_data \<Rightarrow> bool" where
  "marks F G \<longleftrightarrow> G = F\<lparr>edata := edata G\<rparr> \<and> (\<forall>n. edata G n = (edata F n)\<lparr>connected := is_marked G n\<rparr>)"

lemma marks_refl [simp]: "marks F F"
  by (simp add: marks_def is_marked_def)

lemma marks_trans:
  assumes "marks F G" "marks G H"
  shows "marks F H"
proof -
  have "H = G\<lparr>edata := edata H\<rparr>" "G = F\<lparr>edata := edata G\<rparr>" using assms unfolding marks_def by blast+
  then have "H = F\<lparr>edata := edata H\<rparr>" by (cases F; cases G; cases H) simp
  moreover have "edata H n = (edata F n)\<lparr>connected := is_marked H n\<rparr>" for n
  proof -
    have "edata H n = (edata G n)\<lparr>connected := is_marked H n\<rparr>" "edata G n = (edata F n)\<lparr>connected := is_marked G n\<rparr>"
      using assms unfolding marks_def by blast+
    then show ?thesis by (cases "edata F n"; cases "edata G n"; cases "edata H n") simp
  qed
  ultimately show ?thesis unfolding marks_def by blast
qed

lemma marks_fields:
  assumes "marks F G"
  shows "ldata G = ldata F" "ExpectedSWs G = ExpectedSWs F" "ExpectedFIs G = ExpectedFIs F" "enodes G = enodes F"
    "ports (edata G n) = ports (edata F n)" "portsSize (edata G n) = portsSize (edata F n)" "elinks G = elinks F"
proof -
  have "G = F\<lparr>edata := edata G\<rparr>" using assms unfolding marks_def by blast
  then have "ldata G = ldata (F\<lparr>edata := edata G\<rparr>) \<and> ExpectedSWs G = ExpectedSWs (F\<lparr>edata := edata G\<rparr>) \<and>
    ExpectedFIs G = ExpectedFIs (F\<lparr>edata := edata G\<rparr>)" by metis
  then show "ldata G = ldata F" "ExpectedSWs G = ExpectedSWs F" "ExpectedFIs G = ExpectedFIs F" "enodes G = enodes F"
    by (simp_all add: enodes_def)
  have e: "edata G n = (edata F n)\<lparr>connected := is_marked G n\<rparr>" for n using assms unfolding marks_def by blast
  show p: "ports (edata G n) = ports (edata F n)" "portsSize (edata G n) = portsSize (edata F n)" for n
    by (subst e, simp)+
  show "elinks G = elinks F" by (simp add: fun_eq_iff elinks_def elink_at_def port_at_def p)
qed

lemma marks_successors: "marks F G \<Longrightarrow> successors G = successors F"
proof -
  assume m: "marks F G"
  have "link_ends G e = link_ends F e" for e by (simp add: link_ends_def marks_fields [OF m])
  then have "ends_of_ports G ps = ends_of_ports F ps" for ps
    by (induction ps rule: ends_of_ports.induct) (simp_all split: option.split)
  then show ?thesis by (simp add: fun_eq_iff successors_def Let_def marks_fields [OF m])
qed

lemma marks_graph: "marks F G \<Longrightarrow> graph_ok G = graph_ok F" "marks F G \<Longrightarrow> next_nodes G = next_nodes F"
  by (simp_all add: graph_ok_def next_nodes_def marks_successors marks_fields)

definition mark :: "expected \<Rightarrow> fabric_data \<Rightarrow> fabric_data" where
  "mark n F = set_enode n (\<lambda>en. en\<lparr>connected := True\<rparr>) F"

lemma mark_marks: "marks F (mark n F)" "is_marked (mark n F) m \<longleftrightarrow> m = n \<or> is_marked F m"
  by (auto simp: marks_def mark_def is_marked_def set_enode_def)

text \<open>A search ends with the marks closed under links, as far as they are new.\<close>

definition searched :: "expected option list \<Rightarrow> fabric_data \<Rightarrow> fabric_data \<Rightarrow> bool" where
  "searched calls F G \<longleftrightarrow> marks F G \<and> (\<forall>n. is_marked F n \<longrightarrow> is_marked G n) \<and>
     (\<forall>n. Some n \<in> set calls \<longrightarrow> is_marked G n) \<and>
     (\<forall>n. is_marked G n \<longrightarrow> is_marked F n \<or> (\<exists>c. Some c \<in> set calls \<and> (c, n) \<in> (next_nodes F)\<^sup>*)) \<and>
     (\<forall>n m. is_marked G n \<and> \<not> is_marked F n \<and> (n, m) \<in> next_nodes F \<longrightarrow> is_marked G m)"

lemma searched_skip: "searched calls F G \<Longrightarrow> is_marked F n \<Longrightarrow> searched (Some n # calls) F G"
  unfolding searched_def by auto

lemma searched_mark:
  assumes "searched (ns @ calls) (mark n F) G" "successors F n = Some ns" "\<not> is_marked F n"
  shows "searched (Some n # calls) F G"
proof -
  note m = mark_marks(1) [of F n]
  note s = assms(1) [unfolded searched_def marks_graph(2) [OF m] mark_marks(2)]
  have "marks F G" using marks_trans [OF m] s by blast
  moreover have "\<forall>x. is_marked F x \<longrightarrow> is_marked G x" "\<forall>x. Some x \<in> set (Some n # calls) \<longrightarrow> is_marked G x"
    using s by auto
  moreover have "is_marked F x \<or> (\<exists>c. Some c \<in> set (Some n # calls) \<and> (c, x) \<in> (next_nodes F)\<^sup>*)" if "is_marked G x" for x
  proof -
    from s that consider "x = n" | "is_marked F x" | c where "Some c \<in> set ns \<union> set calls" "(c, x) \<in> (next_nodes F)\<^sup>*"
      unfolding set_append by blast
    then show ?thesis
    proof cases
      case 3
      show ?thesis
      proof (cases "Some c \<in> set ns")
        case True
        then have "(n, c) \<in> next_nodes F" using assms(2) by (simp add: next_nodes_def)
        from converse_rtrancl_into_rtrancl [OF this 3(2)] have "(n, x) \<in> (next_nodes F)\<^sup>*" .
        then show ?thesis by auto
      qed (use 3 in auto)
    qed auto
  qed
  moreover have "is_marked G y" if "is_marked G x" "\<not> is_marked F x" "(x, y) \<in> next_nodes F" for x y
  proof (cases "x = n")
    case True
    with that(3) assms(2) have "Some y \<in> set ns" by (auto simp: next_nodes_def)
    with s show ?thesis by auto
  next
    case False
    with s that show ?thesis by blast
  qed
  ultimately show ?thesis unfolding searched_def by blast
qed

lemma visit_unfold:
  "visit [] F = Some F"
  "visit (Some n # calls) F =
     (if is_marked F n then visit calls F
      else case successors F n of None \<Rightarrow> None | Some ns \<Rightarrow> visit (ns @ calls) (mark n F))"
  by (simp add: visit.simps) (subst visit.simps, simp add: is_marked_def mark_def cong: option.case_cong)

lemma visit_ok:
  assumes "graph_ok F" "set calls \<subseteq> Some ` enodes F"
  shows "\<exists>G. visit calls F = Some G \<and> searched calls F G"
  using assms
proof (induction "card {n \<in> enodes F. \<not> is_marked F n}" arbitrary: F calls rule: less_induct)
  case less
  from less.prems(2) show ?case
  proof (induction calls)
    case Nil
    then show ?case by (auto simp: visit_unfold searched_def)
  next
    case (Cons c calls)
    then obtain n where c: "c = Some n" "n \<in> enodes F" by auto
    show ?case
    proof (cases "is_marked F n")
      case True
      with Cons c searched_skip show ?thesis by (auto simp: visit_unfold)
    next
      case False
      from less.prems(1) c(2) obtain ns where ns: "successors F n = Some ns" "set ns \<subseteq> Some ` enodes F"
        unfolding graph_ok_def by blast
      note m = mark_marks(1) [of F n]
      have "{x \<in> enodes (mark n F). \<not> is_marked (mark n F) x} = {x \<in> enodes F. \<not> is_marked F x} - {n}"
        by (auto simp: mark_marks(2) marks_fields(4) [OF m])
      moreover have "finite {x \<in> enodes F. \<not> is_marked F x}" by (simp add: enodes_def)
      ultimately have "card {x \<in> enodes (mark n F). \<not> is_marked (mark n F) x} < card {x \<in> enodes F. \<not> is_marked F x}"
        using c(2) False card_Diff1_less [of "{x \<in> enodes F. \<not> is_marked F x}" n] by simp
      moreover have "graph_ok (mark n F)" using less.prems(1) marks_graph(1) [OF m] by simp
      moreover have "set (ns @ calls) \<subseteq> Some ` enodes (mark n F)"
        using ns(2) Cons.prems by (simp add: marks_fields(4) [OF m])
      ultimately obtain G where G: "visit (ns @ calls) (mark n F) = Some G" "searched (ns @ calls) (mark n F) G"
        using less.hyps by blast
      then show ?thesis using searched_mark [OF G(2) ns(1) False] c(1) False ns(1) by (simp add: visit_unfold)
    qed
  qed
qed

lemma search_from_root:
  assumes "graph_ok F" "r \<in> enodes F" "\<And>n. n \<in> enodes F \<Longrightarrow> \<not> is_marked F n"
  shows "\<exists>G. TopologyValidateLinkHelper (Some r) F = Some G \<and> marks F G \<and>
    (\<forall>n \<in> enodes F. is_marked G n \<longleftrightarrow> (r, n) \<in> (next_nodes F)\<^sup>*)"
proof -
  from visit_ok [OF assms(1), of "[Some r]"] assms(2) obtain G where
    G: "visit [Some r] F = Some G" "searched [Some r] F G" by auto
  have reached: "n \<in> enodes F \<and> is_marked G n" if "(r, n) \<in> (next_nodes F)\<^sup>*" for n
    using that
  proof (induction rule: rtrancl_induct)
    case base
    then show ?case using G(2) assms(2) by (simp add: searched_def)
  next
    case (step n m)
    then have "m \<in> enodes F" using assms(1) by (force simp: graph_ok_def next_nodes_def)
    moreover have "is_marked G m" using G(2) step assms(3) unfolding searched_def by blast
    ultimately show ?case ..
  qed
  have "is_marked G n \<longleftrightarrow> (r, n) \<in> (next_nodes F)\<^sup>*" if "n \<in> enodes F" for n
    using G(2) assms(3) [OF that] reached [of n] unfolding searched_def by auto
  moreover have "marks F G" using G(2) unfolding searched_def by blast
  ultimately show ?thesis using G(1) by (auto simp: TopologyValidateLinkHelper_def)
qed

subsection \<open>The links as edges\<close>

definition joined :: "fabric_data \<Rightarrow> (expected \<times> expected) set" where
  "joined F = {(n, m). \<exists>k e s. elinks F n k = Some e \<and>
     (portselp1 (ldata F e) = Some s \<or> portselp2 (ldata F e) = Some s) \<and> ps_enodep s = Some m}"

definition ports_linked :: "fabric_data \<Rightarrow> expected_port option list \<Rightarrow> bool" where
  "ports_linked F ps \<longleftrightarrow> (\<forall>ep e. Some ep \<in> set ps \<and> ep_elinkp ep = Some e \<longrightarrow> fully_linked F e)"

text \<open>A node at the end of a link of one of the ports.\<close>

definition is_end :: "fabric_data \<Rightarrow> expected_port option list \<Rightarrow> expected option \<Rightarrow> bool" where
  "is_end F ps x \<longleftrightarrow> (\<exists>m ep e s. x = Some m \<and> m \<in> enodes F \<and> Some ep \<in> set ps \<and> ep_elinkp ep = Some e \<and>
     (portselp1 (ldata F e) = Some s \<or> portselp2 (ldata F e) = Some s) \<and> ps_enodep s = Some m)"

lemma is_end_cons: "is_end F ps x \<Longrightarrow> is_end F (p # ps) x"
  unfolding is_end_def by (metis list.set_intros(2))

lemma ends_of_linked:
  assumes "ports_linked F ps"
  shows "\<exists>ns. ends_of_ports F ps = Some ns \<and> (\<forall>x \<in> set ns. is_end F ps x)"
  using assms
proof (induction ps rule: ends_of_ports.induct)
  case (2 F ps)
  then have "ports_linked F ps" by (simp add: ports_linked_def)
  with "2.IH" is_end_cons show ?case by fastforce
next
  case (3 F ep ps)
  have l: "ports_linked F ps" using "3.prems" by (auto simp: ports_linked_def)
  show ?case
  proof (cases "ep_elinkp ep")
    case None
    with "3.IH"(1) [OF None l] is_end_cons show ?thesis by fastforce
  next
    case (Some e)
    then have "fully_linked F e" using "3.prems" by (auto simp: ports_linked_def)
    then obtain s1 s2 n1 n2 where e: "portselp1 (ldata F e) = Some s1" "portselp2 (ldata F e) = Some s2"
      "ps_enodep s1 = Some n1" "ps_enodep s2 = Some n2" "n1 \<in> enodes F" "n2 \<in> enodes F"
      unfolding fully_linked_def by blast
    from "3.IH"(2) [OF Some l] obtain ns where ns: "ends_of_ports F ps = Some ns" "\<forall>x \<in> set ns. is_end F ps x" by blast
    have "ends_of_ports F (Some ep # ps) = Some ([Some n1, Some n2] @ ns)"
      using Some e(1-4) ns(1) by (simp add: link_ends_def)
    moreover have "is_end F (Some ep # ps) (Some n1)" unfolding is_end_def
      using Some e by (intro exI [of _ n1] exI [of _ ep] exI [of _ e] exI [of _ s1]) simp
    moreover have "is_end F (Some ep # ps) (Some n2)" unfolding is_end_def
      using Some e by (intro exI [of _ n2] exI [of _ ep] exI [of _ e] exI [of _ s2]) simp
    ultimately show ?thesis using ns(2) is_end_cons by fastforce
  qed
qed (simp add: ports_linked_def)

lemma ports_elinks:
  assumes "en_ok (edata F n)" "Some ep \<in> set (ports (edata F n))"
  shows "\<exists>k. elinks F n k = ep_elinkp ep"
proof -
  from assms(2) obtain i where i: "i < length (ports (edata F n))" "ports (edata F n) ! i = Some ep"
    by (auto simp: in_set_conv_nth)
  have l: "length (ports (edata F n)) = unat (portsSize (edata F n))" using assms(1) by (simp add: en_ok_def)
  have "unat (portsSize (edata F n)) < 2 ^ LENGTH(16)" by (rule unsigned_less)
  then have "i < 2 ^ 16" using i(1) l by simp
  then have u: "unat (of_nat i :: uint16) = i" by (simp add: unat_of_nat take_bit_nat_eq_self)
  have "elinks F n (of_nat i) = ep_elinkp ep"
    using i l u by (simp add: elinks_def elink_at_def port_at_def word_less_nat_alt)
  then show ?thesis ..
qed

lemma linked_graph:
  assumes "\<And>n. n \<in> enodes F \<Longrightarrow> en_ok (edata F n)" "\<And>n k e. elinks F n k = Some e \<Longrightarrow> fully_linked F e"
  shows "graph_ok F" "\<And>n m. n \<in> enodes F \<Longrightarrow> (n, m) \<in> next_nodes F \<Longrightarrow> m \<in> enodes F \<and> (n, m) \<in> joined F"
proof -
  have succ: "\<exists>ns. successors F n = Some ns \<and> (\<forall>x \<in> set ns. \<exists>m. x = Some m \<and> m \<in> enodes F \<and> (n, m) \<in> joined F)"
    if n: "n \<in> enodes F" for n
  proof -
    have l: "length (ports (edata F n)) = unat (portsSize (edata F n))" using assms(1) [OF n] by (simp add: en_ok_def)
    have "ports_linked F (ports (edata F n))"
      unfolding ports_linked_def using ports_elinks [OF assms(1) [OF n]] assms(2) by metis
    from ends_of_linked [OF this] obtain ns where ns: "ends_of_ports F (ports (edata F n)) = Some ns"
      "\<forall>x \<in> set ns. is_end F (ports (edata F n)) x" by blast
    have "\<exists>m. x = Some m \<and> m \<in> enodes F \<and> (n, m) \<in> joined F" if "x \<in> set ns" for x
    proof -
      from ns(2) that obtain m ep e s where x: "x = Some m" "m \<in> enodes F" "Some ep \<in> set (ports (edata F n))"
        "ep_elinkp ep = Some e" "portselp1 (ldata F e) = Some s \<or> portselp2 (ldata F e) = Some s" "ps_enodep s = Some m"
        unfolding is_end_def by blast
      from ports_elinks [OF assms(1) [OF n] x(3)] x(4) obtain k where "elinks F n k = Some e" by auto
      with x(5,6) have "(n, m) \<in> joined F" unfolding joined_def by blast
      with x(1,2) show ?thesis by blast
    qed
    moreover have "successors F n = Some ns" using ns(1) l by (simp add: successors_def Let_def)
    ultimately show ?thesis by blast
  qed
  show "graph_ok F" unfolding graph_ok_def
  proof
    fix n assume "n \<in> enodes F"
    from succ [OF this] obtain ns where "successors F n = Some ns" "\<forall>x \<in> set ns. \<exists>m. x = Some m \<and> m \<in> enodes F" by blast
    then show "\<exists>ns. successors F n = Some ns \<and> set ns \<subseteq> Some ` enodes F" by (intro exI [of _ ns]) auto
  qed
  show "m \<in> enodes F \<and> (n, m) \<in> joined F" if "n \<in> enodes F" "(n, m) \<in> next_nodes F" for n m
    using succ [OF that(1)] that(2) by (auto simp: next_nodes_def)
qed

subsection \<open>The whole validation\<close>

definition topo_wf :: "fabric_data \<Rightarrow> bool" where
  "topo_wf F \<longleftrightarrow> map_ok F \<and> (\<forall>n \<in> enodes F. en_ok (edata F n) \<and> \<not> is_marked F n) \<and>
     (\<forall>n k. elinks F n k = None) \<and> (\<forall>e \<in> set (ExpectedLinks F). selector_small F e) \<and> distinct (ExpectedLinks F)"

lemma switches_total:
  assumes "\<And>n. n \<in> set ns \<Longrightarrow> en_ok (edata F n)"
  shows "\<exists>b. switches_ok F ns = Some b"
  using assms
proof (induction ns)
  case (Cons n ns)
  have "switch_port0_ok F n \<noteq> None"
  proof (cases "portsSize (edata F n) = 0")
    case False
    then have "enode_port (edata F n) 0 = Some (port_at (edata F n) 0)"
      using enode_port_at [of "edata F n" 0] Cons.prems by (simp add: word_neq_0_conv)
    then show ?thesis using False by (auto simp: switch_port0_ok_def Let_def split: option.split)
  qed (simp add: switch_port0_ok_def)
  then show ?case using Cons by auto
qed auto

lemma validates_marked: "validates F G \<Longrightarrow> is_marked G n = is_marked F n"
  unfolding validates_def is_marked_def using same_node_fields(4) by blast

lemma head_first: "first_of (head_of xs) (head_of ys) = Some r \<Longrightarrow> r \<in> set xs \<union> set ys"
  by (auto simp: first_of_def head_of_def split: list.splits)

lemma no_head: "first_of (head_of xs) (head_of ys) = None \<Longrightarrow> xs = [] \<and> ys = []"
  by (auto simp: first_of_def head_of_def split: list.splits)

lemma disjoint_check:
  assumes "\<And>n. n \<in> enodes F \<Longrightarrow> en_ok (edata F n)" "\<And>n k e. elinks F n k = Some e \<Longrightarrow> fully_linked F e"
    "\<And>n. n \<in> enodes F \<Longrightarrow> \<not> is_marked F n"
  shows "\<exists>st G. TopologyValidateNoLinksDisjoint F = Some (st, G) \<and> marks F G \<and>
    (st = FSUCCESS \<longrightarrow> (\<exists>r. \<forall>n \<in> enodes F. (r, n) \<in> (joined F)\<^sup>*))"
proof (cases "first_of (head_of (ExpectedSWs F)) (head_of (ExpectedFIs F))")
  case None
  from no_head [OF this] have "enodes F = {}" by (simp add: enodes_def)
  with None show ?thesis by (simp add: TopologyValidateNoLinksDisjoint_def)
next
  case (Some r)
  from head_first [OF this] have r: "r \<in> enodes F" by (simp add: enodes_def)
  have graph: "graph_ok F" "\<And>n m. n \<in> enodes F \<Longrightarrow> (n, m) \<in> next_nodes F \<Longrightarrow> m \<in> enodes F \<and> (n, m) \<in> joined F"
    using linked_graph [of F] assms(1,2) by blast+
  from search_from_root [OF graph(1) r assms(3)] obtain G where
    G: "TopologyValidateLinkHelper (Some r) F = Some G" "marks F G"
      "\<forall>n \<in> enodes F. is_marked G n \<longleftrightarrow> (r, n) \<in> (next_nodes F)\<^sup>*" by blast
  let ?st = "if \<forall>n \<in> set (ExpectedSWs G) \<union> set (ExpectedFIs G). connected (edata G n) then FSUCCESS else FERROR"
  have run: "TopologyValidateNoLinksDisjoint F = Some (?st, G)"
    using Some G(1) by (simp add: TopologyValidateNoLinksDisjoint_def)
  have joined: "n \<in> enodes F \<and> (r, n) \<in> (joined F)\<^sup>*" if "(r, n) \<in> (next_nodes F)\<^sup>*" for n
    using that
  proof (induction rule: rtrancl_induct)
    case (step n m)
    then show ?case using graph(2) [of n m] by (auto intro: rtrancl_into_rtrancl)
  qed (use r in simp)
  have "(r, n) \<in> (joined F)\<^sup>*" if "?st = FSUCCESS" "n \<in> enodes F" for n
  proof -
    from that have "is_marked G n"
      by (auto simp: is_marked_def enodes_def marks_fields(2,3) [OF G(2)] split: if_splits)
    with G(3) that(2) joined show ?thesis by blast
  qed
  with run G(2) show ?thesis by blast
qed

lemma topology_validate:
  assumes "topo_wf F" "strict v"
  shows "\<exists>st G. TopologyValidate ok v F = Some (st, G) \<and>
    (st = FSUCCESS \<longrightarrow> ExpectedLinks F \<noteq> [] \<and>
      (\<forall>e \<in> set (ExpectedLinks F). empty_link F e \<or> fully_linked G e) \<and>
      (\<exists>r. \<forall>n \<in> enodes F. (r, n) \<in> (joined G)\<^sup>*))"
proof (cases "ExpectedLinks F = []")
  case True
  then show ?thesis by (simp add: TopologyValidate_def)
next
  case False
  have wf: "map_ok F" "\<And>n. n \<in> enodes F \<Longrightarrow> en_ok (edata F n)" "\<And>n. n \<in> enodes F \<Longrightarrow> \<not> is_marked F n"
    "\<And>n k. elinks F n k = None" "\<And>e. e \<in> set (ExpectedLinks F) \<Longrightarrow> selector_small F e" "distinct (ExpectedLinks F)"
    using assms(1) unfolding topo_wf_def by blast+
  obtain sw where sw: "switches_ok F (ExpectedSWs F) = Some sw"
    using switches_total [of "ExpectedSWs F" F] wf(2) by (auto simp: enodes_def)
  from validate_links_ok [OF wf(1,2,5) assms(2) wf(6), where V = "\<lparr>lv_ok = sw \<or> \<not> strict v, lv_checked = 0, lv_resolved = 0, lv_bad = 0\<rparr>"
      and ok = ok]
  obtain W G where
    l: "validate_links ok v (ExpectedLinks F) (\<lparr>lv_ok = sw \<or> \<not> strict v, lv_checked = 0, lv_resolved = 0, lv_bad = 0\<rparr>, F) = Some (W, G)"
      "validates F G" "\<forall>n k e. elinks G n k = Some e \<longrightarrow> elinks F n k = Some e \<or> e \<in> set (ExpectedLinks F) \<and> \<not> empty_link F e"
      "lv_ok W \<longrightarrow> (\<forall>e \<in> set (ExpectedLinks F). empty_link F e \<or> fully_linked G e)" by blast
  have run: "TopologyValidate ok v F = (if \<not> lv_ok W then Some (FERROR, G) else TopologyValidateNoLinksDisjoint G)"
    using False sw l(1) assms(2) by (simp add: TopologyValidate_def)
  show ?thesis
  proof (cases "lv_ok W")
    case True
    have "fully_linked G e" if "elinks G n k = Some e" for n k e
    proof -
      from l(3) that wf(4) have "e \<in> set (ExpectedLinks F) \<and> \<not> empty_link F e" by (metis option.distinct(1))
      with l(4) True show ?thesis by blast
    qed
    moreover have "\<And>n. n \<in> enodes G \<Longrightarrow> en_ok (edata G n)" using validates_ok(2) [OF l(2) wf(2)] .
    moreover have "\<And>n. n \<in> enodes G \<Longrightarrow> \<not> is_marked G n"
      using wf(3) by (simp add: validates_marked [OF l(2)] validates_fields(1) [OF l(2)])
    ultimately obtain st H where H: "TopologyValidateNoLinksDisjoint G = Some (st, H)" "marks G H"
      "st = FSUCCESS \<longrightarrow> (\<exists>r. \<forall>n \<in> enodes G. (r, n) \<in> (joined G)\<^sup>*)"
      using disjoint_check [of G] by blast
    have "joined H = joined G" by (simp add: joined_def marks_fields [OF H(2)])
    moreover have "fully_linked H e = fully_linked G e" for e by (simp add: fully_linked_def marks_fields [OF H(2)])
    ultimately show ?thesis using run True H(1,3) l(4) False validates_fields(1) [OF l(2)] by simp
  qed (use run in simp)
qed

end
