(* ===== verification/Topology_Props.thy ===== *)
theory Topology_Props
  imports Topology FabricLinks
begin

text \<open>
  The invariant of the resolution of expected links: a port that has a link is one end of a
  link of the fabric whose two ends are the link's two ports.
\<close>

definition no_loops :: "fabric_data \<Rightarrow> bool" where
  "no_loops F \<longleftrightarrow> (\<forall>p. neighbor (pdata F p) \<noteq> Some p)"

definition ends_are :: "fabric_data \<Rightarrow> expected \<Rightarrow> port \<Rightarrow> port \<Rightarrow> bool" where
  "ends_are F e p q \<longleftrightarrow> portp1 (ldata F e) = Some p \<and> portp2 (ldata F e) = Some q \<or>
     portp1 (ldata F e) = Some q \<and> portp2 (ldata F e) = Some p"

definition matched :: "fabric_data \<Rightarrow> bool" where
  "matched F \<longleftrightarrow> (\<forall>p e. elinkp (pdata F p) = Some e \<longrightarrow>
     (\<exists>q. neighbor (pdata F p) = Some q \<and> elinkp (pdata F q) = Some e \<and> ends_are F e p q))"

lemma matchedD:
  assumes "matched F" "elinkp (pdata F p) = Some e"
  obtains q where "neighbor (pdata F p) = Some q" "elinkp (pdata F q) = Some e" "ends_are F e p q"
  using assms unfolding matched_def by blast

text \<open>Resolution touches the links of the ports and the ports of the links only.\<close>

definition resolves :: "fabric_data \<Rightarrow> fabric_data \<Rightarrow> bool" where
  "resolves F G \<longleftrightarrow>
     G = F\<lparr>pdata := pdata G, ldata := ldata G\<rparr> \<and>
     (\<forall>p. pdata G p = (pdata F p)\<lparr>elinkp := elinkp (pdata G p)\<rparr>) \<and>
     (\<forall>e. portselp1 (ldata G e) = portselp1 (ldata F e) \<and> portselp2 (ldata G e) = portselp2 (ldata F e))"

lemma resolves_refl [simp]: "resolves F F"
  by (simp add: resolves_def)

lemma resolves_trans:
  assumes "resolves F G" "resolves G H"
  shows "resolves F H"
proof -
  have "H = G\<lparr>pdata := pdata H, ldata := ldata H\<rparr>" "G = F\<lparr>pdata := pdata G, ldata := ldata G\<rparr>"
    using assms unfolding resolves_def by blast+
  then have "H = F\<lparr>pdata := pdata H, ldata := ldata H\<rparr>" by (cases F; cases G; cases H) simp
  moreover have "pdata H p = (pdata F p)\<lparr>elinkp := elinkp (pdata H p)\<rparr>" for p
  proof -
    have "pdata H p = (pdata G p)\<lparr>elinkp := elinkp (pdata H p)\<rparr>" "pdata G p = (pdata F p)\<lparr>elinkp := elinkp (pdata G p)\<rparr>"
      using assms unfolding resolves_def by blast+
    then show ?thesis by (cases "pdata F p"; cases "pdata G p"; cases "pdata H p") simp
  qed
  ultimately show ?thesis using assms unfolding resolves_def by metis
qed

lemma resolves_fields:
  assumes "resolves F G"
  shows "ndata G = ndata F" "AllNodes G = AllNodes F" "AllPorts G = AllPorts F" "edata G = edata F"
    "ExpectedLinks G = ExpectedLinks F" "LinkCount G = LinkCount F"
proof -
  have "G = F\<lparr>pdata := pdata G, ldata := ldata G\<rparr>" using assms unfolding resolves_def by blast
  then have "ndata G = ndata (F\<lparr>pdata := pdata G, ldata := ldata G\<rparr>) \<and>
    AllNodes G = AllNodes (F\<lparr>pdata := pdata G, ldata := ldata G\<rparr>) \<and>
    AllPorts G = AllPorts (F\<lparr>pdata := pdata G, ldata := ldata G\<rparr>) \<and>
    edata G = edata (F\<lparr>pdata := pdata G, ldata := ldata G\<rparr>) \<and>
    ExpectedLinks G = ExpectedLinks (F\<lparr>pdata := pdata G, ldata := ldata G\<rparr>) \<and>
    LinkCount G = LinkCount (F\<lparr>pdata := pdata G, ldata := ldata G\<rparr>)" by metis
  then show "ndata G = ndata F" "AllNodes G = AllNodes F" "AllPorts G = AllPorts F" "edata G = edata F"
    "ExpectedLinks G = ExpectedLinks F" "LinkCount G = LinkCount F" by simp_all
qed

lemma resolves_port:
  assumes "resolves F G"
  shows "nodep (pdata G p) = nodep (pdata F p)" "PortNum (pdata G p) = PortNum (pdata F p)"
    "PortGUID (pdata G p) = PortGUID (pdata F p)" "LocalPortId (pdata G p) = LocalPortId (pdata F p)"
    "neighbor (pdata G p) = neighbor (pdata F p)" "fromp (pdata G p) = fromp (pdata F p)"
proof -
  have e: "pdata G p = (pdata F p)\<lparr>elinkp := elinkp (pdata G p)\<rparr>" using assms unfolding resolves_def by blast
  show "nodep (pdata G p) = nodep (pdata F p)" "PortNum (pdata G p) = PortNum (pdata F p)"
    "PortGUID (pdata G p) = PortGUID (pdata F p)" "LocalPortId (pdata G p) = LocalPortId (pdata F p)"
    "neighbor (pdata G p) = neighbor (pdata F p)" "fromp (pdata G p) = fromp (pdata F p)"
    by (subst e, simp)+
qed

lemma resolves_shape: "resolves F G \<Longrightarrow> links_shape G = links_shape F"
  by (simp add: links_shape_def resolves_port)

lemma resolves_loops: "resolves F G \<Longrightarrow> no_loops G = no_loops F"
  by (simp add: no_loops_def resolves_port)

lemma resolve_ends_same:
  assumes "resolves F G"
  shows "resolve_ends G (ldata G e) = resolve_ends F (ldata F e)"
proof -
  have sel: "portselp1 (ldata G e) = portselp1 (ldata F e)" "portselp2 (ldata G e) = portselp2 (ldata F e)"
    using assms unfolding resolves_def by blast+
  have f: "FindNodeGuid G = FindNodeGuid F" "LookupNodeName G = LookupNodeName F" "FindPortGuid G = FindPortGuid F"
    "FindNodePort G = FindNodePort F" "FindNodePortId G = FindNodePortId F"
    by (simp_all add: fun_eq_iff FindNodeGuid_def LookupNodeName_def FindPortGuid_def FindNodePort_def
        FindNodePortId_def resolves_fields [OF assms] resolves_port [OF assms])
  have sels: "ResolvePortSelector G = ResolvePortSelector F"
    by (rule ext) (simp only: ResolvePortSelector_def f resolves_fields [OF assms] resolves_port [OF assms])
  have near: "neighbor_at G = neighbor_at F"
    by (intro ext) (simp only: neighbor_at_def resolves_port [OF assms])
  show ?thesis unfolding resolve_ends_def sel sels near resolves_port [OF assms] ..
qed

subsection \<open>The steps of a resolution\<close>

lemma set_link_simps [simp]:
  "pdata (set_link e f F) = pdata F" "ldata (set_link e f F) = (ldata F)(e := f (ldata F e))"
  by (simp_all add: set_link_def)

lemma set_elink_simps [simp]:
  "pdata (set_elink p e F) = (pdata F)(p := (pdata F p)\<lparr>elinkp := e\<rparr>)" "ldata (set_elink p e F) = ldata F"
  by (simp_all add: set_elink_def set_port_def)

lemma resolves_set_link:
  "(\<And>l. portselp1 (f l) = portselp1 l \<and> portselp2 (f l) = portselp2 l) \<Longrightarrow> resolves F (set_link e f F)"
  by (simp add: resolves_def set_link_def)

lemma resolves_set_elink: "resolves F (set_elink p e F)"
  by (simp add: resolves_def set_elink_def set_port_def)

lemma associate_resolves: "resolves F (associate e p1 p2 level F)"
proof -
  let ?F = "set_link e (\<lambda>l. l\<lparr>portp1 := p1, portp2 := p2, matchLevel := level\<rparr>) F"
  have l: "resolves F ?F" by (rule resolves_set_link) simp
  have "resolves ?F (set_elink b (Some e) (set_elink a (Some e) ?F))" for a b
    by (rule resolves_trans [OF resolves_set_elink resolves_set_elink])
  then show ?thesis using l resolves_trans [OF l]
    by (auto simp: associate_def Let_def split: option.split)
qed

lemma release_resolves: "resolves F (release e a b F)"
  unfolding release_def
  by (intro resolves_trans [OF resolves_trans [OF resolves_set_elink resolves_set_elink] resolves_set_link]) simp

lemma resolve_ports_resolves: "resolves F (ResolvePorts F e)"
proof -
  obtain p1 p2 level where r: "resolve_ends F (ldata F e) = (p1, p2, level)" by (cases "resolve_ends F (ldata F e)")
  show ?thesis unfolding ResolvePorts_def r
    using associate_resolves resolves_trans [OF release_resolves associate_resolves]
    by (auto split: option.split)
qed

lemma associate_matched:
  assumes "matched F" "links_shape F" "\<And>p. elinkp (pdata F p) \<noteq> Some e"
  shows "matched (associate e p1 p2 level F)"
proof -
  let ?F = "set_link e (\<lambda>l. l\<lparr>portp1 := p1, portp2 := p2, matchLevel := level\<rparr>) F"
  have m: "matched ?F" unfolding matched_def
  proof (intro allI impI)
    fix p e' assume a: "elinkp (pdata ?F p) = Some e'"
    with assms(3) have "e' \<noteq> e" by auto
    from a obtain q where "neighbor (pdata F p) = Some q" "elinkp (pdata F q) = Some e'" "ends_are F e' p q"
      using assms(1) by (auto elim: matchedD)
    with \<open>e' \<noteq> e\<close> show "\<exists>q. neighbor (pdata ?F p) = Some q \<and> elinkp (pdata ?F q) = Some e' \<and> ends_are ?F e' p q"
      by (intro exI [of _ q]) (simp add: ends_are_def)
  qed
  have set: "matched (set_elink b (Some e) (set_elink a (Some e) ?F))" (is "matched ?G")
    if ab: "p1 = Some a" "p2 = Some b" "neighbor (pdata F a) = Some b" "elinkp (pdata F a) = None" "elinkp (pdata F b) = None" for a b
    unfolding matched_def
  proof (intro allI impI)
    fix p e' assume p: "elinkp (pdata ?G p) = Some e'"
    have nb: "neighbor (pdata F b) = Some a" using ab(3) assms(2) unfolding links_shape_def by blast
    have nG: "neighbor (pdata ?G x) = neighbor (pdata F x)" for x by simp
    have eG: "elinkp (pdata ?G x) = (if x = a \<or> x = b then Some e else elinkp (pdata F x))" for x by simp
    show "\<exists>q. neighbor (pdata ?G p) = Some q \<and> elinkp (pdata ?G q) = Some e' \<and> ends_are ?G e' p q"
    proof (cases "p = a \<or> p = b")
      case True
      with p have "e' = e" unfolding eG by simp
      with True ab nb show ?thesis unfolding nG eG by (auto simp: ends_are_def)
    next
      case False
      with p have f: "elinkp (pdata F p) = Some e'" unfolding eG by simp
      with assms(3) have ne: "e' \<noteq> e" by auto
      obtain q where q: "neighbor (pdata F p) = Some q" "elinkp (pdata F q) = Some e'" "ends_are F e' p q"
        using f assms(1) unfolding matched_def by blast
      from q(2) ab(4,5) have "q \<noteq> a" "q \<noteq> b" by auto
      with q ne show ?thesis unfolding nG eG by (intro exI [of _ q]) (simp add: ends_are_def)
    qed
  qed
  show ?thesis unfolding associate_def Let_def using m set by (auto split: option.split)
qed

lemma ends_two:
  assumes "ends_are F e a c" "ends_are F e b d" "ends_are F e x y" "a \<noteq> b"
  shows "x = a \<or> x = b"
  using assms by (auto simp: ends_are_def)

lemma release_matched:
  assumes "matched F" "elinkp (pdata F a) = Some e" "elinkp (pdata F b) = Some e" "a \<noteq> b"
  shows "matched (release e a b F)" "elinkp (pdata (release e a b F) p) = (if p = a \<or> p = b then None else elinkp (pdata F p))"
proof -
  let ?G = "release e a b F"
  have pd: "neighbor (pdata ?G x) = neighbor (pdata F x)" "elinkp (pdata ?G x) = (if x = a \<or> x = b then None else elinkp (pdata F x))" for x
    by (simp_all add: release_def)
  then show "elinkp (pdata ?G p) = (if p = a \<or> p = b then None else elinkp (pdata F p))" by blast
  obtain c where c: "ends_are F e a c" using assms(1,2) by (rule matchedD)
  obtain d where d: "ends_are F e b d" using assms(1,3) by (rule matchedD)
  show "matched ?G" unfolding matched_def
  proof (intro allI impI)
    fix p e' assume "elinkp (pdata ?G p) = Some e'"
    then have p: "p \<noteq> a" "p \<noteq> b" "elinkp (pdata F p) = Some e'" unfolding pd by (simp_all split: if_splits)
    from assms(1) p(3) obtain q where q: "neighbor (pdata F p) = Some q" "elinkp (pdata F q) = Some e'" "ends_are F e' p q"
      by (rule matchedD)
    have ne: "e' \<noteq> e" using ends_two [OF c d _ assms(4), of p q] q(3) p(1,2) by auto
    with q(2) assms(2,3) have "q \<noteq> a" "q \<noteq> b" by auto
    with q ne show "\<exists>q. neighbor (pdata ?G p) = Some q \<and> elinkp (pdata ?G q) = Some e' \<and> ends_are ?G e' p q"
      unfolding pd by (intro exI [of _ q]) (simp add: ends_are_def release_def)
  qed
qed

text \<open>The two selectors of the link do not resolve to one port.\<close>

definition ends_differ :: "fabric_data \<Rightarrow> expected \<Rightarrow> bool" where
  "ends_differ F e \<longleftrightarrow> (\<forall>a level. resolve_ends F (ldata F e) \<noteq> (Some a, Some a, level))"

lemma associate_elinks:
  "elinkp (pdata (associate e p1 p2 level F) p) = Some e' \<Longrightarrow> e' = e \<or> elinkp (pdata F p) = Some e'"
  by (auto simp: associate_def Let_def split: option.splits if_splits)

lemma release_elinks: "elinkp (pdata (release e2 a b F) p) = Some e' \<Longrightarrow> elinkp (pdata F p) = Some e'"
  by (auto simp: release_def split: if_splits)

lemma resolve_ports_elinks:
  assumes "elinkp (pdata (ResolvePorts F e) p) = Some e'"
  shows "e' = e \<or> elinkp (pdata F p) = Some e'"
proof -
  obtain p1 p2 level where r: "resolve_ends F (ldata F e) = (p1, p2, level)" by (cases "resolve_ends F (ldata F e)")
  show ?thesis using assms unfolding ResolvePorts_def r
    by (auto split: option.splits if_splits dest!: associate_elinks release_elinks)
qed

lemma resolve_ports_matched:
  assumes "matched F" "links_shape F" "ends_differ F e" and fresh: "\<And>p. elinkp (pdata F p) \<noteq> Some e"
  shows "matched (ResolvePorts F e)"
proof -
  obtain p1 p2 level where r: "resolve_ends F (ldata F e) = (p1, p2, level)" by (cases "resolve_ends F (ldata F e)")
  have assoc: "matched (associate e p1 p2 level F)" using associate_matched [OF assms(1,2) fresh] .
  have steal: "matched (associate e p1 p2 level (release e2 a b F))"
    if "p1 = Some a" "p2 = Some b" "elinkp (pdata F a) = Some e2" "elinkp (pdata F b) = Some e2" for a b e2
  proof -
    from that(1,2) r assms(3) have "a \<noteq> b" by (auto simp: ends_differ_def)
    from release_matched [OF assms(1) that(3,4) this]
    have "matched (release e2 a b F)" "\<And>p. elinkp (pdata (release e2 a b F) p) \<noteq> Some e" using fresh by auto
    moreover have "links_shape (release e2 a b F)" using assms(2) resolves_shape [OF release_resolves] by blast
    ultimately show ?thesis using associate_matched by blast
  qed
  show ?thesis unfolding ResolvePorts_def r using assms(1) assoc steal by (auto split: option.split)
qed

subsection \<open>Reading the links of a file\<close>

definition read_links :: "expected list \<Rightarrow> fabric_data \<Rightarrow> fabric_data" where
  "read_links es F = fold (\<lambda>e F. LinkXmlParserEnd True F e) es F"

lemma matched_links [simp]:
  "matched (F\<lparr>ExpectedLinks := x\<rparr>) = matched F" "links_shape (F\<lparr>ExpectedLinks := x\<rparr>) = links_shape F"
  by (simp_all add: matched_def ends_are_def links_shape_def)

lemma ends_differ_links [simp]: "ends_differ (F\<lparr>ExpectedLinks := x\<rparr>) = ends_differ F"
proof -
  let ?F = "F\<lparr>ExpectedLinks := x\<rparr>"
  have s: "pdata ?F = pdata F" "ndata ?F = ndata F" "AllNodes ?F = AllNodes F" "AllPorts ?F = AllPorts F" "ldata ?F = ldata F"
    by simp_all
  have f: "FindNodeGuid ?F = FindNodeGuid F" "LookupNodeName ?F = LookupNodeName F" "FindPortGuid ?F = FindPortGuid F"
    "FindNodePort ?F = FindNodePort F" "FindNodePortId ?F = FindNodePortId F" "neighbor_at ?F = neighbor_at F"
    by (intro ext; simp only: FindNodeGuid_def LookupNodeName_def FindPortGuid_def FindNodePort_def FindNodePortId_def
        neighbor_at_def s)+
  have sels: "ResolvePortSelector ?F = ResolvePortSelector F" by (rule ext) (simp only: ResolvePortSelector_def f s)
  have "resolve_ends ?F l = resolve_ends F l" for l unfolding resolve_ends_def sels f s ..
  then show ?thesis by (simp add: fun_eq_iff ends_differ_def)
qed

lemma resolves_ends_differ: "resolves F G \<Longrightarrow> ends_differ G e = ends_differ F e"
  by (simp add: ends_differ_def resolve_ends_same)

text \<open>What reading links leaves of the fabric.\<close>

definition read_into :: "fabric_data \<Rightarrow> fabric_data \<Rightarrow> bool" where
  "read_into F G \<longleftrightarrow> resolves F (G\<lparr>ExpectedLinks := ExpectedLinks F\<rparr>)"

lemma read_into_fields:
  assumes "read_into F G"
  shows "AllPorts G = AllPorts F" "LinkCount G = LinkCount F" "neighbor (pdata G p) = neighbor (pdata F p)"
    "fromp (pdata G p) = fromp (pdata F p)" "links_shape G = links_shape F" "no_loops G = no_loops F"
proof -
  note r = assms [unfolded read_into_def]
  show "AllPorts G = AllPorts F" "LinkCount G = LinkCount F" using resolves_fields [OF r] by simp_all
  show "neighbor (pdata G p) = neighbor (pdata F p)" "fromp (pdata G p) = fromp (pdata F p)"
    using resolves_port [OF r, of p] by simp_all
  show "links_shape G = links_shape F" using resolves_shape [OF r] by simp
  show "no_loops G = no_loops F" using resolves_loops [OF r] by (simp add: no_loops_def)
qed

lemma read_link_step:
  assumes "matched F" "links_shape F" "ends_differ F e" "\<And>p. elinkp (pdata F p) \<noteq> Some e"
  shows "matched (LinkXmlParserEnd True F e)" "read_into F (LinkXmlParserEnd True F e)"
    "ExpectedLinks (LinkXmlParserEnd True F e) = ExpectedLinks F @ [e]"
    "elinkp (pdata (LinkXmlParserEnd True F e) p) = Some e' \<Longrightarrow> e' = e \<or> elinkp (pdata F p) = Some e'"
    "links_shape (LinkXmlParserEnd True F e)" "ends_differ (LinkXmlParserEnd True F e) = ends_differ F"
proof -
  note r = resolve_ports_resolves [of F e]
  let ?G = "ResolvePorts F e"
  have G: "LinkXmlParserEnd True F e = ?G\<lparr>ExpectedLinks := ExpectedLinks F @ [e]\<rparr>"
    by (simp add: LinkXmlParserEnd_def Let_def resolves_fields [OF r])
  have same: "?G\<lparr>ExpectedLinks := ExpectedLinks F\<rparr> = ?G" using resolves_fields(5) [OF r] by (cases ?G) simp
  show "matched (LinkXmlParserEnd True F e)" unfolding G using resolve_ports_matched [OF assms] by simp
  show "read_into F (LinkXmlParserEnd True F e)" unfolding G read_into_def using r same by simp
  show "ExpectedLinks (LinkXmlParserEnd True F e) = ExpectedLinks F @ [e]" unfolding G by simp
  show "links_shape (LinkXmlParserEnd True F e)" unfolding G using resolves_shape [OF r] assms(2) by simp
  show "ends_differ (LinkXmlParserEnd True F e) = ends_differ F" unfolding G using resolves_ends_differ [OF r] by auto
  show "e' = e \<or> elinkp (pdata F p) = Some e'" if "elinkp (pdata (LinkXmlParserEnd True F e) p) = Some e'"
    using that resolve_ports_elinks [of F e p e'] unfolding G by simp
qed

lemma read_into_trans: "read_into F G \<Longrightarrow> read_into G H \<Longrightarrow> read_into F H"
proof -
  assume a: "read_into F G" "read_into G H"
  have "resolves (G\<lparr>ExpectedLinks := x\<rparr>) (H\<lparr>ExpectedLinks := x\<rparr>)" for x
    using a(2) unfolding read_into_def resolves_def by (cases G; cases H) simp
  then show ?thesis using a(1) resolves_trans unfolding read_into_def by blast
qed

lemma read_links_matched:
  assumes "matched F" "links_shape F" "distinct es" "\<And>e. e \<in> set es \<Longrightarrow> ends_differ F e"
    "\<And>p e. e \<in> set es \<Longrightarrow> elinkp (pdata F p) \<noteq> Some e"
  shows "matched (read_links es F) \<and> read_into F (read_links es F) \<and>
    ExpectedLinks (read_links es F) = ExpectedLinks F @ es \<and>
    (\<forall>p e. elinkp (pdata (read_links es F) p) = Some e \<longrightarrow> e \<in> set es \<or> elinkp (pdata F p) = Some e)"
  using assms
proof (induction es arbitrary: F)
  case Nil
  have "F\<lparr>ExpectedLinks := ExpectedLinks F\<rparr> = F" by (cases F) simp
  with Nil show ?case by (simp add: read_links_def read_into_def)
next
  case (Cons e es)
  let ?G = "LinkXmlParserEnd True F e"
  have "ends_differ F e" "\<And>p. elinkp (pdata F p) \<noteq> Some e" using Cons.prems(4,5) by simp_all
  note step = read_link_step [OF Cons.prems(1,2) this]
  have d: "distinct es" "\<And>x. x \<in> set es \<Longrightarrow> ends_differ ?G x" using Cons.prems(3,4) step(6) by simp_all
  have fresh: "elinkp (pdata ?G p) \<noteq> Some x" if "x \<in> set es" for p x
    using step(4) [of p x] that Cons.prems(3,5) by auto
  note IH = Cons.IH [OF step(1,5) d fresh]
  have "read_links (e # es) F = read_links es ?G" by (simp add: read_links_def)
  moreover have "x \<in> set (e # es) \<or> elinkp (pdata F p) = Some x" if "elinkp (pdata (read_links es ?G) p) = Some x" for p x
  proof -
    from IH that have "x \<in> set es \<or> elinkp (pdata ?G p) = Some x" by blast
    then show ?thesis using step(4) [of p x] by auto
  qed
  ultimately show ?case using IH step(3) read_into_trans [OF step(2)] by simp
qed

end
