(* ===== verification/Topology_Claims.thy ===== *)
theory Topology_Claims
  imports Topology_Props Verify_Claims
begin

text \<open>
  The properties of the resolution of expected links, up to what a clean verification report
  says about the fabric and the topology file.
\<close>

subsection \<open>The end of a link that counts\<close>

definition from_end :: "fabric_data \<Rightarrow> expected \<Rightarrow> port" where
  "from_end G e = (case (portp1 (ldata G e), portp2 (ldata G e)) of
       (Some p, Some q) \<Rightarrow> if fromp (pdata G p) then p else q
     | _ \<Rightarrow> 0)"

lemma found_ends:
  assumes "matched G" "no_loops G" "expected_link_found G e"
  obtains p q where "portp1 (ldata G e) = Some p" "portp2 (ldata G e) = Some q" "neighbor (pdata G p) = Some q"
    "elinkp (pdata G p) = Some e" "elinkp (pdata G q) = Some e"
proof -
  from assms(3) obtain p q where e: "portp1 (ldata G e) = Some p" "portp2 (ldata G e) = Some q"
    "elinkp (pdata G p) = Some e" "elinkp (pdata G q) = Some e"
    by (auto simp: expected_link_found_def split: option.splits)
  from assms(1) e(3) obtain r where r: "neighbor (pdata G p) = Some r" "ends_are G e p r" by (rule matchedD)
  then have "r = q \<or> r = p" using e(1,2) by (auto simp: ends_are_def)
  with r(1) assms(2) have "neighbor (pdata G p) = Some q" by (auto simp: no_loops_def)
  with e that show ?thesis by blast
qed

lemma from_end_found:
  assumes "matched G" "no_loops G" "links_shape G" "expected_link_found G e"
  shows "fromp (pdata G (from_end G e))" "elinkp (pdata G (from_end G e)) = Some e"
proof -
  obtain p q where e: "portp1 (ldata G e) = Some p" "portp2 (ldata G e) = Some q" "neighbor (pdata G p) = Some q"
    "elinkp (pdata G p) = Some e" "elinkp (pdata G q) = Some e"
    using found_ends [OF assms(1,2,4)] .
  have "p \<noteq> q" using e(3) assms(2) by (auto simp: no_loops_def)
  then have "fromp (pdata G p) \<noteq> fromp (pdata G q)" using assms(3) e(3) unfolding links_shape_def by metis
  then show "fromp (pdata G (from_end G e))" "elinkp (pdata G (from_end G e)) = Some e"
    using e by (auto simp: from_end_def)
qed

lemma from_end_only:
  assumes "matched G" "no_loops G" "links_shape G" "expected_link_found G e" "fromp (pdata G p)" "elinkp (pdata G p) = Some e"
  shows "from_end G e = p"
proof -
  obtain a b where e: "portp1 (ldata G e) = Some a" "portp2 (ldata G e) = Some b" "neighbor (pdata G a) = Some b"
    using found_ends [OF assms(1,2,4)] .
  have "a \<noteq> b" using e(3) assms(2) by (auto simp: no_loops_def)
  then have f: "fromp (pdata G a) \<noteq> fromp (pdata G b)" using assms(3) e(3) unfolding links_shape_def by metis
  from assms(1,6) obtain q where "ends_are G e p q" by (rule matchedD)
  then have "p = a \<or> p = b" using e(1,2) by (auto simp: ends_are_def)
  then show ?thesis using assms(5) f e(1,2) by (auto simp: from_end_def)
qed

lemma clean_bijection:
  assumes G: "matched G" "no_loops G" "links_shape G"
    and found: "\<And>e. e \<in> set es \<Longrightarrow> expected_link_found G e"
    and links: "\<And>p. fromp (pdata G p) \<Longrightarrow> link_matches G p"
    and only: "\<And>p e. elinkp (pdata G p) = Some e \<Longrightarrow> e \<in> set es"
  shows "bij_betw (from_end G) (set es) {p. fromp (pdata G p)}"
  unfolding bij_betw_def
proof
  show "inj_on (from_end G) (set es)"
  proof (rule inj_onI)
    fix e e' assume "e \<in> set es" "e' \<in> set es" "from_end G e = from_end G e'"
    with from_end_found(2) [OF G found] show "e = e'" by (metis option.inject)
  qed
  have "p \<in> from_end G ` set es" if "fromp (pdata G p)" for p
  proof -
    from links [OF that] obtain e where e: "elinkp (pdata G p) = Some e"
      by (auto simp: link_matches_def split: option.splits)
    with only have "e \<in> set es" .
    with from_end_only [OF G found that e] show ?thesis by (rule_tac image_eqI) simp_all
  qed
  then show "from_end G ` set es = {p. fromp (pdata G p)}" using from_end_found(1) [OF G found] by auto
qed

subsection \<open>A concrete topology\<close>

text \<open>Two expected links: the first names the two ends of the link of the fabric, the second its
  switch and no port.\<close>

definition sel_of :: "uint64 \<Rightarrow> uint16 option \<Rightarrow> port_selector" where
  "sel_of guid num = \<lparr>ps_PortGUID = 0, ps_NodeGUID = guid, ps_PortNum = (case num of None \<Rightarrow> 0 | Some k \<Rightarrow> k),
     gotPortNum = (num \<noteq> None), ps_NodeType = 0, ps_NodeDesc = None, ps_PortId = None, ps_enodep = None\<rparr>"

definition topo_link :: "port_selector \<Rightarrow> port_selector \<Rightarrow> expected_link" where
  "topo_link s1 s2 = \<lparr>portselp1 = Some s1, portselp2 = Some s2, portp1 = None, portp2 = None, expected_rate = 7,
     expected_mtu = 0, expected_mtu2 = 1500, internal = False, matchLevel = 0\<rparr>"

definition topo_fabric :: fabric_data where
  "topo_fabric = linked_fabric\<lparr>ldata := \<lambda>e.
     if e = 0 then topo_link (sel_of 10 (Some 1)) (sel_of 30 (Some 3))
     else topo_link (sel_of 30 None) (sel_of 30 (Some 3))\<rparr>"

lemma topo_fabric_pdata: "pdata topo_fabric = linked sample_fabric 0 2"
  by (simp add: topo_fabric_def linked_fabric_pdata)

lemma topo_fabric_links_ok: "links_ok topo_fabric"
proof -
  have l: "links_ok linked_fabric" using add_link_ok [OF sample_links_ok, of 0 2] by (simp add: linked_fabric_def)
  have s: "pdata topo_fabric = pdata linked_fabric" "ndata topo_fabric = ndata linked_fabric" by (simp_all add: topo_fabric_def)
  have "links_counted topo_fabric = links_counted linked_fabric"
    unfolding links_counted_def counted_congs [OF s] by (simp add: topo_fabric_def)
  with l links_shape_cong [OF s(1)] show ?thesis by (simp add: links_ok_def)
qed

lemma topo_fabric_fresh: "elinkp (pdata topo_fabric p) = None" "no_loops topo_fabric"
  "fromp (pdata topo_fabric p) \<Longrightarrow> p \<in> set (AllPorts topo_fabric)" "ExpectedLinks topo_fabric = []"
  "AllPorts topo_fabric = [0, 1, 2]"
proof -
  show "elinkp (pdata topo_fabric p) = None" "no_loops topo_fabric"
    by (simp_all add: topo_fabric_pdata linked_def sample_port_def no_loops_def)
  show a: "AllPorts topo_fabric = [0, 1, 2]" "ExpectedLinks topo_fabric = []"
    using linked_fabric_port by (simp_all add: topo_fabric_def)
  show "p \<in> set (AllPorts topo_fabric)" if "fromp (pdata topo_fabric p)"
    using that unfolding a by (auto simp: topo_fabric_pdata linked_def split: if_splits)
qed

lemma topo_fabric_ends: "ends_differ topo_fabric 0"
proof -
  have "resolve_ends topo_fabric (ldata topo_fabric 0) = (Some 0, Some 2, 5)" by code_simp
  then show ?thesis by (simp add: ends_differ_def)
qed

subsection \<open>The properties\<close>

text \<open>
  C37.  Reading the links of a topology file, whatever their selectors say, keeps the ports and
  the expected links consistent, if no link has both its selectors resolve to one port: a port
  carries an expected link only together with its neighbour, and the two are the two ports of
  the link.  So the assertions of \<^verbatim>\<open>LinkFabricVerify\<close> hold.
\<close>

theorem reading_links_consistent:
  assumes "links_ok F" "\<And>p. elinkp (pdata F p) = None" "distinct es" "\<And>e. e \<in> set es \<Longrightarrow> ends_differ F e"
  shows "matched (read_links es F) \<and>
    (\<forall>p q. neighbor (pdata (read_links es F) p) = Some q \<longrightarrow>
      elinkp (pdata (read_links es F) p) = elinkp (pdata (read_links es F) q))"
proof -
  have s: "links_shape F" and m: "matched F" using assms(1,2) by (simp_all add: links_ok_def matched_def)
  let ?G = "read_links es F"
  from read_links_matched [OF m s assms(3,4)] assms(2) have G: "matched ?G" "read_into F ?G" by simp_all
  have sym: "neighbor (pdata ?G q) = Some p" if "neighbor (pdata ?G p) = Some q" for p q
    using that s unfolding read_into_fields(3) [OF G(2)] links_shape_def by blast
  have "elinkp (pdata ?G q) = Some e" if "neighbor (pdata ?G p) = Some q" "elinkp (pdata ?G p) = Some e" for p q e
    using G(1) that(2) by (rule matchedD) (simp add: that(1))
  with sym have "elinkp (pdata ?G p) = elinkp (pdata ?G q)" if "neighbor (pdata ?G p) = Some q" for p q
    using that by (metis not_None_eq)
  with G(1) show ?thesis by blast
qed

theorem reading_links_consistent_witness:
  "matched (read_links [0] topo_fabric) \<and>
   elinkp (pdata (read_links [0] topo_fabric) 0) = elinkp (pdata (read_links [0] topo_fabric) 2)"
proof -
  have "neighbor (pdata (read_links [0] topo_fabric) 0) = Some 2" by code_simp
  with reading_links_consistent [OF topo_fabric_links_ok topo_fabric_fresh(1), of "[0]"] topo_fabric_ends
  show ?thesis by simp
qed

text \<open>
  C38.  A clean report means that fabric and topology file agree, one to one.  If a topology file
  has been read into a fabric without expectations and the links report over the whole fabric
  counts no errors, then the expected links of the file and the links of the fabric correspond
  one to one, each link is accepted for its expected link, and there are as many links as the
  fabric's counter says.
\<close>

theorem clean_report_one_to_one:
  assumes "links_ok F" "no_loops F" "\<And>p. elinkp (pdata F p) = None" "ExpectedLinks F = []"
    and "\<And>p. fromp (pdata F p) \<Longrightarrow> p \<in> set (AllPorts F)" "length (AllPorts F) < 2 ^ 32"
    and "distinct es" "\<And>e. e \<in> set es \<Longrightarrow> ends_differ F e" "length es < 2 ^ 32"
    and "ShowVerifyLinksReport g True True (read_links es F) None REPORT_VERIFYLINKS detail = Some (Report T1 T2)"
    and "errors T1 = 0" "errors T2 = 0"
  shows "\<exists>f. bij_betw f (set es) {p. fromp (pdata F p)} \<and>
    (\<forall>e \<in> set es. elinkp (pdata (read_links es F) (f e)) = Some e \<and> link_matches (read_links es F) (f e)) \<and>
    LinkCount F = of_nat (length es)"
proof -
  let ?G = "read_links es F"
  have s: "links_shape F" and m: "matched F" using assms(1,3) by (simp_all add: links_ok_def matched_def)
  from read_links_matched [OF m s assms(7,8)] assms(3,4) have
    G: "matched ?G" "read_into F ?G" "ExpectedLinks ?G = es" and
    only: "\<And>p e. elinkp (pdata ?G p) = Some e \<Longrightarrow> e \<in> set es" by simp_all
  note fields = read_into_fields [OF G(2)]
  have shape: "links_shape ?G" "no_loops ?G" using fields s assms(2) by simp_all
  have wrong: "errors T1 = of_nat (length (filter (links.wrong g None REPORT_VERIFYLINKS ?G) (AllPorts ?G)))"
    "errors T2 = of_nat (length (filter (elinks.wrong g None REPORT_VERIFYLINKS ?G) (ExpectedLinks ?G)))"
    using report_errors [OF shape(1) assms(10)] by simp_all
  have found: "expected_link_found ?G e" if "e \<in> set es" for e
    using elinks.no_errors [of ?G g None REPORT_VERIFYLINKS] wrong(2) assms(9,12) that
    by (auto simp: G(3) elinks_wrong expected_in_report_def)
  have match: "link_matches ?G p" if "fromp (pdata ?G p)" for p
    using links.no_errors [of ?G g None REPORT_VERIFYLINKS] wrong(1) assms(5,6,11) that
    by (auto simp: fields links_wrong [OF shape(1)] link_in_report_def)
  have bij: "bij_betw (from_end ?G) (set es) {p. fromp (pdata ?G p)}"
    by (rule clean_bijection [OF G(1) shape(2,1) found match only])
  have "from_class any_link F = {p. fromp (pdata F p)}" by (simp add: from_class_def any_link_def)
  then have "LinkCount F = of_nat (card {p. fromp (pdata F p)})"
    using assms(1) by (simp add: links_ok_def links_counted_def counted_def)
  also have "\<dots> = of_nat (length es)"
    using bij_betw_same_card [OF bij] distinct_card [OF assms(7)] by (simp add: fields)
  finally have "LinkCount F = of_nat (length es)" .
  moreover have "elinkp (pdata ?G (from_end ?G e)) = Some e \<and> link_matches ?G (from_end ?G e)" if "e \<in> set es" for e
    using from_end_found [OF G(1) shape(2,1) found [OF that]] match by blast
  ultimately show ?thesis using bij by (intro exI [of _ "from_end ?G"]) (simp add: fields)
qed

theorem clean_report_one_to_one_witness:
  "\<exists>f. bij_betw f {0 :: expected} {p. fromp (pdata topo_fabric p)} \<and> LinkCount topo_fabric = 1"
proof -
  have "case ShowVerifyLinksReport sample_view True True (read_links [0] topo_fabric) None REPORT_VERIFYLINKS 0 of
      Some (Report T1 T2) \<Rightarrow> errors T1 = 0 \<and> errors T2 = 0 | _ \<Rightarrow> False" by code_simp
  then obtain T1 T2 where
    r: "ShowVerifyLinksReport sample_view True True (read_links [0] topo_fabric) None REPORT_VERIFYLINKS 0 = Some (Report T1 T2)"
      "errors T1 = 0" "errors T2 = 0"
    by (auto split: option.splits report.splits)
  have l: "length (AllPorts topo_fabric) < 2 ^ 32" by (simp add: topo_fabric_fresh(5))
  have d: "ends_differ topo_fabric e" if "e \<in> set [0]" for e using that topo_fabric_ends by simp
  have "\<exists>f. bij_betw f (set [0 :: expected]) {p. fromp (pdata topo_fabric p)} \<and>
    (\<forall>e \<in> set [0]. elinkp (pdata (read_links [0] topo_fabric) (f e)) = Some e \<and> link_matches (read_links [0] topo_fabric) (f e)) \<and>
    LinkCount topo_fabric = of_nat (length [0 :: nat])"
    by (rule clean_report_one_to_one [OF topo_fabric_links_ok topo_fabric_fresh(2,1,4,3) l _ d _ r]) simp_all
  then obtain f where "bij_betw f (set [0 :: expected]) {p. fromp (pdata topo_fabric p)}" "LinkCount topo_fabric = of_nat (length [0 :: nat])"
    by blast
  then show ?thesis by (intro exI [of _ f]) simp
qed

text \<open>
  C39.  That exception is needed.  If both selectors of a link resolve to one port and
  match it better than the link the port has, then that link is released, but its other port
  keeps it: the port and its neighbour end up with different expectations, and the link is
  reported as unexpected, without a message, though both its ends have been read.
\<close>

theorem self_link_breaks_consistency:
  assumes "matched F" "no_loops F" "resolve_ends F (ldata F e) = (Some a, Some a, level)"
    and "elinkp (pdata F a) = Some e2" "matchLevel (ldata F e2) < level" "e \<noteq> e2"
  shows "\<exists>q. neighbor (pdata F a) = Some q \<and> elinkp (pdata (ResolvePorts F e) a) = None \<and>
    elinkp (pdata (ResolvePorts F e) q) = Some e2 \<and> portp1 (ldata (ResolvePorts F e) e2) = None \<and>
    \<not> matched (ResolvePorts F e) \<and> LinkFabricVerify (ResolvePorts F e) a 0 = Some (LINK_VERIFY_UNEXPECTED, [])"
proof -
  obtain q where q: "neighbor (pdata F a) = Some q" "elinkp (pdata F q) = Some e2" using assms(1,4) by (rule matchedD)
  have "q \<noteq> a" using q(1) assms(2) by (auto simp: no_loops_def)
  let ?G = "ResolvePorts F e"
  have G: "?G = associate e (Some a) (Some a) level (release e2 a a F)"
    using assms(3-5) by (simp add: ResolvePorts_def)
  have n: "neighbor (pdata (release e2 a a F) a) \<noteq> Some a" using q(1) \<open>q \<noteq> a\<close> by (simp add: release_def)
  then have a: "pdata ?G = pdata (release e2 a a F)" "ldata ?G e2 = ldata (release e2 a a F) e2"
    using assms(6) unfolding G by (simp_all add: associate_def)
  then have "elinkp (pdata ?G a) = None" "elinkp (pdata ?G q) = Some e2" "neighbor (pdata ?G a) = Some q"
    "portp1 (ldata ?G e2) = None" using q \<open>q \<noteq> a\<close> by (simp_all add: release_def)
  moreover from this have "\<not> matched ?G"
    unfolding matched_def ends_are_def by (metis option.distinct(1))
  moreover from calculation have "LinkFabricVerify ?G a 0 = Some (LINK_VERIFY_UNEXPECTED, [])"
    by (simp add: LinkFabricVerify_def)
  ultimately show ?thesis using q(1) by blast
qed

definition self_fabric :: fabric_data where
  "self_fabric = read_links [0] (linked_fabric\<lparr>ldata := \<lambda>e.
     if e = 0 then topo_link (sel_of 10 None) (sel_of 30 (Some 3))
     else topo_link (sel_of 30 (Some 3)) (sel_of 30 (Some 3))\<rparr>)"

theorem self_link_breaks_consistency_witness:
  "LinkFabricVerify (ResolvePorts self_fabric 1) 2 0 = Some (LINK_VERIFY_UNEXPECTED, [])"
proof -
  let ?F = "linked_fabric\<lparr>ldata := \<lambda>e.
     if e = 0 then topo_link (sel_of 10 None) (sel_of 30 (Some 3))
     else topo_link (sel_of 30 (Some 3)) (sel_of 30 (Some 3))\<rparr>"
  have pd: "pdata ?F = pdata topo_fabric" by (simp add: topo_fabric_def)
  have "links_shape ?F" using links_shape_cong [OF pd] topo_fabric_links_ok by (simp add: links_ok_def)
  moreover have "matched ?F" using topo_fabric_fresh(1) by (simp add: matched_def pd)
  moreover have "resolve_ends ?F (ldata ?F 0) = (Some 0, Some 2, 4)" by code_simp
  then have "ends_differ ?F 0" by (simp add: ends_differ_def)
  ultimately have "matched self_fabric \<and> read_into ?F self_fabric"
    unfolding self_fabric_def using read_links_matched [of ?F "[0]"] topo_fabric_fresh(1) by (simp add: pd)
  moreover have "no_loops ?F" using topo_fabric_fresh(2) by (simp add: no_loops_def pd)
  ultimately have "matched self_fabric" "no_loops self_fabric" using read_into_fields(6) by blast+
  moreover have "resolve_ends self_fabric (ldata self_fabric 1) = (Some 2, Some 2, 5)" by code_simp
  moreover have "elinkp (pdata self_fabric 2) = Some 0" by code_simp
  moreover have "matchLevel (ldata self_fabric 0) < 5" by code_simp
  moreover have "(1 :: expected) \<noteq> 0" by simp
  ultimately show ?thesis using self_link_breaks_consistency [of self_fabric 1 2 5 0] by blast
qed

end
