(* ===== verification/Topology_Valid_Claims.thy ===== *)
theory Topology_Valid_Claims
  imports Topology_Graph Topology_Claims
begin

text \<open>
  The properties of the expected ports and of the validation of a topology file.
\<close>

text \<open>
  \<^verbatim>\<open>ExpectedNodeAddPort\<close>, for a port number below 32768, enters a port that is not
  there, growing the array as needed, and refuses one that is; what
  \<^verbatim>\<open>ExpectedNodeGetPort\<close> finds at other numbers does not change, and the array stays sound.
\<close>

theorem expected_port_add_get:
  assumes "en_ok en" "ep_PortNum ep \<le> MAX_EXPECTED_PORT"
  shows "\<exists>en'. ExpectedNodeAddPort True en ep =
      Some (if ExpectedNodeGetPort en (ep_PortNum ep) = Some None then FSUCCESS else FDUPLICATE, en') \<and>
    en_ok en' \<and>
    ExpectedNodeGetPort en' = (if ExpectedNodeGetPort en (ep_PortNum ep) = Some None
      then (ExpectedNodeGetPort en)(ep_PortNum ep := Some (Some ep)) else ExpectedNodeGetPort en)"
proof -
  from add_port [OF assms] obtain en' where
    a: "ExpectedNodeAddPort True en ep = Some (if port_at en (ep_PortNum ep) = None then FSUCCESS else FDUPLICATE, en')"
      "en_ok en'" "port_at en' = (if port_at en (ep_PortNum ep) = None then (port_at en)(ep_PortNum ep := Some ep) else port_at en)"
    by blast
  have g: "ExpectedNodeGetPort en k = Some (port_at en k)" "ExpectedNodeGetPort en' k = Some (port_at en' k)" for k
    using get_port assms(1) a(2) by simp_all
  show ?thesis
  proof (cases "port_at en (ep_PortNum ep)")
    case None
    then show ?thesis using a by (intro exI [of _ en']) (simp add: g fun_eq_iff)
  next
    case (Some x)
    then show ?thesis using a by (intro exI [of _ en']) (simp add: g fun_eq_iff)
  qed
qed

definition bare_enode :: "uint64 \<Rightarrow> uint8 \<Rightarrow> expected_node" where
  "bare_enode guid ty = \<lparr>en_nodep = None, en_NodeGUID = guid, en_NodeType = ty, en_NodeDesc = None, portsSize = 0,
     ports = [], connected = False\<rparr>"

theorem expected_port_add_get_witness:
  "\<exists>en'. ExpectedNodeAddPort True (bare_enode 10 1) (new_port 3) = Some (FSUCCESS, en') \<and>
    ExpectedNodeGetPort en' 3 = Some (Some (new_port 3))"
proof -
  have "en_ok (bare_enode 10 1)" "ExpectedNodeGetPort (bare_enode 10 1) 3 = Some None"
    by (simp_all add: en_ok_def bare_enode_def ExpectedNodeGetPort_def)
  with expected_port_add_get [of "bare_enode 10 1" "new_port 3"] show ?thesis by (auto simp: new_port_def)
qed

text \<open>
  The bound is needed: the size of the array is computed in an \<^verbatim>\<open>int\<close> but kept in
  16 bits.  Adding port 65535 to a node without ports succeeds, allocates 65536 elements, and
  leaves a node of size 0, in which the port is not found.
\<close>

theorem expected_port_size_wraps:
  assumes "portsSize en = 0" "ep_PortNum ep = 0xFFFF"
  shows "\<exists>en'. ExpectedNodeAddPort True en ep = Some (FSUCCESS, en') \<and> length (ports en') = 65536 \<and> portsSize en' = 0 \<and>
    ExpectedNodeGetPort en' 0xFFFF = Some None"
  using add_port_wraps [OF assms] by blast

theorem expected_port_size_wraps_witness:
  "\<exists>en'. ExpectedNodeAddPort True (bare_enode 10 1) (new_port 0xFFFF) = Some (FSUCCESS, en') \<and> portsSize en' = 0"
  using expected_port_size_wraps [of "bare_enode 10 1" "new_port 0xFFFF"] by (auto simp: bare_enode_def new_port_def)

text \<open>
  C40.  The validation of a topology file in a strict mode always returns, whichever
  allocations fail.  If it succeeds, then there are links, every link that names a port at all
  is between two different ports of expected nodes, each of which has this link and so no
  other, and all expected nodes are reachable from one of them over such links.
\<close>

theorem topology_validate_sound:
  assumes "topo_wf F" "strict v"
  shows "\<exists>st G. TopologyValidate ok v F = Some (st, G) \<and>
    (st = FSUCCESS \<longrightarrow> ExpectedLinks F \<noteq> [] \<and>
      (\<forall>e \<in> set (ExpectedLinks F). empty_link F e \<or> fully_linked G e) \<and>
      (\<exists>r. \<forall>n \<in> enodes F. (r, n) \<in> (joined G)\<^sup>*))"
  using assms by (rule topology_validate)

text \<open>A switch and a host that is linked with it.\<close>

definition valid_fabric :: fabric_data where
  "valid_fabric = topo_fabric\<lparr>ExpectedLinks := [0], ExpectedSWs := [0], ExpectedFIs := [1],
     ExpectedNodeGuidMap := [(10, 1), (30, 0)],
     edata := \<lambda>e. if e = 0 then bare_enode 30 NODE_SW else bare_enode 10 NODE_FI\<rparr>"

lemma valid_fabric_wf: "topo_wf valid_fabric"
proof -
  have ports: "portsSize (edata valid_fabric n) = 0" "ports (edata valid_fabric n) = []" "\<not> connected (edata valid_fabric n)" for n
    by (simp_all add: valid_fabric_def bare_enode_def)
  have "selector_small valid_fabric 0"
    by (simp add: selector_small_def end_selector_def valid_fabric_def topo_fabric_def topo_link_def sel_of_def)
  moreover have "enodes valid_fabric = {0, 1}" "ExpectedNodeGuidMap valid_fabric = [(10, 1), (30, 0)]"
    "ExpectedLinks valid_fabric = [0]" by (auto simp: enodes_def valid_fabric_def)
  ultimately show ?thesis
    by (simp add: topo_wf_def map_ok_def en_ok_def is_marked_def ports elinks_def elink_at_def port_at_def)
qed

theorem topology_validate_sound_witness:
  "\<exists>G. TopologyValidate (\<lambda>_ _. (True, True)) TOPOVAL_SOMEWHAT_STRICT valid_fabric = Some (FSUCCESS, G) \<and>
    fully_linked G 0 \<and> (\<exists>r. (r, 0) \<in> (joined G)\<^sup>* \<and> (r, 1) \<in> (joined G)\<^sup>*)"
proof -
  have s: "map_option fst (TopologyValidate (\<lambda>_ _. (True, True)) TOPOVAL_SOMEWHAT_STRICT valid_fabric) = Some FSUCCESS"
    by code_simp
  have l: "ExpectedLinks valid_fabric = [0]" "\<not> empty_link valid_fabric 0" "enodes valid_fabric = {0, 1}"
    by (auto simp: empty_link_def enodes_def valid_fabric_def topo_fabric_def topo_link_def)
  from topology_validate_sound [OF valid_fabric_wf, of TOPOVAL_SOMEWHAT_STRICT "\<lambda>_ _. (True, True)"] obtain st G where
    "TopologyValidate (\<lambda>_ _. (True, True)) TOPOVAL_SOMEWHAT_STRICT valid_fabric = Some (st, G)"
    "st = FSUCCESS \<longrightarrow> (\<forall>e \<in> set (ExpectedLinks valid_fabric). empty_link valid_fabric e \<or> fully_linked G e) \<and>
      (\<exists>r. \<forall>n \<in> enodes valid_fabric. (r, n) \<in> (joined G)\<^sup>*)"
    by (auto simp: strict_def)
  with s l show ?thesis by (intro exI [of _ G]) simp
qed

end
