(* ===== verification/Spec2Isabelle.thy ===== *)
theory Spec2Isabelle
  imports Discovery_Claims Snmp_Claims List_Claims QMap_Props QMap_KeyMap BitVector_Props PortNumGen_Claims Point_Claims Fabric_Claims Verify_Claims Topology_Valid_Claims
begin

text \<open>
  Verification of the host software of Intel Ethernet Fast Fabric.

  \<^bold>\<open>The program.\<close> The fast fabric tools look at an Ethernet fabric, compare it with a description of
  what it should be, and report.  The part that is built consists of utility code
  (\<^verbatim>\<open>IbAccess/Common/Public\<close>: quick maps, bit vectors, lists, arrays), the fabric library
  (\<^verbatim>\<open>Topology\<close>: the data of a fabric, its discovery over SNMP, points of focus, searches, the topology
  file), an XML library and the tools (\<^verbatim>\<open>IbaTools\<close>, above all \<^verbatim>\<open>ethreport\<close>).  A run of
  ethreport discovers the fabric into a \<^verbatim>\<open>FabricData_t\<close> (nodes, ports, links; quick maps by GUID; a
  map by LID), reads a topology file whose expected links and nodes are matched with it, validates the
  file, parses the focus of the report into a \<^verbatim>\<open>Point\<close>, and prints verification reports.  The
  development follows this order, from the utility code up to the report.

  \<^bold>\<open>Prelude.\<close> \<open>Prelude\<close> has the integer types, \<^verbatim>\<open>FSTATUS\<close> and lemmas on words, lists and options.

  \<^bold>\<open>Quick map\<close> (\<^verbatim>\<open>iquickmap.c\<close>, \<^verbatim>\<open>iquickmap.h\<close>).  \<open>QMap_Heap\<close> is the pointer program: a heap of
  items and map headers with the fields of \<^verbatim>\<open>cl_map_item_t\<close>, the rotations, lookups, insertion and
  removal with their rebalancing loops as partial functions.  \<open>QMap_Tree\<close> is the functional view (coloured
  trees and paths), \<open>QMap_Rep\<close> says when a heap holds a tree, \<open>QMap_Inv\<close> is the invariant of a map (red-black
  tree, ordered threaded list, count), \<open>QMap_Lookup\<close>, \<open>QMap_Insert\<close>, \<open>QMap_Insert_Spec\<close>, \<open>QMap_Remove\<close> and
  \<open>QMap_Remove_Spec\<close> show that each operation returns and what it does to the items, and \<open>QMap_Props\<close>
  that every program of insertions and removals refines a finite map.  \<open>KeyMap\<close> is the interface that
  the clients rely on, a locale; \<open>KeyMap\<close> interprets it on lists in key order, the form in which all
  other theories hold their maps, and \<open>QMap_KeyMap\<close> on the pointer program, with the theorem that the
  two agree on every program and that a walk meets the entries in order.  This is what justifies the lists.

  \<^bold>\<open>Lists\<close> (\<^verbatim>\<open>ilist.h\<close>, \<^verbatim>\<open>ilist.c\<close>, \<^verbatim>\<open>iobjmgr.c\<close>).  \<open>QList\<close> is the pointer program of the quick list: a
  heap of items and list heads with next, previous, object and count, and every operation of it.  \<open>QList_Inv\<close>
  says when a heap holds a list (\<open>qlist\<close>, a ring of items through the head), \<open>QList_Ops\<close>, \<open>QList_Chains\<close> and
  \<open>QList_Moves\<close> give each operation as a function of the sequence of items.  \<open>LQList\<close> has the locked lists:
  each critical section is one step, and the two functions that chain one list into another are two
  sections with a chain in flight between them.  \<open>LQList_System\<close> is the specification of threads that run
  such sections in any order, as a step relation on sequences with the obligations of the callers;
  \<open>LQList_Props\<close> and \<open>LQList_Sim\<close> show its invariant and that the heap follows it.  \<open>DList\<close> has the memory (the
  blocks that malloc returns are an argument, and one that breaks the contract of malloc is a failed
  allocation), the object manager, and the list of objects with its pool of free items, the queue and the
  stack; \<open>DList_Inv\<close> is its invariant, with the pool, \<open>DList_Ops\<close> and \<open>DList_Life\<close> its operations.
  \<open>ObjectList\<close> is the interface of a list of objects, a locale interpreted on \<open>DList\<close>, in which programs of
  queue operations are shown to be first in, first out.  \<open>List_Claims\<close> has the properties.  The sizes are
  those of a 64-bit machine; a pool grows by \<open>n\<close> items with \<open>24 * (n + 1) < 2 ^ 32\<close>.  Lists that other
  theories use (those of points, ports and links) appear there as sequences, which is what \<open>qlist\<close> and
  the invariant of \<open>DList\<close> relate heaps to.

  \<^bold>\<open>Bit vector\<close> (\<^verbatim>\<open>ibitvector.c\<close>).  \<open>BitVector\<close> has the operations over an optional array of 32-bit
  words, with sizes at their width; \<open>BitVector_Lemmas\<close> and \<open>BitVector_Props\<close> show growth, writes, ranges
  and searches, and where 32-bit sizes wrap.

  \<^bold>\<open>Port numbers\<close> (\<^verbatim>\<open>Topology/port_num_gen.c\<close>).  \<open>PortNumGen\<close> has the model of names, segments and groups,
  \<open>PortNumGen_Parse\<close> the parser against a declarative reading of names, \<open>PortNumGen_Props\<close> and
  \<open>PortNumGen_Claims\<close> registration, sorting and the separation of groups.

  \<^bold>\<open>Points\<close> (\<^verbatim>\<open>Topology/point.c\<close>).  \<open>Point\<close> has the points and their construction, \<open>Point_Compare\<close> the
  comparisons and compression, \<open>Point_Props\<close> and \<open>Point_Claims\<close> the properties: appending with all error
  paths, freedom of duplicates, compression as an equivalence, the aliasing of copies.

  \<^bold>\<open>Fabric\<close> (\<^verbatim>\<open>Topology/fabricdata.c\<close>).  \<open>Fabric\<close> has the records of ports, nodes, expected links and
  expected nodes, each kind in a store by address, and the addition and removal of links; \<open>FabricLinks\<close> the
  invariant of links, with the locale \<open>link_class\<close> for the counters (five interpretations); \<open>LidMap\<close> and
  \<open>LidMap_Props\<close> the map from LIDs to ports in both of its forms; \<open>Fabric_Claims\<close> the properties of both.

  \<^bold>\<open>Construction of a fabric\<close> (\<^verbatim>\<open>Topology/fabricdata.c\<close>).  \<open>FabricBuild\<close> adds to the fabric its systems,
  what discovery knows of the neighbours of a port, and memory, as a set of blocks in use and the addresses that
  malloc will return; it has the functions that initialise a fabric, add nodes and ports, build the lists and
  free everything.  \<open>FabricBuild_Inv\<close> is the invariant \<open>fabric_ok\<close>: nodes, systems and ports refer to each
  other, are distinct blocks, the LIDs are those of the active ports (\<open>FabricBuild_Lids\<close>), the links symmetric
  and counted; \<open>lost\<close> are the blocks that can no longer be reached.  \<open>FabricBuild_Node\<close> and
  \<open>FabricBuild_Add\<close> show what adding a node does, \<open>FabricBuild_Port\<close> adding a port, \<open>FabricBuild_Free\<close> and
  \<open>FabricBuild_Destroy\<close> freeing; \<open>FabricBuild_System\<close> has the programs of all these operations as a step
  relation, and the lists; \<open>FabricBuild_Blocks\<close> shows that the blocks of the array of LIDs, which are not
  in the set but in the array itself, are all freed; \<open>FabricBuild_Claims\<close> the properties.  They let every
  allocation fail but those of these blocks.

  \<^bold>\<open>Discovery\<close> (\<^verbatim>\<open>Topology/hpnmgt_snmp.c\<close>).  \<open>Discovery\<close> has the steps from the records of each host to
  the fabric (\<^verbatim>\<open>process_dev_data\<close>), from the reports of the switch ports to the links (\<^verbatim>\<open>process_fab_data\<close>)
  and the sweep that runs both (\<^verbatim>\<open>collect_data\<close>); \<open>Discovery_Props\<close> shows that the first keeps the
  invariant and only adds to the fabric, \<open>Discovery_Links\<close> that the second amounts to running a list of
  reports, and what that links; \<open>Discovery_Claims\<close> the properties.

  \<^bold>\<open>SNMP\<close> (the same file, and \<^verbatim>\<open>hpnmgt_snmp.h\<close>).  \<open>Snmp\<close> has the variables, the values of results and their
  conversions, \<open>SnmpNodes\<close> and \<open>SnmpPorts\<close> the records and counters that are made of the
  results of a device (\<^verbatim>\<open>populate_switch_node_record\<close> to \<^verbatim>\<open>populate_port_counters\<close>), each loop as a step
  per result; a value of another type than the code reads it as is outside the model (\<open>None\<close>).
  \<open>Snmp_Values\<close> shows that strings fit into their arrays, and the invariant of the records
  of a switch.  \<open>SnmpQuery\<close> has the queries and \<^verbatim>\<open>asynch_mixed_response\<close>; the device is an argument, a
  function from queries to answers.  \<open>SnmpQuery_Props\<close> states what SNMP (RFC 3416) promises of a device with
  a given MIB and has the order of OIDs, the invariant of an exchange and the bound of its
  rounds, \<open>Snmp_Claims\<close> the property.  The records that \<open>Discovery\<close> starts from are an argument there, with
  the condition \<open>responses_ok\<close>.

  \<^bold>\<open>Verification reports\<close> (\<^verbatim>\<open>IbaTools/ethreport/verify.c\<close>).  \<open>Verify\<close> has the checks of ports, links
  and nodes and the two reports with their tallies; \<open>Verify_Props\<close> the specification of a correct port, link
  and node; \<open>Verify_Report\<close> the locale \<open>verification\<close>, of what a loop over objects needs of its verdict, with
  an interpretation for each of the four loops; \<open>Verify_Claims\<close> the properties.

  \<^bold>\<open>Searches and the topology file\<close> (\<^verbatim>\<open>Topology/search.c\<close>, \<^verbatim>\<open>Topology/topology.c\<close>).  \<open>Search\<close> has the
  searches for one object; \<open>Topology\<close> the handlers that run when an expected link, node or port has been
  read; \<open>Topology_Props\<close> the invariant \<open>matched\<close> between ports and expected links; \<open>Topology_Claims\<close> the
  theorem that spans reading and reporting: a links report without errors makes expected links and links of
  the fabric correspond one to one.  \<open>Topology_Validate\<close> is the validation, \<open>Topology_Ports\<close>,
  \<open>Topology_Links\<close> and \<open>Topology_Graph\<close> its three layers (port arrays, links, the search for a disconnected
  node) and \<open>Topology_Valid_Claims\<close> its properties.

  \<^bold>\<open>How C is rendered.\<close> A struct is a record, a tag with its union a datatype, an object an address (a
  natural number) into a store or heap, a pointer that may be NULL an option.  Machine integers are words of
  their width where a wrap can matter.  Undefined behaviour (a read outside an array, NULL followed, a signed
  overflow) and a loop that does not end are both \<open>None\<close> of the result, so a theorem that gives \<open>Some\<close> shows
  that the code returns and stays inside its memory.  Loops that need not end are
  \<^theory_text>\<open>partial_function\<close>s, and each such function has a theorem that it returns.  Only the exchange over SNMP
  has fuel, its rounds: one per variable and row of the device is enough.
  Outcomes of allocations are arguments.  ASSERT is compiled out and is not modelled; messages and the
  layout of output are left out, but for the problems a verification reports.

  \<^bold>\<open>Bounds.\<close> Some theorems carry bounds, which are those the code needs: bit vectors below \<open>2 ^ 32 - 31\<close>
  bits, expected port numbers below 32768 (above, the 16-bit size of the array wraps, which a theorem
  shows), LIDs up to \<open>TOPLM_LID_MAX\<close>, counts of links and reports below \<open>2 ^ 32\<close>.

  \<^bold>\<open>Not modelled.\<close> The directories \<^verbatim>\<open>Ibt\<close> and \<^verbatim>\<open>SubnetDriver\<close>, most headers of \<^verbatim>\<open>Common/Inc\<close>
  and the resource managers, maps and pools of \<^verbatim>\<open>Common/Public\<close> are the
  InfiniBand stack this repository descends from and are not part of its build.  The sessions of net-snmp and the
  configuration of \<^verbatim>\<open>hpnmgt.c\<close> are input.  The XML tables and output functions, the text of
  the reports of \<^verbatim>\<open>ethreport.c\<close>, the snapshot files and the MPI applications are input and output.
  The arrays of \<^verbatim>\<open>iarray.c\<close>, the parser of focus arguments (\<^verbatim>\<open>focus.c\<close>) and the searches that fill a point with all objects of a kind are left to later work.
\<close>

end
